(* ===== verification/Prelude.thy ===== *)
theory Prelude
  imports Complex_Main "HOL-Library.AList" "HOL-Library.List_Lexorder" "HOL-Library.Char_ord"
    "HOL-Library.Sublist"
begin

text \<open>
  What the component theories share: the dynamic values of the Python program, dictionaries,
  the string operations of the standard library that the code calls, and effectful operations
  (state passing with exceptions).

  A Python dictionary is an association list: assignment to an existing key keeps its place,
  a new key goes to the end, which is what \<open>AList.update\<close> does, and iteration follows the list.
  Identifiers of type \<^verbatim>\<open>UUID\<close> are opaque and compared only for equality, so they are numbers.
\<close>

type_synonym uuid = nat

type_synonym ('k, 'v) dict = "('k \<times> 'v) list"

text \<open>The dynamically typed values that reach the code as \<^verbatim>\<open>Any\<close> (a date is its ISO form).\<close>

datatype pyval =
    PNone
  | PBool bool
  | PInt int
  | PStr string
  | PDate string
  | PList "pyval list"
  | PTuple "pyval list"
  | PDict "(string \<times> pyval) list"

text \<open>The truth value of a dynamic value.\<close>

fun truthy :: "pyval \<Rightarrow> bool" where
  "truthy PNone = False"
| "truthy (PBool b) = b"
| "truthy (PInt i) = (i \<noteq> 0)"
| "truthy (PStr s) = (s \<noteq> [])"
| "truthy (PDate d) = True"
| "truthy (PList xs) = (xs \<noteq> [])"
| "truthy (PTuple xs) = (xs \<noteq> [])"
| "truthy (PDict d) = (d \<noteq> [])"

text \<open>\<^verbatim>\<open>d.get(k)\<close> of a dictionary: a missing key reads \<^verbatim>\<open>None\<close>.\<close>

definition pget :: "(string \<times> pyval) list \<Rightarrow> string \<Rightarrow> pyval" where
  "pget d k = (case map_of d k of Some v \<Rightarrow> v | None \<Rightarrow> PNone)"

section \<open>Strings\<close>

text \<open>
  Strings are lists of ASCII characters. \<open>py_space\<close> is \<^verbatim>\<open>str.isspace\<close> on them, \<open>py_strip\<close> is
  \<^verbatim>\<open>str.strip()\<close> and \<open>split_on\<close> is \<^verbatim>\<open>str.split(sep)\<close> for a separator of one character.
\<close>

definition py_space :: "char \<Rightarrow> bool" where
  "py_space c = (let n = (of_char c :: nat) in n = 32 \<or> (9 \<le> n \<and> n \<le> 13) \<or> (28 \<le> n \<and> n \<le> 31))"

definition py_strip :: "string \<Rightarrow> string" where
  "py_strip s = rev (dropWhile py_space (rev (dropWhile py_space s)))"

fun split_on :: "char \<Rightarrow> string \<Rightarrow> string list" where
  "split_on c [] = [[]]"
| "split_on c (x # xs) =
     (if x = c then [] # split_on c xs
      else case split_on c xs of [] \<Rightarrow> [[x]] | w # ws \<Rightarrow> (x # w) # ws)"

lemma split_on_neq_Nil [simp]: "split_on c s \<noteq> []"
  by (induction s) (auto split: list.splits)

lemma split_on_no_sep: "c \<notin> set s \<Longrightarrow> split_on c s = [s]"
  by (induction s) auto

lemma split_on_append: "c \<notin> set w \<Longrightarrow> split_on c (w @ c # s) = w # split_on c s"
  by (induction w) auto

lemma split_on_no_sep_parts: "w \<in> set (split_on c s) \<Longrightarrow> c \<notin> set w"
  by (induction s arbitrary: w) (auto split: if_splits list.splits)

text \<open>Splitting and joining with the separator are inverse.\<close>

fun join_on :: "char \<Rightarrow> string list \<Rightarrow> string" where
  "join_on c [] = []"
| "join_on c [w] = w"
| "join_on c (w # v # vs) = w @ c # join_on c (v # vs)"

lemma join_split_on: "join_on c (split_on c s) = s"
proof (induction s)
  case (Cons x s)
  then show ?case by (cases "split_on c s" rule: remdups_adj.cases) auto
qed simp

lemma py_strip_Nil [simp]: "py_strip [] = []"
  by (simp add: py_strip_def)

lemma set_dropWhile_subset: "set (dropWhile P xs) \<subseteq> set xs"
  by (metis dropWhile_eq_drop set_drop_subset)

lemma set_py_strip: "set (py_strip s) \<subseteq> set s"
  using set_dropWhile_subset [of py_space s]
    set_dropWhile_subset [of py_space "rev (dropWhile py_space s)"]
  by (auto simp: py_strip_def)

lemma dropWhile_rev_dropWhile:
  "dropWhile P (rev (dropWhile P (rev (dropWhile P s)))) =
   rev (dropWhile P (rev (dropWhile P s)))"
proof (cases "dropWhile P s")
  case Nil
  then show ?thesis by (simp only: rev.simps dropWhile.simps)
next
  case (Cons x xs)
  then have x: "\<not> P x" by (metis hd_dropWhile list.distinct(1) list.sel(1))
  then have "dropWhile P (rev xs @ [x]) = dropWhile P (rev xs) @ [x]"
    by (induction "rev xs" arbitrary: xs) (auto simp: dropWhile_append)
  with Cons x show ?thesis by simp
qed

lemma py_strip_idem [simp]: "py_strip (py_strip s) = py_strip s"
proof -
  have "dropWhile py_space (py_strip s) = py_strip s"
    unfolding py_strip_def by (rule dropWhile_rev_dropWhile)
  then have "py_strip (py_strip s) = rev (dropWhile py_space (rev (py_strip s)))"
    by (simp add: py_strip_def [of "py_strip s"])
  also have "\<dots> = py_strip s"
    by (simp add: py_strip_def)
  finally show ?thesis .
qed

text \<open>The truth value Python gives an optional string: \<^verbatim>\<open>None\<close> and the empty string are false.\<close>

definition truthy_str :: "string option \<Rightarrow> bool" where
  "truthy_str s = (case s of None \<Rightarrow> False | Some t \<Rightarrow> t \<noteq> [])"

lemma truthy_str_simps [simp]:
  "\<not> truthy_str None" "truthy_str (Some t) \<longleftrightarrow> t \<noteq> []"
  by (simp_all add: truthy_str_def)

section \<open>Dictionaries\<close>

definition dict_keys :: "('k, 'v) dict \<Rightarrow> 'k list" where
  "dict_keys d = map fst d"

definition dict_values :: "('k, 'v) dict \<Rightarrow> 'v list" where
  "dict_values d = map snd d"

definition dict_wf :: "('k, 'v) dict \<Rightarrow> bool" where
  "dict_wf d = distinct (map fst d)"

lemma dict_wf_Nil [simp]: "dict_wf []"
  by (simp add: dict_wf_def)

lemma dict_wf_update [simp]: "dict_wf d \<Longrightarrow> dict_wf (AList.update k v d)"
  by (simp add: dict_wf_def distinct_update)

lemma dict_wf_delete [simp]: "dict_wf d \<Longrightarrow> dict_wf (AList.delete k d)"
  by (simp add: dict_wf_def distinct_delete)

lemma dict_wf_filter [simp]: "dict_wf d \<Longrightarrow> dict_wf (filter P d)"
  by (simp add: dict_wf_def distinct_map_filter)

lemma map_of_filter_keys:
  "map_of (filter (\<lambda>p. P (fst p)) d) k = (if P k then map_of d k else None)"
  by (induction d) auto

lemma map_of_dict_delete: "map_of (AList.delete k d) k' = (if k' = k then None else map_of d k')"
  by (simp add: delete_conv' [of k d])

lemma length_update_le: "length (AList.update k v d) \<le> Suc (length d)"
  by (induction d) auto

lemma length_update_new: "map_of d k = None \<Longrightarrow> length (AList.update k v d) = Suc (length d)"
  by (induction d) (auto split: if_splits)

lemma length_update_old: "map_of d k \<noteq> None \<Longrightarrow> length (AList.update k v d) = length d"
  by (induction d) (auto split: if_splits)

lemma length_delete_wf:
  "dict_wf d \<Longrightarrow> map_of d k \<noteq> None \<Longrightarrow> Suc (length (AList.delete k d)) = length d"
proof (induction d)
  case Nil
  then show ?case by simp
next
  case (Cons p d)
  show ?case
  proof (cases "fst p = k")
    case True
    with Cons.prems(1) have "k \<notin> fst ` set d" by (auto simp: dict_wf_def)
    then have "AList.delete k d = d" by (simp add: delete_id)
    with True show ?thesis by (cases p) simp
  next
    case False
    with Cons show ?thesis by (cases p) (auto simp: dict_wf_def)
  qed
qed

section \<open>Effectful operations\<close>

text \<open>
  An operation that reads and writes a state and may raise: it returns the exception or the
  value, and the state it leaves behind, also when it raises.
\<close>

type_synonym ('s, 'e, 'a) action = "'s \<Rightarrow> ('e + 'a) \<times> 's"

definition return_act :: "'a \<Rightarrow> ('s, 'e, 'a) action" where
  "return_act x = (\<lambda>s. (Inr x, s))"

definition raise_act :: "'e \<Rightarrow> ('s, 'e, 'a) action" where
  "raise_act e = (\<lambda>s. (Inl e, s))"

definition bind_act :: "('s, 'e, 'a) action \<Rightarrow> ('a \<Rightarrow> ('s, 'e, 'b) action) \<Rightarrow> ('s, 'e, 'b) action" where
  "bind_act m f = (\<lambda>s. case m s of (Inl e, s') \<Rightarrow> (Inl e, s') | (Inr x, s') \<Rightarrow> f x s')"

definition catch_act :: "('s, 'e, 'a) action \<Rightarrow> ('e \<Rightarrow> ('s, 'e, 'a) action) \<Rightarrow> ('s, 'e, 'a) action" where
  "catch_act m h = (\<lambda>s. case m s of (Inl e, s') \<Rightarrow> h e s' | (Inr x, s') \<Rightarrow> (Inr x, s'))"

definition guard_act :: "bool \<Rightarrow> 'e \<Rightarrow> ('s, 'e, unit) action" where
  "guard_act b e = (if b then return_act () else raise_act e)"

named_theorems action_simps "unfolding of effectful operations"

lemma return_act_app [simp, action_simps]: "return_act x s = (Inr x, s)"
  by (simp add: return_act_def)

lemma raise_act_app [simp, action_simps]: "raise_act e s = (Inl e, s)"
  by (simp add: raise_act_def)

lemma bind_act_app [action_simps]:
  "bind_act m f s = (case m s of (Inl e, s') \<Rightarrow> (Inl e, s') | (Inr x, s') \<Rightarrow> f x s')"
  by (simp add: bind_act_def)

lemma catch_act_app [action_simps]:
  "catch_act m h s = (case m s of (Inl e, s') \<Rightarrow> h e s' | (Inr x, s') \<Rightarrow> (Inr x, s'))"
  by (simp add: catch_act_def)

lemma guard_act_app [simp, action_simps]: "guard_act b e s = (if b then (Inr (), s) else (Inl e, s))"
  by (simp add: guard_act_def)

lemma bind_act_Inr: "m s = (Inr x, s') \<Longrightarrow> bind_act m f s = f x s'"
  by (simp add: bind_act_app)

lemma bind_act_Inl: "m s = (Inl e, s') \<Longrightarrow> bind_act m f s = (Inl e, s')"
  by (simp add: bind_act_app)

lemma bind_act_InrE:
  assumes "bind_act m f s = (Inr y, t)"
  obtains x s' where "m s = (Inr x, s')" and "f x s' = (Inr y, t)"
  using assms by (auto simp: bind_act_app split: prod.splits sum.splits)

text \<open>Running a list of operations one after the other, as concurrent callers of one store do.\<close>

fun run_actions :: "('s, 'e, 'a) action list \<Rightarrow> 's \<Rightarrow> ('e + 'a) list \<times> 's" where
  "run_actions [] s = ([], s)"
| "run_actions (m # ms) s =
     (let (x, s') = m s; (xs, t) = run_actions ms s' in (x # xs, t))"

lemma run_actions_length: "length (fst (run_actions ms s)) = length ms"
  by (induction ms arbitrary: s) (auto split: prod.splits, metis fst_conv)

section \<open>Finding and updating rows by key\<close>

lemma find_map_key:
  "(\<And>r. key (f r) = key r) \<Longrightarrow>
   find (\<lambda>r. key r = k) (map f xs) = map_option f (find (\<lambda>r. key r = k) xs)"
  by (induction xs) auto

lemma find_append_single:
  "find P (xs @ [x]) = (case find P xs of Some y \<Rightarrow> Some y | None \<Rightarrow> if P x then Some x else None)"
  by (induction xs) auto

lemma find_by_key:
  assumes "distinct (map key xs)" and "\<And>r. hit r \<Longrightarrow> key r = k"
  shows "find hit xs =
    (case find (\<lambda>r. key r = k) xs of Some r \<Rightarrow> if hit r then Some r else None | None \<Rightarrow> None)"
  using assms(1)
proof (induction xs)
  case Nil
  then show ?case by simp
next
  case (Cons x xs)
  show ?case
  proof (cases "key x = k")
    case True
    with Cons.prems have "\<forall>y \<in> set xs. key y \<noteq> k" by (auto simp: image_iff)
    with assms(2) have "find hit xs = None" by (auto simp: find_None_iff)
    with True show ?thesis by simp
  next
    case False
    with assms(2) have "\<not> hit x" by blast
    with False Cons show ?thesis by simp
  qed
qed

lemma find_SomeD: "find P xs = Some x \<Longrightarrow> x \<in> set xs \<and> P x"
  by (auto simp: find_Some_iff in_set_conv_nth)

lemma find_key_iff:
  "distinct (map key xs) \<Longrightarrow> find (\<lambda>r. key r = k) xs = Some x \<longleftrightarrow> x \<in> set xs \<and> key x = k"
  by (induction xs) (auto simp: image_iff)

lemma distinct_map_inj_on_set:
  "distinct (map f xs) \<Longrightarrow> x \<in> set xs \<Longrightarrow> y \<in> set xs \<Longrightarrow> f x = f y \<Longrightarrow> x = y"
  by (auto simp: distinct_map dest: inj_onD)

section \<open>First minimum of a list\<close>

text \<open>
  \<^verbatim>\<open>min(xs, key=f)\<close> is \<open>arg_min_list f xs\<close>: both return the first element of least key.
\<close>

lemma arg_min_list_least: "x \<in> set xs \<Longrightarrow> f (arg_min_list f xs) \<le> (f x :: 'b::linorder)"
proof -
  assume x: "x \<in> set xs"
  then have "xs \<noteq> []" by auto
  with x show ?thesis by (simp add: f_arg_min_list_f)
qed

end
