(* ===== verification/GenerationModel.thy ===== *)
theory GenerationModel
  imports Prelude
begin

text \<open>
  The data of the generation lifecycle: \<^verbatim>\<open>app/models/generation.py\<close> (the statuses, the two tables
  and their unique indexes) and \<^verbatim>\<open>app/schemas/generation.py\<close> (the snapshot every transport returns
  and the commands of the control service). A column or field keeps its name behind the prefix of its
  record. Times are integers; JSON columns hold \<open>pyval\<close>s.
\<close>

section \<open>Statuses\<close>

datatype generation_status =
    STARTING
  | RUNNING
  | FINALIZING_AFTER_LIMIT
  | CONTINUABLE
  | CONTINUING
  | STOP_REQUESTED
  | STOPPED
  | COMPLETED
  | COMPLETED_PARTIAL
  | FAILED

datatype command_action = STOP | CONTINUE

fun status_value :: "generation_status \<Rightarrow> string" where
  "status_value STARTING = ''starting''"
| "status_value RUNNING = ''running''"
| "status_value FINALIZING_AFTER_LIMIT = ''finalizing_after_limit''"
| "status_value CONTINUABLE = ''continuable''"
| "status_value CONTINUING = ''continuing''"
| "status_value STOP_REQUESTED = ''stop_requested''"
| "status_value STOPPED = ''stopped''"
| "status_value COMPLETED = ''completed''"
| "status_value COMPLETED_PARTIAL = ''completed_partial''"
| "status_value FAILED = ''failed''"

fun action_value :: "command_action \<Rightarrow> string" where
  "action_value STOP = ''stop''"
| "action_value CONTINUE = ''continue''"

definition ACTIVE_STATUSES :: "generation_status set" where
  "ACTIVE_STATUSES = {STARTING, RUNNING, FINALIZING_AFTER_LIMIT, CONTINUING, STOP_REQUESTED}"

definition TERMINAL_STATUSES :: "generation_status set" where
  "TERMINAL_STATUSES = {STOPPED, COMPLETED, COMPLETED_PARTIAL, FAILED}"

definition CONTINUABLE_STATUSES :: "generation_status set" where
  "CONTINUABLE_STATUSES = {CONTINUABLE, STOPPED}"

lemmas status_sets = ACTIVE_STATUSES_def TERMINAL_STATUSES_def CONTINUABLE_STATUSES_def

lemma status_value_inj: "status_value a = status_value b \<Longrightarrow> a = b"
  by (cases a; cases b) simp_all

section \<open>The tables\<close>

record generation =
  gen_id :: uuid
  gen_created_at :: int
  gen_updated_at :: int
  gen_terminal_at :: "int option"
  gen_logical_turn_id :: string
  gen_checkpoint_thread_id :: string
  gen_producer_token :: "string option"
  gen_user_id :: uuid
  gen_conversation_id :: uuid
  gen_status :: generation_status
  gen_version :: int
  gen_execution_epoch :: int
  gen_active_agent_id :: "string option"
  gen_terminal_reason :: "string option"
  gen_execution_budget :: "pyval option"
  gen_research_accounting :: "pyval option"
  gen_assistant_message_id :: "uuid option"
  gen_continuation_id :: "uuid option"
  gen_continuation_available :: bool
  gen_continuation_block_reason :: "string option"

text \<open>
  A row is active when its status is one a worker holds. \<open>unique_indexes\<close> is what the primary key
  and the two unique indexes of \<^verbatim>\<open>generations\<close> admit: ids and logical turns are distinct, and a
  conversation has at most one active row.
\<close>

definition is_active :: "generation \<Rightarrow> bool" where
  "is_active r \<longleftrightarrow> gen_status r \<in> ACTIVE_STATUSES"

definition unique_indexes :: "generation list \<Rightarrow> bool" where
  "unique_indexes rows \<longleftrightarrow>
     distinct (map gen_id rows) \<and>
     distinct (map gen_logical_turn_id rows) \<and>
     distinct (map gen_conversation_id (filter is_active rows))"

section \<open>Snapshots and commands\<close>

record generation_snapshot =
  snap_generation_id :: uuid
  snap_logical_turn_id :: string
  snap_conversation_id :: uuid
  snap_status :: generation_status
  snap_version :: int
  snap_execution_epoch :: int
  snap_continuation_id :: "uuid option"
  snap_continuation_available :: bool
  snap_continuation_block_reason :: "string option"
  snap_assistant_message_id :: "uuid option"
  snap_terminal_reason :: "string option"

definition from_row :: "generation \<Rightarrow> generation_snapshot" where
  "from_row r =
     \<lparr>snap_generation_id = gen_id r,
      snap_logical_turn_id = gen_logical_turn_id r,
      snap_conversation_id = gen_conversation_id r,
      snap_status = gen_status r,
      snap_version = gen_version r,
      snap_execution_epoch = gen_execution_epoch r,
      snap_continuation_id = gen_continuation_id r,
      snap_continuation_available = gen_continuation_available r,
      snap_continuation_block_reason = gen_continuation_block_reason r,
      snap_assistant_message_id = gen_assistant_message_id r,
      snap_terminal_reason = gen_terminal_reason r\<rparr>"

lemma from_row_simps [simp]:
  "snap_generation_id (from_row r) = gen_id r"
  "snap_logical_turn_id (from_row r) = gen_logical_turn_id r"
  "snap_conversation_id (from_row r) = gen_conversation_id r"
  "snap_status (from_row r) = gen_status r"
  "snap_version (from_row r) = gen_version r"
  "snap_execution_epoch (from_row r) = gen_execution_epoch r"
  "snap_continuation_id (from_row r) = gen_continuation_id r"
  "snap_continuation_available (from_row r) = gen_continuation_available r"
  "snap_continuation_block_reason (from_row r) = gen_continuation_block_reason r"
  "snap_assistant_message_id (from_row r) = gen_assistant_message_id r"
  "snap_terminal_reason (from_row r) = gen_terminal_reason r"
  by (simp_all add: from_row_def)

record create_generation =
  cg_conversation_id :: uuid
  cg_user_id :: uuid
  cg_logical_turn_id :: string
  cg_checkpoint_thread_id :: string
  cg_active_agent_id :: "string option"

record stop_command =
  stop_generation_id :: uuid
  stop_conversation_id :: uuid
  stop_user_id :: uuid
  stop_idempotency_key :: string
  stop_expected_version :: int

record continue_command =
  cont_generation_id :: uuid
  cont_continuation_id :: uuid
  cont_conversation_id :: uuid
  cont_user_id :: uuid
  cont_idempotency_key :: string
  cont_expected_version :: int

record mark_continuable_command =
  mc_generation_id :: uuid
  mc_conversation_id :: uuid
  mc_user_id :: uuid
  mc_expected_version :: int
  mc_assistant_message_id :: uuid
  mc_research_accounting :: "pyval option"
  mc_execution_budget :: "pyval option"
  mc_execution_epoch :: "int option"
  mc_continuation_block_reason :: "string option"

record mark_stopped_command =
  ms_generation_id :: uuid
  ms_conversation_id :: uuid
  ms_user_id :: uuid
  ms_expected_version :: int
  ms_assistant_message_id :: "uuid option"
  ms_continuation_available :: bool
  ms_continuation_id :: "uuid option"
  ms_continuation_block_reason :: "string option"
  ms_terminal_reason :: "string option"

record mark_completed_command =
  mk_generation_id :: uuid
  mk_conversation_id :: uuid
  mk_user_id :: uuid
  mk_expected_version :: int
  mk_assistant_message_id :: "uuid option"
  mk_partial :: bool
  mk_terminal_reason :: "string option"

record continuation_lease =
  lease_snapshot :: generation_snapshot
  lease_execution_epoch :: int
  lease_paused_epoch :: int
  lease_checkpoint_thread_id :: string
  lease_active_agent_id :: "string option"
  lease_research_accounting :: "pyval option"

text \<open>
  What a command recorded: a refusal as the JSON object \<^verbatim>\<open>_serialize_error\<close> builds, or the snapshot
  or lease it returned. The JSON encoding of the last two is \<^verbatim>\<open>pydantic\<close>'s and is not modelled.
\<close>

datatype recorded_result =
    RecordedError pyval
  | RecordedSnapshot generation_snapshot
  | RecordedLease continuation_lease

record generation_command =
  cmd_generation_id :: uuid
  cmd_idempotency_key :: string
  cmd_action :: command_action
  cmd_fence :: int
  cmd_result :: "recorded_result option"
  cmd_completed_at :: "int option"

record command_claim =
  claim_claimed :: bool
  claim_action :: command_action
  claim_fence :: int
  claim_result :: "recorded_result option"

end
