(* ===== verification/FencedStore.thy ===== *)
theory FencedStore
  imports Prelude
begin

text \<open>
  The contract a store of versioned rows gives its clients: a swap names the version it was decided
  against; it wins only if the row still has that version, and a win moves the version on by one.
  The generation repository provides it (\<^verbatim>\<open>GenerationRepo\<close>), the control service relies on it.
\<close>

locale fenced_store =
  fixes wf :: "'db \<Rightarrow> bool"
    and row :: "'k \<Rightarrow> 'db \<Rightarrow> 'r option"
    and version :: "'r \<Rightarrow> int"
    and swap :: "'k \<Rightarrow> int \<Rightarrow> 'u \<Rightarrow> ('db, 'e, 'r option) action"
  assumes swap_wf: "wf db \<Longrightarrow> wf (snd (swap k v u db))"
    and swap_wins: "wf db \<Longrightarrow> swap k v u db = (Inr (Some r), db') \<Longrightarrow>
      (\<exists>r0. row k db = Some r0 \<and> version r0 = v) \<and> row k db' = Some r \<and> version r = v + 1"
    and swap_frame: "wf db \<Longrightarrow> j \<noteq> k \<Longrightarrow> row j (snd (swap k v u db)) = row j db"
    and swap_loses: "wf db \<Longrightarrow> swap k v u db = (Inr None, db') \<Longrightarrow> db' = db"
    and swap_raises: "swap k v u db = (Inl e, db') \<Longrightarrow> db' = db"
begin

lemma swap_version_mono:
  assumes "wf db" and "row j db = Some r"
  shows "\<exists>r'. row j (snd (swap k v u db)) = Some r' \<and> version r \<le> version r'"
proof (cases "j = k")
  case False
  with assms show ?thesis by (auto simp: swap_frame)
next
  case True
  obtain x db' where s: "swap k v u db = (x, db')" by fastforce
  show ?thesis
  proof (cases x)
    case (Inl e)
    with s have "db' = db" by (auto dest: swap_raises)
    with s assms show ?thesis by simp
  next
    case (Inr o1)
    show ?thesis
    proof (cases o1)
      case None
      with Inr s assms(1) have "db' = db" by (auto dest: swap_loses)
      with s assms show ?thesis by simp
    next
      case (Some r')
      with Inr s assms(1) have "\<exists>r0. row k db = Some r0 \<and> version r0 = v"
        and "row k db' = Some r'" and "version r' = v + 1"
        by (auto dest: swap_wins)
      with s True assms(2) show ?thesis by auto
    qed
  qed
qed

lemma swap_same_version:
  assumes "wf db" and "row j db = Some r" and "row j (snd (swap k v u db)) = Some r'"
    and "version r' = version r"
  shows "r' = r"
proof -
  obtain x db' where s: "swap k v u db = (x, db')" by fastforce
  show ?thesis
  proof (cases "j = k \<and> (\<exists>r1. x = Inr (Some r1))")
    case True
    then obtain r1 where "j = k" and "x = Inr (Some r1)" by blast
    with s assms(1) have "\<exists>r0. row j db = Some r0 \<and> version r0 = v"
      and "row j db' = Some r1" and "version r1 = v + 1"
      by (auto dest: swap_wins)
    with s assms(2,3,4) show ?thesis by auto
  next
    case False
    then have "row j db' = row j db"
      using s assms(1) swap_frame [of db j k v u]
      by (cases x) (auto dest: swap_raises swap_loses)
    with s assms(2,3) show ?thesis by simp
  qed
qed

text \<open>After a win the fence has moved: the same fence never wins again, in any later run.\<close>

lemma stale_fence_never_wins:
  assumes "wf db" and "row k db = Some r" and "v < version r"
  shows "\<forall>i < length ops. (\<exists>u. ops ! i = (k, v, u)) \<longrightarrow>
    (\<forall>r'. fst (run_actions (map (\<lambda>(k, v, u). swap k v u) ops) db) ! i \<noteq> Inr (Some r'))"
  using assms
proof (induction ops arbitrary: db r)
  case Nil
  then show ?case by simp
next
  case (Cons p ops)
  obtain k0 v0 u0 where p: "p = (k0, v0, u0)" by (cases p)
  obtain x db1 where s: "swap k0 v0 u0 db = (x, db1)" by fastforce
  obtain xs db2 where t: "run_actions (map (\<lambda>(k, v, u). swap k v u) ops) db1 = (xs, db2)"
    by fastforce
  from Cons.prems(1) s have wf1: "wf db1" using swap_wf [of db k0 v0 u0] by simp
  obtain r1 where r1: "row k db1 = Some r1" "version r \<le> version r1"
    using swap_version_mono [OF Cons.prems(1,2), of k0 v0 u0] s by auto
  with Cons.prems(3) have later: "\<forall>i < length ops. (\<exists>u. ops ! i = (k, v, u)) \<longrightarrow>
      (\<forall>r'. xs ! i \<noteq> Inr (Some r'))"
    using Cons.IH [OF wf1 r1(1)] t by simp
  have first: "k0 = k \<Longrightarrow> v0 = v \<Longrightarrow> x \<noteq> Inr (Some r')" for r'
    using s Cons.prems swap_wins [of db k0 v0 u0 r' db1] by auto
  show ?case
  proof (intro allI impI)
    fix i r'
    assume i: "i < length (p # ops)" and e: "\<exists>u. (p # ops) ! i = (k, v, u)"
    show "fst (run_actions (map (\<lambda>(k, v, u). swap k v u) (p # ops)) db) ! i \<noteq> Inr (Some r')"
      using i e p s t first later by (cases i) auto
  qed
qed

lemma at_most_one_winner:
  assumes "wf db"
    and "i < length ops" and "j < length ops" and "i < j"
    and "ops ! i = (k, v, u)" and "ops ! j = (k, v, u')"
    and "fst (run_actions (map (\<lambda>(k, v, u). swap k v u) ops) db) ! i = Inr (Some r)"
  shows "fst (run_actions (map (\<lambda>(k, v, u). swap k v u) ops) db) ! j \<noteq> Inr (Some r')"
  using assms
proof (induction ops arbitrary: db i j)
  case Nil
  then show ?case by simp
next
  case (Cons p ops)
  obtain k0 v0 u0 where p: "p = (k0, v0, u0)" by (cases p)
  obtain x db1 where s: "swap k0 v0 u0 db = (x, db1)" by fastforce
  obtain xs db2 where t: "run_actions (map (\<lambda>(k, v, u). swap k v u) ops) db1 = (xs, db2)"
    by fastforce
  from Cons.prems(1) s have wf1: "wf db1" using swap_wf [of db k0 v0 u0] by simp
  from Cons.prems obtain j' where j: "j = Suc j'" by (cases j) auto
  show ?case
  proof (cases i)
    case 0
    with Cons.prems p s t have "x = Inr (Some r)" "k0 = k" "v0 = v" by auto
    with s Cons.prems(1) have "row k db1 = Some r" and "v < version r"
      using swap_wins [of db k0 v0 u0 r db1] by auto
    from stale_fence_never_wins [OF wf1 this, of ops] show ?thesis
      using Cons.prems p s t j by auto
  next
    case (Suc i')
    with Cons.prems p s t j show ?thesis
      using Cons.IH [OF wf1, of i' j'] by auto
  qed
qed

end

end
