(* ===== verification/GenerationRepo.thy ===== *)
theory GenerationRepo
  imports GenerationModel FencedStore
begin

text \<open>
  \<^verbatim>\<open>app/repositories/generation.py\<close>: every method is one transaction on the two tables. An exception
  leaves the tables as they were (the session is closed without a commit). The clock
  (\<^verbatim>\<open>_now()\<close>), the fresh id (\<^verbatim>\<open>uuid.uuid4()\<close>) and the identity of the running process
  (\<^verbatim>\<open>current_producer_token()\<close>) are arguments.
\<close>

record generation_db =
  db_generations :: "generation list"
  db_commands :: "generation_command list"

definition empty_db :: generation_db where
  "empty_db = \<lparr>db_generations = [], db_commands = []\<rparr>"

datatype repo_error = IntegrityError | NoResultFound | ValueError string

type_synonym 'a repo = "(generation_db, repo_error, 'a) action"

section \<open>Creation and reads\<close>

definition new_generation :: "uuid \<Rightarrow> string \<Rightarrow> int \<Rightarrow> create_generation \<Rightarrow> generation" where
  "new_generation new_id me now command =
     \<lparr>gen_id = new_id,
      gen_created_at = now,
      gen_updated_at = now,
      gen_terminal_at = None,
      gen_logical_turn_id = cg_logical_turn_id command,
      gen_checkpoint_thread_id = cg_checkpoint_thread_id command,
      gen_producer_token = Some me,
      gen_user_id = cg_user_id command,
      gen_conversation_id = cg_conversation_id command,
      gen_status = STARTING,
      gen_version = 1,
      gen_execution_epoch = 0,
      gen_active_agent_id = cg_active_agent_id command,
      gen_terminal_reason = None,
      gen_execution_budget = None,
      gen_research_accounting = None,
      gen_assistant_message_id = None,
      gen_continuation_id = None,
      gen_continuation_available = False,
      gen_continuation_block_reason = None\<rparr>"

definition acreate :: "uuid \<Rightarrow> string \<Rightarrow> int \<Rightarrow> create_generation \<Rightarrow> generation_snapshot repo" where
  "acreate new_id me now command db =
     (let row = new_generation new_id me now command;
          rows = db_generations db @ [row]
      in if unique_indexes rows
         then (Inr (from_row row), db\<lparr>db_generations := rows\<rparr>)
         else (Inl IntegrityError, db))"

definition owned_by :: "uuid \<Rightarrow> uuid \<Rightarrow> uuid \<Rightarrow> generation \<Rightarrow> bool" where
  "owned_by generation_id user_id conversation_id r \<longleftrightarrow>
     gen_id r = generation_id \<and> gen_user_id r = user_id \<and> gen_conversation_id r = conversation_id"

definition find_owned :: "uuid \<Rightarrow> uuid \<Rightarrow> uuid \<Rightarrow> generation_db \<Rightarrow> generation option" where
  "find_owned generation_id user_id conversation_id db =
     find (owned_by generation_id user_id conversation_id) (db_generations db)"

definition aget_owned :: "uuid \<Rightarrow> uuid \<Rightarrow> uuid \<Rightarrow> generation_snapshot option repo" where
  "aget_owned generation_id user_id conversation_id db =
     (Inr (map_option from_row (find_owned generation_id user_id conversation_id db)), db)"

record resume_context =
  rc_checkpoint_thread_id :: string
  rc_active_agent_id :: "string option"
  rc_research_accounting :: "pyval option"
  rc_execution_budget :: "pyval option"

definition aget_resume_context :: "uuid \<Rightarrow> uuid \<Rightarrow> uuid \<Rightarrow> resume_context option repo" where
  "aget_resume_context generation_id user_id conversation_id db =
     (Inr (map_option
        (\<lambda>r. \<lparr>rc_checkpoint_thread_id = gen_checkpoint_thread_id r,
              rc_active_agent_id = gen_active_agent_id r,
              rc_research_accounting = gen_research_accounting r,
              rc_execution_budget = gen_execution_budget r\<rparr>)
        (find_owned generation_id user_id conversation_id db)), db)"

definition aget_by_logical_turn :: "string \<Rightarrow> uuid \<Rightarrow> uuid \<Rightarrow> generation_snapshot option repo" where
  "aget_by_logical_turn logical_turn_id user_id conversation_id db =
     (Inr (map_option from_row
        (find (\<lambda>r. gen_logical_turn_id r = logical_turn_id \<and> gen_user_id r = user_id \<and>
                   gen_conversation_id r = conversation_id) (db_generations db))), db)"

section \<open>Transitions\<close>

text \<open>The \<^verbatim>\<open>values\<close> dictionary of a transition, one constructor for each column the service sets.\<close>

datatype column_value =
    SetStatus generation_status
  | SetVersion int
  | SetProducerToken "string option"
  | SetExecutionEpoch int
  | SetAssistantMessageId "uuid option"
  | SetContinuationAvailable bool
  | SetContinuationId "uuid option"
  | SetContinuationBlockReason "string option"
  | SetResearchAccounting "pyval option"
  | SetExecutionBudget "pyval option"
  | SetTerminalReason "string option"
  | SetTerminalAt "int option"

fun is_version :: "column_value \<Rightarrow> bool" where
  "is_version (SetVersion v) = True"
| "is_version c = False"

fun set_column :: "column_value \<Rightarrow> generation \<Rightarrow> generation" where
  "set_column (SetStatus x) r = r\<lparr>gen_status := x\<rparr>"
| "set_column (SetVersion x) r = r\<lparr>gen_version := x\<rparr>"
| "set_column (SetProducerToken x) r = r\<lparr>gen_producer_token := x\<rparr>"
| "set_column (SetExecutionEpoch x) r = r\<lparr>gen_execution_epoch := x\<rparr>"
| "set_column (SetAssistantMessageId x) r = r\<lparr>gen_assistant_message_id := x\<rparr>"
| "set_column (SetContinuationAvailable x) r = r\<lparr>gen_continuation_available := x\<rparr>"
| "set_column (SetContinuationId x) r = r\<lparr>gen_continuation_id := x\<rparr>"
| "set_column (SetContinuationBlockReason x) r = r\<lparr>gen_continuation_block_reason := x\<rparr>"
| "set_column (SetResearchAccounting x) r = r\<lparr>gen_research_accounting := x\<rparr>"
| "set_column (SetExecutionBudget x) r = r\<lparr>gen_execution_budget := x\<rparr>"
| "set_column (SetTerminalReason x) r = r\<lparr>gen_terminal_reason := x\<rparr>"
| "set_column (SetTerminalAt x) r = r\<lparr>gen_terminal_at := x\<rparr>"

definition transitioned :: "int \<Rightarrow> column_value list \<Rightarrow> generation \<Rightarrow> generation" where
  "transitioned now vals r =
     (fold set_column vals r)\<lparr>gen_version := gen_version r + 1, gen_updated_at := now\<rparr>"

definition fence_matches ::
  "uuid \<Rightarrow> uuid \<Rightarrow> uuid \<Rightarrow> generation_status set \<Rightarrow> int \<Rightarrow> generation \<Rightarrow> bool" where
  "fence_matches generation_id user_id conversation_id expected_statuses expected_version r \<longleftrightarrow>
     owned_by generation_id user_id conversation_id r \<and>
     gen_version r = expected_version \<and> gen_status r \<in> expected_statuses"

definition atransition ::
  "int \<Rightarrow> uuid \<Rightarrow> uuid \<Rightarrow> uuid \<Rightarrow> generation_status set \<Rightarrow> int \<Rightarrow> column_value list
     \<Rightarrow> generation_snapshot option repo" where
  "atransition now generation_id user_id conversation_id expected_statuses expected_version vals db =
     (if list_ex is_version vals
      then (Inl (ValueError ''version is owned by the transition, not the caller''), db)
      else
        let hit = fence_matches generation_id user_id conversation_id expected_statuses expected_version;
            rows = map (\<lambda>r. if hit r then transitioned now vals r else r) (db_generations db)
        in if unique_indexes rows
           then (Inr (map_option (\<lambda>r. from_row (transitioned now vals r))
                        (find hit (db_generations db))),
                 db\<lparr>db_generations := rows\<rparr>)
           else (Inl IntegrityError, db))"

section \<open>Reclaiming abandoned turns\<close>

definition aget_active_producer_tokens :: "string option list repo" where
  "aget_active_producer_tokens db =
     (Inr (remdups (map gen_producer_token (filter is_active (db_generations db)))), db)"

definition produced_by :: "string list \<Rightarrow> generation \<Rightarrow> bool" where
  "produced_by tokens r \<longleftrightarrow>
     (case gen_producer_token r of None \<Rightarrow> False | Some t \<Rightarrow> t \<in> set tokens) \<and> is_active r"

definition reclaimed :: "int \<Rightarrow> string \<Rightarrow> generation \<Rightarrow> generation" where
  "reclaimed now reason r =
     r\<lparr>gen_status := FAILED, gen_terminal_reason := Some reason, gen_terminal_at := Some now,
       gen_updated_at := now, gen_version := gen_version r + 1\<rparr>"

definition afail_active_by_producer :: "int \<Rightarrow> string list \<Rightarrow> string \<Rightarrow> nat repo" where
  "afail_active_by_producer now producer_tokens terminal_reason db =
     (let tokens = filter (\<lambda>t. t \<noteq> []) producer_tokens
      in if tokens = [] then (Inr 0, db)
         else (Inr (length (filter (produced_by tokens) (db_generations db))),
               db\<lparr>db_generations :=
                 map (\<lambda>r. if produced_by tokens r then reclaimed now terminal_reason r else r)
                   (db_generations db)\<rparr>))"

section \<open>The command ledger\<close>

definition command_key :: "generation_command \<Rightarrow> uuid \<times> string" where
  "command_key c = (cmd_generation_id c, cmd_idempotency_key c)"

definition find_command :: "uuid \<Rightarrow> string \<Rightarrow> generation_db \<Rightarrow> generation_command option" where
  "find_command generation_id key db =
     find (\<lambda>c. command_key c = (generation_id, key)) (db_commands db)"

text \<open>
  The insert fails on the unique index over the generation and the key, and on the foreign key to
  \<^verbatim>\<open>generations\<close>; after a failed insert \<^verbatim>\<open>.one()\<close> raises when there is no row to read.
\<close>

definition aclaim_command :: "uuid \<Rightarrow> string \<Rightarrow> command_action \<Rightarrow> int \<Rightarrow> command_claim repo" where
  "aclaim_command generation_id key act fence db =
     (case find_command generation_id key db of
        Some c \<Rightarrow>
          (Inr \<lparr>claim_claimed = False, claim_action = cmd_action c, claim_fence = cmd_fence c,
                claim_result = cmd_result c\<rparr>, db)
      | None \<Rightarrow>
          if generation_id \<in> set (map gen_id (db_generations db))
          then (Inr \<lparr>claim_claimed = True, claim_action = act, claim_fence = fence,
                     claim_result = None\<rparr>,
                db\<lparr>db_commands := db_commands db @
                  [\<lparr>cmd_generation_id = generation_id, cmd_idempotency_key = key, cmd_action = act,
                    cmd_fence = fence, cmd_result = None, cmd_completed_at = None\<rparr>]\<rparr>)
          else (Inl NoResultFound, db))"

definition arecord_command_result :: "int \<Rightarrow> uuid \<Rightarrow> string \<Rightarrow> recorded_result \<Rightarrow> unit repo" where
  "arecord_command_result now generation_id key result db =
     (Inr (), db\<lparr>db_commands :=
        map (\<lambda>c. if command_key c = (generation_id, key) \<and> cmd_result c = None
                 then c\<lparr>cmd_result := Some result, cmd_completed_at := Some now\<rparr> else c)
          (db_commands db)\<rparr>)"

section \<open>What a transition does to the tables\<close>

definition db_row :: "uuid \<Rightarrow> generation_db \<Rightarrow> generation option" where
  "db_row generation_id db = find (\<lambda>r. gen_id r = generation_id) (db_generations db)"

definition db_wf :: "generation_db \<Rightarrow> bool" where
  "db_wf db \<longleftrightarrow> unique_indexes (db_generations db) \<and> distinct (map command_key (db_commands db))"

named_theorems row_simps "the columns a transition keeps"

lemma fold_set_column_keeps [row_simps]:
  "gen_id (fold set_column vals r) = gen_id r"
  "gen_logical_turn_id (fold set_column vals r) = gen_logical_turn_id r"
  "gen_checkpoint_thread_id (fold set_column vals r) = gen_checkpoint_thread_id r"
  "gen_user_id (fold set_column vals r) = gen_user_id r"
  "gen_conversation_id (fold set_column vals r) = gen_conversation_id r"
  "gen_active_agent_id (fold set_column vals r) = gen_active_agent_id r"
proof (induction vals arbitrary: r)
  case Nil
  { case 1 show ?case by simp
  next case 2 show ?case by simp
  next case 3 show ?case by simp
  next case 4 show ?case by simp
  next case 5 show ?case by simp
  next case 6 show ?case by simp }
next
  case (Cons c vals)
  { case 1 show ?case using Cons(1) by (cases c) simp_all
  next case 2 show ?case using Cons(2) by (cases c) simp_all
  next case 3 show ?case using Cons(3) by (cases c) simp_all
  next case 4 show ?case using Cons(4) by (cases c) simp_all
  next case 5 show ?case using Cons(5) by (cases c) simp_all
  next case 6 show ?case using Cons(6) by (cases c) simp_all }
qed

lemma transitioned_keeps [row_simps, simp]:
  "gen_id (transitioned now vals r) = gen_id r"
  "gen_logical_turn_id (transitioned now vals r) = gen_logical_turn_id r"
  "gen_checkpoint_thread_id (transitioned now vals r) = gen_checkpoint_thread_id r"
  "gen_user_id (transitioned now vals r) = gen_user_id r"
  "gen_conversation_id (transitioned now vals r) = gen_conversation_id r"
  "gen_active_agent_id (transitioned now vals r) = gen_active_agent_id r"
  "gen_version (transitioned now vals r) = gen_version r + 1"
  by (simp_all add: transitioned_def fold_set_column_keeps)

lemma reclaimed_keeps [row_simps, simp]:
  "gen_id (reclaimed now reason r) = gen_id r"
  "gen_logical_turn_id (reclaimed now reason r) = gen_logical_turn_id r"
  "gen_conversation_id (reclaimed now reason r) = gen_conversation_id r"
  "gen_user_id (reclaimed now reason r) = gen_user_id r"
  "gen_version (reclaimed now reason r) = gen_version r + 1"
  "gen_status (reclaimed now reason r) = FAILED"
  by (simp_all add: reclaimed_def)

lemma db_wf_ids: "db_wf db \<Longrightarrow> distinct (map gen_id (db_generations db))"
  by (simp add: db_wf_def unique_indexes_def)

text \<open>An update that keeps the keys and activates no row keeps the unique indexes.\<close>

lemma unique_indexes_map:
  assumes "unique_indexes rows"
    and keys: "\<And>r. gen_id (f r) = gen_id r" "\<And>r. gen_logical_turn_id (f r) = gen_logical_turn_id r"
      "\<And>r. gen_conversation_id (f r) = gen_conversation_id r"
    and act: "\<And>r. r \<in> set rows \<Longrightarrow> is_active (f r) \<Longrightarrow> is_active r"
  shows "unique_indexes (map f rows)"
proof -
  have conv: "map gen_conversation_id (filter is_active (map f xs)) =
      map gen_conversation_id (filter (\<lambda>r. is_active (f r)) xs)" for xs
    using keys(3) by (induction xs) simp_all
  have "filter (\<lambda>r. is_active (f r)) rows = filter (\<lambda>r. is_active (f r)) (filter is_active rows)"
    unfolding filter_filter using act by (intro filter_cong) auto
  moreover have "map gen_id (map f rows) = map gen_id rows"
    and "map gen_logical_turn_id (map f rows) = map gen_logical_turn_id rows"
    using keys by simp_all
  ultimately show ?thesis
    using assms(1) unfolding unique_indexes_def conv by (simp only: distinct_map_filter simp_thms)
qed

lemma db_row_iff:
  "db_wf db \<Longrightarrow> db_row k db = Some r \<longleftrightarrow> r \<in> set (db_generations db) \<and> gen_id r = k"
  by (simp add: db_row_def find_key_iff db_wf_ids)

lemma db_row_id: "db_row k db = Some r \<Longrightarrow> gen_id r = k"
  by (auto simp: db_row_def dest: find_SomeD)

lemma find_owned_row:
  assumes "db_wf db"
  shows "find_owned k user conv db =
    (case db_row k db of Some r \<Rightarrow> if owned_by k user conv r then Some r else None | None \<Rightarrow> None)"
  unfolding find_owned_def db_row_def
  by (rule find_by_key [OF db_wf_ids [OF assms]]) (simp add: owned_by_def)

lemma find_fence_row:
  assumes "db_wf db"
  shows "find (fence_matches k user conv sts v) (db_generations db) =
    (case db_row k db of Some r \<Rightarrow> if fence_matches k user conv sts v r then Some r else None
     | None \<Rightarrow> None)"
  unfolding db_row_def
  by (rule find_by_key [OF db_wf_ids [OF assms]]) (simp add: fence_matches_def owned_by_def)

lemma atransition_Some:
  assumes wf: "db_wf db"
    and run: "atransition now k user conv sts v vals db = (Inr (Some s), db')"
  obtains r where "db_row k db = Some r" and "fence_matches k user conv sts v r"
    and "s = from_row (transitioned now vals r)"
    and "db_wf db'" and "db_commands db' = db_commands db"
    and "\<And>j. db_row j db' = (if j = k then Some (transitioned now vals r) else db_row j db)"
proof -
  let ?hit = "fence_matches k user conv sts v"
  let ?f = "\<lambda>r. if ?hit r then transitioned now vals r else r"
  from run have uniq: "unique_indexes (map ?f (db_generations db))"
    and db': "db' = db\<lparr>db_generations := map ?f (db_generations db)\<rparr>"
    and found: "map_option (\<lambda>r. from_row (transitioned now vals r))
      (find ?hit (db_generations db)) = Some s"
    by (auto simp: atransition_def Let_def split: if_splits)
  from found find_fence_row [OF wf, of k user conv sts v]
  obtain r where r: "db_row k db = Some r" "?hit r" "s = from_row (transitioned now vals r)"
    by (auto split: option.splits if_splits)
  have rows: "db_row j db' = map_option ?f (db_row j db)" for j
    unfolding db_row_def db' by (simp add: find_map_key)
  have "?f r' = r'" if "db_row j db = Some r'" "j \<noteq> k" for r' j
    using that by (auto simp: fence_matches_def owned_by_def dest: db_row_id)
  with rows r have "db_row j db' = (if j = k then Some (transitioned now vals r) else db_row j db)" for j
    by (cases "db_row j db") auto
  moreover have "db_wf db'" using uniq wf db' by (simp add: db_wf_def)
  moreover have "db_commands db' = db_commands db" using db' by simp
  ultimately show thesis using r that by blast
qed

lemma atransition_None:
  assumes wf: "db_wf db" and run: "atransition now k user conv sts v vals db = (Inr None, db')"
  shows "db' = db"
    and "\<And>r. db_row k db = Some r \<Longrightarrow> \<not> fence_matches k user conv sts v r"
proof -
  let ?hit = "fence_matches k user conv sts v"
  from run have none: "find ?hit (db_generations db) = None"
    and db': "db' = db\<lparr>db_generations :=
      map (\<lambda>r. if ?hit r then transitioned now vals r else r) (db_generations db)\<rparr>"
    by (auto simp: atransition_def Let_def split: if_splits)
  from none have "\<And>r. r \<in> set (db_generations db) \<Longrightarrow> \<not> ?hit r"
    by (simp add: find_None_iff)
  then have "map (\<lambda>r. if ?hit r then transitioned now vals r else r) (db_generations db) =
      db_generations db"
    by (auto intro: map_idI)
  with db' show "db' = db" by simp
  show "\<And>r. db_row k db = Some r \<Longrightarrow> \<not> ?hit r"
    using \<open>\<And>r. r \<in> set (db_generations db) \<Longrightarrow> \<not> ?hit r\<close> wf by (auto simp: db_row_iff)
qed

lemma atransition_Inl: "atransition now k user conv sts v vals db = (Inl e, db') \<Longrightarrow> db' = db"
  by (auto simp: atransition_def Let_def split: if_splits)

text \<open>A transition can meet the unique index only when it makes a row active.\<close>

lemma atransition_no_error:
  assumes wf: "db_wf db" and "\<not> list_ex is_version vals"
    and act: "\<And>r. gen_status r \<in> sts \<Longrightarrow> is_active (transitioned now vals r) \<Longrightarrow> is_active r"
  shows "\<exists>x. atransition now k user conv sts v vals db =
    (Inr x, snd (atransition now k user conv sts v vals db))"
proof -
  have "unique_indexes (map (\<lambda>r. if fence_matches k user conv sts v r then transitioned now vals r else r)
      (db_generations db))"
    using wf by (intro unique_indexes_map) (auto simp: db_wf_def fence_matches_def split: if_splits intro: act)
  with assms(2) show ?thesis by (simp add: atransition_def Let_def)
qed

lemma atransition_wf: "db_wf db \<Longrightarrow> db_wf (snd (atransition now k user conv sts v vals db))"
  by (auto simp: atransition_def Let_def db_wf_def)

lemma atransition_commands [simp]:
  "db_commands (snd (atransition now k user conv sts v vals db)) = db_commands db"
  by (simp add: atransition_def Let_def)

section \<open>The repository is a fenced store\<close>

definition snapshot_of :: "uuid \<Rightarrow> generation_db \<Rightarrow> generation_snapshot option" where
  "snapshot_of k db = map_option from_row (db_row k db)"

text \<open>One swap of the store: a transition with its clock, owner, expected statuses and values.\<close>

definition repo_swap ::
  "uuid \<Rightarrow> int \<Rightarrow> int \<times> uuid \<times> uuid \<times> generation_status set \<times> column_value list
     \<Rightarrow> generation_snapshot option repo" where
  "repo_swap k v u = (case u of (now, user, conv, sts, vals) \<Rightarrow> atransition now k user conv sts v vals)"

interpretation repo: fenced_store db_wf snapshot_of snap_version repo_swap
proof unfold_locales
  fix db k v u
  assume "db_wf db"
  then show "db_wf (snd (repo_swap k v u db))"
    by (auto simp: repo_swap_def atransition_wf split: prod.splits)
next
  fix db k v u r db'
  assume wf: "db_wf db" and run: "repo_swap k v u db = (Inr (Some r), db')"
  obtain now user conv sts vals where u: "u = (now, user, conv, sts, vals)" by (cases u) auto
  with run have "atransition now k user conv sts v vals db = (Inr (Some r), db')"
    by (simp add: repo_swap_def)
  then show "(\<exists>r0. snapshot_of k db = Some r0 \<and> snap_version r0 = v) \<and>
      snapshot_of k db' = Some r \<and> snap_version r = v + 1"
    by (rule atransition_Some [OF wf]) (auto simp: snapshot_of_def fence_matches_def)
next
  fix db and j k :: uuid and v :: int
    and u :: "int \<times> uuid \<times> uuid \<times> generation_status set \<times> column_value list"
  assume wf: "db_wf db" and ne: "j \<noteq> k"
  obtain now user conv sts vals where u: "u = (now, user, conv, sts, vals)" by (cases u) auto
  obtain x db' where run: "atransition now k user conv sts v vals db = (x, db')" by fastforce
  consider e where "x = Inl e" | "x = Inr None" | s where "x = Inr (Some s)"
    by (cases x) auto
  then show "snapshot_of j (snd (repo_swap k v u db)) = snapshot_of j db"
  proof cases
    case 1
    with run have "db' = db" by (auto dest: atransition_Inl)
    with run u show ?thesis by (simp add: repo_swap_def)
  next
    case 2
    with run wf have "db' = db" by (auto dest: atransition_None(1))
    with run u show ?thesis by (simp add: repo_swap_def)
  next
    case 3
    with run have "atransition now k user conv sts v vals db = (Inr (Some s), db')" by simp
    then show ?thesis
      by (rule atransition_Some [OF wf]) (simp add: u run ne repo_swap_def snapshot_of_def)
  qed
next
  fix db k v u db'
  assume "db_wf db" and "repo_swap k v u db = (Inr None, db')"
  then show "db' = db" by (auto simp: repo_swap_def atransition_None(1) split: prod.splits)
next
  fix db k v u e db'
  assume "repo_swap k v u db = (Inl e, db')"
  then show "db' = db" by (auto simp: repo_swap_def atransition_Inl split: prod.splits)
qed

end
