(* ===== verification/GenerationControl.thy ===== *)
theory GenerationControl
  imports GenerationRepo
begin

text \<open>
  \<^verbatim>\<open>app/services/generation_control_service.py\<close>: what is legal for one generation, and the two
  client commands that answer the same way however often they arrive. The service holds no state of
  its own; the world it acts on is the database, the stop signals it has published on the control bus
  (\<^verbatim>\<open>publish_stop\<close>) and the approvals it has expired (\<^verbatim>\<open>expire_pending_for_thread\<close>), the latter only
  when an approval repository was injected (\<open>w_has_hitl\<close>). Each repository call is one transaction.
\<close>

record control_world =
  w_db :: generation_db
  w_published :: "(uuid \<times> int) list"
  w_has_hitl :: bool
  w_expired :: "(uuid \<times> uuid \<times> string \<times> string) list"

section \<open>Refusals\<close>

datatype error_kind =
    GenerationControlError
  | GenerationNotFound
  | IllegalTransition
  | StaleCommand
  | ContinuationUnavailable

fun error_code :: "error_kind \<Rightarrow> string" where
  "error_code GenerationControlError = ''generation_control_error''"
| "error_code GenerationNotFound = ''generation_not_found''"
| "error_code IllegalTransition = ''illegal_transition''"
| "error_code StaleCommand = ''stale_command''"
| "error_code ContinuationUnavailable = ''continuation_unavailable''"

record control_error =
  ce_kind :: error_kind
  ce_message :: string
  ce_detail :: "(string \<times> pyval) list"

definition control_error_of :: "error_kind \<Rightarrow> string \<Rightarrow> (string \<times> pyval) list \<Rightarrow> control_error" where
  "control_error_of k m d = \<lparr>ce_kind = k, ce_message = m, ce_detail = d\<rparr>"

datatype control_exn =
    ControlError control_error
  | RepoError repo_error
  | ValidationError

type_synonym 'a control = "(control_world, control_exn, 'a) action"

definition refuse :: "error_kind \<Rightarrow> string \<Rightarrow> (string \<times> pyval) list \<Rightarrow> 'a control" where
  "refuse k m d = raise_act (ControlError (control_error_of k m d))"

definition serialize_error :: "control_error \<Rightarrow> pyval" where
  "serialize_error e =
     PDict [(''code'', PStr (error_code (ce_kind e))), (''message'', PStr (ce_message e)),
            (''detail'', PDict (ce_detail e))]"

definition error_types :: "(string \<times> error_kind) list" where
  "error_types =
     map (\<lambda>k. (error_code k, k))
       [GenerationNotFound, IllegalTransition, StaleCommand, ContinuationUnavailable]"

text \<open>A missing or empty message reads \<^verbatim>\<open>command refused\<close>, a missing detail is empty.\<close>

definition deserialize_error :: "pyval \<Rightarrow> control_error" where
  "deserialize_error p =
     (let d = (case p of PDict d \<Rightarrow> d | _ \<Rightarrow> []);
          k = (case map_of d ''code'' of
                 Some (PStr c) \<Rightarrow> (case map_of error_types c of Some k \<Rightarrow> k
                                   | None \<Rightarrow> GenerationControlError)
               | _ \<Rightarrow> GenerationControlError);
          m = (case map_of d ''message'' of
                 Some (PStr m) \<Rightarrow> if m = [] then ''command refused'' else m
               | _ \<Rightarrow> ''command refused'');
          dt = (case map_of d ''detail'' of Some (PDict dt) \<Rightarrow> dt | _ \<Rightarrow> [])
      in control_error_of k m dt)"

section \<open>Constants\<close>

definition APPROVAL_PAUSE_REASON :: string where
  "APPROVAL_PAUSE_REASON = ''tool_approval_required''"

definition STOPPABLE :: "generation_status set" where
  "STOPPABLE = {STARTING, RUNNING, FINALIZING_AFTER_LIMIT, CONTINUING, STOP_REQUESTED}"

definition COMPLETABLE :: "generation_status set" where
  "COMPLETABLE = {STARTING, RUNNING, FINALIZING_AFTER_LIMIT, CONTINUING}"

definition CONTINUABLE_FROM :: "generation_status set" where
  "CONTINUABLE_FROM = {RUNNING, FINALIZING_AFTER_LIMIT, CONTINUING}"

section \<open>Internals\<close>

definition on_db :: "'a repo \<Rightarrow> 'a control" where
  "on_db m w =
     (case m (w_db w) of
        (Inl e, db) \<Rightarrow> (Inl (RepoError e), w\<lparr>w_db := db\<rparr>)
      | (Inr x, db) \<Rightarrow> (Inr x, w\<lparr>w_db := db\<rparr>))"

definition require_owned :: "uuid \<Rightarrow> uuid \<Rightarrow> uuid \<Rightarrow> generation_snapshot control" where
  "require_owned generation_id user_id conversation_id =
     bind_act (on_db (aget_owned generation_id user_id conversation_id))
       (\<lambda>s. case s of
          None \<Rightarrow> refuse GenerationNotFound ''generation is not readable by this owner'' []
        | Some s \<Rightarrow> return_act s)"

definition must_transition ::
  "int \<Rightarrow> uuid \<Rightarrow> uuid \<Rightarrow> uuid \<Rightarrow> generation_status set \<Rightarrow> int \<Rightarrow> column_value list
     \<Rightarrow> generation_snapshot control" where
  "must_transition now generation_id user_id conversation_id expected_statuses expected_version vals =
     bind_act
       (on_db (atransition now generation_id user_id conversation_id expected_statuses
                 expected_version vals))
       (\<lambda>r. case r of
          None \<Rightarrow> refuse IllegalTransition ''the generation was not in the expected state''
                    [(''expected_version'', PInt expected_version)]
        | Some s \<Rightarrow> return_act s)"

definition require_fresh :: "int \<Rightarrow> generation_snapshot \<Rightarrow> unit control" where
  "require_fresh expected_version snapshot =
     (let d = [(''issued_at_version'', PInt expected_version),
               (''version'', PInt (snap_version snapshot))]
      in if expected_version < snap_version snapshot
         then refuse StaleCommand ''this command was issued against an earlier state'' d
         else if expected_version > snap_version snapshot
         then refuse StaleCommand ''this command names a state this generation has not reached'' d
         else return_act ())"

definition require_continuable :: "continue_command \<Rightarrow> generation_snapshot \<Rightarrow> unit control" where
  "require_continuable command snapshot =
     (if \<not> snap_continuation_available snapshot \<or> snap_continuation_id snapshot = None
      then refuse ContinuationUnavailable
             (case snap_continuation_block_reason snapshot of
                Some m \<Rightarrow> if m = [] then ''this generation cannot be continued'' else m
              | None \<Rightarrow> ''this generation cannot be continued'')
             [(''status'', PStr (status_value (snap_status snapshot))),
              (''reason'', (case snap_continuation_block_reason snapshot of
                              None \<Rightarrow> PNone | Some m \<Rightarrow> PStr m))]
      else if snap_continuation_id snapshot \<noteq> Some (cont_continuation_id command)
      then refuse ContinuationUnavailable
             ''the continuation has already been used or was never issued''
             [(''status'', PStr (status_value (snap_status snapshot)))]
      else return_act ())"

definition record_result :: "int \<Rightarrow> uuid \<Rightarrow> string \<Rightarrow> recorded_result \<Rightarrow> unit control" where
  "record_result now generation_id key result =
     on_db (arecord_command_result now generation_id key result)"

definition replay :: "command_claim \<Rightarrow> command_action \<Rightarrow> (recorded_result \<Rightarrow> 'a option) \<Rightarrow> 'a control" where
  "replay claim act validate =
     (let d = [(''recorded_action'', PStr (action_value (claim_action claim)))]
      in if claim_action claim \<noteq> act
         then refuse IllegalTransition
                ''this idempotency key was already used for a different command'' d
         else case claim_result claim of
           None \<Rightarrow> refuse IllegalTransition ''this command is already in progress'' d
         | Some (RecordedError e) \<Rightarrow> raise_act (ControlError (deserialize_error e))
         | Some r \<Rightarrow> (case validate r of None \<Rightarrow> raise_act ValidationError
                      | Some x \<Rightarrow> return_act x))"

fun as_snapshot :: "recorded_result \<Rightarrow> generation_snapshot option" where
  "as_snapshot (RecordedSnapshot s) = Some s"
| "as_snapshot r = None"

fun as_lease :: "recorded_result \<Rightarrow> continuation_lease option" where
  "as_lease (RecordedLease l) = Some l"
| "as_lease r = None"

text \<open>The \<^verbatim>\<open>except GenerationControlError\<close> of both commands: the refusal is recorded, then raised.\<close>

definition recording_refusals :: "int \<Rightarrow> uuid \<Rightarrow> string \<Rightarrow> 'a control \<Rightarrow> 'a control" where
  "recording_refusals now generation_id key m =
     catch_act m
       (\<lambda>e. case e of
          ControlError ce \<Rightarrow>
            bind_act (record_result now generation_id key (RecordedError (serialize_error ce)))
              (\<lambda>_. raise_act e)
        | _ \<Rightarrow> raise_act e)"

section \<open>Worker-side transitions\<close>

definition start_generation ::
  "uuid \<Rightarrow> string \<Rightarrow> int \<Rightarrow> create_generation \<Rightarrow> generation_snapshot control" where
  "start_generation new_id me now command = on_db (acreate new_id me now command)"

definition mark_running ::
  "int \<Rightarrow> uuid \<Rightarrow> uuid \<Rightarrow> uuid \<Rightarrow> int \<Rightarrow> generation_snapshot control" where
  "mark_running now generation_id user_id conversation_id expected_version =
     must_transition now generation_id user_id conversation_id {STARTING} expected_version
       [SetStatus RUNNING]"

definition continuable_values :: "uuid \<Rightarrow> mark_continuable_command \<Rightarrow> column_value list" where
  "continuable_values new_id command =
     (let blocked = truthy_str (mc_continuation_block_reason command)
      in [SetStatus CONTINUABLE,
          SetAssistantMessageId (Some (mc_assistant_message_id command)),
          SetContinuationAvailable (\<not> blocked),
          SetContinuationId (if blocked then None else Some new_id),
          SetContinuationBlockReason (mc_continuation_block_reason command)]
         @ (case mc_execution_epoch command of None \<Rightarrow> [] | Some e \<Rightarrow> [SetExecutionEpoch e])
         @ (case mc_research_accounting command of None \<Rightarrow> []
            | Some a \<Rightarrow> [SetResearchAccounting (Some a)])
         @ (case mc_execution_budget command of None \<Rightarrow> [] | Some b \<Rightarrow> [SetExecutionBudget (Some b)]))"

definition mark_continuable ::
  "uuid \<Rightarrow> int \<Rightarrow> mark_continuable_command \<Rightarrow> generation_snapshot control" where
  "mark_continuable new_id now command =
     must_transition now (mc_generation_id command) (mc_user_id command) (mc_conversation_id command)
       CONTINUABLE_FROM (mc_expected_version command) (continuable_values new_id command)"

definition stopped_values :: "int \<Rightarrow> mark_stopped_command \<Rightarrow> column_value list" where
  "stopped_values now command =
     (let blocked = truthy_str (ms_continuation_block_reason command);
          available = (ms_continuation_available command \<and> \<not> blocked)
      in [SetStatus STOPPED,
          SetAssistantMessageId (ms_assistant_message_id command),
          SetContinuationAvailable available,
          SetContinuationId (if available then ms_continuation_id command else None),
          SetContinuationBlockReason (ms_continuation_block_reason command),
          SetTerminalReason (Some (if truthy_str (ms_terminal_reason command)
                                   then the (ms_terminal_reason command) else ''stopped'')),
          SetTerminalAt (Some now)])"

definition mark_stopped :: "int \<Rightarrow> mark_stopped_command \<Rightarrow> generation_snapshot control" where
  "mark_stopped now command =
     must_transition now (ms_generation_id command) (ms_user_id command) (ms_conversation_id command)
       STOPPABLE (ms_expected_version command) (stopped_values now command)"

definition mark_failed ::
  "int \<Rightarrow> uuid \<Rightarrow> uuid \<Rightarrow> uuid \<Rightarrow> int \<Rightarrow> string \<Rightarrow> generation_snapshot control" where
  "mark_failed now generation_id user_id conversation_id expected_version terminal_reason =
     must_transition now generation_id user_id conversation_id STOPPABLE expected_version
       [SetStatus FAILED, SetContinuationAvailable False, SetContinuationId None,
        SetTerminalReason (Some terminal_reason), SetTerminalAt (Some now)]"

definition resume_approved ::
  "string \<Rightarrow> int \<Rightarrow> uuid \<Rightarrow> uuid \<Rightarrow> uuid \<Rightarrow> generation_snapshot \<Rightarrow> generation_snapshot control" where
  "resume_approved me now generation_id user_id conversation_id snapshot =
     (if snap_status snapshot \<noteq> CONTINUABLE \<or>
         snap_continuation_block_reason snapshot \<noteq> Some APPROVAL_PAUSE_REASON
      then refuse IllegalTransition ''this generation is not waiting on a tool approval''
             [(''status'', PStr (status_value (snap_status snapshot)))]
      else must_transition now generation_id user_id conversation_id {CONTINUABLE}
             (snap_version snapshot)
             [SetStatus RUNNING, SetContinuationBlockReason None, SetProducerToken (Some me)])"

definition mark_resumed_after_approval ::
  "string \<Rightarrow> int \<Rightarrow> uuid \<Rightarrow> uuid \<Rightarrow> uuid \<Rightarrow> generation_snapshot control" where
  "mark_resumed_after_approval me now generation_id user_id conversation_id =
     bind_act (require_owned generation_id user_id conversation_id)
       (resume_approved me now generation_id user_id conversation_id)"

definition mark_completed :: "int \<Rightarrow> mark_completed_command \<Rightarrow> generation_snapshot control" where
  "mark_completed now command =
     must_transition now (mk_generation_id command) (mk_user_id command) (mk_conversation_id command)
       COMPLETABLE (mk_expected_version command)
       [SetStatus (if mk_partial command then COMPLETED_PARTIAL else COMPLETED),
        SetAssistantMessageId (mk_assistant_message_id command),
        SetContinuationAvailable False, SetContinuationId None,
        SetTerminalReason (mk_terminal_reason command), SetTerminalAt (Some now)]"

section \<open>Stop\<close>

definition invalidate_pending_approval :: "generation_snapshot \<Rightarrow> uuid \<Rightarrow> unit control" where
  "invalidate_pending_approval snapshot user_id w =
     (if \<not> w_has_hitl w then (Inr (), w)
      else bind_act
        (on_db (aget_resume_context (snap_generation_id snapshot) user_id
                  (snap_conversation_id snapshot)))
        (\<lambda>c w. case c of
           None \<Rightarrow> (Inr (), w)
         | Some c \<Rightarrow> (Inr (), w\<lparr>w_expired := w_expired w @
             [(user_id, snap_conversation_id snapshot, rc_checkpoint_thread_id c,
               ''generation_stopped'')]\<rparr>)) w)"

definition accept_partial ::
  "int \<Rightarrow> stop_command \<Rightarrow> generation_snapshot \<Rightarrow> generation_snapshot control" where
  "accept_partial now command snapshot =
     bind_act
       (on_db (atransition now (stop_generation_id command) (stop_user_id command)
                 (stop_conversation_id command) {CONTINUABLE} (snap_version snapshot)
                 [SetStatus COMPLETED_PARTIAL, SetContinuationAvailable False,
                  SetContinuationId None, SetTerminalReason (Some ''stopped_partial''),
                  SetTerminalAt (Some now)]))
       (\<lambda>r. case r of
          None \<Rightarrow> refuse StaleCommand ''another command changed this generation first'' []
        | Some result \<Rightarrow>
            if snap_continuation_block_reason snapshot = Some APPROVAL_PAUSE_REASON
            then bind_act (invalidate_pending_approval result (stop_user_id command))
                   (\<lambda>_. return_act result)
            else return_act result)"

definition publish_stop :: "uuid \<Rightarrow> int \<Rightarrow> unit control" where
  "publish_stop generation_id version w =
     (Inr (), w\<lparr>w_published := w_published w @ [(generation_id, version)]\<rparr>)"

definition request_worker_stop ::
  "int \<Rightarrow> stop_command \<Rightarrow> generation_snapshot \<Rightarrow> generation_snapshot control" where
  "request_worker_stop now command snapshot =
     bind_act
       (on_db (atransition now (stop_generation_id command) (stop_user_id command)
                 (stop_conversation_id command) STOPPABLE (snap_version snapshot)
                 [SetStatus STOP_REQUESTED]))
       (\<lambda>r. case r of
          None \<Rightarrow> refuse StaleCommand ''another command changed this generation first'' []
        | Some result \<Rightarrow>
            bind_act (publish_stop (snap_generation_id result) (snap_version result))
              (\<lambda>_. return_act result))"

definition decide_stop ::
  "int \<Rightarrow> stop_command \<Rightarrow> generation_snapshot \<Rightarrow> generation_snapshot control" where
  "decide_stop now command snapshot =
     bind_act (require_fresh (stop_expected_version command) snapshot)
       (\<lambda>_. if snap_status snapshot \<in> TERMINAL_STATUSES
            then refuse IllegalTransition
                   (''generation is already '' @ status_value (snap_status snapshot))
                   [(''status'', PStr (status_value (snap_status snapshot)))]
            else if snap_status snapshot = STOP_REQUESTED then return_act snapshot
            else if snap_status snapshot = CONTINUABLE then accept_partial now command snapshot
            else request_worker_stop now command snapshot)"

definition request_stop :: "int \<Rightarrow> stop_command \<Rightarrow> generation_snapshot control" where
  "request_stop now command =
     bind_act
       (require_owned (stop_generation_id command) (stop_user_id command)
          (stop_conversation_id command))
       (\<lambda>snapshot. bind_act
          (on_db (aclaim_command (stop_generation_id command) (stop_idempotency_key command) STOP
                    (stop_expected_version command)))
          (\<lambda>claim. if \<not> claim_claimed claim then replay claim STOP as_snapshot
             else bind_act
               (recording_refusals now (stop_generation_id command) (stop_idempotency_key command)
                  (decide_stop now command snapshot))
               (\<lambda>result. bind_act
                  (record_result now (stop_generation_id command) (stop_idempotency_key command)
                     (RecordedSnapshot result))
                  (\<lambda>_. return_act result))))"

section \<open>Continue\<close>

definition continuing_values :: "string \<Rightarrow> generation_snapshot \<Rightarrow> column_value list" where
  "continuing_values me snapshot =
     [SetStatus CONTINUING, SetProducerToken (Some me),
      SetExecutionEpoch (snap_execution_epoch snapshot + 1),
      SetContinuationAvailable False, SetContinuationId None, SetExecutionBudget None,
      SetTerminalAt None, SetTerminalReason None]"

definition advance_epoch ::
  "string \<Rightarrow> int \<Rightarrow> continue_command \<Rightarrow> generation_snapshot \<Rightarrow> continuation_lease control" where
  "advance_epoch me now command snapshot =
     bind_act (require_fresh (cont_expected_version command) snapshot) (\<lambda>_.
     bind_act (require_continuable command snapshot) (\<lambda>_.
     bind_act
       (on_db (aget_resume_context (cont_generation_id command) (cont_user_id command)
                 (cont_conversation_id command)))
       (\<lambda>ctx. case ctx of
          None \<Rightarrow> refuse GenerationNotFound ''generation is not readable by this owner'' []
        | Some ctx \<Rightarrow>
            bind_act
              (on_db (atransition now (cont_generation_id command) (cont_user_id command)
                        (cont_conversation_id command) {CONTINUABLE, STOPPED}
                        (snap_version snapshot) (continuing_values me snapshot)))
              (\<lambda>adv. case adv of
                 None \<Rightarrow> refuse StaleCommand ''another command changed this generation first'' []
               | Some advanced \<Rightarrow> return_act
                   \<lparr>lease_snapshot = advanced,
                    lease_execution_epoch = snap_execution_epoch advanced,
                    lease_paused_epoch = snap_execution_epoch snapshot,
                    lease_checkpoint_thread_id = rc_checkpoint_thread_id ctx,
                    lease_active_agent_id = rc_active_agent_id ctx,
                    lease_research_accounting = rc_research_accounting ctx\<rparr>))))"

text \<open>\<^verbatim>\<open>lease_continuation\<close> returns the lease and whether this call replayed an earlier one.\<close>

definition lease_continuation ::
  "string \<Rightarrow> int \<Rightarrow> continue_command \<Rightarrow> (continuation_lease \<times> bool) control" where
  "lease_continuation me now command =
     bind_act
       (require_owned (cont_generation_id command) (cont_user_id command)
          (cont_conversation_id command))
       (\<lambda>snapshot. bind_act
          (on_db (aclaim_command (cont_generation_id command) (cont_idempotency_key command)
                    CONTINUE (cont_expected_version command)))
          (\<lambda>claim. if \<not> claim_claimed claim
             then bind_act (replay claim CONTINUE as_lease) (\<lambda>l. return_act (l, True))
             else bind_act
               (recording_refusals now (cont_generation_id command) (cont_idempotency_key command)
                  (advance_epoch me now command snapshot))
               (\<lambda>lease. bind_act
                  (record_result now (cont_generation_id command) (cont_idempotency_key command)
                     (RecordedLease lease))
                  (\<lambda>_. return_act (lease, False)))))"

definition prepare_continue ::
  "string \<Rightarrow> int \<Rightarrow> continue_command \<Rightarrow> continuation_lease control" where
  "prepare_continue me now command =
     bind_act (lease_continuation me now command) (\<lambda>l. return_act (fst l))"

section \<open>Reads\<close>

definition aget_snapshot :: "uuid \<Rightarrow> uuid \<Rightarrow> uuid \<Rightarrow> generation_snapshot option control" where
  "aget_snapshot generation_id user_id conversation_id =
     on_db (aget_owned generation_id user_id conversation_id)"

definition find_by_logical_turn :: "string \<Rightarrow> uuid \<Rightarrow> uuid \<Rightarrow> generation_snapshot option control" where
  "find_by_logical_turn logical_turn_id user_id conversation_id =
     on_db (aget_by_logical_turn logical_turn_id user_id conversation_id)"

end
