(* ===== verification/GenerationLifecycle.thy ===== *)
theory GenerationLifecycle
  imports GenerationControl
begin

text \<open>
  The lifecycle as a transition system. A step is one transaction of any worker or request: a read
  that returns a snapshot, one of the service's transitions (which may be decided on any snapshot
  read earlier), a ledger write, or the reaper. Commands of the service are sequences of such steps,
  so every interleaving of concurrent commands is a run. The abstract specification is the diagram
  \<open>status_edge\<close>.
\<close>

section \<open>The specification: a status diagram\<close>

fun status_edge :: "generation_status \<Rightarrow> generation_status \<Rightarrow> bool" where
  "status_edge STARTING t = (t \<in> {RUNNING, STOP_REQUESTED, STOPPED, COMPLETED, COMPLETED_PARTIAL, FAILED})"
| "status_edge RUNNING t =
     (t \<in> {CONTINUABLE, STOP_REQUESTED, STOPPED, COMPLETED, COMPLETED_PARTIAL, FAILED})"
| "status_edge CONTINUING t =
     (t \<in> {CONTINUABLE, STOP_REQUESTED, STOPPED, COMPLETED, COMPLETED_PARTIAL, FAILED})"
| "status_edge CONTINUABLE t = (t \<in> {RUNNING, CONTINUING, COMPLETED_PARTIAL})"
| "status_edge STOP_REQUESTED t = (t \<in> {STOPPED, FAILED})"
| "status_edge STOPPED t = (t = CONTINUING)"
| "status_edge _ t = False"

text \<open>What every reachable row satisfies.\<close>

definition row_ok :: "generation \<Rightarrow> bool" where
  "row_ok r \<longleftrightarrow>
     1 \<le> gen_version r \<and> 0 \<le> gen_execution_epoch r \<and>
     gen_status r \<noteq> FINALIZING_AFTER_LIMIT \<and>
     (gen_continuation_available r \<longrightarrow> gen_status r \<in> CONTINUABLE_STATUSES) \<and>
     (\<not> gen_continuation_available r \<longrightarrow> gen_continuation_id r = None) \<and>
     (truthy_str (gen_continuation_block_reason r) \<longrightarrow> \<not> gen_continuation_available r) \<and>
     (gen_terminal_at r \<noteq> None \<longleftrightarrow> gen_status r \<in> TERMINAL_STATUSES)"

definition row_edge :: "generation \<Rightarrow> generation \<Rightarrow> bool" where
  "row_edge r r' \<longleftrightarrow>
     gen_id r' = gen_id r \<and> gen_user_id r' = gen_user_id r \<and>
     gen_conversation_id r' = gen_conversation_id r \<and>
     gen_version r' = gen_version r + 1 \<and>
     status_edge (gen_status r) (gen_status r') \<and> row_ok r'"

text \<open>The \<^verbatim>\<open>Field\<close> constraints of \<^verbatim>\<open>MarkContinuable\<close> that the row relies on.\<close>

definition valid_mark_continuable :: "mark_continuable_command \<Rightarrow> bool" where
  "valid_mark_continuable c \<longleftrightarrow>
     1 \<le> mc_expected_version c \<and>
     (case mc_execution_epoch c of None \<Rightarrow> True | Some e \<Rightarrow> 0 \<le> e) \<and>
     (case mc_continuation_block_reason c of None \<Rightarrow> True | Some m \<Rightarrow> length m \<le> 128)"

section \<open>Steps\<close>

inductive lifecycle_step ::
  "control_world \<times> generation_snapshot set \<Rightarrow> control_world \<times> generation_snapshot set \<Rightarrow> bool" where
  read_step: "r \<in> set (db_generations (w_db w)) \<Longrightarrow>
     lifecycle_step (w, S) (w, insert (from_row r) S)"
| start_step: "start_generation new_id me now c w = (res, w') \<Longrightarrow> lifecycle_step (w, S) (w', S)"
| running_step: "mark_running now g u c v w = (res, w') \<Longrightarrow> lifecycle_step (w, S) (w', S)"
| continuable_step: "valid_mark_continuable cmd \<Longrightarrow> mark_continuable new_id now cmd w = (res, w') \<Longrightarrow>
     lifecycle_step (w, S) (w', S)"
| stopped_step: "mark_stopped now msc w = (res, w') \<Longrightarrow> lifecycle_step (w, S) (w', S)"
| failed_step: "mark_failed now g u c v reason w = (res, w') \<Longrightarrow> lifecycle_step (w, S) (w', S)"
| completed_step: "mark_completed now mkc w = (res, w') \<Longrightarrow> lifecycle_step (w, S) (w', S)"
| resume_step: "s \<in> S \<Longrightarrow> snap_generation_id s = g \<Longrightarrow> resume_approved me now g u c s w = (res, w') \<Longrightarrow>
     lifecycle_step (w, S) (w', S)"
| claim_step: "on_db (aclaim_command g key act f) w = (res, w') \<Longrightarrow> lifecycle_step (w, S) (w', S)"
| record_step: "record_result now g key rr w = (res', w') \<Longrightarrow> lifecycle_step (w, S) (w', S)"
| stop_step: "s \<in> S \<Longrightarrow> snap_generation_id s = stop_generation_id sc \<Longrightarrow>
     decide_stop now sc s w = (res, w') \<Longrightarrow> lifecycle_step (w, S) (w', S)"
| continue_step: "s \<in> S \<Longrightarrow> snap_generation_id s = cont_generation_id cc \<Longrightarrow>
     advance_epoch me now cc s w = (lres, w') \<Longrightarrow> lifecycle_step (w, S) (w', S)"
| reap_step: "on_db (afail_active_by_producer now toks reason) w = (n, w') \<Longrightarrow>
     lifecycle_step (w, S) (w', S)"

definition init_world :: "bool \<Rightarrow> control_world" where
  "init_world has_hitl =
     \<lparr>w_db = empty_db, w_published = [], w_has_hitl = has_hitl, w_expired = []\<rparr>"

inductive lifecycle_run ::
  "control_world \<times> generation_snapshot set \<Rightarrow> control_world \<times> generation_snapshot set \<Rightarrow> bool" where
  run_refl: "lifecycle_run p p"
| run_step: "lifecycle_run p q \<Longrightarrow> lifecycle_step q r \<Longrightarrow> lifecycle_run p r"

definition reachable :: "control_world \<times> generation_snapshot set \<Rightarrow> bool" where
  "reachable p \<longleftrightarrow> (\<exists>h. lifecycle_run (init_world h, {}) p)"

section \<open>The effect of one transaction\<close>

definition moved :: "uuid \<Rightarrow> generation \<Rightarrow> generation \<Rightarrow> generation_db \<Rightarrow> generation_db \<Rightarrow> bool" where
  "moved k r r' db db' \<longleftrightarrow>
     db_row k db = Some r \<and> db_wf db' \<and> db_commands db' = db_commands db \<and>
     (\<forall>j. db_row j db' = (if j = k then Some r' else db_row j db))"

lemma on_db_atransition_cases:
  assumes "db_wf (w_db w)"
    and "on_db (atransition now k u c sts v vals) w = (res, w')"
  obtains (same) "w' = w" "\<And>s. res \<noteq> Inr (Some s)"
  | (moved) r where "moved k r (transitioned now vals r) (w_db w) (w_db w')"
      "fence_matches k u c sts v r" "res = Inr (Some (from_row (transitioned now vals r)))"
      "w' = w\<lparr>w_db := w_db w'\<rparr>"
proof -
  obtain x db' where run: "atransition now k u c sts v vals (w_db w) = (x, db')" by fastforce
  consider e where "x = Inl e" | "x = Inr None" | s where "x = Inr (Some s)"
    by (cases x) auto
  then show thesis
  proof cases
    case 1
    with run assms(2) have "w' = w" by (auto simp: on_db_def dest: atransition_Inl)
    with 1 run assms(2) show thesis by (intro same) (auto simp: on_db_def)
  next
    case 2
    with run assms have "w' = w" by (auto simp: on_db_def dest: atransition_None(1))
    with 2 run assms(2) show thesis by (intro same) (auto simp: on_db_def)
  next
    case 3
    with run have "atransition now k u c sts v vals (w_db w) = (Inr (Some s), db')" by simp
    from 3 run assms(2) have w': "w' = w\<lparr>w_db := db'\<rparr>" and res: "res = Inr (Some s)"
      by (auto simp: on_db_def)
    from \<open>atransition now k u c sts v vals (w_db w) = (Inr (Some s), db')\<close> show thesis
      by (rule atransition_Some [OF assms(1)]) (rule moved, simp_all add: w' res moved_def)
  qed
qed

lemma must_transition_cases:
  assumes "db_wf (w_db w)"
    and "must_transition now k u c sts v vals w = (res, w')"
  obtains (same) "w' = w" "\<And>s. res \<noteq> Inr s"
  | (moved) r where "moved k r (transitioned now vals r) (w_db w) (w_db w')"
      "fence_matches k u c sts v r" "res = Inr (from_row (transitioned now vals r))"
      "w' = w\<lparr>w_db := w_db w'\<rparr>"
proof -
  obtain x w1 where run: "on_db (atransition now k u c sts v vals) w = (x, w1)" by fastforce
  show thesis
  proof (rule on_db_atransition_cases [OF assms(1) run])
    assume "w1 = w" and "\<And>s. x \<noteq> Inr (Some s)"
    with run assms(2) show thesis
      by (intro same) (auto simp: must_transition_def bind_act_app refuse_def split: sum.splits option.splits)
  next
    fix r
    assume "moved k r (transitioned now vals r) (w_db w) (w_db w1)"
      and "fence_matches k u c sts v r" and "x = Inr (Some (from_row (transitioned now vals r)))"
      and "w1 = w\<lparr>w_db := w_db w1\<rparr>"
    with run assms(2) show thesis
      by (intro moved [of r]) (auto simp: must_transition_def bind_act_app)
  qed
qed

lemmas status_simps = STOPPABLE_def COMPLETABLE_def CONTINUABLE_FROM_def status_sets

lemma fence_matches_status:
  "fence_matches k u c sts v r \<Longrightarrow> gen_status r \<in> sts"
  by (simp add: fence_matches_def)

section \<open>The invariant\<close>

text \<open>
  \<open>evolves\<close> is what a transaction may do to the rows: keep a row, move it along an edge of the
  diagram, or add one. The invariant adds to the tables' well-formedness that a snapshot read at any
  time is of an existing row, is not newer than it, and equals it when the versions agree.
\<close>

definition row_keeps :: "generation \<Rightarrow> generation \<Rightarrow> bool" where
  "row_keeps r r' \<longleftrightarrow> r' = r \<or> row_edge r r'"

definition evolves :: "generation_db \<Rightarrow> generation_db \<Rightarrow> bool" where
  "evolves db db' \<longleftrightarrow> db_wf db' \<and>
     (\<forall>k r. db_row k db = Some r \<longrightarrow> (\<exists>r'. db_row k db' = Some r' \<and> row_keeps r r')) \<and>
     (\<forall>k r'. db_row k db = None \<longrightarrow> db_row k db' = Some r' \<longrightarrow> row_ok r')"

definition snapshot_ok :: "generation_db \<Rightarrow> generation_snapshot \<Rightarrow> bool" where
  "snapshot_ok db s \<longleftrightarrow>
     (\<exists>r. db_row (snap_generation_id s) db = Some r \<and> snap_version s \<le> gen_version r \<and>
        (snap_version s = gen_version r \<longrightarrow> s = from_row r))"

definition lifecycle_inv :: "control_world \<times> generation_snapshot set \<Rightarrow> bool" where
  "lifecycle_inv p \<longleftrightarrow> (case p of (w, S) \<Rightarrow>
     db_wf (w_db w) \<and>
     (\<forall>k r. db_row k (w_db w) = Some r \<longrightarrow> row_ok r) \<and>
     (\<forall>s \<in> S. snapshot_ok (w_db w) s))"

lemma row_edge_version: "row_edge r r' \<Longrightarrow> gen_version r' = gen_version r + 1"
  by (simp add: row_edge_def)

lemma evolves_refl [simp]: "db_wf db \<Longrightarrow> evolves db db"
  by (simp add: evolves_def row_keeps_def)

lemma evolves_moved: "moved k r r' db db' \<Longrightarrow> row_edge r r' \<Longrightarrow> evolves db db'"
  by (auto simp: evolves_def moved_def row_keeps_def)

lemma evolvesD:
  assumes "evolves db db'"
  shows "db_wf db'"
    and "db_row k db = Some r \<Longrightarrow> \<exists>r'. db_row k db' = Some r' \<and> row_keeps r r'"
    and "db_row k db = None \<Longrightarrow> db_row k db' = Some r' \<Longrightarrow> row_ok r'"
  using assms unfolding evolves_def by blast+

lemma evolves_row_ok:
  assumes "evolves db db'" and "\<And>k r. db_row k db = Some r \<Longrightarrow> row_ok r"
    and "db_row k db' = Some r'"
  shows "row_ok r'"
proof (cases "db_row k db")
  case None
  then show ?thesis using evolvesD(3) [OF assms(1)] assms(3) by simp
next
  case (Some r)
  with assms(3) have "row_keeps r r'" using evolvesD(2) [OF assms(1) Some] by auto
  with assms(2) Some show ?thesis by (auto simp: row_keeps_def row_edge_def)
qed

lemma evolves_snapshot_ok:
  assumes "evolves db db'" and "snapshot_ok db s"
  shows "snapshot_ok db' s"
proof -
  from assms(2) obtain r where r: "db_row (snap_generation_id s) db = Some r"
    and le: "snap_version s \<le> gen_version r"
    and eq: "snap_version s = gen_version r \<Longrightarrow> s = from_row r"
    by (auto simp: snapshot_ok_def)
  from assms(1) r obtain r' where r': "db_row (snap_generation_id s) db' = Some r'"
    and k: "row_keeps r r'"
    using evolvesD(2) by blast
  from k consider "r' = r" | "gen_version r' = gen_version r + 1"
    by (auto simp: row_keeps_def dest: row_edge_version)
  then show ?thesis
    using r' le eq by cases (auto simp: snapshot_ok_def)
qed

lemma lifecycle_inv_evolves:
  "lifecycle_inv (w, S) \<Longrightarrow> evolves (w_db w) (w_db w') \<Longrightarrow> lifecycle_inv (w', S)"
  unfolding lifecycle_inv_def prod.case
  by (metis evolves_row_ok evolves_snapshot_ok evolvesD(1))

lemma lifecycle_invD:
  assumes "lifecycle_inv (w, S)"
  shows "db_wf (w_db w)" and "db_row k (w_db w) = Some r \<Longrightarrow> row_ok r"
    and "s \<in> S \<Longrightarrow> snapshot_ok (w_db w) s"
  using assms by (simp_all add: lifecycle_inv_def)

text \<open>A snapshot whose version the fence still finds on the row is that row.\<close>

lemma fence_snapshot:
  assumes "snapshot_ok db s" and "snap_generation_id s = k" and "db_row k db = Some r"
    and "fence_matches k u c sts (snap_version s) r"
  shows "s = from_row r"
  using assms by (auto simp: snapshot_ok_def fence_matches_def)

section \<open>Every transition follows the diagram\<close>

lemmas row_edge_simps = row_edge_def row_ok_def transitioned_def status_simps fence_matches_def
  owned_by_def Let_def

lemma running_edge:
  "row_ok r \<Longrightarrow> fence_matches k u c {STARTING} v r \<Longrightarrow>
   row_edge r (transitioned now [SetStatus RUNNING] r)"
  by (simp add: row_edge_simps)

lemma continuable_columns:
  fixes cmd r new_id now
  defines "r' \<equiv> transitioned now (continuable_values new_id cmd) r"
  shows "gen_status r' = CONTINUABLE"
    and "gen_continuation_available r' \<longleftrightarrow> \<not> truthy_str (mc_continuation_block_reason cmd)"
    and "gen_continuation_id r' =
      (if truthy_str (mc_continuation_block_reason cmd) then None else Some new_id)"
    and "gen_continuation_block_reason r' = mc_continuation_block_reason cmd"
    and "gen_terminal_at r' = gen_terminal_at r"
    and "gen_execution_epoch r' =
      (case mc_execution_epoch cmd of None \<Rightarrow> gen_execution_epoch r | Some e \<Rightarrow> e)"
  by (simp_all add: r'_def transitioned_def continuable_values_def Let_def split: option.split)

lemma continuable_edge:
  assumes "row_ok r" and "fence_matches k u c CONTINUABLE_FROM v r" and "valid_mark_continuable cmd"
  shows "row_edge r (transitioned now (continuable_values new_id cmd) r)"
proof -
  from assms(2) have "gen_status r \<in> {RUNNING, FINALIZING_AFTER_LIMIT, CONTINUING}"
    by (simp add: fence_matches_def CONTINUABLE_FROM_def)
  with assms(1) have "gen_status r = RUNNING \<or> gen_status r = CONTINUING"
    and "gen_terminal_at r = None" and "1 \<le> gen_version r" and "0 \<le> gen_execution_epoch r"
    by (auto simp: row_ok_def status_sets)
  with assms(3) show ?thesis
    by (auto simp: row_edge_def row_ok_def continuable_columns valid_mark_continuable_def status_sets
        split: option.split)
qed

lemma fence_stoppable:
  assumes "row_ok r" and "fence_matches k u c STOPPABLE v r"
  shows "gen_status r \<in> {STARTING, RUNNING, CONTINUING, STOP_REQUESTED}"
    and "1 \<le> gen_version r" and "0 \<le> gen_execution_epoch r"
  using assms by (auto simp: fence_matches_def STOPPABLE_def row_ok_def)

lemma stopped_columns:
  fixes cmd r now
  defines "r' \<equiv> transitioned now (stopped_values now cmd) r"
  shows "gen_status r' = STOPPED"
    and "gen_continuation_available r' \<longleftrightarrow>
      ms_continuation_available cmd \<and> \<not> truthy_str (ms_continuation_block_reason cmd)"
    and "\<not> gen_continuation_available r' \<Longrightarrow> gen_continuation_id r' = None"
    and "gen_continuation_block_reason r' = ms_continuation_block_reason cmd"
    and "gen_terminal_at r' = Some now"
    and "gen_execution_epoch r' = gen_execution_epoch r"
  by (simp_all add: r'_def transitioned_def stopped_values_def Let_def) blast

lemma stopped_edge:
  assumes "row_ok r" and "fence_matches k u c STOPPABLE v r"
  shows "row_edge r (transitioned now (stopped_values now cmd) r)"
  using fence_stoppable [OF assms]
  by (auto simp: row_edge_def row_ok_def stopped_columns status_sets)

lemma failed_edge:
  assumes "row_ok r" and "fence_matches k u c STOPPABLE v r"
  shows "row_edge r (transitioned now [SetStatus FAILED, SetContinuationAvailable False,
     SetContinuationId None, SetTerminalReason (Some reason), SetTerminalAt (Some now)] r)"
  using fence_stoppable [OF assms]
  by (auto simp: row_edge_def row_ok_def transitioned_def status_sets)

lemma completed_edge:
  assumes "row_ok r" and "fence_matches k u c COMPLETABLE v r"
  shows "row_edge r (transitioned now [SetStatus (if partial then COMPLETED_PARTIAL else COMPLETED),
     SetAssistantMessageId m, SetContinuationAvailable False, SetContinuationId None,
     SetTerminalReason reason, SetTerminalAt (Some now)] r)"
proof -
  from assms have "gen_status r \<in> {STARTING, RUNNING, CONTINUING}"
    and "1 \<le> gen_version r" and "0 \<le> gen_execution_epoch r"
    by (auto simp: fence_matches_def COMPLETABLE_def row_ok_def)
  then show ?thesis
    by (cases partial) (auto simp: row_edge_def row_ok_def transitioned_def status_sets)
qed

lemma resumed_edge:
  "row_ok r \<Longrightarrow> fence_matches k u c {CONTINUABLE} v r \<Longrightarrow>
   truthy_str (gen_continuation_block_reason r) \<Longrightarrow>
   row_edge r (transitioned now [SetStatus RUNNING, SetContinuationBlockReason None,
     SetProducerToken (Some me)] r)"
  by (auto simp: row_edge_simps)

lemma partial_edge:
  "row_ok r \<Longrightarrow> fence_matches k u c {CONTINUABLE} v r \<Longrightarrow>
   row_edge r (transitioned now [SetStatus COMPLETED_PARTIAL, SetContinuationAvailable False,
     SetContinuationId None, SetTerminalReason reason, SetTerminalAt (Some now)] r)"
  by (auto simp: row_edge_simps)

lemma stop_requested_edge:
  assumes "row_ok r" and "fence_matches k u c STOPPABLE v r" and "gen_status r \<noteq> STOP_REQUESTED"
  shows "row_edge r (transitioned now [SetStatus STOP_REQUESTED] r)"
proof -
  from fence_stoppable [OF assms(1,2)] assms(3)
  have st: "gen_status r \<in> {STARTING, RUNNING, CONTINUING}" by blast
  with assms(1) have "\<not> gen_continuation_available r" and "gen_terminal_at r = None"
    and "gen_continuation_id r = None" and "1 \<le> gen_version r" and "0 \<le> gen_execution_epoch r"
    by (auto simp: row_ok_def status_sets)
  with st show ?thesis by (auto simp: row_edge_def row_ok_def transitioned_def status_sets)
qed

lemma continuing_edge:
  "row_ok r \<Longrightarrow> fence_matches k u c {CONTINUABLE, STOPPED} v r \<Longrightarrow>
   row_edge r (transitioned now (continuing_values me (from_row r)) r)"
  by (auto simp: row_edge_simps continuing_values_def)

lemma reclaimed_edge:
  "row_ok r \<Longrightarrow> is_active r \<Longrightarrow> row_edge r (reclaimed now reason r)"
  by (auto simp: row_edge_def row_ok_def reclaimed_def is_active_def status_simps)

section \<open>The effect of the operations on the tables\<close>

lemma must_transition_evolves:
  assumes "lifecycle_inv (w, S)"
    and "must_transition now k u c sts v vals w = (res, w')"
    and "\<And>r. row_ok r \<Longrightarrow> fence_matches k u c sts v r \<Longrightarrow> db_row k (w_db w) = Some r \<Longrightarrow>
      row_edge r (transitioned now vals r)"
  shows "evolves (w_db w) (w_db w') \<and> db_commands (w_db w') = db_commands (w_db w)"
proof (rule must_transition_cases [OF lifecycle_invD(1) [OF assms(1)] assms(2)])
  assume "w' = w"
  with lifecycle_invD(1) [OF assms(1)] show ?thesis by simp
next
  fix r
  assume m: "moved k r (transitioned now vals r) (w_db w) (w_db w')"
    and f: "fence_matches k u c sts v r"
  from m have "db_row k (w_db w) = Some r" by (simp add: moved_def)
  with assms(3) f lifecycle_invD(2) [OF assms(1)] m show ?thesis
    by (auto intro: evolves_moved simp: moved_def)
qed

lemma on_db_atransition_evolves:
  assumes "lifecycle_inv (w, S)"
    and "on_db (atransition now k u c sts v vals) w = (res, w')"
    and "\<And>r. row_ok r \<Longrightarrow> fence_matches k u c sts v r \<Longrightarrow> db_row k (w_db w) = Some r \<Longrightarrow>
      row_edge r (transitioned now vals r)"
  shows "evolves (w_db w) (w_db w') \<and> db_commands (w_db w') = db_commands (w_db w)"
proof (rule on_db_atransition_cases [OF lifecycle_invD(1) [OF assms(1)] assms(2)])
  assume "w' = w"
  with lifecycle_invD(1) [OF assms(1)] show ?thesis by simp
next
  fix r
  assume m: "moved k r (transitioned now vals r) (w_db w) (w_db w')"
    and f: "fence_matches k u c sts v r"
  from m have "db_row k (w_db w) = Some r" by (simp add: moved_def)
  with assms(3) f lifecycle_invD(2) [OF assms(1)] m show ?thesis
    by (auto intro: evolves_moved simp: moved_def)
qed

lemma evolves_same_rows:
  assumes "lifecycle_inv (w, S)" and "db_generations db' = db_generations (w_db w)"
    and "distinct (map command_key (db_commands db'))"
  shows "evolves (w_db w) db'"
  using assms lifecycle_invD(1) [OF assms(1)]
  by (simp add: evolves_def db_row_def db_wf_def row_keeps_def)

lemma acreate_evolves:
  assumes "lifecycle_inv (w, S)" and "acreate new_id me now c (w_db w) = (x, db')"
  shows "evolves (w_db w) db' \<and> db_commands db' = db_commands (w_db w)"
proof (cases "unique_indexes (db_generations (w_db w) @ [new_generation new_id me now c])")
  case False
  with assms lifecycle_invD(1) [OF assms(1)] show ?thesis by (simp add: acreate_def)
next
  case True
  let ?r = "new_generation new_id me now c"
  from True assms(2) have db': "db' = (w_db w)\<lparr>db_generations := db_generations (w_db w) @ [?r]\<rparr>"
    by (simp add: acreate_def Let_def)
  from True lifecycle_invD(1) [OF assms(1)] have wf: "db_wf db'" by (simp add: db' db_wf_def)
  have row: "db_row k db' = (case db_row k (w_db w) of Some r \<Rightarrow> Some r
      | None \<Rightarrow> if new_id = k then Some ?r else None)" for k
    by (simp add: db' db_row_def find_append_single new_generation_def split: option.split)
  have "row_ok ?r" by (simp add: row_ok_def new_generation_def status_sets)
  with wf row show ?thesis
    by (auto simp: evolves_def row_keeps_def db' split: option.splits if_splits)
qed

lemma reaper_evolves:
  assumes "lifecycle_inv (w, S)"
    and "afail_active_by_producer now toks reason (w_db w) = (x, db')"
  shows "evolves (w_db w) db' \<and> db_commands db' = db_commands (w_db w)"
proof (cases "filter (\<lambda>t. t \<noteq> []) toks = []")
  case True
  with assms lifecycle_invD(1) [OF assms(1)] show ?thesis
    by (simp add: afail_active_by_producer_def Let_def)
next
  case False
  let ?t = "filter (\<lambda>t. t \<noteq> []) toks"
  let ?f = "\<lambda>r. if produced_by ?t r then reclaimed now reason r else r"
  let ?rows = "db_generations (w_db w)"
  from False assms(2) have db': "db' = (w_db w)\<lparr>db_generations := map ?f ?rows\<rparr>"
    by (simp add: afail_active_by_producer_def Let_def)
  have "unique_indexes (map ?f ?rows)"
    using lifecycle_invD(1) [OF assms(1)]
    by (intro unique_indexes_map)
      (auto simp: db_wf_def is_active_def status_sets split: if_splits)
  then have wf: "db_wf db'"
    using lifecycle_invD(1) [OF assms(1)] by (simp add: db' db_wf_def)
  have row: "db_row k db' = map_option ?f (db_row k (w_db w))" for k
    unfolding db' db_row_def by (simp add: find_map_key)
  have "row_keeps r (?f r)" if "db_row k (w_db w) = Some r" for k r
    using lifecycle_invD(2) [OF assms(1) that]
    by (auto simp: row_keeps_def produced_by_def intro: reclaimed_edge)
  with wf row show ?thesis by (auto simp: evolves_def db')
qed

lemma invalidate_pending_approval_db:
  "invalidate_pending_approval s u w = (res, w') \<Longrightarrow> w_db w' = w_db w \<and> res = Inr ()"
  by (auto simp: invalidate_pending_approval_def bind_act_app on_db_def aget_resume_context_def
      split: if_splits option.splits)

lemma accept_partial_db:
  assumes "accept_partial now cmd s w = (res, w')"
  obtains x w1 where "on_db (atransition now (stop_generation_id cmd) (stop_user_id cmd)
      (stop_conversation_id cmd) {CONTINUABLE} (snap_version s)
      [SetStatus COMPLETED_PARTIAL, SetContinuationAvailable False, SetContinuationId None,
       SetTerminalReason (Some ''stopped_partial''), SetTerminalAt (Some now)]) w = (x, w1)"
    and "w_db w' = w_db w1"
    and "res = (case x of Inl e \<Rightarrow> Inl e | Inr None \<Rightarrow> Inl (ControlError (control_error_of StaleCommand
       ''another command changed this generation first'' [])) | Inr (Some r) \<Rightarrow> Inr r)"
  using assms
  by (auto simp: accept_partial_def bind_act_app refuse_def dest: invalidate_pending_approval_db
      split: prod.splits sum.splits option.splits if_splits)

lemma request_worker_stop_db:
  assumes "request_worker_stop now cmd s w = (res, w')"
  obtains x w1 where "on_db (atransition now (stop_generation_id cmd) (stop_user_id cmd)
      (stop_conversation_id cmd) STOPPABLE (snap_version s) [SetStatus STOP_REQUESTED]) w = (x, w1)"
    and "w_db w' = w_db w1"
    and "res = (case x of Inl e \<Rightarrow> Inl e | Inr None \<Rightarrow> Inl (ControlError (control_error_of StaleCommand
       ''another command changed this generation first'' [])) | Inr (Some r) \<Rightarrow> Inr r)"
  using assms
  by (auto simp: request_worker_stop_def bind_act_app refuse_def publish_stop_def
      split: prod.splits sum.splits option.splits)

text \<open>The two checks read nothing and write nothing.\<close>

lemma require_fresh_run:
  obtains (ok) "v = snap_version s" "require_fresh v s w = (Inr (), w)"
  | (refused) c where "v \<noteq> snap_version s" "require_fresh v s w = (Inl (ControlError c), w)"
      "ce_kind c = StaleCommand" "ce_message c \<noteq> []"
  by (cases v "snap_version s" rule: linorder_cases)
    (auto simp: require_fresh_def refuse_def control_error_of_def)

lemma require_continuable_run:
  obtains (ok) "snap_continuation_available s" "snap_continuation_id s = Some (cont_continuation_id cmd)"
      "require_continuable cmd s w = (Inr (), w)"
  | (refused) c where "require_continuable cmd s w = (Inl (ControlError c), w)"
      "ce_kind c = ContinuationUnavailable" "ce_message c \<noteq> []"
proof (cases "snap_continuation_available s \<and> snap_continuation_id s \<noteq> None")
  case True
  then show thesis
    by (cases "snap_continuation_id s = Some (cont_continuation_id cmd)")
      (auto intro: that simp: require_continuable_def refuse_def control_error_of_def)
next
  case False
  then show thesis
    by (intro that(2)) (auto simp: require_continuable_def refuse_def control_error_of_def split: option.splits if_splits)
qed

lemma require_fresh_world: "require_fresh v s w = (res, w') \<Longrightarrow> w' = w"
  by (rule require_fresh_run [of v s w]) auto

lemma decide_stop_evolves:
  assumes inv: "lifecycle_inv (w, S)" and s: "s \<in> S" "snap_generation_id s = stop_generation_id cmd"
    and run: "decide_stop now cmd s w = (res, w')"
  shows "evolves (w_db w) (w_db w') \<and> db_commands (w_db w') = db_commands (w_db w)"
proof -
  note wf = lifecycle_invD(1) [OF inv] and ok = lifecycle_invD(3) [OF inv s(1)]
  consider "w' = w" | "accept_partial now cmd s w = (res, w')"
    | "request_worker_stop now cmd s w = (res, w')" "snap_status s \<noteq> STOP_REQUESTED"
    using run by (auto simp: decide_stop_def bind_act_app refuse_def dest: require_fresh_world
        split: prod.splits sum.splits if_splits)
  then show ?thesis
  proof cases
    case 1
    with wf show ?thesis by simp
  next
    case 2
    then show ?thesis
    proof (rule accept_partial_db)
      fix x w1
      assume "on_db (atransition now (stop_generation_id cmd) (stop_user_id cmd)
        (stop_conversation_id cmd) {CONTINUABLE} (snap_version s)
        [SetStatus COMPLETED_PARTIAL, SetContinuationAvailable False, SetContinuationId None,
         SetTerminalReason (Some ''stopped_partial''), SetTerminalAt (Some now)]) w = (x, w1)"
        and "w_db w' = w_db w1"
      then show ?thesis
        using on_db_atransition_evolves [OF inv] partial_edge by metis
    qed
  next
    case 3
    from 3(1) show ?thesis
    proof (rule request_worker_stop_db)
      fix x w1
      assume run: "on_db (atransition now (stop_generation_id cmd) (stop_user_id cmd)
        (stop_conversation_id cmd) STOPPABLE (snap_version s) [SetStatus STOP_REQUESTED]) w = (x, w1)"
        and w1: "w_db w' = w_db w1"
      have "row_edge r (transitioned now [SetStatus STOP_REQUESTED] r)"
        if "row_ok r" "fence_matches (stop_generation_id cmd) (stop_user_id cmd)
          (stop_conversation_id cmd) STOPPABLE (snap_version s) r"
          "db_row (stop_generation_id cmd) (w_db w) = Some r" for r
        using that fence_snapshot [OF ok s(2) that(3,2)] 3(2) by (auto intro: stop_requested_edge)
      with on_db_atransition_evolves [OF inv run] w1 show ?thesis by metis
    qed
  qed
qed

lemma advance_epoch_db:
  assumes "advance_epoch me now cmd s w = (res, w')"
  obtains (refused) e where "w' = w" "res = Inl (ControlError e)" "ce_message e \<noteq> []"
  | (swapped) x ctx where "require_fresh (cont_expected_version cmd) s w = (Inr (), w)"
      "require_continuable cmd s w = (Inr (), w)"
      "on_db (aget_resume_context (cont_generation_id cmd) (cont_user_id cmd)
         (cont_conversation_id cmd)) w = (Inr (Some ctx), w)"
      "on_db (atransition now (cont_generation_id cmd) (cont_user_id cmd)
         (cont_conversation_id cmd) {CONTINUABLE, STOPPED} (snap_version s)
         (continuing_values me s)) w = (x, w')"
      "res = (case x of Inl e \<Rightarrow> Inl e | Inr None \<Rightarrow> Inl (ControlError (control_error_of StaleCommand
         ''another command changed this generation first'' []))
       | Inr (Some a) \<Rightarrow> Inr \<lparr>lease_snapshot = a, lease_execution_epoch = snap_execution_epoch a,
           lease_paused_epoch = snap_execution_epoch s,
           lease_checkpoint_thread_id = rc_checkpoint_thread_id ctx,
           lease_active_agent_id = rc_active_agent_id ctx,
           lease_research_accounting = rc_research_accounting ctx\<rparr>)"
proof (cases rule: require_fresh_run [of "cont_expected_version cmd" s w])
  case (refused c)
  with assms show thesis by (intro that(1) [of c]) (auto simp: advance_epoch_def bind_act_app)
next
  case ok
  note fresh = this
  show thesis
  proof (cases rule: require_continuable_run [of s cmd w])
    case (refused c)
    with fresh assms show thesis
      by (intro that(1) [of c]) (auto simp: advance_epoch_def bind_act_app)
  next
    case ok
    obtain ctx where r: "on_db (aget_resume_context (cont_generation_id cmd) (cont_user_id cmd)
         (cont_conversation_id cmd)) w = (Inr ctx, w)"
      by (auto simp: on_db_def aget_resume_context_def)
    obtain x w1 where t: "on_db (atransition now (cont_generation_id cmd) (cont_user_id cmd)
         (cont_conversation_id cmd) {CONTINUABLE, STOPPED} (snap_version s)
         (continuing_values me s)) w = (x, w1)"
      by fastforce
    show thesis
    proof (cases ctx)
      case None
      with fresh ok r assms show thesis
        by (intro that(1)) (auto simp: advance_epoch_def bind_act_app refuse_def control_error_of_def)
    next
      case (Some c)
      have "w' = w1" and "res = (case x of Inl e \<Rightarrow> Inl e
       | Inr None \<Rightarrow> Inl (ControlError (control_error_of StaleCommand
           ''another command changed this generation first'' []))
       | Inr (Some a) \<Rightarrow> Inr \<lparr>lease_snapshot = a, lease_execution_epoch = snap_execution_epoch a,
           lease_paused_epoch = snap_execution_epoch s,
           lease_checkpoint_thread_id = rc_checkpoint_thread_id c,
           lease_active_agent_id = rc_active_agent_id c,
           lease_research_accounting = rc_research_accounting c\<rparr>)"
        using assms fresh ok r t Some
        by (auto simp: advance_epoch_def bind_act_app refuse_def split: sum.splits option.splits)
      with fresh ok r t Some show thesis by (intro that(2) [of c x]) auto
    qed
  qed
qed

lemma advance_epoch_evolves:
  assumes inv: "lifecycle_inv (w, S)" and s: "s \<in> S" "snap_generation_id s = cont_generation_id cmd"
    and run: "advance_epoch me now cmd s w = (res, w')"
  shows "evolves (w_db w) (w_db w') \<and> db_commands (w_db w') = db_commands (w_db w)"
  using run
proof (cases rule: advance_epoch_db)
  case refused
  with lifecycle_invD(1) [OF inv] show ?thesis by simp
next
  case (swapped x ctx)
  have "row_edge r (transitioned now (continuing_values me s) r)"
    if "row_ok r" "fence_matches (cont_generation_id cmd) (cont_user_id cmd)
      (cont_conversation_id cmd) {CONTINUABLE, STOPPED} (snap_version s) r"
      "db_row (cont_generation_id cmd) (w_db w) = Some r" for r
    using continuing_edge [OF that(1,2)]
      fence_snapshot [OF lifecycle_invD(3) [OF inv s(1)] s(2) that(3,2)] by simp
  with on_db_atransition_evolves [OF inv swapped(4)] show ?thesis by blast
qed

section \<open>The ledger\<close>

definition ledger_keeps :: "generation_db \<Rightarrow> generation_db \<Rightarrow> bool" where
  "ledger_keeps db db' \<longleftrightarrow>
     (\<forall>g key c. find_command g key db = Some c \<longrightarrow>
        (\<exists>c'. find_command g key db' = Some c' \<and> cmd_action c' = cmd_action c \<and>
           cmd_fence c' = cmd_fence c \<and> (cmd_result c \<noteq> None \<longrightarrow> cmd_result c' = cmd_result c)))"

lemma ledger_keeps_same [simp]: "db_commands db' = db_commands db \<Longrightarrow> ledger_keeps db db'"
  by (simp add: ledger_keeps_def find_command_def)

lemma ledger_keeps_trans: "ledger_keeps a b \<Longrightarrow> ledger_keeps b c \<Longrightarrow> ledger_keeps a c"
  unfolding ledger_keeps_def by metis

lemma aclaim_command_effect:
  assumes "aclaim_command g key act f db = (x, db')" and "distinct (map command_key (db_commands db))"
  shows "db_generations db' = db_generations db" and "ledger_keeps db db'"
    and "distinct (map command_key (db_commands db'))"
proof -
  let ?c = "\<lparr>cmd_generation_id = g, cmd_idempotency_key = key, cmd_action = act,
    cmd_fence = f, cmd_result = None, cmd_completed_at = None\<rparr>"
  consider "db' = db" | "find_command g key db = None"
      "db' = db\<lparr>db_commands := db_commands db @ [?c]\<rparr>"
    using assms(1) by (auto simp: aclaim_command_def split: option.splits if_splits)
  then show "db_generations db' = db_generations db" "ledger_keeps db db'"
    "distinct (map command_key (db_commands db'))"
  proof (atomize (full), cases)
    case 1
    with assms(2) show "db_generations db' = db_generations db \<and> ledger_keeps db db' \<and>
      distinct (map command_key (db_commands db'))" by simp
  next
    case 2
    then have "(g, key) \<notin> set (map command_key (db_commands db))"
      by (auto simp: find_command_def find_None_iff)
    with 2 assms(2) show "db_generations db' = db_generations db \<and> ledger_keeps db db' \<and>
      distinct (map command_key (db_commands db'))"
      by (auto simp: ledger_keeps_def find_command_def find_append_single command_key_def)
  qed
qed

lemma find_command_record:
  "find_command g' key' (snd (arecord_command_result now g key r db)) =
     map_option (\<lambda>c. if command_key c = (g, key) \<and> cmd_result c = None
                 then c\<lparr>cmd_result := Some r, cmd_completed_at := Some now\<rparr> else c)
       (find_command g' key' db)"
  unfolding find_command_def arecord_command_result_def
  by (simp, subst find_map_key [where key = command_key]) (simp_all add: command_key_def)

lemma arecord_command_result_effect:
  assumes "arecord_command_result now g key r db = (x, db')"
    and "distinct (map command_key (db_commands db))"
  shows "db_generations db' = db_generations db" and "ledger_keeps db db'"
    and "distinct (map command_key (db_commands db'))"
proof -
  let ?f = "\<lambda>c. if command_key c = (g, key) \<and> cmd_result c = None
                 then c\<lparr>cmd_result := Some r, cmd_completed_at := Some now\<rparr> else c"
  have key: "command_key (?f c) = command_key c" for c by (simp add: command_key_def)
  from assms(1) have db': "db' = db\<lparr>db_commands := map ?f (db_commands db)\<rparr>"
    by (simp add: arecord_command_result_def)
  have "map command_key (map ?f (db_commands db)) = map command_key (db_commands db)"
    using key by simp
  moreover have "db_commands db' = map ?f (db_commands db)" by (simp add: db')
  ultimately show "distinct (map command_key (db_commands db'))"
    using assms(2) by (simp only:)
  show "db_generations db' = db_generations db" by (simp add: db')
  show "ledger_keeps db db'"
    using find_command_record [of _ _ now g key r db] assms(1) by (auto simp: ledger_keeps_def)
qed

section \<open>Steps and runs keep the invariant\<close>

definition step_effect :: "control_world \<Rightarrow> control_world \<Rightarrow> bool" where
  "step_effect w w' \<longleftrightarrow> evolves (w_db w) (w_db w') \<and> ledger_keeps (w_db w) (w_db w')"

lemma step_effectI:
  "evolves (w_db w) (w_db w') \<and> db_commands (w_db w') = db_commands (w_db w) \<Longrightarrow> step_effect w w'"
  by (simp add: step_effect_def)

lemma on_db_world: "on_db m w = (res, w') \<Longrightarrow> \<exists>x. m (w_db w) = (x, w_db w')"
  by (auto simp: on_db_def split: prod.splits sum.splits)

lemma transition_effects:
  assumes "lifecycle_inv (w, S)"
  shows "start_generation new_id me now cg w = (res, w') \<Longrightarrow> step_effect w w'"
    and "mark_running now g u c v w = (res, w') \<Longrightarrow> step_effect w w'"
    and "mark_continuable new_id now cmd w = (res, w') \<Longrightarrow> valid_mark_continuable cmd \<Longrightarrow>
      step_effect w w'"
    and "mark_stopped now msc w = (res, w') \<Longrightarrow> step_effect w w'"
    and "mark_failed now g u c v reason w = (res, w') \<Longrightarrow> step_effect w w'"
    and "mark_completed now mkc w = (res, w') \<Longrightarrow> step_effect w w'"
  subgoal by (rule step_effectI)
      (use acreate_evolves [OF assms] in \<open>auto simp: start_generation_def dest!: on_db_world\<close>)
  subgoal by (rule step_effectI, unfold mark_running_def,
      rule must_transition_evolves [OF assms], assumption, rule running_edge)
  subgoal by (rule step_effectI, unfold mark_continuable_def,
      rule must_transition_evolves [OF assms], assumption, rule continuable_edge)
  subgoal by (rule step_effectI, unfold mark_stopped_def,
      rule must_transition_evolves [OF assms], assumption, rule stopped_edge)
  subgoal by (rule step_effectI, unfold mark_failed_def,
      rule must_transition_evolves [OF assms], assumption, rule failed_edge)
  subgoal by (rule step_effectI, unfold mark_completed_def,
      rule must_transition_evolves [OF assms], assumption, rule completed_edge)
  done

lemma resume_approved_effect:
  assumes "lifecycle_inv (w, S)" and "s \<in> S" and "snap_generation_id s = g"
    and "resume_approved me now g u c s w = (res, w')"
  shows "step_effect w w'"
proof (cases "snap_status s \<noteq> CONTINUABLE \<or>
    snap_continuation_block_reason s \<noteq> Some APPROVAL_PAUSE_REASON")
  case True
  with assms lifecycle_invD(1) [OF assms(1)] show ?thesis
    by (auto simp: resume_approved_def refuse_def step_effect_def)
next
  case False
  with assms(4) have run: "must_transition now g u c {CONTINUABLE} (snap_version s)
      [SetStatus RUNNING, SetContinuationBlockReason None, SetProducerToken (Some me)] w = (res, w')"
    by (simp add: resume_approved_def)
  show ?thesis
  proof (rule step_effectI, rule must_transition_evolves [OF assms(1) run])
    fix r
    assume r: "row_ok r" and f: "fence_matches g u c {CONTINUABLE} (snap_version s) r"
      and "db_row g (w_db w) = Some r"
    with fence_snapshot [OF lifecycle_invD(3) [OF assms(1,2)] assms(3)]
    have "s = from_row r" by blast
    with False have "truthy_str (gen_continuation_block_reason r)"
      by (simp add: APPROVAL_PAUSE_REASON_def)
    with r f show "row_edge r (transitioned now
        [SetStatus RUNNING, SetContinuationBlockReason None, SetProducerToken (Some me)] r)"
      by (rule resumed_edge)
  qed
qed

lemma ledger_effects:
  assumes "lifecycle_inv (w, S)"
  shows "on_db (aclaim_command g key act f) w = (res, w') \<Longrightarrow> step_effect w w'"
    and "record_result now g key rr w = (res', w') \<Longrightarrow> step_effect w w'"
    and "on_db (afail_active_by_producer now toks reason) w = (n, w') \<Longrightarrow> step_effect w w'"
proof -
  have d: "distinct (map command_key (db_commands (w_db w)))"
    using lifecycle_invD(1) [OF assms] by (simp add: db_wf_def)
  show "on_db (aclaim_command g key act f) w = (res, w') \<Longrightarrow> step_effect w w'"
    using aclaim_command_effect [OF _ d] evolves_same_rows [OF assms]
    unfolding step_effect_def by (blast dest: on_db_world)
  show "record_result now g key rr w = (res', w') \<Longrightarrow> step_effect w w'"
    using arecord_command_result_effect [OF _ d] evolves_same_rows [OF assms]
    unfolding step_effect_def record_result_def by (blast dest: on_db_world)
  show "on_db (afail_active_by_producer now toks reason) w = (n, w') \<Longrightarrow> step_effect w w'"
    using reaper_evolves [OF assms] by (blast intro: step_effectI dest: on_db_world)
qed

lemma lifecycle_step_effect:
  assumes "lifecycle_step (w, S) (w', S')" and "lifecycle_inv (w, S)"
  shows "step_effect w w' \<and> lifecycle_inv (w', S') \<and> S \<subseteq> S'"
proof -
  have read: "lifecycle_inv (w, insert (from_row r) S)" if "r \<in> set (db_generations (w_db w))" for r
    using that assms(2) lifecycle_invD(1) [OF assms(2)]
    by (auto simp: lifecycle_inv_def snapshot_ok_def db_row_iff)
  have stay: "step_effect w w"
    using lifecycle_invD(1) [OF assms(2)] by (simp add: step_effect_def)
  note effects = transition_effects [OF assms(2)] resume_approved_effect [OF assms(2)]
    ledger_effects [OF assms(2)] decide_stop_evolves [OF assms(2), THEN step_effectI]
    advance_epoch_evolves [OF assms(2), THEN step_effectI]
  have "(step_effect w w' \<and> S' = S) \<or>
      (w' = w \<and> (\<exists>r \<in> set (db_generations (w_db w)). S' = insert (from_row r) S))"
    using assms(1) by cases (simp_all add: effects, blast+)
  then show ?thesis
    using read stay lifecycle_inv_evolves [OF assms(2)] by (auto simp: step_effect_def)
qed

text \<open>What a row looks like later in a run: the same owner, a later version or the same row.\<close>

definition FINISHED_STATUSES :: "generation_status set" where
  "FINISHED_STATUSES = {COMPLETED, COMPLETED_PARTIAL, FAILED}"

definition row_later :: "generation \<Rightarrow> generation \<Rightarrow> bool" where
  "row_later r r' \<longleftrightarrow>
     gen_id r' = gen_id r \<and> gen_user_id r' = gen_user_id r \<and>
     gen_conversation_id r' = gen_conversation_id r \<and>
     (r' = r \<or> gen_version r < gen_version r') \<and>
     (gen_version r' = gen_version r + 1 \<longrightarrow> row_edge r r') \<and>
     (gen_status r \<in> FINISHED_STATUSES \<longrightarrow> r' = r)"

definition rows_later :: "generation_db \<Rightarrow> generation_db \<Rightarrow> bool" where
  "rows_later db db' \<longleftrightarrow>
     (\<forall>k r. db_row k db = Some r \<longrightarrow> (\<exists>r'. db_row k db' = Some r' \<and> row_later r r'))"

lemma row_keeps_later: "row_keeps r r' \<Longrightarrow> row_later r r'"
  by (cases "gen_status r")
    (auto simp: row_keeps_def row_later_def row_edge_def FINISHED_STATUSES_def)

lemma row_later_trans: "row_later a b \<Longrightarrow> row_later b c \<Longrightarrow> row_later a c"
  by (auto simp: row_later_def)

lemma evolves_rows_later: "evolves db db' \<Longrightarrow> rows_later db db'"
  unfolding rows_later_def using evolvesD(2) row_keeps_later by blast

lemma rows_later_refl [simp]: "rows_later db db"
  by (simp add: rows_later_def row_later_def)

lemma rows_later_trans: "rows_later a b \<Longrightarrow> rows_later b c \<Longrightarrow> rows_later a c"
  unfolding rows_later_def using row_later_trans by metis

lemma lifecycle_run_inv:
  assumes "lifecycle_run p q" and "lifecycle_inv p"
  shows "lifecycle_inv q \<and> ledger_keeps (w_db (fst p)) (w_db (fst q)) \<and>
    rows_later (w_db (fst p)) (w_db (fst q))"
  using assms
proof (induction rule: lifecycle_run.induct)
  case (run_refl p)
  then show ?case by simp
next
  case (run_step p q r)
  obtain w S w' S' where "q = (w, S)" "r = (w', S')" by (cases q; cases r)
  with run_step lifecycle_step_effect [of w S w' S'] show ?case
    by (auto simp: step_effect_def intro: ledger_keeps_trans rows_later_trans evolves_rows_later)
qed

lemma lifecycle_run_trans: "lifecycle_run q r \<Longrightarrow> lifecycle_run p q \<Longrightarrow> lifecycle_run p r"
  by (induction rule: lifecycle_run.induct) (auto intro: run_step)

lemma reachable_run: "reachable p \<Longrightarrow> lifecycle_run p q \<Longrightarrow> reachable q"
  unfolding reachable_def using lifecycle_run_trans by blast

lemma reachable_step: "reachable p \<Longrightarrow> lifecycle_step p q \<Longrightarrow> reachable q"
  by (rule reachable_run) (auto intro: lifecycle_run.intros)

lemma reachable_init [simp]: "reachable (init_world h, {})"
  by (auto simp: reachable_def intro: run_refl)

lemma reachable_inv: "reachable p \<Longrightarrow> lifecycle_inv p"
proof -
  have "lifecycle_inv (init_world h, {})" for h
    by (simp add: lifecycle_inv_def init_world_def empty_db_def db_wf_def unique_indexes_def db_row_def)
  then show "reachable p \<Longrightarrow> lifecycle_inv p"
    using lifecycle_run_inv unfolding reachable_def by blast
qed

text \<open>Two snapshots of one generation at one version are the same, whenever they were read.\<close>

definition snapshots_agree :: "generation_snapshot set \<Rightarrow> bool" where
  "snapshots_agree S \<longleftrightarrow>
     (\<forall>s \<in> S. \<forall>s' \<in> S. snap_generation_id s = snap_generation_id s' \<longrightarrow>
        snap_version s = snap_version s' \<longrightarrow> s = s')"

lemma step_snapshots_agree:
  assumes "lifecycle_step (w, S) (w', S')" and "lifecycle_inv (w, S)" and "snapshots_agree S"
  shows "snapshots_agree S'"
proof -
  consider "S' = S" | r where "r \<in> set (db_generations (w_db w))" "S' = insert (from_row r) S"
    using assms(1) by cases auto
  then show ?thesis
  proof cases
    case 1
    with assms(3) show ?thesis by simp
  next
    case 2
    then have "db_row (gen_id r) (w_db w) = Some r"
      using lifecycle_invD(1) [OF assms(2)] by (simp add: db_row_iff)
    then have "s = from_row r" if "s \<in> S" "snap_generation_id s = gen_id r"
      "snap_version s = gen_version r" for s
      using that lifecycle_invD(3) [OF assms(2) that(1)] by (auto simp: snapshot_ok_def)
    with 2 assms(3) show ?thesis by (auto simp: snapshots_agree_def)
  qed
qed

lemma reachable_snapshots_agree: "reachable (w, S) \<Longrightarrow> snapshots_agree S"
proof -
  have "lifecycle_run p q \<Longrightarrow> lifecycle_inv p \<Longrightarrow> snapshots_agree (snd p) \<Longrightarrow> snapshots_agree (snd q)"
    for p q
  proof (induction rule: lifecycle_run.induct)
    case (run_step p q r)
    then have "lifecycle_inv q" using lifecycle_run_inv by blast
    with run_step show ?case
      by (cases q; cases r) (auto intro: step_snapshots_agree)
  qed
  then show "reachable (w, S) \<Longrightarrow> snapshots_agree S"
    unfolding reachable_def using reachable_inv [OF reachable_init]
    by (fastforce simp: snapshots_agree_def)
qed

section \<open>A concrete run\<close>

text \<open>A turn that is created, runs, pauses at its limit, and one that starts in another conversation.\<close>

definition demo_create :: create_generation where
  "demo_create = \<lparr>cg_conversation_id = 7, cg_user_id = 3, cg_logical_turn_id = ''t1'',
     cg_checkpoint_thread_id = ''th1'', cg_active_agent_id = None\<rparr>"

definition demo_started :: control_world where
  "demo_started = snd (start_generation 1 ''h:5:9'' 100 demo_create (init_world True))"

definition demo_running :: control_world where
  "demo_running = snd (mark_running 101 1 3 7 1 demo_started)"

definition demo_pause :: mark_continuable_command where
  "demo_pause = \<lparr>mc_generation_id = 1, mc_conversation_id = 7, mc_user_id = 3,
     mc_expected_version = 2, mc_assistant_message_id = 20, mc_research_accounting = None,
     mc_execution_budget = None, mc_execution_epoch = Some 0, mc_continuation_block_reason = None\<rparr>"

definition demo_paused :: control_world where
  "demo_paused = snd (mark_continuable 50 102 demo_pause demo_running)"

definition demo_row :: generation where
  "demo_row = transitioned 101 [SetStatus RUNNING] (new_generation 1 ''h:5:9'' 100 demo_create)"

definition demo_paused_row :: generation where
  "demo_paused_row = transitioned 102 (continuable_values 50 demo_pause) demo_row"

lemmas demo_defs = demo_create_def demo_started_def demo_running_def demo_pause_def demo_paused_def
  demo_row_def demo_paused_row_def

lemma demo_reachable:
  "reachable (demo_started, {})" "reachable (demo_running, {})" "reachable (demo_paused, {})"
proof -
  have "lifecycle_step (init_world True, {}) (demo_started, {})"
    unfolding demo_started_def by (rule start_step [OF prod.collapse [symmetric]])
  then show 1: "reachable (demo_started, {})" by (rule reachable_step [OF reachable_init])
  have "lifecycle_step (demo_started, {}) (demo_running, {})"
    unfolding demo_running_def by (rule running_step [OF prod.collapse [symmetric]])
  then show 2: "reachable (demo_running, {})" by (rule reachable_step [OF 1])
  have "lifecycle_step (demo_running, {}) (demo_paused, {})"
    unfolding demo_paused_def
    by (rule continuable_step [OF _ prod.collapse [symmetric]])
      (simp add: valid_mark_continuable_def demo_pause_def)
  then show "reachable (demo_paused, {})" by (rule reachable_step [OF 2])
qed

lemma demo_rows:
  "db_generations (w_db demo_running) = [demo_row]"
  "db_generations (w_db demo_paused) = [demo_paused_row]"
  "db_commands (w_db demo_running) = []"
  "db_commands (w_db demo_paused) = []"
  by code_simp+

lemma demo_columns [simp]:
  "gen_id demo_row = 1" "gen_user_id demo_row = 3" "gen_conversation_id demo_row = 7"
  "gen_status demo_row = RUNNING" "gen_version demo_row = 2"
  "gen_id demo_paused_row = 1" "gen_user_id demo_paused_row = 3"
  "gen_conversation_id demo_paused_row = 7" "gen_status demo_paused_row = CONTINUABLE"
  "gen_version demo_paused_row = 3" "gen_continuation_id demo_paused_row = Some 50"
  "gen_execution_epoch demo_paused_row = 0"
  by code_simp+

end
