(* ===== verification/GenerationCommands.thy ===== *)
theory GenerationCommands
  imports GenerationLifecycle
begin

text \<open>
  What Stop and Continue promise their clients over any interleaving with other requests, workers and
  the reaper: a repeated key gets the first answer and changes nothing, a stale command changes no
  generation, a continuation is used once. Both commands have the shape \<open>ledger_command\<close>: an owner
  check, a claim of the idempotency key, a body whose refusals are recorded, and a record of the
  result.
\<close>

section \<open>The shape of the two commands\<close>

definition ledger_command ::
  "int \<Rightarrow> uuid \<Rightarrow> uuid \<Rightarrow> uuid \<Rightarrow> string \<Rightarrow> command_action \<Rightarrow> int \<Rightarrow> (recorded_result \<Rightarrow> 'a option)
     \<Rightarrow> ('a \<Rightarrow> recorded_result) \<Rightarrow> (bool \<Rightarrow> 'a \<Rightarrow> 'b) \<Rightarrow> (generation_snapshot \<Rightarrow> 'a control) \<Rightarrow> 'b control" where
  "ledger_command now g u c key act v validate enc fin body =
     bind_act (require_owned g u c) (\<lambda>s.
     bind_act (on_db (aclaim_command g key act v)) (\<lambda>claim.
       if \<not> claim_claimed claim
       then bind_act (replay claim act validate) (\<lambda>x. return_act (fin True x))
       else bind_act (recording_refusals now g key (body s))
              (\<lambda>x. bind_act (record_result now g key (enc x)) (\<lambda>_. return_act (fin False x)))))"

lemma bind_act_return [simp]: "bind_act m return_act = m"
  by (rule ext) (simp add: bind_act_app split: prod.splits sum.splits)

lemma request_stop_shape:
  "request_stop now cmd =
     ledger_command now (stop_generation_id cmd) (stop_user_id cmd) (stop_conversation_id cmd)
       (stop_idempotency_key cmd) STOP (stop_expected_version cmd) as_snapshot RecordedSnapshot
       (\<lambda>_ x. x) (decide_stop now cmd)"
  by (simp add: request_stop_def ledger_command_def cong: if_cong)

lemma lease_continuation_shape:
  "lease_continuation me now cmd =
     ledger_command now (cont_generation_id cmd) (cont_user_id cmd) (cont_conversation_id cmd)
       (cont_idempotency_key cmd) CONTINUE (cont_expected_version cmd) as_lease RecordedLease
       (\<lambda>replayed x. (x, replayed)) (advance_epoch me now cmd)"
  by (simp add: lease_continuation_def ledger_command_def)

lemma require_owned_run:
  "require_owned g u c w =
     (case find_owned g u c (w_db w) of
        None \<Rightarrow> (Inl (ControlError (control_error_of GenerationNotFound
          ''generation is not readable by this owner'' [])), w)
      | Some r \<Rightarrow> (Inr (from_row r), w))"
  by (simp add: require_owned_def bind_act_app on_db_def aget_owned_def refuse_def split: option.split)

lemma find_owned_Some:
  "db_wf db \<Longrightarrow> find_owned g u c db = Some r \<longleftrightarrow>
     db_row g db = Some r \<and> gen_user_id r = u \<and> gen_conversation_id r = c"
  by (auto simp: find_owned_row owned_by_def split: option.split dest: db_row_id)

lemma find_owned_later:
  assumes "db_wf db" and "db_wf db'" and "rows_later db db'" and "find_owned g u c db = Some r"
  shows "\<exists>r'. find_owned g u c db' = Some r' \<and> row_later r r'"
  using assms unfolding rows_later_def row_later_def
  by (auto simp: find_owned_Some)

lemma rows_laterD:
  assumes "rows_later db db'" and "db_row k db = Some r" and "db_row k db' = Some r'"
  shows "row_later r r'"
proof -
  from assms(1,2) obtain r2 where "db_row k db' = Some r2" "row_later r r2"
    unfolding rows_later_def by blast
  with assms(3) show ?thesis by simp
qed

section \<open>A recorded outcome is what every later call returns\<close>

lemma deserialize_serialize:
  "ce_message e \<noteq> [] \<Longrightarrow> deserialize_error (serialize_error e) = e"
  by (cases e; cases "ce_kind e")
    (simp_all add: deserialize_error_def serialize_error_def error_types_def control_error_of_def Let_def)

text \<open>What a body may end with, and the entry its outcome leaves in the ledger.\<close>

fun recordable :: "(control_exn + 'a) \<Rightarrow> bool" where
  "recordable (Inr x) = True"
| "recordable (Inl (ControlError e)) = (ce_message e \<noteq> [])"
| "recordable (Inl e) = False"

fun entry_of :: "('a \<Rightarrow> recorded_result) \<Rightarrow> (control_exn + 'a) \<Rightarrow> recorded_result" where
  "entry_of enc (Inr x) = enc x"
| "entry_of enc (Inl (ControlError e)) = RecordedError (serialize_error e)"
| "entry_of enc (Inl e) = RecordedError PNone"

definition recorded :: "uuid \<Rightarrow> string \<Rightarrow> command_action \<Rightarrow> recorded_result \<Rightarrow> generation_db \<Rightarrow> bool" where
  "recorded g key act rr db \<longleftrightarrow>
     (\<exists>c. find_command g key db = Some c \<and> cmd_action c = act \<and> cmd_result c = Some rr)"

lemma recorded_later: "ledger_keeps db db' \<Longrightarrow> recorded g key act rr db \<Longrightarrow> recorded g key act rr db'"
  unfolding ledger_keeps_def recorded_def by fastforce

lemma replay_value:
  "claim_action claim = act \<Longrightarrow> claim_result claim = Some rr \<Longrightarrow> (\<And>p. rr \<noteq> RecordedError p) \<Longrightarrow>
   replay claim act validate =
     (case validate rr of None \<Rightarrow> raise_act ValidationError | Some x \<Rightarrow> return_act x)"
  by (cases rr) (auto simp: replay_def)

lemma replay_error:
  "claim_action claim = act \<Longrightarrow> claim_result claim = Some (RecordedError p) \<Longrightarrow>
   replay claim act validate = raise_act (ControlError (deserialize_error p))"
  by (simp add: replay_def)

lemma ledger_command_replays:
  assumes "recorded g key act (entry_of enc out) (w_db w)" and "recordable out"
    and "\<And>x. validate (enc x) = Some x" and "\<And>x p. enc x \<noteq> RecordedError p"
    and "find_owned g u c (w_db w) = Some r"
  shows "ledger_command now g u c key act v validate enc fin body w =
    (case out of Inl e \<Rightarrow> Inl e | Inr x \<Rightarrow> Inr (fin True x), w)"
proof -
  obtain e where e: "find_command g key (w_db w) = Some e" "cmd_action e = act"
    "cmd_result e = Some (entry_of enc out)"
    using assms(1) by (auto simp: recorded_def)
  then have claim: "on_db (aclaim_command g key act v) w =
      (Inr \<lparr>claim_claimed = False, claim_action = act, claim_fence = cmd_fence e,
         claim_result = Some (entry_of enc out)\<rparr>, w)"
    by (simp add: on_db_def aclaim_command_def)
  have "replay \<lparr>claim_claimed = False, claim_action = act, claim_fence = cmd_fence e,
      claim_result = Some (entry_of enc out)\<rparr> act validate w = (out, w)"
    using assms(2-4)
    by (cases out rule: recordable.cases)
      (simp_all add: replay_value replay_error deserialize_serialize)
  with assms(5) claim show ?thesis
    by (simp add: ledger_command_def bind_act_app require_owned_run split: sum.split)
qed

lemma ledger_command_records:
  assumes wf: "db_wf (w_db w)" and own: "find_owned g u c (w_db w) = Some r"
    and new: "find_command g key (w_db w) = None"
    and body: "body (from_row r) (snd (on_db (aclaim_command g key act v) w)) = (out, w1)"
    and keeps: "db_commands (w_db w1) = db_commands (w_db (snd (on_db (aclaim_command g key act v) w)))"
    and rec: "recordable out"
    and run: "ledger_command now g u c key act v validate enc fin body w = (res, w')"
  shows "res = (case out of Inl e \<Rightarrow> Inl e | Inr x \<Rightarrow> Inr (fin False x))"
    and "recorded g key act (entry_of enc out) (w_db w')"
    and "record_result now g key (entry_of enc out) w1 = (Inr (), w')"
proof -
  let ?e = "\<lparr>cmd_generation_id = g, cmd_idempotency_key = key, cmd_action = act,
    cmd_fence = v, cmd_result = None, cmd_completed_at = None\<rparr>"
  let ?w = "w\<lparr>w_db := (w_db w)\<lparr>db_commands := db_commands (w_db w) @ [?e]\<rparr>\<rparr>"
  from own wf have "g \<in> gen_id ` set (db_generations (w_db w))"
    by (auto simp: find_owned_Some db_row_iff)
  with new have claim: "on_db (aclaim_command g key act v) w =
      (Inr \<lparr>claim_claimed = True, claim_action = act, claim_fence = v, claim_result = None\<rparr>, ?w)"
    by (simp add: on_db_def aclaim_command_def)
  have entry: "find_command g key (w_db w1) = Some ?e"
    using keeps new by (simp add: claim find_command_def find_append_single command_key_def)
  obtain w2 where rec2: "record_result now g key (entry_of enc out) w1 = (Inr (), w2)"
    by (simp add: record_result_def on_db_def arecord_command_result_def)
  then have w2: "w_db w2 = snd (arecord_command_result now g key (entry_of enc out) (w_db w1))"
    by (simp add: record_result_def on_db_def arecord_command_result_def split: prod.splits) force
  have recd: "recorded g key act (entry_of enc out) (w_db w2)"
    using entry by (simp add: recorded_def w2 find_command_record command_key_def)
  have "(res, w') = (case out of Inl e \<Rightarrow> Inl e | Inr x \<Rightarrow> Inr (fin False x), w2)"
    using run own body rec rec2 unfolding claim
    by (cases out rule: recordable.cases)
      (simp_all add: ledger_command_def bind_act_app catch_act_app require_owned_run claim
        recording_refusals_def)
  with recd rec2 show "res = (case out of Inl e \<Rightarrow> Inl e | Inr x \<Rightarrow> Inr (fin False x))"
    and "recorded g key act (entry_of enc out) (w_db w')"
    and "record_result now g key (entry_of enc out) w1 = (Inr (), w')"
    by simp_all
qed

section \<open>The commands are runs of the transition system\<close>

lemma recording_refusals_cases:
  assumes "recording_refusals now g key m w = (res, w')"
  obtains "m w = (res, w')" | w1 e w2 where "m w = (Inl (ControlError e), w1)"
      "record_result now g key (RecordedError (serialize_error e)) w1 = (Inr (), w2)"
      "res = Inl (ControlError e)" "w' = w2"
proof -
  obtain out w1 where m: "m w = (out, w1)" by fastforce
  show thesis
  proof (cases out rule: recordable.cases)
    case (2 e)
    obtain w2 where "record_result now g key (RecordedError (serialize_error e)) w1 = (Inr (), w2)"
      by (simp add: record_result_def on_db_def arecord_command_result_def)
    with assms m 2 show thesis
      by (intro that(2) [of e w1 w2]) (simp_all add: recording_refusals_def catch_act_app bind_act_app)
  qed (use assms m in \<open>auto intro: that(1) simp: recording_refusals_def catch_act_app\<close>)
qed

lemma lifecycle_run_one: "lifecycle_step p q \<Longrightarrow> lifecycle_run p q"
  by (rule run_step [OF run_refl])

lemma ledger_command_run:
  assumes own: "find_owned g u c (w_db w) = Some r"
    and run: "ledger_command now g u c key act v validate enc fin body w = (res, w')"
    and body: "\<And>w w' out. body (from_row r) w = (out, w') \<Longrightarrow>
      lifecycle_step (w, insert (from_row r) S) (w', insert (from_row r) S)"
  shows "lifecycle_run (w, S) (w', insert (from_row r) S)"
proof -
  let ?S = "insert (from_row r) S"
  from own have "r \<in> set (db_generations (w_db w))"
    by (auto simp: find_owned_def dest: find_SomeD)
  then have read: "lifecycle_run (w, S) (w, ?S)" by (intro lifecycle_run_one read_step)
  obtain x w1 where cl: "on_db (aclaim_command g key act v) w = (x, w1)" by fastforce
  have claimed: "lifecycle_run (w, S) (w1, ?S)"
    by (rule run_step [OF read claim_step [OF cl]])
  consider "w' = w1" | y w2 where "recording_refusals now g key (body (from_row r)) w1 = (y, w2)"
      "w' = w2 \<or> (\<exists>rr o1. record_result now g key rr w2 = (o1, w'))"
    using run own cl
    by (auto simp: ledger_command_def bind_act_app require_owned_run replay_def refuse_def Let_def
        split: prod.splits sum.splits if_splits option.splits recorded_result.splits)
  then show ?thesis
  proof cases
    case 1
    with claimed show ?thesis by simp
  next
    case 2
    have "lifecycle_run (w, S) (w2, ?S)"
      using 2(1)
      by (cases rule: recording_refusals_cases)
        (auto intro: run_step [OF claimed] run_step [OF run_step [OF claimed]] body record_step)
    with 2(2) show ?thesis by (auto intro: run_step record_step)
  qed
qed

lemma request_stop_run:
  assumes "find_owned (stop_generation_id cmd) (stop_user_id cmd) (stop_conversation_id cmd) (w_db w)
      = Some r" and "request_stop now cmd w = (res, w')"
  shows "lifecycle_run (w, S) (w', insert (from_row r) S)"
  using assms(2) unfolding request_stop_shape
proof (rule ledger_command_run [OF assms(1)])
  have "gen_id r = stop_generation_id cmd"
    using assms(1) by (auto simp: find_owned_def owned_by_def dest: find_SomeD)
  then show "decide_stop now cmd (from_row r) w = (out, w') \<Longrightarrow>
      lifecycle_step (w, insert (from_row r) S) (w', insert (from_row r) S)" for w w' out
    by (intro stop_step) auto
qed

lemma lease_continuation_run:
  assumes "find_owned (cont_generation_id cmd) (cont_user_id cmd) (cont_conversation_id cmd) (w_db w)
      = Some r" and "lease_continuation me now cmd w = (res, w')"
  shows "lifecycle_run (w, S) (w', insert (from_row r) S)"
  using assms(2) unfolding lease_continuation_shape
proof (rule ledger_command_run [OF assms(1)])
  have "gen_id r = cont_generation_id cmd"
    using assms(1) by (auto simp: find_owned_def owned_by_def dest: find_SomeD)
  then show "advance_epoch me now cmd (from_row r) w = (out, w') \<Longrightarrow>
      lifecycle_step (w, insert (from_row r) S) (w', insert (from_row r) S)" for w w' out
    by (intro continue_step) auto
qed

section \<open>How the two bodies end\<close>

lemma control_error_of_simps [simp]:
  "ce_kind (control_error_of k m d) = k" "ce_message (control_error_of k m d) = m"
  "ce_detail (control_error_of k m d) = d"
  by (simp_all add: control_error_of_def)

lemma on_db_atransition_ok:
  assumes "db_wf (w_db w)"
    and run: "on_db (atransition now k u c sts v vals) w = (x, w')"
    and "\<not> list_ex is_version vals"
    and "\<And>r. gen_status r \<in> sts \<Longrightarrow> is_active (transitioned now vals r) \<Longrightarrow> is_active r"
  shows "\<exists>y. x = Inr y"
proof -
  obtain y where "fst (atransition now k u c sts v vals (w_db w)) = Inr y"
    using atransition_no_error [OF assms(1,3,4)] by (metis fst_conv)
  with run show ?thesis by (auto simp: on_db_def split: prod.splits)
qed

lemma decide_stop_recordable:
  assumes "db_wf (w_db w)" and "decide_stop now cmd s w = (res, w')"
  shows "recordable res"
proof -
  have out: "recordable (case x of Inl e \<Rightarrow> Inl e | Inr None \<Rightarrow> Inl (ControlError (control_error_of
      StaleCommand ''another command changed this generation first'' [])) | Inr (Some r) \<Rightarrow> Inr r)"
    if "\<exists>y. x = Inr y" for x :: "control_exn + generation_snapshot option"
    using that by (auto split: option.split)
  consider e where "res = Inl (ControlError e)" "ce_message e \<noteq> []" | x where "res = Inr x"
    | "accept_partial now cmd s w = (res, w')" | "request_worker_stop now cmd s w = (res, w')"
    using assms(2)
    by (auto simp: decide_stop_def bind_act_app require_fresh_def refuse_def Let_def
        split: if_splits)
  then show ?thesis
  proof cases
    case 3
    then show ?thesis
      by (rule accept_partial_db)
        (simp only:, rule out, rule on_db_atransition_ok [OF assms(1)], assumption,
          simp_all add: is_active_def transitioned_def status_sets)
  next
    case 4
    then show ?thesis
      by (rule request_worker_stop_db)
        (simp only:, rule out, rule on_db_atransition_ok [OF assms(1)], assumption,
          simp_all add: is_active_def transitioned_def status_simps)
  qed simp_all
qed

lemma advance_epoch_recordable:
  assumes "advance_epoch me now cmd s w = (res, w')" and "res \<noteq> Inl (RepoError IntegrityError)"
  shows "recordable res"
  using assms(1)
proof (cases rule: advance_epoch_db)
  case (swapped x ctx)
  have "\<not> list_ex is_version (continuing_values me s)" by (simp add: continuing_values_def)
  with swapped(4) have "x = Inl e \<Longrightarrow> e = RepoError IntegrityError" for e
    by (auto simp: on_db_def atransition_def Let_def split: if_splits)
  with swapped(5) assms(2) show ?thesis
    by (auto split: sum.splits option.splits)
qed simp

section \<open>One call of each command\<close>

text \<open>
  The call that claims a key: the body runs on a world that differs from the start only by the fresh
  ledger entry, and its outcome is recorded if it is a value or one of the service's own refusals.
\<close>

definition same_but_ledger :: "control_world \<Rightarrow> control_world \<Rightarrow> bool" where
  "same_but_ledger w w' \<longleftrightarrow>
     db_generations (w_db w') = db_generations (w_db w) \<and> w_published w' = w_published w \<and>
     w_expired w' = w_expired w \<and> w_has_hitl w' = w_has_hitl w"

lemma same_but_ledger_row: "same_but_ledger w w' \<Longrightarrow> db_row k (w_db w') = db_row k (w_db w)"
  by (simp add: same_but_ledger_def db_row_def)

lemma ledger_command_first:
  assumes inv: "lifecycle_inv (w, S)" and own: "find_owned g u c (w_db w) = Some r"
    and new: "find_command g key (w_db w) = None"
    and run: "ledger_command now g u c key act v validate enc fin body w = (res, w')"
    and keeps: "\<And>w0 w1 out. lifecycle_inv (w0, insert (from_row r) S) \<Longrightarrow>
      body (from_row r) w0 = (out, w1) \<Longrightarrow> db_commands (w_db w1) = db_commands (w_db w0)"
  obtains w0 w1 out where "same_but_ledger w w0" "lifecycle_inv (w0, insert (from_row r) S)"
      "body (from_row r) w0 = (out, w1)"
      "res = (case out of Inl e \<Rightarrow> Inl e | Inr x \<Rightarrow> Inr (fin False x))"
      "recordable out \<Longrightarrow> recorded g key act (entry_of enc out) (w_db w') \<and> same_but_ledger w1 w'"
      "\<not> recordable out \<Longrightarrow> (\<forall>e. out \<noteq> Inl (ControlError e)) \<Longrightarrow> w' = w1 \<and>
         find_command g key (w_db w') = Some \<lparr>cmd_generation_id = g, cmd_idempotency_key = key,
           cmd_action = act, cmd_fence = v, cmd_result = None, cmd_completed_at = None\<rparr>"
proof -
  let ?e = "\<lparr>cmd_generation_id = g, cmd_idempotency_key = key, cmd_action = act,
    cmd_fence = v, cmd_result = None, cmd_completed_at = None\<rparr>"
  let ?w = "w\<lparr>w_db := (w_db w)\<lparr>db_commands := db_commands (w_db w) @ [?e]\<rparr>\<rparr>"
  note wf = lifecycle_invD(1) [OF inv]
  have row: "r \<in> set (db_generations (w_db w))" "gen_id r = g"
    using own by (auto simp: find_owned_def owned_by_def dest: find_SomeD)
  then have "g \<in> gen_id ` set (db_generations (w_db w))" by force
  with new have claim: "on_db (aclaim_command g key act v) w =
      (Inr \<lparr>claim_claimed = True, claim_action = act, claim_fence = v, claim_result = None\<rparr>, ?w)"
    by (simp add: on_db_def aclaim_command_def)
  have "lifecycle_run (w, S) (?w, insert (from_row r) S)"
    by (rule run_step [OF lifecycle_run_one [OF read_step [OF row(1)]] claim_step [OF claim]])
  then have inv0: "lifecycle_inv (?w, insert (from_row r) S)" using lifecycle_run_inv inv by blast
  obtain out w1 where body: "body (from_row r) ?w = (out, w1)" by fastforce
  have cmds: "db_commands (w_db w1) = db_commands (w_db ?w)" by (rule keeps [OF inv0 body])
  have ok: "res = (case out of Inl e \<Rightarrow> Inl e | Inr x \<Rightarrow> Inr (fin False x))"
    "recorded g key act (entry_of enc out) (w_db w') \<and> same_but_ledger w1 w'" if "recordable out"
  proof -
    note res = ledger_command_records [OF wf own new _ _ that run, unfolded claim snd_conv, OF body cmds]
    from res(3) have "same_but_ledger w1 w'"
      by (auto simp: record_result_def on_db_def arecord_command_result_def same_but_ledger_def)
    with res(1,2) show "res = (case out of Inl e \<Rightarrow> Inl e | Inr x \<Rightarrow> Inr (fin False x))"
      and "recorded g key act (entry_of enc out) (w_db w') \<and> same_but_ledger w1 w'" by blast+
  qed
  have entry: "find_command g key (w_db w1) = Some ?e"
    using cmds new by (simp add: find_command_def find_append_single command_key_def)
  have other: "res = (case out of Inl e \<Rightarrow> Inl e | Inr x \<Rightarrow> Inr (fin False x)) \<and>
      ((\<forall>e. out \<noteq> Inl (ControlError e)) \<longrightarrow> w' = w1)" if "\<not> recordable out"
    using that run own body claim
    by (cases out rule: recordable.cases)
      (auto simp: ledger_command_def bind_act_app catch_act_app require_owned_run
        recording_refusals_def record_result_def on_db_def arecord_command_result_def split: prod.splits)
  show thesis
  proof (rule that [of ?w out w1])
    show "same_but_ledger w ?w" by (simp add: same_but_ledger_def)
  qed (use inv0 body ok other entry in blast)+
qed

lemma decide_stop_commands:
  assumes "gen_id r = stop_generation_id cmd"
  shows "lifecycle_inv (w0, insert (from_row r) S) \<Longrightarrow> decide_stop now cmd (from_row r) w0 = (out, w1) \<Longrightarrow>
    db_commands (w_db w1) = db_commands (w_db w0)"
  using decide_stop_evolves [of w0 "insert (from_row r) S" "from_row r" cmd now out w1] assms by simp

lemma advance_epoch_commands:
  assumes "gen_id r = cont_generation_id cmd"
  shows "lifecycle_inv (w0, insert (from_row r) S) \<Longrightarrow> advance_epoch me now cmd (from_row r) w0 = (out, w1) \<Longrightarrow>
    db_commands (w_db w1) = db_commands (w_db w0)"
  using advance_epoch_evolves [of w0 "insert (from_row r) S" "from_row r" cmd me now out w1] assms by simp

lemma find_owned_id: "find_owned g u c db = Some r \<Longrightarrow> gen_id r = g \<and> r \<in> set (db_generations db)"
  by (auto simp: find_owned_def owned_by_def dest: find_SomeD)

lemma request_stop_first:
  assumes r: "reachable (w, S)"
    and own: "find_owned (stop_generation_id cmd) (stop_user_id cmd) (stop_conversation_id cmd) (w_db w)
      = Some r"
    and new: "find_command (stop_generation_id cmd) (stop_idempotency_key cmd) (w_db w) = None"
    and run: "request_stop now cmd w = (res, w')"
  obtains w0 w1 where "same_but_ledger w w0" "lifecycle_inv (w0, insert (from_row r) S)"
      "decide_stop now cmd (from_row r) w0 = (res, w1)" "recordable res"
      "recorded (stop_generation_id cmd) (stop_idempotency_key cmd) STOP
         (entry_of RecordedSnapshot res) (w_db w')" "same_but_ledger w1 w'"
proof -
  have id: "gen_id r = stop_generation_id cmd" using find_owned_id [OF own] by simp
  show thesis
  proof (rule ledger_command_first [OF reachable_inv [OF r] own new run [unfolded request_stop_shape]
        decide_stop_commands [OF id]])
    fix w0 w1 out
    assume w0: "same_but_ledger w w0" "lifecycle_inv (w0, insert (from_row r) S)"
      and body: "decide_stop now cmd (from_row r) w0 = (out, w1)"
      and res: "res = (case out of Inl e \<Rightarrow> Inl e | Inr x \<Rightarrow> Inr x)"
      and fin: "recordable out \<Longrightarrow> recorded (stop_generation_id cmd) (stop_idempotency_key cmd) STOP
         (entry_of RecordedSnapshot out) (w_db w') \<and> same_but_ledger w1 w'"
    have "recordable out" by (rule decide_stop_recordable [OF lifecycle_invD(1) [OF w0(2)] body])
    moreover from res have "out = res" by (cases out) simp_all
    ultimately show thesis using that w0 body fin by blast
  qed
qed

lemma lease_continuation_first:
  assumes r: "reachable (w, S)"
    and own: "find_owned (cont_generation_id cmd) (cont_user_id cmd) (cont_conversation_id cmd) (w_db w)
      = Some r"
    and new: "find_command (cont_generation_id cmd) (cont_idempotency_key cmd) (w_db w) = None"
    and run: "lease_continuation me now cmd w = (res, w')"
  obtains w0 w1 out where "same_but_ledger w w0" "lifecycle_inv (w0, insert (from_row r) S)"
      "advance_epoch me now cmd (from_row r) w0 = (out, w1)"
      "res = (case out of Inl e \<Rightarrow> Inl e | Inr x \<Rightarrow> Inr (x, False))"
      "out \<noteq> Inl (RepoError IntegrityError) \<Longrightarrow> recordable out \<and>
         recorded (cont_generation_id cmd) (cont_idempotency_key cmd) CONTINUE
           (entry_of RecordedLease out) (w_db w') \<and> same_but_ledger w1 w'"
      "out = Inl (RepoError IntegrityError) \<Longrightarrow> w' = w1 \<and>
         find_command (cont_generation_id cmd) (cont_idempotency_key cmd) (w_db w') =
           Some \<lparr>cmd_generation_id = cont_generation_id cmd,
             cmd_idempotency_key = cont_idempotency_key cmd, cmd_action = CONTINUE,
             cmd_fence = cont_expected_version cmd, cmd_result = None, cmd_completed_at = None\<rparr>"
proof -
  have id: "gen_id r = cont_generation_id cmd" using find_owned_id [OF own] by simp
  show thesis
  proof (rule ledger_command_first [OF reachable_inv [OF r] own new
        run [unfolded lease_continuation_shape] advance_epoch_commands [OF id]])
    fix w0 w1 out
    assume a: "same_but_ledger w w0" "lifecycle_inv (w0, insert (from_row r) S)"
      "advance_epoch me now cmd (from_row r) w0 = (out, w1)"
      "res = (case out of Inl e \<Rightarrow> Inl e | Inr x \<Rightarrow> Inr (x, False))"
      "recordable out \<Longrightarrow> recorded (cont_generation_id cmd) (cont_idempotency_key cmd) CONTINUE
         (entry_of RecordedLease out) (w_db w') \<and> same_but_ledger w1 w'"
      "\<not> recordable out \<Longrightarrow> (\<forall>e. out \<noteq> Inl (ControlError e)) \<Longrightarrow> w' = w1 \<and>
         find_command (cont_generation_id cmd) (cont_idempotency_key cmd) (w_db w') =
           Some \<lparr>cmd_generation_id = cont_generation_id cmd,
             cmd_idempotency_key = cont_idempotency_key cmd, cmd_action = CONTINUE,
             cmd_fence = cont_expected_version cmd, cmd_result = None, cmd_completed_at = None\<rparr>"
    show thesis
      by (rule that [OF a(1-4)]) (use a advance_epoch_recordable [OF a(3)] in auto)
  qed
qed

text \<open>What a transaction on the tables leaves alone.\<close>

definition same_signals :: "control_world \<Rightarrow> control_world \<Rightarrow> bool" where
  "same_signals w w' \<longleftrightarrow> w_published w' = w_published w \<and> w_expired w' = w_expired w \<and>
     w_has_hitl w' = w_has_hitl w"

lemma on_db_signals: "on_db m w = (x, w') \<Longrightarrow> same_signals w w'"
  by (auto simp: on_db_def same_signals_def split: prod.splits sum.splits)

lemma on_db_atransition_succeeds:
  assumes wf: "db_wf (w_db w)" and row: "db_row k (w_db w) = Some r"
    and fence: "fence_matches k u c sts v r" and "\<not> list_ex is_version vals"
    and "\<And>r. gen_status r \<in> sts \<Longrightarrow> is_active (transitioned now vals r) \<Longrightarrow> is_active r"
  obtains w' where "on_db (atransition now k u c sts v vals) w =
      (Inr (Some (from_row (transitioned now vals r))), w')"
    "same_signals w w'" "db_row k (w_db w') = Some (transitioned now vals r)"
    "find_owned k u c (w_db w') = Some (transitioned now vals r)"
proof -
  obtain x w' where run: "on_db (atransition now k u c sts v vals) w = (x, w')" by fastforce
  then obtain y where y: "x = Inr y" using on_db_atransition_ok [OF wf _ assms(4,5)] by blast
  show thesis
  proof (rule on_db_atransition_cases [OF wf run])
    assume "w' = w" and "\<And>s. x \<noteq> Inr (Some s)"
    with run y obtain db' where "atransition now k u c sts v vals (w_db w) = (Inr None, db')"
      by (cases y) (auto simp: on_db_def split: prod.splits sum.splits)
    from atransition_None(2) [OF wf this row] fence show thesis by simp
  next
    fix r1
    assume m: "moved k r1 (transitioned now vals r1) (w_db w) (w_db w')"
      "x = Inr (Some (from_row (transitioned now vals r1)))" "w' = w\<lparr>w_db := w_db w'\<rparr>"
    with row have "r1 = r" by (simp add: moved_def)
    moreover have "gen_user_id r = u" "gen_conversation_id r = c"
      using fence by (simp_all add: fence_matches_def owned_by_def)
    ultimately show thesis using m run that on_db_signals [OF run] by (simp add: moved_def find_owned_Some)
  qed
qed

lemma invalidate_pending_approval_run:
  assumes "find_owned (snap_generation_id s) u (snap_conversation_id s) (w_db w) = Some r"
  shows "invalidate_pending_approval s u w =
    (Inr (), if w_has_hitl w then w\<lparr>w_expired := w_expired w @
       [(u, snap_conversation_id s, gen_checkpoint_thread_id r, ''generation_stopped'')]\<rparr> else w)"
  using assms
  by (simp add: invalidate_pending_approval_def bind_act_app on_db_def aget_resume_context_def)

lemma unique_active:
  "unique_indexes rows \<Longrightarrow> x \<in> set rows \<Longrightarrow> y \<in> set rows \<Longrightarrow> is_active x \<Longrightarrow> is_active y \<Longrightarrow>
   gen_conversation_id x = gen_conversation_id y \<Longrightarrow> x = y"
  using distinct_map_inj_on_set [of gen_conversation_id "filter is_active rows" x y]
  by (simp add: unique_indexes_def)

section \<open>The lifecycle\<close>

text \<open>
  C1: in every reachable state the tables are consistent: ids and logical turns are unique, a
  conversation has at most one active turn, and every row is well-formed (a continuation is on offer
  only while paused or stopped, an id only with an offer, never together with a block reason, and the
  row has a terminal time exactly when its status is terminal).
\<close>

theorem generation_tables_consistent:
  assumes "reachable (w, S)"
  shows "unique_indexes (db_generations (w_db w)) \<and> (\<forall>r \<in> set (db_generations (w_db w)). row_ok r)"
  using reachable_inv [OF assms] by (auto simp: lifecycle_inv_def db_row_iff db_wf_def)

theorem generation_tables_consistent_witness:
  "unique_indexes (db_generations (w_db demo_paused)) \<and> row_ok demo_paused_row"
  using generation_tables_consistent [OF demo_reachable(3)] by (simp add: demo_rows)

text \<open>
  C2: refinement of the status diagram. Over any run, whatever the interleaving, a generation keeps
  its owner, its version never goes back, an equal version is an unchanged row, consecutive versions
  are joined by an edge of the diagram, and a completed or failed generation never changes again.
\<close>

theorem generation_follows_diagram:
  assumes "reachable (w, S)" and "lifecycle_run (w, S) (w', S')" and "db_row k (w_db w) = Some r"
  shows "\<exists>r'. db_row k (w_db w') = Some r' \<and>
    gen_user_id r' = gen_user_id r \<and> gen_conversation_id r' = gen_conversation_id r \<and>
    gen_version r \<le> gen_version r' \<and> (gen_version r' = gen_version r \<longrightarrow> r' = r) \<and>
    (gen_version r' = gen_version r + 1 \<longrightarrow> row_edge r r') \<and>
    (gen_status r \<in> FINISHED_STATUSES \<longrightarrow> r' = r)"
proof -
  have "rows_later (w_db w) (w_db w')"
    using lifecycle_run_inv [OF assms(2) reachable_inv [OF assms(1)]] by simp
  with assms(3) obtain r' where "db_row k (w_db w') = Some r'" "row_later r r'"
    by (auto simp: rows_later_def)
  then show ?thesis by (auto simp: row_later_def)
qed

theorem generation_follows_diagram_witness:
  "\<exists>r'. db_row 1 (w_db demo_paused) = Some r' \<and> gen_version demo_row \<le> gen_version r' \<and>
    (gen_version r' = gen_version demo_row + 1 \<longrightarrow> row_edge demo_row r')"
proof -
  have "lifecycle_run (demo_running, {}) (demo_paused, {})"
    unfolding demo_paused_def
    by (rule lifecycle_run_one, rule continuable_step [OF _ prod.collapse [symmetric]])
      (simp add: valid_mark_continuable_def demo_pause_def)
  moreover have "db_row 1 (w_db demo_running) = Some demo_row"
    by (simp add: db_row_def demo_rows)
  ultimately show ?thesis
    using generation_follows_diagram [OF demo_reachable(2), of demo_paused "{}" 1 demo_row] by blast
qed

text \<open>
  Two reads of one generation that report the same version report the same snapshot, whenever
  and by whomever they were made: the version a client sends back identifies the state it saw.
\<close>

theorem version_identifies_snapshot:
  assumes "reachable (w, S)" and "s \<in> S" and "s' \<in> S"
    and "snap_generation_id s = snap_generation_id s'" and "snap_version s = snap_version s'"
  shows "s = s'"
  using reachable_snapshots_agree [OF assms(1)] assms(2-5) by (simp add: snapshots_agree_def)

theorem version_identifies_snapshot_witness:
  "from_row demo_row = from_row demo_row \<and>
   reachable (demo_paused, {from_row demo_paused_row})"
proof -
  have "lifecycle_step (demo_paused, {}) (demo_paused, {from_row demo_paused_row})"
    by (rule read_step) (simp add: demo_rows)
  then have r: "reachable (demo_paused, {from_row demo_paused_row})"
    by (rule reachable_step [OF demo_reachable(3)])
  then have "from_row demo_paused_row = from_row demo_paused_row"
    by (rule version_identifies_snapshot) simp_all
  with r show ?thesis by simp
qed

text \<open>
  Of any sequence of transitions decided against the same version of a generation, at most one
  takes effect; every later one is refused, whatever it wanted to write.
\<close>

theorem one_winner_per_version:
  assumes "db_wf db" and "i < j" and "j < length ops"
    and "ops ! i = (k, v, u)" and "ops ! j = (k, v, u')"
    and "fst (run_actions (map (\<lambda>(k, v, u). repo_swap k v u) ops) db) ! i = Inr (Some s)"
  shows "fst (run_actions (map (\<lambda>(k, v, u). repo_swap k v u) ops) db) ! j \<noteq> Inr (Some s')"
  using assms repo.at_most_one_winner [of db i ops j k v u u' s s'] by simp

theorem one_winner_per_version_witness:
  "fst (run_actions (map (\<lambda>(k, v, u). repo_swap k v u)
     [(1, 2, (5, 3, 7, STOPPABLE, [SetStatus STOP_REQUESTED])),
      (1, 2, (6, 3, 7, COMPLETABLE, [SetStatus COMPLETED]))]) (w_db demo_running)) ! 1
   \<noteq> Inr (Some (from_row demo_row))"
proof -
  have "db_wf (w_db demo_running)" using reachable_inv [OF demo_reachable(2)] by (simp add: lifecycle_inv_def)
  moreover have "fst (run_actions (map (\<lambda>(k, v, u). repo_swap k v u)
     [(1, 2, (5, 3, 7, STOPPABLE, [SetStatus STOP_REQUESTED])),
      (1, 2, (6, 3, 7, COMPLETABLE, [SetStatus COMPLETED]))]) (w_db demo_running)) ! 0
    = Inr (Some (from_row (transitioned 5 [SetStatus STOP_REQUESTED] demo_row)))"
    by code_simp
  ultimately show ?thesis
    by (intro one_winner_per_version [where i = 0 and j = 1]) simp_all
qed

section \<open>Stop and Continue\<close>

text \<open>
  C3: Stop is idempotent. The first call under a key records its outcome, result or refusal; after
  any later run, of any requests, workers and reapers, a call with that key returns the same outcome
  and changes nothing, even when it names another version.
\<close>

theorem stop_replays:
  assumes "reachable (w, S)"
    and "find_owned (stop_generation_id cmd) (stop_user_id cmd) (stop_conversation_id cmd) (w_db w)
      = Some r"
    and "find_command (stop_generation_id cmd) (stop_idempotency_key cmd) (w_db w) = None"
    and "request_stop now cmd w = (res, w1)"
    and "lifecycle_run (w1, insert (from_row r) S) (w2, S2)"
  shows "request_stop now2 (cmd\<lparr>stop_expected_version := v\<rparr>) w2 = (res, w2)"
proof -
  have run: "lifecycle_run (w, S) (w1, insert (from_row r) S)"
    by (rule request_stop_run [OF assms(2,4)])
  have "lifecycle_run (w, S) (w2, S2)" by (rule lifecycle_run_trans [OF assms(5) run])
  with lifecycle_run_inv reachable_inv [OF assms(1)]
  have inv2: "lifecycle_inv (w2, S2)" and later: "rows_later (w_db w) (w_db w2)" by fastforce+
  have inv1: "lifecycle_inv (w1, insert (from_row r) S)"
    using lifecycle_run_inv [OF run reachable_inv [OF assms(1)]] by simp
  obtain r2 where own2: "find_owned (stop_generation_id cmd) (stop_user_id cmd)
      (stop_conversation_id cmd) (w_db w2) = Some r2"
    using find_owned_later [OF _ _ later assms(2)] lifecycle_invD(1) [OF inv2]
      lifecycle_invD(1) [OF reachable_inv [OF assms(1)]] by blast
  show ?thesis
  proof (rule request_stop_first [OF assms(1-4)])
    assume rec: "recorded (stop_generation_id cmd) (stop_idempotency_key cmd) STOP
        (entry_of RecordedSnapshot res) (w_db w1)" and ok: "recordable res"
    have "recorded (stop_generation_id cmd) (stop_idempotency_key cmd) STOP
        (entry_of RecordedSnapshot res) (w_db w2)"
      using recorded_later [OF _ rec] lifecycle_run_inv [OF assms(5) inv1] by simp
    note replays = ledger_command_replays [OF this ok, of as_snapshot, OF _ _ own2]
    show ?thesis unfolding request_stop_shape by (simp add: replays split: sum.split)
  qed
qed

definition demo_stop :: stop_command where
  "demo_stop = \<lparr>stop_generation_id = 1, stop_conversation_id = 7, stop_user_id = 3,
     stop_idempotency_key = ''k'', stop_expected_version = 2\<rparr>"

lemma demo_stop_owned:
  "find_owned (stop_generation_id demo_stop) (stop_user_id demo_stop) (stop_conversation_id demo_stop)
     (w_db demo_running) = Some demo_row"
  "find_command (stop_generation_id demo_stop) (stop_idempotency_key demo_stop)
     (w_db demo_running) = None"
  "fst (request_stop 103 demo_stop demo_running) =
     Inr (from_row (transitioned 103 [SetStatus STOP_REQUESTED] demo_row))"
  by code_simp+

theorem stop_replays_witness:
  "fst (request_stop 200 demo_stop (snd (request_stop 103 demo_stop demo_running))) =
     Inr (from_row (transitioned 103 [SetStatus STOP_REQUESTED] demo_row))"
proof -
  have "request_stop 103 demo_stop demo_running =
      (Inr (from_row (transitioned 103 [SetStatus STOP_REQUESTED] demo_row)),
       snd (request_stop 103 demo_stop demo_running))"
    using demo_stop_owned(3) by (metis prod.collapse)
  from stop_replays [OF demo_reachable(2) demo_stop_owned(1,2) this run_refl, of 200 2]
  show ?thesis by (simp add: demo_stop_def)
qed

text \<open>
  Continue is idempotent in the same sense: after any later run, a call under the key of an
  earlier call returns its lease, marked as replayed, or its refusal, and changes nothing. The one
  exception is a first call that ended in the database's uniqueness error.
\<close>

theorem lease_replays:
  assumes "reachable (w, S)"
    and "find_owned (cont_generation_id cmd) (cont_user_id cmd) (cont_conversation_id cmd) (w_db w)
      = Some r"
    and "find_command (cont_generation_id cmd) (cont_idempotency_key cmd) (w_db w) = None"
    and "lease_continuation me now cmd w = (res, w1)"
    and "res \<noteq> Inl (RepoError IntegrityError)"
    and "lifecycle_run (w1, insert (from_row r) S) (w2, S2)"
  shows "lease_continuation me2 now2 (cmd\<lparr>cont_expected_version := v\<rparr>) w2 =
    (case res of Inl e \<Rightarrow> Inl e | Inr (l, _) \<Rightarrow> Inr (l, True), w2)"
proof -
  have run: "lifecycle_run (w, S) (w1, insert (from_row r) S)"
    by (rule lease_continuation_run [OF assms(2,4)])
  have "lifecycle_run (w, S) (w2, S2)" by (rule lifecycle_run_trans [OF assms(6) run])
  with lifecycle_run_inv reachable_inv [OF assms(1)]
  have inv2: "lifecycle_inv (w2, S2)" and later: "rows_later (w_db w) (w_db w2)" by fastforce+
  have inv1: "lifecycle_inv (w1, insert (from_row r) S)"
    using lifecycle_run_inv [OF run reachable_inv [OF assms(1)]] by simp
  obtain r2 where own2: "find_owned (cont_generation_id cmd) (cont_user_id cmd)
      (cont_conversation_id cmd) (w_db w2) = Some r2"
    using find_owned_later [OF _ _ later assms(2)] lifecycle_invD(1) [OF inv2]
      lifecycle_invD(1) [OF reachable_inv [OF assms(1)]] by blast
  show ?thesis
  proof (rule lease_continuation_first [OF assms(1-4)])
    fix w1' out
    assume res: "res = (case out of Inl e \<Rightarrow> Inl e | Inr x \<Rightarrow> Inr (x, False))"
      and fin: "out \<noteq> Inl (RepoError IntegrityError) \<Longrightarrow> recordable out \<and>
        recorded (cont_generation_id cmd) (cont_idempotency_key cmd) CONTINUE
          (entry_of RecordedLease out) (w_db w1) \<and> same_but_ledger w1' w1"
    from res assms(5) have "out \<noteq> Inl (RepoError IntegrityError)" by auto
    with fin have ok: "recordable out" and rec: "recorded (cont_generation_id cmd)
        (cont_idempotency_key cmd) CONTINUE (entry_of RecordedLease out) (w_db w1)" by blast+
    have "recorded (cont_generation_id cmd) (cont_idempotency_key cmd) CONTINUE
        (entry_of RecordedLease out) (w_db w2)"
      using recorded_later [OF _ rec] lifecycle_run_inv [OF assms(6) inv1] by simp
    note replays = ledger_command_replays [OF this ok, of as_lease, OF _ _ own2]
    show ?thesis
      unfolding lease_continuation_shape res by (simp add: replays split: sum.split)
  qed
qed

definition demo_continue :: continue_command where
  "demo_continue = \<lparr>cont_generation_id = 1, cont_continuation_id = 50, cont_conversation_id = 7,
     cont_user_id = 3, cont_idempotency_key = ''c'', cont_expected_version = 3\<rparr>"

definition demo_lease :: continuation_lease where
  "demo_lease = \<lparr>lease_snapshot =
       from_row (transitioned 104 (continuing_values ''h:5:9'' (from_row demo_paused_row)) demo_paused_row),
     lease_execution_epoch = 1, lease_paused_epoch = 0, lease_checkpoint_thread_id = ''th1'',
     lease_active_agent_id = None, lease_research_accounting = None\<rparr>"

lemma demo_continue_owned:
  "find_owned (cont_generation_id demo_continue) (cont_user_id demo_continue)
     (cont_conversation_id demo_continue) (w_db demo_paused) = Some demo_paused_row"
  "find_command (cont_generation_id demo_continue) (cont_idempotency_key demo_continue)
     (w_db demo_paused) = None"
  "fst (lease_continuation ''h:5:9'' 104 demo_continue demo_paused) = Inr (demo_lease, False)"
  by code_simp+

lemma demo_continue_run:
  "lease_continuation ''h:5:9'' 104 demo_continue demo_paused =
     (Inr (demo_lease, False), snd (lease_continuation ''h:5:9'' 104 demo_continue demo_paused))"
  using demo_continue_owned(3) by (metis prod.collapse)

theorem lease_replays_witness:
  "fst (lease_continuation ''h:6:1'' 300 demo_continue
     (snd (lease_continuation ''h:5:9'' 104 demo_continue demo_paused))) = Inr (demo_lease, True)"
  using lease_replays [OF demo_reachable(3) demo_continue_owned(1,2) demo_continue_run _ run_refl,
      of "''h:6:1''" 300 3]
  by (simp add: demo_continue_def)

text \<open>
  A Stop issued against another version of the generation than the stored one is refused as
  stale: no generation changes, no signal is published and no approval is invalidated.
\<close>

theorem stale_stop_refused:
  assumes "reachable (w, S)"
    and "find_owned (stop_generation_id cmd) (stop_user_id cmd) (stop_conversation_id cmd) (w_db w)
      = Some r"
    and "find_command (stop_generation_id cmd) (stop_idempotency_key cmd) (w_db w) = None"
    and "stop_expected_version cmd \<noteq> gen_version r"
    and "request_stop now cmd w = (res, w')"
  shows "(\<exists>c. res = Inl (ControlError c) \<and> ce_kind c = StaleCommand) \<and>
    db_generations (w_db w') = db_generations (w_db w) \<and> w_published w' = w_published w \<and>
    w_expired w' = w_expired w"
proof (rule request_stop_first [OF assms(1-3,5)])
  fix w0 w1
  assume w0: "same_but_ledger w w0" and w1: "same_but_ledger w1 w'"
    and body: "decide_stop now cmd (from_row r) w0 = (res, w1)"
  show ?thesis
  proof (cases rule: require_fresh_run [of "stop_expected_version cmd" "from_row r" w0])
    case ok
    with assms(4) show ?thesis by simp
  next
    case (refused c)
    with body have "res = Inl (ControlError c)" "w1 = w0"
      by (simp_all add: decide_stop_def bind_act_app)
    with refused w0 w1 show ?thesis by (simp add: same_but_ledger_def)
  qed
qed

theorem stale_stop_refused_witness:
  "\<exists>c. fst (request_stop 103 (demo_stop\<lparr>stop_expected_version := 1\<rparr>) demo_running) =
    Inl (ControlError c) \<and> ce_kind c = StaleCommand"
  using stale_stop_refused [where cmd = "demo_stop\<lparr>stop_expected_version := 1\<rparr>" and now = 103,
      OF demo_reachable(2) _ _ _ prod.collapse [symmetric]] demo_stop_owned(1,2)
  by (simp add: demo_stop_def)

text \<open>
  What a fresh Stop does in each state. A running turn becomes stop-requested and the signal is
  published with the new version; a second Stop is answered with the unchanged snapshot and publishes
  nothing; a paused turn is accepted as partial at once, and a pending approval it was waiting on is
  expired; a turn that has ended is refused and nothing changes.
\<close>

theorem stop_outcome:
  assumes "reachable (w, S)"
    and own: "find_owned (stop_generation_id cmd) (stop_user_id cmd) (stop_conversation_id cmd) (w_db w)
      = Some r"
    and "find_command (stop_generation_id cmd) (stop_idempotency_key cmd) (w_db w) = None"
    and version: "stop_expected_version cmd = gen_version r"
    and "request_stop now cmd w = (res, w')"
  shows "case gen_status r of
      STOP_REQUESTED \<Rightarrow> res = Inr (from_row r) \<and>
        db_generations (w_db w') = db_generations (w_db w) \<and> w_published w' = w_published w
    | CONTINUABLE \<Rightarrow> (\<exists>r'. res = Inr (from_row r') \<and> db_row (gen_id r) (w_db w') = Some r' \<and>
        gen_status r' = COMPLETED_PARTIAL \<and> \<not> gen_continuation_available r' \<and>
        w_published w' = w_published w \<and>
        w_expired w' = w_expired w @
          (if w_has_hitl w \<and> gen_continuation_block_reason r = Some APPROVAL_PAUSE_REASON
           then [(gen_user_id r, gen_conversation_id r, gen_checkpoint_thread_id r,
                  ''generation_stopped'')] else []))
    | s \<Rightarrow> if s \<in> TERMINAL_STATUSES
        then (\<exists>c. res = Inl (ControlError c) \<and> ce_kind c = IllegalTransition) \<and>
          db_generations (w_db w') = db_generations (w_db w) \<and> w_published w' = w_published w
        else \<exists>r'. res = Inr (from_row r') \<and> db_row (gen_id r) (w_db w') = Some r' \<and>
          gen_status r' = STOP_REQUESTED \<and> gen_version r' = gen_version r + 1 \<and>
          w_published w' = w_published w @ [(gen_id r, gen_version r + 1)]"
proof (rule request_stop_first [OF assms(1-3,5)])
  fix w0 w1
  assume w0: "same_but_ledger w w0" and inv0: "lifecycle_inv (w0, insert (from_row r) S)"
    and w1: "same_but_ledger w1 w'" and body: "decide_stop now cmd (from_row r) w0 = (res, w1)"
  note wf = lifecycle_invD(1) [OF inv0]
  have owner: "gen_id r = stop_generation_id cmd" "gen_user_id r = stop_user_id cmd"
      "gen_conversation_id r = stop_conversation_id cmd"
    using own by (auto simp: find_owned_def owned_by_def dest: find_SomeD)
  have row: "db_row (stop_generation_id cmd) (w_db w0) = Some r"
    using own lifecycle_invD(1) [OF reachable_inv [OF assms(1)]] same_but_ledger_row [OF w0]
    by (simp add: find_owned_Some)
  have fence: "fence_matches (stop_generation_id cmd) (stop_user_id cmd) (stop_conversation_id cmd)
      sts (gen_version r) r \<longleftrightarrow> gen_status r \<in> sts" for sts
    using owner by (simp add: fence_matches_def owned_by_def)
  have fresh: "require_fresh (stop_expected_version cmd) (from_row r) w0 = (Inr (), w0)"
    by (rule require_fresh_run [of "stop_expected_version cmd" "from_row r" w0]) (use version in simp_all)
  consider (stop) "gen_status r = STOP_REQUESTED" | (pause) "gen_status r = CONTINUABLE"
    | (ended) "gen_status r \<in> TERMINAL_STATUSES"
    | (running) "gen_status r \<in> {STARTING, RUNNING, FINALIZING_AFTER_LIMIT, CONTINUING}"
    by (cases "gen_status r") (auto simp: status_sets)
  then show ?thesis
  proof cases
    case stop
    with body fresh have "res = Inr (from_row r)" "w1 = w0"
      by (simp_all add: decide_stop_def bind_act_app status_sets)
    with stop w0 w1 show ?thesis by (simp add: same_but_ledger_def)
  next
    case ended
    with body fresh have "w1 = w0 \<and> (\<exists>c. res = Inl (ControlError c) \<and> ce_kind c = IllegalTransition)"
      by (auto simp: decide_stop_def bind_act_app refuse_def)
    with ended w0 w1 show ?thesis
      by (auto simp: same_but_ledger_def status_sets)
  next
    case pause
    let ?vals = "[SetStatus COMPLETED_PARTIAL, SetContinuationAvailable False, SetContinuationId None,
      SetTerminalReason (Some ''stopped_partial''), SetTerminalAt (Some now)]"
    let ?r' = "transitioned now ?vals r"
    have "fence_matches (stop_generation_id cmd) (stop_user_id cmd) (stop_conversation_id cmd)
        {CONTINUABLE} (gen_version r) r" using pause fence by simp
    from on_db_atransition_succeeds [OF wf row this, of ?vals now]
    obtain w2 where t: "on_db (atransition now (stop_generation_id cmd) (stop_user_id cmd)
        (stop_conversation_id cmd) {CONTINUABLE} (gen_version r) ?vals) w0 =
          (Inr (Some (from_row ?r')), w2)"
      and w2: "same_signals w0 w2" "db_row (stop_generation_id cmd) (w_db w2) = Some ?r'"
        "find_owned (stop_generation_id cmd) (stop_user_id cmd) (stop_conversation_id cmd) (w_db w2)
          = Some ?r'"
      by (auto simp: is_active_def transitioned_def status_sets)
    have "decide_stop now cmd (from_row r) w0 = accept_partial now cmd (from_row r) w0"
      using pause fresh by (simp add: decide_stop_def bind_act_app status_sets)
    with body have acc: "accept_partial now cmd (from_row r) w0 = (res, w1)" by simp
    have inval: "invalidate_pending_approval (from_row ?r') (stop_user_id cmd) w2 =
      (Inr (), if w_has_hitl w0 then w2\<lparr>w_expired := w_expired w0 @
         [(gen_user_id r, gen_conversation_id r, gen_checkpoint_thread_id r,
           ''generation_stopped'')]\<rparr> else w2)"
      using invalidate_pending_approval_run [of "from_row ?r'" "stop_user_id cmd" w2 ?r'] w2(1,3) owner
      by (simp add: same_signals_def)
    have "res = Inr (from_row ?r') \<and> w_db w1 = w_db w2 \<and> w_published w1 = w_published w0 \<and>
        w_expired w1 = w_expired w0 @
          (if w_has_hitl w0 \<and> gen_continuation_block_reason r = Some APPROVAL_PAUSE_REASON
           then [(gen_user_id r, gen_conversation_id r, gen_checkpoint_thread_id r,
                  ''generation_stopped'')] else [])"
      using acc w2(1)
      by (cases "gen_continuation_block_reason r = Some APPROVAL_PAUSE_REASON")
        (auto simp: accept_partial_def bind_act_app t inval same_signals_def)
    with pause owner w0 w1 w2 show ?thesis
      by (auto simp: same_but_ledger_def same_but_ledger_row [OF w1] transitioned_def)
  next
    case running
    have "fence_matches (stop_generation_id cmd) (stop_user_id cmd) (stop_conversation_id cmd)
        STOPPABLE (gen_version r) r" using running fence by (auto simp: STOPPABLE_def)
    from on_db_atransition_succeeds [OF wf row this, of "[SetStatus STOP_REQUESTED]" now]
    obtain w2 where t: "on_db (atransition now (stop_generation_id cmd) (stop_user_id cmd)
        (stop_conversation_id cmd) STOPPABLE (gen_version r) [SetStatus STOP_REQUESTED]) w0 =
          (Inr (Some (from_row (transitioned now [SetStatus STOP_REQUESTED] r))), w2)"
      and w2: "same_signals w0 w2"
        "db_row (stop_generation_id cmd) (w_db w2) = Some (transitioned now [SetStatus STOP_REQUESTED] r)"
      by (auto simp: is_active_def status_simps)
    have "decide_stop now cmd (from_row r) w0 = request_worker_stop now cmd (from_row r) w0"
      using running fresh by (auto simp: decide_stop_def bind_act_app status_sets)
    with body t w2(1) owner have "res = Inr (from_row (transitioned now [SetStatus STOP_REQUESTED] r))"
      and "w_db w1 = w_db w2" and "w_published w1 = w_published w0 @ [(gen_id r, gen_version r + 1)]"
      by (auto simp: request_worker_stop_def bind_act_app publish_stop_def same_signals_def)
    with running owner w0 w1 w2 show ?thesis
      by (auto simp: same_but_ledger_def same_but_ledger_row [OF w1] transitioned_def status_sets)
  qed
qed

theorem stop_outcome_witness:
  "\<exists>r'. fst (request_stop 103 demo_stop demo_running) = Inr (from_row r') \<and>
    gen_status r' = STOP_REQUESTED \<and>
    w_published (snd (request_stop 103 demo_stop demo_running)) = w_published demo_running @ [(1, 3)]"
proof -
  have "stop_expected_version demo_stop = gen_version demo_row" by (simp add: demo_stop_def)
  from stop_outcome [OF demo_reachable(2) demo_stop_owned(1,2) this prod.collapse [symmetric], of 103]
  show ?thesis by (auto simp: status_sets)
qed

text \<open>
  A Continue that is granted consumed exactly the continuation the row offered at the version the
  client saw: the epoch advances by one, the lease carries the new epoch and the epoch the graph is
  still paused in, the continuation is no longer on offer, the budget of the last run is cleared and
  the row belongs to the process that took the lease.
\<close>

theorem continue_advances_epoch:
  assumes "reachable (w, S)"
    and own: "find_owned (cont_generation_id cmd) (cont_user_id cmd) (cont_conversation_id cmd) (w_db w)
      = Some r"
    and "find_command (cont_generation_id cmd) (cont_idempotency_key cmd) (w_db w) = None"
    and "lease_continuation me now cmd w = (Inr (l, False), w')"
  shows "cont_expected_version cmd = gen_version r \<and> gen_status r \<in> {CONTINUABLE, STOPPED} \<and>
    gen_continuation_available r \<and> gen_continuation_id r = Some (cont_continuation_id cmd) \<and>
    (\<exists>r'. db_row (cont_generation_id cmd) (w_db w') = Some r' \<and> lease_snapshot l = from_row r' \<and>
       gen_status r' = CONTINUING \<and> gen_version r' = gen_version r + 1 \<and>
       gen_execution_epoch r' = gen_execution_epoch r + 1 \<and>
       \<not> gen_continuation_available r' \<and> gen_continuation_id r' = None \<and>
       gen_execution_budget r' = None \<and> gen_producer_token r' = Some me) \<and>
    lease_execution_epoch l = gen_execution_epoch r + 1 \<and>
    lease_paused_epoch l = gen_execution_epoch r \<and>
    lease_checkpoint_thread_id l = gen_checkpoint_thread_id r \<and>
    lease_research_accounting l = gen_research_accounting r"
proof (rule lease_continuation_first [OF assms])
  fix w0 w1 out
  assume w0: "same_but_ledger w w0" and inv0: "lifecycle_inv (w0, insert (from_row r) S)"
    and body: "advance_epoch me now cmd (from_row r) w0 = (out, w1)"
    and res: "Inr (l, False) = (case out of Inl e \<Rightarrow> Inl e | Inr x \<Rightarrow> Inr (x, False))"
    and "out \<noteq> Inl (RepoError IntegrityError) \<Longrightarrow> recordable out \<and>
         recorded (cont_generation_id cmd) (cont_idempotency_key cmd) CONTINUE
           (entry_of RecordedLease out) (w_db w') \<and> same_but_ledger w1 w'"
  moreover from res have out: "out = Inr l" by (cases out) simp_all
  ultimately have w1: "same_but_ledger w1 w'" by simp
  have row: "db_row (cont_generation_id cmd) (w_db w0) = Some r"
    using own lifecycle_invD(1) [OF reachable_inv [OF assms(1)]] same_but_ledger_row [OF w0]
    by (simp add: find_owned_Some)
  from body show ?thesis
  proof (cases rule: advance_epoch_db)
    case refused
    with out show ?thesis by simp
  next
    case (swapped x ctx)
    have offered: "gen_continuation_available r \<and> gen_continuation_id r = Some (cont_continuation_id cmd)"
      by (rule require_continuable_run [of "from_row r" cmd w0]) (use swapped(2) in auto)
    have fresh: "cont_expected_version cmd = gen_version r"
      by (rule require_fresh_run [of "cont_expected_version cmd" "from_row r" w0])
        (use swapped(1) in auto)
    have ctx: "rc_checkpoint_thread_id ctx = gen_checkpoint_thread_id r"
        "rc_research_accounting ctx = gen_research_accounting r"
      using swapped(3) own w0
      by (auto simp: on_db_def aget_resume_context_def find_owned_def same_but_ledger_def)
    from swapped(5) out obtain a where x: "x = Inr (Some a)"
      by (auto split: sum.splits option.splits)
    show ?thesis
    proof (rule on_db_atransition_cases [OF lifecycle_invD(1) [OF inv0] swapped(4)])
      assume "\<And>s. x \<noteq> Inr (Some s)"
      with x show ?thesis by simp
    next
      fix r0
      assume m: "moved (cont_generation_id cmd) r0
          (transitioned now (continuing_values me (from_row r)) r0) (w_db w0) (w_db w1)"
        and f: "fence_matches (cont_generation_id cmd) (cont_user_id cmd) (cont_conversation_id cmd)
          {CONTINUABLE, STOPPED} (snap_version (from_row r)) r0"
        and a: "x = Inr (Some (from_row (transitioned now (continuing_values me (from_row r)) r0)))"
      from m row have "r0 = r" by (simp add: moved_def)
      with m f a swapped(5) out x offered fresh ctx same_but_ledger_row [OF w1] show ?thesis
        by (auto simp: moved_def fence_matches_def transitioned_def continuing_values_def)
    qed
  qed
qed

theorem continue_advances_epoch_witness:
  "lease_execution_epoch demo_lease = 1 \<and> lease_paused_epoch demo_lease = 0 \<and>
   gen_status demo_paused_row \<in> {CONTINUABLE, STOPPED}"
  using continue_advances_epoch [OF demo_reachable(3) demo_continue_owned(1,2) demo_continue_run] by simp

text \<open>
  A continuation is leased once. After a granted Continue and any later run, a Continue under
  another key that names the same version is refused as stale and changes no generation.
\<close>

theorem continuation_leased_once:
  assumes "reachable (w, S)"
    and own: "find_owned (cont_generation_id cmd) (cont_user_id cmd) (cont_conversation_id cmd) (w_db w)
      = Some r"
    and new: "find_command (cont_generation_id cmd) (cont_idempotency_key cmd) (w_db w) = None"
    and run: "lease_continuation me now cmd w = (Inr (l, False), w1)"
    and later: "lifecycle_run (w1, insert (from_row r) S) (w2, S2)"
    and new2: "find_command (cont_generation_id cmd) key2 (w_db w2) = None"
    and run2: "lease_continuation me2 now2 (cmd\<lparr>cont_idempotency_key := key2\<rparr>) w2 = (res2, w3)"
  shows "(\<exists>c. res2 = Inl (ControlError c) \<and> ce_kind c = StaleCommand) \<and>
    db_generations (w_db w3) = db_generations (w_db w2)"
proof -
  have r1: "reachable (w1, insert (from_row r) S)"
    by (rule reachable_run [OF assms(1) lease_continuation_run [OF own run]])
  have r2: "reachable (w2, S2)" by (rule reachable_run [OF r1 later])
  obtain r' where r': "db_row (cont_generation_id cmd) (w_db w1) = Some r'"
    "gen_version r' = gen_version r + 1" and v: "cont_expected_version cmd = gen_version r"
    using continue_advances_epoch [OF assms(1) own new run] by blast
  have "rows_later (w_db w) (w_db w1)" "rows_later (w_db w1) (w_db w2)"
    using lifecycle_run_inv [OF lease_continuation_run [OF own run] reachable_inv [OF assms(1)]]
      lifecycle_run_inv [OF later reachable_inv [OF r1]] by simp_all
  then have "rows_later (w_db w) (w_db w2)" by (rule rows_later_trans)
  then obtain r2 where own2: "find_owned (cont_generation_id cmd) (cont_user_id cmd)
      (cont_conversation_id cmd) (w_db w2) = Some r2"
    using find_owned_later [OF _ _ _ own] lifecycle_invD(1) [OF reachable_inv [OF assms(1)]]
      lifecycle_invD(1) [OF reachable_inv [OF r2]] by blast
  have "db_row (cont_generation_id cmd) (w_db w2) = Some r2"
    using own2 lifecycle_invD(1) [OF reachable_inv [OF r2]] by (simp add: find_owned_Some)
  from rows_laterD [OF \<open>rows_later (w_db w1) (w_db w2)\<close> r'(1) this] have "row_later r' r2" .
  then have "gen_version r' \<le> gen_version r2" by (auto simp: row_later_def)
  with r'(2) v have stale: "cont_expected_version cmd \<noteq> gen_version r2" by simp
  let ?cmd = "cmd\<lparr>cont_idempotency_key := key2\<rparr>"
  show ?thesis
  proof (rule lease_continuation_first [where cmd = ?cmd, OF r2 _ _ run2])
    fix w0 w1' out
    assume w0: "same_but_ledger w2 w0" and body: "advance_epoch me2 now2 ?cmd (from_row r2) w0 = (out, w1')"
      and res: "res2 = (case out of Inl e \<Rightarrow> Inl e | Inr x \<Rightarrow> Inr (x, False))"
      and fin: "out \<noteq> Inl (RepoError IntegrityError) \<Longrightarrow> recordable out \<and>
         recorded (cont_generation_id ?cmd) (cont_idempotency_key ?cmd) CONTINUE
           (entry_of RecordedLease out) (w_db w3) \<and> same_but_ledger w1' w3"
    obtain c where "out = Inl (ControlError c)" "ce_kind c = StaleCommand" "w1' = w0"
      by (rule require_fresh_run [of "cont_expected_version cmd" "from_row r2" w0])
        (use stale body in \<open>auto simp: advance_epoch_def bind_act_app\<close>)
    with res fin w0 show ?thesis by (auto simp: same_but_ledger_def)
  qed (use own2 new2 in simp_all)
qed

theorem continuation_leased_once_witness:
  "\<exists>c. fst (lease_continuation ''h:5:9'' 105 (demo_continue\<lparr>cont_idempotency_key := ''d''\<rparr>)
     (snd (lease_continuation ''h:5:9'' 104 demo_continue demo_paused))) = Inl (ControlError c) \<and>
   ce_kind c = StaleCommand"
proof -
  have "find_command (cont_generation_id demo_continue) ''d''
      (w_db (snd (lease_continuation ''h:5:9'' 104 demo_continue demo_paused))) = None"
    by code_simp
  from continuation_leased_once [OF demo_reachable(3) demo_continue_owned(1,2) demo_continue_run
      run_refl this prod.collapse [symmetric]] show ?thesis by blast
qed

text \<open>
  The gap in Continue's idempotency. When another turn of the conversation is active, the
  database refuses the transition with its uniqueness error, which is not one of the refusals the
  service records: the error escapes, the key stays claimed with no result, and from then on every
  call with that key is refused as already in progress, whatever becomes of the generations.
\<close>

theorem lease_conflict_strands_key:
  assumes "reachable (w, S)"
    and own: "find_owned (cont_generation_id cmd) (cont_user_id cmd) (cont_conversation_id cmd) (w_db w)
      = Some r"
    and new: "find_command (cont_generation_id cmd) (cont_idempotency_key cmd) (w_db w) = None"
    and offer: "gen_version r = cont_expected_version cmd" "gen_status r \<in> {CONTINUABLE, STOPPED}"
      "gen_continuation_available r" "gen_continuation_id r = Some (cont_continuation_id cmd)"
    and busy: "other \<in> set (db_generations (w_db w))" "is_active other"
      "gen_conversation_id other = gen_conversation_id r"
    and run: "lease_continuation me now cmd w = (res, w')"
    and later: "db_commands (w_db w2) = db_commands (w_db w')"
      "find_owned (cont_generation_id cmd) (cont_user_id cmd) (cont_conversation_id cmd) (w_db w2)
        \<noteq> None"
  shows "res = Inl (RepoError IntegrityError) \<and>
    lease_continuation me2 now2 cmd w2 =
      (Inl (ControlError (control_error_of IllegalTransition ''this command is already in progress''
         [(''recorded_action'', PStr ''continue'')])), w2)"
proof (rule lease_continuation_first [OF assms(1) own new run])
  fix w0 w1 out
  assume w0: "same_but_ledger w w0" and inv0: "lifecycle_inv (w0, insert (from_row r) S)"
    and body: "advance_epoch me now cmd (from_row r) w0 = (out, w1)"
    and res: "res = (case out of Inl e \<Rightarrow> Inl e | Inr x \<Rightarrow> Inr (x, False))"
    and bad: "out = Inl (RepoError IntegrityError) \<Longrightarrow> w' = w1 \<and>
         find_command (cont_generation_id cmd) (cont_idempotency_key cmd) (w_db w') =
           Some \<lparr>cmd_generation_id = cont_generation_id cmd,
             cmd_idempotency_key = cont_idempotency_key cmd, cmd_action = CONTINUE,
             cmd_fence = cont_expected_version cmd, cmd_result = None, cmd_completed_at = None\<rparr>"
  have owner: "gen_id r = cont_generation_id cmd" "gen_user_id r = cont_user_id cmd"
    "gen_conversation_id r = cont_conversation_id cmd"
    and row: "r \<in> set (db_generations (w_db w0))"
    using own w0 by (auto simp: find_owned_def owned_by_def same_but_ledger_def dest: find_SomeD)
  have hit: "fence_matches (cont_generation_id cmd) (cont_user_id cmd) (cont_conversation_id cmd)
      {CONTINUABLE, STOPPED} (gen_version r) r"
    using owner offer by (simp add: fence_matches_def owned_by_def)
  let ?f = "\<lambda>x. if fence_matches (cont_generation_id cmd) (cont_user_id cmd)
      (cont_conversation_id cmd) {CONTINUABLE, STOPPED} (gen_version r) x
    then transitioned now (continuing_values me (from_row r)) x else x"
  have other: "other \<in> set (db_generations (w_db w0))" using busy(1) w0 by (simp add: same_but_ledger_def)
  have no: "\<not> fence_matches (cont_generation_id cmd) (cont_user_id cmd) (cont_conversation_id cmd)
      {CONTINUABLE, STOPPED} (gen_version r) other"
    using busy(2) by (auto simp: fence_matches_def is_active_def status_sets)
  have nv: "\<not> list_ex is_version (continuing_values me (from_row r))"
    by (simp add: continuing_values_def)
  have act: "is_active (?f r)" "is_active (?f other)"
    using hit no busy(2) by (simp_all add: is_active_def status_sets transitioned_def continuing_values_def)
  have conv: "gen_conversation_id (?f r) = gen_conversation_id (?f other)"
    using no hit busy(3) by simp
  have "r \<noteq> other" using no hit by auto
  then have "gen_id r \<noteq> gen_id other"
    using row other lifecycle_invD(1) [OF inv0] by (auto dest!: db_wf_ids dest: distinct_map_inj_on_set)
  then have ids: "gen_id (?f r) \<noteq> gen_id (?f other)" by simp
  have mem: "?f r \<in> set (map ?f (db_generations (w_db w0)))"
    "?f other \<in> set (map ?f (db_generations (w_db w0)))"
    unfolding list.set_map by (rule imageI [OF row], rule imageI [OF other])
  have "\<not> unique_indexes (map ?f (db_generations (w_db w0)))"
  proof
    assume "unique_indexes (map ?f (db_generations (w_db w0)))"
    from unique_active [OF this mem act conv] ids show False by (simp only:)
  qed
  then have clash: "on_db (atransition now (cont_generation_id cmd) (cont_user_id cmd)
      (cont_conversation_id cmd) {CONTINUABLE, STOPPED} (snap_version (from_row r))
      (continuing_values me (from_row r))) w0 = (Inl (RepoError IntegrityError), w0)"
    using nv by (simp add: on_db_def atransition_def Let_def)
  have "require_fresh (cont_expected_version cmd) (from_row r) w0 = (Inr (), w0)"
    by (rule require_fresh_run [of "cont_expected_version cmd" "from_row r" w0]) (use offer in simp_all)
  moreover have "require_continuable cmd (from_row r) w0 = (Inr (), w0)"
    using offer by (simp add: require_continuable_def)
  moreover obtain ctx where "on_db (aget_resume_context (cont_generation_id cmd) (cont_user_id cmd)
      (cont_conversation_id cmd)) w0 = (Inr (Some ctx), w0)"
    using own w0 by (auto simp: on_db_def aget_resume_context_def find_owned_def same_but_ledger_def)
  ultimately have out: "out = Inl (RepoError IntegrityError)"
    using body clash by (simp add: advance_epoch_def bind_act_app)
  with bad have "find_command (cont_generation_id cmd) (cont_idempotency_key cmd) (w_db w2) =
      Some \<lparr>cmd_generation_id = cont_generation_id cmd,
        cmd_idempotency_key = cont_idempotency_key cmd, cmd_action = CONTINUE,
        cmd_fence = cont_expected_version cmd, cmd_result = None, cmd_completed_at = None\<rparr>"
    using later(1) unfolding find_command_def by metis
  then show ?thesis
    using out res later(2)
    by (auto simp: lease_continuation_def bind_act_app require_owned_run on_db_def aclaim_command_def
        replay_def refuse_def)
qed

definition demo_busy :: control_world where
  "demo_busy = snd (start_generation 2 ''h:5:9'' 110 (demo_create\<lparr>cg_logical_turn_id := ''t2''\<rparr>)
     demo_paused)"

definition demo_other_row :: generation where
  "demo_other_row = new_generation 2 ''h:5:9'' 110 (demo_create\<lparr>cg_logical_turn_id := ''t2''\<rparr>)"

lemma demo_busy_reachable: "reachable (demo_busy, {})"
  unfolding demo_busy_def
  by (rule reachable_step [OF demo_reachable(3) start_step [OF prod.collapse [symmetric]]])

lemma demo_busy_rows:
  "db_generations (w_db demo_busy) = [demo_paused_row, demo_other_row]"
  "find_owned (cont_generation_id demo_continue) (cont_user_id demo_continue)
     (cont_conversation_id demo_continue) (w_db demo_busy) = Some demo_paused_row"
  "find_command (cont_generation_id demo_continue) (cont_idempotency_key demo_continue)
     (w_db demo_busy) = None"
  "find_owned (cont_generation_id demo_continue) (cont_user_id demo_continue)
     (cont_conversation_id demo_continue)
     (w_db (snd (lease_continuation ''h:5:9'' 111 demo_continue demo_busy))) \<noteq> None"
  by code_simp+

theorem lease_conflict_strands_key_witness:
  "fst (lease_continuation ''h:5:9'' 111 demo_continue demo_busy) = Inl (RepoError IntegrityError)"
proof -
  have "is_active demo_other_row" "gen_conversation_id demo_other_row = gen_conversation_id demo_paused_row"
    "gen_continuation_available demo_paused_row"
    by code_simp+
  then show ?thesis
    using lease_conflict_strands_key [OF demo_busy_reachable demo_busy_rows(2,3) _ _ _ _ _ _ _
        prod.collapse [symmetric] refl demo_busy_rows(4), of demo_other_row]
    by (simp add: demo_busy_rows demo_continue_def)
qed

text \<open>
  A stop that reached the row wins. While a generation is stop-requested the worker can neither
  complete nor pause it, at any version: both are refused as illegal and change nothing.
\<close>

theorem stop_beats_completion:
  assumes "reachable (w, S)"
    and "db_row (mk_generation_id cmd) (w_db w) = Some r" and "gen_status r = STOP_REQUESTED"
    and "mc_generation_id pause = mk_generation_id cmd"
  shows "snd (mark_completed now cmd w) = w \<and> snd (mark_continuable new_id now pause w) = w \<and>
    (\<exists>c. fst (mark_completed now cmd w) = Inl (ControlError c) \<and> ce_kind c = IllegalTransition) \<and>
    (\<exists>c. fst (mark_continuable new_id now pause w) = Inl (ControlError c) \<and> ce_kind c = IllegalTransition)"
proof -
  note wf = lifecycle_invD(1) [OF reachable_inv [OF assms(1)]]
  have refused: "snd (must_transition now k u c sts v vals w) = w \<and>
      (\<exists>e. fst (must_transition now k u c sts v vals w) = Inl (ControlError e) \<and>
        ce_kind e = IllegalTransition)"
    if "k = mk_generation_id cmd" "STOP_REQUESTED \<notin> sts" "\<not> list_ex is_version vals" for k u c sts v vals
  proof -
    have no: "\<not> fence_matches k u c sts v x" if "x \<in> set (db_generations (w_db w))" for x
      using that assms(2,3) \<open>k = _\<close> \<open>STOP_REQUESTED \<notin> sts\<close> wf
        distinct_map_inj_on_set [OF db_wf_ids [OF wf] that, of r]
      by (auto simp: fence_matches_def owned_by_def db_row_iff)
    then have "map (\<lambda>x. if fence_matches k u c sts v x then transitioned now vals x else x)
        (db_generations (w_db w)) = db_generations (w_db w)"
      by (simp add: map_idI)
    moreover have "find (fence_matches k u c sts v) (db_generations (w_db w)) = None"
      using no by (simp add: find_None_iff)
    ultimately have "atransition now k u c sts v vals (w_db w) = (Inr None, w_db w)"
      using wf that(3) by (simp add: atransition_def db_wf_def Let_def)
    then show ?thesis by (simp add: must_transition_def bind_act_app on_db_def refuse_def)
  qed
  have v: "\<not> list_ex is_version (continuable_values new_id pause)"
    by (simp add: continuable_values_def Let_def split: option.split)
  show ?thesis
    unfolding mark_completed_def mark_continuable_def
    using refused assms(4) v by (simp add: COMPLETABLE_def CONTINUABLE_FROM_def)
qed

theorem stop_beats_completion_witness:
  "\<exists>c. fst (mark_completed 105 \<lparr>mk_generation_id = 1, mk_conversation_id = 7, mk_user_id = 3,
      mk_expected_version = 3, mk_assistant_message_id = None, mk_partial = False,
      mk_terminal_reason = None\<rparr> (snd (request_stop 103 demo_stop demo_running))) =
    Inl (ControlError c) \<and> ce_kind c = IllegalTransition"
proof -
  have run: "request_stop 103 demo_stop demo_running =
      (fst (request_stop 103 demo_stop demo_running), snd (request_stop 103 demo_stop demo_running))"
    by simp
  have "reachable (snd (request_stop 103 demo_stop demo_running), {from_row demo_row})"
    by (rule reachable_run [OF demo_reachable(2) request_stop_run [OF demo_stop_owned(1) run]])
  moreover have "db_row 1 (w_db (snd (request_stop 103 demo_stop demo_running))) =
      Some (transitioned 103 [SetStatus STOP_REQUESTED] demo_row)"
    and "gen_status (transitioned 103 [SetStatus STOP_REQUESTED] demo_row) = STOP_REQUESTED"
    by code_simp+
  ultimately show ?thesis
    by (rule_tac stop_beats_completion [where pause = "demo_pause", THEN conjunct2, THEN conjunct2,
          THEN conjunct1]) (simp_all add: demo_pause_def)
qed

section \<open>Waiting for a stop to settle\<close>

text \<open>
  \<^verbatim>\<open>await_stop_settled\<close> polls the row until it leaves stop-requested or the deadline passes. What it
  sees is an argument: the clock and the world at the start, then one reading of the clock and the
  world after the sleep for each turn of the loop. \<open>None\<close> is a loop still waiting when the
  observations end.
\<close>

fun await_loop ::
  "int \<Rightarrow> uuid \<Rightarrow> uuid \<Rightarrow> uuid \<Rightarrow> (int \<times> control_world) list \<Rightarrow> generation_snapshot
     \<Rightarrow> (control_exn + generation_snapshot) option" where
  "await_loop deadline g u c obs snapshot =
     (if snap_status snapshot \<noteq> STOP_REQUESTED then Some (Inr snapshot)
      else case obs of
        [] \<Rightarrow> None
      | (clock, w) # obs' \<Rightarrow>
          if clock \<ge> deadline then Some (Inr snapshot)
          else case fst (require_owned g u c w) of
            Inl e \<Rightarrow> Some (Inl e)
          | Inr s \<Rightarrow> await_loop deadline g u c obs' s)"

declare await_loop.simps [simp del]

definition await_stop_settled ::
  "int \<Rightarrow> uuid \<Rightarrow> uuid \<Rightarrow> uuid \<Rightarrow> int \<Rightarrow> control_world \<Rightarrow> (int \<times> control_world) list
     \<Rightarrow> (control_exn + generation_snapshot) option" where
  "await_stop_settled stop_wait g u c start w obs =
     (case fst (require_owned g u c w) of
        Inl e \<Rightarrow> Some (Inl e)
      | Inr s \<Rightarrow> await_loop (start + stop_wait) g u c obs s)"

lemma await_loop_returns:
  "(clock, w) \<in> set obs \<Longrightarrow> deadline \<le> clock \<Longrightarrow> await_loop deadline g u c obs s \<noteq> None"
proof (induction obs arbitrary: s)
  case Nil
  then show ?case by simp
next
  case (Cons o1 obs)
  obtain clock1 w1 where o1: "o1 = (clock1, w1)" by (cases o1)
  show ?case
  proof (cases "clock1 \<ge> deadline")
    case True
    with o1 show ?thesis by (subst await_loop.simps) simp
  next
    case False
    with o1 Cons.prems have "(clock, w) \<in> set obs" by auto
    from Cons.IH [OF this Cons.prems(2)] False o1 show ?thesis
      by (subst await_loop.simps) (auto split: sum.split)
  qed
qed

lemma await_loop_honest:
  "await_loop deadline g u c obs s = Some (Inr t) \<Longrightarrow>
   (t = s \<or> (\<exists>w \<in> snd ` set obs. \<exists>r. find_owned g u c (w_db w) = Some r \<and> t = from_row r)) \<and>
   (snap_status t = STOP_REQUESTED \<longrightarrow> (\<exists>clock \<in> fst ` set obs. deadline \<le> clock))"
proof (induction obs arbitrary: s)
  case Nil
  then show ?case by (subst (asm) await_loop.simps) (auto split: if_splits)
next
  case (Cons o1 obs)
  obtain clock1 w1 where o1: "o1 = (clock1, w1)" by (cases o1)
  consider "t = s" "snap_status s \<noteq> STOP_REQUESTED" | "t = s" "deadline \<le> clock1"
    | r where "find_owned g u c (w_db w1) = Some r"
        "await_loop deadline g u c obs (from_row r) = Some (Inr t)"
    using Cons.prems o1
    by (subst (asm) await_loop.simps) (auto simp: require_owned_run split: if_splits option.splits)
  then show ?case
  proof cases
    case 3
    from Cons.IH [OF 3(2)] 3(1) o1 show ?thesis by auto
  qed (use o1 in auto)
qed

text \<open>
  Waiting for a stop ends and is honest: once a reading of the clock has reached the deadline the
  wait has returned, what it returns is a state the row really had, and it reports stop-requested
  only after the deadline.
\<close>

theorem await_stop_settled_honest:
  assumes "\<exists>clock \<in> fst ` set obs. start + stop_wait \<le> clock"
  shows "\<exists>res. await_stop_settled stop_wait g u c start w obs = Some res \<and>
    (\<forall>t. res = Inr t \<longrightarrow>
       (\<exists>w' \<in> insert w (snd ` set obs). \<exists>r. find_owned g u c (w_db w') = Some r \<and> t = from_row r) \<and>
       (snap_status t = STOP_REQUESTED \<longrightarrow> (\<exists>clock \<in> fst ` set obs. start + stop_wait \<le> clock)))"
proof (cases "find_owned g u c (w_db w)")
  case None
  then show ?thesis by (simp add: await_stop_settled_def require_owned_run)
next
  case (Some r)
  obtain res where "await_loop (start + stop_wait) g u c obs (from_row r) = Some res"
    using assms await_loop_returns [of _ _ obs "start + stop_wait" g u c "from_row r"] by fastforce
  with Some await_loop_honest [of "start + stop_wait" g u c obs "from_row r"] show ?thesis
    by (fastforce simp: await_stop_settled_def require_owned_run)
qed

theorem await_stop_settled_honest_witness:
  "\<exists>res. await_stop_settled 2 1 3 7 100 demo_running [(103, demo_running)] = Some res"
  using await_stop_settled_honest [of "[(103, demo_running)]" 100 2 1 3 7 demo_running] by auto

end
