(* ===== verification/PyText.thy ===== *)
theory PyText
  imports Prelude
begin

text \<open>
  The texts the code reads and writes with the standard library: decimal integers (\<^verbatim>\<open>str\<close> and
  \<^verbatim>\<open>int\<close>), \<^verbatim>\<open>str.partition\<close>, \<^verbatim>\<open>str.lower\<close> and \<^verbatim>\<open>json.dumps\<close>, on ASCII strings.
\<close>

section \<open>Python integers as text\<close>

fun nat_text :: "nat \<Rightarrow> string" where
  "nat_text n = (if n < 10 then [char_of (48 + n)] else nat_text (n div 10) @ [char_of (48 + n mod 10)])"

declare nat_text.simps [simp del]

definition int_text :: "int \<Rightarrow> string" where
  "int_text i = (if i < 0 then CHR ''-'' # nat_text (nat (- i)) else nat_text (nat i))"

definition is_digit :: "char \<Rightarrow> bool" where
  "is_digit c = (48 \<le> (of_char c :: nat) \<and> (of_char c :: nat) \<le> 57)"

definition digit_value :: "char \<Rightarrow> nat" where
  "digit_value c = of_char c - 48"

text \<open>Digits with single underscores between them, and at most 4300 of them, as \<^verbatim>\<open>int()\<close> reads.\<close>

definition read_digits :: "string \<Rightarrow> int option" where
  "read_digits s =
     (let groups = split_on (CHR ''_'') s; digits = concat groups
      in if list_all (\<lambda>g. g \<noteq> [] \<and> list_all is_digit g) groups \<and> length digits \<le> 4300
         then Some (int (foldl (\<lambda>n c. 10 * n + digit_value c) 0 digits)) else None)"

text \<open>\<^verbatim>\<open>int()\<close> strips only the spaces of C's \<^verbatim>\<open>isspace\<close> from an ASCII text.\<close>

definition int_space :: "char \<Rightarrow> bool" where
  "int_space c = (let n = (of_char c :: nat) in n = 32 \<or> (9 \<le> n \<and> n \<le> 13))"

definition int_strip :: "string \<Rightarrow> string" where
  "int_strip s = rev (dropWhile int_space (rev (dropWhile int_space s)))"

definition py_int :: "string \<Rightarrow> int option" where
  "py_int text =
     (case int_strip text of
        [] \<Rightarrow> None
      | c # s \<Rightarrow> if c = CHR ''-'' then map_option uminus (read_digits s)
                 else if c = CHR ''+'' then read_digits s
                 else read_digits (c # s))"

text \<open>\<^verbatim>\<open>str.partition\<close> and \<^verbatim>\<open>str.rpartition\<close> for a separator of one character.\<close>

definition partition_str :: "char \<Rightarrow> string \<Rightarrow> string \<times> string \<times> string" where
  "partition_str c s =
     (if c \<in> set s then (takeWhile (\<lambda>x. x \<noteq> c) s, [c], tl (dropWhile (\<lambda>x. x \<noteq> c) s)) else (s, [], []))"

definition rpartition_str :: "char \<Rightarrow> string \<Rightarrow> string \<times> string \<times> string" where
  "rpartition_str c s =
     (if c \<in> set s
      then (rev (tl (dropWhile (\<lambda>x. x \<noteq> c) (rev s))), [c], rev (takeWhile (\<lambda>x. x \<noteq> c) (rev s)))
      else ([], [], s))"

text \<open>\<^verbatim>\<open>str.lower\<close>, \<^verbatim>\<open>str.upper\<close>, and \<^verbatim>\<open>part in s\<close>.\<close>

definition lower_char :: "char \<Rightarrow> char" where
  "lower_char c = (let n = (of_char c :: nat) in if 65 \<le> n \<and> n \<le> 90 then char_of (n + 32) else c)"

definition lower :: "string \<Rightarrow> string" where
  "lower s = map lower_char s"

definition upper_char :: "char \<Rightarrow> char" where
  "upper_char c = (let n = (of_char c :: nat) in if 97 \<le> n \<and> n \<le> 122 then char_of (n - 32) else c)"

fun occurs_in :: "string \<Rightarrow> string \<Rightarrow> bool" where
  "occurs_in p [] = (p = [])"
| "occurs_in p (c # s) = (prefix p (c # s) \<or> occurs_in p s)"

section \<open>JSON texts\<close>

text \<open>
  \<^verbatim>\<open>json.dumps\<close> with its default settings: everything outside the printable ASCII characters is
  escaped. A date has no encoding (\<^verbatim>\<open>TypeError\<close>, here \<open>None\<close>); a tuple is encoded as a list.
\<close>

definition hex_digit :: "nat \<Rightarrow> char" where
  "hex_digit n = (if n < 10 then char_of (48 + n) else char_of (87 + n))"

definition json_char :: "char \<Rightarrow> string" where
  "json_char c =
     (let n = (of_char c :: nat) in
      if n = 34 then [char_of (92::nat), char_of (34::nat)]
      else if n = 92 then [char_of (92::nat), char_of (92::nat)]
      else if n = 10 then [char_of (92::nat), CHR ''n'']
      else if n = 13 then [char_of (92::nat), CHR ''r'']
      else if n = 9 then [char_of (92::nat), CHR ''t'']
      else if n = 12 then [char_of (92::nat), CHR ''f'']
      else if n = 8 then [char_of (92::nat), CHR ''b'']
      else if 32 \<le> n \<and> n \<le> 126 then [c]
      else char_of (92::nat) # ''u00'' @ [hex_digit (n div 16), hex_digit (n mod 16)])"

definition json_string :: "string \<Rightarrow> string" where
  "json_string s = [char_of (34::nat)] @ concat (map json_char s) @ [char_of (34::nat)]"

fun join_comma :: "string list \<Rightarrow> string" where
  "join_comma [] = []"
| "join_comma [x] = x"
| "join_comma (x # y # ys) = x @ '', '' @ join_comma (y # ys)"

fun sequence_opt :: "'a option list \<Rightarrow> 'a list option" where
  "sequence_opt [] = Some []"
| "sequence_opt (None # xs) = None"
| "sequence_opt (Some x # xs) = map_option (Cons x) (sequence_opt xs)"

fun json_dumps :: "pyval \<Rightarrow> string option" where
  "json_dumps PNone = Some ''null''"
| "json_dumps (PBool b) = Some (if b then ''true'' else ''false'')"
| "json_dumps (PInt i) = Some (int_text i)"
| "json_dumps (PStr s) = Some (json_string s)"
| "json_dumps (PDate d) = None"
| "json_dumps (PList xs) =
     map_option (\<lambda>ts. ''['' @ join_comma ts @ '']'') (sequence_opt (map json_dumps xs))"
| "json_dumps (PTuple xs) =
     map_option (\<lambda>ts. ''['' @ join_comma ts @ '']'') (sequence_opt (map json_dumps xs))"
| "json_dumps (PDict d) =
     map_option (\<lambda>ts. ''{'' @ join_comma ts @ ''}'')
       (sequence_opt (map (\<lambda>(k, v). map_option (\<lambda>t. json_string k @ '': '' @ t) (json_dumps v)) d))"

section \<open>Texts of integers\<close>

lemma is_digit_char_of [simp]: "(n::nat) < 10 \<Longrightarrow> is_digit (char_of (48 + n))"
  by (simp add: is_digit_def)

lemma digit_value_char_of [simp]: "(n::nat) < 10 \<Longrightarrow> digit_value (char_of (48 + n)) = n"
  by (simp add: digit_value_def)

lemma nat_text_digits: "list_all is_digit (nat_text n) \<and> nat_text n \<noteq> []"
proof (induction n rule: nat_text.induct)
  case (1 n)
  then show ?case by (subst (1 2) nat_text.simps) simp
qed

lemma nat_text_value: "foldl (\<lambda>m c. 10 * m + digit_value c) 0 (nat_text n) = n"
proof (induction n rule: nat_text.induct)
  case (1 n)
  then show ?case by (subst nat_text.simps) simp
qed

lemma digit_not_special:
  "is_digit c \<Longrightarrow> c \<noteq> CHR ''_'' \<and> c \<noteq> CHR '':'' \<and> c \<noteq> CHR ''-'' \<and> c \<noteq> CHR ''+'' \<and> \<not> int_space c"
  by (auto simp: is_digit_def int_space_def Let_def)

lemma read_digits_nat_text:
  "length (nat_text n) \<le> 4300 \<Longrightarrow> read_digits (nat_text n) = Some (int n)"
proof -
  assume "length (nat_text n) \<le> 4300"
  moreover have "CHR ''_'' \<notin> set (nat_text n)"
    using nat_text_digits [of n] digit_not_special by (auto simp: list_all_iff)
  ultimately show ?thesis
    using nat_text_digits [of n] nat_text_value [of n]
    by (simp add: read_digits_def split_on_no_sep)
qed

lemma dropWhile_none: "(\<And>c. c \<in> set s \<Longrightarrow> \<not> P c) \<Longrightarrow> dropWhile P s = s"
  by (cases s) auto

lemma int_strip_no_space: "(\<And>c. c \<in> set s \<Longrightarrow> \<not> int_space c) \<Longrightarrow> int_strip s = s"
proof -
  assume "\<And>c. c \<in> set s \<Longrightarrow> \<not> int_space c"
  then have "dropWhile int_space s = s" and "dropWhile int_space (rev s) = rev s"
    by (auto intro: dropWhile_none)
  then show ?thesis by (simp add: int_strip_def)
qed

lemma int_text_chars: "c \<in> set (int_text i) \<Longrightarrow> is_digit c \<or> c = CHR ''-''"
  using nat_text_digits by (auto simp: int_text_def list_all_iff split: if_splits)

lemma py_int_int_text:
  assumes "length (int_text i) \<le> 4300"
  shows "py_int (int_text i) = Some i"
proof -
  have "int_strip (int_text i) = int_text i"
    by (rule int_strip_no_space) (auto dest!: int_text_chars dest: digit_not_special simp: int_space_def Let_def)
  then show ?thesis
  proof (cases "i < 0")
    case True
    with \<open>int_strip _ = _\<close> assms show ?thesis
      by (simp add: py_int_def int_text_def read_digits_nat_text)
  next
    case False
    obtain c s where cs: "nat_text (nat i) = c # s" using nat_text_digits by (cases "nat_text (nat i)") auto
    then have "is_digit c" using nat_text_digits [of "nat i"] by simp
    with False cs \<open>int_strip _ = _\<close> assms read_digits_nat_text [of "nat i"] digit_not_special show ?thesis
      by (simp add: py_int_def int_text_def)
  qed
qed

lemma rpartition_append:
  "c \<notin> set t \<Longrightarrow> rpartition_str c (s @ c # t) = (s, [c], t)"
  by (simp add: rpartition_str_def takeWhile_append dropWhile_append)

lemma partition_append:
  "c \<notin> set s \<Longrightarrow> partition_str c (s @ c # t) = (s, [c], t)"
  by (auto simp: partition_str_def takeWhile_append dropWhile_append)

section \<open>str() of dynamic values\<close>

text \<open>
  \<^verbatim>\<open>repr\<close> of a text: quoted with double quotes when it contains a single one and no double one,
  control characters escaped. A date prints its fields when it stands in a container.
\<close>

definition repr_char :: "nat \<Rightarrow> char \<Rightarrow> string" where
  "repr_char quote c =
     (let n = (of_char c :: nat) in
      if n = quote \<or> n = 92 then [char_of (92::nat), c]
      else if n = 10 then [char_of (92::nat), CHR ''n'']
      else if n = 13 then [char_of (92::nat), CHR ''r'']
      else if n = 9 then [char_of (92::nat), CHR ''t'']
      else if 32 \<le> n \<and> n \<le> 126 then [c]
      else char_of (92::nat) # ''x'' @ [hex_digit (n div 16), hex_digit (n mod 16)])"

definition repr_str :: "string \<Rightarrow> string" where
  "repr_str s =
     (let quote = (if CHR 0x27 \<in> set s \<and> CHR 0x22 \<notin> set s then 34 else 39 :: nat)
      in [char_of quote] @ concat (map (repr_char quote) s) @ [char_of quote])"

definition date_repr :: "string \<Rightarrow> string" where
  "date_repr d =
     ''datetime.date('' @
       join_comma (map (\<lambda>f. case py_int f of Some i \<Rightarrow> int_text i | None \<Rightarrow> f) (split_on (CHR ''-'') d)) @ '')''"

fun py_repr :: "pyval \<Rightarrow> string" where
  "py_repr PNone = ''None''"
| "py_repr (PBool b) = (if b then ''True'' else ''False'')"
| "py_repr (PInt i) = int_text i"
| "py_repr (PStr s) = repr_str s"
| "py_repr (PDate d) = date_repr d"
| "py_repr (PList xs) = ''['' @ join_comma (map py_repr xs) @ '']''"
| "py_repr (PTuple xs) =
     (if length xs = 1 then ''('' @ concat (map py_repr xs) @ '',)'' else ''('' @ join_comma (map py_repr xs) @ '')'')"
| "py_repr (PDict d) = ''{'' @ join_comma (map (\<lambda>(k, v). repr_str k @ '': '' @ py_repr v) d) @ ''}''"

fun py_text :: "pyval \<Rightarrow> string" where
  "py_text (PStr s) = s"
| "py_text (PDate d) = d"
| "py_text v = py_repr v"

text \<open>\<^verbatim>\<open>int(v or otherwise)\<close>: \<open>None\<close> where it raises.\<close>

definition py_int_or :: "pyval \<Rightarrow> int \<Rightarrow> int option" where
  "py_int_or v otherwise =
     (if \<not> truthy v then Some otherwise
      else case v of
        PInt i \<Rightarrow> Some i
      | PBool b \<Rightarrow> Some 1
      | PStr s \<Rightarrow> py_int s
      | _ \<Rightarrow> None)"

end
