(* ===== verification/GenerationReaper.thy ===== *)
theory GenerationReaper
  imports GenerationCommands PyText
begin

text \<open>
  \<^verbatim>\<open>app/core/producer_identity.py\<close> and \<^verbatim>\<open>app/services/generation_reaper.py\<close>: who is working on a turn,
  and the reclaiming of turns whose worker is gone. The process table of \<^verbatim>\<open>psutil\<close> is an argument
  (\<open>None\<close> where the package is not installed): \<open>pt_exists\<close> is \<^verbatim>\<open>pid_exists\<close>, \<open>pt_started\<close> the creation
  time of a process in whole seconds, \<open>None\<close> when reading it raises. The repository the reaper works
  on is an argument too, as its protocol \<^verbatim>\<open>_Reclaimable\<close> says; the locale \<open>reclaimable\<close> states what
  the reaper relies on and the generation repository provides it.
\<close>

section \<open>Producer tokens\<close>

record producer_token =
  pt_hostname :: string
  pt_pid :: int
  pt_started_at :: int

record process_table =
  pt_exists :: "int \<Rightarrow> bool"
  pt_started :: "int \<Rightarrow> int option"

record host =
  host_name :: string
  host_pid :: int
  host_psutil :: "process_table option"

definition UNKNOWN_START :: int where
  "UNKNOWN_START = 0"

definition SEPARATOR :: char where
  "SEPARATOR = CHR '':''"

definition process_started_at :: "host \<Rightarrow> int \<Rightarrow> int" where
  "process_started_at h pid =
     (case host_psutil h of
        None \<Rightarrow> UNKNOWN_START
      | Some t \<Rightarrow> (case pt_started t pid of None \<Rightarrow> UNKNOWN_START | Some s \<Rightarrow> s))"

definition token_text :: "string \<Rightarrow> int \<Rightarrow> int \<Rightarrow> string" where
  "token_text hostname pid started =
     hostname @ [SEPARATOR] @ int_text pid @ [SEPARATOR] @ int_text started"

definition current_producer_token :: "host \<Rightarrow> string" where
  "current_producer_token h = token_text (host_name h) (host_pid h) (process_started_at h (host_pid h))"

definition parse_producer_token :: "string option \<Rightarrow> producer_token option" where
  "parse_producer_token token =
     (if \<not> truthy_str token then None
      else
        let (hostname, _, remainder) = partition_str SEPARATOR (the token);
            (pid_text, separator, started_text) = rpartition_str SEPARATOR remainder
        in if hostname = [] \<or> separator = [] then None
           else case py_int pid_text of
             None \<Rightarrow> None
           | Some pid \<Rightarrow>
               (case py_int started_text of
                  None \<Rightarrow> None
                | Some started_at \<Rightarrow>
                    if pid \<le> 0 then None
                    else Some \<lparr>pt_hostname = hostname, pt_pid = pid, pt_started_at = started_at\<rparr>))"

text \<open>\<open>Some False\<close> is the only answer that proves the process gone; \<open>None\<close> is \<^verbatim>\<open>unknown\<close>.\<close>

definition is_producer_alive :: "host \<Rightarrow> string option \<Rightarrow> bool option" where
  "is_producer_alive h token =
     (case parse_producer_token token of
        None \<Rightarrow> None
      | Some parsed \<Rightarrow>
          if pt_hostname parsed \<noteq> host_name h then None
          else if pt_started_at parsed = UNKNOWN_START then None
          else case host_psutil h of
            None \<Rightarrow> None
          | Some t \<Rightarrow>
              if \<not> pt_exists t (pt_pid parsed) then Some False
              else let started_at = process_started_at h (pt_pid parsed)
                   in if started_at = UNKNOWN_START then None
                      else Some (started_at = pt_started_at parsed))"

section \<open>The reaper\<close>

definition TERMINAL_REASON_LOST :: string where
  "TERMINAL_REASON_LOST = ''producer_lost''"

definition TERMINAL_REASON_SHUTDOWN :: string where
  "TERMINAL_REASON_SHUTDOWN = ''producer_shutdown''"

text \<open>The loop over the tokens: the dead ones in order, and how many could not be judged.\<close>

fun judge_tokens :: "host \<Rightarrow> string option list \<Rightarrow> string list \<times> nat" where
  "judge_tokens h [] = ([], 0)"
| "judge_tokens h (token # tokens) =
     (let (dead, unknown) = judge_tokens h tokens; liveness = is_producer_alive h token
      in if liveness = Some False \<and> truthy_str token then (the token # dead, unknown)
         else if liveness = None then (dead, Suc unknown)
         else (dead, unknown))"

definition reclaim_orphaned_generations ::
  "host \<Rightarrow> ('s, 'e, string option list) action \<Rightarrow> (string list \<Rightarrow> string \<Rightarrow> ('s, 'e, nat) action)
     \<Rightarrow> ('s, 'e, nat) action" where
  "reclaim_orphaned_generations h active_tokens fail_by =
     bind_act active_tokens (\<lambda>tokens.
       if tokens = [] then return_act 0
       else let (dead, unknown) = judge_tokens h tokens
            in if dead = [] then return_act 0 else fail_by dead TERMINAL_REASON_LOST)"

definition terminalize_own_generations ::
  "host \<Rightarrow> (string list \<Rightarrow> string \<Rightarrow> ('s, 'e, nat) action) \<Rightarrow> ('s, 'e, nat) action" where
  "terminalize_own_generations h fail_by =
     fail_by [current_producer_token h] TERMINAL_REASON_SHUTDOWN"

lemma int_text_no_separator: "SEPARATOR \<notin> set (int_text i)"
  using int_text_chars [of SEPARATOR i] digit_not_special by (auto simp: SEPARATOR_def is_digit_def)

text \<open>
  Producer tokens round-trip: the token of a process parses back to its host name, pid and start
  time, for a host name without the separator.
\<close>

theorem producer_token_roundtrip:
  assumes "SEPARATOR \<notin> set hostname" and "hostname \<noteq> []" and "0 < pid"
    and "length (int_text pid) \<le> 4300" and "length (int_text started) \<le> 4300"
  shows "parse_producer_token (Some (token_text hostname pid started)) =
    Some \<lparr>pt_hostname = hostname, pt_pid = pid, pt_started_at = started\<rparr>"
proof -
  have "partition_str SEPARATOR (token_text hostname pid started) =
      (hostname, [SEPARATOR], int_text pid @ SEPARATOR # int_text started)"
    using partition_append [OF assms(1)] by (simp add: token_text_def)
  moreover have "rpartition_str SEPARATOR (int_text pid @ SEPARATOR # int_text started) =
      (int_text pid, [SEPARATOR], int_text started)"
    by (rule rpartition_append [OF int_text_no_separator])
  moreover have "truthy_str (Some (token_text hostname pid started))"
    by (simp add: token_text_def)
  ultimately show ?thesis
    using assms(2,3) py_int_int_text [OF assms(4)] py_int_int_text [OF assms(5)]
    by (simp add: parse_producer_token_def)
qed

theorem producer_token_roundtrip_witness:
  "parse_producer_token (Some ''web-1:4242:1700000000'') =
    Some \<lparr>pt_hostname = ''web-1'', pt_pid = 4242, pt_started_at = 1700000000\<rparr>"
proof -
  have "int_text 4242 = ''4242''" and "int_text 1700000000 = ''1700000000''"
    by (simp_all add: int_text_def nat_text.simps char_of_def bit_Suc_0_iff)
  then have "token_text ''web-1'' 4242 1700000000 = ''web-1:4242:1700000000''"
    and "length (int_text 4242) \<le> 4300" and "length (int_text 1700000000) \<le> 4300"
    by (simp_all add: token_text_def SEPARATOR_def)
  then show ?thesis
    using producer_token_roundtrip [of "''web-1''" 4242 1700000000] by (simp add: SEPARATOR_def)
qed

lemma read_digits_separator: "SEPARATOR \<in> set s \<Longrightarrow> read_digits s = None"
proof -
  have "concat (split_on c s) = filter (\<lambda>x. x \<noteq> c) s" for c s
    by (induction s) (auto split: list.splits)
  moreover assume "SEPARATOR \<in> set s"
  ultimately have sep: "SEPARATOR \<in> set (concat (split_on (CHR ''_'') s))"
    by (simp add: SEPARATOR_def)
  have "\<not> list_all (list_all is_digit) (split_on (CHR ''_'') s)"
  proof
    assume "list_all (list_all is_digit) (split_on (CHR ''_'') s)"
    with sep have "is_digit SEPARATOR" by (auto simp: list_all_iff)
    then show False by (simp add: SEPARATOR_def is_digit_def)
  qed
  then show "read_digits s = None" by (auto simp: read_digits_def Let_def list_all_iff)
qed

lemma int_strip_keeps: "c \<in> set s \<Longrightarrow> \<not> int_space c \<Longrightarrow> c \<in> set (int_strip s)"
proof -
  assume "c \<in> set s" and c: "\<not> int_space c"
  have keep: "c \<in> set t \<Longrightarrow> c \<in> set (dropWhile int_space t)" for t
    using c by (induction t) auto
  with \<open>c \<in> set s\<close> show ?thesis by (simp add: int_strip_def keep)
qed

lemma py_int_separator: "SEPARATOR \<in> set s \<Longrightarrow> py_int s = None"
  using int_strip_keeps [of SEPARATOR s]
  by (auto simp: py_int_def SEPARATOR_def int_space_def read_digits_separator [unfolded SEPARATOR_def]
      split: list.split)

text \<open>
  A token whose host name contains the separator is never parsed, although the parser means to
  split from the right so that such a name cannot shift the numeric fields: it splits the host name
  off from the left. Such a host's own turns can never be judged.
\<close>

theorem separator_in_hostname_unparsed:
  assumes "SEPARATOR \<in> set hostname"
  shows "parse_producer_token (Some (token_text hostname pid started)) = None"
proof -
  obtain h1 h2 where h: "hostname = h1 @ SEPARATOR # h2" "SEPARATOR \<notin> set h1"
    using split_list_first [OF assms] by blast
  have "partition_str SEPARATOR (token_text hostname pid started) =
      (h1, [SEPARATOR], (h2 @ SEPARATOR # int_text pid) @ SEPARATOR # int_text started)"
    using partition_append [OF h(2)] by (simp add: h(1) token_text_def)
  moreover have "rpartition_str SEPARATOR ((h2 @ SEPARATOR # int_text pid) @ SEPARATOR # int_text started) =
      (h2 @ SEPARATOR # int_text pid, [SEPARATOR], int_text started)"
    by (rule rpartition_append [OF int_text_no_separator])
  moreover have "py_int (h2 @ SEPARATOR # int_text pid) = None"
    by (rule py_int_separator) simp
  ultimately show ?thesis by (simp add: parse_producer_token_def del: append_assoc)
qed

theorem separator_in_hostname_unparsed_witness:
  "parse_producer_token (Some (token_text ''fe80::1'' 4242 1700000000)) = None"
  using separator_in_hostname_unparsed [of "''fe80::1''"] by (simp add: SEPARATOR_def)

lemma judged:
  "set (fst (judge_tokens h ts)) =
     {s. Some s \<in> set ts \<and> s \<noteq> [] \<and> is_producer_alive h (Some s) = Some False}"
proof (induction ts)
  case Nil
  then show ?case by simp
next
  case (Cons t ts)
  have step: "set (fst (judge_tokens h (t # ts))) =
      (if is_producer_alive h t = Some False \<and> truthy_str t then {the t} else {}) \<union>
      set (fst (judge_tokens h ts))"
    by (simp add: Let_def split: prod.split)
  show ?case
    unfolding step Cons.IH by (cases t) (auto simp: truthy_str_def)
qed

section \<open>The contract of a reclaimable store\<close>

text \<open>
  What the reaper relies on: the tokens it is given are those of the active turns, and failing by
  producer takes out of the active turns exactly the ones whose token was named (an empty token names
  nobody). \<open>active\<close> lists the active turns with their conversation and token.
\<close>

locale reclaimable =
  fixes active :: "'db \<Rightarrow> (uuid \<times> string option) set"
    and active_tokens :: "('db, 'e, string option list) action"
    and fail_by :: "string list \<Rightarrow> string \<Rightarrow> ('db, 'e, nat) action"
    and wf :: "'db \<Rightarrow> bool"
  assumes tokens_read: "\<exists>ts. active_tokens db = (Inr ts, db) \<and> set ts = snd ` active db"
    and fail_total: "\<exists>n db'. fail_by ts reason db = (Inr n, db')"
    and fail_active: "active (snd (fail_by ts reason db)) =
      {(c, t) \<in> active db. \<not> (\<exists>s \<in> set ts. s \<noteq> [] \<and> t = Some s)}"
    and fail_wf: "wf db \<Longrightarrow> wf (snd (fail_by ts reason db))"
begin

text \<open>The reaper takes out exactly the turns of the producers it can prove gone.\<close>

lemma reclaim_active:
  "active (snd (reclaim_orphaned_generations h active_tokens fail_by db)) =
     {(c, t) \<in> active db. is_producer_alive h t \<noteq> Some False}"
proof -
  obtain ts where ts: "active_tokens db = (Inr ts, db)" "set ts = snd ` active db"
    using tokens_read by blast
  have none: "is_producer_alive h None = None" "is_producer_alive h (Some []) = None"
    by (simp_all add: is_producer_alive_def parse_producer_token_def)
  have dead: "(\<exists>s \<in> set (fst (judge_tokens h ts)). s \<noteq> [] \<and> t = Some s) \<longleftrightarrow>
      is_producer_alive h t = Some False" if "(c, t) \<in> active db" for c t
    using that ts(2) none by (cases t) (auto simp: judged image_iff, force)
  show ?thesis
  proof (cases "ts = [] \<or> fst (judge_tokens h ts) = []")
    case True
    with ts dead have "snd (reclaim_orphaned_generations h active_tokens fail_by db) = db"
      by (auto simp: reclaim_orphaned_generations_def bind_act_app split: prod.split)
    with True ts dead show ?thesis by auto
  next
    case False
    with ts have "reclaim_orphaned_generations h active_tokens fail_by db =
        fail_by (fst (judge_tokens h ts)) TERMINAL_REASON_LOST db"
      by (auto simp: reclaim_orphaned_generations_def bind_act_app split: prod.split)
    with dead show ?thesis by (auto simp: fail_active)
  qed
qed

lemma reclaim_wf: "wf db \<Longrightarrow> wf (snd (reclaim_orphaned_generations h active_tokens fail_by db))"
proof -
  assume "wf db"
  obtain ts where "active_tokens db = (Inr ts, db)" using tokens_read by blast
  with \<open>wf db\<close> show ?thesis
    by (auto simp: reclaim_orphaned_generations_def bind_act_app fail_wf split: prod.split)
qed

lemma terminalize_active:
  "current_producer_token h \<noteq> [] \<Longrightarrow>
   active (snd (terminalize_own_generations h fail_by db)) =
     {(c, t) \<in> active db. t \<noteq> Some (current_producer_token h)}"
  by (auto simp: terminalize_own_generations_def fail_active)

end

definition active_turns :: "generation_db \<Rightarrow> (uuid \<times> string option) set" where
  "active_turns db =
     (\<lambda>r. (gen_conversation_id r, gen_producer_token r)) ` set (filter is_active (db_generations db))"

interpretation generations: reclaimable active_turns aget_active_producer_tokens
  "afail_active_by_producer now" db_wf for now
proof unfold_locales
  fix db
  show "\<exists>ts. aget_active_producer_tokens db = (Inr ts, db) \<and> set ts = snd ` active_turns db"
    by (simp add: aget_active_producer_tokens_def active_turns_def image_image)
next
  fix ts reason db
  show "\<exists>n db'. afail_active_by_producer now ts reason db = (Inr n, db')"
    by (simp add: afail_active_by_producer_def Let_def)
next
  fix ts :: "string list" and reason db
  let ?t = "filter (\<lambda>t. t \<noteq> []) ts"
  have "\<not> is_active (reclaimed now reason r)" for r by (simp add: is_active_def status_sets)
  moreover have "produced_by ?t r \<longleftrightarrow> (\<exists>s \<in> set ts. s \<noteq> [] \<and> gen_producer_token r = Some s) \<and> is_active r" for r
    by (auto simp: produced_by_def split: option.split)
  ultimately show "active_turns (snd (afail_active_by_producer now ts reason db)) =
      {(c, t) \<in> active_turns db. \<not> (\<exists>s \<in> set ts. s \<noteq> [] \<and> t = Some s)}"
    by (cases "?t = []") (auto simp: afail_active_by_producer_def active_turns_def Let_def filter_empty_conv
        image_iff split: if_splits)
next
  fix ts reason db
  assume "db_wf db"
  then show "db_wf (snd (afail_active_by_producer now ts reason db))"
    by (auto simp: afail_active_by_producer_def Let_def db_wf_def is_active_def status_sets
        intro!: unique_indexes_map split: if_splits)
qed

section \<open>Properties of the reaper\<close>

definition after_reclaim :: "host \<Rightarrow> int \<Rightarrow> generation_db \<Rightarrow> generation_db" where
  "after_reclaim h now db =
     snd (reclaim_orphaned_generations h aget_active_producer_tokens (afail_active_by_producer now) db)"

lemma active_conversation_blocks:
  assumes "db_wf db"
  shows "fst (acreate new_id me now c db) =
    (if new_id \<in> gen_id ` set (db_generations db) \<or>
        cg_logical_turn_id c \<in> gen_logical_turn_id ` set (db_generations db) \<or>
        cg_conversation_id c \<in> fst ` active_turns db
     then Inl IntegrityError else Inr (from_row (new_generation new_id me now c)))"
proof -
  have "is_active (new_generation new_id me now c)"
    by (simp add: is_active_def new_generation_def status_sets)
  moreover have "gen_id (new_generation new_id me now c) = new_id"
      "gen_logical_turn_id (new_generation new_id me now c) = cg_logical_turn_id c"
      "gen_conversation_id (new_generation new_id me now c) = cg_conversation_id c"
    by (simp_all add: new_generation_def)
  moreover have "fst ` active_turns db =
      gen_conversation_id ` set (filter is_active (db_generations db))"
    by (simp add: active_turns_def image_image)
  ultimately show ?thesis
    using assms by (auto simp: acreate_def Let_def unique_indexes_def db_wf_def)
qed

text \<open>
  C4: the startup reaper ends exactly the active turns whose producer it can prove gone, and leaves
  every turn of a live or unknown producer active. It thereby unblocks their conversations: a
  conversation that refused every new turn with the uniqueness error accepts one afterwards.
\<close>

theorem reclaim_unblocks_dead_only:
  assumes "reachable (w, S)"
    and "(c, t) \<in> active_turns (w_db w)" and "is_producer_alive h t = Some False"
    and "cg_conversation_id cmd = c"
    and "new_id \<notin> gen_id ` set (db_generations (after_reclaim h now (w_db w)))"
    and "cg_logical_turn_id cmd \<notin> gen_logical_turn_id `
      set (db_generations (after_reclaim h now (w_db w)))"
  shows "active_turns (after_reclaim h now (w_db w)) =
      {(c, t) \<in> active_turns (w_db w). is_producer_alive h t \<noteq> Some False} \<and>
    fst (acreate new_id me now2 cmd (w_db w)) = Inl IntegrityError \<and>
    fst (acreate new_id me now2 cmd (after_reclaim h now (w_db w))) =
      Inr (from_row (new_generation new_id me now2 cmd))"
proof -
  note wf = lifecycle_invD(1) [OF reachable_inv [OF assms(1)]]
  have wf': "db_wf (after_reclaim h now (w_db w))"
    unfolding after_reclaim_def by (rule generations.reclaim_wf [OF wf])
  have active: "active_turns (after_reclaim h now (w_db w)) =
      {(c, t) \<in> active_turns (w_db w). is_producer_alive h t \<noteq> Some False}"
    unfolding after_reclaim_def by (rule generations.reclaim_active)
  have "t' = t" if "(c, t') \<in> active_turns (w_db w)" for t'
    using that assms(2) wf unfolding active_turns_def db_wf_def by (auto dest: unique_active)
  with assms(3) active have "c \<notin> fst ` active_turns (after_reclaim h now (w_db w))" by auto
  moreover have "c \<in> fst ` active_turns (w_db w)" using assms(2) by force
  ultimately show ?thesis
    using active assms(4-6) by (auto simp: active_conversation_blocks [OF wf] active_conversation_blocks [OF wf'])
qed

definition demo_host :: host where
  "demo_host = \<lparr>host_name = ''h'', host_pid = 8,
     host_psutil = Some \<lparr>pt_exists = (\<lambda>pid. pid = 8), pt_started = (\<lambda>pid. Some 20)\<rparr>\<rparr>"

lemma demo_dead: "is_producer_alive demo_host (Some ''h:5:9'') = Some False"
  by code_simp

theorem reclaim_unblocks_dead_only_witness:
  "active_turns (after_reclaim demo_host 200 (w_db demo_running)) = {} \<and>
   (\<exists>s. fst (acreate 9 ''h:8:20'' 201 (demo_create\<lparr>cg_logical_turn_id := ''t9''\<rparr>)
     (after_reclaim demo_host 200 (w_db demo_running))) = Inr s)"
proof -
  have turns: "active_turns (w_db demo_running) = {(7, Some ''h:5:9'')}" by code_simp
  have rows: "9 \<notin> gen_id ` set (db_generations (after_reclaim demo_host 200 (w_db demo_running)))"
    "cg_logical_turn_id (demo_create\<lparr>cg_logical_turn_id := ''t9''\<rparr>) \<notin> gen_logical_turn_id `
      set (db_generations (after_reclaim demo_host 200 (w_db demo_running)))"
    by code_simp+
  from reclaim_unblocks_dead_only [OF demo_reachable(2) _ demo_dead _ rows, of 7 "''h:8:20''" 201]
  show ?thesis by (auto simp: turns demo_dead demo_create_def)
qed

text \<open>
  At shutdown a process ends exactly its own active turns, never a peer's.
\<close>

theorem terminalize_own_turns_only:
  "active_turns (snd (terminalize_own_generations h (afail_active_by_producer now) db)) =
     {(c, t) \<in> active_turns db. t \<noteq> Some (current_producer_token h)}"
  by (rule generations.terminalize_active) (simp add: current_producer_token_def token_text_def)

end
