(* ===== verification/WorkflowContracts.thy ===== *)
theory WorkflowContracts
  imports PyText
begin

text \<open>
  The control-plane vocabulary of one turn: \<^verbatim>\<open>app/ai/workflow/contracts.py\<close> (the frozen values the
  graph passes around), \<^verbatim>\<open>state.py\<close> (the reducers of the graph state and the checkpoint thread id)
  and \<^verbatim>\<open>errors.py\<close> (sanitised terminal errors). Of a message only what the control plane reads is
  kept: its kind, its text, the ids of the calls it requests (\<open>None\<close> where a call has no id) or
  answers. Of an artifact, image or evidence record only its id is kept (\<open>None\<close> where it has none).
\<close>

section \<open>Contracts\<close>

datatype chat_message =
    HumanMessage string
  | SystemMessage string
  | AIMessage string "string option list"
  | ToolMessage string string

datatype transition_source = FromRouter | FromHandoff | FromResume

record routing_decision =
  rd_agent_id :: string
  rd_confidence :: rat
  rd_reason :: string
  rd_requires_web :: bool
  rd_research_mode :: string

record turn_identity =
  ti_request_id :: string
  ti_turn_id :: string
  ti_checkpoint_thread_id :: string

record agent_transition =
  at_from_agent_id :: "string option"
  at_to_agent_id :: string
  at_source :: transition_source
  at_tool_call_id :: "string option"

record pending_transition =
  pt_from_agent_id :: string
  pt_to_agent_id :: string
  pt_tool_call_id :: string
  pt_tool_message_id :: string
  pt_reason :: string

record web_source =
  ws_url :: "string option"
  ws_source_id :: "string option"

record outcome_provenance =
  op_output_policy_ids :: "string list"
  op_evidence :: "string option list"
  op_artifacts :: "string option list"
  op_images :: "string option list"
  op_web_sources :: "web_source list"
  op_rich_items :: "string option list"
  op_private_messages :: "chat_message list"

text \<open>
  The response: its text, the metadata keys the workflow reads (\<open>rm_images\<close> the ids of the published
  images, the canvas values as they are), its artifacts and its error.
\<close>

record response_metadata =
  rm_interrupt :: bool
  rm_images :: "string option list"
  rm_canvas_artifact :: pyval
  rm_canvas_update :: pyval
  rm_mutation_outcome_unknown :: bool
  rm_web_grounding_warnings :: "string list"
  rm_runtime_agent_id :: "string option"
  rm_custom_agent_name :: "string option"
  rm_custom_agent_id :: "string option"

record agent_response =
  ar_agent_id :: string
  ar_content :: string
  ar_metadata :: response_metadata
  ar_tool_artifacts :: "string option list"
  ar_error :: "string option"

record response_outcome =
  ro_agent_id :: string
  ro_response :: agent_response
  ro_provenance :: outcome_provenance

datatype worker_status = WorkerCompleted | WorkerPartial | WorkerFailed

text \<open>
  What is kept of a worker's artifacts, evidence and images depends on the reader: their ids here, the
  whole records where a synthesis is built from them. \<^verbatim>\<open>dispatch_id\<close> and \<^verbatim>\<open>position\<close> are required fields
  of a worker result; \<open>None\<close> is a missing one.
\<close>

record 'r worker_result =
  wr_dispatch_id :: string
  wr_task_id :: string
  wr_position :: int
  wr_agent_id :: string
  wr_status :: worker_status
  wr_content :: string
  wr_artifacts :: "'r list"
  wr_evidence :: "'r list"
  wr_images :: "'r list"
  wr_error_code :: "string option"

definition make_worker_result ::
  "string option \<Rightarrow> int option \<Rightarrow> string \<Rightarrow> string \<Rightarrow> worker_status \<Rightarrow> string \<Rightarrow> 'r list
     \<Rightarrow> 'r list \<Rightarrow> 'r list \<Rightarrow> string option \<Rightarrow> 'r worker_result option" where
  "make_worker_result dispatch_id position task_id agent_id status content artifacts evidence images code =
     (case (dispatch_id, position) of
        (Some d, Some p) \<Rightarrow>
          if 1 \<le> length d \<and> length d \<le> 64 \<and> 1 \<le> length task_id \<and> length task_id \<le> 160 \<and> 0 \<le> p \<and>
             1 \<le> length agent_id \<and> length agent_id \<le> 160
          then Some \<lparr>wr_dispatch_id = d, wr_task_id = task_id, wr_position = p, wr_agent_id = agent_id,
                     wr_status = status, wr_content = content, wr_artifacts = artifacts,
                     wr_evidence = evidence, wr_images = images, wr_error_code = code\<rparr>
          else None
      | _ \<Rightarrow> None)"

section \<open>Errors\<close>

datatype workflow_error_code =
    RoutingTimeout
  | RoutingProviderUnavailable
  | RoutingInvalidOutput
  | RoutingTargetUnavailable
  | AgentExecutionLimit
  | ToolExecutionFailed
  | ResponseValidationFailed
  | FinalizationFailed
  | ResponsePersistenceFailed
  | ConversationTurnConflict

fun code_value :: "workflow_error_code \<Rightarrow> string" where
  "code_value RoutingTimeout = ''routing_timeout''"
| "code_value RoutingProviderUnavailable = ''routing_provider_unavailable''"
| "code_value RoutingInvalidOutput = ''routing_invalid_output''"
| "code_value RoutingTargetUnavailable = ''routing_target_unavailable''"
| "code_value AgentExecutionLimit = ''agent_execution_limit''"
| "code_value ToolExecutionFailed = ''tool_execution_failed''"
| "code_value ResponseValidationFailed = ''response_validation_failed''"
| "code_value FinalizationFailed = ''finalization_failed''"
| "code_value ResponsePersistenceFailed = ''response_persistence_failed''"
| "code_value ConversationTurnConflict = ''conversation_turn_conflict''"

record workflow_error =
  we_code :: workflow_error_code
  we_retriable :: bool
  we_request_id :: string
  we_details :: "(string \<times> pyval) list"

fun RETRIABLE_BY_DEFAULT :: "workflow_error_code \<Rightarrow> bool" where
  "RETRIABLE_BY_DEFAULT RoutingTimeout = True"
| "RETRIABLE_BY_DEFAULT RoutingProviderUnavailable = True"
| "RETRIABLE_BY_DEFAULT RoutingInvalidOutput = True"
| "RETRIABLE_BY_DEFAULT RoutingTargetUnavailable = True"
| "RETRIABLE_BY_DEFAULT AgentExecutionLimit = False"
| "RETRIABLE_BY_DEFAULT ToolExecutionFailed = False"
| "RETRIABLE_BY_DEFAULT ResponseValidationFailed = False"
| "RETRIABLE_BY_DEFAULT FinalizationFailed = False"
| "RETRIABLE_BY_DEFAULT ResponsePersistenceFailed = True"
| "RETRIABLE_BY_DEFAULT ConversationTurnConflict = True"

definition ALLOWED_ERROR_DETAIL_KEYS :: "string list" where
  "ALLOWED_ERROR_DETAIL_KEYS =
     [''attempts'', ''cause'', ''reason'', ''agent'', ''node'', ''provider'', ''model'',
      ''limit_kind'', ''stage'', ''inventory_version'']"

definition SECRET_MARKERS :: "string list" where
  "SECRET_MARKERS =
     [''api_key'', ''apikey'', ''authorization'', ''credential'', ''password'', ''secret'', ''token'']"

definition MAX_DETAIL_VALUE_CHARS :: nat where
  "MAX_DETAIL_VALUE_CHARS = 200"

definition keep_detail :: "string \<times> pyval \<Rightarrow> bool" where
  "keep_detail kv =
     (case kv of (key, v) \<Rightarrow>
        if key \<notin> set ALLOWED_ERROR_DETAIL_KEYS then False
        else case json_dumps v of
          None \<Rightarrow> False
        | Some encoded \<Rightarrow>
            if list_ex (\<lambda>marker. occurs_in marker (lower encoded)) SECRET_MARKERS then False
            else \<not> (length encoded > MAX_DETAIL_VALUE_CHARS))"

definition sanitize_error_details :: "pyval \<Rightarrow> (string \<times> pyval) list" where
  "sanitize_error_details details =
     (case details of PDict d \<Rightarrow> filter keep_detail d | _ \<Rightarrow> [])"

definition make_workflow_error ::
  "workflow_error_code \<Rightarrow> string \<Rightarrow> pyval \<Rightarrow> bool option \<Rightarrow> workflow_error" where
  "make_workflow_error code request_id details retriable =
     \<lparr>we_code = code,
      we_retriable = (case retriable of None \<Rightarrow> RETRIABLE_BY_DEFAULT code | Some b \<Rightarrow> b),
      we_request_id = (if request_id = [] then ''unknown'' else request_id),
      we_details = sanitize_error_details details\<rparr>"

text \<open>An exception: the typed one carries its error, any other only its text.\<close>

datatype workflow_exception = WorkflowRoutingException workflow_error | OtherException string

fun workflow_error_from_exception :: "workflow_exception \<Rightarrow> string \<Rightarrow> workflow_error" where
  "workflow_error_from_exception (WorkflowRoutingException e) request_id = e"
| "workflow_error_from_exception (OtherException text) request_id =
     make_workflow_error FinalizationFailed request_id
       (PDict [(''reason'', PStr ''unexpected_error'')]) None"

definition workflow_error_payload :: "workflow_error \<Rightarrow> (string \<times> pyval) list" where
  "workflow_error_payload e =
     [(''code'', PStr (code_value (we_code e))), (''retriable'', PBool (we_retriable e)),
      (''request_id'', PStr (we_request_id e)),
      (''details'', PDict (sanitize_error_details (PDict (we_details e))))]"

section \<open>Reducers of the graph state\<close>

text \<open>A channel value or update as LangGraph hands it over: nothing, one value, or several.\<close>

datatype 'a channel = Absent | One 'a | Many "'a list"

fun as_list :: "'a channel \<Rightarrow> 'a list" where
  "as_list Absent = []"
| "as_list (One x) = [x]"
| "as_list (Many xs) = xs"

definition append_transitions ::
  "agent_transition channel \<Rightarrow> agent_transition channel \<Rightarrow> agent_transition list" where
  "append_transitions existing upd = as_list existing @ as_list upd"

definition worker_identity :: "'r worker_result \<Rightarrow> string \<times> string" where
  "worker_identity r = (wr_dispatch_id r, wr_task_id r)"

datatype state_error = InvalidWorkflowStateUpdate string

fun append_results ::
  "(string \<times> string) set \<Rightarrow> 'r worker_result list \<Rightarrow> 'r worker_result list \<Rightarrow> state_error + 'r worker_result list" where
  "append_results seen merged [] = Inr merged"
| "append_results seen merged (r # rs) =
     (if worker_identity r \<in> seen
      then Inl (InvalidWorkflowStateUpdate ''duplicate worker result'')
      else append_results (insert (worker_identity r) seen) (merged @ [r]) rs)"

definition append_worker_results ::
  "'r worker_result channel \<Rightarrow> 'r worker_result channel \<Rightarrow> state_error + 'r worker_result list" where
  "append_worker_results existing upd =
     (let merged = as_list existing
      in append_results (set (map worker_identity merged)) merged (as_list upd))"

definition set_routing_decision_once ::
  "routing_decision option \<Rightarrow> routing_decision option \<Rightarrow> state_error + routing_decision option" where
  "set_routing_decision_once existing upd =
     (case upd of
        None \<Rightarrow> Inr existing
      | Some u \<Rightarrow>
          (case existing of
             None \<Rightarrow> Inr (Some u)
           | Some e \<Rightarrow>
               if e = u then Inr (Some e)
               else Inl (InvalidWorkflowStateUpdate ''routing_decision is immutable for a turn'')))"

section \<open>Checkpoint thread ids\<close>

definition CHECKPOINT_THREAD_PREFIX :: string where
  "CHECKPOINT_THREAD_PREFIX = ''routing-v2''"

definition build_checkpoint_thread_id :: "string \<Rightarrow> string \<Rightarrow> string + string" where
  "build_checkpoint_thread_id conversation_id turn_id =
     (let conversation = py_strip conversation_id; turn = py_strip turn_id
      in if conversation = [] then Inl ''conversation_id is required to build a checkpoint thread id''
         else if turn = [] then Inl ''turn_id is required to build a checkpoint thread id''
         else if CHR '':'' \<in> set conversation \<or> CHR '':'' \<in> set turn
         then Inl (''conversation_id and turn_id must not contain '' @ [CHR 0x27, CHR '':'', CHR 0x27])
         else Inr (CHECKPOINT_THREAD_PREFIX @ '':'' @ conversation @ '':'' @ turn))"

definition parse_checkpoint_thread_id :: "string \<Rightarrow> string + string \<times> string" where
  "parse_checkpoint_thread_id thread_id =
     (case split_on (CHR '':'') thread_id of
        [p, c, t] \<Rightarrow>
          if p \<noteq> CHECKPOINT_THREAD_PREFIX \<or> c = [] \<or> t = []
          then Inl ''not a routing-v2 checkpoint thread id'' else Inr (c, t)
      | _ \<Rightarrow> Inl ''not a routing-v2 checkpoint thread id'')"

section \<open>Properties\<close>

lemma sanitized_details_kept:
  "sanitize_error_details (PDict (sanitize_error_details d)) = sanitize_error_details d"
  by (simp add: sanitize_error_details_def split: pyval.split)

text \<open>
  Nothing leaves through the details of a workflow error but allowlisted keys with a JSON value of
  at most 200 characters that contains no secret marker; the body the API returns carries the same
  details, and the text of an unexpected exception has no influence on its error at all.
\<close>

theorem error_details_sanitized:
  "(\<forall>(k, v) \<in> set (we_details (make_workflow_error code request_id details retriable)).
      k \<in> set ALLOWED_ERROR_DETAIL_KEYS \<and>
      (\<exists>t. json_dumps v = Some t \<and> length t \<le> 200 \<and>
         (\<forall>marker \<in> set SECRET_MARKERS. \<not> occurs_in marker (lower t)))) \<and>
   map_of (workflow_error_payload (make_workflow_error code request_id details retriable)) ''details'' =
     Some (PDict (we_details (make_workflow_error code request_id details retriable))) \<and>
   workflow_error_from_exception (OtherException text1) request_id =
     workflow_error_from_exception (OtherException text2) request_id"
proof -
  have "keep_detail (k, v) \<Longrightarrow> k \<in> set ALLOWED_ERROR_DETAIL_KEYS \<and>
      (\<exists>t. json_dumps v = Some t \<and> length t \<le> 200 \<and>
         (\<forall>marker \<in> set SECRET_MARKERS. \<not> occurs_in marker (lower t)))" for k v
    by (auto simp: keep_detail_def MAX_DETAIL_VALUE_CHARS_def list_ex_iff split: if_splits option.splits)
  then show ?thesis
    by (auto simp: make_workflow_error_def workflow_error_payload_def sanitized_details_kept)
      (auto simp: sanitize_error_details_def split: pyval.splits)
qed

theorem error_details_sanitized_witness:
  "we_details (make_workflow_error RoutingTimeout ''r1''
     (PDict [(''reason'', PStr ''slow''), (''prompt'', PStr ''x''), (''cause'', PStr ''Bearer TOKEN'')]) None)
   = [(''reason'', PStr ''slow'')] \<and>
   map_of (workflow_error_payload (make_workflow_error RoutingTimeout ''r1''
     (PDict [(''reason'', PStr ''slow''), (''prompt'', PStr ''x''), (''cause'', PStr ''Bearer TOKEN'')]) None))
     ''details'' = Some (PDict [(''reason'', PStr ''slow'')])"
proof -
  have d: "we_details (make_workflow_error RoutingTimeout ''r1''
     (PDict [(''reason'', PStr ''slow''), (''prompt'', PStr ''x''), (''cause'', PStr ''Bearer TOKEN'')]) None)
   = [(''reason'', PStr ''slow'')]"
    by code_simp
  with error_details_sanitized [of RoutingTimeout "''r1''"
      "PDict [(''reason'', PStr ''slow''), (''prompt'', PStr ''x''), (''cause'', PStr ''Bearer TOKEN'')]" None]
  show ?thesis by simp
qed

lemma append_results_spec:
  "append_results seen merged rs =
     (if distinct (map worker_identity rs) \<and> set (map worker_identity rs) \<inter> seen = {}
      then Inr (merged @ rs)
      else Inl (InvalidWorkflowStateUpdate ''duplicate worker result''))"
  by (induction rs arbitrary: seen merged) auto

text \<open>A sequence of updates of the worker results, as the graph applies them.\<close>

fun reduce_results :: "'r worker_result list \<Rightarrow> 'r worker_result channel list \<Rightarrow> state_error + 'r worker_result list" where
  "reduce_results rs [] = Inr rs"
| "reduce_results rs (u # us) =
     (case append_worker_results (Many rs) u of Inl e \<Rightarrow> Inl e | Inr rs' \<Rightarrow> reduce_results rs' us)"

text \<open>
  The worker results of a turn are append-only and never hold two results of one dispatched task:
  a sequence of updates is accepted exactly when all their identities are distinct, and then the
  channel is their concatenation in order; otherwise an error is raised instead of losing a result.
\<close>

theorem worker_results_unique:
  assumes "distinct (map worker_identity rs)"
  shows "reduce_results rs us =
    (if distinct (map worker_identity (rs @ concat (map as_list us)))
     then Inr (rs @ concat (map as_list us))
     else Inl (InvalidWorkflowStateUpdate ''duplicate worker result''))"
  using assms
proof (induction us arbitrary: rs)
  case Nil
  then show ?case by simp
next
  case (Cons u us)
  show ?case
  proof (cases "distinct (map worker_identity (rs @ as_list u))")
    case True
    then have "append_worker_results (Many rs) u = Inr (rs @ as_list u)"
      by (auto simp: append_worker_results_def append_results_spec)
    with Cons.IH [OF True] show ?thesis by simp
  next
    case False
    with Cons.prems have "append_worker_results (Many rs) u =
        Inl (InvalidWorkflowStateUpdate ''duplicate worker result'')"
      by (auto simp: append_worker_results_def append_results_spec)
    with False show ?thesis by auto
  qed
qed

definition demo_result :: "string \<Rightarrow> string worker_result" where
  "demo_result task = \<lparr>wr_dispatch_id = ''d1'', wr_task_id = task, wr_position = 0,
     wr_agent_id = ''search_agent'', wr_status = WorkerCompleted, wr_content = ''ok'',
     wr_artifacts = [], wr_evidence = [], wr_images = [], wr_error_code = None\<rparr>"

theorem worker_results_unique_witness:
  "reduce_results [demo_result ''a''] [One (demo_result ''b''), One (demo_result ''a'')] =
     Inl (InvalidWorkflowStateUpdate ''duplicate worker result'')"
  using worker_results_unique [of "[demo_result ''a'']" "[One (demo_result ''b''), One (demo_result ''a'')]"]
  by (simp add: demo_result_def worker_identity_def)

lemma split_thread_id:
  assumes "CHR '':'' \<notin> set c" and "CHR '':'' \<notin> set t"
  shows "split_on (CHR '':'') (CHECKPOINT_THREAD_PREFIX @ '':'' @ c @ '':'' @ t) =
    [CHECKPOINT_THREAD_PREFIX, c, t]"
proof -
  have "CHR '':'' \<notin> set CHECKPOINT_THREAD_PREFIX" by (simp add: CHECKPOINT_THREAD_PREFIX_def)
  then show ?thesis
    using split_on_append [of "CHR '':''" CHECKPOINT_THREAD_PREFIX "c @ CHR '':'' # t"]
      split_on_append [OF assms(1), of t] split_on_no_sep [OF assms(2)] by simp
qed

lemma parse_thread_id_Inr:
  assumes "parse_checkpoint_thread_id s = Inr (c, t)"
  shows "s = CHECKPOINT_THREAD_PREFIX @ '':'' @ c @ '':'' @ t" and "c \<noteq> []" and "t \<noteq> []"
    and "CHR '':'' \<notin> set c" and "CHR '':'' \<notin> set t"
proof -
  from assms have sp: "split_on (CHR '':'') s = [CHECKPOINT_THREAD_PREFIX, c, t]"
    and ne: "c \<noteq> []" "t \<noteq> []"
    by (auto simp: parse_checkpoint_thread_id_def split: list.splits if_splits)
  show "s = CHECKPOINT_THREAD_PREFIX @ '':'' @ c @ '':'' @ t"
    using join_split_on [of "CHR '':''" s] sp by simp
  show "CHR '':'' \<notin> set c" "CHR '':'' \<notin> set t"
    using split_on_no_sep_parts [of _ "CHR '':''" s] sp by auto
  show "c \<noteq> []" "t \<noteq> []" by (rule ne)+
qed

text \<open>
  Thread ids round-trip: a thread id that was built parses back to the stripped conversation and
  turn it was built from, and only built ids parse, so retention and resume never act on another id.
\<close>

theorem checkpoint_thread_id_roundtrip:
  "(build_checkpoint_thread_id c t = Inr s \<longrightarrow> parse_checkpoint_thread_id s = Inr (py_strip c, py_strip t)) \<and>
   (parse_checkpoint_thread_id s = Inr (c, t) \<longrightarrow>
      s = CHECKPOINT_THREAD_PREFIX @ '':'' @ c @ '':'' @ t \<and>
      (py_strip c = c \<and> py_strip t = t \<longrightarrow> build_checkpoint_thread_id c t = Inr s))"
proof (intro conjI impI)
  assume "build_checkpoint_thread_id c t = Inr s"
  then have "CHR '':'' \<notin> set (py_strip c)" "CHR '':'' \<notin> set (py_strip t)" "py_strip c \<noteq> []"
    "py_strip t \<noteq> []" "s = CHECKPOINT_THREAD_PREFIX @ '':'' @ py_strip c @ '':'' @ py_strip t"
    by (auto simp: build_checkpoint_thread_id_def Let_def split: if_splits)
  then show "parse_checkpoint_thread_id s = Inr (py_strip c, py_strip t)"
    using split_thread_id [of "py_strip c" "py_strip t"] by (simp add: parse_checkpoint_thread_id_def)
next
  assume "parse_checkpoint_thread_id s = Inr (c, t)"
  then show "s = CHECKPOINT_THREAD_PREFIX @ '':'' @ c @ '':'' @ t" by (rule parse_thread_id_Inr)
next
  assume p: "parse_checkpoint_thread_id s = Inr (c, t)" and "py_strip c = c \<and> py_strip t = t"
  then show "build_checkpoint_thread_id c t = Inr s"
    using parse_thread_id_Inr [OF p] by (simp add: build_checkpoint_thread_id_def Let_def)
qed

theorem checkpoint_thread_id_roundtrip_witness:
  "parse_checkpoint_thread_id ''routing-v2:c1:t1'' = Inr (''c1'', ''t1'')"
proof -
  have "build_checkpoint_thread_id '' c1 '' ''t1'' = Inr ''routing-v2:c1:t1''" by code_simp
  moreover have "py_strip '' c1 '' = ''c1''" "py_strip ''t1'' = ''t1''" by code_simp+
  ultimately show ?thesis
    using checkpoint_thread_id_roundtrip [of "'' c1 ''" "''t1''" "''routing-v2:c1:t1''"] by simp
qed

end
