(* ===== verification/TurnCoordinator.thy ===== *)
theory TurnCoordinator
  imports WorkflowContracts
begin

text \<open>
  \<^verbatim>\<open>app/services/conversation_turn_coordinator.py\<close>: one turn at a time per conversation. Turns run in
  several worker processes; each has its own number, which also names the session (Postgres) or the
  waiter (in process) of its acquisition. An acquisition is a sequence of attempts; between two of
  them every other turn may move. SHA-256 is an argument, a function to bytes.
\<close>

section \<open>The backend interface\<close>

text \<open>
  One attempt tells whether the lock was taken; \<open>register\<close> remembers the session of a taken lock;
  \<open>give_up\<close> ends an acquisition that got none; \<open>stray\<close> is what a cancelled attempt may have left
  behind on the server.
\<close>

record 'b lock_backend =
  lb_durable :: bool
  lb_attempt :: "nat \<Rightarrow> nat \<Rightarrow> string \<Rightarrow> 'b \<Rightarrow> bool \<times> 'b"
  lb_register :: "nat \<Rightarrow> nat \<Rightarrow> string \<Rightarrow> 'b \<Rightarrow> 'b"
  lb_stray :: "nat \<Rightarrow> nat \<Rightarrow> string \<Rightarrow> 'b \<Rightarrow> 'b"
  lb_give_up :: "nat \<Rightarrow> 'b \<Rightarrow> 'b"
  lb_release :: "nat \<Rightarrow> string \<Rightarrow> 'b \<Rightarrow> 'b"

section \<open>In one process\<close>

text \<open>
  A lock per worker and key, held by a waiter or free. \<^verbatim>\<open>asyncio\<close> hands a lock only to a waiter that
  is not cancelled, so a cancelled attempt leaves nothing.
\<close>

type_synonym local_locks = "nat \<times> string \<Rightarrow> nat option"

definition local_attempt :: "nat \<Rightarrow> nat \<Rightarrow> string \<Rightarrow> local_locks \<Rightarrow> bool \<times> local_locks" where
  "local_attempt t w key locks =
     (if locks (w, key) = None then (True, locks((w, key) \<mapsto> t)) else (False, locks))"

definition local_release :: "nat \<Rightarrow> string \<Rightarrow> local_locks \<Rightarrow> local_locks" where
  "local_release w key locks =
     (if locks (w, key) \<noteq> None then locks((w, key) := None) else locks)"

definition local_backend :: "local_locks lock_backend" where
  "local_backend =
     \<lparr>lb_durable = False, lb_attempt = local_attempt, lb_register = (\<lambda>t w key locks. locks),
      lb_stray = (\<lambda>t w key locks. locks), lb_give_up = (\<lambda>t locks. locks), lb_release = local_release\<rparr>"

section \<open>Advisory locks of Postgres\<close>

text \<open>
  The server's table maps a lock key to the session whose open transaction holds it; every worker
  maps a conversation to the session that must stay open.
\<close>

record pg_locks =
  pg_owner :: "int \<Rightarrow> nat option"
  pg_sessions :: "nat \<times> string \<Rightarrow> nat option"

definition from_bytes_big :: "nat list \<Rightarrow> int" where
  "from_bytes_big bs = foldl (\<lambda>n b. 256 * n + int b) 0 bs"

definition lock_key :: "(string \<Rightarrow> nat list) \<Rightarrow> string \<Rightarrow> int" where
  "lock_key sha256 conversation_id =
     (let unsigned = from_bytes_big (take 8 (sha256 conversation_id))
      in if unsigned \<ge> 2 ^ 63 then unsigned - 2 ^ 64 else unsigned)"

definition try_lock :: "nat \<Rightarrow> int \<Rightarrow> pg_locks \<Rightarrow> bool \<times> pg_locks" where
  "try_lock session key db =
     (if pg_owner db key = None \<or> pg_owner db key = Some session
      then (True, db\<lparr>pg_owner := (pg_owner db)(key \<mapsto> session)\<rparr>) else (False, db))"

text \<open>Ending a session's transaction ends every lock it took.\<close>

definition close_session :: "nat \<Rightarrow> pg_locks \<Rightarrow> pg_locks" where
  "close_session session db =
     db\<lparr>pg_owner := (\<lambda>key. if pg_owner db key = Some session then None else pg_owner db key)\<rparr>"

definition pg_attempt ::
  "(string \<Rightarrow> nat list) \<Rightarrow> nat \<Rightarrow> nat \<Rightarrow> string \<Rightarrow> pg_locks \<Rightarrow> bool \<times> pg_locks" where
  "pg_attempt sha256 t w key db = try_lock t (lock_key sha256 key) db"

definition pg_register :: "nat \<Rightarrow> nat \<Rightarrow> string \<Rightarrow> pg_locks \<Rightarrow> pg_locks" where
  "pg_register t w key db = db\<lparr>pg_sessions := (pg_sessions db)((w, key) \<mapsto> t)\<rparr>"

definition pg_release :: "nat \<Rightarrow> string \<Rightarrow> pg_locks \<Rightarrow> pg_locks" where
  "pg_release w key db =
     (case pg_sessions db (w, key) of
        None \<Rightarrow> db
      | Some session \<Rightarrow> close_session session (db\<lparr>pg_sessions := (pg_sessions db)((w, key) := None)\<rparr>))"

definition pg_backend :: "(string \<Rightarrow> nat list) \<Rightarrow> pg_locks lock_backend" where
  "pg_backend sha256 =
     \<lparr>lb_durable = True, lb_attempt = pg_attempt sha256, lb_register = pg_register,
      lb_stray = (\<lambda>t w key db. snd (pg_attempt sha256 t w key db)), lb_give_up = close_session,
      lb_release = pg_release\<rparr>"

section \<open>The coordinator\<close>

definition make_coordinator :: "'b lock_backend \<Rightarrow> rat \<Rightarrow> bool \<Rightarrow> string + 'b lock_backend" where
  "make_coordinator backend timeout production =
     (if timeout \<le> 0 then Inl ''timeout_seconds must be positive''
      else if production \<and> \<not> lb_durable backend
      then Inl ''production requires a durable backend'' else Inr backend)"

text \<open>Where a turn is in \<^verbatim>\<open>hold\<close>. \<open>Unlocked\<close> runs without a lock: it has no conversation.\<close>

datatype hold_outcome = Finished | Refused workflow_error | Cancelled

datatype hold_phase = Idle | Polling rat | Running | Unlocked | Ended hold_outcome

record turn_request =
  tq_worker :: nat
  tq_conversation_id :: "string option"
  tq_request_id :: string

record 'b coordinator =
  co_backend :: 'b
  co_phase :: "nat \<Rightarrow> hold_phase"
  co_active :: "nat \<times> string \<Rightarrow> int"

definition turn_key :: "turn_request \<Rightarrow> string" where
  "turn_key q = py_strip (case tq_conversation_id q of None \<Rightarrow> [] | Some c \<Rightarrow> c)"

definition turn_conflict :: "turn_request \<Rightarrow> string \<Rightarrow> workflow_error" where
  "turn_conflict q reason =
     make_workflow_error ConversationTurnConflict (tq_request_id q) (PDict [(''reason'', PStr reason)]) None"

definition set_phase :: "nat \<Rightarrow> hold_phase \<Rightarrow> 'b coordinator \<Rightarrow> 'b coordinator" where
  "set_phase t p c = c\<lparr>co_phase := (co_phase c)(t := p)\<rparr>"

definition set_backend :: "'b \<Rightarrow> 'b coordinator \<Rightarrow> 'b coordinator" where
  "set_backend b c = c\<lparr>co_backend := b\<rparr>"

definition begin_hold :: "rat \<Rightarrow> rat \<Rightarrow> turn_request \<Rightarrow> nat \<Rightarrow> 'b coordinator \<Rightarrow> 'b coordinator" where
  "begin_hold timeout now q t c =
     (if turn_key q = [] then set_phase t Unlocked c else set_phase t (Polling (now + timeout)) c)"

text \<open>One round of the acquisition: taken, out of time, or another round later.\<close>

definition poll_hold ::
  "'b lock_backend \<Rightarrow> rat \<Rightarrow> rat \<Rightarrow> turn_request \<Rightarrow> nat \<Rightarrow> 'b coordinator \<Rightarrow> 'b coordinator" where
  "poll_hold be now deadline q t c =
     (let w = tq_worker q; key = turn_key q; (taken, b) = lb_attempt be t w key (co_backend c)
      in if taken
         then (set_phase t Running (set_backend (lb_register be t w key b) c))
                \<lparr>co_active := (co_active c)((w, key) := co_active c (w, key) + 1)\<rparr>
         else if now \<ge> deadline
         then set_phase t (Ended (Refused (turn_conflict q ''turn_already_running'')))
                (set_backend (lb_give_up be t b) c)
         else set_backend b c)"

definition capacity_hold ::
  "'b lock_backend \<Rightarrow> turn_request \<Rightarrow> nat \<Rightarrow> 'b coordinator \<Rightarrow> 'b coordinator" where
  "capacity_hold be q t c =
     set_phase t (Ended (Refused (turn_conflict q ''turn_lock_capacity'')))
       (set_backend (lb_give_up be t (co_backend c)) c)"

definition cancel_hold ::
  "'b lock_backend \<Rightarrow> bool \<Rightarrow> turn_request \<Rightarrow> nat \<Rightarrow> 'b coordinator \<Rightarrow> 'b coordinator" where
  "cancel_hold be in_flight q t c =
     (let b = (if in_flight then lb_stray be t (tq_worker q) (turn_key q) (co_backend c) else co_backend c)
      in set_phase t (Ended Cancelled) (set_backend (lb_give_up be t b) c))"

text \<open>However the body of the turn ended, the \<^verbatim>\<open>finally\<close> block runs.\<close>

definition end_hold ::
  "'b lock_backend \<Rightarrow> hold_outcome \<Rightarrow> turn_request \<Rightarrow> nat \<Rightarrow> 'b coordinator \<Rightarrow> 'b coordinator" where
  "end_hold be outcome q t c =
     (let w = tq_worker q; key = turn_key q
      in (set_phase t (Ended outcome) (set_backend (lb_release be w key (co_backend c)) c))
           \<lparr>co_active := (co_active c)((w, key) := max 0 (co_active c (w, key) - 1))\<rparr>)"

inductive hold_step ::
  "'b lock_backend \<Rightarrow> rat \<Rightarrow> (nat \<Rightarrow> turn_request) \<Rightarrow> 'b coordinator \<Rightarrow> 'b coordinator \<Rightarrow> bool"
  for be timeout req where
  start: "co_phase c t = Idle \<Longrightarrow> hold_step be timeout req c (begin_hold timeout now (req t) t c)"
| poll: "co_phase c t = Polling deadline \<Longrightarrow> hold_step be timeout req c (poll_hold be now deadline (req t) t c)"
| capacity: "co_phase c t = Polling deadline \<Longrightarrow> hold_step be timeout req c (capacity_hold be (req t) t c)"
| cancel: "co_phase c t = Polling deadline \<Longrightarrow> hold_step be timeout req c (cancel_hold be in_flight (req t) t c)"
| finish: "co_phase c t = Running \<Longrightarrow> hold_step be timeout req c (end_hold be outcome (req t) t c)"
| finish_unlocked: "co_phase c t = Unlocked \<Longrightarrow> hold_step be timeout req c (set_phase t (Ended outcome) c)"

definition fresh_coordinator :: "'b \<Rightarrow> 'b coordinator" where
  "fresh_coordinator b = \<lparr>co_backend = b, co_phase = (\<lambda>_. Idle), co_active = (\<lambda>_. 0)\<rparr>"

definition no_pg_locks :: pg_locks where
  "no_pg_locks = \<lparr>pg_owner = (\<lambda>_. None), pg_sessions = (\<lambda>_. None)\<rparr>"

section \<open>What a turn lock promises\<close>

text \<open>
  A backend excludes turns within a scope: its view of the server maps a scope to the turn that holds
  it, and each worker's \<open>leased\<close> maps a conversation to the session it must end.
\<close>

locale turn_lock =
  fixes be :: "'b lock_backend" and scope :: "nat \<Rightarrow> string \<Rightarrow> 'c"
    and held :: "'b \<Rightarrow> 'c \<Rightarrow> nat option" and leased :: "'b \<Rightarrow> nat \<times> string \<Rightarrow> nat option"
  assumes attempt_taken: "lb_attempt be t w key b = (True, b') \<Longrightarrow>
      held b (scope w key) \<in> {None, Some t} \<and>
      held (lb_register be t w key b') = (held b)(scope w key \<mapsto> t) \<and>
      leased (lb_register be t w key b') = (leased b)((w, key) \<mapsto> t)"
    and attempt_refused: "lb_attempt be t w key b = (False, b') \<Longrightarrow> b' = b \<and> held b (scope w key) \<noteq> None"
    and given_up: "(\<And>x. held b x \<noteq> Some t) \<Longrightarrow>
      held (lb_give_up be t b) = held b \<and> leased (lb_give_up be t b) = leased b"
    and stray_given_up: "(\<And>x. held b x \<noteq> Some t) \<Longrightarrow>
      held (lb_give_up be t (lb_stray be t w key b)) = held b \<and>
      leased (lb_give_up be t (lb_stray be t w key b)) = leased b"
    and released: "leased b (w, key) = Some t \<Longrightarrow> held b (scope w key) = Some t \<Longrightarrow>
      (\<And>x. held b x = Some t \<Longrightarrow> x = scope w key) \<Longrightarrow>
      held (lb_release be w key b) = (held b)(scope w key := None) \<and>
      leased (lb_release be w key b) = (leased b)((w, key) := None)"
begin

definition turn_scope :: "(nat \<Rightarrow> turn_request) \<Rightarrow> nat \<Rightarrow> 'c" where
  "turn_scope req t = scope (tq_worker (req t)) (turn_key (req t))"

definition lock_inv :: "(nat \<Rightarrow> turn_request) \<Rightarrow> 'b coordinator \<Rightarrow> bool" where
  "lock_inv req c \<longleftrightarrow>
     (\<forall>t. co_phase c t = Running \<longrightarrow>
        held (co_backend c) (turn_scope req t) = Some t \<and>
        leased (co_backend c) (tq_worker (req t), turn_key (req t)) = Some t) \<and>
     (\<forall>x t. held (co_backend c) x = Some t \<longrightarrow> co_phase c t = Running \<and> x = turn_scope req t)"

lemma lock_invD:
  assumes "lock_inv req c"
  shows "co_phase c t = Running \<Longrightarrow> held (co_backend c) (turn_scope req t) = Some t"
    and "co_phase c t = Running \<Longrightarrow> leased (co_backend c) (tq_worker (req t), turn_key (req t)) = Some t"
    and "held (co_backend c) x = Some t \<Longrightarrow> co_phase c t = Running"
    and "held (co_backend c) x = Some t \<Longrightarrow> x = turn_scope req t"
  using assms by (auto simp: lock_inv_def)

lemma lock_inv_quiet:
  assumes "lock_inv req c" and "co_phase c t \<noteq> Running" and "p \<noteq> Running"
    and "held b = held (co_backend c)" and "leased b = leased (co_backend c)"
  shows "lock_inv req (set_phase t p (set_backend b c))"
  using assms by (auto simp: lock_inv_def set_phase_def set_backend_def)

lemma lock_inv_same_backend:
  assumes "lock_inv req c" and "co_phase c t \<noteq> Running" and "p \<noteq> Running"
  shows "lock_inv req (set_phase t p c)"
  using assms by (auto simp: lock_inv_def set_phase_def)

lemma not_held: "lock_inv req c \<Longrightarrow> co_phase c t \<noteq> Running \<Longrightarrow> held (co_backend c) x \<noteq> Some t"
  using lock_invD(3) by blast

lemma poll_keeps:
  assumes inv: "lock_inv req c" and t: "co_phase c t = Polling deadline"
  shows "lock_inv req (poll_hold be now deadline (req t) t c)"
proof -
  let ?w = "tq_worker (req t)" and ?key = "turn_key (req t)"
  obtain taken b where a: "lb_attempt be t ?w ?key (co_backend c) = (taken, b)" by fastforce
  show ?thesis
  proof (cases taken)
    case True
    from attempt_taken [of t ?w ?key "co_backend c" b] a True
    have free: "held (co_backend c) (turn_scope req t) \<in> {None, Some t}"
      and h: "held (lb_register be t ?w ?key b) = (held (co_backend c))(turn_scope req t \<mapsto> t)"
      and l: "leased (lb_register be t ?w ?key b) = (leased (co_backend c))((?w, ?key) \<mapsto> t)"
      by (auto simp: turn_scope_def)
    have others: "co_phase c t' = Running \<Longrightarrow> turn_scope req t' \<noteq> turn_scope req t" for t'
      using lock_invD(1) [OF inv, of t'] free t by auto
    then have pairs: "co_phase c t' = Running \<Longrightarrow> (tq_worker (req t'), turn_key (req t')) \<noteq> (?w, ?key)" for t'
      by (metis prod.inject turn_scope_def)
    show ?thesis
      using inv others pairs
      by (auto simp: poll_hold_def a True Let_def lock_inv_def set_phase_def set_backend_def h l)
  next
    case False
    with attempt_refused [of t ?w ?key "co_backend c" b] a have b: "b = co_backend c" by simp
    have "held (co_backend c) x \<noteq> Some t" for x using not_held [OF inv] t by simp
    from given_up [OF this] lock_inv_quiet [OF inv, of t] t inv show ?thesis
      by (simp add: poll_hold_def a False b Let_def) (simp add: set_backend_def)
  qed
qed

lemma end_keeps:
  assumes inv: "lock_inv req c" and t: "co_phase c t = Running"
  shows "lock_inv req (end_hold be outcome (req t) t c)"
proof -
  let ?w = "tq_worker (req t)" and ?key = "turn_key (req t)"
  have own: "held (co_backend c) x = Some t \<Longrightarrow> x = scope ?w ?key" for x
    using lock_invD(4) [OF inv] by (simp add: turn_scope_def)
  have "held (lb_release be ?w ?key (co_backend c)) = (held (co_backend c))(turn_scope req t := None)"
    and "leased (lb_release be ?w ?key (co_backend c)) = (leased (co_backend c))((?w, ?key) := None)"
    using released [OF lock_invD(2) [OF inv t] _ own] lock_invD(1) [OF inv t]
    by (auto simp: turn_scope_def)
  moreover have "co_phase c t' = Running \<Longrightarrow> t' \<noteq> t \<Longrightarrow> turn_scope req t' \<noteq> turn_scope req t" for t'
    using lock_invD(1) [OF inv t] lock_invD(1) [OF inv, of t'] by auto
  moreover from this have "co_phase c t' = Running \<Longrightarrow> t' \<noteq> t \<Longrightarrow>
      (tq_worker (req t'), turn_key (req t')) \<noteq> (?w, ?key)" for t'
    by (metis prod.inject turn_scope_def)
  ultimately show ?thesis
    using inv by (auto simp: end_hold_def Let_def lock_inv_def set_phase_def set_backend_def)
qed

lemma hold_step_keeps:
  assumes "hold_step be timeout req c c'" and inv: "lock_inv req c"
  shows "lock_inv req c'"
  using assms(1)
proof cases
  case (start t now)
  with lock_inv_same_backend [OF inv] show ?thesis by (simp add: begin_hold_def)
next
  case (poll t deadline now)
  with poll_keeps [OF inv] show ?thesis by simp
next
  case (capacity t deadline)
  have "held (co_backend c) x \<noteq> Some t" for x using not_held [OF inv] capacity by simp
  from given_up [OF this] lock_inv_quiet [OF inv] capacity show ?thesis by (simp add: capacity_hold_def)
next
  case (cancel t deadline in_flight)
  have "held (co_backend c) x \<noteq> Some t" for x using not_held [OF inv] cancel by simp
  from given_up [OF this] stray_given_up [OF this] lock_inv_quiet [OF inv] cancel show ?thesis
    by (simp add: cancel_hold_def Let_def)
next
  case (finish t outcome)
  with end_keeps [OF inv] show ?thesis by simp
next
  case (finish_unlocked t outcome)
  with lock_inv_same_backend [OF inv] show ?thesis by simp
qed

lemma turns_inv:
  assumes "(hold_step be timeout req)\<^sup>*\<^sup>* c0 c" and "lock_inv req c0"
  shows "lock_inv req c"
  using assms by (induction rule: rtranclp_induct) (auto intro: hold_step_keeps)

lemma fresh_inv: "(\<And>x. held b x = None) \<Longrightarrow> lock_inv req (fresh_coordinator b)"
  by (simp add: lock_inv_def fresh_coordinator_def)

lemma exclusive:
  assumes "lock_inv req c" and "co_phase c t1 = Running" and "co_phase c t2 = Running"
    and "turn_scope req t1 = turn_scope req t2"
  shows "t1 = t2"
  using lock_invD(1) [OF assms(1,2)] lock_invD(1) [OF assms(1,3)] assms(4) by (metis option.inject)

lemma refusal_blames:
  assumes inv: "lock_inv req c" and t: "co_phase c t = Polling deadline"
    and out: "co_phase (poll_hold be now deadline (req t) t c) t \<noteq> Running"
  shows "\<exists>t'. co_phase c t' = Running \<and> turn_scope req t' = turn_scope req t"
proof -
  let ?a = "lb_attempt be t (tq_worker (req t)) (turn_key (req t)) (co_backend c)"
  obtain taken b where a: "?a = (taken, b)" by fastforce
  with out have "\<not> taken" by (auto simp: poll_hold_def set_phase_def Let_def)
  with a attempt_refused [of t _ _ "co_backend c" b] have "held (co_backend c) (turn_scope req t) \<noteq> None"
    by (simp add: turn_scope_def)
  then obtain t' where "held (co_backend c) (turn_scope req t) = Some t'" by blast
  from lock_invD(3) [OF inv this] lock_invD(4) [OF inv this] show ?thesis by metis
qed

end

section \<open>Both backends\<close>

lemma close_other: "(\<And>x. pg_owner db x \<noteq> Some t) \<Longrightarrow> close_session t db = db"
  by (simp add: close_session_def)

interpretation pg: turn_lock "pg_backend sha256" "\<lambda>w key. lock_key sha256 key" pg_owner pg_sessions
  for sha256
proof
  fix t w key and b b' :: pg_locks
  show "lb_attempt (pg_backend sha256) t w key b = (True, b') \<Longrightarrow>
      pg_owner b (lock_key sha256 key) \<in> {None, Some t} \<and>
      pg_owner (lb_register (pg_backend sha256) t w key b') = (pg_owner b)(lock_key sha256 key \<mapsto> t) \<and>
      pg_sessions (lb_register (pg_backend sha256) t w key b') = (pg_sessions b)((w, key) \<mapsto> t)"
    by (auto simp: pg_backend_def pg_attempt_def try_lock_def pg_register_def split: if_splits)
  show "lb_attempt (pg_backend sha256) t w key b = (False, b') \<Longrightarrow>
      b' = b \<and> pg_owner b (lock_key sha256 key) \<noteq> None"
    by (auto simp: pg_backend_def pg_attempt_def try_lock_def split: if_splits)
next
  fix t and b :: pg_locks assume free: "\<And>x. pg_owner b x \<noteq> Some t"
  from close_other [of b t] free
  show "pg_owner (lb_give_up (pg_backend sha256) t b) = pg_owner b \<and>
      pg_sessions (lb_give_up (pg_backend sha256) t b) = pg_sessions b"
    by (simp add: pg_backend_def)
  fix w key
  show "pg_owner (lb_give_up (pg_backend sha256) t (lb_stray (pg_backend sha256) t w key b)) = pg_owner b \<and>
      pg_sessions (lb_give_up (pg_backend sha256) t (lb_stray (pg_backend sha256) t w key b)) = pg_sessions b"
    using free by (auto simp: pg_backend_def pg_attempt_def try_lock_def close_session_def)
next
  fix b :: pg_locks and w key t
  assume leased: "pg_sessions b (w, key) = Some t" and held: "pg_owner b (lock_key sha256 key) = Some t"
    and own: "\<And>x. pg_owner b x = Some t \<Longrightarrow> x = lock_key sha256 key"
  have "(\<lambda>x. if pg_owner b x = Some t then None else pg_owner b x) = (pg_owner b)(lock_key sha256 key := None)"
  proof
    fix x
    show "(if pg_owner b x = Some t then None else pg_owner b x) = ((pg_owner b)(lock_key sha256 key := None)) x"
    proof (cases "x = lock_key sha256 key")
      case False
      then have "pg_owner b x \<noteq> Some t" using own by blast
      with False show ?thesis by simp
    qed (simp add: held)
  qed
  then show "pg_owner (lb_release (pg_backend sha256) w key b) = (pg_owner b)(lock_key sha256 key := None) \<and>
      pg_sessions (lb_release (pg_backend sha256) w key b) = (pg_sessions b)((w, key) := None)"
    by (simp add: pg_backend_def pg_release_def close_session_def leased cong: if_cong)
qed

lemma local_release_held: "locks (w, key) = Some t \<Longrightarrow> local_release w key locks = locks((w, key) := None)"
  by (simp add: local_release_def)

interpretation asyncio: turn_lock local_backend "\<lambda>w key. (w, key)" "\<lambda>locks. locks" "\<lambda>locks. locks"
proof (unfold_locales, goal_cases)
  case (5 b w key t)
  from local_release_held [of b w key t] 5(1) show ?case by (simp add: local_backend_def)
qed (auto simp: local_backend_def local_attempt_def split: if_splits)

lemma pg_inv:
  assumes "(hold_step (pg_backend sha256) timeout req)\<^sup>*\<^sup>* (fresh_coordinator no_pg_locks) c"
  shows "pg.lock_inv sha256 req c"
  using pg.turns_inv [OF assms] pg.fresh_inv [of no_pg_locks] by (simp add: no_pg_locks_def)

lemma pg_scope: "pg.turn_scope sha256 req t = lock_key sha256 (turn_key (req t))"
  by (rule pg.turn_scope_def)

text \<open>
  C12: at most one turn of a conversation runs, in whichever worker processes. In every state the
  workers can reach over the Postgres locks, two running turns of one conversation are the same turn;
  a lock is held exactly by a running turn, so however turns end, refused, cancelled in the middle of
  an attempt or failed, none of them leaves a conversation locked.
\<close>

theorem turns_exclusive:
  assumes "(hold_step (pg_backend sha256) timeout req)\<^sup>*\<^sup>* (fresh_coordinator no_pg_locks) c"
  shows "(\<forall>t1 t2. co_phase c t1 = Running \<and> co_phase c t2 = Running \<and>
        turn_key (req t1) = turn_key (req t2) \<longrightarrow> t1 = t2) \<and>
    (\<forall>key t. pg_owner (co_backend c) key = Some t \<longleftrightarrow>
        co_phase c t = Running \<and> key = lock_key sha256 (turn_key (req t)))"
  using pg_inv [OF assms] pg.exclusive [OF pg_inv [OF assms]] pg.lock_invD [OF pg_inv [OF assms]]
  by (metis pg_scope)

definition demo_request :: "nat \<Rightarrow> turn_request" where
  "demo_request t = \<lparr>tq_worker = t, tq_conversation_id = Some ''c1'', tq_request_id = ''r''\<rparr>"

definition demo_sha :: "string \<Rightarrow> nat list" where
  "demo_sha s = [length s]"

definition demo_running :: "pg_locks coordinator" where
  "demo_running = poll_hold (pg_backend demo_sha) 0 1 (demo_request 0) 0
     (begin_hold 1 0 (demo_request 0) 0 (fresh_coordinator no_pg_locks))"

lemma demo_key: "turn_key (demo_request t) = ''c1''"
  unfolding turn_key_def demo_request_def by code_simp

lemma demo_running_reachable:
  "(hold_step (pg_backend demo_sha) 1 demo_request)\<^sup>*\<^sup>* (fresh_coordinator no_pg_locks) demo_running"
proof -
  let ?c = "begin_hold 1 0 (demo_request 0) 0 (fresh_coordinator no_pg_locks)"
  have "hold_step (pg_backend demo_sha) 1 demo_request (fresh_coordinator no_pg_locks) ?c"
    by (rule hold_step.start) (simp add: fresh_coordinator_def)
  moreover have "hold_step (pg_backend demo_sha) 1 demo_request ?c demo_running"
    unfolding demo_running_def
    by (rule hold_step.poll) (simp add: begin_hold_def demo_key set_phase_def)
  ultimately show ?thesis by auto
qed

lemma demo_running_phase: "co_phase demo_running 0 = Running"
  by (simp add: demo_running_def poll_hold_def begin_hold_def demo_key fresh_coordinator_def no_pg_locks_def
      pg_backend_def pg_attempt_def try_lock_def set_phase_def set_backend_def Let_def)

theorem turns_exclusive_witness:
  "pg_owner (co_backend demo_running) (lock_key demo_sha ''c1'') = Some 0 \<and>
   co_phase demo_running 1 \<noteq> Running"
proof -
  note t = turns_exclusive [OF demo_running_reachable]
  have "pg_owner (co_backend demo_running) (lock_key demo_sha ''c1'') = Some 0"
    using t demo_running_phase by (simp add: demo_key)
  moreover have "co_phase demo_running 1 \<noteq> Running"
    using conjunct1 [OF t, rule_format, of 0 1] demo_running_phase by (auto simp: demo_key)
  ultimately show ?thesis ..
qed

lemma poll_outcomes:
  "co_phase (poll_hold be now deadline q t c) t \<in>
     {Running, Ended (Refused (turn_conflict q ''turn_already_running'')), co_phase c t}"
  by (simp add: poll_hold_def set_phase_def set_backend_def Let_def split: prod.split)

text \<open>
  The wait is bounded and never blames a free conversation. A turn that asks at or after its
  deadline is done waiting: it runs or is refused with a retriable conflict. And a round that does not
  get the lock proves that another turn with the same lock key is running at that moment.
\<close>

theorem wait_is_bounded:
  assumes "(hold_step (pg_backend sha256) timeout req)\<^sup>*\<^sup>* (fresh_coordinator no_pg_locks) c"
    and "co_phase c t = Polling deadline"
  shows "(deadline \<le> now \<longrightarrow> co_phase (poll_hold (pg_backend sha256) now deadline (req t) t c) t \<in>
        {Running, Ended (Refused (turn_conflict (req t) ''turn_already_running''))}) \<and>
    we_retriable (turn_conflict (req t) ''turn_already_running'') \<and>
    (co_phase (poll_hold (pg_backend sha256) now deadline (req t) t c) t \<noteq> Running \<longrightarrow>
       (\<exists>t'. t' \<noteq> t \<and> co_phase c t' = Running \<and>
          lock_key sha256 (turn_key (req t')) = lock_key sha256 (turn_key (req t))))"
proof -
  let ?c = "poll_hold (pg_backend sha256) now deadline (req t) t c"
  have "deadline \<le> now \<Longrightarrow> co_phase ?c t \<in>
        {Running, Ended (Refused (turn_conflict (req t) ''turn_already_running''))}"
    by (simp add: poll_hold_def set_phase_def set_backend_def Let_def split: prod.split)
  moreover have "we_retriable (turn_conflict (req t) ''turn_already_running'')"
    by (simp add: turn_conflict_def make_workflow_error_def)
  moreover have "co_phase ?c t \<noteq> Running \<Longrightarrow> \<exists>t'. t' \<noteq> t \<and> co_phase c t' = Running \<and>
          lock_key sha256 (turn_key (req t')) = lock_key sha256 (turn_key (req t))"
    using pg.refusal_blames [OF pg_inv [OF assms(1)] assms(2)] assms(2) unfolding pg_scope by force
  ultimately show ?thesis by blast
qed

theorem wait_is_bounded_witness:
  "co_phase (poll_hold (pg_backend demo_sha) 2 1 (demo_request 1) 1
      (begin_hold 1 0 (demo_request 1) 1 demo_running)) 1 =
    Ended (Refused (turn_conflict (demo_request 1) ''turn_already_running''))"
proof -
  let ?c = "begin_hold 1 0 (demo_request 1) 1 demo_running"
  have idle: "co_phase demo_running 1 = Idle"
    by (simp add: demo_running_def poll_hold_def begin_hold_def demo_key fresh_coordinator_def no_pg_locks_def
        pg_backend_def pg_attempt_def try_lock_def set_phase_def set_backend_def Let_def)
  have "hold_step (pg_backend demo_sha) 1 demo_request demo_running ?c"
    by (rule hold_step.start [OF idle])
  with demo_running_reachable
  have reach: "(hold_step (pg_backend demo_sha) 1 demo_request)\<^sup>*\<^sup>* (fresh_coordinator no_pg_locks) ?c" by simp
  have polling: "co_phase ?c 1 = Polling 1" by (simp add: begin_hold_def demo_key set_phase_def)
  have "co_phase (poll_hold (pg_backend demo_sha) 2 1 (demo_request 1) 1 ?c) 1 \<noteq> Running"
    by (simp add: demo_running_def poll_hold_def begin_hold_def demo_key fresh_coordinator_def no_pg_locks_def
        pg_backend_def pg_attempt_def try_lock_def set_phase_def set_backend_def Let_def pg_register_def)
  with wait_is_bounded [OF reach polling, of 2] show ?thesis by simp
qed

end
