(* ===== verification/LruStore.thy ===== *)
theory LruStore
  imports Prelude
begin

text \<open>
  A dictionary in order of use, the least recently used entry first, with a bound: what an
  \<^verbatim>\<open>OrderedDict\<close> is with \<^verbatim>\<open>move_to_end\<close> and \<^verbatim>\<open>popitem(last=False)\<close>.
\<close>

definition move_to_end :: "'k \<Rightarrow> ('k, 'v) dict \<Rightarrow> ('k, 'v) dict" where
  "move_to_end k d =
     (case map_of d k of None \<Rightarrow> d | Some v \<Rightarrow> AList.delete k d @ [(k, v)])"

definition evict_overflow :: "nat \<Rightarrow> ('k, 'v) dict \<Rightarrow> ('k, 'v) dict" where
  "evict_overflow bound d = drop (length d - bound) d"

text \<open>Storing under a key makes it the most recent one.\<close>

definition put_last :: "'k \<Rightarrow> 'v \<Rightarrow> ('k, 'v) dict \<Rightarrow> ('k, 'v) dict" where
  "put_last k v d = move_to_end k (AList.update k v d)"

lemma delete_updated: "AList.delete k (AList.update k v d) = AList.delete k d"
  by (induction d) auto

lemma put_last_eq: "put_last k v d = AList.delete k d @ [(k, v)]"
  by (simp add: put_last_def move_to_end_def update_conv' delete_updated)

lemma dom_delete: "fst ` set (AList.delete k d) = fst ` set d - {k}"
  by (induction d) auto

lemma evict_length: "length (evict_overflow bound d) \<le> bound"
  by (simp add: evict_overflow_def)

lemma evict_suffix: "suffix (evict_overflow bound d) d"
  by (simp add: evict_overflow_def suffix_drop)

lemma evict_wf: "dict_wf d \<Longrightarrow> dict_wf (evict_overflow bound d)"
  by (auto simp: dict_wf_def evict_overflow_def drop_map [symmetric])

lemma put_last_wf: "dict_wf d \<Longrightarrow> dict_wf (put_last k v d)"
  unfolding put_last_eq using distinct_delete [of d k] by (simp add: dict_wf_def dom_delete)

lemma move_to_end_wf: "dict_wf d \<Longrightarrow> dict_wf (move_to_end k d)"
  using put_last_wf [of d k "the (map_of d k)"]
  by (auto simp: put_last_eq move_to_end_def split: option.split)

text \<open>The most recently stored entry survives the eviction, and what survives reads as before.\<close>

lemma evict_last:
  assumes "0 < bound"
  shows "evict_overflow bound (d @ [(k, v)]) = evict_overflow (bound - 1) d @ [(k, v)]"
  using assms by (auto simp: evict_overflow_def Suc_diff_le)

lemma map_of_suffix:
  assumes "dict_wf d" and "suffix e d" and "map_of e k = Some v"
  shows "map_of d k = Some v"
proof -
  from assms(2) obtain c where d: "d = c @ e" by (rule suffixE)
  from assms(3) have "(k, v) \<in> set d" by (auto simp: d dest: map_of_SomeD)
  with assms(1) show ?thesis by (simp add: dict_wf_def)
qed

lemma put_evict:
  assumes "dict_wf d" and "0 < bound"
  shows "map_of (evict_overflow bound (put_last k v d)) k = Some v"
    and "map_of (evict_overflow bound (put_last k v d)) k' = Some v' \<Longrightarrow> k' \<noteq> k \<Longrightarrow> map_of d k' = Some v'"
proof -
  have e: "evict_overflow bound (put_last k v d) = evict_overflow (bound - 1) (AList.delete k d) @ [(k, v)]"
    unfolding put_last_eq by (rule evict_last [OF assms(2)])
  have "k \<notin> fst ` set (evict_overflow (bound - 1) (AList.delete k d))"
    using set_mono_suffix [OF evict_suffix [of "bound - 1" "AList.delete k d"]] dom_delete [of k d] by blast
  then show "map_of (evict_overflow bound (put_last k v d)) k = Some v"
    unfolding e by (simp add: map_add_def split: option.split) (metis map_of_eq_None_iff option.distinct(1))
  assume "map_of (evict_overflow bound (put_last k v d)) k' = Some v'" and "k' \<noteq> k"
  then have "map_of (evict_overflow (bound - 1) (AList.delete k d)) k' = Some v'"
    unfolding e by (auto simp: map_add_def split: option.splits)
  from map_of_suffix [OF _ evict_suffix this] assms(1) \<open>k' \<noteq> k\<close> show "map_of d k' = Some v'"
    by (simp add: map_of_dict_delete)
qed

end
