(* ===== verification/ResearchBudget.thy ===== *)
theory ResearchBudget
  imports PyText LruStore
begin

text \<open>
  \<^verbatim>\<open>app/ai/research_budget.py\<close>: which searches a turn already made, across its epochs. The methods of
  one budget hold its lock, so each is one step; the store of budgets is the module's dictionary. A
  scope is the tuple of controls of a search, as a list of dynamic values. On ASCII text the NFKC form
  is the text itself and \<^verbatim>\<open>casefold\<close> is \<^verbatim>\<open>lower\<close>.
\<close>

section \<open>Queries\<close>

definition MAX_QUERY_CHARS :: nat where
  "MAX_QUERY_CHARS = 2048"

definition MAX_TOKENS :: nat where
  "MAX_TOKENS = 128"

definition MAX_TRACKED_CONVERSATIONS :: nat where
  "MAX_TRACKED_CONVERSATIONS = 256"

definition MAX_PERSISTED_SEARCHES :: nat where
  "MAX_PERSISTED_SEARCHES = 64"

definition RESEARCH_ACCOUNTING_SCHEMA_VERSION :: int where
  "RESEARCH_ACCOUNTING_SCHEMA_VERSION = 1"

definition token_char :: "char \<Rightarrow> bool" where
  "token_char c = (let n = (of_char (lower_char c) :: nat) in is_digit c \<or> (97 \<le> n \<and> n \<le> 122))"

function tokens_of :: "string \<Rightarrow> string list" where
  "tokens_of s =
     (case dropWhile (\<lambda>c. \<not> token_char c) s of
        [] \<Rightarrow> []
      | c # t \<Rightarrow> (c # takeWhile token_char t) # tokens_of (dropWhile token_char t))"
  by pat_completeness auto
termination
proof (relation "measure length", simp)
  fix s c t assume "dropWhile (\<lambda>c. \<not> token_char c) s = c # t"
  then have "length (c # t) \<le> length s" by (metis length_dropWhile_le)
  then show "(dropWhile token_char t, s) \<in> measure length"
    using length_dropWhile_le [of token_char t] by simp
qed

declare tokens_of.simps [simp del]

definition normalize_query_tokens :: "string \<Rightarrow> string set" where
  "normalize_query_tokens query = set (take MAX_TOKENS (tokens_of (lower (take MAX_QUERY_CHARS query))))"

definition near_duplicate :: "string set \<Rightarrow> string set \<Rightarrow> rat \<Rightarrow> bool" where
  "near_duplicate a b threshold =
     (let smaller = min (card a) (card b)
      in if smaller = 0 then False else of_nat (card (a \<inter> b)) / of_nat smaller \<ge> threshold)"

section \<open>One budget\<close>

type_synonym scope = "pyval list"

record research_budget =
  rb_threshold :: rat
  rb_max_image_searches :: int
  rb_searches :: "(string set \<times> scope \<times> string) list"
  rb_in_flight :: "(string set \<times> scope) list"
  rb_image_searches :: "string set list"
  rb_image_candidates :: "pyval list"
  rb_prior_searches :: "(string set \<times> scope) list"
  rb_prior_image_searches :: "string set list"
  rb_failed_searches :: "(string set \<times> scope) list"
  rb_epochs_recorded :: int

definition new_budget :: "rat \<Rightarrow> int \<Rightarrow> research_budget" where
  "new_budget threshold max_images =
     \<lparr>rb_threshold = threshold, rb_max_image_searches = max_images, rb_searches = [], rb_in_flight = [],
      rb_image_searches = [], rb_image_candidates = [], rb_prior_searches = [],
      rb_prior_image_searches = [], rb_failed_searches = [], rb_epochs_recorded = 1\<rparr>"

text \<open>Two token sets count as one query, and two searches as one when their controls agree too.\<close>

definition same_tokens :: "rat \<Rightarrow> string set \<Rightarrow> string set \<Rightarrow> bool" where
  "same_tokens threshold recorded tokens \<longleftrightarrow> recorded = tokens \<or> near_duplicate recorded tokens threshold"

definition same_search :: "rat \<Rightarrow> string set \<times> scope \<Rightarrow> string set \<times> scope \<Rightarrow> bool" where
  "same_search threshold recorded search \<longleftrightarrow>
     snd recorded = snd search \<and> same_tokens threshold (fst recorded) (fst search)"

definition search_calls :: "research_budget \<Rightarrow> nat" where
  "search_calls b = length (rb_searches b)"

definition find_reuse :: "string \<Rightarrow> scope \<Rightarrow> research_budget \<Rightarrow> string option" where
  "find_reuse query scope b =
     (let tokens = normalize_query_tokens query
      in map_option (\<lambda>(t, s, text). text)
           (find (\<lambda>(t, s, text). same_search (rb_threshold b) (t, s) (tokens, scope)) (rb_searches b)))"

definition searched_in_prior_epoch :: "string \<Rightarrow> scope \<Rightarrow> research_budget \<Rightarrow> bool" where
  "searched_in_prior_epoch query scope b =
     list_ex (\<lambda>r. same_search (rb_threshold b) r (normalize_query_tokens query, scope)) (rb_prior_searches b)"

definition reserve_search :: "string \<Rightarrow> scope \<Rightarrow> research_budget \<Rightarrow> string option \<times> research_budget" where
  "reserve_search query scope b =
     (let tokens = normalize_query_tokens query
      in if find_reuse query scope b \<noteq> None then (Some ''duplicate_query'', b)
         else if searched_in_prior_epoch query scope b then (Some ''duplicate_query'', b)
         else if list_ex (\<lambda>r. same_search (rb_threshold b) r (tokens, scope))
                   (rb_failed_searches b @ rb_in_flight b)
         then (Some ''duplicate_query'', b)
         else (None, b\<lparr>rb_in_flight := rb_in_flight b @ [(tokens, scope)]\<rparr>))"

definition release :: "string set \<Rightarrow> scope \<Rightarrow> research_budget \<Rightarrow> research_budget" where
  "release tokens scope b = b\<lparr>rb_in_flight := remove1 (tokens, scope) (rb_in_flight b)\<rparr>"

definition record_search :: "string \<Rightarrow> string \<Rightarrow> scope \<Rightarrow> research_budget \<Rightarrow> research_budget" where
  "record_search query result scope b =
     (let tokens = normalize_query_tokens query
      in release tokens scope (b\<lparr>rb_searches := rb_searches b @ [(tokens, scope, result)]\<rparr>))"

definition record_failed_search :: "string \<Rightarrow> scope \<Rightarrow> research_budget \<Rightarrow> research_budget" where
  "record_failed_search query scope b =
     (let tokens = normalize_query_tokens query
      in release tokens scope (b\<lparr>rb_failed_searches := rb_failed_searches b @ [(tokens, scope)]\<rparr>))"

definition release_search :: "string \<Rightarrow> scope \<Rightarrow> research_budget \<Rightarrow> research_budget" where
  "release_search query scope b = release (normalize_query_tokens query) scope b"

definition accumulated :: "research_budget \<Rightarrow> string list" where
  "accumulated b = map (\<lambda>(t, s, text). text) (rb_searches b)"

definition may_image_search :: "research_budget \<Rightarrow> bool" where
  "may_image_search b \<longleftrightarrow> int (length (rb_image_searches b)) < max 1 (rb_max_image_searches b)"

definition reserve_image_search :: "string \<Rightarrow> research_budget \<Rightarrow> bool \<times> research_budget" where
  "reserve_image_search image_query b =
     (let tokens = normalize_query_tokens image_query
      in if list_ex (\<lambda>searched. same_tokens (rb_threshold b) searched tokens)
              (rb_image_searches b @ rb_prior_image_searches b)
         then (False, b)
         else if int (length (rb_image_searches b)) \<ge> max 1 (rb_max_image_searches b) then (False, b)
         else (True, b\<lparr>rb_image_searches := rb_image_searches b @ [tokens]\<rparr>))"

definition record_image_search :: "pyval list \<Rightarrow> research_budget \<Rightarrow> research_budget" where
  "record_image_search candidates b = b\<lparr>rb_image_candidates := rb_image_candidates b @ candidates\<rparr>"

definition image_result :: "research_budget \<Rightarrow> pyval list" where
  "image_result b = rb_image_candidates b"

section \<open>Across epochs\<close>

definition tokens_list :: "string set \<Rightarrow> pyval" where
  "tokens_list tokens = PList (map PStr (sorted_list_of_set tokens))"

definition search_entry :: "string set \<times> scope \<Rightarrow> pyval" where
  "search_entry r = PDict [(''tokens'', tokens_list (fst r)), (''scope'', PList (snd r))]"

definition to_state :: "research_budget \<Rightarrow> (string \<times> pyval) list" where
  "to_state b =
     (let searched = map (\<lambda>(t, s, text). search_entry (t, s)) (rb_searches b) @
            map search_entry (rb_prior_searches b);
          subjects = map tokens_list (rb_image_searches b) @ map tokens_list (rb_prior_image_searches b)
      in [(''schema_version'', PInt RESEARCH_ACCOUNTING_SCHEMA_VERSION),
          (''searched'', PList (take MAX_PERSISTED_SEARCHES searched)),
          (''image_subjects'', PList (take MAX_PERSISTED_SEARCHES subjects)),
          (''epochs_recorded'', PInt (rb_epochs_recorded b))])"

text \<open>The canonical form of the controls of a web search, from the forms older rows hold.\<close>

fun pylist :: "pyval \<Rightarrow> pyval list option" where
  "pylist (PList xs) = Some xs"
| "pylist v = None"

definition undate :: "pyval \<Rightarrow> pyval" where
  "undate v = (case v of PDate d \<Rightarrow> PStr d | _ \<Rightarrow> v)"

definition join_domains :: "pyval \<Rightarrow> pyval" where
  "join_domains v =
     (case v of
        PList xs \<Rightarrow> PStr (join_on (CHR '','') (map py_text xs))
      | PTuple xs \<Rightarrow> PStr (join_on (CHR '','') (map py_text xs))
      | _ \<Rightarrow> v)"

definition web_scope :: "scope \<Rightarrow> bool" where
  "web_scope scope \<longleftrightarrow>
     length scope \<in> {6, 7} \<and>
     scope ! 0 \<in> {PStr ''none'', PStr ''timeless'', PStr ''recent'', PStr ''as_of''} \<and>
     scope ! 4 \<in> {PStr ''none'', PStr ''figure'', PStr ''comparison'', PStr ''gallery''} \<and>
     (case scope ! 3 of PStr s \<Rightarrow> True | PList xs \<Rightarrow> True | PTuple xs \<Rightarrow> True | _ \<Rightarrow> False)"

definition restore_scope :: "scope \<Rightarrow> scope" where
  "restore_scope scope =
     (if web_scope scope
      then let dated = scope[1 := undate (scope ! 1), 2 := undate (scope ! 2)];
               joined = dated[3 := join_domains (dated ! 3)]
           in if length joined = 6
              then joined @ [PStr (if joined ! 0 = PStr ''recent'' then ''news'' else ''general'')]
              else joined
      else scope)"

definition read_tokens :: "pyval list \<Rightarrow> string set" where
  "read_tokens tokens = set (map py_text tokens)"

fun read_searched :: "pyval list \<Rightarrow> string + (string set \<times> scope) list" where
  "read_searched [] = Inr []"
| "read_searched (entry # entries) =
     (case entry of
        PDict d \<Rightarrow>
          (case (pget d ''tokens'', pget d ''scope'') of
             (PList tokens, PList scope) \<Rightarrow>
               (case read_searched entries of
                  Inl e \<Rightarrow> Inl e
                | Inr rs \<Rightarrow> Inr ((read_tokens tokens, restore_scope scope) # rs))
           | _ \<Rightarrow> Inl ''a searched entry has a malformed shape'')
      | _ \<Rightarrow> Inl ''a searched entry is not an object'')"

fun read_subjects :: "pyval list \<Rightarrow> string + string set list" where
  "read_subjects [] = Inr []"
| "read_subjects (entry # entries) =
     (case entry of
        PList tokens \<Rightarrow>
          (case read_subjects entries of Inl e \<Rightarrow> Inl e | Inr rs \<Rightarrow> Inr (read_tokens tokens # rs))
      | _ \<Rightarrow> Inl ''an image subject is not a list of tokens'')"

record research_settings =
  rs_threshold :: rat
  rs_max_image_searches :: int

text \<open>The version must equal 1; \<^verbatim>\<open>True\<close> does.\<close>

definition version_ok :: "pyval \<Rightarrow> bool" where
  "version_ok v \<longleftrightarrow> v = PInt RESEARCH_ACCOUNTING_SCHEMA_VERSION \<or> v = PBool True"

definition research_budget_from_state :: "research_settings \<Rightarrow> pyval \<Rightarrow> string + research_budget" where
  "research_budget_from_state settings payload =
     (case payload of
        PDict d \<Rightarrow>
          if \<not> version_ok (pget d ''schema_version'')
          then Inl ''unsupported research accounting schema version''
          else (case pget d ''searched'' of
            PList searched \<Rightarrow>
              (case read_searched searched of
                 Inl e \<Rightarrow> Inl e
               | Inr prior \<Rightarrow>
                   (case (case pget d ''image_subjects'' of
                            PNone \<Rightarrow> Inr []
                          | PList subjects \<Rightarrow> read_subjects subjects
                          | _ \<Rightarrow> Inl ''image_subjects must be a list'') of
                      Inl e \<Rightarrow> Inl e
                    | Inr images \<Rightarrow>
                        (case py_int_or (pget d ''epochs_recorded'') 1 of
                           None \<Rightarrow> Inl ''epochs_recorded is not an integer''
                         | Some epochs \<Rightarrow> Inr
                             ((new_budget (rs_threshold settings) (max 1 (rs_max_image_searches settings)))
                               \<lparr>rb_prior_searches := prior, rb_prior_image_searches := images,
                                rb_epochs_recorded := max 1 epochs + 1\<rparr>))))
          | _ \<Rightarrow> Inl ''research accounting is missing its searched list'')
      | _ \<Rightarrow> Inl ''research accounting must be an object'')"

section \<open>The store\<close>

type_synonym budget_store = "(string, research_budget) dict"

definition budget_key :: "string option \<Rightarrow> string option \<Rightarrow> string" where
  "budget_key logical_turn_id conversation_id =
     (let turn = py_strip (case logical_turn_id of None \<Rightarrow> [] | Some t \<Rightarrow> t);
          conversation = py_strip (case conversation_id of None \<Rightarrow> [] | Some c \<Rightarrow> c)
      in if turn \<noteq> [] then ''turn:'' @ turn
         else if conversation \<noteq> [] then ''conversation:'' @ conversation
         else ''__no_turn__'')"

definition evict_budgets :: "budget_store \<Rightarrow> budget_store" where
  "evict_budgets store = evict_overflow MAX_TRACKED_CONVERSATIONS store"

definition get_research_budget ::
  "research_settings \<Rightarrow> string \<Rightarrow> budget_store \<Rightarrow> research_budget \<times> budget_store" where
  "get_research_budget settings key store =
     (case map_of store key of
        None \<Rightarrow>
          (let b = new_budget (rs_threshold settings) (max 1 (rs_max_image_searches settings))
           in (b, evict_budgets (move_to_end key (AList.update key b store))))
      | Some b \<Rightarrow> (b, evict_budgets (move_to_end key store)))"

definition install_research_budget ::
  "research_settings \<Rightarrow> pyval \<Rightarrow> string \<Rightarrow> budget_store \<Rightarrow> (string + research_budget) \<times> budget_store" where
  "install_research_budget settings payload key store =
     (case research_budget_from_state settings payload of
        Inl e \<Rightarrow> (Inl e, store)
      | Inr b \<Rightarrow> (Inr b, evict_budgets (move_to_end key (AList.update key b store))))"

definition snapshot_research_budget :: "string \<Rightarrow> budget_store \<Rightarrow> (string \<times> pyval) list option" where
  "snapshot_research_budget key store =
     (case map_of store key of
        None \<Rightarrow> None
      | Some b \<Rightarrow>
          (let state = to_state b
           in if \<not> truthy (pget state ''searched'') \<and> \<not> truthy (pget state ''image_subjects'')
              then None else Some state))"

definition reset_research_budget :: "string \<Rightarrow> budget_store \<Rightarrow> budget_store" where
  "reset_research_budget key store = AList.delete key store"

text \<open>
  A method called on a live budget changes the entry the store shares with its caller, while it has one.
\<close>

definition with_budget :: "string \<Rightarrow> (research_budget \<Rightarrow> research_budget) \<Rightarrow> budget_store \<Rightarrow> budget_store" where
  "with_budget key f store = map (\<lambda>(k, b). if k = key then (k, f b) else (k, b)) store"

section \<open>What a budget refuses\<close>

text \<open>Every search the budget remembers, in the order it looks at them.\<close>

definition known_searches :: "research_budget \<Rightarrow> (string set \<times> scope) list" where
  "known_searches b =
     map (\<lambda>(t, s, text). (t, s)) (rb_searches b) @ rb_prior_searches b @ rb_failed_searches b @ rb_in_flight b"

lemma find_found: "find P xs = None \<longleftrightarrow> (\<forall>x \<in> set xs. \<not> P x)"
  by (induction xs) auto

lemma find_reuse_known:
  "find_reuse query scope b \<noteq> None \<longleftrightarrow>
   (\<exists>r \<in> set (map (\<lambda>(t, s, text). (t, s)) (rb_searches b)).
      same_search (rb_threshold b) r (normalize_query_tokens query, scope))"
  by (auto simp: find_reuse_def Let_def find_found) force

lemma reserve_search_known:
  "reserve_search query scope b =
     (if \<exists>r \<in> set (known_searches b). same_search (rb_threshold b) r (normalize_query_tokens query, scope)
      then (Some ''duplicate_query'', b)
      else (None, b\<lparr>rb_in_flight := rb_in_flight b @ [(normalize_query_tokens query, scope)]\<rparr>))"
  unfolding reserve_search_def Let_def find_reuse_known searched_in_prior_epoch_def known_searches_def
  by (auto simp: list_ex_iff)

datatype research_op =
    Reserve string scope
  | Record string string scope
  | RecordFailed string scope
  | Release string scope

fun research_step :: "research_op \<Rightarrow> research_budget \<Rightarrow> research_budget" where
  "research_step (Reserve q s) b = snd (reserve_search q s b)"
| "research_step (Record q text s) b = record_search q text s b"
| "research_step (RecordFailed q s) b = record_failed_search q s b"
| "research_step (Release q s) b = release_search q s b"

text \<open>Only a cancelled call gives a search back.\<close>

fun gives_back :: "string set \<times> scope \<Rightarrow> research_op \<Rightarrow> bool" where
  "gives_back r (Release q s) \<longleftrightarrow> r = (normalize_query_tokens q, s)"
| "gives_back r op \<longleftrightarrow> False"

lemma in_remove1: "x \<in> set (remove1 y xs) \<or> x = y" if "x \<in> set xs"
  using that by (induction xs) auto

lemma research_step_remembers:
  assumes "r \<in> set (known_searches b)" and "\<not> gives_back r op"
  shows "r \<in> set (known_searches (research_step op b))"
  using assms
  by (cases op)
    (auto simp: reserve_search_known known_searches_def record_search_def record_failed_search_def
      release_search_def release_def Let_def dest: in_remove1)

lemma research_step_threshold [simp]: "rb_threshold (research_step op b) = rb_threshold b"
  by (cases op)
    (auto simp: reserve_search_known record_search_def record_failed_search_def release_search_def
      release_def Let_def)

lemma research_steps_remember:
  assumes "r \<in> set (known_searches b)" and "\<forall>op \<in> set ops. \<not> gives_back r op"
  shows "r \<in> set (known_searches (fold research_step ops b)) \<and>
    rb_threshold (fold research_step ops b) = rb_threshold b"
  using assms
proof (induction ops arbitrary: b)
  case (Cons op ops)
  have "r \<in> set (known_searches (research_step op b))"
    using research_step_remembers Cons.prems by auto
  from Cons.IH [OF this] Cons.prems show ?case by auto
qed simp

text \<open>
  C13: no search is made twice in an epoch. A search is refused exactly when the budget remembers one
  with the same controls and the same or nearly the same words: done, failed, running or of an earlier
  epoch. And once granted, it and every near duplicate stay refused whatever else the turn does, unless
  the granted call itself was cancelled.
\<close>

theorem search_not_repeated:
  "(fst (reserve_search q s b) = Some ''duplicate_query'' \<longleftrightarrow>
      (\<exists>r \<in> set (known_searches b). same_search (rb_threshold b) r (normalize_query_tokens q, s))) \<and>
   (fst (reserve_search q s b) = None \<longrightarrow>
      (\<forall>op \<in> set ops. \<not> gives_back (normalize_query_tokens q, s) op) \<longrightarrow>
      same_search (rb_threshold b) (normalize_query_tokens q, s) (normalize_query_tokens q', s') \<longrightarrow>
      fst (reserve_search q' s' (fold research_step ops (snd (reserve_search q s b)))) =
        Some ''duplicate_query'')"
proof -
  let ?r = "(normalize_query_tokens q, s)" and ?b = "snd (reserve_search q s b)"
  have "fst (reserve_search q' s' (fold research_step ops ?b)) = Some ''duplicate_query''"
    if "fst (reserve_search q s b) = None" and "\<forall>op \<in> set ops. \<not> gives_back ?r op"
      and "same_search (rb_threshold b) ?r (normalize_query_tokens q', s')"
  proof -
    have "?r \<in> set (known_searches ?b)" and t: "rb_threshold ?b = rb_threshold b"
      using that(1) by (auto simp: reserve_search_known known_searches_def split: if_splits)
    from research_steps_remember [OF this(1) that(2)] that(3) t
    have "?r \<in> set (known_searches (fold research_step ops ?b))"
      "same_search (rb_threshold (fold research_step ops ?b)) ?r (normalize_query_tokens q', s')"
      by simp_all
    then show ?thesis unfolding reserve_search_known [of q' s'] by auto
  qed
  then show ?thesis by (auto simp: reserve_search_known)
qed

lemma normalize_short:
  assumes "length q \<le> 2048" and "tokens_of (lower q) = ts" and "length ts \<le> 128"
  shows "normalize_query_tokens q = set ts"
  using assms by (simp add: normalize_query_tokens_def MAX_QUERY_CHARS_def MAX_TOKENS_def)

lemma demo_query: "normalize_query_tokens ''a'' = {''a''}"
proof -
  have t: "token_char CHR ''a''" and l: "lower_char CHR ''a'' = CHR ''a''" by code_simp+
  then have "tokens_of (lower ''a'') = [''a'']" by (simp add: tokens_of.simps lower_def)
  from normalize_short [OF _ this] show ?thesis by simp
qed

theorem search_not_repeated_witness:
  "fst (reserve_search ''a'' [] (fold research_step [RecordFailed ''a'' []]
     (snd (reserve_search ''a'' [] (new_budget (3/4) 1))))) = Some ''duplicate_query''"
proof -
  have "fst (reserve_search ''a'' [] (new_budget (3/4) 1)) = None"
    by (simp add: reserve_search_known known_searches_def new_budget_def)
  then show ?thesis
    using search_not_repeated [of "''a''" "[]" "new_budget (3/4) 1" "[RecordFailed ''a'' []]"
        "''a''" "[]"]
    by (simp add: same_search_def same_tokens_def)
qed

section \<open>What a Continue carries\<close>

definition searched_before :: "research_budget \<Rightarrow> (string set \<times> scope) list" where
  "searched_before b = map (\<lambda>(t, s, text). (t, s)) (rb_searches b) @ rb_prior_searches b"

definition subjects_before :: "research_budget \<Rightarrow> string set list" where
  "subjects_before b = rb_image_searches b @ rb_prior_image_searches b"

text \<open>Token sets come from queries and payloads, so they are finite.\<close>

definition finite_tokens :: "research_budget \<Rightarrow> bool" where
  "finite_tokens b \<longleftrightarrow>
     (\<forall>r \<in> set (searched_before b). finite (fst r)) \<and> (\<forall>t \<in> set (subjects_before b). finite t)"

lemma normalize_finite [simp]: "finite (normalize_query_tokens q)"
  by (simp add: normalize_query_tokens_def)

lemma finite_tokens_step: "finite_tokens b \<Longrightarrow> finite_tokens (research_step op b)"
  by (cases op)
    (auto simp: finite_tokens_def searched_before_def subjects_before_def reserve_search_known
      record_search_def record_failed_search_def release_search_def release_def Let_def)

lemma finite_tokens_image: "finite_tokens b \<Longrightarrow> finite_tokens (snd (reserve_image_search q b))"
  by (auto simp: finite_tokens_def searched_before_def subjects_before_def reserve_image_search_def Let_def)

lemma read_tokens_list: "finite t \<Longrightarrow> read_tokens (map PStr (sorted_list_of_set t)) = t"
  by (simp add: read_tokens_def image_image)

lemma read_searched_entries:
  "\<forall>r \<in> set rs. finite (fst r) \<Longrightarrow>
   read_searched (map search_entry rs) = Inr (map (\<lambda>(t, s). (t, restore_scope s)) rs)"
  by (induction rs) (auto simp: search_entry_def tokens_list_def pget_def read_tokens_list)

lemma read_subjects_entries:
  "\<forall>t \<in> set ts. finite t \<Longrightarrow> read_subjects (map tokens_list ts) = Inr ts"
  by (induction ts) (auto simp: tokens_list_def read_tokens_list)

lemma to_state_fields:
  "pget (to_state b) ''schema_version'' = PInt 1"
  "pget (to_state b) ''searched'' =
     PList (take MAX_PERSISTED_SEARCHES (map search_entry (searched_before b)))"
  "pget (to_state b) ''image_subjects'' =
     PList (take MAX_PERSISTED_SEARCHES (map tokens_list (subjects_before b)))"
  "pget (to_state b) ''epochs_recorded'' = PInt (rb_epochs_recorded b)"
  by (simp_all add: to_state_def pget_def Let_def RESEARCH_ACCOUNTING_SCHEMA_VERSION_def searched_before_def
      subjects_before_def case_prod_unfold comp_def)

definition next_research_epoch :: "research_settings \<Rightarrow> research_budget \<Rightarrow> research_budget" where
  "next_research_epoch settings b =
     (new_budget (rs_threshold settings) (max 1 (rs_max_image_searches settings)))
       \<lparr>rb_prior_searches := map (\<lambda>(t, s). (t, restore_scope s)) (take MAX_PERSISTED_SEARCHES (searched_before b)),
        rb_prior_image_searches := take MAX_PERSISTED_SEARCHES (subjects_before b),
        rb_epochs_recorded := rb_epochs_recorded b + 1\<rparr>"

lemma in_take: "x \<in> set (take n xs) \<Longrightarrow> x \<in> set xs"
  by (rule in_set_takeD)

lemma state_roundtrip:
  assumes "finite_tokens b" and "1 \<le> rb_epochs_recorded b"
  shows "research_budget_from_state settings (PDict (to_state b)) = Inr (next_research_epoch settings b)"
proof -
  have s: "read_searched (take MAX_PERSISTED_SEARCHES (map search_entry (searched_before b))) =
      Inr (map (\<lambda>(t, s). (t, restore_scope s)) (take MAX_PERSISTED_SEARCHES (searched_before b)))"
    unfolding take_map using assms(1)
    by (intro read_searched_entries) (auto simp: finite_tokens_def dest: in_take)
  have i: "read_subjects (take MAX_PERSISTED_SEARCHES (map tokens_list (subjects_before b))) =
      Inr (take MAX_PERSISTED_SEARCHES (subjects_before b))"
    unfolding take_map using assms(1)
    by (intro read_subjects_entries) (auto simp: finite_tokens_def dest: in_take)
  have e: "py_int_or (PInt (rb_epochs_recorded b)) 1 = Some (rb_epochs_recorded b)"
    using assms(2) by (simp add: py_int_or_def)
  have v: "version_ok (PInt 1)"
    by (simp add: version_ok_def RESEARCH_ACCOUNTING_SCHEMA_VERSION_def)
  show ?thesis
    using assms(2)
    by (simp add: research_budget_from_state_def to_state_fields s i e v next_research_epoch_def)
qed

lemma prior_refused:
  assumes "r \<in> set (rb_prior_searches b)"
    and "same_search (rb_threshold b) r (normalize_query_tokens q, s)"
  shows "fst (reserve_search q s b) = Some ''duplicate_query''"
  using assms by (auto simp: reserve_search_known known_searches_def)

text \<open>
  A Continue keeps the memory and gives the allowance back. A turn's saved accounting reads back,
  in any process, as a budget that has made no search of its own, and each of the first 64 searches it
  lists, and every near duplicate, is refused, when the controls were in their canonical form.
\<close>

theorem continue_refuses_repeats:
  assumes "finite_tokens b" and "1 \<le> rb_epochs_recorded b"
    and "r \<in> set (take 64 (searched_before b))" and "restore_scope (snd r) = snd r"
    and "same_search (rs_threshold settings) r (normalize_query_tokens q, s)"
  shows "\<exists>b'. research_budget_from_state settings (PDict (to_state b)) = Inr b' \<and>
    search_calls b' = 0 \<and> rb_in_flight b' = [] \<and> rb_image_searches b' = [] \<and>
    rb_epochs_recorded b' = rb_epochs_recorded b + 1 \<and>
    fst (reserve_search q s b') = Some ''duplicate_query''"
proof (intro exI conjI)
  let ?b = "next_research_epoch settings b"
  show "research_budget_from_state settings (PDict (to_state b)) = Inr ?b"
    by (rule state_roundtrip [OF assms(1,2)])
  show "search_calls ?b = 0" "rb_in_flight ?b = []" "rb_image_searches ?b = []"
    "rb_epochs_recorded ?b = rb_epochs_recorded b + 1"
    by (simp_all add: next_research_epoch_def search_calls_def new_budget_def)
  have "rb_threshold ?b = rs_threshold settings"
    by (simp add: next_research_epoch_def new_budget_def)
  moreover have "r \<in> set (rb_prior_searches ?b)"
    using imageI [OF assms(3), of "\<lambda>(t, s). (t, restore_scope s)"] assms(4)
    by (simp add: next_research_epoch_def MAX_PERSISTED_SEARCHES_def case_prod_unfold)
  ultimately show "fst (reserve_search q s ?b) = Some ''duplicate_query''"
    using prior_refused assms(5) by simp
qed

definition demo_research :: research_budget where
  "demo_research = record_search ''a'' ''found'' [PStr ''web''] (new_budget (3/4) 1)"

definition demo_settings :: research_settings where
  "demo_settings = \<lparr>rs_threshold = 3/4, rs_max_image_searches = 1\<rparr>"

theorem continue_refuses_repeats_witness:
  "\<exists>b'. research_budget_from_state demo_settings (PDict (to_state demo_research)) = Inr b' \<and>
     fst (reserve_search ''a'' [PStr ''web''] b') = Some ''duplicate_query''"
proof -
  have b: "searched_before demo_research = [({''a''}, [PStr ''web''])]"
    "subjects_before demo_research = []" "rb_epochs_recorded demo_research = 1"
    by (simp_all add: demo_research_def record_search_def release_def searched_before_def subjects_before_def
        new_budget_def demo_query Let_def)
  have "finite_tokens demo_research" by (simp add: finite_tokens_def b)
  moreover have "restore_scope [PStr ''web''] = [PStr ''web'']"
    by (simp add: restore_scope_def web_scope_def)
  ultimately show ?thesis
    using continue_refuses_repeats [of demo_research "({''a''}, [PStr ''web''])" demo_settings
        "''a''" "[PStr ''web'']"]
    by (auto simp: b demo_query same_search_def same_tokens_def)
qed

text \<open>
  The saved list is cut at the wrong end. Once an epoch made 64 searches, what is kept are its
  oldest 64: a later search of the epoch, and everything of the epochs before, is forgotten, and a
  Continue may make it again.
\<close>

theorem newest_searches_forgotten:
  assumes "finite_tokens b" and "1 \<le> rb_epochs_recorded b" and "64 \<le> search_calls b"
    and "\<forall>r \<in> set (take 64 (rb_searches b)).
      \<not> same_search (rs_threshold settings) (fst r, restore_scope (fst (snd r))) (normalize_query_tokens q, s)"
  shows "\<exists>b'. research_budget_from_state settings (PDict (to_state b)) = Inr b' \<and>
    rb_prior_searches b' = map (\<lambda>(t, s, text). (t, restore_scope s)) (take 64 (rb_searches b)) \<and>
    fst (reserve_search q s b') = None"
proof (intro exI conjI)
  let ?b = "next_research_epoch settings b"
  show "research_budget_from_state settings (PDict (to_state b)) = Inr ?b"
    by (rule state_roundtrip [OF assms(1,2)])
  have "take 64 (searched_before b) = map (\<lambda>(t, s, text). (t, s)) (take 64 (rb_searches b))"
    using assms(3) by (simp add: searched_before_def search_calls_def take_map)
  then show prior: "rb_prior_searches ?b = map (\<lambda>(t, s, text). (t, restore_scope s)) (take 64 (rb_searches b))"
    by (simp add: next_research_epoch_def MAX_PERSISTED_SEARCHES_def comp_def case_prod_unfold)
  have "known_searches ?b = rb_prior_searches ?b" and "rb_threshold ?b = rs_threshold settings"
    by (simp_all add: next_research_epoch_def known_searches_def new_budget_def)
  with assms(4) show "fst (reserve_search q s ?b) = None"
    by (auto simp: reserve_search_known prior)
qed

text \<open>Sixty-five searches for distinct words, each a run of the same letter.\<close>

definition demo_word :: "nat \<Rightarrow> string" where
  "demo_word n = replicate (Suc n) CHR ''a''"

definition busy_research :: research_budget where
  "busy_research =
     (new_budget (3/4) 1)\<lparr>rb_searches := map (\<lambda>n. ({demo_word n}, [], [])) [0..<65]\<rparr>"

lemma demo_word_query: "n < 2000 \<Longrightarrow> normalize_query_tokens (demo_word n) = {demo_word n}"
proof -
  assume "n < 2000"
  have t: "token_char CHR ''a''" and l: "lower_char CHR ''a'' = CHR ''a''" by code_simp+
  have "lower (demo_word n) = demo_word n" by (simp add: lower_def demo_word_def l)
  moreover have "tokens_of (demo_word n) = [demo_word n]"
    using t by (simp add: tokens_of.simps demo_word_def)
  ultimately show ?thesis
    using normalize_short [of "demo_word n" "[demo_word n]"] \<open>n < 2000\<close> by (simp add: demo_word_def)
qed

lemma demo_word_inj: "demo_word m = demo_word n \<longleftrightarrow> m = n"
  by (auto simp: demo_word_def dest: arg_cong [of _ _ length])

theorem newest_searches_forgotten_witness:
  "\<exists>b'. research_budget_from_state demo_settings (PDict (to_state busy_research)) = Inr b' \<and>
     fst (reserve_search (demo_word 64) [] busy_research) = Some ''duplicate_query'' \<and>
     fst (reserve_search (demo_word 64) [] b') = None"
proof -
  have b: "searched_before busy_research = map (\<lambda>n. ({demo_word n}, [])) [0..<65]"
    "rb_searches busy_research = map (\<lambda>n. ({demo_word n}, [], [])) [0..<65]"
    "subjects_before busy_research = []" "rb_epochs_recorded busy_research = 1"
    by (simp_all add: busy_research_def searched_before_def subjects_before_def new_budget_def comp_def del: upt.simps upt_rec_numeral)
  have "fst (reserve_search (demo_word 64) [] busy_research) = Some ''duplicate_query''"
    unfolding reserve_search_known known_searches_def b
    by (auto simp: demo_word_query same_search_def same_tokens_def intro!: bexI [of _ "({demo_word 64}, [])"]
        simp del: upt.simps upt_rec_numeral)
  moreover have "finite_tokens busy_research" and "64 \<le> search_calls busy_research"
    by (auto simp: finite_tokens_def b search_calls_def simp del: upt.simps upt_rec_numeral)
  moreover have "\<forall>r \<in> set (take 64 (rb_searches busy_research)).
      \<not> same_search (rs_threshold demo_settings) (fst r, restore_scope (fst (snd r)))
        (normalize_query_tokens (demo_word 64), [])"
    unfolding b
    by (auto simp: take_map demo_word_query same_search_def same_tokens_def demo_word_inj near_duplicate_def
        demo_settings_def Let_def simp del: upt.simps upt_rec_numeral)
  ultimately show ?thesis
    using newest_searches_forgotten [of busy_research demo_settings "demo_word 64" "[]"] by (auto simp: b)
qed

section \<open>The store keeps turns apart\<close>

lemma budget_key_turn:
  "py_strip t \<noteq> [] \<Longrightarrow> budget_key (Some t) c = ''turn:'' @ py_strip t"
  by (simp add: budget_key_def Let_def)

lemma budget_key_cases:
  "(\<exists>t. lt = Some t \<and> py_strip t \<noteq> [] \<and> budget_key lt c = ''turn:'' @ py_strip t) \<or>
   hd (budget_key lt c) \<noteq> CHR ''t''"
  by (cases lt) (auto simp: budget_key_def Let_def)

lemma budget_key_eq:
  assumes "py_strip t1 \<noteq> []"
  shows "budget_key (Some t1) c1 = budget_key t2 c2 \<longleftrightarrow> (\<exists>t. t2 = Some t \<and> py_strip t = py_strip t1)"
proof
  assume eq: "budget_key (Some t1) c1 = budget_key t2 c2"
  then have "hd (budget_key t2 c2) = CHR ''t''" by (simp add: budget_key_turn [OF assms] flip: eq)
  with budget_key_cases [of t2 c2] obtain t where
    t: "t2 = Some t" "budget_key t2 c2 = ''turn:'' @ py_strip t" by blast
  with eq show "\<exists>t. t2 = Some t \<and> py_strip t = py_strip t1" by (simp add: budget_key_turn [OF assms])
next
  assume "\<exists>t. t2 = Some t \<and> py_strip t = py_strip t1"
  then show "budget_key (Some t1) c1 = budget_key t2 c2"
    using budget_key_turn [OF assms] budget_key_turn assms by auto
qed

text \<open>One use of the store: look up, restore, drop, or a method on a live budget.\<close>

datatype store_op =
    Get string
  | Install pyval string
  | Reset string
  | Method "research_budget \<Rightarrow> research_budget" string

fun store_step :: "research_settings \<Rightarrow> store_op \<Rightarrow> budget_store \<Rightarrow> budget_store" where
  "store_step settings (Get key) store = snd (get_research_budget settings key store)"
| "store_step settings (Install payload key) store = snd (install_research_budget settings payload key store)"
| "store_step settings (Reset key) store = reset_research_budget key store"
| "store_step settings (Method f key) store = with_budget key f store"

fun op_key :: "store_op \<Rightarrow> string" where
  "op_key (Get key) = key"
| "op_key (Install payload key) = key"
| "op_key (Reset key) = key"
| "op_key (Method f key) = key"

lemma get_store:
  "snd (get_research_budget settings key store) =
   evict_overflow MAX_TRACKED_CONVERSATIONS (put_last key (fst (get_research_budget settings key store)) store)"
  by (auto simp: get_research_budget_def evict_budgets_def put_last_eq Let_def move_to_end_def update_conv'
      delete_updated split: option.split)

lemma install_store:
  "snd (install_research_budget settings payload key store) =
   (case research_budget_from_state settings payload of
      Inl e \<Rightarrow> store | Inr b \<Rightarrow> evict_overflow MAX_TRACKED_CONVERSATIONS (put_last key b store))"
  by (simp add: install_research_budget_def evict_budgets_def put_last_def split: sum.split)

lemma with_budget_keys: "map fst (with_budget key f store) = map fst store"
  by (simp add: with_budget_def comp_def case_prod_unfold if_distrib cong: if_cong)

lemma map_of_with_budget:
  "map_of (with_budget key f store) k = (if k = key then map_option f (map_of store k) else map_of store k)"
  by (induction store) (auto simp: with_budget_def)

definition store_ok :: "budget_store \<Rightarrow> bool" where
  "store_ok store \<longleftrightarrow> dict_wf store \<and> length store \<le> MAX_TRACKED_CONVERSATIONS"

lemma store_step_ok: "store_ok store \<Longrightarrow> store_ok (store_step settings op store)"
proof (cases op)
  case (Method f key)
  assume "store_ok store"
  moreover have "length (with_budget key f store) = length store" by (simp add: with_budget_def)
  ultimately show ?thesis
    by (simp add: Method store_ok_def dict_wf_def with_budget_keys)
qed (auto simp: store_ok_def get_store install_store evict_length evict_wf put_last_wf
      reset_research_budget_def intro: order_trans [OF length_delete_le] split: sum.split)

lemma store_step_other:
  assumes "store_ok store" and "k \<noteq> op_key op" and "map_of (store_step settings op store) k = Some b"
  shows "map_of store k = Some b"
proof -
  have bound: "0 < MAX_TRACKED_CONVERSATIONS" by (simp add: MAX_TRACKED_CONVERSATIONS_def)
  from assms show ?thesis
    using put_evict(2) [OF _ bound]
    by (cases op)
      (auto simp: store_ok_def get_store install_store reset_research_budget_def map_of_dict_delete
        map_of_with_budget split: sum.splits if_splits)
qed

lemma store_steps_ok: "store_ok store \<Longrightarrow> store_ok (fold (store_step settings) ops store)"
  by (induction ops arbitrary: store) (auto intro: store_step_ok)

lemma store_steps_other:
  assumes "store_ok store" and "\<forall>op \<in> set ops. op_key op \<noteq> k"
    and "map_of (fold (store_step settings) ops store) k = Some b"
  shows "map_of store k = Some b"
  using assms
proof (induction ops arbitrary: store)
  case (Cons op ops)
  from Cons.IH [of "store_step settings op store"] Cons.prems store_step_ok [OF Cons.prems(1)]
  have "map_of (store_step settings op store) k = Some b" by simp
  moreover have "k \<noteq> op_key op" using Cons.prems(2) by auto
  ultimately show ?case using store_step_other [OF Cons.prems(1)] by blast
qed simp

text \<open>
  Turns do not see each other's accounting, and the store stays bounded. Whatever is done for
  other turns, at most 256 budgets are kept, and a turn that is still in the store reads the budget it
  left there, never another's; a lookup always hands out a budget, and two turns share a key only when
  their stripped ids are equal.
\<close>

theorem budgets_isolated:
  assumes "store_ok store" and "\<forall>op \<in> set ops. op_key op \<noteq> key"
  shows "length (fold (store_step settings) ops store) \<le> 256 \<and>
    (\<forall>b. map_of (fold (store_step settings) ops store) key = Some b \<longrightarrow> map_of store key = Some b) \<and>
    map_of (snd (get_research_budget settings key store)) key = Some (fst (get_research_budget settings key store)) \<and>
    (py_strip t1 \<noteq> [] \<longrightarrow>
       (budget_key (Some t1) c1 = budget_key t2 c2 \<longleftrightarrow> (\<exists>t. t2 = Some t \<and> py_strip t = py_strip t1)))"
proof -
  have "length (fold (store_step settings) ops store) \<le> 256"
    using store_steps_ok [OF assms(1)] by (simp add: store_ok_def MAX_TRACKED_CONVERSATIONS_def)
  moreover have "0 < MAX_TRACKED_CONVERSATIONS" by (simp add: MAX_TRACKED_CONVERSATIONS_def)
  then have "map_of (snd (get_research_budget settings key store)) key = Some (fst (get_research_budget settings key store))"
    unfolding get_store using put_evict(1) assms(1) by (auto simp: store_ok_def)
  ultimately show ?thesis using store_steps_other [OF assms] budget_key_eq by blast
qed

theorem budgets_isolated_witness:
  "length (fold (store_step demo_settings) [Get ''turn:b'', Reset ''turn:c''] [(''turn:a'', demo_research)]) \<le> 256 \<and>
   map_of (fold (store_step demo_settings) [Get ''turn:b'', Reset ''turn:c''] [(''turn:a'', demo_research)]) ''turn:a'' =
     Some demo_research"
proof -
  have "store_ok [(''turn:a'', demo_research)]"
    by (simp add: store_ok_def dict_wf_def MAX_TRACKED_CONVERSATIONS_def)
  moreover have "\<forall>op \<in> set [Get ''turn:b'', Reset ''turn:c'']. op_key op \<noteq> ''turn:a''" by simp
  moreover have "map_of (fold (store_step demo_settings) [Get ''turn:b'', Reset ''turn:c''] [(''turn:a'', demo_research)])
      ''turn:a'' = Some demo_research"
    by (simp add: get_store put_last_eq evict_overflow_def MAX_TRACKED_CONVERSATIONS_def reset_research_budget_def)
  ultimately show ?thesis using budgets_isolated by blast
qed

section \<open>Image subjects\<close>

fun reserve_images :: "string list \<Rightarrow> research_budget \<Rightarrow> bool list \<times> research_budget" where
  "reserve_images [] b = ([], b)"
| "reserve_images (q # qs) b =
     (let (r, b1) = reserve_image_search q b; (rs, b2) = reserve_images qs b1 in (r # rs, b2))"

text \<open>The subjects are pairwise no near duplicates, those of earlier epochs included.\<close>

definition subjects_distinct :: "research_budget \<Rightarrow> bool" where
  "subjects_distinct b \<longleftrightarrow>
     (\<forall>i j. i < j \<and> j < length (rb_image_searches b) \<longrightarrow>
        \<not> same_tokens (rb_threshold b) (rb_image_searches b ! i) (rb_image_searches b ! j)) \<and>
     (\<forall>p \<in> set (rb_prior_image_searches b). \<forall>t \<in> set (rb_image_searches b). \<not> same_tokens (rb_threshold b) p t)"

lemma reserve_image_keeps:
  assumes "subjects_distinct b" and "int (length (rb_image_searches b)) \<le> max 1 (rb_max_image_searches b)"
    and "reserve_image_search q b = (r, b')"
  shows "subjects_distinct b'" and "int (length (rb_image_searches b')) \<le> max 1 (rb_max_image_searches b')"
    and "rb_max_image_searches b' = rb_max_image_searches b"
    and "length (rb_image_searches b') = length (rb_image_searches b) + (if r then 1 else 0)"
  using assms
  by (auto simp: reserve_image_search_def subjects_distinct_def list_ex_iff nth_append less_Suc_eq Let_def
      split: if_splits)

text \<open>
  Whatever subjects an epoch asks for, at most the configured number is searched, and no two of them,
  nor one of them and a subject of an earlier epoch, are near duplicates.
\<close>

lemma image_subjects_bounded:
  assumes "subjects_distinct b" and "rb_image_searches b = []"
    and "reserve_images qs b = (rs, b')"
  shows "subjects_distinct b' \<and> int (length (filter id rs)) \<le> max 1 (rb_max_image_searches b)"
proof -
  have "subjects_distinct b' \<and> int (length (rb_image_searches b')) \<le> max 1 (rb_max_image_searches b) \<and>
      length (rb_image_searches b') = length (rb_image_searches b) + length (filter id rs)"
    if "subjects_distinct b" "int (length (rb_image_searches b)) \<le> max 1 (rb_max_image_searches b)"
      "reserve_images qs b = (rs, b')" for b
    using that
  proof (induction qs arbitrary: b rs)
    case (Cons q qs)
    obtain r b1 where q: "reserve_image_search q b = (r, b1)" by fastforce
    obtain rs' where rs: "reserve_images qs b1 = (rs', b')" "rs = r # rs'"
      using Cons.prems(3) q by (auto split: prod.splits)
    note k = reserve_image_keeps [OF Cons.prems(1,2) q]
    from Cons.IH [OF k(1,2) rs(1)] k(3,4) rs(2) show ?case by simp
  qed simp
  moreover have "int (length (rb_image_searches b)) \<le> max 1 (rb_max_image_searches b)"
    by (simp add: assms(2))
  ultimately have "subjects_distinct b' \<and> int (length (rb_image_searches b')) \<le> max 1 (rb_max_image_searches b) \<and>
      length (rb_image_searches b') = length (rb_image_searches b) + length (filter id rs)"
    using assms(1,3) by blast
  with assms(2) show ?thesis by simp
qed

end
