(* ===== verification/DeferredTools.thy ===== *)
theory DeferredTools
  imports PyText
begin

text \<open>
  \<^verbatim>\<open>app/ai/deferred_tool_state.py\<close>: the tools each conversation loaded through the tool search. Server
  tools are kept per conversation and agent, the tools of a client device also per device and session.
  The environment of a call holds what it reads from elsewhere: the clock, the settings, the generation
  of the server tools, the active session of a device and the version of its catalog. One reading of
  the clock serves a call; a loop over references reads it once per reference.
\<close>

section \<open>Pools\<close>

record loaded_tool =
  lt_tool_name :: string
  lt_server_name :: string
  lt_call_name :: string
  lt_generation :: int
  lt_last_used :: rat

record client_tool =
  ct_tool_name :: string
  ct_server_name :: string
  ct_device_id :: string
  ct_catalog_version :: int
  ct_tool_instance_id :: string
  ct_last_used :: rat

record 'a tool_scope =
  sc_last_active :: rat
  sc_loaded :: "(string, 'a) dict"

definition new_scope :: "rat \<Rightarrow> 'a tool_scope" where
  "new_scope now = \<lparr>sc_last_active = now, sc_loaded = []\<rparr>"

definition touch_scope :: "rat \<Rightarrow> 'a tool_scope \<Rightarrow> 'a tool_scope" where
  "touch_scope now s = s\<lparr>sc_last_active := now\<rparr>"

definition is_idle :: "rat \<Rightarrow> rat \<Rightarrow> int \<Rightarrow> bool" where
  "is_idle now since ttl_minutes =
     (if ttl_minutes \<le> 0 then False else (now - since) / 60 > of_int ttl_minutes)"

definition is_abandoned :: "rat \<Rightarrow> int \<Rightarrow> 'a tool_scope \<Rightarrow> bool" where
  "is_abandoned now ttl s =
     (if sc_loaded s \<noteq> [] then False else if ttl \<le> 0 then True else is_idle now (sc_last_active s) ttl)"

definition client_stale :: "int \<Rightarrow> client_tool \<Rightarrow> bool" where
  "client_stale current t =
     (if current \<le> 0 \<or> ct_catalog_version t \<le> 0 then False else ct_catalog_version t \<noteq> current)"

text \<open>The key of least \<open>rank\<close>, the first of several.\<close>

definition least_key :: "('v \<Rightarrow> rat) \<Rightarrow> ('k, 'v) dict \<Rightarrow> 'k" where
  "least_key rank d = fst (arg_min_list (\<lambda>(k, v). rank v) d)"

definition evict_least :: "('v \<Rightarrow> rat) \<Rightarrow> ('k, 'v) dict \<Rightarrow> ('k, 'v) dict" where
  "evict_least rank d = AList.delete (least_key rank d) d"

lemma least_key_in: "d \<noteq> [] \<Longrightarrow> least_key rank d \<in> fst ` set d"
  unfolding least_key_def by (rule imageI) (rule arg_min_list_in)

lemma delete_shorter: "k \<in> fst ` set d \<Longrightarrow> length (AList.delete k d) < length d"
proof (induction d)
  case (Cons p d)
  then show ?case
    using length_delete_le [of k d] by (cases p) auto
qed simp

lemma evict_shorter: "d \<noteq> [] \<Longrightarrow> length (evict_least rank d) < length d"
  unfolding evict_least_def by (rule delete_shorter [OF least_key_in])

text \<open>Room for one more tool: whether there is, and what stays.\<close>

function make_room :: "('v \<Rightarrow> rat) \<Rightarrow> int \<Rightarrow> ('k, 'v) dict \<Rightarrow> bool \<times> ('k, 'v) dict" where
  "make_room rank max_tools d =
     (if int (length d) \<ge> max_tools
      then if d = [] then (False, d) else make_room rank max_tools (evict_least rank d)
      else (True, d))"
  by pat_completeness auto
termination
  by (relation "measure (\<lambda>(_, _, d). length d)") (auto intro: evict_shorter)

declare make_room.simps [simp del]

function shrink :: "('v \<Rightarrow> rat) \<Rightarrow> nat \<Rightarrow> ('k, 'v) dict \<Rightarrow> ('k, 'v) dict" where
  "shrink rank bound d = (if length d > bound then shrink rank bound (evict_least rank d) else d)"
  by pat_completeness auto
termination
  by (relation "measure (\<lambda>(_, _, d). length d)") (auto intro!: evict_shorter)

declare shrink.simps [simp del]

section \<open>Server tools\<close>

record tool_reference =
  tf_tool_name :: string
  tf_server_name :: string
  tf_call_name :: "string option"

definition storage_key :: "tool_reference \<Rightarrow> string" where
  "storage_key r = (if truthy_str (tf_call_name r) then the (tf_call_name r) else tf_tool_name r)"

definition server_tool :: "int \<Rightarrow> rat \<Rightarrow> tool_reference \<Rightarrow> loaded_tool" where
  "server_tool generation now r =
     \<lparr>lt_tool_name = tf_tool_name r, lt_server_name = tf_server_name r, lt_call_name = storage_key r,
      lt_generation = generation, lt_last_used = now\<rparr>"

definition add_server :: "int \<Rightarrow> rat \<Rightarrow> int \<Rightarrow> tool_reference \<Rightarrow> loaded_tool tool_scope
    \<Rightarrow> bool \<times> loaded_tool tool_scope" where
  "add_server generation now max_tools r s0 =
     (let s = touch_scope now s0; key = storage_key r;
          tool = server_tool generation now r
      in if map_of (sc_loaded s) key \<noteq> None
         then (True, s\<lparr>sc_loaded := AList.update key tool (sc_loaded s)\<rparr>)
         else (case make_room lt_last_used max_tools (sc_loaded s) of
             (False, d) \<Rightarrow> (False, s\<lparr>sc_loaded := d\<rparr>)
           | (True, d) \<Rightarrow> (True, s\<lparr>sc_loaded := AList.update key tool d\<rparr>)))"

definition get_server :: "rat \<Rightarrow> string \<Rightarrow> loaded_tool tool_scope
    \<Rightarrow> loaded_tool option \<times> loaded_tool tool_scope" where
  "get_server now name s0 =
     (let s = touch_scope now s0
      in case map_of (sc_loaded s) name of
           None \<Rightarrow> (None, s)
         | Some t \<Rightarrow> (let t' = t\<lparr>lt_last_used := now\<rparr>
                      in (Some t', s\<lparr>sc_loaded := AList.update name t' (sc_loaded s)\<rparr>)))"

definition cleanup_server :: "rat \<Rightarrow> int \<Rightarrow> int \<Rightarrow> loaded_tool tool_scope \<Rightarrow> loaded_tool tool_scope" where
  "cleanup_server now ttl generation s =
     s\<lparr>sc_loaded := filter (\<lambda>(k, t). \<not> (is_idle now (lt_last_used t) ttl \<or> lt_generation t \<noteq> generation))
        (sc_loaded s)\<rparr>"

definition to_reference :: "loaded_tool \<Rightarrow> tool_reference" where
  "to_reference t =
     \<lparr>tf_tool_name = lt_tool_name t, tf_server_name = lt_server_name t, tf_call_name = Some (lt_call_name t)\<rparr>"

section \<open>Client tools\<close>

text \<open>In a reference \<open>None\<close> is an attribute that is missing or \<^verbatim>\<open>None\<close>.\<close>

record client_reference =
  cf_tool_name :: string
  cf_server_name :: string
  cf_device_id :: "string option"
  cf_session_id :: "string option"
  cf_catalog_version :: "int option"
  cf_tool_instance_id :: string

definition client_tool_of :: "string \<Rightarrow> int \<Rightarrow> rat \<Rightarrow> client_reference \<Rightarrow> client_tool" where
  "client_tool_of device_id catalog now r =
     \<lparr>ct_tool_name = cf_tool_name r, ct_server_name = cf_server_name r,
      ct_device_id = (if truthy_str (cf_device_id r) then the (cf_device_id r) else device_id),
      ct_catalog_version = (case cf_catalog_version r of None \<Rightarrow> catalog | Some v \<Rightarrow> v),
      ct_tool_instance_id = cf_tool_instance_id r, ct_last_used = now\<rparr>"

definition add_client :: "string \<Rightarrow> int \<Rightarrow> rat \<Rightarrow> int \<Rightarrow> client_reference \<Rightarrow> client_tool tool_scope
    \<Rightarrow> bool \<times> client_tool tool_scope" where
  "add_client device_id catalog now max_tools r s0 =
     (let s = touch_scope now s0; key = cf_tool_name r;
          tool = client_tool_of device_id catalog now r
      in if map_of (sc_loaded s) key \<noteq> None
         then (True, s\<lparr>sc_loaded := AList.update key tool (sc_loaded s)\<rparr>)
         else (case make_room ct_last_used max_tools (sc_loaded s) of
             (False, d) \<Rightarrow> (False, s\<lparr>sc_loaded := d\<rparr>)
           | (True, d) \<Rightarrow> (True, s\<lparr>sc_loaded := AList.update key tool d\<rparr>)))"

definition cleanup_client :: "rat \<Rightarrow> int \<Rightarrow> int \<Rightarrow> client_tool tool_scope \<Rightarrow> client_tool tool_scope" where
  "cleanup_client now ttl catalog s =
     s\<lparr>sc_loaded := filter (\<lambda>(k, t). \<not> (is_idle now (ct_last_used t) ttl \<or> client_stale catalog t)) (sc_loaded s)\<rparr>"

section \<open>The registry\<close>

type_synonym server_key = "string \<times> string"
type_synonym client_key = "string \<times> string \<times> string \<times> string"

record tool_registry =
  tg_servers :: "(server_key, loaded_tool tool_scope) dict"
  tg_clients :: "(client_key, client_tool tool_scope) dict"
  tg_last_sweep :: rat

record tool_env =
  te_now :: rat
  te_clock :: "nat \<Rightarrow> rat"
  te_ttl :: int
  te_max_tools :: int
  te_max_scopes :: int
  te_generation :: int
  te_session :: "string \<Rightarrow> string option \<Rightarrow> string option"
  te_catalog :: "string option \<Rightarrow> string option \<Rightarrow> int"
  te_runtime_id :: string

definition empty_registry :: "rat \<Rightarrow> tool_registry" where
  "empty_registry now = \<lparr>tg_servers = [], tg_clients = [], tg_last_sweep = now\<rparr>"

definition agent_or_default :: "string option \<Rightarrow> string" where
  "agent_or_default agent = (if truthy_str agent then the agent else ''default'')"

definition text_or_empty :: "string option \<Rightarrow> string" where
  "text_or_empty s = (case s of None \<Rightarrow> [] | Some t \<Rightarrow> t)"

definition server_key_of :: "string option \<Rightarrow> string option \<Rightarrow> server_key option" where
  "server_key_of conversation agent =
     (if \<not> truthy_str conversation then None else Some (the conversation, agent_or_default agent))"

definition client_key_of ::
  "string option \<Rightarrow> string option \<Rightarrow> string option \<Rightarrow> string option \<Rightarrow> client_key option" where
  "client_key_of conversation agent device session =
     (if \<not> truthy_str conversation then None
      else Some (the conversation, agent_or_default agent, text_or_empty device, text_or_empty session))"

text \<open>The session of a device: none without one.\<close>

definition active_session :: "tool_env \<Rightarrow> string option \<Rightarrow> string option \<Rightarrow> string option" where
  "active_session env device user = (if \<not> truthy_str device then None else te_session env (the device) user)"

definition maybe_sweep :: "tool_env \<Rightarrow> tool_registry \<Rightarrow> tool_registry" where
  "maybe_sweep env g =
     (if te_now env - tg_last_sweep g < 60 then g
      else let servers = map (\<lambda>(k, s). (k, cleanup_server (te_now env) (te_ttl env) (te_generation env) s)) (tg_servers g);
               clients = map (\<lambda>(k, s). (k, cleanup_client (te_now env) (te_ttl env) 0 s)) (tg_clients g)
           in \<lparr>tg_servers = filter (\<lambda>(k, s). \<not> is_abandoned (te_now env) (te_ttl env) s) servers,
               tg_clients = filter (\<lambda>(k, s). \<not> is_abandoned (te_now env) (te_ttl env) s) clients,
               tg_last_sweep = te_now env\<rparr>)"

definition scope_cap :: "tool_env \<Rightarrow> nat" where
  "scope_cap env = nat (max 1 (te_max_scopes env))"

definition enforce_scope_cap :: "tool_env \<Rightarrow> tool_registry \<Rightarrow> tool_registry" where
  "enforce_scope_cap env g =
     g\<lparr>tg_servers := shrink sc_last_active (scope_cap env) (tg_servers g),
       tg_clients := shrink sc_last_active (scope_cap env) (tg_clients g)\<rparr>"

text \<open>A scope is shared with the table only while the table holds its key.\<close>

definition put_back :: "'k \<Rightarrow> 'v \<Rightarrow> ('k, 'v) dict \<Rightarrow> ('k, 'v) dict" where
  "put_back key v d = (if map_of d key = None then d else AList.update key v d)"

text \<open>Adding references one after the other, each at its own time: those reported as loaded.\<close>

fun add_all :: "(rat \<Rightarrow> 'r \<Rightarrow> 'a tool_scope \<Rightarrow> bool \<times> 'a tool_scope) \<Rightarrow> (nat \<Rightarrow> rat) \<Rightarrow> nat
    \<Rightarrow> 'r list \<Rightarrow> 'a tool_scope \<Rightarrow> 'r list \<times> 'a tool_scope" where
  "add_all add clock i [] s = ([], s)"
| "add_all add clock i (r # rs) s =
     (let (ok, s1) = add (clock i) r s; (loaded, s2) = add_all add clock (Suc i) rs s1
      in (if ok then r # loaded else loaded, s2))"

section \<open>Loading\<close>

text \<open>\<open>max_tools\<close> is the caller's bound, the setting without one.\<close>

definition tool_bound :: "tool_env \<Rightarrow> int option \<Rightarrow> int" where
  "tool_bound env max_tools = (case max_tools of None \<Rightarrow> te_max_tools env | Some m \<Rightarrow> m)"

definition autoload ::
  "tool_env \<Rightarrow> string option \<Rightarrow> string option \<Rightarrow> tool_reference list \<Rightarrow> int option \<Rightarrow> tool_registry
     \<Rightarrow> tool_reference list \<times> tool_registry" where
  "autoload env conversation agent refs max_tools g0 =
     (case server_key_of conversation agent of
        None \<Rightarrow> ([], g0)
      | Some key \<Rightarrow>
          (let g = maybe_sweep env g0;
               (scope, g1) = (case map_of (tg_servers g) key of
                    Some s \<Rightarrow> (s, g)
                  | None \<Rightarrow> (new_scope (te_now env),
                       enforce_scope_cap env
                         (g\<lparr>tg_servers := AList.update key (new_scope (te_now env)) (tg_servers g)\<rparr>)));
               cleaned = cleanup_server (te_now env) (te_ttl env) (te_generation env) scope;
               (loaded, s') = add_all (\<lambda>now. add_server (te_generation env) now (tool_bound env max_tools))
                  (te_clock env) 0 refs cleaned
           in (loaded, g1\<lparr>tg_servers := put_back key s' (tg_servers g1)\<rparr>)))"

definition session_of_references :: "client_reference list \<Rightarrow> string option" where
  "session_of_references refs =
     (case find (\<lambda>r. truthy_str (cf_session_id r)) refs of None \<Rightarrow> None | Some r \<Rightarrow> cf_session_id r)"

definition effective_session ::
  "tool_env \<Rightarrow> client_reference list \<Rightarrow> string option \<Rightarrow> string option \<Rightarrow> string option \<Rightarrow> string option" where
  "effective_session env refs device session user =
     (if truthy_str session then session
      else if truthy_str (session_of_references refs) then session_of_references refs
      else active_session env device user)"

definition autoload_client_tools ::
  "tool_env \<Rightarrow> string option \<Rightarrow> string option \<Rightarrow> client_reference list \<Rightarrow> string option
     \<Rightarrow> string option \<Rightarrow> string option \<Rightarrow> int option \<Rightarrow> tool_registry
     \<Rightarrow> client_reference list \<times> tool_registry" where
  "autoload_client_tools env conversation agent refs device session user max_tools g0 =
     (if \<not> truthy_str device \<or> \<not> truthy_str conversation then ([], g0)
      else case client_key_of conversation agent device (effective_session env refs device session user) of
        None \<Rightarrow> ([], g0)
      | Some key \<Rightarrow>
          (let catalog = te_catalog env device user;
               g = maybe_sweep env g0;
               (scope, g1) = (case map_of (tg_clients g) key of
                    Some s \<Rightarrow> (s, g)
                  | None \<Rightarrow> (new_scope (te_now env),
                       enforce_scope_cap env
                         (g\<lparr>tg_clients := AList.update key (new_scope (te_now env)) (tg_clients g)\<rparr>)));
               cleaned = cleanup_client (te_now env) (te_ttl env) catalog scope;
               (loaded, s') = add_all (\<lambda>now. add_client (the device) catalog now (tool_bound env max_tools))
                  (te_clock env) 0 refs cleaned
           in (loaded, g1\<lparr>tg_clients := put_back key s' (tg_clients g1)\<rparr>)))"

section \<open>Reading\<close>

text \<open>An empty scope is false, so it is neither cleaned nor touched.\<close>

definition get_loaded ::
  "tool_env \<Rightarrow> string option \<Rightarrow> string option \<Rightarrow> tool_registry \<Rightarrow> tool_reference list \<times> tool_registry" where
  "get_loaded env conversation agent g =
     (case server_key_of conversation agent of
        None \<Rightarrow> ([], g)
      | Some key \<Rightarrow>
          (case map_of (tg_servers g) key of
             None \<Rightarrow> ([], g)
           | Some s0 \<Rightarrow>
               if sc_loaded s0 = [] then ([], g)
               else let s = touch_scope (te_now env)
                          (cleanup_server (te_now env) (te_ttl env) (te_generation env) s0)
                    in (map to_reference (dict_values (sc_loaded s)),
                        g\<lparr>tg_servers := AList.update key s (tg_servers g)\<rparr>)))"

definition reading_session :: "tool_env \<Rightarrow> string option \<Rightarrow> string option \<Rightarrow> string option \<Rightarrow> string option" where
  "reading_session env device session user =
     (if truthy_str device \<and> \<not> truthy_str session then active_session env device user else session)"

definition get_loaded_client_tools ::
  "tool_env \<Rightarrow> string option \<Rightarrow> string option \<Rightarrow> string option \<Rightarrow> string option \<Rightarrow> string option
     \<Rightarrow> tool_registry \<Rightarrow> client_tool list \<times> tool_registry" where
  "get_loaded_client_tools env conversation agent device session0 user g =
     (let session = reading_session env device session0 user in
      if \<not> truthy_str device \<or> \<not> truthy_str session then ([], g)
      else case client_key_of conversation agent device session of
        None \<Rightarrow> ([], g)
      | Some key \<Rightarrow>
          (case map_of (tg_clients g) key of
             None \<Rightarrow> ([], g)
           | Some s0 \<Rightarrow>
               if sc_loaded s0 = [] then ([], g)
               else let s = touch_scope (te_now env) (cleanup_client (te_now env) (te_ttl env) 0 s0)
                    in (dict_values (sc_loaded s), g\<lparr>tg_clients := AList.update key s (tg_clients g)\<rparr>)))"

text \<open>The names read only the client scope's dictionary, without touching the scope.\<close>

definition get_all_loaded_tool_names ::
  "tool_env \<Rightarrow> string option \<Rightarrow> string option \<Rightarrow> string option \<Rightarrow> string option \<Rightarrow> string option
     \<Rightarrow> tool_registry \<Rightarrow> string list \<times> tool_registry" where
  "get_all_loaded_tool_names env conversation agent device session0 user g =
     (case server_key_of conversation agent of
        None \<Rightarrow> ([], g)
      | Some key \<Rightarrow>
          (let session = reading_session env device session0 user;
               (names, g1) = (case map_of (tg_servers g) key of
                    None \<Rightarrow> ([], g)
                  | Some s0 \<Rightarrow>
                      if sc_loaded s0 = [] then ([], g)
                      else let s = touch_scope (te_now env)
                                 (cleanup_server (te_now env) (te_ttl env) (te_generation env) s0)
                           in (dict_keys (sc_loaded s), g\<lparr>tg_servers := AList.update key s (tg_servers g)\<rparr>))
           in if \<not> truthy_str device \<or> \<not> truthy_str session then (names, g1)
              else case client_key_of conversation agent device session of
                None \<Rightarrow> (names, g1)
              | Some ckey \<Rightarrow>
                  (case map_of (tg_clients g1) ckey of
                     None \<Rightarrow> (names, g1)
                   | Some c0 \<Rightarrow>
                       if sc_loaded c0 = [] then (names, g1)
                       else let c = cleanup_client (te_now env) (te_ttl env) 0 c0
                            in (names @ dict_keys (sc_loaded c),
                                g1\<lparr>tg_clients := AList.update ckey c (tg_clients g1)\<rparr>))))"

text \<open>The three lookups of one tool share the read that resets its idle time.\<close>

definition use_tool ::
  "tool_env \<Rightarrow> string option \<Rightarrow> string option \<Rightarrow> string \<Rightarrow> tool_registry \<Rightarrow> loaded_tool option \<times> tool_registry" where
  "use_tool env conversation agent name g =
     (case server_key_of conversation agent of
        None \<Rightarrow> (None, g)
      | Some key \<Rightarrow>
          (case map_of (tg_servers g) key of
             None \<Rightarrow> (None, g)
           | Some s0 \<Rightarrow>
               if sc_loaded s0 = [] then (None, g)
               else (case get_server (te_now env) name s0 of
                  (t, s) \<Rightarrow> (t, g\<lparr>tg_servers := AList.update key s (tg_servers g)\<rparr>))))"

definition mark_tool_used ::
  "tool_env \<Rightarrow> string option \<Rightarrow> string option \<Rightarrow> string \<Rightarrow> tool_registry \<Rightarrow> bool \<times> tool_registry" where
  "mark_tool_used env conversation agent name g =
     (case use_tool env conversation agent name g of (t, g') \<Rightarrow> (t \<noteq> None, g'))"

definition get_server_for_loaded_tool ::
  "tool_env \<Rightarrow> string option \<Rightarrow> string option \<Rightarrow> string \<Rightarrow> tool_registry \<Rightarrow> string option \<times> tool_registry" where
  "get_server_for_loaded_tool env conversation agent name g =
     (case use_tool env conversation agent name g of (t, g') \<Rightarrow> (map_option lt_server_name t, g'))"

definition get_raw_tool_name_for_loaded_tool ::
  "tool_env \<Rightarrow> string option \<Rightarrow> string option \<Rightarrow> string \<Rightarrow> tool_registry \<Rightarrow> string option \<times> tool_registry" where
  "get_raw_tool_name_for_loaded_tool env conversation agent name g =
     (case use_tool env conversation agent name g of (t, g') \<Rightarrow> (map_option lt_tool_name t, g'))"

section \<open>Snapshots\<close>

definition server_entry :: "loaded_tool \<Rightarrow> pyval" where
  "server_entry t =
     PDict [(''tool_name'', PStr (lt_tool_name t)), (''server_name'', PStr (lt_server_name t)),
            (''call_name'', PStr (lt_call_name t)), (''generation'', PInt (lt_generation t))]"

definition client_entry :: "string \<Rightarrow> client_tool \<Rightarrow> pyval" where
  "client_entry session t =
     PDict [(''tool_name'', PStr (ct_tool_name t)), (''server_name'', PStr (ct_server_name t)),
            (''device_id'', PStr (ct_device_id t)), (''session_id'', PStr session),
            (''catalog_version'', PInt (ct_catalog_version t)),
            (''tool_instance_id'', PStr (ct_tool_instance_id t))]"

definition snapshot_servers ::
  "tool_env \<Rightarrow> string option \<Rightarrow> string option \<Rightarrow> tool_registry \<Rightarrow> pyval list \<times> tool_registry" where
  "snapshot_servers env conversation agent g =
     (case server_key_of conversation agent of
        None \<Rightarrow> ([], g)
      | Some key \<Rightarrow>
          (case map_of (tg_servers g) key of
             None \<Rightarrow> ([], g)
           | Some s0 \<Rightarrow>
               if sc_loaded s0 = [] then ([], g)
               else let s = cleanup_server (te_now env) (te_ttl env) (te_generation env) s0
                    in (map server_entry (dict_values (sc_loaded s)),
                        g\<lparr>tg_servers := AList.update key s (tg_servers g)\<rparr>)))"

definition snapshot_tools ::
  "tool_env \<Rightarrow> string option \<Rightarrow> string option \<Rightarrow> string option \<Rightarrow> string option \<Rightarrow> string option
     \<Rightarrow> tool_registry \<Rightarrow> (string \<times> pyval) list \<times> tool_registry" where
  "snapshot_tools env conversation agent device session0 user g =
     (let session = reading_session env device session0 user;
          (servers, g1) = snapshot_servers env conversation agent g;
          (clients, g2) = get_loaded_client_tools env conversation agent device session user g1
      in ([(''runtime_id'', PStr (te_runtime_id env)), (''server_tools'', PList servers),
           (''client_tools'', PList (map (client_entry (text_or_empty session)) clients))], g2))"

text \<open>\<^verbatim>\<open>str(entry.get(k) or "").strip()\<close>.\<close>

definition entry_text :: "(string \<times> pyval) list \<Rightarrow> string \<Rightarrow> string" where
  "entry_text d k = (if truthy (pget d k) then py_strip (py_text (pget d k)) else [])"

text \<open>The references a list of entries restores; \<open>None\<close> is the error of a generation that is no number.\<close>

fun server_refs :: "bool \<Rightarrow> int \<Rightarrow> pyval list \<Rightarrow> tool_reference list option" where
  "server_refs same_runtime generation [] = Some []"
| "server_refs same_runtime generation (entry # entries) =
     (case entry of
        PDict d \<Rightarrow>
          if entry_text d ''tool_name'' = [] \<or> entry_text d ''server_name'' = []
          then server_refs same_runtime generation entries
          else (case (if same_runtime then py_int_or (pget d ''generation'') 0 else Some generation) of
             None \<Rightarrow> None
           | Some v \<Rightarrow>
               if v \<noteq> generation then server_refs same_runtime generation entries
               else map_option (Cons
                 \<lparr>tf_tool_name = entry_text d ''tool_name'', tf_server_name = entry_text d ''server_name'',
                  tf_call_name = (if truthy (pget d ''call_name'')
                                  then Some (py_strip (py_text (pget d ''call_name''))) else None)\<rparr>)
                 (server_refs same_runtime generation entries))
      | _ \<Rightarrow> server_refs same_runtime generation entries)"

fun client_refs :: "string \<Rightarrow> string option \<Rightarrow> int \<Rightarrow> pyval list \<Rightarrow> client_reference list option" where
  "client_refs device session catalog [] = Some []"
| "client_refs device session catalog (entry # entries) =
     (case entry of
        PDict d \<Rightarrow>
          (let entry_device = (if truthy (pget d ''device_id'')
                               then py_strip (py_text (pget d ''device_id'')) else py_strip device);
               entry_session = entry_text d ''session_id''
           in if entry_text d ''tool_name'' = [] \<or> entry_text d ''server_name'' = [] \<or> entry_device \<noteq> device
              then client_refs device session catalog entries
              else if truthy_str session \<and> entry_session \<noteq> [] \<and> entry_session \<noteq> the session
              then client_refs device session catalog entries
              else (case py_int_or (pget d ''catalog_version'') 0 of
                 None \<Rightarrow> None
               | Some v \<Rightarrow>
                   if catalog > 0 \<and> v > 0 \<and> v \<noteq> catalog then client_refs device session catalog entries
                   else map_option (Cons
                     \<lparr>cf_tool_name = entry_text d ''tool_name'', cf_server_name = entry_text d ''server_name'',
                      cf_device_id = Some entry_device,
                      cf_session_id = Some (if entry_session \<noteq> [] then entry_session else text_or_empty session),
                      cf_catalog_version = Some v,
                      cf_tool_instance_id =
                        (if truthy (pget d ''tool_instance_id'') then py_text (pget d ''tool_instance_id'') else [])\<rparr>)
                     (client_refs device session catalog entries)))
      | _ \<Rightarrow> client_refs device session catalog entries)"

text \<open>What a loop over \<^verbatim>\<open>snapshot.get("server_tools") or []\<close> sees; \<open>None\<close> where iterating raises.\<close>

definition iterable :: "pyval \<Rightarrow> pyval list option" where
  "iterable v =
     (if \<not> truthy v then Some []
      else case v of
        PList xs \<Rightarrow> Some xs
      | PTuple xs \<Rightarrow> Some xs
      | PStr s \<Rightarrow> Some (map (\<lambda>c. PStr [c]) s)
      | PDict d \<Rightarrow> Some (map (PStr \<circ> fst) d)
      | _ \<Rightarrow> None)"

definition restore_client_tools ::
  "tool_env \<Rightarrow> string option \<Rightarrow> string option \<Rightarrow> pyval \<Rightarrow> string \<Rightarrow> string option \<Rightarrow> string option \<Rightarrow> bool
     \<Rightarrow> tool_registry \<Rightarrow> client_reference list option \<times> tool_registry" where
  "restore_client_tools env conversation agent entries device session user same_runtime g =
     (case entries of
        PList es \<Rightarrow>
          (let effective = (if truthy_str session then session else active_session env (Some device) user);
               catalog = (if same_runtime then te_catalog env (Some device) user else 0)
           in case client_refs device effective catalog es of
                None \<Rightarrow> (None, g)
              | Some refs \<Rightarrow>
                  if refs = [] then (Some [], g)
                  else (case autoload_client_tools env conversation agent refs (Some device) effective user None g of
                     (loaded, g') \<Rightarrow> (Some loaded, g')))
      | _ \<Rightarrow> (Some [], g))"

text \<open>The counts of restored tools; \<open>None\<close> is an exception, which may come after the server half.\<close>

definition restore_tools ::
  "tool_env \<Rightarrow> string option \<Rightarrow> string option \<Rightarrow> pyval \<Rightarrow> string option \<Rightarrow> string option \<Rightarrow> string option
     \<Rightarrow> tool_registry \<Rightarrow> (nat \<times> nat) option \<times> tool_registry" where
  "restore_tools env conversation agent snapshot device session user g =
     (case snapshot of
        PDict d \<Rightarrow>
          (let same_runtime = (pget d ''runtime_id'' = PStr (te_runtime_id env))
           in case Option.bind (iterable (pget d ''server_tools'')) (server_refs same_runtime (te_generation env)) of
                None \<Rightarrow> (None, g)
              | Some refs \<Rightarrow>
                  (case autoload env conversation agent refs None g of
                     (servers, g1) \<Rightarrow>
                       if \<not> truthy_str device then (Some (length servers, 0), g1)
                       else (case restore_client_tools env conversation agent
                                 (if truthy (pget d ''client_tools'') then pget d ''client_tools'' else PList [])
                                 (the device) session user same_runtime g1 of
                           (None, g2) \<Rightarrow> (None, g2)
                         | (Some clients, g2) \<Rightarrow> (Some (length servers, length clients), g2))))
      | _ \<Rightarrow> (Some (0, 0), g))"

section \<open>Lifecycle\<close>

definition clear_conversation :: "string option \<Rightarrow> string option \<Rightarrow> tool_registry \<Rightarrow> nat \<times> tool_registry" where
  "clear_conversation conversation agent g =
     (if \<not> truthy_str conversation then (0, g)
      else let c = the conversation in
        if truthy_str agent
        then (let key = (c, the agent);
                  gone = (if map_of (tg_servers g) key = None then 0 else 1);
                  clients = filter (\<lambda>(k, s). fst k = c \<and> fst (snd k) = the agent) (tg_clients g)
              in (gone + length clients,
                  g\<lparr>tg_servers := AList.delete key (tg_servers g),
                    tg_clients := filter (\<lambda>(k, s). \<not> (fst k = c \<and> fst (snd k) = the agent)) (tg_clients g)\<rparr>))
        else (length (filter (\<lambda>(k, s). fst k = c) (tg_servers g)) +
                length (filter (\<lambda>(k, s). fst k = c) (tg_clients g)),
              g\<lparr>tg_servers := filter (\<lambda>(k, s). fst k \<noteq> c) (tg_servers g),
                tg_clients := filter (\<lambda>(k, s). fst k \<noteq> c) (tg_clients g)\<rparr>))"

definition clear_all :: "rat \<Rightarrow> tool_registry \<Rightarrow> nat \<times> tool_registry" where
  "clear_all now g =
     (length (tg_servers g) + length (tg_clients g), empty_registry now)"

section \<open>Eviction\<close>

lemma evict_least_wf: "dict_wf d \<Longrightarrow> dict_wf (evict_least rank d)"
  by (simp add: evict_least_def)

lemma evict_least_sub: "set (evict_least rank d) \<subseteq> set d"
  by (auto simp: evict_least_def AList.delete_eq)

lemma evict_least_rank:
  assumes "dict_wf d" and "d \<noteq> []" and "(k, v) \<in> set d - set (evict_least rank d)" and "(k', v') \<in> set d"
  shows "rank v \<le> rank v'"
proof -
  from assms(3) have k: "k = least_key rank d" and kv: "(k, v) \<in> set d"
    by (auto simp: evict_least_def AList.delete_eq)
  let ?m = "arg_min_list (\<lambda>(k, v). rank v) d"
  have "?m \<in> set d" by (rule arg_min_list_in [OF assms(2)])
  with k kv assms(1) have "?m = (k, v)"
    by (metis dict_wf_def distinct_map_inj_on_set fst_conv least_key_def)
  with arg_min_list_least [OF assms(4), of "\<lambda>(k, v). rank v"] show ?thesis by simp
qed

lemma make_room_wf: "dict_wf d \<Longrightarrow> dict_wf (snd (make_room rank m d))"
proof (induction rank m d rule: make_room.induct)
  case (1 rank m d)
  then show ?case by (subst make_room.simps) (auto simp: evict_least_wf)
qed

lemma make_room_sub: "set (snd (make_room rank m d)) \<subseteq> set d"
proof (induction rank m d rule: make_room.induct)
  case (1 rank m d)
  then show ?case
    using evict_least_sub [of rank d] by (subst make_room.simps) auto
qed

lemma make_room_length:
  "fst (make_room rank m d) \<Longrightarrow> int (length (snd (make_room rank m d))) < m"
  "length (snd (make_room rank m d)) \<le> length d"
proof (induction rank m d rule: make_room.induct)
  case (1 rank m d)
  { case 1 then show ?case using "1.IH"(1) by (subst (asm) make_room.simps, subst make_room.simps) (auto split: if_splits) }
  { case 2 then show ?case
      using "1.IH"(2) evict_shorter [of d rank] by (subst make_room.simps) auto }
qed

text \<open>What makes room is what was used least recently.\<close>

lemma make_room_lru:
  assumes "dict_wf d" and "(k, v) \<in> set d - set (snd (make_room rank m d))"
    and "(k', v') \<in> set (snd (make_room rank m d))"
  shows "rank v \<le> rank v'"
  using assms
proof (induction rank m d rule: make_room.induct)
  case (1 rank m d)
  show ?case
  proof (cases "int (length d) \<ge> m \<and> d \<noteq> []")
    case True
    then have r: "make_room rank m d = make_room rank m (evict_least rank d)"
      by (subst make_room.simps) simp
    show ?thesis
    proof (cases "(k, v) \<in> set (evict_least rank d)")
      case True
      with "1.IH" \<open>_ \<and> _\<close> "1.prems" evict_least_wf show ?thesis unfolding r by auto
    next
      case False
      have "(k', v') \<in> set d"
        using "1.prems"(3) make_room_sub [of rank m d] by auto
      with False "1.prems" True show ?thesis
        by (intro evict_least_rank [of d k v rank k']) auto
    qed
  next
    case False
    then have "snd (make_room rank m d) = d" by (subst make_room.simps) auto
    with "1.prems"(2) show ?thesis by simp
  qed
qed

lemma shrink_wf: "dict_wf d \<Longrightarrow> dict_wf (shrink rank n d)"
proof (induction rank n d rule: shrink.induct)
  case (1 rank n d)
  then show ?case by (subst shrink.simps) (auto simp: evict_least_wf)
qed

lemma shrink_sub: "set (shrink rank n d) \<subseteq> set d"
proof (induction rank n d rule: shrink.induct)
  case (1 rank n d)
  then show ?case using evict_least_sub [of rank d] by (subst shrink.simps) auto
qed

lemma shrink_length: "length (shrink rank n d) \<le> n"
proof (induction rank n d rule: shrink.induct)
  case (1 rank n d)
  then show ?case by (subst shrink.simps) auto
qed

section \<open>What both kinds of pool promise\<close>

text \<open>
  Adding a reference keeps a pool a dictionary within its bound, names at most the tool added beside
  those it had, and files every tool under its own name.
\<close>

locale tool_pool =
  fixes add :: "rat \<Rightarrow> int \<Rightarrow> 'r \<Rightarrow> 'a tool_scope \<Rightarrow> bool \<times> 'a tool_scope"
    and ref_key :: "'r \<Rightarrow> string" and tool_name :: "'a \<Rightarrow> string" and make_tool :: "rat \<Rightarrow> 'r \<Rightarrow> 'a"
  assumes add_wf: "dict_wf (sc_loaded s) \<Longrightarrow> dict_wf (sc_loaded (snd (add now m r s)))"
    and add_bounded: "int (length (sc_loaded (snd (add now m r s)))) \<le> max (int (length (sc_loaded s))) m"
    and add_files: "dict_wf (sc_loaded s) \<Longrightarrow> (k, t) \<in> set (sc_loaded (snd (add now m r s))) \<Longrightarrow>
      (k, t) \<in> set (sc_loaded s) \<or> k = ref_key r \<and> tool_name t = k"
    and add_fresh: "ref_key r \<notin> fst ` set (sc_loaded s) \<Longrightarrow> int (length (sc_loaded s)) < m \<Longrightarrow>
      add now m r s =
        (True, \<lparr>sc_last_active = now, sc_loaded = sc_loaded s @ [(ref_key r, make_tool now r)]\<rparr>)"
begin

lemma add_all_wf:
  "dict_wf (sc_loaded s) \<Longrightarrow> dict_wf (sc_loaded (snd (add_all (\<lambda>now. add now m) clock i rs s)))"
  by (induction rs arbitrary: s i) (auto simp: Let_def split: prod.splits, metis add_wf snd_conv)

lemma add_all_bounded:
  "int (length (sc_loaded (snd (add_all (\<lambda>now. add now m) clock i rs s)))) \<le> max (int (length (sc_loaded s))) m"
proof (induction rs arbitrary: s i)
  case (Cons r rs)
  obtain ok s1 where a: "add (clock i) m r s = (ok, s1)" by fastforce
  from add_bounded [of "clock i" m r s] Cons.IH [of "Suc i" s1] a show ?case by (auto split: prod.split)
qed simp

lemma add_all_files:
  "dict_wf (sc_loaded s) \<Longrightarrow> (k, t) \<in> set (sc_loaded (snd (add_all (\<lambda>now. add now m) clock i rs s))) \<Longrightarrow>
   (k, t) \<in> set (sc_loaded s) \<or> k \<in> ref_key ` set rs \<and> tool_name t = k"
proof (induction rs arbitrary: s i)
  case (Cons r rs)
  obtain ok s1 where a: "add (clock i) m r s = (ok, s1)" by fastforce
  from add_wf [OF Cons.prems(1), of "clock i" m r] a have wf: "dict_wf (sc_loaded s1)" by simp
  from Cons.prems(2) a have "(k, t) \<in> set (sc_loaded (snd (add_all (\<lambda>now. add now m) clock (Suc i) rs s1)))"
    by (simp split: prod.splits)
  from Cons.IH [OF wf this] show ?case
    using add_files [OF Cons.prems(1), of k t "clock i" m r] a by auto
qed simp

lemma add_all_reported: "set (fst (add_all (\<lambda>now. add now m) clock i rs s)) \<subseteq> set rs"
  by (induction rs arbitrary: s i) (auto simp: Let_def split: prod.splits, (metis fst_conv subsetD)+)

text \<open>Distinct new references that fit are all loaded, in their order.\<close>

lemma add_all_fresh:
  assumes "distinct (map ref_key rs)" and "ref_key ` set rs \<inter> fst ` set (sc_loaded s) = {}"
    and "int (length (sc_loaded s) + length rs) \<le> m"
  shows "fst (add_all (\<lambda>now. add now m) clock i rs s) = rs \<and>
    sc_loaded (snd (add_all (\<lambda>now. add now m) clock i rs s)) =
      sc_loaded s @ map (\<lambda>(j, r). (ref_key r, make_tool (clock j) r)) (enumerate i rs)"
  using assms
proof (induction rs arbitrary: s i)
  case (Cons r rs)
  let ?s = "\<lparr>sc_last_active = clock i, sc_loaded = sc_loaded s @ [(ref_key r, make_tool (clock i) r)]\<rparr>"
  have a: "add (clock i) m r s = (True, ?s)"
    using Cons.prems by (intro add_fresh) auto
  have "fst (add_all (\<lambda>now. add now m) clock (Suc i) rs ?s) = rs \<and>
    sc_loaded (snd (add_all (\<lambda>now. add now m) clock (Suc i) rs ?s)) =
      sc_loaded ?s @ map (\<lambda>(j, r). (ref_key r, make_tool (clock j) r)) (enumerate (Suc i) rs)"
    using Cons.prems by (intro Cons.IH) auto
  then show ?case by (auto simp: a split: prod.split)
qed simp

end

lemma make_room_there:
  assumes "int (length d) < m"
  shows "make_room rank m d = (True, d)"
  using assms by (subst make_room.simps) simp

lemma update_new: "k \<notin> fst ` set d \<Longrightarrow> AList.update k v d = d @ [(k, v)]"
  by (induction d) auto

lemma update_set: "set (AList.update k v d) \<subseteq> insert (k, v) (set d)"
  by (induction d) auto

lemma update_mem:
  assumes "(k', v') \<in> set (AList.update k v d)"
  obtains "k' = k" "v' = v" | "(k', v') \<in> set d"
  using assms update_set [of k v d] by auto

lemma touch_scope_loaded [simp]: "sc_loaded (touch_scope now s) = sc_loaded s"
  by (simp add: touch_scope_def)

text \<open>The common step of the two: refresh what is there, make room, file the new tool.\<close>

definition pool_add :: "('v \<Rightarrow> rat) \<Rightarrow> int \<Rightarrow> string \<Rightarrow> 'v \<Rightarrow> (string, 'v) dict \<Rightarrow> bool \<times> (string, 'v) dict" where
  "pool_add rank m key tool d =
     (if map_of d key \<noteq> None then (True, AList.update key tool d)
      else (case make_room rank m d of
          (False, d') \<Rightarrow> (False, d')
        | (True, d') \<Rightarrow> (True, AList.update key tool d')))"

lemma add_server_pool:
  "add_server generation now m r s =
     (let (ok, d) = pool_add lt_last_used m (storage_key r) (server_tool generation now r) (sc_loaded s)
      in (ok, (touch_scope now s)\<lparr>sc_loaded := d\<rparr>))"
  by (auto simp: add_server_def pool_add_def Let_def split: prod.split bool.split)

lemma add_client_pool:
  "add_client device catalog now m r s =
     (let (ok, d) = pool_add ct_last_used m (cf_tool_name r) (client_tool_of device catalog now r) (sc_loaded s)
      in (ok, (touch_scope now s)\<lparr>sc_loaded := d\<rparr>))"
  by (auto simp: add_client_def pool_add_def Let_def split: prod.split bool.split)

lemma pool_add_wf: "dict_wf d \<Longrightarrow> dict_wf (snd (pool_add rank m key tool d))"
  using make_room_wf [of d rank m]
  by (auto simp: pool_add_def split: prod.split bool.split)

lemma pool_add_bounded: "int (length (snd (pool_add rank m key tool d))) \<le> max (int (length d)) m"
proof (cases "map_of d key")
  case None
  obtain ok d' where r: "make_room rank m d = (ok, d')" by fastforce
  with make_room_length [of rank m d] have "ok \<Longrightarrow> int (length d') < m" "length d' \<le> length d" by auto
  with length_update_le [of key tool d'] None r show ?thesis
    by (cases ok) (auto simp: pool_add_def)
next
  case (Some t)
  with length_update_old [of d key tool] show ?thesis by (simp add: pool_add_def)
qed

lemma pool_add_files: "(k, t) \<in> set (snd (pool_add rank m key tool d)) \<Longrightarrow> (k, t) \<in> set d \<or> (k, t) = (key, tool)"
  using make_room_sub [of rank m d] update_set [of key tool d] update_set [of key tool "snd (make_room rank m d)"]
  by (auto simp: pool_add_def split: prod.splits bool.splits if_splits)

lemma pool_add_fresh:
  "key \<notin> fst ` set d \<Longrightarrow> int (length d) < m \<Longrightarrow> pool_add rank m key tool d = (True, d @ [(key, tool)])"
  by (simp add: pool_add_def make_room_there update_new map_of_eq_None_iff)

lemma add_server_loaded:
  "sc_loaded (snd (add_server generation now m r s)) =
   snd (pool_add lt_last_used m (storage_key r) (server_tool generation now r) (sc_loaded s))"
  by (simp add: add_server_pool Let_def split: prod.split)

lemma add_client_loaded:
  "sc_loaded (snd (add_client device catalog now m r s)) =
   snd (pool_add ct_last_used m (cf_tool_name r) (client_tool_of device catalog now r) (sc_loaded s))"
  by (simp add: add_client_pool Let_def split: prod.split)

lemmas pool_add_facts = pool_add_wf pool_add_bounded

interpretation servers: tool_pool "add_server generation" storage_key lt_call_name "server_tool generation"
  for generation
proof (unfold_locales, goal_cases)
  case (3 s k t now m r)
  then show ?case
    by (auto simp: add_server_loaded server_tool_def dest!: pool_add_files)
next
  case (4 r s m now)
  then show ?case by (simp add: add_server_pool pool_add_fresh touch_scope_def)
qed (simp_all add: add_server_loaded pool_add_facts)

interpretation clients: tool_pool "add_client device catalog" cf_tool_name ct_tool_name "client_tool_of device catalog"
  for device catalog
proof (unfold_locales, goal_cases)
  case (3 s k t now m r)
  then show ?case
    by (auto simp: add_client_loaded client_tool_of_def dest!: pool_add_files)
next
  case (4 r s m now)
  then show ?case by (simp add: add_client_pool pool_add_fresh touch_scope_def)
qed (simp_all add: add_client_loaded pool_add_facts)

section \<open>Tables of pools\<close>

text \<open>
  A pool in order: a dictionary within the bound, every tool under its own name. A table in order: a
  dictionary within the bound, with a conversation in every key.
\<close>

definition pool_ok :: "('a \<Rightarrow> string) \<Rightarrow> int \<Rightarrow> 'a tool_scope \<Rightarrow> bool" where
  "pool_ok named m s \<longleftrightarrow>
     dict_wf (sc_loaded s) \<and> int (length (sc_loaded s)) \<le> max 0 m \<and>
     (\<forall>(n, t) \<in> set (sc_loaded s). named t = n)"

definition table_ok ::
  "('a \<Rightarrow> string) \<Rightarrow> int \<Rightarrow> nat \<Rightarrow> (string \<times> 'k, 'a tool_scope) dict \<Rightarrow> bool" where
  "table_ok named m n d \<longleftrightarrow>
     dict_wf d \<and> length d \<le> n \<and> (\<forall>(k, s) \<in> set d. fst k \<noteq> [] \<and> pool_ok named m s)"

definition pool_names :: "'a tool_scope \<Rightarrow> string set" where
  "pool_names s = fst ` set (sc_loaded s)"

definition names_in :: "('k, 'a tool_scope) dict \<Rightarrow> 'k \<Rightarrow> string set" where
  "names_in d k = (case map_of d k of None \<Rightarrow> {} | Some s \<Rightarrow> pool_names s)"

text \<open>One change of a table: it stays in order, and only under \<open>key\<close> may names be new, those of \<open>new\<close>.\<close>

definition grows ::
  "('a \<Rightarrow> string) \<Rightarrow> int \<Rightarrow> nat \<Rightarrow> (string \<times> 'k) option \<Rightarrow> string set
     \<Rightarrow> (string \<times> 'k, 'a tool_scope) dict \<Rightarrow> (string \<times> 'k, 'a tool_scope) dict \<Rightarrow> bool" where
  "grows named m n key new d d' \<longleftrightarrow>
     (table_ok named m n d \<longrightarrow>
        table_ok named m n d' \<and> (\<forall>k. names_in d' k \<subseteq> names_in d k \<union> (if key = Some k then new else {})))"

lemma grows_refl [simp]: "grows named m n key new d d"
  by (simp add: grows_def)

lemma grows_trans:
  "grows named m n key new d1 d2 \<Longrightarrow> grows named m n key new d2 d3 \<Longrightarrow> grows named m n key new d1 d3"
  unfolding grows_def by blast

lemma grows_none: "grows named m n None {} d d' \<Longrightarrow> grows named m n key new d d'"
  by (auto simp: grows_def)

text \<open>Pools that only lose tools, in a table that only loses pools.\<close>

definition sub_pool :: "'a tool_scope \<Rightarrow> 'a tool_scope \<Rightarrow> bool" where
  "sub_pool s' s \<longleftrightarrow> subseq (sc_loaded s') (sc_loaded s)"

lemma sub_pool_refl [simp]: "sub_pool s s"
  by (simp add: sub_pool_def)

lemma subseq_dict:
  assumes "subseq e d"
  shows "set e \<subseteq> set d" and "length e \<le> length d" and "dict_wf d \<Longrightarrow> dict_wf e"
proof -
  from assms obtain N where e: "e = nths d N" by (auto simp: subseq_conv_nths)
  then show "set e \<subseteq> set d" by (simp add: set_nths_subset)
  show "length e \<le> length d" using assms by (rule list_emb_length)
  have "map fst e = nths (map fst d) N" by (simp add: e nths_map)
  then show "dict_wf d \<Longrightarrow> dict_wf e" by (simp add: dict_wf_def distinct_nthsI)
qed

lemma sub_pool_ok: "sub_pool s' s \<Longrightarrow> pool_ok named m s \<Longrightarrow> pool_ok named m s'"
  unfolding sub_pool_def pool_ok_def using subseq_dict [of "sc_loaded s'" "sc_loaded s"] by auto

lemma sub_pool_names: "sub_pool s' s \<Longrightarrow> pool_names s' \<subseteq> pool_names s"
  unfolding sub_pool_def pool_names_def using subseq_dict(1) by (rule image_mono)

lemma names_in_mem: "dict_wf d \<Longrightarrow> (k, s) \<in> set d \<Longrightarrow> names_in d k = pool_names s"
  by (simp add: names_in_def dict_wf_def)

lemma grows_shrinking:
  assumes "dict_wf d \<Longrightarrow> dict_wf d'" and "length d' \<le> length d"
    and "\<And>k s'. (k, s') \<in> set d' \<Longrightarrow> \<exists>s. (k, s) \<in> set d \<and> sub_pool s' s"
  shows "grows named m n None {} d d'"
  unfolding grows_def
proof (intro impI conjI allI)
  assume ok: "table_ok named m n d"
  then have wf: "dict_wf d" by (simp add: table_ok_def)
  have "fst k \<noteq> [] \<and> pool_ok named m s'" if kin: "(k, s') \<in> set d'" for k s'
  proof -
    from assms(3) [OF kin] obtain s where "(k, s) \<in> set d" "sub_pool s' s" by blast
    with ok sub_pool_ok show ?thesis by (fastforce simp: table_ok_def)
  qed
  with ok assms(1) [OF wf] assms(2) show "table_ok named m n d'" by (auto simp: table_ok_def)
  fix k
  show "names_in d' k \<subseteq> names_in d k \<union> (if None = Some k then {} else {})"
  proof (cases "map_of d' k")
    case (Some s')
    from assms(3) [OF map_of_SomeD [OF Some]] obtain s where s: "(k, s) \<in> set d" "sub_pool s' s" by blast
    with names_in_mem [OF wf s(1)] Some sub_pool_names show ?thesis by (auto simp: names_in_def)
  qed (simp add: names_in_def)
qed

lemma grows_subset:
  "dict_wf d' \<or> \<not> dict_wf d \<Longrightarrow> length d' \<le> length d \<Longrightarrow> set d' \<subseteq> set d \<Longrightarrow> grows named m n None {} d d'"
  by (rule grows_shrinking) (use sub_pool_refl in \<open>blast+\<close>)

lemma shrink_length_le: "length (shrink rank n d) \<le> length d"
proof (induction rank n d rule: shrink.induct)
  case (1 rank n d)
  then show ?case using evict_shorter [of d rank] by (subst shrink.simps) fastforce
qed

lemma grows_cap: "grows named m n None {} d (shrink rank b d)"
  by (rule grows_subset) (auto simp: shrink_wf shrink_length_le dest: subsetD [OF shrink_sub])

lemma grows_filter: "grows named m n None {} d (filter P d)"
  by (rule grows_subset) (auto simp: length_filter_le)

lemma grows_delete: "grows named m n None {} d (AList.delete k d)"
  by (rule grows_subset) (auto simp: length_delete_le AList.delete_eq)

lemma grows_sweep:
  assumes "\<And>s. sub_pool (f s) s"
  shows "grows named m n None {} d (filter P (map (\<lambda>(k, s). (k, f s)) d))"
proof (rule grows_shrinking)
  have "map fst (map (\<lambda>(k, s). (k, f s)) d) = map fst d" by (induction d) auto
  then show "dict_wf d \<Longrightarrow> dict_wf (filter P (map (\<lambda>(k, s). (k, f s)) d))"
    by (metis dict_wf_def dict_wf_filter)
  show "length (filter P (map (\<lambda>(k, s). (k, f s)) d)) \<le> length d"
    using length_filter_le [of P "map (\<lambda>(k, s). (k, f s)) d"] by simp
qed (use assms in auto)

text \<open>One pool written back.\<close>

lemma grows_write:
  assumes "map_of d k \<noteq> None" and "table_ok named m n d \<Longrightarrow> pool_ok named m s"
    and "pool_names s \<subseteq> names_in d k \<union> new"
  shows "grows named m n (Some k) new d (AList.update k s d)"
  unfolding grows_def
proof (intro impI conjI allI)
  assume ok: "table_ok named m n d"
  with assms(1) have key: "fst k \<noteq> []" by (auto simp: table_ok_def dest: map_of_SomeD)
  have "fst k' \<noteq> [] \<and> pool_ok named m s'" if "(k', s') \<in> set (AList.update k s d)" for k' s'
    using that
  proof (cases rule: update_mem)
    case 1
    with key assms(2) [OF ok] show ?thesis by simp
  next
    case 2
    with ok show ?thesis by (auto simp: table_ok_def)
  qed
  with ok show "table_ok named m n (AList.update k s d)"
    by (auto simp: table_ok_def length_update_old [OF assms(1)])
  fix k'
  show "names_in (AList.update k s d) k' \<subseteq> names_in d k' \<union> (if Some k = Some k' then new else {})"
    using assms(3) by (auto simp: names_in_def update_conv')
qed

text \<open>A fresh pool entered, and the bound on pools restored.\<close>

lemma grows_enter:
  assumes "map_of d k = None" and "fst k \<noteq> []" and "c \<le> n" and "sc_loaded s = []"
  shows "grows named m n None {} d (shrink rank c (AList.update k s d))"
  unfolding grows_def
proof (intro impI conjI allI)
  let ?e = "AList.update k s d"
  assume ok: "table_ok named m n d"
  have wf: "dict_wf ?e" using ok by (simp add: table_ok_def)
  have fresh: "pool_ok named m s" using assms(4) by (simp add: pool_ok_def)
  have "fst k' \<noteq> [] \<and> pool_ok named m s'" if "(k', s') \<in> set ?e" for k' s'
    using that
  proof (cases rule: update_mem)
    case 1
    with assms(2) fresh show ?thesis by simp
  next
    case 2
    with ok show ?thesis by (auto simp: table_ok_def)
  qed
  then show "table_ok named m n (shrink rank c ?e)"
    using shrink_wf [OF wf] order_trans [OF shrink_length assms(3)] shrink_sub [of rank c ?e]
    unfolding table_ok_def by blast
  fix k'
  have "names_in (shrink rank c ?e) k' \<subseteq> names_in ?e k'"
  proof (cases "map_of (shrink rank c ?e) k'")
    case (Some s')
    then have "(k', s') \<in> set ?e" using shrink_sub by (fastforce dest: map_of_SomeD)
    with wf Some show ?thesis by (simp add: names_in_mem) (simp add: names_in_def)
  qed (simp add: names_in_def)
  also have "names_in ?e k' \<subseteq> names_in d k'"
    using assms(4) by (auto simp: names_in_def update_conv' pool_names_def)
  finally show "names_in (shrink rank c ?e) k' \<subseteq> names_in d k' \<union> (if None = Some k' then {} else {})" by simp
qed

section \<open>Every operation on the registry\<close>

text \<open>The two halves of the registry, each changed as \<open>grows\<close> allows.\<close>

definition registry_grows ::
  "int \<Rightarrow> nat \<Rightarrow> server_key option \<Rightarrow> string set \<Rightarrow> client_key option \<Rightarrow> string set
     \<Rightarrow> tool_registry \<Rightarrow> tool_registry \<Rightarrow> bool" where
  "registry_grows m n skey snew ckey cnew g g' \<longleftrightarrow>
     grows lt_call_name m n skey snew (tg_servers g) (tg_servers g') \<and>
     grows ct_tool_name m n ckey cnew (tg_clients g) (tg_clients g')"

lemma registry_grows_refl [simp]: "registry_grows m n skey snew ckey cnew g g"
  by (simp add: registry_grows_def)

lemma registry_grows_trans:
  "registry_grows m n sk sn ck cn g1 g2 \<Longrightarrow> registry_grows m n sk sn ck cn g2 g3 \<Longrightarrow> registry_grows m n sk sn ck cn g1 g3"
  unfolding registry_grows_def by (meson grows_trans)

lemma registry_grows_none:
  "registry_grows m n None {} None {} g g' \<Longrightarrow> registry_grows m n sk sn ck cn g g'"
  by (auto simp: registry_grows_def intro: grows_none)

lemma registry_grows_half:
  "registry_grows m n sk sn None {} g g' \<Longrightarrow> registry_grows m n sk sn ck cn g g'"
  "registry_grows m n None {} ck cn g g' \<Longrightarrow> registry_grows m n sk sn ck cn g g'"
  unfolding registry_grows_def using grows_none by metis+

lemma sub_cleanup_server: "sub_pool (cleanup_server now ttl gen s) s"
  by (simp add: sub_pool_def cleanup_server_def)

lemma sub_cleanup_client: "sub_pool (cleanup_client now ttl cat s) s"
  by (simp add: sub_pool_def cleanup_client_def)

lemma sub_touch: "sub_pool (touch_scope now s') s \<longleftrightarrow> sub_pool s' s"
  by (simp add: sub_pool_def)

lemma sweep_grows: "registry_grows m n sk sn ck cn g (maybe_sweep env g)"
  by (rule registry_grows_none)
    (auto simp: registry_grows_def maybe_sweep_def Let_def
      intro!: grows_sweep sub_cleanup_server sub_cleanup_client)

text \<open>The bounds of a call lie within those of the registry.\<close>

definition env_within :: "int \<Rightarrow> nat \<Rightarrow> tool_env \<Rightarrow> int option \<Rightarrow> bool" where
  "env_within m n env max_tools \<longleftrightarrow> tool_bound env max_tools \<le> m \<and> scope_cap env \<le> n"

lemma grows_put_back:
  assumes "table_ok named m n d \<Longrightarrow> pool_ok named m s"
    and "table_ok named m n d \<Longrightarrow> pool_names s \<subseteq> names_in d k \<union> new"
  shows "grows named m n (Some k) new d (put_back k s d)"
proof (cases "table_ok named m n d")
  case True
  with grows_write [of d k named m n s new] assms show ?thesis by (simp add: put_back_def)
qed (simp add: grows_def)

lemma fresh_pool: "pool_ok named m (new_scope now)" "pool_names (new_scope now) = {}"
  by (simp_all add: pool_ok_def new_scope_def pool_names_def)

lemma pool_in_table: "table_ok named m n d \<Longrightarrow> map_of d k = Some s \<Longrightarrow> pool_ok named m s"
  by (auto simp: table_ok_def dest!: map_of_SomeD)

lemma grows_then:
  assumes "grows named m n None {} d d'"
    and "table_ok named m n d' \<Longrightarrow> grows named m n key new d' d''"
  shows "grows named m n key new d d''"
  using assms unfolding grows_def by fastforce

text \<open>A cleaned pool written back over itself.\<close>

lemma grows_clean:
  assumes "map_of d k = Some s" and "sub_pool s' s"
  shows "grows named m n None {} d (AList.update k s' d)"
proof -
  have "grows named m n (Some k) {} d (AList.update k s' d)"
    using assms sub_pool_ok [OF assms(2) pool_in_table [OF _ assms(1)]] sub_pool_names [OF assms(2)]
    by (intro grows_write) (auto simp: names_in_def)
  then show ?thesis by (simp add: grows_def)
qed

text \<open>Filling a pool: the one found, or a new one when there is none.\<close>

context tool_pool
begin

lemma add_all_pool:
  assumes "pool_ok tool_name m s" and "b \<le> m"
  shows "pool_ok tool_name m (snd (add_all (\<lambda>now. add now b) clock i rs s))"
    and "pool_names (snd (add_all (\<lambda>now. add now b) clock i rs s)) \<subseteq> pool_names s \<union> ref_key ` set rs"
proof -
  let ?s = "snd (add_all (\<lambda>now. add now b) clock i rs s)"
  have wf: "dict_wf (sc_loaded s)" using assms(1) by (simp add: pool_ok_def)
  note f = add_all_files [OF wf, of _ _ b clock i rs]
  have "tool_name t = k" if "(k, t) \<in> set (sc_loaded ?s)" for k t
    using f [OF that] assms(1) by (auto simp: pool_ok_def)
  then show "pool_ok tool_name m ?s"
    using add_all_wf [OF wf, of b clock i rs] add_all_bounded [of b clock i rs s] assms
    by (auto simp: pool_ok_def)
  show "pool_names ?s \<subseteq> pool_names s \<union> ref_key ` set rs"
    using f unfolding pool_names_def by fastforce
qed

lemma fill_ok:
  assumes "sub_pool s' s" and "b \<le> m" and "pool_ok tool_name m s"
  shows "pool_ok tool_name m (snd (add_all (\<lambda>now. add now b) clock i rs s'))"
    and "pool_names (snd (add_all (\<lambda>now. add now b) clock i rs s')) \<subseteq> pool_names s \<union> ref_key ` set rs"
  using add_all_pool [OF sub_pool_ok [OF assms(1,3)] assms(2), of clock i rs] sub_pool_names [OF assms(1)] by blast+

lemma grows_fill_old:
  assumes "map_of d key = Some s" and "sub_pool s' s" and "b \<le> m"
  shows "grows tool_name m n (Some key) (ref_key ` set rs) d
    (put_back key (snd (add_all (\<lambda>now. add now b) clock i rs s')) d)"
proof (rule grows_put_back)
  assume "table_ok tool_name m n d"
  from fill_ok [OF assms(2,3) pool_in_table [OF this assms(1)], of clock i rs]
  show "pool_ok tool_name m (snd (add_all (\<lambda>now. add now b) clock i rs s'))"
    and "pool_names (snd (add_all (\<lambda>now. add now b) clock i rs s')) \<subseteq> names_in d key \<union> ref_key ` set rs"
    using assms(1) by (simp_all add: names_in_def)
qed

lemma grows_fill_new:
  assumes "map_of d key = None" and "sub_pool s' (new_scope now)" and "b \<le> m"
    and "fst key \<noteq> []" and "c \<le> n"
  shows "grows tool_name m n (Some key) (ref_key ` set rs) d
    (put_back key (snd (add_all (\<lambda>now. add now b) clock i rs s'))
      (shrink rank c (AList.update key (new_scope now) d)))"
proof (rule grows_then)
  show "grows tool_name m n None {} d (shrink rank c (AList.update key (new_scope now) d))"
    using assms by (intro grows_enter) (auto simp: new_scope_def)
  show "grows tool_name m n (Some key) (ref_key ` set rs) (shrink rank c (AList.update key (new_scope now) d))
    (put_back key (snd (add_all (\<lambda>now. add now b) clock i rs s'))
      (shrink rank c (AList.update key (new_scope now) d)))"
    using fill_ok [OF assms(2,3) fresh_pool(1), of clock i rs] fresh_pool(2) [of now]
    by (intro grows_put_back) auto
qed

end

lemma server_key_of_SomeD: "server_key_of c a = Some key \<Longrightarrow> fst key \<noteq> []"
  by (auto simp: server_key_of_def truthy_str_def split: if_splits option.splits)

lemma client_key_of_SomeD: "client_key_of c a d s = Some key \<Longrightarrow> fst key \<noteq> []"
  by (auto simp: client_key_of_def truthy_str_def split: if_splits option.splits)

lemma autoload_grows:
  assumes "env_within m n env max_tools"
  shows "registry_grows m n (server_key_of c a) (storage_key ` set refs) None {} g
    (snd (autoload env c a refs max_tools g))"
proof (cases "server_key_of c a")
  case None
  then show ?thesis by (simp add: autoload_def)
next
  case (Some key)
  let ?g = "maybe_sweep env g"
  have b: "tool_bound env max_tools \<le> m" and cap: "scope_cap env \<le> n"
    using assms by (simp_all add: env_within_def)
  have "registry_grows m n (Some key) (storage_key ` set refs) None {} ?g (snd (autoload env c a refs max_tools g))"
  proof (cases "map_of (tg_servers ?g) key")
    case None
    then show ?thesis
      using servers.grows_fill_new [OF None sub_cleanup_server b server_key_of_SomeD [OF Some] cap] Some
      by (auto simp: autoload_def registry_grows_def Let_def enforce_scope_cap_def grows_cap case_prod_beta)
  next
    case (Some s)
    then show ?thesis
      using servers.grows_fill_old [OF Some sub_cleanup_server b] \<open>server_key_of c a = Some key\<close>
      by (auto simp: autoload_def registry_grows_def Let_def case_prod_beta)
  qed
  with Some show ?thesis using registry_grows_trans [OF sweep_grows] by simp
qed

lemma autoload_client_grows:
  assumes "env_within m n env max_tools"
  shows "registry_grows m n None {} (client_key_of c a dev (effective_session env refs dev session user))
    (cf_tool_name ` set refs) g (snd (autoload_client_tools env c a refs dev session user max_tools g))"
proof (cases "truthy_str dev \<and> truthy_str c")
  case False
  then show ?thesis by (auto simp: autoload_client_tools_def)
next
  case True
  then obtain key where key: "client_key_of c a dev (effective_session env refs dev session user) = Some key"
    by (auto simp: client_key_of_def)
  let ?g = "maybe_sweep env g"
  have b: "tool_bound env max_tools \<le> m" and cap: "scope_cap env \<le> n"
    using assms by (simp_all add: env_within_def)
  have "registry_grows m n None {} (Some key) (cf_tool_name ` set refs) ?g
      (snd (autoload_client_tools env c a refs dev session user max_tools g))"
  proof (cases "map_of (tg_clients ?g) key")
    case None
    then show ?thesis
      using clients.grows_fill_new [OF None sub_cleanup_client b client_key_of_SomeD [OF key] cap] key True
      by (auto simp: autoload_client_tools_def registry_grows_def Let_def enforce_scope_cap_def grows_cap case_prod_beta)
  next
    case (Some s)
    then show ?thesis
      using clients.grows_fill_old [OF Some sub_cleanup_client b] key True
      by (auto simp: autoload_client_tools_def registry_grows_def Let_def case_prod_beta)
  qed
  with key show ?thesis using registry_grows_trans [OF sweep_grows] by simp
qed

lemma get_loaded_grows: "registry_grows m n sk sn ck cn g (snd (get_loaded env c a g))"
  by (rule registry_grows_none)
    (auto simp: get_loaded_def registry_grows_def Let_def sub_touch
      intro!: grows_clean sub_cleanup_server split: option.split)

lemma get_loaded_client_tools_grows:
  "registry_grows m n sk sn ck cn g (snd (get_loaded_client_tools env c a dev session user g))"
  by (rule registry_grows_none)
    (auto simp: get_loaded_client_tools_def registry_grows_def Let_def sub_touch
      intro!: grows_clean sub_cleanup_client split: option.split)

lemma get_all_loaded_tool_names_grows:
  "registry_grows m n sk sn ck cn g (snd (get_all_loaded_tool_names env c a dev session user g))"
  by (rule registry_grows_none)
    (auto simp: get_all_loaded_tool_names_def registry_grows_def Let_def sub_touch
      intro!: grows_clean sub_cleanup_server sub_cleanup_client split: option.split)

lemma snapshot_servers_grows: "registry_grows m n sk sn ck cn g (snd (snapshot_servers env c a g))"
  by (rule registry_grows_none)
    (auto simp: snapshot_servers_def registry_grows_def Let_def
      intro!: grows_clean sub_cleanup_server split: option.split)

lemma snapshot_tools_grows: "registry_grows m n sk sn ck cn g (snd (snapshot_tools env c a dev session user g))"
  using registry_grows_trans [OF snapshot_servers_grows get_loaded_client_tools_grows]
  by (simp add: snapshot_tools_def Let_def case_prod_beta)

lemma pool_refreshed:
  assumes "pool_ok named m s" and "map_of (sc_loaded s) k \<noteq> None" and "named t = k"
    and "sc_loaded s' = AList.update k t (sc_loaded s)"
  shows "pool_ok named m s'" and "pool_names s' = pool_names s"
proof -
  have "named u = l" if "(l, u) \<in> set (sc_loaded s')" for l u
    using that unfolding assms(4)
    by (cases rule: update_mem) (use assms(1,3) in \<open>auto simp: pool_ok_def\<close>)
  with assms show "pool_ok named m s'"
    using length_update_old [OF assms(2)] by (auto simp: pool_ok_def)
  have "fst ` set (sc_loaded s') = dom (map_of (sc_loaded s'))" by (simp add: dom_map_of_conv_image_fst)
  also have "\<dots> = dom (map_of (sc_loaded s))" using assms(2,4) by (auto simp: update_conv')
  finally show "pool_names s' = pool_names s" by (simp add: pool_names_def dom_map_of_conv_image_fst)
qed

lemma get_server_pool:
  assumes "pool_ok lt_call_name m s"
  shows "pool_ok lt_call_name m (snd (get_server now name s))"
    and "pool_names (snd (get_server now name s)) = pool_names s"
proof -
  have "pool_ok lt_call_name m (snd (get_server now name s)) \<and> pool_names (snd (get_server now name s)) = pool_names s"
  proof (cases "map_of (sc_loaded s) name")
    case None
    with assms show ?thesis by (simp add: get_server_def pool_ok_def pool_names_def)
  next
    case (Some t)
    with assms have "lt_call_name t = name" by (auto simp: pool_ok_def dest: map_of_SomeD)
    with pool_refreshed [OF assms, of name "t\<lparr>lt_last_used := now\<rparr>" "snd (get_server now name s)"] Some
    show ?thesis by (simp add: get_server_def Let_def)
  qed
  then show "pool_ok lt_call_name m (snd (get_server now name s))"
    and "pool_names (snd (get_server now name s)) = pool_names s" by blast+
qed

lemma use_tool_grows: "registry_grows m n sk sn ck cn g (snd (use_tool env c a name g))"
proof -
  have "grows lt_call_name m n None {} (tg_servers g) (AList.update key (snd (get_server now name s)) (tg_servers g))"
    if k: "map_of (tg_servers g) key = Some s" for key s now
  proof (cases "table_ok lt_call_name m n (tg_servers g)")
    case True
    from get_server_pool [OF pool_in_table [OF True k], of now name] k
    have "grows lt_call_name m n (Some key) {} (tg_servers g) (AList.update key (snd (get_server now name s)) (tg_servers g))"
      by (intro grows_write) (auto simp: names_in_def)
    then show ?thesis by (simp add: grows_def)
  qed (simp add: grows_def)
  note g = this
  show ?thesis
  proof (rule registry_grows_none, cases "server_key_of c a")
    case (Some key)
    then show "registry_grows m n None {} None {} g (snd (use_tool env c a name g))"
      by (cases "map_of (tg_servers g) key")
        (simp_all add: use_tool_def registry_grows_def case_prod_beta g)
  qed (simp add: use_tool_def)
qed

lemma clear_conversation_grows: "registry_grows m n sk sn ck cn g (snd (clear_conversation c a g))"
  by (rule registry_grows_none)
    (simp add: clear_conversation_def registry_grows_def Let_def grows_delete grows_filter)

lemma clear_all_grows: "registry_grows m n sk sn ck cn g (snd (clear_all now g))"
  by (rule registry_grows_none)
    (auto simp: clear_all_def empty_registry_def registry_grows_def intro!: grows_subset)

section \<open>Traces\<close>

datatype tool_op =
    LoadTools "string option" "string option" "tool_reference list" "int option"
  | LoadClientTools "string option" "string option" "client_reference list" "string option"
      "string option" "string option" "int option"
  | ListTools "string option" "string option"
  | ListClientTools "string option" "string option" "string option" "string option" "string option"
  | ListNames "string option" "string option" "string option" "string option" "string option"
  | UseTool "string option" "string option" string
  | SnapshotTools "string option" "string option" "string option" "string option" "string option"
  | RestoreTools "string option" "string option" pyval "string option" "string option" "string option"
  | ClearConversation "string option" "string option"
  | ClearAll

fun tool_step :: "tool_env \<Rightarrow> tool_op \<Rightarrow> tool_registry \<Rightarrow> tool_registry" where
  "tool_step env (LoadTools c a refs m) g = snd (autoload env c a refs m g)"
| "tool_step env (LoadClientTools c a refs d s u m) g = snd (autoload_client_tools env c a refs d s u m g)"
| "tool_step env (ListTools c a) g = snd (get_loaded env c a g)"
| "tool_step env (ListClientTools c a d s u) g = snd (get_loaded_client_tools env c a d s u g)"
| "tool_step env (ListNames c a d s u) g = snd (get_all_loaded_tool_names env c a d s u g)"
| "tool_step env (UseTool c a name) g = snd (use_tool env c a name g)"
| "tool_step env (SnapshotTools c a d s u) g = snd (snapshot_tools env c a d s u g)"
| "tool_step env (RestoreTools c a snap d s u) g = snd (restore_tools env c a snap d s u g)"
| "tool_step env (ClearConversation c a) g = snd (clear_conversation c a g)"
| "tool_step env ClearAll g = snd (clear_all (te_now env) g)"

fun tool_run :: "(tool_env \<times> tool_op) list \<Rightarrow> tool_registry \<Rightarrow> tool_registry" where
  "tool_run [] g = g"
| "tool_run ((env, x) # xs) g = tool_run xs (tool_step env x g)"

text \<open>What an operation may load: under which key, and which names.\<close>

definition restored_servers :: "tool_env \<Rightarrow> pyval \<Rightarrow> tool_reference list" where
  "restored_servers env snap =
     (case snap of
        PDict d \<Rightarrow>
          (case Option.bind (iterable (pget d ''server_tools''))
              (server_refs (pget d ''runtime_id'' = PStr (te_runtime_id env)) (te_generation env)) of
             None \<Rightarrow> [] | Some refs \<Rightarrow> refs)
      | _ \<Rightarrow> [])"

definition restoring_session :: "tool_env \<Rightarrow> string option \<Rightarrow> string option \<Rightarrow> string option \<Rightarrow> string option" where
  "restoring_session env device session user =
     (if truthy_str session then session else active_session env device user)"

definition restored_clients ::
  "tool_env \<Rightarrow> pyval \<Rightarrow> string option \<Rightarrow> string option \<Rightarrow> string option \<Rightarrow> client_reference list" where
  "restored_clients env snap device session user =
     (case (device, snap) of
        (Some dev, PDict d) \<Rightarrow>
          (case (if truthy (pget d ''client_tools'') then pget d ''client_tools'' else PList []) of
             PList es \<Rightarrow>
               (case client_refs dev (restoring_session env device session user)
                   (if pget d ''runtime_id'' = PStr (te_runtime_id env) then te_catalog env device user else 0) es of
                  None \<Rightarrow> [] | Some refs \<Rightarrow> refs)
           | _ \<Rightarrow> [])
      | _ \<Rightarrow> [])"

fun server_load :: "tool_env \<Rightarrow> tool_op \<Rightarrow> string option \<times> string option \<times> string set" where
  "server_load env (LoadTools c a refs m) = (c, a, storage_key ` set refs)"
| "server_load env (RestoreTools c a snap d s u) = (c, a, storage_key ` set (restored_servers env snap))"
| "server_load env _ = (None, None, {})"

fun client_load ::
  "tool_env \<Rightarrow> tool_op \<Rightarrow> string option \<times> string option \<times> string option \<times> string option \<times> string set" where
  "client_load env (LoadClientTools c a refs d s u m) =
     (c, a, d, effective_session env refs d s u, cf_tool_name ` set refs)"
| "client_load env (RestoreTools c a snap d s u) =
     (let refs = restored_clients env snap d s u
      in (c, a, d, effective_session env refs d (restoring_session env d s u) u, cf_tool_name ` set refs))"
| "client_load env _ = (None, None, None, None, {})"

definition server_target :: "tool_env \<Rightarrow> tool_op \<Rightarrow> server_key option \<times> string set" where
  "server_target env x = (case server_load env x of (c, a, names) \<Rightarrow> (server_key_of c a, names))"

definition client_target :: "tool_env \<Rightarrow> tool_op \<Rightarrow> client_key option \<times> string set" where
  "client_target env x = (case client_load env x of (c, a, d, s, names) \<Rightarrow> (client_key_of c a d s, names))"

text \<open>The bound on tools an operation works with.\<close>

fun op_max :: "tool_op \<Rightarrow> int option" where
  "op_max (LoadTools c a refs m) = m"
| "op_max (LoadClientTools c a refs d s u m) = m"
| "op_max _ = None"

definition call_within :: "int \<Rightarrow> nat \<Rightarrow> tool_env \<times> tool_op \<Rightarrow> bool" where
  "call_within m n call = env_within m n (fst call) (op_max (snd call))"

lemma restore_client_list:
  "restore_client_tools env c a (PList es) dev s u same g =
     (case client_refs dev (restoring_session env (Some dev) s u) (if same then te_catalog env (Some dev) u else 0) es of
        None \<Rightarrow> (None, g)
      | Some refs \<Rightarrow>
          if refs = [] then (Some [], g)
          else (case autoload_client_tools env c a refs (Some dev) (restoring_session env (Some dev) s u) u None g of
             (loaded, g') \<Rightarrow> (Some loaded, g')))"
  by (simp only: restore_client_tools_def restoring_session_def Let_def pyval.case)

lemma restore_tools_grows:
  assumes "env_within m n env None"
  shows "registry_grows m n (server_key_of c a) (storage_key ` set (restored_servers env snap))
    (fst (client_target env (RestoreTools c a snap d s u))) (snd (client_target env (RestoreTools c a snap d s u)))
    g (snd (restore_tools env c a snap d s u g))"
    (is "registry_grows m n ?sk ?sn ?ck ?cn g _")
proof (cases "\<exists>dict. snap = PDict dict")
  case False
  then have "restore_tools env c a snap d s u g = (Some (0, 0), g)"
    by (cases snap) (auto simp: restore_tools_def)
  then show ?thesis by simp
next
  case True
  then obtain dict where snap: "snap = PDict dict" by blast
  let ?same = "pget dict ''runtime_id'' = PStr (te_runtime_id env)"
  show ?thesis
  proof (cases "Option.bind (iterable (pget dict ''server_tools'')) (server_refs ?same (te_generation env))")
    case None
    then show ?thesis by (simp add: restore_tools_def snap)
  next
    case (Some refs)
    define g1 where "g1 = snd (autoload env c a refs None g)"
    have refs: "restored_servers env snap = refs" using Some by (simp add: restored_servers_def snap)
    have "registry_grows m n ?sk ?sn None {} g g1"
      using autoload_grows [OF assms] by (simp add: g1_def refs)
    then have 1: "registry_grows m n ?sk ?sn ?ck ?cn g g1" by (rule registry_grows_half(1))
    show ?thesis
    proof (cases "truthy_str d")
      case False
      with 1 Some show ?thesis by (simp add: restore_tools_def snap g1_def case_prod_beta)
    next
      case True
      then obtain dev where dev: "d = Some dev" by (cases d) (auto simp: truthy_str_def)
      let ?entries = "if truthy (pget dict ''client_tools'') then pget dict ''client_tools'' else PList []"
      let ?restore = "restore_client_tools env c a ?entries dev s u ?same g1"
      have out: "snd (restore_tools env c a snap d s u g) = snd ?restore"
        using Some True dev by (auto simp: restore_tools_def snap g1_def case_prod_beta Let_def split: option.split)
      have "registry_grows m n ?sk ?sn ?ck ?cn g1 (snd ?restore)"
      proof (cases "\<exists>es rs. ?entries = PList es \<and> client_refs dev (restoring_session env d s u)
            (if ?same then te_catalog env d u else 0) es = Some rs \<and> rs \<noteq> []")
        case False
        then have "snd ?restore = g1"
          by (cases ?entries)
            (auto simp: restore_client_tools_def restoring_session_def dev Let_def split: option.split)
        then show ?thesis by simp
      next
        case True
        then obtain es rs where es: "?entries = PList es" and rs: "rs \<noteq> []"
          and cr: "client_refs dev (restoring_session env d s u) (if ?same then te_catalog env d u else 0) es = Some rs"
          by blast
        have rc: "restored_clients env snap d s u = rs"
          using es cr unfolding restored_clients_def snap dev by simp
        have "snd ?restore = snd (autoload_client_tools env c a rs d (restoring_session env d s u) u None g1)"
          using cr rs unfolding es dev by (simp add: restore_client_list case_prod_beta)
        then show ?thesis
          using registry_grows_half(2) [OF autoload_client_grows [OF assms, of c a d rs "restoring_session env d s u" u g1]]
          by (simp add: rc Let_def client_target_def)
      qed
      then show ?thesis unfolding out by (rule registry_grows_trans [OF 1])
    qed
  qed
qed

lemma no_key [simp]: "server_key_of None a = None" "client_key_of None a d s = None"
  by (simp_all add: server_key_of_def client_key_of_def truthy_str_def)

lemma tool_step_grows:
  assumes "call_within m n (env, x)"
  shows "registry_grows m n (fst (server_target env x)) (snd (server_target env x))
    (fst (client_target env x)) (snd (client_target env x)) g (tool_step env x g)"
proof (cases x)
  case (LoadTools c a refs mx)
  with assms autoload_grows [of m n env mx c a refs g] show ?thesis
    by (simp add: call_within_def server_target_def client_target_def Let_def)
next
  case (LoadClientTools c a refs d s u mx)
  with assms autoload_client_grows [of m n env mx c a d refs s u g] show ?thesis
    by (simp add: call_within_def server_target_def client_target_def Let_def)
next
  case (RestoreTools c a snap d s u)
  with assms restore_tools_grows [of m n env c a snap d s u g] show ?thesis
    by (simp add: call_within_def server_target_def client_target_def Let_def)
qed (simp_all add: get_loaded_grows get_loaded_client_tools_grows get_all_loaded_tool_names_grows
  use_tool_grows snapshot_tools_grows clear_conversation_grows clear_all_grows)

definition registry_ok :: "int \<Rightarrow> nat \<Rightarrow> tool_registry \<Rightarrow> bool" where
  "registry_ok m n g \<longleftrightarrow> table_ok lt_call_name m n (tg_servers g) \<and> table_ok ct_tool_name m n (tg_clients g)"

lemma registry_ok_step:
  "call_within m n (env, x) \<Longrightarrow> registry_ok m n g \<Longrightarrow> registry_ok m n (tool_step env x g)"
  using tool_step_grows [of m n env x g] by (simp add: registry_ok_def registry_grows_def grows_def)

lemma registry_ok_run:
  "list_all (call_within m n) xs \<Longrightarrow> registry_ok m n g \<Longrightarrow> registry_ok m n (tool_run xs g)"
proof (induction xs arbitrary: g)
  case (Cons p xs)
  then show ?case using registry_ok_step by (cases p) auto
qed simp

lemma registry_ok_empty: "registry_ok m n (empty_registry now)"
  by (simp add: registry_ok_def empty_registry_def table_ok_def)

lemma names_step:
  assumes "call_within m n (env, x)" and "registry_ok m n g"
  shows "names_in (tg_servers (tool_step env x g)) k \<subseteq>
      names_in (tg_servers g) k \<union> (if fst (server_target env x) = Some k then snd (server_target env x) else {})"
    and "names_in (tg_clients (tool_step env x g)) ck \<subseteq>
      names_in (tg_clients g) ck \<union> (if fst (client_target env x) = Some ck then snd (client_target env x) else {})"
  using tool_step_grows [OF assms(1), of g] assms(2)
  unfolding registry_grows_def grows_def registry_ok_def by blast+

lemma names_run_servers:
  assumes "list_all (call_within m n) xs" and "registry_ok m n g" and "name \<in> names_in (tg_servers (tool_run xs g)) k"
  shows "name \<in> names_in (tg_servers g) k \<or>
    (\<exists>(env, x) \<in> set xs. fst (server_target env x) = Some k \<and> name \<in> snd (server_target env x))"
  using assms
proof (induction xs arbitrary: g)
  case (Cons p xs)
  obtain env x where p: "p = (env, x)" by fastforce
  from Cons.IH [of "tool_step env x g"] Cons.prems registry_ok_step p
  have "name \<in> names_in (tg_servers (tool_step env x g)) k \<or>
    (\<exists>(env, x) \<in> set xs. fst (server_target env x) = Some k \<and> name \<in> snd (server_target env x))" by simp
  moreover have "names_in (tg_servers (tool_step env x g)) k \<subseteq>
      names_in (tg_servers g) k \<union> (if fst (server_target env x) = Some k then snd (server_target env x) else {})"
    using names_step(1) [of m n env x g k] Cons.prems p by simp
  ultimately show ?case by (auto simp: p split: if_splits)
qed simp

lemma names_run_clients:
  assumes "list_all (call_within m n) xs" and "registry_ok m n g" and "name \<in> names_in (tg_clients (tool_run xs g)) k"
  shows "name \<in> names_in (tg_clients g) k \<or>
    (\<exists>(env, x) \<in> set xs. fst (client_target env x) = Some k \<and> name \<in> snd (client_target env x))"
  using assms
proof (induction xs arbitrary: g)
  case (Cons p xs)
  obtain env x where p: "p = (env, x)" by fastforce
  from Cons.IH [of "tool_step env x g"] Cons.prems registry_ok_step p
  have "name \<in> names_in (tg_clients (tool_step env x g)) k \<or>
    (\<exists>(env, x) \<in> set xs. fst (client_target env x) = Some k \<and> name \<in> snd (client_target env x))" by simp
  moreover have "names_in (tg_clients (tool_step env x g)) k \<subseteq>
      names_in (tg_clients g) k \<union> (if fst (client_target env x) = Some k then snd (client_target env x) else {})"
    using names_step(2) [of m n env x g k] Cons.prems p by simp
  ultimately show ?case by (auto simp: p split: if_splits)
qed simp

section \<open>A snapshot restored\<close>

text \<open>Names a snapshot keeps: neither empty nor padded with space.\<close>

definition plain_name :: "string \<Rightarrow> bool" where
  "plain_name x \<longleftrightarrow> x \<noteq> [] \<and> py_strip x = x"

definition kept_by_snapshot :: "tool_env \<Rightarrow> loaded_tool \<Rightarrow> bool" where
  "kept_by_snapshot env t \<longleftrightarrow>
     lt_generation t = te_generation env \<and> \<not> is_idle (te_now env) (lt_last_used t) (te_ttl env) \<and>
     plain_name (lt_tool_name t) \<and> plain_name (lt_server_name t) \<and> plain_name (lt_call_name t)"

lemma py_int_or_PInt: "py_int_or (PInt i) 0 = Some i"
  by (simp add: py_int_or_def)

lemma server_refs_entries:
  assumes "\<And>t. t \<in> set ts \<Longrightarrow> kept_by_snapshot env t"
  shows "server_refs True (te_generation env) (map server_entry ts) = Some (map to_reference ts)"
  using assms
proof (induction ts)
  case (Cons t ts)
  from Cons.prems [of t] have "kept_by_snapshot env t" by simp
  with Cons show ?case
    by (simp add: server_entry_def entry_text_def pget_def kept_by_snapshot_def plain_name_def py_int_or_PInt
        to_reference_def)
qed simp

lemma cleanup_server_kept:
  assumes "\<And>k t. (k, t) \<in> set (sc_loaded s) \<Longrightarrow> kept_by_snapshot env t"
  shows "cleanup_server (te_now env) (te_ttl env) (te_generation env) s = s"
proof -
  have "filter (\<lambda>(k, t). \<not> (is_idle (te_now env) (lt_last_used t) (te_ttl env) \<or> lt_generation t \<noteq> te_generation env))
      (sc_loaded s) = sc_loaded s"
    using assms by (intro filter_True) (auto simp: kept_by_snapshot_def)
  then show ?thesis by (simp add: cleanup_server_def)
qed

text \<open>Distinct references that fit, loaded into a registry that has no pools.\<close>

lemma autoload_fresh:
  assumes "server_key_of c a = Some key" and "distinct (map storage_key refs)"
    and "int (length refs) \<le> tool_bound env mx" and "tg_servers g = []" and "tg_clients g = []"
  shows "fst (autoload env c a refs mx g) = refs"
    and "\<exists>s. map_of (tg_servers (snd (autoload env c a refs mx g))) key = Some s \<and>
      sc_loaded s = map (\<lambda>(j, r). (storage_key r, server_tool (te_generation env) (te_clock env j) r)) (enumerate 0 refs)"
proof -
  let ?g = "maybe_sweep env g" and ?new = "new_scope (te_now env) :: loaded_tool tool_scope"
  have sw: "tg_servers ?g = []" using assms(4) by (simp add: maybe_sweep_def Let_def)
  have cap: "shrink sc_last_active (scope_cap env) [(key, ?new)] = [(key, ?new)]"
    by (subst shrink.simps) (simp add: scope_cap_def)
  have cl: "cleanup_server (te_now env) (te_ttl env) (te_generation env) ?new = ?new"
    by (simp add: cleanup_server_def new_scope_def)
  let ?fill = "add_all (\<lambda>now. add_server (te_generation env) now (tool_bound env mx)) (te_clock env) 0 refs ?new"
  have out: "autoload env c a refs mx g = (fst ?fill,
      enforce_scope_cap env (?g\<lparr>tg_servers := [(key, ?new)]\<rparr>)\<lparr>tg_servers := [(key, snd ?fill)]\<rparr>)"
    by (simp add: autoload_def assms(1) sw cl case_prod_beta Let_def enforce_scope_cap_def cap put_back_def)
  have "fst ?fill = refs \<and> sc_loaded (snd ?fill) = sc_loaded ?new @
      map (\<lambda>(j, r). (storage_key r, server_tool (te_generation env) (te_clock env j) r)) (enumerate 0 refs)"
    by (rule servers.add_all_fresh) (use assms(2,3) in \<open>simp_all add: new_scope_def\<close>)
  then show "fst (autoload env c a refs mx g) = refs"
    and "\<exists>s. map_of (tg_servers (snd (autoload env c a refs mx g))) key = Some s \<and>
      sc_loaded s = map (\<lambda>(j, r). (storage_key r, server_tool (te_generation env) (te_clock env j) r)) (enumerate 0 refs)"
    by (simp_all add: out new_scope_def)
qed

lemma reloaded_references:
  "map to_reference (dict_values (map (\<lambda>(j, r). (storage_key r, server_tool generation (clock j) r)) (enumerate i refs))) =
   map (\<lambda>r. to_reference (server_tool generation 0 r)) refs"
  by (induction refs arbitrary: i) (auto simp: dict_values_def to_reference_def server_tool_def)

section \<open>The properties\<close>

text \<open>
  C14: whatever calls the registry serves, with bounds of at most \<open>m\<close> tools and \<open>n\<close> pools, it stays in
  order: no pool without a conversation, at most \<open>n\<close> pools of either kind, at most \<open>m\<close> tools in each,
  and every tool filed once, under the name the model calls it by.
\<close>

theorem tool_registry_in_order:
  assumes "list_all (call_within m n) calls"
  shows "registry_ok m n (tool_run calls (empty_registry start))"
  using registry_ok_run [OF assms registry_ok_empty] .

lemma client_key_of_eq: "client_key_of c a d s = Some (c', a', d', s') \<Longrightarrow>
  c = Some c' \<and> agent_or_default a = a' \<and> text_or_empty d = d' \<and> text_or_empty s = s'"
  by (cases c) (auto simp: client_key_of_def truthy_str_def split: if_splits)

lemma server_key_of_eq: "server_key_of c a = Some (c', a') \<Longrightarrow> c = Some c' \<and> agent_or_default a = a'"
  by (cases c) (auto simp: server_key_of_def truthy_str_def split: if_splits)

lemma text_or_empty_eq: "text_or_empty d = x \<Longrightarrow> x \<noteq> [] \<Longrightarrow> d = Some x"
  by (auto simp: text_or_empty_def split: option.splits)

text \<open>What a read returns lies in the pool it names.\<close>

lemma get_loaded_client_tools_in:
  assumes "registry_ok m n g" and "t \<in> set (fst (get_loaded_client_tools env (Some c) a (Some d) session u g))"
  shows "\<exists>s. d \<noteq> [] \<and> s \<noteq> [] \<and> reading_session env (Some d) session u = Some s \<and>
    ct_tool_name t \<in> names_in (tg_clients g) (c, agent_or_default a, d, s)"
proof -
  let ?r = "reading_session env (Some d) session u"
  have dr: "d \<noteq> []" "truthy_str ?r"
    using assms(2) by (auto simp: get_loaded_client_tools_def Let_def truthy_str_def split: if_splits)
  then obtain s where s: "?r = Some s" "s \<noteq> []" by (cases ?r) (auto simp: truthy_str_def)
  from assms(2) dr s obtain p where p: "map_of (tg_clients g) (c, agent_or_default a, d, s) = Some p"
      and t: "t \<in> snd ` set (sc_loaded (cleanup_client (te_now env) (te_ttl env) 0 p))"
    by (auto simp: get_loaded_client_tools_def client_key_of_def truthy_str_def
        text_or_empty_def Let_def dict_values_def split: option.splits if_splits)
  then obtain k where k: "(k, t) \<in> set (sc_loaded p)" by (auto simp: cleanup_client_def)
  have "pool_ok ct_tool_name m p"
    using assms(1) p by (auto simp: registry_ok_def intro: pool_in_table)
  with k have "ct_tool_name t = k" by (auto simp: pool_ok_def)
  with k p dr s show ?thesis by (force simp: names_in_def pool_names_def)
qed

lemma get_loaded_in:
  assumes "registry_ok m n g" and "r \<in> set (fst (get_loaded env (Some c) a g))"
  shows "the (tf_call_name r) \<in> names_in (tg_servers g) (c, agent_or_default a)"
proof -
  from assms(2) obtain p t where p: "map_of (tg_servers g) (c, agent_or_default a) = Some p"
      and t: "t \<in> snd ` set (sc_loaded (cleanup_server (te_now env) (te_ttl env) (te_generation env) p))"
      and r: "r = to_reference t"
    by (auto simp: get_loaded_def server_key_of_def truthy_str_def Let_def dict_values_def
        split: option.splits if_splits)
  then obtain k where k: "(k, t) \<in> set (sc_loaded p)" by (auto simp: cleanup_server_def)
  have "pool_ok lt_call_name m p"
    using assms(1) p by (auto simp: registry_ok_def intro: pool_in_table)
  with k have "lt_call_name t = k" by (auto simp: pool_ok_def)
  with k p r show ?thesis by (force simp: names_in_def pool_names_def to_reference_def)
qed

text \<open>
  C15: a client tool a turn is shown was loaded by a call for the same conversation, agent, device and
  session, and a server tool by one for the same conversation and agent: whatever calls other turns
  made in between, no load, eviction, sweep or restore makes a tool surface elsewhere.
\<close>

theorem tool_pools_isolated:
  assumes "list_all (call_within m n) calls"
  shows "(t \<in> set (fst (get_loaded_client_tools env (Some c) a (Some d) session u
          (tool_run calls (empty_registry start)))) \<longrightarrow>
      (\<exists>(env', x) \<in> set calls. \<exists>a' names.
         client_load env' x = (Some c, a', Some d, reading_session env (Some d) session u, names) \<and>
         agent_or_default a' = agent_or_default a \<and> ct_tool_name t \<in> names)) \<and>
    (r \<in> set (fst (get_loaded env (Some c) a (tool_run calls (empty_registry start)))) \<longrightarrow>
      (\<exists>(env', x) \<in> set calls. \<exists>a' names. server_load env' x = (Some c, a', names) \<and>
         agent_or_default a' = agent_or_default a \<and> the (tf_call_name r) \<in> names))"
proof (intro conjI impI)
  let ?g = "tool_run calls (empty_registry start)"
  have ok: "registry_ok m n ?g" by (rule registry_ok_run [OF assms registry_ok_empty])
  { assume t: "t \<in> set (fst (get_loaded_client_tools env (Some c) a (Some d) session u ?g))"
    from get_loaded_client_tools_in [OF ok t] obtain s where s: "d \<noteq> []" "s \<noteq> []"
        "reading_session env (Some d) session u = Some s"
        "ct_tool_name t \<in> names_in (tg_clients ?g) (c, agent_or_default a, d, s)" by blast
    from names_run_clients [OF assms registry_ok_empty s(4)] obtain env' x where x: "(env', x) \<in> set calls"
        "fst (client_target env' x) = Some (c, agent_or_default a, d, s)" "ct_tool_name t \<in> snd (client_target env' x)"
      by (auto simp: empty_registry_def names_in_def)
    obtain c' a' d' s' names where l: "client_load env' x = (c', a', d', s', names)" by (cases "client_load env' x") auto
    with x(2,3) have k: "client_key_of c' a' d' s' = Some (c, agent_or_default a, d, s)" "ct_tool_name t \<in> names"
      by (simp_all add: client_target_def)
    from client_key_of_eq [OF k(1)] text_or_empty_eq s(1,2)
    have "c' = Some c" "agent_or_default a' = agent_or_default a" "d' = Some d" "s' = Some s" by blast+
    with l x(1) k(2) s(3)
    show "\<exists>(env', x) \<in> set calls. \<exists>a' names.
        client_load env' x = (Some c, a', Some d, reading_session env (Some d) session u, names) \<and>
        agent_or_default a' = agent_or_default a \<and> ct_tool_name t \<in> names" by auto }
  { assume r: "r \<in> set (fst (get_loaded env (Some c) a ?g))"
    from names_run_servers [OF assms registry_ok_empty get_loaded_in [OF ok r]]
    obtain env' x where x: "(env', x) \<in> set calls"
        "fst (server_target env' x) = Some (c, agent_or_default a)" "the (tf_call_name r) \<in> snd (server_target env' x)"
      by (auto simp: empty_registry_def names_in_def)
    obtain c' a' names where l: "server_load env' x = (c', a', names)" by (cases "server_load env' x") auto
    with x(2,3) have k: "server_key_of c' a' = Some (c, agent_or_default a)" "the (tf_call_name r) \<in> names"
      by (simp_all add: server_target_def)
    from server_key_of_eq [OF k(1)] l x(1) k(2)
    show "\<exists>(env', x) \<in> set calls. \<exists>a' names. server_load env' x = (Some c, a', names) \<and>
        agent_or_default a' = agent_or_default a \<and> the (tf_call_name r) \<in> names" by auto }
qed

text \<open>
  A snapshot of a conversation's server tools, restored by the same runtime while the generation of
  the tools is the same, brings back all of them: the count is that of the tools and the restored pool
  holds the same references in the same order.
\<close>

theorem snapshot_restores_servers:
  assumes "server_key_of c a = Some key" and "map_of (tg_servers g) key = Some s"
    and "pool_ok lt_call_name m s" and "\<forall>(k, t) \<in> set (sc_loaded s). kept_by_snapshot env t"
    and "te_generation env' = te_generation env" and "te_runtime_id env' = te_runtime_id env"
    and "int (length (sc_loaded s)) \<le> te_max_tools env'"
    and "restore_tools env' c a (PDict (fst (snapshot_tools env c a None None user g))) None None user' (empty_registry start)
      = (counts, g')"
  shows "counts = Some (length (sc_loaded s), 0) \<and>
    (\<exists>s'. map_of (tg_servers g') key = Some s' \<and>
      map to_reference (dict_values (sc_loaded s')) = map to_reference (dict_values (sc_loaded s)))"
proof -
  let ?ts = "dict_values (sc_loaded s)" and ?d = "fst (snapshot_tools env c a None None user g)"
  let ?refs = "map to_reference ?ts"
  have kept: "\<And>k t. (k, t) \<in> set (sc_loaded s) \<Longrightarrow> kept_by_snapshot env t" using assms(4) by auto
  have "fst (snapshot_servers env c a g) = map server_entry ?ts"
    using assms(1,2) cleanup_server_kept [OF kept] by (simp add: snapshot_servers_def Let_def dict_values_def)
  then have d: "pget ?d ''runtime_id'' = PStr (te_runtime_id env')" "pget ?d ''server_tools'' = PList (map server_entry ?ts)"
    using assms(6) by (simp_all add: snapshot_tools_def Let_def case_prod_beta pget_def)
  have "server_refs True (te_generation env') (map server_entry ?ts) = Some ?refs"
    unfolding assms(5) using kept by (intro server_refs_entries) (auto simp: dict_values_def)
  then have "Option.bind (iterable (pget ?d ''server_tools''))
      (server_refs (pget ?d ''runtime_id'' = PStr (te_runtime_id env')) (te_generation env')) = Some ?refs"
    unfolding d by (cases ?ts) (simp_all add: iterable_def)
  then have out: "counts = Some (length (fst (autoload env' c a ?refs None (empty_registry start))), 0)"
    "g' = snd (autoload env' c a ?refs None (empty_registry start))"
    using assms(8) by (simp_all add: restore_tools_def Let_def case_prod_beta)
  have keys: "map storage_key ?refs = map fst (sc_loaded s)"
    using assms(3) kept
    by (force simp: pool_ok_def dict_values_def storage_key_def to_reference_def kept_by_snapshot_def plain_name_def)
  have "distinct (map storage_key ?refs)"
    unfolding keys using assms(3) by (simp add: pool_ok_def dict_wf_def)
  moreover have "int (length ?refs) \<le> tool_bound env' None"
    using assms(7) by (simp add: tool_bound_def dict_values_def)
  ultimately obtain s' where s': "fst (autoload env' c a ?refs None (empty_registry start)) = ?refs"
      "map_of (tg_servers g') key = Some s'"
      "sc_loaded s' = map (\<lambda>(j, r). (storage_key r, server_tool (te_generation env') (te_clock env' j) r)) (enumerate 0 ?refs)"
    using autoload_fresh [OF assms(1), of ?refs env' None "empty_registry start"] out
    by (auto simp: empty_registry_def)
  have "map to_reference (dict_values (sc_loaded s')) =
      map (\<lambda>r. to_reference (server_tool (te_generation env') 0 r)) ?refs"
    unfolding s'(3) by (rule reloaded_references)
  also have "\<dots> = ?refs"
    using kept by (auto simp: to_reference_def server_tool_def storage_key_def dict_values_def kept_by_snapshot_def plain_name_def)
  finally have "map to_reference (dict_values (sc_loaded s')) = ?refs" .
  moreover have "counts = Some (length (sc_loaded s), 0)"
    unfolding out(1) s'(1) by (simp add: dict_values_def)
  ultimately show ?thesis using s'(2) by blast
qed

text \<open>
  What \<^verbatim>\<open>autoload\<close> reports is every reference it accepted, not what its pool still holds: with room for one
  tool, two references are both reported as loaded and the first is gone again.
\<close>

lemma autoload_reports_evicted:
  assumes "server_key_of c a = Some key" and "map_of (tg_servers (maybe_sweep env g)) key = None"
    and "tool_bound env mx = 1" and "storage_key r1 \<noteq> storage_key r2"
    and "map_of (tg_servers (snd (autoload env c a [r1, r2] mx g))) key = Some s"
  shows "fst (autoload env c a [r1, r2] mx g) = [r1, r2] \<and> dict_keys (sc_loaded s) = [storage_key r2]"
proof -
  let ?new = "new_scope (te_now env) :: loaded_tool tool_scope"
  have cl: "cleanup_server (te_now env) (te_ttl env) (te_generation env) ?new = ?new"
    by (simp add: cleanup_server_def new_scope_def)
  have room: "make_room lt_last_used 1 [(k, t)] = (True, [])" for k and t :: loaded_tool
    by (subst make_room.simps, subst make_room.simps) (simp add: evict_least_def least_key_def)
  let ?t = "server_tool (te_generation env)"
  let ?s1 = "\<lparr>sc_last_active = te_clock env 0, sc_loaded = [(storage_key r1, ?t (te_clock env 0) r1)]\<rparr>"
  let ?s2 = "\<lparr>sc_last_active = te_clock env 1, sc_loaded = [(storage_key r2, ?t (te_clock env 1) r2)]\<rparr>"
  have "add_server (te_generation env) (te_clock env 0) 1 r1 ?new = (True, ?s1)"
    using servers.add_fresh [of r1 ?new 1] by (simp add: new_scope_def)
  moreover have "add_server (te_generation env) (te_clock env 1) 1 r2 ?s1 = (True, ?s2)"
    using assms(4) by (simp add: add_server_def touch_scope_def Let_def room)
  ultimately have fill: "add_all (\<lambda>now. add_server (te_generation env) now (tool_bound env mx)) (te_clock env) 0
      [r1, r2] ?new = ([r1, r2], ?s2)"
    by (simp add: assms(3))
  show ?thesis
    using assms(5) unfolding autoload_def assms(1) option.case assms(2) Let_def prod.case cl fill
    by (auto simp: put_back_def dict_keys_def update_conv' split: if_splits)
qed

definition sample_env :: tool_env where
  "sample_env =
     \<lparr>te_now = 0, te_clock = (\<lambda>_. 0), te_ttl = 30, te_max_tools = 2, te_max_scopes = 2, te_generation = 1,
      te_session = (\<lambda>_ _. Some ''s''), te_catalog = (\<lambda>_ _. 0), te_runtime_id = ''r''\<rparr>"

definition sample_calls :: "(tool_env \<times> tool_op) list" where
  "sample_calls =
     [(sample_env, LoadTools (Some ''c'') None
        [\<lparr>tf_tool_name = ''t'', tf_server_name = ''v'', tf_call_name = None\<rparr>] None),
      (sample_env, LoadClientTools (Some ''c'') None
        [\<lparr>cf_tool_name = ''k'', cf_server_name = ''v'', cf_device_id = None, cf_session_id = None,
          cf_catalog_version = None, cf_tool_instance_id = []\<rparr>] (Some ''d'') None None None)]"

lemma sample_calls_within: "list_all (call_within 2 2) sample_calls"
  by (simp add: sample_calls_def call_within_def env_within_def tool_bound_def scope_cap_def sample_env_def)

theorem tool_registry_in_order_witness:
  "registry_ok 2 2 (tool_run sample_calls (empty_registry 0))"
  by (rule tool_registry_in_order [OF sample_calls_within])

definition sample_tool :: client_tool where
  "sample_tool = \<lparr>ct_tool_name = ''k'', ct_server_name = ''v'', ct_device_id = ''d'', ct_catalog_version = 0,
     ct_tool_instance_id = [], ct_last_used = 0\<rparr>"

theorem tool_pools_isolated_witness:
  "sample_tool \<in> set (fst (get_loaded_client_tools sample_env (Some ''c'') None (Some ''d'') (Some ''s'') None
      (tool_run sample_calls (empty_registry 0)))) \<and>
   (\<exists>(env', x) \<in> set sample_calls. \<exists>a' names. client_load env' x = (Some ''c'', a', Some ''d'', reading_session sample_env (Some ''d'') (Some ''s'') None, names) \<and>
      agent_or_default a' = agent_or_default None \<and> ct_tool_name sample_tool \<in> names)"
proof -
  have "sample_tool \<in> set (fst (get_loaded_client_tools sample_env (Some ''c'') None (Some ''d'') (Some ''s'') None
      (tool_run sample_calls (empty_registry 0))))"
    by code_simp
  then show ?thesis
    using tool_pools_isolated [OF sample_calls_within, of sample_tool sample_env "''c''" None "''d''" "Some ''s''" None 0] by blast
qed

definition sample_pool :: "loaded_tool tool_scope" where
  "sample_pool = \<lparr>sc_last_active = 0, sc_loaded =
     [(''t'', \<lparr>lt_tool_name = ''t'', lt_server_name = ''v'', lt_call_name = ''t'', lt_generation = 1, lt_last_used = 0\<rparr>)]\<rparr>"

theorem snapshot_restores_servers_witness:
  "fst (restore_tools sample_env (Some ''c'') None
      (PDict (fst (snapshot_tools sample_env (Some ''c'') None None None None
        ((empty_registry 0)\<lparr>tg_servers := [((''c'', ''default''), sample_pool)]\<rparr>))))
      None None None (empty_registry 0)) = Some (1, 0)"
proof -
  let ?g = "(empty_registry 0)\<lparr>tg_servers := [((''c'', ''default''), sample_pool)]\<rparr>"
  obtain counts g' where r: "restore_tools sample_env (Some ''c'') None
      (PDict (fst (snapshot_tools sample_env (Some ''c'') None None None None ?g))) None None None (empty_registry 0)
      = (counts, g')" by fastforce
  have "counts = Some (length (sc_loaded sample_pool), 0)"
    using snapshot_restores_servers [OF _ _ _ _ _ _ _ r, of "(''c'', ''default'')" sample_pool 2]
    by (simp add: server_key_of_def truthy_str_def agent_or_default_def sample_pool_def pool_ok_def
        kept_by_snapshot_def plain_name_def is_idle_def sample_env_def py_strip_def py_space_def dict_wf_def)
  with r show ?thesis by (simp add: sample_pool_def)
qed

end
