(* ===== verification/WorkflowRouting.thy ===== *)
theory WorkflowRouting
  imports WorkflowContracts "HOL-Library.Product_Lexorder"
begin

text \<open>
  Who may execute: \<^verbatim>\<open>app/ai/workflow/inventory.py\<close> (the routable agents of one request),
  \<^verbatim>\<open>resolve_node_for_agent_id\<close> of \<^verbatim>\<open>specialists.py\<close>, and \<^verbatim>\<open>transitions.py\<close>, the sole resolver
  of handoffs. The SHA-256 of the inventory's version is an argument. A custom agent's entry keeps the
  fields the inventory reads; \<open>None\<close> in the attachment map is an entry that is not a mapping.
\<close>

section \<open>The inventory\<close>

definition CUSTOM_AGENT_PREFIX :: string where
  "CUSTOM_AGENT_PREFIX = ''custom_agent:''"

definition CUSTOM_AGENT_NODE :: string where
  "CUSTOM_AGENT_NODE = ''custom_agent''"

definition BASE_AGENT_NODE_OVERRIDES :: "(string \<times> string) list" where
  "BASE_AGENT_NODE_OVERRIDES = [(''planning_agent'', ''planning_model'')]"

datatype agent_kind = Base | Custom

fun kind_value :: "agent_kind \<Rightarrow> string" where
  "kind_value Base = ''base''"
| "kind_value Custom = ''custom''"

record agent_descriptor =
  ad_agent_id :: string
  ad_display_name :: string
  ad_capability :: string
  ad_enabled :: bool
  ad_attached :: bool
  ad_kind :: agent_kind

definition descriptor_valid :: "agent_descriptor \<Rightarrow> bool" where
  "descriptor_valid d \<longleftrightarrow>
     1 \<le> length (ad_agent_id d) \<and> length (ad_agent_id d) \<le> 160 \<and>
     1 \<le> length (ad_display_name d) \<and> length (ad_display_name d) \<le> 200 \<and>
     length (ad_capability d) \<le> 2000"

fun join_with :: "string \<Rightarrow> string list \<Rightarrow> string" where
  "join_with sep [] = []"
| "join_with sep [x] = x"
| "join_with sep (x # y # ys) = x @ sep @ join_with sep (y # ys)"

definition canonical_payload :: "agent_descriptor list \<Rightarrow> string" where
  "canonical_payload ds =
     join_with [CHR 0x1E]
       (map (\<lambda>d. join_with [CHR 0x1F]
          [ad_agent_id d, kind_value (ad_kind d), ad_display_name d, ad_capability d,
           if ad_enabled d then ''1'' else ''0'', if ad_attached d then ''1'' else ''0''])
        (sort_key ad_agent_id ds))"

definition inventory_version :: "(string \<Rightarrow> string) \<Rightarrow> agent_descriptor list \<Rightarrow> string" where
  "inventory_version sha256 ds = sha256 (canonical_payload ds)"

record routing_inventory =
  ri_version :: string
  ri_agents :: "agent_descriptor list"

definition from_descriptors ::
  "(string \<Rightarrow> string) \<Rightarrow> agent_descriptor list \<Rightarrow> string + routing_inventory" where
  "from_descriptors sha256 ds =
     (let ordered = sort_key ad_agent_id ds
      in if \<not> distinct (map ad_agent_id ordered) then Inl ''duplicate agent_id in inventory''
         else Inr \<lparr>ri_version = inventory_version sha256 ordered, ri_agents = ordered\<rparr>)"

definition inventory_get :: "routing_inventory \<Rightarrow> string option \<Rightarrow> agent_descriptor option" where
  "inventory_get ri agent_id =
     (if \<not> truthy_str agent_id then None
      else find (\<lambda>d. ad_agent_id d = the agent_id) (ri_agents ri))"

definition is_routable :: "routing_inventory \<Rightarrow> string option \<Rightarrow> bool" where
  "is_routable ri agent_id =
     (case inventory_get ri agent_id of None \<Rightarrow> False | Some d \<Rightarrow> ad_enabled d \<and> ad_attached d)"

definition override_node :: "string \<Rightarrow> string" where
  "override_node agent_id =
     (case map_of BASE_AGENT_NODE_OVERRIDES agent_id of Some n \<Rightarrow> n | None \<Rightarrow> agent_id)"

text \<open>\<open>None\<close> is the \<^verbatim>\<open>KeyError\<close> of an unknown id.\<close>

definition resolve_node :: "routing_inventory \<Rightarrow> string \<Rightarrow> string option" where
  "resolve_node ri agent_id =
     (case inventory_get ri (Some agent_id) of
        None \<Rightarrow> None
      | Some d \<Rightarrow> if ad_kind d = Custom then Some CUSTOM_AGENT_NODE
                  else Some (override_node (ad_agent_id d)))"

definition resolve_node_for_agent_id :: "string option \<Rightarrow> string option" where
  "resolve_node_for_agent_id agent_id =
     (if \<not> truthy_str agent_id then None
      else if prefix CUSTOM_AGENT_PREFIX (the agent_id) then Some CUSTOM_AGENT_NODE
      else Some (override_node (the agent_id)))"

definition BASE_AGENT_DISPLAY_NAMES :: "(string \<times> string) list" where
  "BASE_AGENT_DISPLAY_NAMES =
     [(''chat_agent'', ''Chat Agent''), (''rag_agent'', ''RAG Agent''),
      (''search_agent'', ''Search Agent''), (''image_generator_agent'', ''Image Generator Agent''),
      (''planning_agent'', ''Planning Agent''), (''canvas_agent'', ''Canvas Agent'')]"

definition BASE_AGENT_CAPABILITIES :: "(string \<times> string) list" where
  "BASE_AGENT_CAPABILITIES =
     [(''chat_agent'',
       ''General conversation, explanations, advice, Q&A, coding help, and '' @
       ''tool-backed work in external integrations, accounts, and apps.''),
      (''rag_agent'',
       ''Questions about uploaded documents: document analysis and summaries of uploaded content.''),
      (''search_agent'',
       ''Current events, news, recent and time-sensitive information, web search, '' @
       ''and fact-checking.''),
      (''image_generator_agent'',
       ''Creating raster/pixel images, drawings, and illustrations (non-code visual generation).''),
      (''planning_agent'', ''Creating, editing, viewing, or executing multi-step task plans.''),
      (''canvas_agent'',
       ''Authoring standalone browser artifacts: websites, web apps, interactive '' @
       ''components, games, visualizations, SVG, and HTML/CSS/JS.'')]"

text \<open>\<^verbatim>\<open>agent_id.replace("_", " ").title()\<close>: a letter after a letter is lower case, another upper.\<close>

definition is_letter :: "char \<Rightarrow> bool" where
  "is_letter c = (let n = (of_char (lower_char c) :: nat) in 97 \<le> n \<and> n \<le> 122)"

fun title_from :: "bool \<Rightarrow> string \<Rightarrow> string" where
  "title_from after_letter [] = []"
| "title_from after_letter (c # s) =
     (if after_letter then lower_char c else upper_char c) # title_from (is_letter c) s"

definition fallback_name :: "string \<Rightarrow> string" where
  "fallback_name agent_id =
     title_from False (map (\<lambda>c. if c = CHR ''_'' then CHR '' '' else c) agent_id)"

definition base_descriptor :: "string \<Rightarrow> bool \<Rightarrow> agent_descriptor" where
  "base_descriptor agent_id enabled =
     \<lparr>ad_agent_id = agent_id,
      ad_display_name = (case map_of BASE_AGENT_DISPLAY_NAMES agent_id of Some n \<Rightarrow> n
                         | None \<Rightarrow> fallback_name agent_id),
      ad_capability = (case map_of BASE_AGENT_CAPABILITIES agent_id of Some t \<Rightarrow> t | None \<Rightarrow> []),
      ad_enabled = enabled, ad_attached = True, ad_kind = Base\<rparr>"

record custom_entry =
  ce_runtime_agent_id :: "string option"
  ce_name :: "string option"
  ce_description :: "string option"
  ce_enabled :: bool
  ce_agent_order :: int

definition custom_descriptor :: "string \<Rightarrow> custom_entry \<Rightarrow> agent_descriptor" where
  "custom_descriptor runtime_agent_id entry =
     (let name = (if truthy_str (ce_name entry) then the (ce_name entry) else runtime_agent_id);
          description = (case ce_description entry of None \<Rightarrow> [] | Some t \<Rightarrow> t)
      in \<lparr>ad_agent_id = runtime_agent_id,
          ad_display_name = (if take 200 name = [] then runtime_agent_id else take 200 name),
          ad_capability = take 2000 description,
          ad_enabled = ce_enabled entry, ad_attached = True, ad_kind = Custom\<rparr>)"

definition custom_entries ::
  "(string \<times> custom_entry option) list \<Rightarrow> string set option \<Rightarrow> (string \<times> custom_entry) list" where
  "custom_entries custom_agents attached =
     List.map_filter
       (\<lambda>(runtime_id, entry). case entry of
          None \<Rightarrow> None
        | Some e \<Rightarrow>
            (let resolved_id = (if truthy_str (ce_runtime_agent_id e)
                                then the (ce_runtime_agent_id e) else runtime_id)
             in if \<not> prefix CUSTOM_AGENT_PREFIX resolved_id then None
                else if (case attached of None \<Rightarrow> False | Some ids \<Rightarrow> resolved_id \<notin> ids) then None
                else Some (resolved_id, e)))
       custom_agents"

definition build_routing_inventory ::
  "(string \<Rightarrow> string) \<Rightarrow> string list \<Rightarrow> (string \<times> custom_entry option) list \<Rightarrow> string set option
     \<Rightarrow> string set \<Rightarrow> int option \<Rightarrow> string + routing_inventory" where
  "build_routing_inventory sha256 base_agent_ids custom_agents attached disabled max_custom =
     (let base = map (\<lambda>i. base_descriptor i (i \<notin> disabled))
                   (filter (\<lambda>i. i \<noteq> [] \<and> \<not> prefix CUSTOM_AGENT_PREFIX i) base_agent_ids);
          sorted_entries = sort_key (\<lambda>(i, e). (ce_agent_order e, i)) (custom_entries custom_agents attached);
          entries = (case max_custom of
                       Some m \<Rightarrow> if m \<ge> 0 then take (nat m) sorted_entries else sorted_entries
                     | None \<Rightarrow> sorted_entries);
          descriptors = base @ map (\<lambda>(i, e). custom_descriptor i e) entries
      in if list_all descriptor_valid descriptors then from_descriptors sha256 descriptors
         else Inl ''invalid agent descriptor'')"

section \<open>Transitions\<close>

definition HAND_OFF_TOOL_NAME :: string where
  "HAND_OFF_TOOL_NAME = ''hand_off''"

record feedback_message =
  fm_id :: string
  fm_content :: string
  fm_name :: string
  fm_tool_call_id :: string
  fm_status :: string

text \<open>
  The part of the graph state the resolver reads, and the command it returns: the next node and the
  update of each channel (an absent one is not updated).
\<close>

record transition_state =
  ts_active_agent_id :: "string option"
  ts_agent_history :: "agent_transition list"
  ts_pending :: "pending_transition option"
  ts_request_id :: string

record transition_command =
  tc_goto :: string
  tc_active_agent_id :: "string option"
  tc_agent_history :: "agent_transition channel"
  tc_messages :: "feedback_message list"
  tc_clear_pending :: bool
  tc_execution_phase :: string
  tc_workflow_error :: "workflow_error option"

record transition_rejection =
  tr_reason :: string
  tr_message :: string

definition quoted :: "string \<Rightarrow> string" where
  "quoted s = [CHR 0x27] @ s @ [CHR 0x27]"

definition accepted_handoffs :: "agent_transition list \<Rightarrow> nat" where
  "accepted_handoffs history = length (filter (\<lambda>t. at_source t = FromHandoff) history)"

definition validate_transition ::
  "nat \<Rightarrow> pending_transition \<Rightarrow> transition_state \<Rightarrow> routing_inventory \<Rightarrow> transition_rejection option" where
  "validate_transition max_depth p st ri =
     (if py_strip (pt_tool_call_id p) = []
      then Some \<lparr>tr_reason = ''bad_call_id'',
                 tr_message = ''the originating tool call could not be identified.''\<rparr>
      else if \<not> truthy_str (ts_active_agent_id st)
      then Some \<lparr>tr_reason = ''no_active_agent'', tr_message = ''the active agent is unavailable.''\<rparr>
      else if pt_from_agent_id p \<noteq> the (ts_active_agent_id st)
      then Some \<lparr>tr_reason = ''source_mismatch'',
                 tr_message = quoted (pt_from_agent_id p) @ '' is not the agent currently executing.''\<rparr>
      else if pt_to_agent_id p = the (ts_active_agent_id st)
      then Some \<lparr>tr_reason = ''self_target'',
                 tr_message = quoted (pt_to_agent_id p) @ '' is already the active agent.''\<rparr>
      else if \<not> is_routable ri (Some (pt_to_agent_id p))
      then Some \<lparr>tr_reason = ''unreachable_target'',
                 tr_message = quoted (pt_to_agent_id p) @ '' is not a reachable target for '' @
                   the (ts_active_agent_id st) @ ''.''\<rparr>
      else if pt_to_agent_id p \<in> set (map at_to_agent_id (ts_agent_history st))
      then Some \<lparr>tr_reason = ''revisited_target'',
                 tr_message = quoted (pt_to_agent_id p) @ '' has already handled this turn.''\<rparr>
      else if accepted_handoffs (ts_agent_history st) \<ge> max_depth
      then Some \<lparr>tr_reason = ''over_depth'',
                 tr_message = ''this turn reached the maximum delegation depth of '' @
                   nat_text max_depth @ ''.''\<rparr>
      else None)"

definition source_node :: "string option \<Rightarrow> string \<Rightarrow> string" where
  "source_node active from_id =
     (let candidate = (case active of Some a \<Rightarrow> a | None \<Rightarrow> from_id)
      in case resolve_node_for_agent_id (Some candidate) of Some n \<Rightarrow> n | None \<Rightarrow> ''finalize'')"

definition reject_transition ::
  "pending_transition \<Rightarrow> string option \<Rightarrow> transition_rejection \<Rightarrow> transition_command" where
  "reject_transition p active rejection =
     \<lparr>tc_goto = source_node active (pt_from_agent_id p), tc_active_agent_id = None,
      tc_agent_history = Absent,
      tc_messages = [\<lparr>fm_id = pt_tool_message_id p,
                      fm_content = ''Hand-off refused: '' @ tr_message rejection,
                      fm_name = HAND_OFF_TOOL_NAME, fm_tool_call_id = pt_tool_call_id p,
                      fm_status = ''error''\<rparr>],
      tc_clear_pending = True, tc_execution_phase = ''executing'', tc_workflow_error = None\<rparr>"

text \<open>
  The resolver. \<open>live\<close> is the inventory of the turn's context when it has one; \<open>None\<close> is the
  \<^verbatim>\<open>KeyError\<close> of a target without a node.
\<close>

definition resolve_transition ::
  "int \<Rightarrow> routing_inventory \<Rightarrow> routing_inventory option \<Rightarrow> transition_state \<Rightarrow> transition_command option" where
  "resolve_transition max_delegation_depth compiled live st =
     (let ri = (case live of Some i \<Rightarrow> i | None \<Rightarrow> compiled)
      in case ts_pending st of
        None \<Rightarrow> Some
          \<lparr>tc_goto = ''finalize'', tc_active_agent_id = None, tc_agent_history = Absent,
           tc_messages = [], tc_clear_pending = False, tc_execution_phase = ''failed'',
           tc_workflow_error = Some
             \<lparr>we_code = ResponseValidationFailed, we_retriable = False,
              we_request_id = (if ts_request_id st = [] then ''unknown'' else ts_request_id st),
              we_details = [(''reason'', PStr ''missing_pending_transition'')]\<rparr>\<rparr>
      | Some p \<Rightarrow>
          (case validate_transition (nat (max 0 max_delegation_depth)) p st ri of
             Some rejection \<Rightarrow> Some (reject_transition p (ts_active_agent_id st) rejection)
           | None \<Rightarrow>
               (case resolve_node ri (pt_to_agent_id p) of
                  None \<Rightarrow> None
                | Some node \<Rightarrow> Some
                    \<lparr>tc_goto = node, tc_active_agent_id = Some (pt_to_agent_id p),
                     tc_agent_history = Many
                       [\<lparr>at_from_agent_id = Some (pt_from_agent_id p),
                         at_to_agent_id = pt_to_agent_id p, at_source = FromHandoff,
                         at_tool_call_id = Some (pt_tool_call_id p)\<rparr>],
                     tc_messages = [], tc_clear_pending = True,
                     tc_execution_phase = ''executing'', tc_workflow_error = None\<rparr>)))"

text \<open>The graph applies a command with the reducers of the state.\<close>

definition apply_transition :: "transition_command \<Rightarrow> transition_state \<Rightarrow> transition_state" where
  "apply_transition c st =
     st\<lparr>ts_active_agent_id := (case tc_active_agent_id c of Some a \<Rightarrow> Some a | None \<Rightarrow> ts_active_agent_id st),
        ts_agent_history := append_transitions (Many (ts_agent_history st)) (tc_agent_history c),
        ts_pending := (if tc_clear_pending c then None else ts_pending st)\<rparr>"

section \<open>Properties of the inventory\<close>

lemma inventory_get_Some:
  "inventory_get ri (Some agent_id) = Some d \<Longrightarrow> d \<in> set (ri_agents ri) \<and> ad_agent_id d = agent_id \<and> agent_id \<noteq> []"
  by (auto simp: inventory_get_def split: if_splits dest: find_SomeD)

lemma custom_entries_sound:
  "(i, e) \<in> set (custom_entries custom_agents attached) \<Longrightarrow>
   prefix CUSTOM_AGENT_PREFIX i \<and> (\<forall>ids. attached = Some ids \<longrightarrow> i \<in> ids)"
  by (auto simp: custom_entries_def map_filter_def Let_def split: option.splits if_splits)

text \<open>The agents of a built inventory: sorted, distinct, and of two kinds told apart by their id.\<close>

lemma built_inventory:
  assumes "build_routing_inventory sha256 base customs attached disabled max_custom = Inr ri"
  shows "sorted (map ad_agent_id (ri_agents ri))" and "distinct (map ad_agent_id (ri_agents ri))"
    and "d \<in> set (ri_agents ri) \<Longrightarrow>
      (ad_kind d = Base \<and> ad_agent_id d \<in> set base \<and> \<not> prefix CUSTOM_AGENT_PREFIX (ad_agent_id d) \<and>
         (ad_enabled d \<longleftrightarrow> ad_agent_id d \<notin> disabled)) \<or>
      (ad_kind d = Custom \<and> prefix CUSTOM_AGENT_PREFIX (ad_agent_id d) \<and>
         (\<forall>ids. attached = Some ids \<longrightarrow> ad_agent_id d \<in> ids))"
    and "length (filter (\<lambda>d. ad_kind d = Custom) (ri_agents ri)) \<le>
      (case max_custom of Some m \<Rightarrow> if m \<ge> 0 then nat m else length customs | None \<Rightarrow> length customs)"
proof -
  let ?base = "map (\<lambda>i. base_descriptor i (i \<notin> disabled))
    (filter (\<lambda>i. i \<noteq> [] \<and> \<not> prefix CUSTOM_AGENT_PREFIX i) base)"
  let ?sorted = "sort_key (\<lambda>(i, e). (ce_agent_order e, i)) (custom_entries customs attached)"
  let ?entries = "case max_custom of Some m \<Rightarrow> if m \<ge> 0 then take (nat m) ?sorted else ?sorted
    | None \<Rightarrow> ?sorted"
  let ?ds = "?base @ map (\<lambda>(i, e). custom_descriptor i e) ?entries"
  from assms have ri: "ri_agents ri = sort_key ad_agent_id ?ds"
    and d: "distinct (map ad_agent_id (sort_key ad_agent_id ?ds))"
    by (auto simp: build_routing_inventory_def from_descriptors_def Let_def split: if_splits)
  show "sorted (map ad_agent_id (ri_agents ri))" by (simp add: ri)
  show "distinct (map ad_agent_id (ri_agents ri))" using d by (simp add: ri)
  have sub: "set ?entries \<subseteq> set (custom_entries customs attached)"
    by (auto split: option.split dest: in_set_takeD)
  show "(ad_kind d = Base \<and> ad_agent_id d \<in> set base \<and> \<not> prefix CUSTOM_AGENT_PREFIX (ad_agent_id d) \<and>
         (ad_enabled d \<longleftrightarrow> ad_agent_id d \<notin> disabled)) \<or>
      (ad_kind d = Custom \<and> prefix CUSTOM_AGENT_PREFIX (ad_agent_id d) \<and>
         (\<forall>ids. attached = Some ids \<longrightarrow> ad_agent_id d \<in> ids))" if "d \<in> set (ri_agents ri)"
  proof -
    from that have "d \<in> set ?base \<or> d \<in> (\<lambda>(i, e). custom_descriptor i e) ` set ?entries"
      by (simp only: ri set_sort set_append set_map Un_iff)
    then consider i where "i \<in> set base" "\<not> prefix CUSTOM_AGENT_PREFIX i" "d = base_descriptor i (i \<notin> disabled)"
      | i e where "(i, e) \<in> set ?entries" "d = custom_descriptor i e"
      by auto
    then show ?thesis
    proof cases
      case 1
      then show ?thesis by (simp add: base_descriptor_def)
    next
      case 2
      from 2(1) sub have "(i, e) \<in> set (custom_entries customs attached)" by blast
      from custom_entries_sound [OF this] 2(2) show ?thesis by (simp add: custom_descriptor_def Let_def)
    qed
  qed
  have "length (filter (\<lambda>d. ad_kind d = Custom) (sort_key ad_agent_id ?ds)) =
      length (filter (\<lambda>d. ad_kind d = Custom) ?ds)"
    by (simp only: filter_sort length_sort)
  also have "\<dots> \<le> length ?entries"
  proof -
    have "filter (\<lambda>d. ad_kind d = Custom) ?base = []"
      by (auto simp: filter_empty_conv base_descriptor_def)
    then have "filter (\<lambda>d. ad_kind d = Custom) ?ds =
        filter (\<lambda>d. ad_kind d = Custom) (map (\<lambda>(i, e). custom_descriptor i e) ?entries)"
      by (simp only: filter_append append_Nil)
    then show ?thesis
      using length_filter_le [of "\<lambda>d. ad_kind d = Custom" "map (\<lambda>(i, e). custom_descriptor i e) ?entries"]
      by (simp only: length_map)
  qed
  also have "\<dots> \<le> (case max_custom of Some m \<Rightarrow> if m \<ge> 0 then nat m else length customs
      | None \<Rightarrow> length customs)"
    by (auto simp: custom_entries_def map_filter_def split: option.split)
  finally show "length (filter (\<lambda>d. ad_kind d = Custom) (ri_agents ri)) \<le>
      (case max_custom of Some m \<Rightarrow> if m \<ge> 0 then nat m else length customs | None \<Rightarrow> length customs)"
    by (simp add: ri)
qed

text \<open>
  C11: the two resolvers of graph nodes agree on every agent of a built inventory, so a handoff, a
  resume and a continuation land on the same node; and an agent is routable only if it is an enabled
  base agent of the registry or an enabled custom agent that is attached.
\<close>

theorem routing_nodes_agree:
  assumes "build_routing_inventory sha256 base customs attached disabled max_custom = Inr ri"
    and "is_routable ri (Some i)"
  shows "resolve_node ri i = resolve_node_for_agent_id (Some i) \<and> resolve_node ri i \<noteq> None \<and>
    ((i \<in> set base \<and> i \<notin> disabled) \<or>
     (prefix CUSTOM_AGENT_PREFIX i \<and> (\<forall>ids. attached = Some ids \<longrightarrow> i \<in> ids)))"
proof -
  obtain d where d: "inventory_get ri (Some i) = Some d" and "ad_enabled d"
    using assms(2) by (auto simp: is_routable_def split: option.splits)
  with inventory_get_Some [OF d] built_inventory(3) [OF assms(1), of d] show ?thesis
    by (auto simp: resolve_node_def resolve_node_for_agent_id_def)
qed

definition demo_inventory :: "string + routing_inventory" where
  "demo_inventory = build_routing_inventory (\<lambda>s. ''v1'') [''planning_agent'', ''chat_agent'', ''rag_agent'']
     [(''custom_agent:a'', Some \<lparr>ce_runtime_agent_id = None, ce_name = Some ''Ana'', ce_description = None,
        ce_enabled = True, ce_agent_order = 0\<rparr>)] None {''rag_agent''} (Some 5)"

definition demo_ri :: routing_inventory where
  "demo_ri = (case demo_inventory of Inr ri \<Rightarrow> ri | Inl e \<Rightarrow> \<lparr>ri_version = [], ri_agents = []\<rparr>)"

lemma demo_inventory_built: "demo_inventory = Inr demo_ri"
  by code_simp

theorem routing_nodes_agree_witness:
  "resolve_node demo_ri ''planning_agent'' = resolve_node_for_agent_id (Some ''planning_agent'') \<and>
   \<not> is_routable demo_ri (Some ''rag_agent'')"
proof -
  have "is_routable demo_ri (Some ''planning_agent'')" "\<not> is_routable demo_ri (Some ''rag_agent'')"
    by code_simp+
  then show ?thesis
    using routing_nodes_agree [OF demo_inventory_built [unfolded demo_inventory_def]] by blast
qed

section \<open>Properties of handoffs\<close>

text \<open>A turn's attempts: each proposes a transition and may bring the inventory of its request.\<close>

fun attempts ::
  "int \<Rightarrow> routing_inventory \<Rightarrow> (pending_transition \<times> routing_inventory option) list \<Rightarrow> transition_state
     \<Rightarrow> transition_state option" where
  "attempts depth compiled [] st = Some st"
| "attempts depth compiled ((p, live) # ps) st =
     (let st1 = st\<lparr>ts_pending := Some p\<rparr>
      in case resolve_transition depth compiled live st1 of
           None \<Rightarrow> None
         | Some c \<Rightarrow> attempts depth compiled ps (apply_transition c st1))"

text \<open>
  The audit trail of a turn: every agent in it once, the executing agent the last of it, at most
  \<open>n\<close> handoffs, each from the agent that executed before it.
\<close>

fun chained :: "agent_transition list \<Rightarrow> bool" where
  "chained [] = True"
| "chained [t] = True"
| "chained (t # u # ts) =
     ((at_source u = FromHandoff \<longrightarrow> at_from_agent_id u = Some (at_to_agent_id t)) \<and> chained (u # ts))"

definition trail_ok :: "nat \<Rightarrow> transition_state \<Rightarrow> bool" where
  "trail_ok n st \<longleftrightarrow>
     ts_agent_history st \<noteq> [] \<and>
     ts_active_agent_id st = Some (at_to_agent_id (last (ts_agent_history st))) \<and>
     distinct (map at_to_agent_id (ts_agent_history st)) \<and>
     accepted_handoffs (ts_agent_history st) \<le> n \<and> chained (ts_agent_history st)"

lemma chained_snoc:
  "ts \<noteq> [] \<Longrightarrow> chained (ts @ [u]) \<longleftrightarrow>
     chained ts \<and> (at_source u = FromHandoff \<longrightarrow> at_from_agent_id u = Some (at_to_agent_id (last ts)))"
  by (induction ts rule: chained.induct) auto

lemma routable_resolves: "is_routable ri (Some i) \<Longrightarrow> resolve_node ri i \<noteq> None"
  by (auto simp: is_routable_def resolve_node_def split: option.splits)

lemma validate_transition_None:
  assumes "validate_transition n p st ri = None"
  shows "ts_active_agent_id st = Some (pt_from_agent_id p)" and "is_routable ri (Some (pt_to_agent_id p))"
    and "pt_to_agent_id p \<notin> set (map at_to_agent_id (ts_agent_history st))"
    and "accepted_handoffs (ts_agent_history st) < n"
  using assms by (auto simp: validate_transition_def truthy_str_def split: if_splits option.splits)

text \<open>
  C10: the handoffs of one turn form a bounded, acyclic chain. From a well-formed trail, any sequence
  of requested handoffs, whatever the model asks and whatever inventories the requests bring, is
  resolved without an error and leaves a trail in which no agent was entered twice, every handoff
  left the agent that was executing, and at most the maximum delegation depth was accepted.
\<close>

theorem handoff_chain_bounded:
  assumes "trail_ok (nat (max 0 depth)) st"
  shows "\<exists>st'. attempts depth compiled ps st = Some st' \<and> trail_ok (nat (max 0 depth)) st' \<and>
    (\<exists>ts. ts_agent_history st' = ts_agent_history st @ ts)"
  using assms
proof (induction ps arbitrary: st)
  case Nil
  then show ?case by simp
next
  case (Cons a ps)
  obtain p live where a: "a = (p, live)" by (cases a)
  let ?ri = "case live of Some i \<Rightarrow> i | None \<Rightarrow> compiled"
  let ?st = "st\<lparr>ts_pending := Some p\<rparr>"
  let ?n = "nat (max 0 depth)"
  show ?case
  proof (cases "validate_transition ?n p ?st ?ri")
    case (Some rej)
    let ?c = "reject_transition p (ts_active_agent_id ?st) rej"
    have "resolve_transition depth compiled live ?st = Some ?c"
      using Some by (simp add: resolve_transition_def Let_def)
    moreover have "trail_ok ?n (apply_transition ?c ?st)"
      using Cons.prems
      by (simp add: trail_ok_def apply_transition_def reject_transition_def append_transitions_def)
    moreover have "ts_agent_history (apply_transition ?c ?st) = ts_agent_history st"
      by (simp add: apply_transition_def reject_transition_def append_transitions_def)
    ultimately show ?thesis using Cons.IH [of "apply_transition ?c ?st"] by (simp add: a Let_def)
  next
    case None
    note ok = validate_transition_None [OF None]
    obtain node where node: "resolve_node ?ri (pt_to_agent_id p) = Some node"
      using routable_resolves [OF ok(2)] by blast
    let ?t = "\<lparr>at_from_agent_id = Some (pt_from_agent_id p), at_to_agent_id = pt_to_agent_id p,
      at_source = FromHandoff, at_tool_call_id = Some (pt_tool_call_id p)\<rparr>"
    obtain c where c: "resolve_transition depth compiled live ?st = Some c"
      "tc_active_agent_id c = Some (pt_to_agent_id p)" "tc_agent_history c = Many [?t]"
      using None node by (simp add: resolve_transition_def Let_def)
    have hist: "ts_agent_history (apply_transition c ?st) = ts_agent_history st @ [?t]"
      by (simp add: apply_transition_def c(3) append_transitions_def)
    have "trail_ok ?n (apply_transition c ?st)"
      using Cons.prems ok unfolding trail_ok_def hist
      by (auto simp: apply_transition_def c(2) chained_snoc accepted_handoffs_def)
    from Cons.IH [OF this] hist show ?thesis by (auto simp: a c(1) Let_def)
  qed
qed

theorem handoff_chain_bounded_witness:
  "\<exists>st'. attempts 2 demo_ri
     [(\<lparr>pt_from_agent_id = ''chat_agent'', pt_to_agent_id = ''planning_agent'', pt_tool_call_id = ''c1'',
        pt_tool_message_id = ''m1'', pt_reason = ''plan''\<rparr>, None)]
     \<lparr>ts_active_agent_id = Some ''chat_agent'',
      ts_agent_history = [\<lparr>at_from_agent_id = None, at_to_agent_id = ''chat_agent'',
        at_source = FromRouter, at_tool_call_id = None\<rparr>], ts_pending = None, ts_request_id = ''r''\<rparr>
     = Some st' \<and> trail_ok (nat (max 0 2)) st'"
  using handoff_chain_bounded [of 2 "\<lparr>ts_active_agent_id = Some ''chat_agent'',
      ts_agent_history = [\<lparr>at_from_agent_id = None, at_to_agent_id = ''chat_agent'',
        at_source = FromRouter, at_tool_call_id = None\<rparr>], ts_pending = None, ts_request_id = ''r''\<rparr>"
      demo_ri "[(\<lparr>pt_from_agent_id = ''chat_agent'', pt_to_agent_id = ''planning_agent'',
        pt_tool_call_id = ''c1'', pt_tool_message_id = ''m1'', pt_reason = ''plan''\<rparr>, None)]"]
  by (auto simp: trail_ok_def accepted_handoffs_def)

end
