(* ===== verification/ExecutionBudget.thy ===== *)
theory ExecutionBudget
  imports Prelude
begin

text \<open>
  \<^verbatim>\<open>app/ai/workflow/execution_budget.py\<close> and \<^verbatim>\<open>execution_budget_middleware.py\<close>: the budget of one
  execution epoch. The accountant counts model and tool calls and, when the soft limit is near,
  reserves the last model call for the answer: from then on tools are refused and model calls carry
  none. The settings object is a function from field names to values, \<open>None\<close> where it lacks one.
\<close>

section \<open>Data\<close>

datatype exhaustion_reason = ModelCalls | ToolCalls | HardLimit

fun reason_value :: "exhaustion_reason \<Rightarrow> string" where
  "reason_value ModelCalls = ''model_calls''"
| "reason_value ToolCalls = ''tool_calls''"
| "reason_value HardLimit = ''hard_limit''"

record budget_state =
  bs_execution_epoch :: int
  bs_model_calls :: int
  bs_tool_calls :: int
  bs_forced_synthesis :: bool
  bs_exhausted_by :: "exhaustion_reason option"
  bs_turn_model_calls :: int
  bs_turn_planning_model_calls :: int
  bs_turn_tool_calls :: int
  bs_epochs_used :: int

definition fresh_budget :: budget_state where
  "fresh_budget =
     \<lparr>bs_execution_epoch = 0, bs_model_calls = 0, bs_tool_calls = 0, bs_forced_synthesis = False,
      bs_exhausted_by = None, bs_turn_model_calls = 0, bs_turn_planning_model_calls = 0,
      bs_turn_tool_calls = 0, bs_epochs_used = 1\<rparr>"

text \<open>The \<^verbatim>\<open>ge\<close> constraints of the fields.\<close>

definition budget_valid :: "budget_state \<Rightarrow> bool" where
  "budget_valid s \<longleftrightarrow>
     0 \<le> bs_execution_epoch s \<and> 0 \<le> bs_model_calls s \<and> 0 \<le> bs_tool_calls s \<and>
     0 \<le> bs_turn_model_calls s \<and> 0 \<le> bs_turn_planning_model_calls s \<and> 0 \<le> bs_turn_tool_calls s \<and>
     1 \<le> bs_epochs_used s"

record budget_limits =
  bl_soft_model_calls :: int
  bl_hard_model_calls :: int
  bl_soft_tool_calls :: int
  bl_hard_tool_calls :: int
  bl_total_epochs_per_turn :: int

definition limits_valid :: "budget_limits \<Rightarrow> bool" where
  "limits_valid l \<longleftrightarrow>
     1 \<le> bl_soft_model_calls l \<and> 2 \<le> bl_hard_model_calls l \<and> 1 \<le> bl_soft_tool_calls l \<and>
     2 \<le> bl_hard_tool_calls l \<and> 1 \<le> bl_total_epochs_per_turn l \<and>
     bl_soft_model_calls l < bl_hard_model_calls l \<and> bl_soft_tool_calls l < bl_hard_tool_calls l"

definition DEFAULT_LIMITS :: "(string \<times> int) list" where
  "DEFAULT_LIMITS =
     [(''generation_soft_model_calls_per_epoch'', 200),
      (''generation_hard_model_calls_per_epoch'', 240),
      (''generation_soft_tool_calls_per_epoch'', 400),
      (''generation_hard_tool_calls_per_epoch'', 480),
      (''generation_total_epochs_per_turn'', 50)]"

definition setting :: "(string \<Rightarrow> int option) \<Rightarrow> string \<Rightarrow> int" where
  "setting settings name = (case settings name of None \<Rightarrow> the (map_of DEFAULT_LIMITS name) | Some v \<Rightarrow> v)"

text \<open>\<open>None\<close> is the validation error of a ladder whose rungs are out of order.\<close>

definition limits_from_settings :: "(string \<Rightarrow> int option) \<Rightarrow> budget_limits option" where
  "limits_from_settings settings =
     (let l = \<lparr>bl_soft_model_calls = setting settings ''generation_soft_model_calls_per_epoch'',
               bl_hard_model_calls = setting settings ''generation_hard_model_calls_per_epoch'',
               bl_soft_tool_calls = setting settings ''generation_soft_tool_calls_per_epoch'',
               bl_hard_tool_calls = setting settings ''generation_hard_tool_calls_per_epoch'',
               bl_total_epochs_per_turn = setting settings ''generation_total_epochs_per_turn''\<rparr>
      in if limits_valid l then Some l else None)"

record budget_decision =
  bd_allowed :: bool
  bd_tools_suppressed :: bool
  bd_forced_synthesis :: bool
  bd_reason :: "exhaustion_reason option"

section \<open>The accountant\<close>

record accountant =
  acc_limits :: budget_limits
  acc_state :: budget_state

definition new_accountant :: "budget_limits \<Rightarrow> budget_state option \<Rightarrow> accountant" where
  "new_accountant l s = \<lparr>acc_limits = l, acc_state = (case s of None \<Rightarrow> fresh_budget | Some s \<Rightarrow> s)\<rparr>"

definition force :: "exhaustion_reason \<Rightarrow> budget_state \<Rightarrow> budget_state" where
  "force reason s =
     s\<lparr>bs_forced_synthesis := True,
       bs_exhausted_by := (case bs_exhausted_by s of None \<Rightarrow> Some reason | Some r \<Rightarrow> Some r)\<rparr>"

definition note_tool_call :: "accountant \<Rightarrow> budget_decision \<times> accountant" where
  "note_tool_call a =
     (let s = acc_state a in
      if bs_forced_synthesis s
      then (\<lparr>bd_allowed = False, bd_tools_suppressed = False, bd_forced_synthesis = True,
             bd_reason = bs_exhausted_by s\<rparr>, a)
      else if bs_tool_calls s \<ge> bl_soft_tool_calls (acc_limits a)
      then (\<lparr>bd_allowed = False, bd_tools_suppressed = False, bd_forced_synthesis = True,
             bd_reason = Some ToolCalls\<rparr>, a\<lparr>acc_state := force ToolCalls s\<rparr>)
      else (\<lparr>bd_allowed = True, bd_tools_suppressed = False, bd_forced_synthesis = False,
             bd_reason = None\<rparr>,
            a\<lparr>acc_state := s\<lparr>bs_tool_calls := bs_tool_calls s + 1,
                             bs_turn_tool_calls := bs_turn_tool_calls s + 1\<rparr>\<rparr>))"

definition note_model_call :: "bool \<Rightarrow> accountant \<Rightarrow> budget_decision \<times> accountant" where
  "note_model_call planning a =
     (let s0 = acc_state a;
          s1 = (if \<not> bs_forced_synthesis s0 \<and>
                   bs_model_calls s0 \<ge> bl_soft_model_calls (acc_limits a) - 1
                then force ModelCalls s0 else s0);
          s2 = s1\<lparr>bs_model_calls := bs_model_calls s1 + 1,
                  bs_turn_model_calls := bs_turn_model_calls s1 + 1\<rparr>;
          s3 = (if planning
                then s2\<lparr>bs_turn_planning_model_calls := bs_turn_planning_model_calls s2 + 1\<rparr>
                else s2)
      in (\<lparr>bd_allowed = True, bd_tools_suppressed = bs_forced_synthesis s3,
           bd_forced_synthesis = bs_forced_synthesis s3, bd_reason = bs_exhausted_by s3\<rparr>,
          a\<lparr>acc_state := s3\<rparr>))"

definition note_hard_limit :: "accountant \<Rightarrow> accountant" where
  "note_hard_limit a =
     a\<lparr>acc_state := (acc_state a)\<lparr>bs_forced_synthesis := True, bs_exhausted_by := Some HardLimit\<rparr>\<rparr>"

definition begin_epoch :: "int \<Rightarrow> accountant \<Rightarrow> accountant" where
  "begin_epoch epoch a =
     a\<lparr>acc_state := (acc_state a)\<lparr>bs_execution_epoch := epoch, bs_model_calls := 0, bs_tool_calls := 0,
       bs_forced_synthesis := False, bs_exhausted_by := None, bs_epochs_used := epoch + 1\<rparr>\<rparr>"

definition epochs_remaining :: "accountant \<Rightarrow> int" where
  "epochs_remaining a = max 0 (bl_total_epochs_per_turn (acc_limits a) - bs_epochs_used (acc_state a))"

definition can_begin_epoch :: "accountant \<Rightarrow> bool" where
  "can_begin_epoch a \<longleftrightarrow> epochs_remaining a > 0"

section \<open>The middleware\<close>

text \<open>
  One specialist invocation: the accountant and whether the instruction has been given. The handler
  is the rest of the chain; it acts on a world of its own.
\<close>

record budget_middleware =
  mw_accountant :: accountant
  mw_instructed :: bool

record tool_message =
  tm_content :: string
  tm_tool_call_id :: string
  tm_name :: string
  tm_status :: string

definition REFUSAL_TEXT :: string where
  "REFUSAL_TEXT =
     ''Evidence gathering has ended for this execution epoch, so this tool was '' @
     ''not run. Answer now from the evidence already gathered, and say plainly '' @
     ''what remains unknown.''"

definition FORCED_SYNTHESIS_INSTRUCTION :: string where
  "FORCED_SYNTHESIS_INSTRUCTION =
     ''Evidence gathering has ended for this execution epoch. Answer now using '' @
     ''only the evidence already present. State uncertainty and missing facts '' @
     ''explicitly. Do not request, promise, or imply another automatic tool call.''"

definition awrap_tool_call ::
  "string option \<Rightarrow> string option \<Rightarrow> ('w \<Rightarrow> tool_message \<times> 'w) \<Rightarrow> budget_middleware \<times> 'w
     \<Rightarrow> tool_message \<times> budget_middleware \<times> 'w" where
  "awrap_tool_call call_id call_name handler st =
     (case st of (m, w) \<Rightarrow>
      let (decision, a) = note_tool_call (mw_accountant m); m1 = m\<lparr>mw_accountant := a\<rparr>
      in if bd_allowed decision
         then (let (r, w') = handler w in (r, m1, w'))
         else (\<lparr>tm_content = REFUSAL_TEXT,
                tm_tool_call_id = (case call_id of None \<Rightarrow> [] | Some i \<Rightarrow> i),
                tm_name = (if truthy_str call_name then the call_name else ''tool''),
                tm_status = ''success''\<rparr>, m1\<lparr>mw_instructed := True\<rparr>, w))"

datatype model_exn = ModelCallLimitExceeded | ToolCallLimitExceeded | OtherError string

definition awrap_model_call ::
  "('m list \<Rightarrow> 'w \<Rightarrow> (model_exn + 'r) \<times> 'w) \<Rightarrow> 'm \<Rightarrow> 'm list \<Rightarrow> budget_middleware \<times> 'w
     \<Rightarrow> (model_exn + 'r) \<times> budget_middleware \<times> 'w" where
  "awrap_model_call handler instruction messages st =
     (case st of (m, w) \<Rightarrow>
      let (decision, a) = note_model_call False (mw_accountant m);
          add = (bd_tools_suppressed decision \<and> \<not> mw_instructed m);
          m1 = m\<lparr>mw_accountant := a, mw_instructed := mw_instructed m \<or> add\<rparr>;
          request = (if add then messages @ [instruction] else messages)
      in case handler request w of
           (Inr r, w') \<Rightarrow> (Inr r, m1, w')
         | (Inl (OtherError e), w') \<Rightarrow> (Inl (OtherError e), m1, w')
         | (Inl e, w') \<Rightarrow> (Inl e, m1\<lparr>mw_accountant := note_hard_limit a\<rparr>, w'))"

section \<open>Runs of one epoch\<close>

datatype budget_op = ToolOp | ModelOp bool

fun note_op :: "budget_op \<Rightarrow> accountant \<Rightarrow> budget_decision \<times> accountant" where
  "note_op ToolOp a = note_tool_call a"
| "note_op (ModelOp planning) a = note_model_call planning a"

fun note_ops :: "budget_op list \<Rightarrow> accountant \<Rightarrow> budget_decision list \<times> accountant" where
  "note_ops [] a = ([], a)"
| "note_ops (op # ops) a =
     (let (d, a1) = note_op op a; (ds, a2) = note_ops ops a1 in (d # ds, a2))"

fun is_model :: "budget_op \<Rightarrow> bool" where
  "is_model (ModelOp p) = True"
| "is_model ToolOp = False"

text \<open>How many tool calls ran, and how many model calls were made with tools.\<close>

definition tools_run :: "(budget_op \<times> budget_decision) list \<Rightarrow> int" where
  "tools_run h = int (length (filter (\<lambda>(op, d). \<not> is_model op \<and> bd_allowed d) h))"

definition models_with_tools :: "(budget_op \<times> budget_decision) list \<Rightarrow> int" where
  "models_with_tools h = int (length (filter (\<lambda>(op, d). is_model op \<and> \<not> bd_tools_suppressed d) h))"

section \<open>Bounds\<close>

lemma note_ops_length: "note_ops ops a = (ds, a') \<Longrightarrow> length ds = length ops"
  by (induction ops arbitrary: a ds a') (auto simp: Let_def split: prod.splits)

lemma force_simps [simp]:
  "bs_forced_synthesis (force r s)" "bs_model_calls (force r s) = bs_model_calls s"
  "bs_tool_calls (force r s) = bs_tool_calls s" "bs_turn_model_calls (force r s) = bs_turn_model_calls s"
  "bs_turn_planning_model_calls (force r s) = bs_turn_planning_model_calls s"
  "bs_turn_tool_calls (force r s) = bs_turn_tool_calls s"
  "bs_execution_epoch (force r s) = bs_execution_epoch s" "bs_epochs_used (force r s) = bs_epochs_used s"
  "bs_exhausted_by (force r s) \<noteq> None"
  by (simp_all add: force_def split: option.split)

text \<open>One call: what it decides and how it moves the counters.\<close>

lemma note_op_effect:
  assumes "note_op op a = (d, a')"
  defines "s \<equiv> acc_state a" and "s' \<equiv> acc_state a'"
  shows "acc_limits a' = acc_limits a"
    and "bd_forced_synthesis d = bs_forced_synthesis s'"
    and "bs_forced_synthesis s \<Longrightarrow> bs_forced_synthesis s'"
    and "is_model op \<Longrightarrow> bd_allowed d \<and> (bd_tools_suppressed d \<longleftrightarrow> bs_forced_synthesis s') \<and>
      bs_model_calls s' = bs_model_calls s + 1 \<and> bs_tool_calls s' = bs_tool_calls s \<and>
      bs_turn_model_calls s' = bs_turn_model_calls s + 1 \<and>
      bs_turn_tool_calls s' = bs_turn_tool_calls s \<and>
      (\<not> bs_forced_synthesis s' \<longrightarrow> bs_model_calls s < bl_soft_model_calls (acc_limits a) - 1)"
    and "\<not> is_model op \<Longrightarrow> (bd_allowed d \<longleftrightarrow> \<not> bs_forced_synthesis s') \<and>
      bs_model_calls s' = bs_model_calls s \<and> bs_turn_model_calls s' = bs_turn_model_calls s \<and>
      bs_tool_calls s' = bs_tool_calls s + (if bd_allowed d then 1 else 0) \<and>
      bs_turn_tool_calls s' = bs_turn_tool_calls s + (if bd_allowed d then 1 else 0) \<and>
      (bd_allowed d \<longrightarrow> bs_tool_calls s < bl_soft_tool_calls (acc_limits a))"
    and "bs_execution_epoch s' = bs_execution_epoch s" and "bs_epochs_used s' = bs_epochs_used s"
  using assms
  by (cases op; auto simp: note_tool_call_def note_model_call_def Let_def split: if_splits)+

lemma history_Cons [simp]:
  "tools_run ((op, d) # h) = (if \<not> is_model op \<and> bd_allowed d then 1 else 0) + tools_run h"
  "models_with_tools ((op, d) # h) = (if is_model op \<and> \<not> bd_tools_suppressed d then 1 else 0) + models_with_tools h"
  by (simp_all add: tools_run_def models_with_tools_def)

lemma history_Nil [simp]: "tools_run [] = 0" "models_with_tools [] = 0"
  by (simp_all add: tools_run_def models_with_tools_def)

lemma forced_stays:
  "note_ops ops a = (ds, a') \<Longrightarrow> bs_forced_synthesis (acc_state a) \<Longrightarrow>
   (\<forall>d \<in> set ds. bd_forced_synthesis d) \<and> tools_run (zip ops ds) = 0 \<and> models_with_tools (zip ops ds) = 0"
proof (induction ops arbitrary: a ds a')
  case Nil
  then show ?case by simp
next
  case (Cons op ops)
  obtain d a1 ds' where n: "note_op op a = (d, a1)" "note_ops ops a1 = (ds', a')" "ds = d # ds'"
    using Cons.prems(1) by (auto simp: Let_def split: prod.splits)
  note eff = note_op_effect [OF n(1)]
  from eff(3) Cons.prems(2) have f: "bs_forced_synthesis (acc_state a1)" by blast
  from Cons.IH [OF n(2) f] eff(2,4,5) f n(3) show ?case by (cases "is_model op") auto
qed

lemma note_ops_Cons:
  assumes "note_ops (op # ops) a = (ds, a')"
  obtains d a1 ds' where "note_op op a = (d, a1)" "note_ops ops a1 = (ds', a')" "ds = d # ds'"
  using assms by (auto simp: Let_def split: prod.splits)

text \<open>A forced decision refuses a tool and strips a model call of its tools; others do neither.\<close>

definition decides :: "budget_op \<Rightarrow> budget_decision \<Rightarrow> bool" where
  "decides op d \<longleftrightarrow>
     (if is_model op then bd_allowed d \<and> (bd_tools_suppressed d \<longleftrightarrow> bd_forced_synthesis d)
      else bd_allowed d \<longleftrightarrow> \<not> bd_forced_synthesis d)"

lemma note_ops_decides: "note_ops ops a = (ds, a') \<Longrightarrow> list_all2 decides ops ds"
proof (induction ops arbitrary: a ds)
  case (Cons op ops)
  from Cons.prems show ?case
  proof (cases rule: note_ops_Cons)
    case (1 d a1 ds')
    from note_op_effect(2,4,5) [OF 1(1)] have "decides op d" by (auto simp: decides_def)
    with Cons.IH 1 show ?thesis by simp
  qed
qed simp

text \<open>Once forced, forced for the rest of the epoch.\<close>

lemma note_ops_sorted: "note_ops ops a = (ds, a') \<Longrightarrow> sorted (map bd_forced_synthesis ds)"
proof (induction ops arbitrary: a ds)
  case (Cons op ops)
  from Cons.prems show ?case
  proof (cases rule: note_ops_Cons)
    case (1 d a1 ds')
    have "\<forall>e \<in> set ds'. bd_forced_synthesis d \<longrightarrow> bd_forced_synthesis e"
      using forced_stays [OF 1(2)] note_op_effect(2) [OF 1(1)] by auto
    with Cons.IH 1 show ?thesis by auto
  qed
qed simp

lemma note_ops_bounds:
  assumes "note_ops ops a = (ds, a')" and "bs_tool_calls (acc_state a) \<le> bl_soft_tool_calls (acc_limits a)"
    and "bs_model_calls (acc_state a) \<le> bl_soft_model_calls (acc_limits a) - 1"
  shows "tools_run (zip ops ds) \<le> bl_soft_tool_calls (acc_limits a) - bs_tool_calls (acc_state a) \<and>
    models_with_tools (zip ops ds) \<le> bl_soft_model_calls (acc_limits a) - 1 - bs_model_calls (acc_state a)"
  using assms
proof (induction ops arbitrary: a ds)
  case (Cons op ops)
  from Cons.prems(1) show ?case
  proof (cases rule: note_ops_Cons)
    case (1 d a1 ds')
    note eff = note_op_effect [OF 1(1)]
    show ?thesis
    proof (cases "bs_forced_synthesis (acc_state a1)")
      case True
      with forced_stays [OF 1(2) True] eff(2,4,5) 1(3) Cons.prems show ?thesis
        by (cases "is_model op") auto
    next
      case False
      with Cons.IH [OF 1(2)] eff(1,4,5) 1(3) Cons.prems show ?thesis
        by (cases "is_model op") auto
    qed
  qed
qed simp

lemma note_ops_totals:
  "note_ops ops a = (ds, a') \<Longrightarrow>
   bs_turn_model_calls (acc_state a') = bs_turn_model_calls (acc_state a) + int (length (filter is_model ops)) \<and>
   bs_turn_tool_calls (acc_state a') = bs_turn_tool_calls (acc_state a) + tools_run (zip ops ds) \<and>
   bs_epochs_used (acc_state a') = bs_epochs_used (acc_state a) \<and>
   bs_execution_epoch (acc_state a') = bs_execution_epoch (acc_state a) \<and>
   acc_limits a' = acc_limits a"
proof (induction ops arbitrary: a ds)
  case (Cons op ops)
  from Cons.prems show ?case
  proof (cases rule: note_ops_Cons)
    case (1 d a1 ds')
    with Cons.IH [OF 1(2)] note_op_effect [OF 1(1)] show ?thesis by (cases "is_model op") auto
  qed
qed simp

lemma begin_epoch_simps [simp]:
  "acc_limits (begin_epoch e a) = acc_limits a"
  "bs_execution_epoch (acc_state (begin_epoch e a)) = e"
  "bs_model_calls (acc_state (begin_epoch e a)) = 0"
  "bs_tool_calls (acc_state (begin_epoch e a)) = 0"
  "\<not> bs_forced_synthesis (acc_state (begin_epoch e a))"
  "bs_exhausted_by (acc_state (begin_epoch e a)) = None"
  "bs_turn_model_calls (acc_state (begin_epoch e a)) = bs_turn_model_calls (acc_state a)"
  "bs_turn_planning_model_calls (acc_state (begin_epoch e a)) = bs_turn_planning_model_calls (acc_state a)"
  "bs_turn_tool_calls (acc_state (begin_epoch e a)) = bs_turn_tool_calls (acc_state a)"
  "bs_epochs_used (acc_state (begin_epoch e a)) = e + 1"
  by (simp_all add: begin_epoch_def)

text \<open>
  C9: one epoch keeps its bounds and reserves the answer. Whatever the order of the calls, at most
  the soft number of tool calls run and fewer than the soft number of model calls carry tools, so the
  answer is made below the hard limit. Every model call is allowed; once synthesis is forced it stays
  forced for the epoch, and from then on every tool call is refused and every model call carries no
  tools.
\<close>

theorem epoch_reserves_answer:
  assumes "limits_valid (acc_limits a)" and "note_ops ops (begin_epoch e a) = (ds, a')"
  shows "tools_run (zip ops ds) \<le> bl_soft_tool_calls (acc_limits a) \<and>
    models_with_tools (zip ops ds) < bl_soft_model_calls (acc_limits a) \<and>
    bl_soft_model_calls (acc_limits a) < bl_hard_model_calls (acc_limits a) \<and>
    sorted (map bd_forced_synthesis ds) \<and> list_all2 decides ops ds"
  using note_ops_bounds [OF assms(2)] note_ops_sorted [OF assms(2)] note_ops_decides [OF assms(2)]
    assms(1) by (simp add: limits_valid_def)

definition demo_limits :: budget_limits where
  "demo_limits = \<lparr>bl_soft_model_calls = 2, bl_hard_model_calls = 4, bl_soft_tool_calls = 1,
     bl_hard_tool_calls = 3, bl_total_epochs_per_turn = 3\<rparr>"

theorem epoch_reserves_answer_witness:
  "sorted (map bd_forced_synthesis
     (fst (note_ops [ModelOp False, ToolOp, ModelOp True, ToolOp] (begin_epoch 0 (new_accountant demo_limits None)))))
   \<and> map bd_forced_synthesis
     (fst (note_ops [ModelOp False, ToolOp, ModelOp True, ToolOp] (begin_epoch 0 (new_accountant demo_limits None))))
     = [False, False, True, True]"
proof -
  have "limits_valid (acc_limits (new_accountant demo_limits None))"
    by (simp add: limits_valid_def new_accountant_def demo_limits_def)
  moreover have "map bd_forced_synthesis
     (fst (note_ops [ModelOp False, ToolOp, ModelOp True, ToolOp] (begin_epoch 0 (new_accountant demo_limits None))))
     = [False, False, True, True]"
    by code_simp
  ultimately show ?thesis
    using epoch_reserves_answer [OF _ prod.collapse [symmetric]] by blast
qed

text \<open>
  The turn totals survive an epoch boundary and grow by exactly what the epoch spent, and an
  epoch is offered exactly while the turn has epochs left, so a Continue buys its own room and
  nothing more.
\<close>

theorem epoch_boundary_keeps_totals:
  assumes "note_ops ops (begin_epoch e a) = (ds, a')"
  shows "bs_turn_model_calls (acc_state a') =
      bs_turn_model_calls (acc_state a) + int (length (filter is_model ops)) \<and>
    bs_turn_tool_calls (acc_state a') = bs_turn_tool_calls (acc_state a) + tools_run (zip ops ds) \<and>
    bs_epochs_used (acc_state a') = e + 1 \<and>
    (can_begin_epoch a' \<longleftrightarrow> e + 1 < bl_total_epochs_per_turn (acc_limits a))"
  using note_ops_totals [OF assms] by (auto simp: can_begin_epoch_def epochs_remaining_def)

theorem epoch_boundary_keeps_totals_witness:
  "bs_turn_tool_calls (acc_state (snd (note_ops [ToolOp, ModelOp False]
     (begin_epoch 1 (new_accountant demo_limits None))))) = 1"
proof -
  have "tools_run (zip [ToolOp, ModelOp False] (fst (note_ops [ToolOp, ModelOp False]
      (begin_epoch 1 (new_accountant demo_limits None))))) = 1"
    by code_simp
  then show ?thesis
    using epoch_boundary_keeps_totals [OF prod.collapse [symmetric],
        of "[ToolOp, ModelOp False]" 1 "new_accountant demo_limits None"]
    by (simp add: new_accountant_def fresh_budget_def)
qed

text \<open>
  The middleware answers every tool call it does not run with a tool message paired to that call,
  runs the handler exactly when the budget allowed the call, instructs the model at most once, and
  records a framework limit as the hard limit while raising it on.
\<close>

theorem middleware_pairs_refusals:
  "(\<forall>call_id call_name handler m w r m' w'.
      awrap_tool_call call_id call_name handler (m, w) = (r, m', w') \<longrightarrow>
      (if bd_allowed (fst (note_tool_call (mw_accountant m))) then (r, w') = handler w
       else w' = w \<and> tm_tool_call_id r = (case call_id of None \<Rightarrow> [] | Some i \<Rightarrow> i) \<and>
         tm_content r = REFUSAL_TEXT \<and> mw_instructed m')) \<and>
   (\<forall>handler instruction messages m w res m' w'.
      awrap_model_call handler instruction messages (m, w) = (res, m', w') \<longrightarrow>
      (mw_instructed m \<longrightarrow> (res, w') = handler messages w \<and> mw_instructed m') \<and>
      (\<forall>e. res = Inl e \<longrightarrow> e \<in> {ModelCallLimitExceeded, ToolCallLimitExceeded} \<longrightarrow>
         bs_exhausted_by (acc_state (mw_accountant m')) = Some HardLimit \<and>
         bs_forced_synthesis (acc_state (mw_accountant m'))))"
  by (auto simp: awrap_tool_call_def awrap_model_call_def note_hard_limit_def Let_def
      split: prod.splits sum.splits model_exn.splits if_splits)

theorem middleware_pairs_refusals_witness:
  "tm_tool_call_id (fst (awrap_tool_call (Some ''c1'') (Some ''web'')
     (\<lambda>w. (\<lparr>tm_content = ''hit'', tm_tool_call_id = ''c1'', tm_name = ''web'', tm_status = ''success''\<rparr>, w))
     (\<lparr>mw_accountant = note_hard_limit (new_accountant demo_limits None), mw_instructed = False\<rparr>, ()))) = ''c1''"
proof -
  let ?m = "\<lparr>mw_accountant = note_hard_limit (new_accountant demo_limits None), mw_instructed = False\<rparr>"
  let ?h = "\<lambda>w. (\<lparr>tm_content = ''hit'', tm_tool_call_id = ''c1'', tm_name = ''web'',
    tm_status = ''success''\<rparr>, w)"
  obtain r m' w' where run: "awrap_tool_call (Some ''c1'') (Some ''web'') ?h (?m, ()) = (r, m', w')"
    by (metis prod.exhaust)
  moreover have "\<not> bd_allowed (fst (note_tool_call (mw_accountant ?m)))" by code_simp
  ultimately show ?thesis
    using middleware_pairs_refusals [THEN conjunct1, rule_format, OF run] by simp
qed

end
