(* ===== verification/Finalization.thy ===== *)
theory Finalization
  imports WorkflowRouting ExecutionBudget
begin

text \<open>
  \<^verbatim>\<open>app/ai/workflow/finalization.py\<close>: the policies every public answer passes, the node that
  validates, and the one boundary that publishes. A policy returns the reason it raises, \<open>None\<close> when
  it accepts; the detail text goes to the operator's log only and is left out.
\<close>

section \<open>The two patterns\<close>

text \<open>
  \<open>citations\<close> is \<^verbatim>\<open>findall\<close> of \<^verbatim>\<open>\[(E\d+)\]\<close>, \<open>markdown_links\<close> that of
  \<^verbatim>\<open>\[[^\]]*\]\((https?://[^)\s]+)\)\<close>: at each position a match is taken and skipped, otherwise one
  character is skipped. Both patterns are deterministic, so no backtracking is needed.
\<close>

fun match_citation :: "string \<Rightarrow> (string \<times> string) option" where
  "match_citation (a # b # s) =
     (let ds = takeWhile is_digit s; rest = dropWhile is_digit s
      in if a = CHR ''['' \<and> b = CHR ''E'' \<and> ds \<noteq> []
         then (case rest of c # rest' \<Rightarrow> if c = CHR '']'' then Some (CHR ''E'' # ds, rest') else None
               | [] \<Rightarrow> None)
         else None)"
| "match_citation s = None"

definition url_char :: "char \<Rightarrow> bool" where
  "url_char c = (c \<noteq> CHR '')'' \<and> \<not> py_space c)"

definition match_url :: "string \<Rightarrow> string \<Rightarrow> (string \<times> string) option" where
  "match_url scheme target =
     (let tail = drop (length scheme) target; body = takeWhile url_char tail
      in if \<not> prefix scheme target \<or> body = [] then None
         else case dropWhile url_char tail of
           c # rest \<Rightarrow> if c = CHR '')'' then Some (scheme @ body, rest) else None
         | [] \<Rightarrow> None)"

definition match_link :: "string \<Rightarrow> (string \<times> string) option" where
  "match_link s =
     (if s = [] \<or> hd s \<noteq> CHR ''['' then None
      else case dropWhile (\<lambda>c. c \<noteq> CHR '']'') (tl s) of
        c1 # c2 # target \<Rightarrow>
          if c2 \<noteq> CHR ''('' then None
          else if prefix ''https://'' target then match_url ''https://'' target
          else match_url ''http://'' target
      | _ \<Rightarrow> None)"

lemma dropWhile_length_le: "length (dropWhile P xs) \<le> length xs"
  by (induction xs) auto

lemma match_citation_shorter: "match_citation s = Some (x, rest) \<Longrightarrow> length rest < length s"
  using dropWhile_length_le [of is_digit "drop 2 s"]
  by (cases s rule: match_citation.cases) (auto simp: Let_def split: if_splits list.splits)

lemma match_url_shorter: "match_url scheme target = Some (x, rest) \<Longrightarrow> length rest < length target"
proof -
  assume "match_url scheme target = Some (x, rest)"
  then have "\<exists>c. dropWhile url_char (drop (length scheme) target) = c # rest"
    by (auto simp: match_url_def Let_def split: if_splits list.splits)
  then obtain c where "dropWhile url_char (drop (length scheme) target) = c # rest" ..
  then have "length (c # rest) \<le> length (drop (length scheme) target)"
    using dropWhile_length_le [of url_char "drop (length scheme) target"] by simp
  then show ?thesis by simp
qed

lemma match_link_shorter: "match_link s = Some (x, rest) \<Longrightarrow> length rest < length s"
proof -
  assume m: "match_link s = Some (x, rest)"
  then obtain c1 c2 target where d: "dropWhile (\<lambda>c. c \<noteq> CHR '']'') (tl s) = c1 # c2 # target"
    by (auto simp: match_link_def split: if_splits list.splits)
  with m have "length rest < length target"
    by (auto simp: match_link_def split: if_splits dest: match_url_shorter)
  moreover have "length (c1 # c2 # target) \<le> length (tl s)" using dropWhile_length_le d by metis
  ultimately show ?thesis by simp
qed

function citations :: "string \<Rightarrow> string list" where
  "citations s =
     (case s of
        [] \<Rightarrow> []
      | c # s' \<Rightarrow> (case match_citation s of Some (x, rest) \<Rightarrow> x # citations rest | None \<Rightarrow> citations s'))"
  by pat_completeness auto
termination
  by (relation "measure length") (auto dest: match_citation_shorter)

function markdown_links :: "string \<Rightarrow> string list" where
  "markdown_links s =
     (case s of
        [] \<Rightarrow> []
      | c # s' \<Rightarrow> (case match_link s of Some (x, rest) \<Rightarrow> x # markdown_links rest | None \<Rightarrow> markdown_links s'))"
  by pat_completeness auto
termination
  by (relation "measure length") (auto dest: match_link_shorter)

declare citations.simps [simp del] markdown_links.simps [simp del]

section \<open>Policies\<close>

record output_error =
  oe_reason :: string
  oe_retriable :: bool

definition refused :: "string \<Rightarrow> output_error option" where
  "refused reason = Some \<lparr>oe_reason = reason, oe_retriable = False\<rparr>"

definition refused_retriable :: "string \<Rightarrow> output_error option" where
  "refused_retriable reason = Some \<lparr>oe_reason = reason, oe_retriable = True\<rparr>"

text \<open>The ids of the entries that have one.\<close>

definition present :: "string option list \<Rightarrow> string list" where
  "present xs = map the (filter truthy_str xs)"

definition public_content_policy :: "response_outcome \<Rightarrow> output_error option" where
  "public_content_policy o1 =
     (let r = ro_response o1;
          has_content = (py_strip (ar_content r) \<noteq> []);
          has_artifacts = (ar_tool_artifacts r \<noteq> [] \<or> op_artifacts (ro_provenance o1) \<noteq> []);
          has_images = (op_images (ro_provenance o1) \<noteq> []);
          has_interrupt = rm_interrupt (ar_metadata r)
      in if \<not> (has_content \<or> has_artifacts \<or> has_images \<or> has_interrupt \<or> truthy_str (ar_error r))
         then refused_retriable ''empty_public_content'' else None)"

definition artifact_provenance_policy :: "response_outcome \<Rightarrow> output_error option" where
  "artifact_provenance_policy o1 =
     (let recorded = set (present (op_artifacts (ro_provenance o1)));
          published = present (ar_tool_artifacts (ro_response o1))
      in if filter (\<lambda>i. i \<notin> recorded) published \<noteq> [] then refused ''unrecorded_artifact'' else None)"

definition image_delivery_policy :: "response_outcome \<Rightarrow> output_error option" where
  "image_delivery_policy o1 =
     (let recorded = set (present (op_images (ro_provenance o1)));
          published = present (rm_images (ar_metadata (ro_response o1)))
      in if filter (\<lambda>i. i \<notin> recorded) published \<noteq> [] then refused ''unrecorded_image'' else None)"

definition rag_grounding_policy :: "response_outcome \<Rightarrow> output_error option" where
  "rag_grounding_policy o1 =
     (let known = set (present (op_evidence (ro_provenance o1)));
          cited = set (citations (ar_content (ro_response o1)))
      in if cited - known \<noteq> {} then refused ''unknown_evidence_id'' else None)"

definition web_evidence_policy :: "response_outcome \<Rightarrow> output_error option" where
  "web_evidence_policy o1 =
     (let known = set (present (map ws_url (op_web_sources (ro_provenance o1))));
          cited = set (markdown_links (ar_content (ro_response o1)))
      in if known \<inter> cited \<noteq> {} then None else refused_retriable ''missing_web_citation'')"

fun requested_calls :: "chat_message \<Rightarrow> string list" where
  "requested_calls (AIMessage content ids) = present ids"
| "requested_calls m = []"

fun answered_calls :: "chat_message \<Rightarrow> string list" where
  "answered_calls (ToolMessage content call_id) = [call_id]"
| "answered_calls m = []"

definition tool_message_pairing_policy :: "response_outcome \<Rightarrow> output_error option" where
  "tool_message_pairing_policy o1 =
     (let ms = op_private_messages (ro_provenance o1);
          requested = set (concat (map requested_calls ms));
          answered = concat (map answered_calls ms)
      in if filter (\<lambda>i. i \<notin> requested) answered \<noteq> [] then refused ''unpaired_tool_message'' else None)"

text \<open>\<^verbatim>\<open>str(content or "").strip()\<close> is empty for a falsy value and a blank string only.\<close>

definition blank_content :: "pyval \<Rightarrow> bool" where
  "blank_content v = (\<not> truthy v \<or> (case v of PStr s \<Rightarrow> py_strip s = [] | _ \<Rightarrow> False))"

definition canvas_policy :: "response_outcome \<Rightarrow> output_error option" where
  "canvas_policy o1 =
     (let artifact = rm_canvas_artifact (ar_metadata (ro_response o1));
          upd = rm_canvas_update (ar_metadata (ro_response o1))
      in if artifact = PNone \<and> upd = PNone then None
         else case artifact of
           PNone \<Rightarrow> None
         | PDict d \<Rightarrow> if blank_content (pget d ''content'') then refused ''empty_canvas_artifact'' else None
         | _ \<Rightarrow> refused ''invalid_canvas_artifact'')"

definition POLICY_REGISTRY :: "(string \<times> (response_outcome \<Rightarrow> output_error option)) list" where
  "POLICY_REGISTRY =
     [(''public_content'', public_content_policy),
      (''artifact_provenance'', artifact_provenance_policy),
      (''image_delivery'', image_delivery_policy),
      (''rag_grounding'', rag_grounding_policy),
      (''web_evidence'', web_evidence_policy),
      (''tool_message_pairing'', tool_message_pairing_policy),
      (''canvas_contract'', canvas_policy)]"

section \<open>Selection and validation\<close>

fun select_declared :: "string list \<Rightarrow> string list \<Rightarrow> output_error + string list" where
  "select_declared selected [] = Inr selected"
| "select_declared selected (p # ps) =
     (if map_of POLICY_REGISTRY p = None
      then Inl \<lparr>oe_reason = ''unknown_output_policy'', oe_retriable = False\<rparr>
      else if p \<notin> set selected then select_declared (selected @ [p]) ps
      else select_declared selected ps)"

definition triggers :: "response_outcome \<Rightarrow> (bool \<times> string) list" where
  "triggers o1 =
     (let p = ro_provenance o1; r = ro_response o1
      in [(op_evidence p \<noteq> [] \<or> citations (ar_content r) \<noteq> [], ''rag_grounding''),
          (op_artifacts p \<noteq> [] \<or> ar_tool_artifacts r \<noteq> [], ''artifact_provenance''),
          (op_images p \<noteq> [] \<or> rm_images (ar_metadata r) \<noteq> [], ''image_delivery''),
          (op_web_sources p \<noteq> [], ''web_evidence'')])"

fun select_triggered :: "string list \<Rightarrow> (bool \<times> string) list \<Rightarrow> string list" where
  "select_triggered selected [] = selected"
| "select_triggered selected ((present1, p) # ts) =
     (if present1 \<and> p \<notin> set selected then select_triggered (selected @ [p]) ts
      else select_triggered selected ts)"

definition select_policies :: "response_outcome \<Rightarrow> output_error + string list" where
  "select_policies o1 =
     (case select_declared [''public_content''] (op_output_policy_ids (ro_provenance o1)) of
        Inl e \<Rightarrow> Inl e
      | Inr selected \<Rightarrow> Inr (select_triggered selected (triggers o1)))"

fun run_policies :: "string list \<Rightarrow> response_outcome \<Rightarrow> output_error option" where
  "run_policies [] o1 = None"
| "run_policies (p # ps) o1 =
     (case map_of POLICY_REGISTRY p of
        None \<Rightarrow> run_policies ps o1
      | Some policy \<Rightarrow> (case policy o1 of Some e \<Rightarrow> Some e | None \<Rightarrow> run_policies ps o1))"

definition with_policy_ids :: "string list \<Rightarrow> response_outcome \<Rightarrow> response_outcome" where
  "with_policy_ids ps o1 =
     o1\<lparr>ro_provenance := (ro_provenance o1)\<lparr>op_output_policy_ids := ps\<rparr>\<rparr>"

text \<open>\<open>None\<close> is a value that is not a \<^verbatim>\<open>ResponseOutcome\<close>.\<close>

definition validate_output :: "response_outcome option \<Rightarrow> output_error + response_outcome" where
  "validate_output outcome =
     (case outcome of
        None \<Rightarrow> Inl \<lparr>oe_reason = ''outcome_not_server_owned'', oe_retriable = False\<rparr>
      | Some o1 \<Rightarrow>
          if ro_agent_id o1 = [] then Inl \<lparr>oe_reason = ''missing_agent_identity'', oe_retriable = False\<rparr>
          else case select_policies o1 of
            Inl e \<Rightarrow> Inl e
          | Inr ps \<Rightarrow> (case run_policies ps o1 of
              Some e \<Rightarrow> Inl e
            | None \<Rightarrow> Inr (with_policy_ids ps o1)))"

text \<open>
  The worker's finalizer as written: it builds its result without the required \<^verbatim>\<open>dispatch_id\<close> and
  \<^verbatim>\<open>position\<close>; \<open>None\<close> is the validation error that raises.
\<close>

definition worker_finalize :: "response_outcome option \<Rightarrow> string \<Rightarrow> string option worker_result option" where
  "worker_finalize outcome task_id =
     (case validate_output outcome of
        Inl e \<Rightarrow> make_worker_result None None task_id
          (case outcome of Some o1 \<Rightarrow> ro_agent_id o1 | None \<Rightarrow> ''unknown'')
          WorkerFailed [] [] [] [] (Some ''response_validation_failed'')
      | Inr v \<Rightarrow> make_worker_result None None task_id (ro_agent_id v) WorkerCompleted
          (ar_content (ro_response v)) (op_artifacts (ro_provenance v)) (op_evidence (ro_provenance v)) [] None)"

section \<open>The validation node\<close>

text \<open>
  The channels of the graph state that the end of a turn reads. \<open>gs_execution_budget\<close> is \<open>None\<close> when
  the channel holds no dictionary.
\<close>

record turn_state =
  gs_agent_outcome :: "response_outcome option"
  gs_workflow_error :: "workflow_error option"
  gs_execution_phase :: string
  gs_execution_budget :: "(string \<times> pyval) list option"
  gs_execution_epoch :: int
  gs_request_id :: string
  gs_logical_turn_id :: "string option"
  gs_assistant_message_id :: "string option"
  gs_routing_decision :: "routing_decision option"
  gs_inventory_version :: "string option"
  gs_agent_history :: "agent_transition list"
  gs_active_agent_id :: "string option"
  gs_custom_agents :: "(string \<times> (string option \<times> string option) option) list"
  gs_carried_messages :: "chat_message list"
  gs_carried_web_sources :: "web_source list"

definition request_id_of :: "turn_state \<Rightarrow> string" where
  "request_id_of st = (if gs_request_id st = [] then ''unknown'' else gs_request_id st)"

text \<open>\<^verbatim>\<open>model_dump(mode="json")\<close> of a budget.\<close>

definition dump_budget :: "budget_state \<Rightarrow> (string \<times> pyval) list" where
  "dump_budget s =
     [(''execution_epoch'', PInt (bs_execution_epoch s)),
      (''model_calls'', PInt (bs_model_calls s)),
      (''tool_calls'', PInt (bs_tool_calls s)),
      (''forced_synthesis'', PBool (bs_forced_synthesis s)),
      (''exhausted_by'', (case bs_exhausted_by s of None \<Rightarrow> PNone | Some r \<Rightarrow> PStr (reason_value r))),
      (''turn_model_calls'', PInt (bs_turn_model_calls s)),
      (''turn_planning_model_calls'', PInt (bs_turn_planning_model_calls s)),
      (''turn_tool_calls'', PInt (bs_turn_tool_calls s)),
      (''epochs_used'', PInt (bs_epochs_used s))]"

text \<open>
  Reading a dictionary back is Pydantic's \<^verbatim>\<open>model_validate\<close>, an argument \<open>read\<close>: \<open>None\<close> is its
  validation error.
\<close>

definition is_continuable ::
  "((string \<times> pyval) list \<Rightarrow> budget_state option) \<Rightarrow> (string \<Rightarrow> int option) \<Rightarrow> turn_state \<Rightarrow> bool" where
  "is_continuable read settings st =
     (case gs_execution_budget st of
        None \<Rightarrow> False
      | Some budget \<Rightarrow>
          if \<not> truthy (pget budget ''exhausted_by'') then False
          else case (limits_from_settings settings, read budget) of
            (Some l, Some s) \<Rightarrow> can_begin_epoch (new_accountant l (Some s))
          | _ \<Rightarrow> False)"

record node_command =
  nc_goto :: string
  nc_agent_outcome :: "response_outcome option"
  nc_execution_phase :: string
  nc_workflow_error :: "workflow_error option"

definition rejection_of :: "output_error \<Rightarrow> turn_state \<Rightarrow> workflow_error" where
  "rejection_of e st =
     make_workflow_error ResponseValidationFailed (request_id_of st)
       (PDict [(''reason'', PStr (oe_reason e)),
               (''agent'', (case gs_agent_outcome st of None \<Rightarrow> PNone | Some o1 \<Rightarrow> PStr (ro_agent_id o1)))])
       (Some (oe_retriable e))"

definition validate_output_node ::
  "((string \<times> pyval) list \<Rightarrow> budget_state option) \<Rightarrow> (string \<Rightarrow> int option) \<Rightarrow> turn_state \<Rightarrow> node_command" where
  "validate_output_node read settings st =
     (case validate_output (gs_agent_outcome st) of
        Inl e \<Rightarrow> \<lparr>nc_goto = ''finalize'', nc_agent_outcome = None, nc_execution_phase = ''failed'',
                 nc_workflow_error = Some (rejection_of e st)\<rparr>
      | Inr v \<Rightarrow>
          if is_continuable read settings st
          then \<lparr>nc_goto = ''continuation_pause'', nc_agent_outcome = Some v,
                nc_execution_phase = ''paused'', nc_workflow_error = None\<rparr>
          else \<lparr>nc_goto = ''finalize'', nc_agent_outcome = Some v,
                nc_execution_phase = ''finalizing'', nc_workflow_error = None\<rparr>)"

text \<open>The graph applies the update: a channel it does not name keeps its value.\<close>

definition apply_node :: "node_command \<Rightarrow> turn_state \<Rightarrow> turn_state" where
  "apply_node c st =
     st\<lparr>gs_agent_outcome := (case nc_agent_outcome c of Some o1 \<Rightarrow> Some o1 | None \<Rightarrow> gs_agent_outcome st),
        gs_execution_phase := nc_execution_phase c,
        gs_workflow_error := (case nc_workflow_error c of Some e \<Rightarrow> Some e | None \<Rightarrow> gs_workflow_error st)\<rparr>"

section \<open>The public response\<close>

text \<open>
  \<^verbatim>\<open>agent_metadata.py\<close>: the identity block. Of a custom agent's entry the id and the name are kept, as
  texts; \<open>None\<close> in the map is an entry that is not a mapping.
\<close>

record agent_identity_block =
  ai_id :: string
  ai_kind :: string
  ai_name :: string
  ai_custom_agent_id :: "string option"
  ai_source :: string

definition or_str :: "string option \<Rightarrow> string option \<Rightarrow> string option" where
  "or_str a b = (if truthy_str a then a else b)"

definition after_colon :: "string \<Rightarrow> string" where
  "after_colon s = snd (snd (partition_str (CHR '':'') s))"

definition agent_identity ::
  "string option \<Rightarrow> (string \<times> (string option \<times> string option) option) list \<Rightarrow> string option
     \<Rightarrow> string option \<Rightarrow> string \<Rightarrow> agent_identity_block option" where
  "agent_identity agent_id custom_agents fallback custom_agent_id source =
     (if \<not> truthy_str agent_id then None
      else let i = the agent_id
      in case map_of custom_agents i of
           Some (Some (entry_id, entry_name)) \<Rightarrow>
             (let known = or_str entry_id custom_agent_id;
                  resolved = (if \<not> truthy_str known \<and> CHR '':'' \<in> set i then Some (after_colon i) else known)
              in Some \<lparr>ai_id = i, ai_kind = ''custom'',
                       ai_name = (if truthy_str entry_name then the entry_name
                                  else if truthy_str fallback then the fallback else i),
                       ai_custom_agent_id = (if truthy_str resolved then resolved else None),
                       ai_source = source\<rparr>)
         | _ \<Rightarrow>
             if prefix CUSTOM_AGENT_PREFIX i
             then (let resolved = or_str custom_agent_id (Some (after_colon i))
                   in Some \<lparr>ai_id = i, ai_kind = ''custom'',
                            ai_name = (if truthy_str fallback then the fallback else i),
                            ai_custom_agent_id = (if truthy_str resolved then resolved else None),
                            ai_source = source\<rparr>)
             else Some \<lparr>ai_id = i, ai_kind = ''base'',
                        ai_name = (case map_of BASE_AGENT_DISPLAY_NAMES i of
                                     Some n \<Rightarrow> n
                                   | None \<Rightarrow> if truthy_str fallback then the fallback else fallback_name i),
                        ai_custom_agent_id = None, ai_source = source\<rparr>)"

definition attach_agent_metadata ::
  "response_metadata \<Rightarrow> string option \<Rightarrow> string option
     \<Rightarrow> (string \<times> (string option \<times> string option) option) list \<Rightarrow> agent_identity_block option" where
  "attach_agent_metadata metadata response_agent_id active_agent_id custom_agents =
     (let compat = rm_runtime_agent_id metadata;
          (source, agent_id) =
            (if truthy_str response_agent_id then (''response'', response_agent_id)
             else if truthy_str compat then (''response'', compat)
             else (''active_agent'', active_agent_id))
      in agent_identity agent_id custom_agents (rm_custom_agent_name metadata)
           (rm_custom_agent_id metadata) source)"

record routing_metadata =
  rt_agent_id :: string
  rt_confidence :: rat
  rt_inventory_version :: "string option"

record workflow_metadata =
  wm_graph_version :: string
  wm_initial_agent_id :: "string option"
  wm_active_agent_id :: "string option"
  wm_final_agent_id :: "string option"
  wm_execution_phase :: string
  wm_transitions :: "agent_transition list"
  wm_routing :: "routing_metadata option"
  wm_error :: "(string \<times> pyval) list option"

record validation_metadata =
  vm_passed :: bool
  vm_policy_ids :: "string list"
  vm_policy_versions :: "(string \<times> string) list"

record provenance_metadata =
  pm_artifact_ids :: "string list"
  pm_image_ids :: "string list"
  pm_evidence_ids :: "string list"
  pm_web_source_ids :: "string list"
  pm_rich_item_ids :: "string list"

text \<open>The parts of the metadata a failed response lacks are \<open>None\<close>.\<close>

record public_response =
  pr_agent_id :: string
  pr_content :: string
  pr_tool_artifacts :: "string option list"
  pr_metadata :: "response_metadata option"
  pr_workflow :: workflow_metadata
  pr_validation :: "validation_metadata option"
  pr_provenance :: "provenance_metadata option"
  pr_agent :: "agent_identity_block option"
  pr_error :: "string option"

record final_update =
  fu_messages :: "(string \<times> string) list"
  fu_response :: public_response
  fu_final_agent_id :: "string option"
  fu_workflow_error :: "workflow_error option"
  fu_execution_phase :: string

definition GRAPH_VERSION :: string where
  "GRAPH_VERSION = ''routing-v2''"

definition POLICY_IMPLEMENTATION_VERSION :: string where
  "POLICY_IMPLEMENTATION_VERSION = ''1''"

definition provenance_metadata_of :: "outcome_provenance \<Rightarrow> provenance_metadata" where
  "provenance_metadata_of p =
     \<lparr>pm_artifact_ids = present (op_artifacts p), pm_image_ids = present (op_images p),
      pm_evidence_ids = present (op_evidence p),
      pm_web_source_ids = present (map ws_source_id (op_web_sources p)),
      pm_rich_item_ids = present (op_rich_items p)\<rparr>"

definition build_response :: "turn_state \<Rightarrow> response_outcome \<Rightarrow> public_response" where
  "build_response st o1 =
     (let r = ro_response o1;
          active = or_str (gs_active_agent_id st) (Some (ro_agent_id o1));
          policy_ids = op_output_policy_ids (ro_provenance o1)
      in \<lparr>pr_agent_id = ar_agent_id r, pr_content = ar_content r, pr_tool_artifacts = ar_tool_artifacts r,
          pr_metadata = Some (ar_metadata r),
          pr_workflow =
            \<lparr>wm_graph_version = GRAPH_VERSION,
             wm_initial_agent_id = map_option rd_agent_id (gs_routing_decision st),
             wm_active_agent_id = active, wm_final_agent_id = Some (ro_agent_id o1),
             wm_execution_phase = ''completed'', wm_transitions = gs_agent_history st,
             wm_routing = map_option
               (\<lambda>d. \<lparr>rt_agent_id = rd_agent_id d, rt_confidence = rd_confidence d,
                     rt_inventory_version = gs_inventory_version st\<rparr>) (gs_routing_decision st),
             wm_error = None\<rparr>,
          pr_validation = Some
            \<lparr>vm_passed = True, vm_policy_ids = policy_ids,
             vm_policy_versions =
               foldl (\<lambda>d p. AList.update p POLICY_IMPLEMENTATION_VERSION d) [] policy_ids\<rparr>,
          pr_provenance = Some (provenance_metadata_of (ro_provenance o1)),
          pr_agent = attach_agent_metadata (ar_metadata r) (Some (ro_agent_id o1)) active
            (gs_custom_agents st),
          pr_error = ar_error r\<rparr>)"

definition finalize_failure :: "turn_state \<Rightarrow> workflow_error option \<Rightarrow> final_update" where
  "finalize_failure st we =
     (let e = (case we of Some e \<Rightarrow> e
               | None \<Rightarrow> \<lparr>we_code = FinalizationFailed, we_retriable = False,
                          we_request_id = request_id_of st,
                          we_details = [(''reason'', PStr ''unspecified'')]\<rparr>)
      in \<lparr>fu_messages = [],
          fu_response =
            \<lparr>pr_agent_id = the (or_str (gs_active_agent_id st) (Some ''unknown'')), pr_content = [],
             pr_tool_artifacts = [], pr_metadata = None,
             pr_workflow =
               \<lparr>wm_graph_version = GRAPH_VERSION, wm_initial_agent_id = None, wm_active_agent_id = None,
                wm_final_agent_id = None, wm_execution_phase = ''failed'', wm_transitions = [],
                wm_routing = None,
                wm_error = Some
                  [(''code'', PStr (code_value (we_code e))), (''retriable'', PBool (we_retriable e)),
                   (''request_id'', PStr (we_request_id e)), (''details'', PDict (we_details e))]\<rparr>,
             pr_validation = None, pr_provenance = None, pr_agent = None,
             pr_error = Some (code_value (we_code e))\<rparr>,
          fu_final_agent_id = None, fu_workflow_error = Some e, fu_execution_phase = ''failed''\<rparr>)"

definition failure_update :: "turn_state \<Rightarrow> string \<Rightarrow> final_update" where
  "failure_update st reason =
     finalize_failure st (Some \<lparr>we_code = FinalizationFailed, we_retriable = False,
       we_request_id = request_id_of st, we_details = [(''reason'', PStr reason)]\<rparr>)"

definition finalize_success :: "turn_state \<Rightarrow> final_update" where
  "finalize_success st =
     (case gs_agent_outcome st of
        None \<Rightarrow> failure_update st ''missing_validated_outcome''
      | Some o1 \<Rightarrow>
          if \<not> truthy_str (gs_assistant_message_id st)
          then failure_update st ''missing_assistant_message_id''
          else (let response = build_response st o1
                in \<lparr>fu_messages = [(the (gs_assistant_message_id st), pr_content response)],
                    fu_response = response, fu_final_agent_id = Some (ro_agent_id o1),
                    fu_workflow_error = None, fu_execution_phase = ''completed''\<rparr>))"

definition finalize :: "turn_state \<Rightarrow> final_update" where
  "finalize st =
     (if gs_workflow_error st \<noteq> None \<or> gs_execution_phase st = ''failed''
      then finalize_failure st (gs_workflow_error st)
      else finalize_success st)"

section \<open>What validation guarantees\<close>

lemma select_declared_effect:
  "select_declared selected ds = Inr ps \<Longrightarrow> distinct selected \<Longrightarrow>
   distinct ps \<and> prefix selected ps \<and> set ps = set selected \<union> set ds \<and>
   (\<forall>d \<in> set ds. map_of POLICY_REGISTRY d \<noteq> None)"
proof (induction ds arbitrary: selected)
  case (Cons d ds)
  from Cons.prems(1) have known: "map_of POLICY_REGISTRY d \<noteq> None" by (auto split: if_splits)
  show ?case
  proof (cases "d \<in> set selected")
    case True
    with Cons.prems known Cons.IH [of selected] show ?thesis by auto
  next
    case False
    with Cons.prems known have "select_declared (selected @ [d]) ds = Inr ps" by auto
    from Cons.IH [OF this] False Cons.prems(2) known show ?thesis by (auto dest: append_prefixD)
  qed
qed auto

lemma select_declared_known:
  "list_all (\<lambda>d. map_of POLICY_REGISTRY d \<noteq> None) ds \<Longrightarrow> distinct (selected @ ds) \<Longrightarrow>
   select_declared selected ds = Inr (selected @ ds)"
  by (induction ds arbitrary: selected) auto

lemma select_triggered_effect:
  "distinct selected \<Longrightarrow>
   distinct (select_triggered selected ts) \<and> prefix selected (select_triggered selected ts) \<and>
   set (select_triggered selected ts) = set selected \<union> {p. (True, p) \<in> set ts}"
proof (induction selected ts rule: select_triggered.induct)
  case (2 selected b p ts)
  then show ?case by (cases b; cases "p \<in> set selected") (auto dest: append_prefixD)
qed auto

lemma select_triggered_id:
  "\<forall>p. (True, p) \<in> set ts \<longrightarrow> p \<in> set selected \<Longrightarrow> select_triggered selected ts = selected"
  by (induction selected ts rule: select_triggered.induct) auto

lemma triggers_known: "(b, p) \<in> set (triggers o1) \<Longrightarrow> map_of POLICY_REGISTRY p \<noteq> None"
  by (auto simp: triggers_def Let_def POLICY_REGISTRY_def)

lemma public_content_known: "map_of POLICY_REGISTRY ''public_content'' \<noteq> None"
  by (simp add: POLICY_REGISTRY_def)

lemma select_policies_cases:
  assumes "select_policies o1 = Inr ps"
  obtains declared where
    "select_declared [''public_content''] (op_output_policy_ids (ro_provenance o1)) = Inr declared"
    "ps = select_triggered declared (triggers o1)"
  using assms by (auto simp: select_policies_def split: sum.splits)

lemma select_policies_effect:
  assumes "select_policies o1 = Inr ps"
  shows "distinct ps" and "hd ps = ''public_content''" and "ps \<noteq> []"
    and "\<forall>p. (True, p) \<in> set (triggers o1) \<longrightarrow> p \<in> set ps"
    and "set (op_output_policy_ids (ro_provenance o1)) \<subseteq> set ps"
    and "list_all (\<lambda>d. map_of POLICY_REGISTRY d \<noteq> None) ps"
proof -
  from assms obtain declared where d:
    "select_declared [''public_content''] (op_output_policy_ids (ro_provenance o1)) = Inr declared"
    "ps = select_triggered declared (triggers o1)"
    by (rule select_policies_cases)
  from select_declared_effect [OF d(1)] have e: "distinct declared" "prefix [''public_content''] declared"
    "set declared = insert ''public_content'' (set (op_output_policy_ids (ro_provenance o1)))"
    "\<forall>p \<in> set (op_output_policy_ids (ro_provenance o1)). map_of POLICY_REGISTRY p \<noteq> None"
    by auto
  from select_triggered_effect [OF e(1), of "triggers o1"] d(2)
  have t: "distinct ps" "prefix declared ps" "set ps = set declared \<union> {p. (True, p) \<in> set (triggers o1)}"
    by auto
  from e(2) t(2) have "prefix [''public_content''] ps" by (rule prefix_order.trans)
  then show "hd ps = ''public_content''" and "ps \<noteq> []" by (auto elim!: prefixE)
  from t(1) show "distinct ps" .
  from t(3) show "\<forall>p. (True, p) \<in> set (triggers o1) \<longrightarrow> p \<in> set ps" by auto
  from t(3) e(3) show "set (op_output_policy_ids (ro_provenance o1)) \<subseteq> set ps" by auto
  show "list_all (\<lambda>d. map_of POLICY_REGISTRY d \<noteq> None) ps"
    unfolding list_all_iff t(3) e(3) using e(4) triggers_known [of True _ o1] public_content_known by blast
qed

lemma run_policies_None:
  "run_policies ps o1 = None \<longleftrightarrow>
   (\<forall>p \<in> set ps. \<forall>policy. map_of POLICY_REGISTRY p = Some policy \<longrightarrow> policy o1 = None)"
  by (induction ps) (auto split: option.splits)

lemma validate_output_cases:
  assumes "validate_output outcome = Inr v"
  obtains o1 ps where "outcome = Some o1" "ro_agent_id o1 \<noteq> []" "select_policies o1 = Inr ps"
    "run_policies ps o1 = None" "v = with_policy_ids ps o1"
  using assms by (auto simp: validate_output_def split: option.splits sum.splits if_splits)

lemma with_policy_ids_simps [simp]:
  "ro_agent_id (with_policy_ids ps o1) = ro_agent_id o1"
  "ro_response (with_policy_ids ps o1) = ro_response o1"
  "op_output_policy_ids (ro_provenance (with_policy_ids ps o1)) = ps"
  "op_evidence (ro_provenance (with_policy_ids ps o1)) = op_evidence (ro_provenance o1)"
  "op_artifacts (ro_provenance (with_policy_ids ps o1)) = op_artifacts (ro_provenance o1)"
  "op_images (ro_provenance (with_policy_ids ps o1)) = op_images (ro_provenance o1)"
  "op_web_sources (ro_provenance (with_policy_ids ps o1)) = op_web_sources (ro_provenance o1)"
  "op_rich_items (ro_provenance (with_policy_ids ps o1)) = op_rich_items (ro_provenance o1)"
  "op_private_messages (ro_provenance (with_policy_ids ps o1)) = op_private_messages (ro_provenance o1)"
  "with_policy_ids ps (with_policy_ids qs o1) = with_policy_ids ps o1"
  by (simp_all add: with_policy_ids_def)

lemma validated_policy_ran:
  assumes "select_policies o1 = Inr ps" and "run_policies ps o1 = None"
    and "(True, p) \<in> set (triggers o1) \<or> p = ''public_content''"
    and "map_of POLICY_REGISTRY p = Some policy"
  shows "policy o1 = None"
proof -
  have "p \<in> set ps"
    using select_policies_effect(2,3,4) [OF assms(1)] assms(3) by (cases ps) auto
  with assms(2,4) show ?thesis unfolding run_policies_None by blast
qed

lemma artifact_policy_ran:
  assumes "artifact_provenance_policy o1 = None"
  shows "set (present (ar_tool_artifacts (ro_response o1))) \<subseteq> set (present (op_artifacts (ro_provenance o1)))"
  using assms by (auto simp: artifact_provenance_policy_def refused_def Let_def filter_empty_conv split: if_splits)

lemma image_policy_ran:
  assumes "image_delivery_policy o1 = None"
  shows "set (present (rm_images (ar_metadata (ro_response o1)))) \<subseteq> set (present (op_images (ro_provenance o1)))"
  using assms by (auto simp: image_delivery_policy_def refused_def Let_def filter_empty_conv split: if_splits)

lemma present_Nil [simp]: "present [] = []"
  by (simp add: present_def)

text \<open>What the seven policies leave of a validated answer, whatever it declared.\<close>

definition grounded :: "response_outcome \<Rightarrow> bool" where
  "grounded o1 \<longleftrightarrow>
     set (present (ar_tool_artifacts (ro_response o1))) \<subseteq> set (present (op_artifacts (ro_provenance o1))) \<and>
     set (present (rm_images (ar_metadata (ro_response o1)))) \<subseteq> set (present (op_images (ro_provenance o1))) \<and>
     set (citations (ar_content (ro_response o1))) \<subseteq> set (present (op_evidence (ro_provenance o1)))"

lemma policies_ground:
  assumes "select_policies o1 = Inr ps" and "run_policies ps o1 = None"
  shows "grounded o1"
proof -
  note ran = validated_policy_ran [OF assms]
  have "set (present (ar_tool_artifacts (ro_response o1))) \<subseteq> set (present (op_artifacts (ro_provenance o1)))"
  proof (cases "ar_tool_artifacts (ro_response o1) = []")
    case False
    then have "artifact_provenance_policy o1 = None"
      by (intro ran [of "''artifact_provenance''"]) (auto simp: triggers_def Let_def POLICY_REGISTRY_def)
    then show ?thesis by (rule artifact_policy_ran)
  qed simp
  moreover have "set (present (rm_images (ar_metadata (ro_response o1)))) \<subseteq> set (present (op_images (ro_provenance o1)))"
  proof (cases "rm_images (ar_metadata (ro_response o1)) = []")
    case False
    then have "image_delivery_policy o1 = None"
      by (intro ran [of "''image_delivery''"]) (auto simp: triggers_def Let_def POLICY_REGISTRY_def)
    then show ?thesis by (rule image_policy_ran)
  qed simp
  moreover have "set (citations (ar_content (ro_response o1))) \<subseteq> set (present (op_evidence (ro_provenance o1)))"
  proof (cases "citations (ar_content (ro_response o1)) = []")
    case False
    then have "rag_grounding_policy o1 = None"
      by (intro ran [of "''rag_grounding''"]) (auto simp: triggers_def Let_def POLICY_REGISTRY_def)
    then show ?thesis by (auto simp: rag_grounding_policy_def refused_def Let_def split: if_splits)
  qed simp
  ultimately show ?thesis by (simp add: grounded_def)
qed

lemma web_sources_cited:
  assumes "select_policies o1 = Inr ps" and "run_policies ps o1 = None"
    and "op_web_sources (ro_provenance o1) \<noteq> []"
  shows "set (present (map ws_url (op_web_sources (ro_provenance o1)))) \<inter>
    set (markdown_links (ar_content (ro_response o1))) \<noteq> {}"
proof -
  have "web_evidence_policy o1 = None"
    using assms(3) by (intro validated_policy_ran [OF assms(1,2), of "''web_evidence''"])
      (auto simp: triggers_def Let_def POLICY_REGISTRY_def)
  then show ?thesis by (auto simp: web_evidence_policy_def refused_retriable_def Let_def split: if_splits)
qed

text \<open>
  C6: a validated answer is grounded in what the runtime recorded, whatever policies its producer
  declared: every published artifact and image and every citation is recorded, a turn that read web
  pages cites one of them, and something is shown. Validation changes nothing but the list of policies
  that ran, which contains the declared ones without repetition, the always-on policy first.
\<close>

theorem validated_answer_grounded:
  assumes "validate_output (Some o1) = Inr v"
  shows "grounded v \<and>
    (op_web_sources (ro_provenance v) \<noteq> [] \<longrightarrow>
       set (present (map ws_url (op_web_sources (ro_provenance v)))) \<inter>
       set (markdown_links (ar_content (ro_response v))) \<noteq> {}) \<and>
    public_content_policy v = None \<and>
    v = with_policy_ids (op_output_policy_ids (ro_provenance v)) o1 \<and>
    distinct (op_output_policy_ids (ro_provenance v)) \<and>
    hd (op_output_policy_ids (ro_provenance v)) = ''public_content'' \<and>
    set (op_output_policy_ids (ro_provenance o1)) \<subseteq> set (op_output_policy_ids (ro_provenance v))"
proof -
  from assms obtain ps where ps: "select_policies o1 = Inr ps" "run_policies ps o1 = None"
    "v = with_policy_ids ps o1" by (rule validate_output_cases) auto
  have "public_content_policy o1 = None"
    by (rule validated_policy_ran [OF ps(1,2), of "''public_content''"]) (simp_all add: POLICY_REGISTRY_def)
  then have "public_content_policy v = None"
    by (simp add: ps(3) public_content_policy_def)
  with policies_ground [OF ps(1,2)] web_sources_cited [OF ps(1,2)] select_policies_effect [OF ps(1)]
  show ?thesis by (simp add: ps(3) grounded_def)
qed

definition demo_metadata :: response_metadata where
  "demo_metadata =
     \<lparr>rm_interrupt = False, rm_images = [], rm_canvas_artifact = PNone, rm_canvas_update = PNone,
      rm_mutation_outcome_unknown = False, rm_web_grounding_warnings = [],
      rm_runtime_agent_id = None, rm_custom_agent_name = None, rm_custom_agent_id = None\<rparr>"

definition demo_outcome :: response_outcome where
  "demo_outcome =
     \<lparr>ro_agent_id = ''rag_agent'',
      ro_response = \<lparr>ar_agent_id = ''rag_agent'', ar_content = ''See [E1].'', ar_metadata = demo_metadata,
                     ar_tool_artifacts = [Some ''a''], ar_error = None\<rparr>,
      ro_provenance = \<lparr>op_output_policy_ids = [''rag_grounding''], op_evidence = [Some ''E1''],
                       op_artifacts = [Some ''a''], op_images = [], op_web_sources = [],
                       op_rich_items = [], op_private_messages = []\<rparr>\<rparr>"

definition demo_policies :: "string list" where
  "demo_policies = [''public_content'', ''rag_grounding'', ''artifact_provenance'']"

lemma demo_citations: "citations ''See [E1].'' = [''E1'']"
  by code_simp

lemma demo_validated: "validate_output (Some demo_outcome) = Inr (with_policy_ids demo_policies demo_outcome)"
proof -
  have "select_policies demo_outcome = Inr demo_policies"
    by (simp add: select_policies_def demo_outcome_def demo_policies_def POLICY_REGISTRY_def triggers_def
        demo_citations Let_def demo_metadata_def)
  moreover have "run_policies demo_policies demo_outcome = None"
    by (simp add: demo_policies_def POLICY_REGISTRY_def public_content_policy_def demo_outcome_def Let_def
        rag_grounding_policy_def artifact_provenance_policy_def demo_citations present_def)
  ultimately show ?thesis
    by (simp add: validate_output_def) (simp add: demo_outcome_def)
qed

theorem validated_answer_grounded_witness:
  "grounded (with_policy_ids demo_policies demo_outcome) \<and>
   citations (ar_content (ro_response (with_policy_ids demo_policies demo_outcome))) = [''E1'']"
  using validated_answer_grounded [OF demo_validated] by (simp add: demo_outcome_def demo_citations)

lemma triggers_with_policy_ids [simp]: "triggers (with_policy_ids ps o1) = triggers o1"
  by (simp add: triggers_def Let_def)

lemma policy_with_policy_ids:
  "map_of POLICY_REGISTRY p = Some policy \<Longrightarrow> policy (with_policy_ids ps o1) = policy o1"
  by (auto simp: POLICY_REGISTRY_def public_content_policy_def artifact_provenance_policy_def
      image_delivery_policy_def rag_grounding_policy_def web_evidence_policy_def
      tool_message_pairing_policy_def canvas_policy_def split: if_splits)

lemma select_policies_again:
  assumes "select_policies o1 = Inr ps"
  shows "select_policies (with_policy_ids ps o1) = Inr ps"
proof -
  note e = select_policies_effect [OF assms]
  from e(2,3) obtain qs where ps: "ps = ''public_content'' # qs" by (cases ps) auto
  have skip: "select_declared [''public_content''] (''public_content'' # qs) =
      select_declared [''public_content''] qs"
    using public_content_known by auto
  have "select_declared [''public_content''] ps = Inr ps"
    using e(1,6) select_declared_known [of qs "[''public_content'']"] unfolding ps skip by simp
  then show ?thesis
    using select_triggered_id [OF e(4)] by (simp add: select_policies_def)
qed

text \<open>
  Validation is a projection. A validated answer validates again with the same result, so an
  answer carried through the pause and back is not judged by other policies the second time.
\<close>

theorem validation_idempotent:
  assumes "validate_output outcome = Inr v"
  shows "validate_output (Some v) = Inr v"
proof -
  from assms obtain o1 ps where ps: "ro_agent_id o1 \<noteq> []" "select_policies o1 = Inr ps"
    "run_policies ps o1 = None" "v = with_policy_ids ps o1" by (rule validate_output_cases) auto
  from ps(3) have "run_policies ps v = None"
    unfolding run_policies_None ps(4) using policy_with_policy_ids by metis
  with ps(1) select_policies_again [OF ps(2)] show ?thesis
    by (simp add: validate_output_def ps(4))
qed

theorem validation_idempotent_witness:
  "validate_output (Some (with_policy_ids demo_policies demo_outcome)) =
   Inr (with_policy_ids demo_policies demo_outcome)"
  by (rule validation_idempotent [OF demo_validated])

text \<open>
  The finalizer of worker output never returns a result: whatever the outcome and whether it
  validates, it builds the result without its dispatch and position, which are required.
\<close>

theorem worker_finalize_raises: "worker_finalize outcome task_id = None"
  by (simp add: worker_finalize_def make_worker_result_def split: sum.split)

section \<open>The end of a turn\<close>

lemma dump_budget_exhausted:
  "truthy (pget (dump_budget s) ''exhausted_by'') \<longleftrightarrow> bs_exhausted_by s \<noteq> None"
  by (cases "bs_exhausted_by s"; cases "the (bs_exhausted_by s)")
    (auto simp: pget_def dump_budget_def)

lemma pause_offered_iff:
  assumes "gs_execution_budget st = Some (dump_budget s)" and "read (dump_budget s) = Some s"
    and "limits_from_settings settings = Some l"
  shows "nc_goto (validate_output_node read settings st) = ''continuation_pause'' \<longleftrightarrow>
    (\<exists>v. validate_output (gs_agent_outcome st) = Inr v) \<and> bs_exhausted_by s \<noteq> None \<and>
    bs_epochs_used s < bl_total_epochs_per_turn l"
  using assms
  by (auto simp: validate_output_node_def is_continuable_def dump_budget_exhausted can_begin_epoch_def
      epochs_remaining_def new_accountant_def split: sum.splits)

text \<open>
  A Continue is offered for a validated answer only, and exactly when its epoch was exhausted
  while the turn still has an epoch left; everything else leaves by the one finalization boundary, a
  rejected answer with the typed reason and nothing of its text.
\<close>

theorem pause_offered_exactly:
  assumes "gs_execution_budget st = Some (dump_budget s)" and "read (dump_budget s) = Some s"
    and "limits_from_settings settings = Some l"
  shows "(nc_goto (validate_output_node read settings st) = ''continuation_pause'' \<longleftrightarrow>
      (\<exists>v. validate_output (gs_agent_outcome st) = Inr v) \<and> bs_exhausted_by s \<noteq> None \<and>
      bs_epochs_used s < bl_total_epochs_per_turn l) \<and>
    nc_goto (validate_output_node read settings st) \<in> {''continuation_pause'', ''finalize''} \<and>
    (\<forall>e. validate_output (gs_agent_outcome st) = Inl e \<longrightarrow>
       nc_agent_outcome (validate_output_node read settings st) = None \<and>
       nc_workflow_error (validate_output_node read settings st) =
         Some (make_workflow_error ResponseValidationFailed (request_id_of st)
           (PDict [(''reason'', PStr (oe_reason e)),
             (''agent'', (case gs_agent_outcome st of None \<Rightarrow> PNone | Some o1 \<Rightarrow> PStr (ro_agent_id o1)))])
           (Some (oe_retriable e))))"
  using pause_offered_iff [where read = read, OF assms]
  by (auto simp: validate_output_node_def rejection_of_def split: sum.splits)

text \<open>A reader of dumped budgets, as the witnesses use it.\<close>

definition read_int :: "(string \<times> pyval) list \<Rightarrow> string \<Rightarrow> int" where
  "read_int d k = (case pget d k of PInt i \<Rightarrow> i | _ \<Rightarrow> 0)"

definition read_budget :: "(string \<times> pyval) list \<Rightarrow> budget_state option" where
  "read_budget d = Some
     \<lparr>bs_execution_epoch = read_int d ''execution_epoch'', bs_model_calls = read_int d ''model_calls'',
      bs_tool_calls = read_int d ''tool_calls'', bs_forced_synthesis = truthy (pget d ''forced_synthesis''),
      bs_exhausted_by = find (\<lambda>r. pget d ''exhausted_by'' = PStr (reason_value r))
        [ModelCalls, ToolCalls, HardLimit],
      bs_turn_model_calls = read_int d ''turn_model_calls'',
      bs_turn_planning_model_calls = read_int d ''turn_planning_model_calls'',
      bs_turn_tool_calls = read_int d ''turn_tool_calls'', bs_epochs_used = read_int d ''epochs_used''\<rparr>"

lemma read_dumped_reason:
  "find (\<lambda>r. (case b of None \<Rightarrow> PNone | Some r \<Rightarrow> PStr (reason_value r)) = PStr (reason_value r))
     [ModelCalls, ToolCalls, HardLimit] = b"
  by (cases b; cases "the b") auto

lemma read_budget_dump: "read_budget (dump_budget s) = Some s"
  by (simp add: read_budget_def dump_budget_def pget_def read_int_def read_dumped_reason del: find.simps)

definition demo_turn :: "budget_state \<Rightarrow> turn_state" where
  "demo_turn s =
     \<lparr>gs_agent_outcome = Some demo_outcome, gs_workflow_error = None, gs_execution_phase = ''validating'',
      gs_execution_budget = Some (dump_budget s), gs_execution_epoch = 0, gs_request_id = ''r1'',
      gs_logical_turn_id = Some ''t1'', gs_assistant_message_id = Some ''m1'',
      gs_routing_decision = None, gs_inventory_version = None, gs_agent_history = [],
      gs_active_agent_id = Some ''rag_agent'', gs_custom_agents = [], gs_carried_messages = [],
      gs_carried_web_sources = []\<rparr>"

definition default_limits :: budget_limits where
  "default_limits =
     \<lparr>bl_soft_model_calls = 200, bl_hard_model_calls = 240, bl_soft_tool_calls = 400,
      bl_hard_tool_calls = 480, bl_total_epochs_per_turn = 50\<rparr>"

lemma default_limits: "limits_from_settings (\<lambda>_. None) = Some default_limits"
  by (simp add: limits_from_settings_def setting_def DEFAULT_LIMITS_def limits_valid_def default_limits_def)

theorem pause_offered_exactly_witness:
  "nc_goto (validate_output_node read_budget (\<lambda>_. None)
     (demo_turn (force ModelCalls fresh_budget))) = ''continuation_pause''"
proof -
  have "gs_execution_budget (demo_turn (force ModelCalls fresh_budget)) =
      Some (dump_budget (force ModelCalls fresh_budget))"
    by (simp add: demo_turn_def)
  from pause_offered_exactly [where read = read_budget, OF this read_budget_dump default_limits] demo_validated
  show ?thesis by (auto simp: demo_turn_def fresh_budget_def default_limits_def force_def)
qed

definition failed_update :: "final_update \<Rightarrow> bool" where
  "failed_update u \<longleftrightarrow>
     fu_messages u = [] \<and> pr_content (fu_response u) = [] \<and> fu_execution_phase u = ''failed'' \<and>
     fu_workflow_error u \<noteq> None \<and> fu_final_agent_id u = None \<and>
     pr_error (fu_response u) = map_option (code_value \<circ> we_code) (fu_workflow_error u)"

lemma failed_update_failure: "failed_update (finalize_failure st we)"
  by (simp add: failed_update_def finalize_failure_def Let_def)

lemma finalize_failure_error:
  "fu_workflow_error (finalize_failure st (Some e)) = Some e"
  by (simp add: finalize_failure_def Let_def)

lemma build_response_simps [simp]:
  "pr_content (build_response st o1) = ar_content (ro_response o1)"
  "pr_error (build_response st o1) = ar_error (ro_response o1)"
  "pr_validation (build_response st o1) \<noteq> None"
  by (simp_all add: build_response_def Let_def)

text \<open>
  C7: an assistant message reaches the conversation only for a validated answer, of a turn without an
  error, under the id reserved for it, with exactly the validated text. In every other case the turn
  ends failed: no message, no text, and a response that names the error, for a rejected answer the
  sanitised rejection.
\<close>

theorem published_only_validated:
  "let u = finalize (apply_node (validate_output_node read settings st) st)
   in case validate_output (gs_agent_outcome st) of
        Inr v \<Rightarrow>
          if gs_workflow_error st = None \<and> truthy_str (gs_assistant_message_id st)
          then fu_messages u = [(the (gs_assistant_message_id st), ar_content (ro_response v))] \<and>
               pr_content (fu_response u) = ar_content (ro_response v) \<and>
               fu_final_agent_id u = Some (ro_agent_id v) \<and> fu_execution_phase u = ''completed'' \<and>
               fu_workflow_error u = None
          else failed_update u
      | Inl e \<Rightarrow> failed_update u \<and> fu_workflow_error u = Some (rejection_of e st)"
proof (cases "validate_output (gs_agent_outcome st)")
  case (Inl e)
  have "finalize (apply_node (validate_output_node read settings st) st) =
      finalize_failure (apply_node (validate_output_node read settings st) st) (Some (rejection_of e st))"
    by (simp add: finalize_def validate_output_node_def Inl apply_node_def)
  with Inl failed_update_failure finalize_failure_error show ?thesis by (simp add: Let_def)
next
  case (Inr v)
  let ?st = "apply_node (validate_output_node read settings st) st"
  have st: "gs_agent_outcome ?st = Some v" "gs_workflow_error ?st = gs_workflow_error st"
    "gs_assistant_message_id ?st = gs_assistant_message_id st" "gs_execution_phase ?st \<noteq> ''failed''"
    by (simp_all add: validate_output_node_def Inr apply_node_def)
  show ?thesis
  proof (cases "gs_workflow_error st = None \<and> truthy_str (gs_assistant_message_id st)")
    case True
    then have "finalize ?st = finalize_success ?st" using st by (simp add: finalize_def)
    with True Inr st show ?thesis by (simp add: finalize_success_def Let_def)
  next
    case False
    have "failed_update (finalize ?st)"
    proof (cases "gs_workflow_error st = None")
      case True
      with False st show ?thesis
        by (simp add: finalize_def finalize_success_def failure_update_def failed_update_failure)
    qed (simp add: finalize_def st failed_update_failure)
    with False Inr show ?thesis by (auto simp: Let_def)
  qed
qed

end
