(* ===== verification/TodoActions.thy ===== *)
theory TodoActions
  imports PyText
begin

text \<open>
  \<^verbatim>\<open>app/ai/todo_actions.py\<close>: the actions of the \<^verbatim>\<open>write_todos\<close> tool on a plan. A todo is the dictionary
  the model sent, completed by \<^verbatim>\<open>coerce_todo_item\<close>; a plan is the list of its todos and the index of the
  current one. The arguments of a call are JSON values. The identifiers \<^verbatim>\<open>uuid4\<close> would draw during a
  call and \<^verbatim>\<open>json.loads\<close> are arguments (\<open>None\<close> is its decode error).
\<close>

section \<open>Todos\<close>

type_synonym todo = "(string, pyval) dict"

text \<open>\<^verbatim>\<open>int(v)\<close>: \<open>None\<close> where it raises a \<^verbatim>\<open>TypeError\<close> or a \<^verbatim>\<open>ValueError\<close>.\<close>

fun int_of_value :: "pyval \<Rightarrow> int option" where
  "int_of_value (PInt i) = Some i"
| "int_of_value (PBool b) = Some (if b then 1 else 0)"
| "int_of_value (PStr s) = py_int s"
| "int_of_value v = None"

definition as_dict :: "(string \<Rightarrow> pyval option) \<Rightarrow> pyval \<Rightarrow> todo" where
  "as_dict loads v =
     (case v of
        PDict d \<Rightarrow> d
      | PStr s \<Rightarrow> (case loads s of Some (PDict d) \<Rightarrow> d | _ \<Rightarrow> [])
      | _ \<Rightarrow> [])"

definition normalize_action :: "pyval \<Rightarrow> string" where
  "normalize_action v =
     lower (py_strip (case v of PStr s \<Rightarrow> s | _ \<Rightarrow> if truthy v then py_text v else []))"

definition coerce_todo_item :: "string \<Rightarrow> nat \<Rightarrow> pyval \<Rightarrow> todo" where
  "coerce_todo_item fresh_id fallback_order raw =
     (let t0 = (case raw of PDict d \<Rightarrow> d | _ \<Rightarrow> [(''description'', PStr (py_text raw))]);
          t1 = AList.update ''id''
                 (PStr (if truthy (pget t0 ''id'') then py_text (pget t0 ''id'') else fresh_id)) t0;
          status = (case map_of t1 ''status'' of None \<Rightarrow> ''pending'' | Some v \<Rightarrow> py_text v);
          t2 = AList.update ''status'' (PStr (if status = [] then ''pending'' else status)) t1;
          order = (case map_of t2 ''order'' of None \<Rightarrow> PInt (int fallback_order) | Some v \<Rightarrow> v);
          t3 = AList.update ''order''
                 (PInt (case int_of_value order of None \<Rightarrow> int fallback_order | Some i \<Rightarrow> i)) t2
      in AList.update ''description''
           (PStr (if pget t3 ''description'' \<noteq> PNone then py_text (pget t3 ''description'') else [])) t3)"

text \<open>A status as it is read: a missing one is pending to the search and \<^verbatim>\<open>None\<close> elsewhere.\<close>

definition search_status :: "todo \<Rightarrow> string" where
  "search_status t = (case map_of t ''status'' of None \<Rightarrow> ''pending'' | Some v \<Rightarrow> py_text v)"

definition status_value_of :: "todo \<Rightarrow> string" where
  "status_value_of t = py_text (pget t ''status'')"

definition todo_key :: "todo \<Rightarrow> string" where
  "todo_key t = py_text (pget t ''id'')"

definition set_status :: "string \<Rightarrow> todo \<Rightarrow> todo" where
  "set_status s t = AList.update ''status'' (PStr s) t"

definition find_active_or_next_task :: "todo list \<Rightarrow> nat \<Rightarrow> nat option" where
  "find_active_or_next_task todos start =
     (let look = (\<lambda>s. find (\<lambda>i. search_status (todos ! i) = s) [start..<length todos])
      in case look ''in_progress'' of Some i \<Rightarrow> Some i | None \<Rightarrow> look ''pending'')"

text \<open>The first todo of an id.\<close>

definition index_of_todo :: "string \<Rightarrow> todo list \<Rightarrow> nat option" where
  "index_of_todo key todos = find (\<lambda>i. todo_key (todos ! i) = key) [0..<length todos]"

definition described :: "todo \<Rightarrow> pyval \<Rightarrow> string" where
  "described t otherwise = py_text (case map_of t ''description'' of None \<Rightarrow> otherwise | Some v \<Rightarrow> v)"

text \<open>\<^verbatim>\<open>{**todo, **changes}\<close>.\<close>

definition merged_todo :: "todo \<Rightarrow> todo \<Rightarrow> todo" where
  "merged_todo t changes = fold (\<lambda>(k, v). AList.update k v) changes t"

section \<open>The actions\<close>

text \<open>An action gives the plan, the current index and the message for the model.\<close>

type_synonym todo_result = "todo list \<times> nat option \<times> string"

definition not_found :: "pyval \<Rightarrow> string" where
  "not_found key = ''Todo with id '' @ py_text key @ '' not found''"

definition set_todos :: "(nat \<Rightarrow> string) \<Rightarrow> nat \<Rightarrow> todo \<Rightarrow> todo list \<Rightarrow> nat option \<Rightarrow> todo_result" where
  "set_todos fresh max_todos args todos current =
     (case (case map_of args ''todos'' of None \<Rightarrow> PList [] | Some v \<Rightarrow> v) of
        PList new_todos \<Rightarrow>
          if length new_todos > max_todos
          then (todos, current, ''Error: Plan exceeds maximum of '' @ nat_text max_todos @
                  '' todos (requested '' @ nat_text (length new_todos) @
                  ''). Please reduce the number of tasks.'')
          else (let coerced = map (\<lambda>(i, t). coerce_todo_item (fresh i) i t) (enumerate 0 new_todos)
                in (coerced, find_active_or_next_task coerced 0,
                    ''Set '' @ nat_text (length coerced) @ '' todos in the plan.''))
      | _ \<Rightarrow> (todos, current, ''Error: Invalid todos payload''))"

definition add_todo :: "(nat \<Rightarrow> string) \<Rightarrow> nat \<Rightarrow> todo \<Rightarrow> todo list \<Rightarrow> nat option \<Rightarrow> todo_result" where
  "add_todo fresh max_todos args todos current =
     (if \<not> truthy (pget args ''todo'')
      then (todos, current, ''Error: No todo provided for ADD_TODO'')
      else (let new_todo = coerce_todo_item (fresh 0) (length todos) (pget args ''todo'');
                appended = todos @ [new_todo]
            in (if length appended > max_todos then take max_todos appended else appended, current,
                ''Added todo: '' @ described new_todo (PStr ''unknown''))))"

definition complete_todo :: "todo \<Rightarrow> todo list \<Rightarrow> nat option \<Rightarrow> todo_result" where
  "complete_todo args todos current =
     (let key = pget args ''todo_id'' in
      if \<not> truthy key then (todos, current, ''Error: todo_id required for COMPLETE_TODO'')
      else case index_of_todo (py_text key) todos of
             None \<Rightarrow> (todos, current, not_found key)
           | Some i \<Rightarrow>
               (let todos' = todos[i := set_status ''completed'' (todos ! i)]
                in (todos', if current = Some i then find_active_or_next_task todos' i else current,
                    ''Completed todo: '' @ described (todos' ! i) key)))"

definition start_todo :: "todo \<Rightarrow> todo list \<Rightarrow> nat option \<Rightarrow> todo_result" where
  "start_todo args todos current =
     (let key = pget args ''todo_id'' in
      if \<not> truthy key then (todos, current, ''Error: todo_id required for START_TODO'')
      else (let demoted = map (\<lambda>t. if status_value_of t = ''in_progress'' then set_status ''pending'' t else t) todos
            in case index_of_todo (py_text key) demoted of
                 None \<Rightarrow> (demoted, current, not_found key)
               | Some i \<Rightarrow> (demoted[i := set_status ''in_progress'' (demoted ! i)], Some i,
                   ''Started todo: '' @ described (demoted ! i) key)))"

definition update_todo ::
  "(string \<Rightarrow> pyval option) \<Rightarrow> todo \<Rightarrow> todo list \<Rightarrow> nat option \<Rightarrow> todo_result" where
  "update_todo loads args todos current =
     (let changes = as_dict loads (pget args ''todo''); key = pget changes ''id'' in
      if \<not> truthy key then (todos, current, ''Error: todo.id required for UPDATE_TODO'')
      else case index_of_todo (py_text key) todos of
             None \<Rightarrow> (todos, current, not_found key)
           | Some i \<Rightarrow>
               (let t = merged_todo (todos ! i) changes; todos1 = todos[i := t];
                    message = ''Updated todo: '' @ py_text key
                in if status_value_of t = ''in_progress''
                   then (map (\<lambda>(j, u). if j \<noteq> i \<and> status_value_of u = ''in_progress''
                                       then set_status ''pending'' u else u) (enumerate 0 todos1), Some i, message)
                   else (todos1, current, message)))"

definition remove_todo :: "todo \<Rightarrow> todo list \<Rightarrow> nat option \<Rightarrow> todo_result" where
  "remove_todo args todos current =
     (let key = pget args ''todo_id'' in
      if \<not> truthy key then (todos, current, ''Error: todo_id required for REMOVE_TODO'')
      else case index_of_todo (py_text key) todos of
             None \<Rightarrow> (todos, current, not_found key)
           | Some i \<Rightarrow>
               (let todos' = take i todos @ drop (Suc i) todos
                in (todos',
                    (case current of
                       None \<Rightarrow> None
                     | Some c \<Rightarrow> if i < c then Some (c - 1)
                                else if i = c then find_active_or_next_task todos' (i - 1) else Some c),
                    ''Removed todo: '' @ py_text key)))"

definition apply_write_todos_action ::
  "(string \<Rightarrow> pyval option) \<Rightarrow> (nat \<Rightarrow> string) \<Rightarrow> nat \<Rightarrow> todo \<Rightarrow> todo list \<Rightarrow> nat option
     \<Rightarrow> todo_result \<times> string" where
  "apply_write_todos_action loads fresh max_todos args todos current =
     (let action = normalize_action (pget args ''action'') in
      (if action = ''set_todos'' then set_todos fresh max_todos args todos current
       else if action = ''add_todo'' then add_todo fresh max_todos args todos current
       else if action = ''complete_todo'' then complete_todo args todos current
       else if action = ''start_todo'' then start_todo args todos current
       else if action = ''update_todo'' then update_todo loads args todos current
       else if action = ''remove_todo'' then remove_todo args todos current
       else (todos, current, ''Unknown action: '' @ action), action))"

text \<open>
  The dictionaries of the result are those of the caller's list wherever an action only writes a
  status: the caller sees the change in its own list. For each todo of the result \<open>shared\<close> is the place
  of the caller's dictionary it is, \<open>None\<close> for a new or an updated one.
\<close>

definition shared_after ::
  "(string \<Rightarrow> pyval option) \<Rightarrow> nat \<Rightarrow> todo \<Rightarrow> todo list \<Rightarrow> nat option list \<Rightarrow> nat option list" where
  "shared_after loads max_todos args todos shared =
     (let action = normalize_action (pget args ''action'') in
      if action = ''set_todos''
      then (case (case map_of args ''todos'' of None \<Rightarrow> PList [] | Some v \<Rightarrow> v) of
              PList new_todos \<Rightarrow> if length new_todos > max_todos then shared else replicate (length new_todos) None
            | _ \<Rightarrow> shared)
      else if action = ''add_todo'' \<and> truthy (pget args ''todo'') then take max_todos (shared @ [None])
      else if action = ''update_todo'' \<and> truthy (pget (as_dict loads (pget args ''todo'')) ''id'')
      then (case index_of_todo (py_text (pget (as_dict loads (pget args ''todo'')) ''id'')) todos of
              None \<Rightarrow> shared | Some i \<Rightarrow> shared[i := None])
      else if action = ''remove_todo'' \<and> truthy (pget args ''todo_id'')
      then (case index_of_todo (py_text (pget args ''todo_id'')) todos of
              None \<Rightarrow> shared | Some i \<Rightarrow> take i shared @ drop (Suc i) shared)
      else shared)"

definition write_shared :: "nat option list \<Rightarrow> todo list \<Rightarrow> todo list \<Rightarrow> todo list" where
  "write_shared shared todos callers =
     fold (\<lambda>(place, t) ts. case place of None \<Rightarrow> ts | Some k \<Rightarrow> ts[k := t]) (zip shared todos) callers"

section \<open>Indices\<close>

lemma find_index:
  assumes "find P [a..<b] = Some i"
  shows "a \<le> i" and "i < b" and "P i" and "\<And>j. a \<le> j \<Longrightarrow> j < i \<Longrightarrow> \<not> P j"
proof -
  obtain n where n: "n < length [a..<b]" "P ([a..<b] ! n)" "i = [a..<b] ! n" "\<forall>j<n. \<not> P ([a..<b] ! j)"
    using assms by (auto simp: find_Some_iff)
  then show "a \<le> i" "i < b" "P i" by auto
  fix j assume "a \<le> j" "j < i"
  with n(1,3) have "j - a < n" "[a..<b] ! (j - a) = j" by auto
  with n(4) show "\<not> P j" by metis
qed

lemma index_of_todo_less: "index_of_todo key todos = Some i \<Longrightarrow> i < length todos"
  unfolding index_of_todo_def by (rule find_index(2))

lemma find_active_less: "find_active_or_next_task todos start = Some i \<Longrightarrow> i < length todos"
  unfolding find_active_or_next_task_def Let_def by (auto split: option.splits dest: find_index(2))

lemma find_active_Nil [simp]: "find_active_or_next_task [] start = None"
  by (simp add: find_active_or_next_task_def)

text \<open>A plan in order: within the cap, with the current index inside.\<close>

definition plan_ok :: "nat \<Rightarrow> todo list \<Rightarrow> nat option \<Rightarrow> bool" where
  "plan_ok max_todos todos current \<longleftrightarrow>
     length todos \<le> max_todos \<and> (\<forall>i. current = Some i \<longrightarrow> i < length todos)"

lemma set_todos_ok: "plan_ok m todos c \<Longrightarrow> set_todos fresh m args todos c = (todos', c', msg) \<Longrightarrow> plan_ok m todos' c'"
  by (auto simp: set_todos_def plan_ok_def Let_def dest: find_active_less split: pyval.splits option.splits if_splits)

lemma add_todo_ok: "plan_ok m todos c \<Longrightarrow> add_todo fresh m args todos c = (todos', c', msg) \<Longrightarrow> plan_ok m todos' c'"
  by (auto simp: add_todo_def plan_ok_def Let_def split: if_splits)

lemma complete_todo_ok: "plan_ok m todos c \<Longrightarrow> complete_todo args todos c = (todos', c', msg) \<Longrightarrow> plan_ok m todos' c'"
  by (auto simp: complete_todo_def plan_ok_def Let_def dest: find_active_less split: option.splits if_splits)

lemma start_todo_ok: "plan_ok m todos c \<Longrightarrow> start_todo args todos c = (todos', c', msg) \<Longrightarrow> plan_ok m todos' c'"
  by (auto simp: start_todo_def plan_ok_def Let_def dest: index_of_todo_less split: option.splits if_splits)

lemma update_todo_ok: "plan_ok m todos c \<Longrightarrow> update_todo loads args todos c = (todos', c', msg) \<Longrightarrow> plan_ok m todos' c'"
  by (auto simp: update_todo_def plan_ok_def Let_def dest: index_of_todo_less split: option.splits if_splits)

lemma remove_todo_ok:
  assumes "plan_ok m todos c" and "remove_todo args todos c = (todos', c', msg)"
  shows "plan_ok m todos' c'"
proof (cases "truthy (pget args ''todo_id'') \<and> index_of_todo (py_text (pget args ''todo_id'')) todos \<noteq> None")
  case True
  then obtain i where i: "index_of_todo (py_text (pget args ''todo_id'')) todos = Some i" by auto
  from index_of_todo_less [OF this] have "i < length todos" .
  with True i assms show ?thesis
    by (auto simp: remove_todo_def plan_ok_def Let_def dest: find_active_less split: option.splits if_splits)
next
  case False
  with assms show ?thesis by (auto simp: remove_todo_def Let_def split: option.splits if_splits)
qed

lemmas action_ok = set_todos_ok add_todo_ok complete_todo_ok start_todo_ok update_todo_ok remove_todo_ok

lemma apply_action_ok:
  assumes "plan_ok m todos c" and "apply_write_todos_action loads fresh m args todos c = ((todos', c', msg), action)"
  shows "plan_ok m todos' c'"
  using assms unfolding apply_write_todos_action_def Let_def
  by (auto split: if_splits intro: action_ok)

section \<open>Statuses\<close>

lemma status_set [simp]: "status_value_of (set_status s t) = s"
  by (simp add: status_value_of_def set_status_def pget_def update_conv')

lemma key_set_status [simp]: "todo_key (set_status s t) = todo_key t"
  by (simp add: todo_key_def set_status_def pget_def update_conv')

text \<open>Starting a todo makes it, the first of its id, the only one in progress.\<close>

lemma start_todo_only:
  assumes "truthy (pget args ''todo_id'')" and "index_of_todo (py_text (pget args ''todo_id'')) todos = Some i"
    and "start_todo args todos c = (todos', c', msg)"
  shows "c' = Some i \<and> length todos' = length todos \<and>
    (\<forall>j < length todos'. status_value_of (todos' ! j) = ''in_progress'' \<longleftrightarrow> j = i)"
proof -
  let ?d = "map (\<lambda>t. if status_value_of t = ''in_progress'' then set_status ''pending'' t else t) todos"
  have "index_of_todo k ?d = index_of_todo k todos" for k
    unfolding index_of_todo_def by (rule find_cong) auto
  with assms(2,3) assms(1) have out: "todos' = ?d[i := set_status ''in_progress'' (?d ! i)]" "c' = Some i"
    by (auto simp: start_todo_def Let_def)
  with index_of_todo_less [OF assms(2)] show ?thesis by (auto simp: nth_list_update)
qed

text \<open>
  At the cap a new todo is appended and cut off again: the plan stays as it was and the model is told
  the todo was added.
\<close>

lemma add_todo_at_cap:
  assumes "length todos = m" and "truthy (pget args ''todo'')" and "add_todo fresh m args todos c = (todos', c', msg)"
  shows "todos' = todos \<and> prefix ''Added todo: '' msg"
  using assms by (auto simp: add_todo_def Let_def)

section \<open>Runs\<close>

fun run_todo_actions ::
  "(string \<Rightarrow> pyval option) \<Rightarrow> nat \<Rightarrow> ((nat \<Rightarrow> string) \<times> todo) list \<Rightarrow> todo list \<Rightarrow> nat option
     \<Rightarrow> todo list \<times> nat option" where
  "run_todo_actions loads m [] todos c = (todos, c)"
| "run_todo_actions loads m ((fresh, args) # calls) todos c =
     (let ((todos', c', msg), action) = apply_write_todos_action loads fresh m args todos c
      in run_todo_actions loads m calls todos' c')"

lemma run_todo_actions_ok:
  "plan_ok m todos c \<Longrightarrow> run_todo_actions loads m calls todos c = (todos', c') \<Longrightarrow> plan_ok m todos' c'"
proof (induction calls arbitrary: todos c)
  case (Cons call calls)
  obtain fresh args where call: "call = (fresh, args)" by fastforce
  obtain t1 c1 msg action where a: "apply_write_todos_action loads fresh m args todos c = ((t1, c1, msg), action)"
    by (metis prod.collapse)
  from Cons.IH [OF apply_action_ok [OF Cons.prems(1) a]] Cons.prems(2) show ?case by (simp add: call a)
qed simp

text \<open>
  Whatever \<^verbatim>\<open>write_todos\<close> calls the model makes, the plan stays within the cap and the current index
  points into it; and a \<^verbatim>\<open>start_todo\<close> that finds its todo leaves exactly that one in progress, as the
  current one.
\<close>

theorem todo_plan_consistent:
  assumes "plan_ok m todos c" and "run_todo_actions loads m calls todos c = (todos', c')"
  shows "plan_ok m todos' c' \<and>
    (\<forall>fresh args i todos2 c2 msg action.
       apply_write_todos_action loads fresh m args todos' c' = ((todos2, c2, msg), action) \<and> action = ''start_todo'' \<and>
       truthy (pget args ''todo_id'') \<and> index_of_todo (py_text (pget args ''todo_id'')) todos' = Some i \<longrightarrow>
       c2 = Some i \<and> (\<forall>j < length todos2. status_value_of (todos2 ! j) = ''in_progress'' \<longleftrightarrow> j = i))"
  using run_todo_actions_ok [OF assms] start_todo_only
  by (auto simp: apply_write_todos_action_def Let_def)

definition sample_todo_calls :: "((nat \<Rightarrow> string) \<times> todo) list" where
  "sample_todo_calls =
     [(\<lambda>_. ''u'', [(''action'', PStr ''add_todo''), (''todo'', PStr ''x'')]),
      (\<lambda>_. ''u'', [(''action'', PStr ''start_todo''), (''todo_id'', PStr ''u'')])]"

theorem todo_plan_consistent_witness:
  "plan_ok 2 (fst (run_todo_actions (\<lambda>_. None) 2 sample_todo_calls [] None))
     (snd (run_todo_actions (\<lambda>_. None) 2 sample_todo_calls [] None))"
proof (rule todo_plan_consistent [THEN conjunct1])
  show "plan_ok 2 [] None" by (simp add: plan_ok_def)
  show "run_todo_actions (\<lambda>_. None) 2 sample_todo_calls [] None =
    (fst (run_todo_actions (\<lambda>_. None) 2 sample_todo_calls [] None),
     snd (run_todo_actions (\<lambda>_. None) 2 sample_todo_calls [] None))" by simp
qed

end
