(* ===== verification/Planning.thy ===== *)
theory Planning
  imports Finalization TodoActions WorkflowRouting ExecutionBudget
begin

text \<open>
  \<^verbatim>\<open>app/ai/workflow/planning_execution.py\<close>: Planning as an orchestrator, the six nodes of the outer graph
  that plan, delegate to workers and package the answer, with the applier of todo calls of
  \<^verbatim>\<open>app/ai/graph.py\<close>. A node returns the new state and the node it goes to; \<open>None\<close> is a validation error of
  Pydantic that the node does not catch. What the model answers, how a worker ends and the steps the graph has left
  are inputs of the nodes; the agent inventory, SHA-256, the readers of Pydantic and of JSON, the
  review of a plan and the removal of rich markers are in the environment. Events, metrics and
  logging are left out. New messages are appended, which is what the graph's message channel does with
  messages of new ids.
\<close>

section \<open>Data\<close>

definition PLANNING_AGENT_ID :: string where
  "PLANNING_AGENT_ID = ''planning_agent''"

definition DISPATCH_CONTROL_TOOL_NAME :: string where
  "DISPATCH_CONTROL_TOOL_NAME = ''dispatch_subagents''"

definition WRITE_TODOS_TOOL_NAME :: string where
  "WRITE_TODOS_TOOL_NAME = ''write_todos''"

definition NOT_RUN_THIS_TURN :: string where
  "NOT_RUN_THIS_TURN = ''not_run_this_turn''"

definition HARD_LIMIT_PARTIAL_TEXT :: string where
  "HARD_LIMIT_PARTIAL_TEXT =
     ''I reached this turn'' @ [CHR 0x27] @ ''s execution limit before finishing. Anything I '' @
     ''already gathered is kept, and continuing the turn resumes from there.''"

definition PLAN_MODIFYING_ACTIONS :: "string set" where
  "PLAN_MODIFYING_ACTIONS = {''set_todos'', ''add_todo'', ''update_todo'', ''remove_todo''}"

definition EXECUTION_ACTIONS :: "string set" where
  "EXECUTION_ACTIONS = {''start_todo'', ''complete_todo''}"

definition PLANNING_ANSWER_STEPS :: int where
  "PLANNING_ANSWER_STEPS = 4"

definition PLANNING_ROUND_TRIP_STEPS :: int where
  "PLANNING_ROUND_TRIP_STEPS = 4"

record planning_limits =
  pl_max_tasks :: nat
  pl_max_concurrency :: nat
  pl_max_dispatch_waves :: nat
  pl_objective_max_chars :: nat
  pl_parent_context_max_chars :: nat

text \<open>\<open>None\<close> is the validation error of a bound out of its range.\<close>

definition planning_limits_from_settings :: "(string \<Rightarrow> int option) \<Rightarrow> planning_limits option" where
  "planning_limits_from_settings settings =
     (let get = (\<lambda>name otherwise. case settings name of None \<Rightarrow> otherwise | Some v \<Rightarrow> v);
          tasks = get ''planning_worker_max_tasks'' 8;
          concurrency = get ''planning_worker_max_concurrency'' 4;
          waves = get ''planning_worker_max_dispatch_waves'' 2;
          objective = get ''planning_worker_objective_max_chars'' 4000;
          parent_chars = get ''planning_parent_context_max_chars'' 12000
      in if 0 < tasks \<and> tasks \<le> 64 \<and> 0 < concurrency \<and> concurrency \<le> 32 \<and> 0 < waves \<and> waves \<le> 8 \<and>
            0 < objective \<and> objective \<le> 64000 \<and> 0 < parent_chars \<and> parent_chars \<le> 200000
         then Some \<lparr>pl_max_tasks = nat tasks, pl_max_concurrency = nat concurrency,
                    pl_max_dispatch_waves = nat waves, pl_objective_max_chars = nat objective,
                    pl_parent_context_max_chars = nat parent_chars\<rparr>
         else None)"

record call_request =
  cr_id :: "string option"
  cr_name :: "string option"
  cr_args :: "(string, pyval) dict"

definition call_id :: "call_request \<Rightarrow> string" where
  "call_id c = (if truthy_str (cr_id c) then the (cr_id c) else [])"

definition call_name :: "string \<Rightarrow> call_request \<Rightarrow> string" where
  "call_name otherwise c = (if truthy_str (cr_name c) then the (cr_name c) else otherwise)"

text \<open>The messages of the turn; a tool result has the id of its message when the code gives it one.\<close>

datatype planning_message =
    UserText string
  | AgentTurn string "call_request list"
  | ToolResult "string option" tool_message

record task_proposal =
  tp_task_id :: string
  tp_objective :: string
  tp_agent_id :: string
  tp_related_todo_ids :: "string list"

record parent_context =
  pc_task_plan_id :: "string option"
  pc_plan_summary :: string
  pc_todos :: "(string \<times> string \<times> string) list"

record worker_task =
  wt_dispatch_id :: string
  wt_task_id :: string
  wt_position :: int
  wt_objective :: string
  wt_agent_id :: string
  wt_parent_context :: parent_context
  wt_allowed_tool_ids :: "string list"
  wt_model_request :: "(string, pyval) dict option"
  wt_related_todo_ids :: "string list"

record planning_dispatch =
  pd_dispatch_id :: string
  pd_tool_call_id :: string
  pd_wave :: nat
  pd_tasks :: "worker_task list"

type_synonym worker_output = "(string, pyval) dict worker_result"

text \<open>The channels of the graph state that Planning reads and writes.\<close>

record planning_state =
  ps_messages :: "planning_message list"
  ps_todos :: "todo list"
  ps_current_task_index :: "nat option"
  ps_planning_phase :: "string option"
  ps_context :: "(string, pyval) dict"
  ps_dispatch :: "planning_dispatch option"
  ps_control_call_id :: "string option"
  ps_dispatch_waves :: nat
  ps_dispatched_task_count :: nat
  ps_worker_results :: "worker_output list"
  ps_execution_budget :: "(string, pyval) dict option"
  ps_call_count :: "int option"
  ps_pending_transition :: "pending_transition option"
  ps_execution_phase :: string
  ps_agent_outcome :: "response_outcome option"
  ps_final_agent_id :: "string option"
  ps_task_plan_id :: "string option"
  ps_model_request :: "(string, pyval) dict option"
  ps_attachments :: "pyval list"
  ps_custom_agents :: "(string, pyval) dict"
  ps_request :: "(string, pyval) dict"

record rubric_attempt =
  ra_status :: string
  ra_metadata :: pyval
  ra_feedback :: pyval

record planning_env =
  pe_limits :: planning_limits
  pe_budget_limits :: budget_limits
  pe_read_budget :: "(string, pyval) dict \<Rightarrow> budget_state option"
  pe_inventory :: routing_inventory
  pe_allowed_tools :: "string \<Rightarrow> string list"
  pe_sha256 :: "string \<Rightarrow> string"
  pe_max_todos :: nat
  pe_json_loads :: "string \<Rightarrow> pyval option"
  pe_fresh_ids :: "string \<Rightarrow> nat \<Rightarrow> string"
  pe_review :: "todo list \<Rightarrow> rubric_attempt option"
  pe_strip_rich_markers :: "string \<Rightarrow> string"

datatype planning_node =
    PlanningModel
  | PlanningDispatch
  | PlanningCollect
  | PlanningActions
  | PlanningPackage
  | ResolveTransition
  | ValidateOutput

section \<open>Validating a dispatch\<close>

text \<open>What \<^verbatim>\<open>DispatchSubagentsInput.model_validate\<close> accepts.\<close>

definition bounded_text :: "nat \<Rightarrow> nat \<Rightarrow> pyval \<Rightarrow> string option" where
  "bounded_text least most v =
     (case v of PStr s \<Rightarrow> if least \<le> length s \<and> length s \<le> most then Some s else None | _ \<Rightarrow> None)"

definition text_list :: "pyval \<Rightarrow> string list option" where
  "text_list v =
     (case v of
        PList xs \<Rightarrow> sequence_opt (map (\<lambda>x. case x of PStr s \<Rightarrow> Some s | _ \<Rightarrow> None) xs)
      | PTuple xs \<Rightarrow> sequence_opt (map (\<lambda>x. case x of PStr s \<Rightarrow> Some s | _ \<Rightarrow> None) xs)
      | _ \<Rightarrow> None)"

definition read_proposal :: "pyval \<Rightarrow> task_proposal option" where
  "read_proposal v =
     (case v of
        PDict d \<Rightarrow>
          if \<not> set (map fst d) \<subseteq> {''task_id'', ''objective'', ''agent_id'', ''related_todo_ids''} then None
          else (case (bounded_text 1 160 (pget d ''task_id''), bounded_text 1 4000 (pget d ''objective''),
                      bounded_text 1 160 (pget d ''agent_id''),
                      case map_of d ''related_todo_ids'' of None \<Rightarrow> Some [] | Some r \<Rightarrow> text_list r) of
                 (Some i, Some ob, Some a, Some r) \<Rightarrow>
                   Some \<lparr>tp_task_id = i, tp_objective = ob, tp_agent_id = a, tp_related_todo_ids = r\<rparr>
               | _ \<Rightarrow> None)
      | _ \<Rightarrow> None)"

definition read_dispatch_input :: "(string, pyval) dict \<Rightarrow> task_proposal list option" where
  "read_dispatch_input args =
     (if \<not> set (map fst args) \<subseteq> {''tasks'', ''rationale''} then None
      else if pget args ''rationale'' \<noteq> PNone \<and> bounded_text 0 1000 (pget args ''rationale'') = None then None
      else case (case pget args ''tasks'' of PList xs \<Rightarrow> Some xs | PTuple xs \<Rightarrow> Some xs | _ \<Rightarrow> None) of
             None \<Rightarrow> None
           | Some xs \<Rightarrow> if xs = [] then None else sequence_opt (map read_proposal xs))"

definition dispatch_identity :: "(string \<Rightarrow> string) \<Rightarrow> string \<Rightarrow> nat \<Rightarrow> string" where
  "dispatch_identity sha256 tool_call_id wave = take 32 (sha256 (tool_call_id @ '':'' @ nat_text wave))"

text \<open>The calls of the last message that made some.\<close>

fun calls_of :: "planning_message \<Rightarrow> call_request list" where
  "calls_of (AgentTurn content calls) = calls"
| "calls_of m = []"

definition last_tool_calls :: "planning_message list \<Rightarrow> call_request list" where
  "last_tool_calls messages =
     (case find (\<lambda>m. calls_of m \<noteq> []) (rev messages) of None \<Rightarrow> [] | Some m \<Rightarrow> calls_of m)"

definition sibling_tool_call_names :: "planning_message list \<Rightarrow> string list" where
  "sibling_tool_call_names messages = filter (\<lambda>n. n \<noteq> []) (map (call_name []) (last_tool_calls messages))"

text \<open>\<^verbatim>\<open>json.dumps(..., ensure_ascii=False)\<close> of a string, and of the context.\<close>

definition raw_json_char :: "char \<Rightarrow> string" where
  "raw_json_char c = (if (of_char c :: nat) \<ge> 127 then [c] else json_char c)"

definition raw_json :: "string \<Rightarrow> string" where
  "raw_json s = [char_of (34::nat)] @ concat (map raw_json_char s) @ [char_of (34::nat)]"

definition raw_json_entry :: "string \<times> string \<Rightarrow> string" where
  "raw_json_entry kv = raw_json (fst kv) @ '': '' @ snd kv"

definition encode_parent_context :: "parent_context \<Rightarrow> string" where
  "encode_parent_context c =
     ''{'' @ join_comma (map raw_json_entry
       [(''task_plan_id'', case pc_task_plan_id c of None \<Rightarrow> ''null'' | Some i \<Rightarrow> raw_json i),
        (''plan_summary'', raw_json (pc_plan_summary c)),
        (''todos'', ''['' @ join_comma (map (\<lambda>(i, s, t). ''{'' @ join_comma (map raw_json_entry
            [(''id'', raw_json i), (''status'', raw_json s), (''content'', raw_json t)]) @ ''}'')
          (pc_todos c)) @ '']'')]) @ ''}''"

definition text_or :: "pyval \<Rightarrow> string" where
  "text_or v = (if truthy v then py_text v else [])"

definition projected_todo :: "todo \<Rightarrow> string \<times> string \<times> string" where
  "projected_todo t =
     (text_or (pget t ''id''), text_or (pget t ''status''),
      text_or (if truthy (pget t ''description'') then pget t ''description'' else pget t ''content''))"

definition plan_summary :: "(string \<times> string \<times> string) list \<Rightarrow> string" where
  "plan_summary todos =
     (if todos = [] then []
      else nat_text (length todos) @ '' plan items, '' @
           nat_text (length (filter (\<lambda>(i, s, t). s \<noteq> ''completed'') todos)) @ '' not completed'')"

definition build_parent_context :: "planning_limits \<Rightarrow> planning_state \<Rightarrow> parent_context option" where
  "build_parent_context limits st =
     (let todos = map projected_todo (ps_todos st);
          c = \<lparr>pc_task_plan_id = ps_task_plan_id st, pc_plan_summary = plan_summary todos, pc_todos = todos\<rparr>
      in if length (encode_parent_context c) > pl_parent_context_max_chars limits then None else Some c)"

text \<open>The checks of each task, in the order of the proposal: the code of the first that fails.\<close>

fun check_tasks :: "planning_limits \<Rightarrow> routing_inventory \<Rightarrow> task_proposal list \<Rightarrow> string option" where
  "check_tasks limits ri [] = None"
| "check_tasks limits ri (t # ts) =
     (if tp_agent_id t = PLANNING_AGENT_ID then Some ''recursive_planning''
      else if inventory_get ri (Some (tp_agent_id t)) = None then Some ''unknown_agent''
      else if \<not> is_routable ri (Some (tp_agent_id t)) then Some ''agent_unavailable''
      else if length (tp_objective t) > pl_objective_max_chars limits then Some ''objective_too_long''
      else check_tasks limits ri ts)"

datatype dispatch_verdict =
    Rejected string string
  | Accepted planning_dispatch
  | InvalidModel

definition make_task ::
  "planning_env \<Rightarrow> planning_state \<Rightarrow> parent_context \<Rightarrow> string \<Rightarrow> nat \<times> task_proposal \<Rightarrow> worker_task" where
  "make_task env st context dispatch_id = (\<lambda>(position, p).
     \<lparr>wt_dispatch_id = dispatch_id, wt_task_id = tp_task_id p, wt_position = int position,
      wt_objective = tp_objective p, wt_agent_id = tp_agent_id p, wt_parent_context = context,
      wt_allowed_tool_ids = pe_allowed_tools env (tp_agent_id p), wt_model_request = ps_model_request st,
      wt_related_todo_ids = tp_related_todo_ids p\<rparr>)"

text \<open>\<open>InvalidModel\<close> is the validation error of a call id longer than the dispatch may carry.\<close>

definition validate_dispatch_call :: "planning_env \<Rightarrow> call_request \<Rightarrow> planning_state \<Rightarrow> dispatch_verdict" where
  "validate_dispatch_call env call st =
     (let limits = pe_limits env; i = call_id call; wave = ps_dispatch_waves st + 1 in
      if i = [] then Rejected ''missing_tool_call_id'' ''unknown''
      else if HAND_OFF_TOOL_NAME \<in> set (sibling_tool_call_names (ps_messages st))
      then Rejected ''dispatch_with_handoff'' i
      else if wave > pl_max_dispatch_waves limits then Rejected ''dispatch_wave_limit'' i
      else case read_dispatch_input (cr_args call) of
        None \<Rightarrow> Rejected ''invalid_dispatch_input'' i
      | Some tasks \<Rightarrow>
          if \<not> distinct (map tp_task_id tasks) then Rejected ''duplicate_task_id'' i
          else if ps_dispatched_task_count st + length tasks > pl_max_tasks limits
          then Rejected ''dispatch_task_limit'' i
          else (case check_tasks limits (pe_inventory env) tasks of
            Some code \<Rightarrow> Rejected code i
          | None \<Rightarrow>
              (case build_parent_context limits st of
                 None \<Rightarrow> Rejected ''parent_context_too_long'' i
               | Some context \<Rightarrow>
                   (let d = dispatch_identity (pe_sha256 env) i wave
                    in if length i > 160 then InvalidModel
                       else Accepted \<lparr>pd_dispatch_id = d, pd_tool_call_id = i, pd_wave = wave,
                              pd_tasks = map (make_task env st context d) (enumerate 0 tasks)\<rparr>))))"

section \<open>Todos\<close>

record todo_outcome =
  to_todos :: "todo list"
  to_current_task_index :: "nat option"
  to_tool_messages :: "tool_message list"
  to_actions :: "string list"
  to_planning_phase :: "string option"
  to_plan_just_modified :: bool

text \<open>The calls one after the other, each on the plan the last one left.\<close>

fun apply_todo_calls ::
  "planning_env \<Rightarrow> call_request list \<Rightarrow> todo list \<Rightarrow> nat option
     \<Rightarrow> todo list \<times> nat option \<times> tool_message list \<times> string list" where
  "apply_todo_calls env [] todos current = (todos, current, [], [])"
| "apply_todo_calls env (c # cs) todos current =
     (let ((todos1, current1, message), action) =
            apply_write_todos_action (pe_json_loads env) (pe_fresh_ids env (call_id c)) (pe_max_todos env)
              (cr_args c) todos current;
          (todos2, current2, messages, actions) = apply_todo_calls env cs todos1 current1
      in (todos2, current2,
          \<lparr>tm_content = message, tm_tool_call_id = call_id c, tm_name = call_name ''write_todos'' c,
           tm_status = ''success''\<rparr> # messages, action # actions))"

text \<open>The caller's own list meanwhile, whose dictionaries the actions write to.\<close>

fun callers_todos ::
  "planning_env \<Rightarrow> call_request list \<Rightarrow> todo list \<Rightarrow> nat option \<Rightarrow> nat option list \<Rightarrow> todo list \<Rightarrow> todo list" where
  "callers_todos env [] todos current shared callers = callers"
| "callers_todos env (c # cs) todos current shared callers =
     (let ((todos1, current1, message), action) =
            apply_write_todos_action (pe_json_loads env) (pe_fresh_ids env (call_id c)) (pe_max_todos env)
              (cr_args c) todos current;
          shared1 = shared_after (pe_json_loads env) (pe_max_todos env) (cr_args c) todos shared
      in callers_todos env cs todos1 current1 shared1 (write_shared shared1 todos1 callers))"

definition planning_apply_todo_actions :: "planning_env \<Rightarrow> planning_state \<Rightarrow> call_request list \<Rightarrow> todo_outcome" where
  "planning_apply_todo_actions env st calls =
     (case apply_todo_calls env calls (ps_todos st) (ps_current_task_index st) of
        (todos, current, messages, actions) \<Rightarrow>
          \<lparr>to_todos = todos, to_current_task_index = current, to_tool_messages = messages,
           to_actions = actions, to_planning_phase = None, to_plan_just_modified = False\<rparr>)"

definition graded_context ::
  "planning_env \<Rightarrow> (string, pyval) dict \<Rightarrow> todo list \<Rightarrow> (string, pyval) dict" where
  "graded_context env context todos =
     (case pe_review env todos of
        None \<Rightarrow> context
      | Some attempt \<Rightarrow>
          if ra_status attempt = ''disabled'' then context
          else (let c = AList.update ''planning_rubric'' (ra_metadata attempt) context
                in if ra_status attempt = ''needs_revision'' \<and> truthy (ra_feedback attempt)
                   then AList.delete ''generate_plan_response''
                          (AList.update ''plan_just_modified'' (PBool False)
                            (AList.update ''planning_rubric_feedback'' (ra_feedback attempt) c))
                   else if ra_status attempt \<in> {''satisfied'', ''max_iterations_reached''}
                   then AList.delete ''planning_rubric_feedback'' c else c))"

text \<open>\<^verbatim>\<open>write_todos\<close> calls by their exact name; the state is as it was when there are none.\<close>

definition run_turn_todos ::
  "planning_env \<Rightarrow> planning_state \<Rightarrow> call_request list \<Rightarrow> tool_message list \<times> planning_state" where
  "run_turn_todos env st tool_calls =
     (let calls = filter (\<lambda>c. cr_name c = Some WRITE_TODOS_TOOL_NAME) tool_calls
      in if calls = [] then ([], st)
         else (let outcome = planning_apply_todo_actions env st calls;
                   phase = (if truthy_str (to_planning_phase outcome) then to_planning_phase outcome
                            else if list_ex (\<lambda>a. a \<in> EXECUTION_ACTIONS) (to_actions outcome)
                            then Some ''executing'' else ps_planning_phase st);
                   modified = (to_plan_just_modified outcome \<or>
                               list_ex (\<lambda>a. a \<in> PLAN_MODIFYING_ACTIONS) (to_actions outcome));
                   context = (if modified
                              then graded_context env
                                     (AList.update ''plan_just_modified'' (PBool True) (ps_context st)) (to_todos outcome)
                              else ps_context st)
               in (to_tool_messages outcome,
                   st\<lparr>ps_todos := to_todos outcome, ps_current_task_index := to_current_task_index outcome,
                      ps_planning_phase := phase, ps_context := context\<rparr>)))"

definition with_callers_todos :: "planning_env \<Rightarrow> call_request list \<Rightarrow> planning_state \<Rightarrow> planning_state" where
  "with_callers_todos env tool_calls st =
     st\<lparr>ps_todos := callers_todos env (filter (\<lambda>c. cr_name c = Some WRITE_TODOS_TOOL_NAME) tool_calls)
          (ps_todos st) (ps_current_task_index st) (map Some [0..<length (ps_todos st)]) (ps_todos st)\<rparr>"

section \<open>Control messages\<close>

definition planning_control_message_id :: "string \<Rightarrow> string" where
  "planning_control_message_id tool_call_id = ''planning-control:'' @ tool_call_id"

definition control_message :: "call_request \<Rightarrow> string \<Rightarrow> planning_message" where
  "control_message call code =
     ToolResult (Some (planning_control_message_id (call_id call)))
       \<lparr>tm_content = code, tm_tool_call_id = call_id call,
        tm_name = call_name DISPATCH_CONTROL_TOOL_NAME call, tm_status = ''error''\<rparr>"

definition add_messages :: "planning_message list \<Rightarrow> planning_state \<Rightarrow> planning_state" where
  "add_messages ms st = st\<lparr>ps_messages := ps_messages st @ ms\<rparr>"

definition applied_ids :: "tool_message list \<Rightarrow> string set" where
  "applied_ids ms = set (map tm_tool_call_id ms)"

section \<open>The model node\<close>

definition planning_call_count :: "planning_state \<Rightarrow> int" where
  "planning_call_count st =
     (case (case ps_execution_budget st of None \<Rightarrow> PNone | Some b \<Rightarrow> pget b ''turn_planning_model_calls'') of
        PInt i \<Rightarrow> i
      | _ \<Rightarrow> (case ps_call_count st of None \<Rightarrow> 0 | Some i \<Rightarrow> i))"

definition planning_accountant :: "planning_env \<Rightarrow> planning_state \<Rightarrow> accountant" where
  "planning_accountant env st =
     (let carried = ps_execution_budget st;
          budget = (case carried of None \<Rightarrow> None | Some b \<Rightarrow> if b = [] then None else pe_read_budget env b);
          a = new_accountant (pe_budget_limits env) budget
      in if (case carried of None \<Rightarrow> True | Some b \<Rightarrow> map_of b ''turn_planning_model_calls'' = None)
         then a\<lparr>acc_state := (acc_state a)\<lparr>bs_turn_planning_model_calls := max 0 (planning_call_count st)\<rparr>\<rparr>
         else a)"

definition out_of_steps :: "int option \<Rightarrow> bool" where
  "out_of_steps remaining =
     (case remaining of None \<Rightarrow> False | Some r \<Rightarrow> r < PLANNING_ROUND_TRIP_STEPS + PLANNING_ANSWER_STEPS)"

text \<open>The accounting of one model turn: whether it is the reserved answer.\<close>

definition note_planning_turn :: "planning_env \<Rightarrow> int option \<Rightarrow> planning_state \<Rightarrow> accountant" where
  "note_planning_turn env remaining st =
     (let a = snd (note_model_call True (planning_accountant env st))
      in if out_of_steps remaining \<and> bs_exhausted_by (acc_state a) \<noteq> Some HardLimit then note_hard_limit a else a)"

definition reserved_answer :: "string \<Rightarrow> planning_state \<Rightarrow> planning_state \<times> planning_node" where
  "reserved_answer content st =
     ((add_messages [AgentTurn (if py_strip content \<noteq> [] then content else HARD_LIMIT_PARTIAL_TEXT) []] st)
        \<lparr>ps_execution_phase := ''executing''\<rparr>, PlanningPackage)"

definition route_dispatch ::
  "planning_env \<Rightarrow> planning_state \<Rightarrow> planning_message \<Rightarrow> call_request list
     \<Rightarrow> (planning_state \<times> planning_node) option" where
  "route_dispatch env st ai_message tool_calls =
     (let dispatch_call = hd (filter (\<lambda>c. cr_name c = Some DISPATCH_CONTROL_TOOL_NAME) tool_calls);
          (todo_messages, st1) = run_turn_todos env st tool_calls;
          applied = applied_ids todo_messages
      in case validate_dispatch_call env dispatch_call
                (add_messages [ai_message] (with_callers_todos env tool_calls st)) of
           InvalidModel \<Rightarrow> None
         | Rejected code i \<Rightarrow> Some
             (add_messages
                (ai_message # map (ToolResult None) todo_messages @
                 map (\<lambda>c. control_message c (if cr_id c = Some i then code else NOT_RUN_THIS_TURN))
                   (filter (\<lambda>c. call_id c \<notin> applied) tool_calls)) st1, PlanningModel)
         | Accepted dispatch \<Rightarrow> Some
             ((add_messages
                 (ai_message # map (ToolResult None) todo_messages @
                  map (\<lambda>c. control_message c NOT_RUN_THIS_TURN)
                    (filter (\<lambda>c. call_id c \<noteq> pd_tool_call_id dispatch \<and> call_id c \<notin> applied) tool_calls)) st1)
                \<lparr>ps_dispatch := Some dispatch, ps_control_call_id := Some (pd_tool_call_id dispatch),
                 ps_execution_phase := ''executing''\<rparr>, PlanningDispatch))"

definition route_handoff ::
  "planning_state \<Rightarrow> planning_message \<Rightarrow> call_request \<Rightarrow> (planning_state \<times> planning_node) option" where
  "route_handoff st ai_message call =
     (let i = call_id call; target = text_or (pget (cr_args call) ''to_agent_id'');
          reason = (if truthy (pget (cr_args call) ''reason'') then py_text (pget (cr_args call) ''reason'')
                    else ''planning delegated the turn'')
      in if target = []
         then Some (add_messages [ai_message, control_message call ''handoff_missing_target''] st, PlanningModel)
         else if length target > 160 \<or> i = [] \<or> length i > 160 \<or> take 500 reason = [] then None
         else Some
           ((add_messages
               [ai_message, ToolResult (Some (''handoff:'' @ i))
                  \<lparr>tm_content = ''handoff requested: '' @ target, tm_tool_call_id = i,
                   tm_name = HAND_OFF_TOOL_NAME, tm_status = ''success''\<rparr>] st)
              \<lparr>ps_pending_transition := Some
                 \<lparr>pt_from_agent_id = PLANNING_AGENT_ID, pt_to_agent_id = target, pt_tool_call_id = i,
                  pt_tool_message_id = ''handoff:'' @ i, pt_reason = take 500 reason\<rparr>\<rparr>, ResolveTransition))"

definition decide ::
  "planning_env \<Rightarrow> planning_state \<Rightarrow> string \<Rightarrow> call_request list \<Rightarrow> (planning_state \<times> planning_node) option" where
  "decide env st content tool_calls =
     (let ai_message = AgentTurn content tool_calls; names = map (call_name []) tool_calls in
      if tool_calls = []
      then Some ((add_messages [AgentTurn content []] st)\<lparr>ps_execution_phase := ''executing''\<rparr>, PlanningPackage)
      else if DISPATCH_CONTROL_TOOL_NAME \<in> set names then route_dispatch env st ai_message tool_calls
      else if HAND_OFF_TOOL_NAME \<in> set names \<and> length tool_calls = 1
      then route_handoff st ai_message (hd tool_calls)
      else if WRITE_TODOS_TOOL_NAME \<in> set names
      then Some ((add_messages [ai_message] st)\<lparr>ps_execution_phase := ''executing''\<rparr>, PlanningActions)
      else Some (add_messages (ai_message # map (\<lambda>c. control_message c ''unsupported_planning_tool'') tool_calls) st,
                 PlanningModel))"

definition planning_model ::
  "planning_env \<Rightarrow> int option \<Rightarrow> string \<Rightarrow> call_request list \<Rightarrow> planning_state
     \<Rightarrow> (planning_state \<times> planning_node) option" where
  "planning_model env remaining content tool_calls st =
     (let a = note_planning_turn env remaining st
      in map_option (\<lambda>(st1, goto).
             (st1\<lparr>ps_execution_budget := Some (dump_budget (acc_state a)),
                  ps_call_count := Some (bs_turn_planning_model_calls (acc_state a))\<rparr>, goto))
           (if bs_forced_synthesis (acc_state a) then Some (reserved_answer content st)
            else decide env st content tool_calls))"

section \<open>The workers\<close>

text \<open>What a worker may see of its parent: no message is among it.\<close>

record worker_scope =
  ws_request :: "(string, pyval) dict"
  ws_attachments :: "pyval list"
  ws_custom_agents :: "(string, pyval) dict"
  ws_model_request :: "(string, pyval) dict option"
  ws_context :: "(string, pyval) dict"
  ws_task_plan_id :: "string option"
  ws_todos :: "todo list"

definition bounded_parent_scope :: "planning_state \<Rightarrow> worker_scope" where
  "bounded_parent_scope st =
     \<lparr>ws_request = ps_request st, ws_attachments = ps_attachments st, ws_custom_agents = ps_custom_agents st,
      ws_model_request = ps_model_request st, ws_context = ps_context st,
      ws_task_plan_id = ps_task_plan_id st, ws_todos = ps_todos st\<rparr>"

definition planning_dispatch_sends :: "planning_state \<Rightarrow> (worker_task \<times> worker_scope) list" where
  "planning_dispatch_sends st =
     (case ps_dispatch st of
        None \<Rightarrow> []
      | Some dispatch \<Rightarrow> map (\<lambda>task. (task, bounded_parent_scope st)) (pd_tasks dispatch))"

text \<open>How the runtime of a specialist or of RAG ends.\<close>

datatype worker_exit =
    Finished string "(string, pyval) dict list" "(string, pyval) dict list" "(string, pyval) dict list"
  | PartlyFinished "(string, pyval) dict list" "(string, pyval) dict list"
  | Paused
  | LimitExceeded
  | TimedOut
  | SpecialistUnavailable
  | OtherFailure

definition failed_worker :: "worker_task \<Rightarrow> string \<Rightarrow> worker_output" where
  "failed_worker task code =
     \<lparr>wr_dispatch_id = wt_dispatch_id task, wr_task_id = wt_task_id task, wr_position = wt_position task,
      wr_agent_id = wt_agent_id task, wr_status = WorkerFailed, wr_content = [], wr_artifacts = [],
      wr_evidence = [], wr_images = [], wr_error_code = Some code\<rparr>"

text \<open>\<open>None\<close> is the pause for an approval, which goes through to the graph.\<close>

definition run_worker :: "worker_task \<Rightarrow> worker_exit \<Rightarrow> worker_output option" where
  "run_worker task exit =
     (if wt_agent_id task = PLANNING_AGENT_ID then Some (failed_worker task ''recursive_planning'')
      else case exit of
        Finished content artifacts evidence images \<Rightarrow> Some
          \<lparr>wr_dispatch_id = wt_dispatch_id task, wr_task_id = wt_task_id task, wr_position = wt_position task,
           wr_agent_id = wt_agent_id task, wr_status = WorkerCompleted, wr_content = content,
           wr_artifacts = artifacts, wr_evidence = evidence, wr_images = images, wr_error_code = None\<rparr>
      | PartlyFinished artifacts images \<Rightarrow> Some
          \<lparr>wr_dispatch_id = wt_dispatch_id task, wr_task_id = wt_task_id task, wr_position = wt_position task,
           wr_agent_id = wt_agent_id task, wr_status = WorkerPartial, wr_content = HARD_LIMIT_PARTIAL_TEXT,
           wr_artifacts = artifacts, wr_evidence = [], wr_images = images, wr_error_code = None\<rparr>
      | Paused \<Rightarrow> None
      | LimitExceeded \<Rightarrow> Some (failed_worker task ''agent_execution_limit'')
      | TimedOut \<Rightarrow> Some (failed_worker task ''worker_timeout'')
      | SpecialistUnavailable \<Rightarrow> Some (failed_worker task ''agent_unavailable'')
      | OtherFailure \<Rightarrow> Some (failed_worker task ''tool_execution_failed''))"

definition collect_worker_results :: "planning_dispatch \<Rightarrow> worker_output list \<Rightarrow> worker_output list" where
  "collect_worker_results dispatch results =
     sort_key wr_position (filter (\<lambda>r. wr_dispatch_id r = pd_dispatch_id dispatch) results)"

fun status_text :: "worker_status \<Rightarrow> string" where
  "status_text WorkerCompleted = ''completed''"
| "status_text WorkerPartial = ''partial''"
| "status_text WorkerFailed = ''failed''"

definition render_worker_results ::
  "(string \<Rightarrow> string) \<Rightarrow> string \<Rightarrow> worker_output list \<Rightarrow> planning_limits \<Rightarrow> string" where
  "render_worker_results strip objective results limits =
     (let n = pl_parent_context_max_chars limits;
          blocks = (''Objective: '' @ take (pl_objective_max_chars limits) objective) #
            map (\<lambda>r. ''BEGIN UNTRUSTED WORKER RESULT task='' @ wr_task_id r @ '' agent='' @ wr_agent_id r @
                  '' status='' @ status_text (wr_status r) @ [CHR 0x0A] @
                  take n (strip (wr_content r)) @ [CHR 0x0A] @ ''END UNTRUSTED WORKER RESULT'') results
      in take n (join_with [CHR 0x0A, CHR 0x0A] blocks))"

definition dispatch_objective :: "planning_dispatch \<Rightarrow> string" where
  "dispatch_objective dispatch = join_with ''; '' (map wt_objective (pd_tasks dispatch))"

definition planning_collect :: "planning_env \<Rightarrow> planning_state \<Rightarrow> planning_state \<times> planning_node" where
  "planning_collect env st =
     (case ps_dispatch st of
        None \<Rightarrow> (st, PlanningModel)
      | Some dispatch \<Rightarrow>
          ((add_messages
              [ToolResult (Some (planning_control_message_id (pd_tool_call_id dispatch)))
                 \<lparr>tm_content = render_worker_results (pe_strip_rich_markers env) (dispatch_objective dispatch)
                    (collect_worker_results dispatch (ps_worker_results st)) (pe_limits env),
                  tm_tool_call_id = pd_tool_call_id dispatch, tm_name = DISPATCH_CONTROL_TOOL_NAME,
                  tm_status = ''success''\<rparr>] st)
             \<lparr>ps_dispatch := None, ps_control_call_id := None, ps_dispatch_waves := pd_wave dispatch,
              ps_dispatched_task_count := ps_dispatched_task_count st + length (pd_tasks dispatch)\<rparr>,
           PlanningModel))"

definition planning_actions :: "planning_env \<Rightarrow> planning_state \<Rightarrow> planning_state \<times> planning_node" where
  "planning_actions env st =
     (let turn_calls = last_tool_calls (ps_messages st);
          (todo_messages, st1) = run_turn_todos env st turn_calls;
          applied = applied_ids todo_messages
      in (add_messages (map (ToolResult None) todo_messages @
            map (\<lambda>c. control_message c NOT_RUN_THIS_TURN) (filter (\<lambda>c. call_id c \<notin> applied) turn_calls)) st1,
          PlanningModel))"

section \<open>Packaging\<close>

text \<open>\<^verbatim>\<open>message.text\<close> of the last answer that called no tool and is not blank.\<close>

fun answer_text :: "planning_message \<Rightarrow> string option" where
  "answer_text (AgentTurn content []) = (if py_strip content \<noteq> [] then Some content else None)"
| "answer_text m = None"

definition last_ai_text :: "planning_message list \<Rightarrow> string" where
  "last_ai_text messages =
     (case find (\<lambda>m. answer_text m \<noteq> None) (rev messages) of None \<Rightarrow> [] | Some m \<Rightarrow> the (answer_text m))"

definition record_id :: "string \<Rightarrow> (string, pyval) dict \<Rightarrow> string option" where
  "record_id k d = (if truthy (pget d k) then Some (py_text (pget d k)) else None)"

text \<open>The sources of the workers, the first of each address, under new ids.\<close>

fun remap_sources :: "string list \<Rightarrow> (string, pyval) dict list \<Rightarrow> (string, pyval) dict list" where
  "remap_sources urls [] = []"
| "remap_sources urls (r # rs) =
     (let url = text_or (pget r ''url'')
      in if \<not> truthy (pget r ''source_id'') \<or> url = [] \<or> url \<in> set urls then remap_sources urls rs
         else AList.update ''source_id'' (PStr (''S'' @ nat_text (length urls + 1))) r #
              remap_sources (urls @ [url]) rs)"

definition is_rich_item :: "(string, pyval) dict \<Rightarrow> bool" where
  "is_rich_item img \<longleftrightarrow>
     pget img ''type'' \<in> {PStr ''image'', PStr ''image_group''} \<and>
     \<not> prefix ''image:web:'' (text_or (pget img ''id''))"

definition is_delivered_image :: "(string, pyval) dict \<Rightarrow> bool" where
  "is_delivered_image img \<longleftrightarrow>
     truthy (pget img ''image_id'') \<or> truthy (pget img ''stored_ref'') \<or> truthy (pget img ''data'')"

definition build_planning_outcome :: "string \<Rightarrow> worker_output list \<Rightarrow> response_outcome" where
  "build_planning_outcome content results =
     (let all_evidence = concat (map wr_evidence results);
          evidence = filter (\<lambda>r. truthy (pget r ''evidence_id'')) all_evidence;
          web_sources = remap_sources [] all_evidence;
          artifacts = concat (map wr_artifacts results);
          all_images = concat (map wr_images results);
          rich_items = filter is_rich_item all_images;
          images = filter is_delivered_image all_images;
          policies = ''public_content'' # (if evidence \<noteq> [] then [''rag_grounding''] else []) @
            (if artifacts \<noteq> [] then [''artifact_provenance''] else []) @
            (if web_sources \<noteq> [] then [''web_evidence''] else [])
      in \<lparr>ro_agent_id = PLANNING_AGENT_ID,
          ro_response = \<lparr>ar_agent_id = PLANNING_AGENT_ID, ar_content = content,
            ar_metadata = \<lparr>rm_interrupt = False, rm_images = map (record_id ''image_id'') images,
              rm_canvas_artifact = PNone, rm_canvas_update = PNone, rm_mutation_outcome_unknown = False,
              rm_web_grounding_warnings = [], rm_runtime_agent_id = None, rm_custom_agent_name = None,
              rm_custom_agent_id = None\<rparr>,
            ar_tool_artifacts = map (record_id ''artifact_id'') artifacts, ar_error = None\<rparr>,
          ro_provenance = \<lparr>op_output_policy_ids = policies, op_evidence = map (record_id ''evidence_id'') evidence,
            op_artifacts = map (record_id ''artifact_id'') artifacts,
            op_images = map (record_id ''image_id'') images,
            op_web_sources = map (\<lambda>r. \<lparr>ws_url = record_id ''url'' r, ws_source_id = record_id ''source_id'' r\<rparr>) web_sources,
            op_rich_items = map (record_id ''id'') rich_items, op_private_messages = []\<rparr>\<rparr>)"

definition planning_package :: "planning_state \<Rightarrow> planning_state \<times> planning_node" where
  "planning_package st =
     (st\<lparr>ps_agent_outcome := Some (build_planning_outcome (last_ai_text (ps_messages st)) (ps_worker_results st)),
         ps_final_agent_id := Some PLANNING_AGENT_ID, ps_execution_phase := ''validating''\<rparr>, ValidateOutput)"

end
