(* ===== verification/Continuation.thy ===== *)
theory Continuation
  imports Finalization
begin

text \<open>
  \<^verbatim>\<open>app/ai/workflow/continuation.py\<close>: the pause of a validated partial answer, what the next epoch
  is handed, and the reading of a pending pause. The interrupt is an argument: \<open>None\<close> while nobody has
  answered it, otherwise the value the run is resumed with. The clock of the epochs is the graph's.
\<close>

section \<open>Carrying evidence\<close>

definition call_id_text :: "string option \<Rightarrow> string" where
  "call_id_text i = (case i of None \<Rightarrow> [] | Some t \<Rightarrow> t)"

fun tool_call_ids :: "chat_message \<Rightarrow> string set" where
  "tool_call_ids (AIMessage content calls) = set (map call_id_text calls)"
| "tool_call_ids m = {}"

fun answer_ids :: "chat_message \<Rightarrow> string set" where
  "answer_ids (ToolMessage content i) = {i}"
| "answer_ids m = {}"

definition requested_ids :: "chat_message list \<Rightarrow> string set" where
  "requested_ids ms = \<Union> (set (map tool_call_ids ms))"

definition answered_ids :: "chat_message list \<Rightarrow> string set" where
  "answered_ids ms = \<Union> (set (map answer_ids ms))"

fun carry_step :: "string set \<Rightarrow> chat_message list \<Rightarrow> chat_message \<Rightarrow> chat_message list" where
  "carry_step answered carried (ToolMessage content i) =
     (if requested_ids carried \<inter> {i} \<noteq> {} then carried @ [ToolMessage content i] else carried)"
| "carry_step answered carried (AIMessage content calls) =
     (let requested = tool_call_ids (AIMessage content calls)
      in if requested = {} then carried
         else if \<not> requested \<subseteq> answered then carried
         else carried @ [AIMessage content calls])"
| "carry_step answered carried m = carried"

definition carry_messages :: "chat_message list \<Rightarrow> chat_message list" where
  "carry_messages produced = foldl (carry_step (answered_ids produced)) [] produced"

definition pairs_are_intact :: "chat_message list \<Rightarrow> bool" where
  "pairs_are_intact ms \<longleftrightarrow> requested_ids ms = answered_ids ms"

section \<open>The pause node\<close>

record pause_payload =
  pp_generation_id :: string
  pp_logical_turn_id :: string
  pp_execution_epoch :: int
  pp_active_agent_id :: string
  pp_validated_content :: string
  pp_budget :: "(string \<times> pyval) list"
  pp_web_sources :: "web_source list"
  pp_rich_items :: "string option list"
  pp_web_grounding_warnings :: "string list"
  pp_mutation_outcome_unknown :: bool

datatype resume_value =
    ContinuationResume bool string int
  | ResumeDict "(string \<times> pyval) list"
  | ResumeOther

text \<open>
  The decision: whether the action is \<^verbatim>\<open>continue\<close> (the text of a value that is no string never is),
  and the epoch it names. In \<open>ContinuationResume c i e\<close> the flag \<open>c\<close> is that action.
\<close>

definition read_epoch :: "pyval \<Rightarrow> int" where
  "read_epoch v =
     (if \<not> truthy v then 0
      else case v of
        PInt i \<Rightarrow> i
      | PBool b \<Rightarrow> 1
      | PStr s \<Rightarrow> (case py_int s of Some i \<Rightarrow> i | None \<Rightarrow> -1)
      | _ \<Rightarrow> -1)"

fun read_decision :: "resume_value \<Rightarrow> bool \<times> int" where
  "read_decision (ContinuationResume continues continuation_id expected_epoch) = (continues, expected_epoch)"
| "read_decision (ResumeDict d) =
     (pget d ''action'' = PStr ''continue'', read_epoch (pget d ''expected_epoch''))"
| "read_decision ResumeOther = (False, -1)"

definition mutation_outcome_unknown :: "response_outcome option \<Rightarrow> bool" where
  "mutation_outcome_unknown outcome =
     (case outcome of None \<Rightarrow> False | Some o1 \<Rightarrow> rm_mutation_outcome_unknown (ar_metadata (ro_response o1)))"

definition validated_content :: "response_outcome option \<Rightarrow> string" where
  "validated_content outcome = (case outcome of None \<Rightarrow> [] | Some o1 \<Rightarrow> ar_content (ro_response o1))"

definition state_budget :: "turn_state \<Rightarrow> (string \<times> pyval) list" where
  "state_budget st = (case gs_execution_budget st of None \<Rightarrow> [] | Some b \<Rightarrow> b)"

definition pause_payload_of :: "turn_state \<Rightarrow> pause_payload" where
  "pause_payload_of st =
     (let outcome = gs_agent_outcome st
      in \<lparr>pp_generation_id = [],
          pp_logical_turn_id = (case gs_logical_turn_id st of None \<Rightarrow> [] | Some t \<Rightarrow> t),
          pp_execution_epoch = gs_execution_epoch st,
          pp_active_agent_id = (case gs_active_agent_id st of None \<Rightarrow> [] | Some a \<Rightarrow> a),
          pp_validated_content = validated_content outcome,
          pp_budget = state_budget st,
          pp_web_sources = (case outcome of None \<Rightarrow> [] | Some o1 \<Rightarrow> op_web_sources (ro_provenance o1)),
          pp_rich_items = (case outcome of None \<Rightarrow> [] | Some o1 \<Rightarrow> op_rich_items (ro_provenance o1)),
          pp_web_grounding_warnings =
            (case outcome of None \<Rightarrow> [] | Some o1 \<Rightarrow> rm_web_grounding_warnings (ar_metadata (ro_response o1))),
          pp_mutation_outcome_unknown = mutation_outcome_unknown outcome\<rparr>)"

record epoch_update =
  eu_execution_epoch :: int
  eu_execution_budget :: "(string \<times> pyval) list"
  eu_carried_messages :: "chat_message list"
  eu_carried_web_sources :: "web_source list"

text \<open>
  What the node does: raise, wait for a decision with the payload it shows, leave by finalization, or
  go back to the agent's node with the next epoch's update.
\<close>

datatype pause_result =
    PauseRaises
  | Waiting pause_payload
  | ToFinalize
  | NextEpoch string epoch_update

text \<open>\<open>None\<close> is the validation error of the configured limits, which this function does not catch.\<close>

definition next_epoch_budget ::
  "((string \<times> pyval) list \<Rightarrow> budget_state option) \<Rightarrow> (string \<Rightarrow> int option) \<Rightarrow>
     (string \<times> pyval) list \<Rightarrow> int \<Rightarrow> (string \<times> pyval) list option" where
  "next_epoch_budget read settings budget next_epoch =
     (let carried = (if budget = [] then None else read budget)
      in map_option (\<lambda>l. dump_budget (acc_state (begin_epoch next_epoch (new_accountant l carried))))
           (limits_from_settings settings))"

definition rolls_over :: "bool \<Rightarrow> pause_payload \<Rightarrow> bool" where
  "rolls_over auto_continue payload \<longleftrightarrow>
     auto_continue \<and> \<not> pp_mutation_outcome_unknown payload \<and>
     pget (pp_budget payload) ''exhausted_by'' \<noteq> PStr ''hard_limit''"

definition start_next_epoch ::
  "((string \<times> pyval) list \<Rightarrow> budget_state option) \<Rightarrow> (string \<Rightarrow> int option) \<Rightarrow> turn_state \<Rightarrow> pause_result" where
  "start_next_epoch read settings st =
     (case resolve_node_for_agent_id (gs_active_agent_id st) of
        None \<Rightarrow> ToFinalize
      | Some node \<Rightarrow>
          if node = [] then ToFinalize
          else case next_epoch_budget read settings (state_budget st) (gs_execution_epoch st + 1) of
            None \<Rightarrow> PauseRaises
          | Some budget \<Rightarrow> NextEpoch node
              \<lparr>eu_execution_epoch = gs_execution_epoch st + 1, eu_execution_budget = budget,
               eu_carried_messages = carry_messages
                 (case gs_agent_outcome st of None \<Rightarrow> [] | Some o1 \<Rightarrow> op_private_messages (ro_provenance o1)),
               eu_carried_web_sources =
                 (case gs_agent_outcome st of None \<Rightarrow> [] | Some o1 \<Rightarrow> op_web_sources (ro_provenance o1))\<rparr>)"

definition continuation_pause ::
  "((string \<times> pyval) list \<Rightarrow> budget_state option) \<Rightarrow> (string \<Rightarrow> int option) \<Rightarrow> bool
     \<Rightarrow> resume_value option \<Rightarrow> turn_state \<Rightarrow> pause_result" where
  "continuation_pause read settings auto_continue answer st =
     (let epoch = gs_execution_epoch st; payload = pause_payload_of st in
      if epoch < 0 then PauseRaises
      else if rolls_over auto_continue payload then start_next_epoch read settings st
      else case answer of
        None \<Rightarrow> Waiting payload
      | Some decision \<Rightarrow>
          (case read_decision decision of (continues, expected_epoch) \<Rightarrow>
             if \<not> continues then ToFinalize
             else if expected_epoch \<noteq> epoch then ToFinalize
             else start_next_epoch read settings st))"

definition apply_epoch :: "epoch_update \<Rightarrow> turn_state \<Rightarrow> turn_state" where
  "apply_epoch u st =
     st\<lparr>gs_execution_epoch := eu_execution_epoch u, gs_execution_budget := Some (eu_execution_budget u),
        gs_execution_phase := ''executing'', gs_carried_messages := eu_carried_messages u,
        gs_carried_web_sources := eu_carried_web_sources u\<rparr>"

section \<open>Reading a pending pause\<close>

text \<open>
  A checkpoint: its tasks, each with whether it has a result and the values of its interrupts, and the
  interrupts of the snapshot itself. A value that is no dictionary is \<open>None\<close>. Reading a payload is
  Pydantic's \<^verbatim>\<open>model_validate\<close>, an argument.
\<close>

record checkpoint_task =
  ct_answered :: bool
  ct_interrupts :: "(string \<times> pyval) list option list"

record checkpoint =
  cp_tasks :: "checkpoint_task list"
  cp_interrupts :: "(string \<times> pyval) list option list"

definition live_interrupts :: "checkpoint \<Rightarrow> (string \<times> pyval) list option list" where
  "live_interrupts c =
     (if cp_tasks c \<noteq> [] then concat (map ct_interrupts (filter (\<lambda>t. \<not> ct_answered t) (cp_tasks c)))
      else cp_interrupts c)"

fun first_pause ::
  "((string \<times> pyval) list \<Rightarrow> pause_payload option) \<Rightarrow> (string \<times> pyval) list option list \<Rightarrow> pause_payload option" where
  "first_pause parse [] = None"
| "first_pause parse (None # vs) = first_pause parse vs"
| "first_pause parse (Some v # vs) =
     (if pget v ''type'' \<noteq> PStr ''execution_budget_exhausted'' then first_pause parse vs else parse v)"

definition pending_continuation_payload ::
  "((string \<times> pyval) list \<Rightarrow> pause_payload option) \<Rightarrow> checkpoint \<Rightarrow> pause_payload option" where
  "pending_continuation_payload parse c = first_pause parse (live_interrupts c)"

section \<open>Carried rounds\<close>

lemma ids_simps [simp]:
  "requested_ids [] = {}" "answered_ids [] = {}"
  "requested_ids (m # ms) = tool_call_ids m \<union> requested_ids ms"
  "answered_ids (m # ms) = answer_ids m \<union> answered_ids ms"
  "requested_ids (xs @ ys) = requested_ids xs \<union> requested_ids ys"
  "answered_ids (xs @ ys) = answered_ids xs \<union> answered_ids ys"
  by (auto simp: requested_ids_def answered_ids_def)

text \<open>A request that is kept: an assistant turn with calls, all of them answered.\<close>

definition complete_request :: "string set \<Rightarrow> chat_message \<Rightarrow> bool" where
  "complete_request answered m \<longleftrightarrow> tool_call_ids m \<noteq> {} \<and> tool_call_ids m \<subseteq> answered"

lemma carry_step_effect:
  "carry_step A c m =
     (if complete_request A m \<or> answer_ids m \<inter> requested_ids c \<noteq> {} then c @ [m] else c)"
  by (cases m) (auto simp: complete_request_def Let_def)

lemma tool_call_ids_answer_ids: "tool_call_ids m = {} \<or> answer_ids m = {}"
  by (cases m) auto

lemma carried_requests:
  "filter (\<lambda>m. tool_call_ids m \<noteq> {}) (foldl (carry_step A) c ms) =
   filter (\<lambda>m. tool_call_ids m \<noteq> {}) c @ filter (complete_request A) ms"
proof (induction ms arbitrary: c)
  case (Cons m ms)
  then show ?case
    using tool_call_ids_answer_ids [of m]
    by (auto simp: carry_step_effect complete_request_def simp del: carry_step.simps)
qed simp

lemma carried_subseq: "subseq (foldl (carry_step A) c ms) (c @ ms)"
proof (induction ms arbitrary: c)
  case (Cons m ms)
  have "subseq (carry_step A c m) (c @ [m])"
    by (simp add: carry_step_effect prefix_imp_subseq)
  then have "subseq (carry_step A c m @ ms) ((c @ [m]) @ ms)" by (rule list_emb_append_mono) simp
  with Cons show ?case by (simp del: carry_step.simps) (blast intro: subseq_order.order_trans)
qed simp

text \<open>Every carried answer stands behind the request it answers.\<close>

fun answers_behind :: "string set \<Rightarrow> chat_message list \<Rightarrow> bool" where
  "answers_behind requested [] = True"
| "answers_behind requested (m # ms) =
     (answer_ids m \<subseteq> requested \<and> answers_behind (requested \<union> tool_call_ids m) ms)"

lemma answers_behind_snoc:
  "answers_behind R (ms @ [m]) \<longleftrightarrow> answers_behind R ms \<and> answer_ids m \<subseteq> R \<union> requested_ids ms"
  by (induction ms arbitrary: R) (auto simp: Un_assoc)

lemma answer_ids_meet: "answer_ids m \<inter> R \<noteq> {} \<Longrightarrow> answer_ids m \<subseteq> R"
  by (cases m) auto

lemma carried_answers_behind:
  "answers_behind {} c \<Longrightarrow> answers_behind {} (foldl (carry_step A) c ms)"
proof (induction ms arbitrary: c)
  case (Cons m ms)
  have "answers_behind {} (carry_step A c m)"
    using Cons.prems tool_call_ids_answer_ids [of m] answer_ids_meet [of m "requested_ids c"]
    by (simp add: carry_step_effect answers_behind_snoc complete_request_def) blast
  with Cons.IH show ?case by simp
qed simp

lemma answers_behind_answered: "answers_behind R ms \<Longrightarrow> answered_ids ms \<subseteq> R \<union> requested_ids ms"
  by (induction ms arbitrary: R) auto

text \<open>The transcript's own order: an answered request is answered after it was made.\<close>

fun answers_follow :: "string set \<Rightarrow> chat_message list \<Rightarrow> bool" where
  "answers_follow answered [] = True"
| "answers_follow answered (m # ms) =
     (tool_call_ids m \<inter> answered \<subseteq> answered_ids ms \<and> answers_follow answered ms)"

lemma carry_step_requested:
  "requested_ids (carry_step A c m) = requested_ids c \<union> (if complete_request A m then tool_call_ids m else {})"
  using tool_call_ids_answer_ids [of m] by (auto simp: carry_step_effect)

lemma carried_keeps: "x \<in> answered_ids c \<Longrightarrow> x \<in> answered_ids (foldl (carry_step A) c ms)"
  by (induction ms arbitrary: c) (auto simp: carry_step_effect simp del: carry_step.simps)

lemma carried_answers:
  "answers_follow A ms \<Longrightarrow>
   requested_ids c \<inter> answered_ids ms \<union> requested_ids (filter (complete_request A) ms) \<subseteq>
   answered_ids (foldl (carry_step A) c ms)"
proof (induction ms arbitrary: c)
  case (Cons m ms)
  let ?c = "carry_step A c m"
  from Cons have ih: "requested_ids ?c \<inter> answered_ids ms \<union> requested_ids (filter (complete_request A) ms)
      \<subseteq> answered_ids (foldl (carry_step A) ?c ms)" by simp
  have now: "requested_ids c \<inter> answer_ids m \<subseteq> answered_ids (foldl (carry_step A) ?c ms)"
  proof
    fix x assume "x \<in> requested_ids c \<inter> answer_ids m"
    then have "x \<in> answered_ids ?c" by (auto simp: carry_step_effect)
    then show "x \<in> answered_ids (foldl (carry_step A) ?c ms)" by (rule carried_keeps)
  qed
  have "complete_request A m \<Longrightarrow> tool_call_ids m \<subseteq> answered_ids ms"
    using Cons.prems by (auto simp: complete_request_def)
  with ih now show ?case by (simp add: carry_step_requested Int_Un_distrib split: if_splits) blast
qed simp

text \<open>
  What one epoch hands the next. The carried messages are a subsequence of what was produced, in
  its order; the requests among them are exactly the requests whose every call was answered; each
  carried answer stands behind its request; and when the transcript answers its calls after making
  them, every carried call is paired with its answer.
\<close>

theorem carried_rounds_paired:
  shows "subseq (carry_messages ms) ms \<and>
    filter (\<lambda>m. tool_call_ids m \<noteq> {}) (carry_messages ms) = filter (complete_request (answered_ids ms)) ms \<and>
    answers_behind {} (carry_messages ms) \<and>
    (answers_follow (answered_ids ms) ms \<longrightarrow> pairs_are_intact (carry_messages ms))"
proof -
  let ?A = "answered_ids ms"
  have "requested_ids xs = requested_ids (filter (\<lambda>m. tool_call_ids m \<noteq> {}) xs)" for xs
    by (induction xs) auto
  then have requested: "requested_ids (carry_messages ms) = requested_ids (filter (complete_request ?A) ms)"
    using carried_requests [of ?A "[]" ms] by (metis append_Nil carry_messages_def filter.simps(1))
  have behind: "answers_behind {} (carry_messages ms)"
    unfolding carry_messages_def by (rule carried_answers_behind) simp
  have "answers_follow ?A ms \<Longrightarrow> pairs_are_intact (carry_messages ms)"
    using carried_answers [of ?A ms "[]"] answers_behind_answered [OF behind] requested
    by (auto simp: pairs_are_intact_def carry_messages_def)
  with behind carried_subseq [of ?A "[]" ms] carried_requests [of ?A "[]" ms] show ?thesis
    by (simp add: carry_messages_def)
qed

definition demo_round :: "chat_message list" where
  "demo_round = [HumanMessage ''q'', AIMessage [] [Some ''a''], ToolMessage ''hit'' ''a'',
     AIMessage [] [Some ''b''], AIMessage ''done'' []]"

theorem carried_rounds_paired_witness:
  "pairs_are_intact (carry_messages demo_round) \<and>
   carry_messages demo_round = [AIMessage [] [Some ''a''], ToolMessage ''hit'' ''a'']"
proof -
  have "answers_follow (answered_ids demo_round) demo_round"
    by (auto simp: demo_round_def call_id_text_def)
  moreover have "carry_messages demo_round = [AIMessage [] [Some ''a''], ToolMessage ''hit'' ''a'']"
    by (simp add: carry_messages_def demo_round_def call_id_text_def)
  ultimately show ?thesis using carried_rounds_paired [of demo_round] by simp
qed

text \<open>
  A half round is not always dropped: an answer that precedes its request is dropped while the
  request is kept, so the next epoch is sent an unanswered call.
\<close>

theorem early_answer_breaks_pair:
  "carry_messages [ToolMessage result i, AIMessage content [Some i]] = [AIMessage content [Some i]] \<and>
   \<not> pairs_are_intact (carry_messages [ToolMessage result i, AIMessage content [Some i]])"
  by (simp add: carry_messages_def pairs_are_intact_def call_id_text_def)

section \<open>Epochs\<close>

lemma begin_epoch_valid:
  "budget_valid (acc_state a) \<Longrightarrow> 0 \<le> e \<Longrightarrow> budget_valid (acc_state (begin_epoch e a))"
  by (simp add: budget_valid_def)

lemma fresh_budget_valid: "budget_valid fresh_budget"
  by (simp add: budget_valid_def fresh_budget_def)

lemma note_op_valid:
  assumes "budget_valid (acc_state a)" and "note_op op a = (d, a')"
  shows "budget_valid (acc_state a')"
  using assms
  by (cases op; auto simp: note_tool_call_def note_model_call_def budget_valid_def Let_def split: if_splits)

lemma note_ops_valid:
  "budget_valid (acc_state a) \<Longrightarrow> note_ops ops a = (ds, a') \<Longrightarrow> budget_valid (acc_state a')"
proof (induction ops arbitrary: a ds)
  case (Cons op ops)
  from Cons.prems(2) show ?case
  proof (cases rule: note_ops_Cons)
    case (1 d a1 ds')
    with Cons.IH [OF note_op_valid [OF Cons.prems(1) 1(1)]] show ?thesis by blast
  qed
qed simp

text \<open>
  The specialist's accountant (\<^verbatim>\<open>specialists.py\<close>, \<^verbatim>\<open>_budget_accountant\<close>): the carried budget when it can
  be read, else a first epoch's.
\<close>

definition budget_accountant ::
  "((string \<times> pyval) list \<Rightarrow> budget_state option) \<Rightarrow> budget_limits \<Rightarrow> turn_state \<Rightarrow> accountant" where
  "budget_accountant read l st =
     new_accountant l (case gs_execution_budget st of None \<Rightarrow> None | Some b \<Rightarrow> read b)"

lemma new_accountant_simps [simp]:
  "acc_limits (new_accountant l s) = l" "acc_state (new_accountant l (Some b)) = b"
  "acc_state (new_accountant l None) = fresh_budget"
  by (simp_all add: new_accountant_def)

lemma start_next_epoch_cases:
  assumes "start_next_epoch read settings st = NextEpoch node u"
  obtains l where "limits_from_settings settings = Some l"
    "resolve_node_for_agent_id (gs_active_agent_id st) = Some node"
    "eu_execution_epoch u = gs_execution_epoch st + 1"
    "eu_execution_budget u = dump_budget (acc_state (begin_epoch (gs_execution_epoch st + 1)
       (new_accountant l (if state_budget st = [] then None else read (state_budget st)))))"
    "eu_carried_messages u =
       carry_messages (case gs_agent_outcome st of None \<Rightarrow> [] | Some o1 \<Rightarrow> op_private_messages (ro_provenance o1))"
  using assms
  by (auto simp: start_next_epoch_def next_epoch_budget_def Let_def split: option.splits if_splits)

lemma continuation_pause_cases:
  assumes "continuation_pause read settings auto_continue answer st = NextEpoch node u"
  shows "start_next_epoch read settings st = NextEpoch node u" and "0 \<le> gs_execution_epoch st"
    and "rolls_over auto_continue (pause_payload_of st) \<or>
      (\<exists>decision. answer = Some decision \<and> read_decision decision = (True, gs_execution_epoch st))"
  using assms by (auto simp: continuation_pause_def Let_def split: if_splits option.splits prod.splits)

lemma pause_payload_simps [simp]:
  "pp_budget (pause_payload_of st) = state_budget st"
  "pp_mutation_outcome_unknown (pause_payload_of st) = mutation_outcome_unknown (gs_agent_outcome st)"
  by (simp_all add: pause_payload_of_def Let_def)

lemma dump_budget_not_Nil [simp]: "dump_budget s \<noteq> []"
  by (simp add: dump_budget_def)

text \<open>
  An epoch starts only by the turn's own rollover, which an undecided side effect or a hard limit
  forbids, or by a decision to continue that names exactly the epoch the turn is at. It goes back to
  the agent that was active, counts one epoch up, carries the evidence, gives the epoch its own
  counters back and keeps the totals of the turn.
\<close>

theorem epoch_starts_by_decision:
  assumes "continuation_pause read settings auto_continue answer st = NextEpoch node u"
    and "gs_execution_budget st = Some (dump_budget s)" and "read (dump_budget s) = Some s"
  shows "(auto_continue \<and> \<not> mutation_outcome_unknown (gs_agent_outcome st) \<and>
        bs_exhausted_by s \<noteq> Some HardLimit \<or>
        (\<exists>decision. answer = Some decision \<and> read_decision decision = (True, gs_execution_epoch st))) \<and>
    resolve_node_for_agent_id (gs_active_agent_id st) = Some node \<and>
    eu_execution_epoch u = gs_execution_epoch st + 1 \<and>
    eu_carried_messages u =
      carry_messages (case gs_agent_outcome st of None \<Rightarrow> [] | Some o1 \<Rightarrow> op_private_messages (ro_provenance o1)) \<and>
    eu_execution_budget u = dump_budget
      (s\<lparr>bs_execution_epoch := gs_execution_epoch st + 1, bs_model_calls := 0, bs_tool_calls := 0,
         bs_forced_synthesis := False, bs_exhausted_by := None,
         bs_epochs_used := gs_execution_epoch st + 2\<rparr>)"
proof -
  have budget: "state_budget st = dump_budget s" using assms(2) by (simp add: state_budget_def)
  have "pget (dump_budget s) ''exhausted_by'' = PStr ''hard_limit'' \<longleftrightarrow> bs_exhausted_by s = Some HardLimit"
    by (cases "bs_exhausted_by s"; cases "the (bs_exhausted_by s)") (auto simp: pget_def dump_budget_def)
  with continuation_pause_cases(3) [OF assms(1)] budget
  have decided: "auto_continue \<and> \<not> mutation_outcome_unknown (gs_agent_outcome st) \<and>
        bs_exhausted_by s \<noteq> Some HardLimit \<or>
        (\<exists>decision. answer = Some decision \<and> read_decision decision = (True, gs_execution_epoch st))"
    by (auto simp: rolls_over_def)
  from continuation_pause_cases(1) [OF assms(1)] show ?thesis
    by (rule start_next_epoch_cases) (use decided in \<open>simp add: budget assms(3) begin_epoch_def ac_simps\<close>)
qed

definition paused_turn :: turn_state where
  "paused_turn = apply_node
     \<lparr>nc_goto = ''continuation_pause'', nc_agent_outcome = Some (with_policy_ids demo_policies demo_outcome),
      nc_execution_phase = ''paused'', nc_workflow_error = None\<rparr>
     (demo_turn (force ModelCalls fresh_budget))"

lemma paused_turn_simps [simp]:
  "gs_execution_budget paused_turn = Some (dump_budget (force ModelCalls fresh_budget))"
  "gs_execution_epoch paused_turn = 0" "gs_active_agent_id paused_turn = Some ''rag_agent''"
  "gs_agent_outcome paused_turn = Some (with_policy_ids demo_policies demo_outcome)"
  by (simp_all add: paused_turn_def apply_node_def demo_turn_def)

definition next_demo_budget :: budget_state where
  "next_demo_budget = acc_state (begin_epoch 1 (new_accountant default_limits (Some (force ModelCalls fresh_budget))))"

definition demo_epoch_update :: epoch_update where
  "demo_epoch_update =
     \<lparr>eu_execution_epoch = 1, eu_execution_budget = dump_budget next_demo_budget,
      eu_carried_messages = [], eu_carried_web_sources = []\<rparr>"

lemma demo_start:
  "start_next_epoch read_budget (\<lambda>_. None) paused_turn = NextEpoch ''rag_agent'' demo_epoch_update"
proof -
  have "resolve_node_for_agent_id (Some ''rag_agent'') = Some ''rag_agent''"
    by (simp add: resolve_node_for_agent_id_def CUSTOM_AGENT_PREFIX_def override_node_def
        BASE_AGENT_NODE_OVERRIDES_def)
  then show ?thesis
    by (simp add: start_next_epoch_def next_epoch_budget_def default_limits state_budget_def
        read_budget_dump demo_epoch_update_def next_demo_budget_def demo_outcome_def carry_messages_def)
qed

lemma demo_continue:
  "continuation_pause read_budget (\<lambda>_. None) False (Some (ContinuationResume True ''c'' 0)) paused_turn =
   NextEpoch ''rag_agent'' demo_epoch_update"
  by (simp add: continuation_pause_def rolls_over_def demo_start)

theorem epoch_starts_by_decision_witness:
  "eu_execution_epoch demo_epoch_update = 1"
  using epoch_starts_by_decision [OF demo_continue _ read_budget_dump] by simp

section \<open>A turn of several epochs\<close>

text \<open>
  One epoch of a turn and its rollover: the specialists spend calls on the accountant of the epoch (and
  may hit the hard limit) and leave any outcome and any active agent; the answer validates with an
  exhausted budget and the pause starts the next epoch. \<open>hard\<close> tells whether the hard limit fired.
\<close>

definition epoch_budget :: "bool \<Rightarrow> budget_op list \<Rightarrow> accountant \<Rightarrow> budget_state" where
  "epoch_budget hard ops a =
     (let a' = snd (note_ops ops a) in acc_state (if hard then note_hard_limit a' else a'))"

inductive epoch_step ::
  "((string \<times> pyval) list \<Rightarrow> budget_state option) \<Rightarrow> (string \<Rightarrow> int option) \<Rightarrow> bool
     \<Rightarrow> turn_state \<Rightarrow> turn_state \<Rightarrow> bool"
  for read settings auto_continue where
  rollover: "limits_from_settings settings = Some l \<Longrightarrow>
     gs_execution_budget work = Some (dump_budget (epoch_budget hard ops (budget_accountant read l st))) \<Longrightarrow>
     gs_execution_epoch work = gs_execution_epoch st \<Longrightarrow>
     nc_goto (validate_output_node read settings work) = ''continuation_pause'' \<Longrightarrow>
     paused = apply_node (validate_output_node read settings work) work \<Longrightarrow>
     continuation_pause read settings auto_continue answer paused = NextEpoch node u \<Longrightarrow>
     epoch_step read settings auto_continue st (apply_epoch u paused)"

text \<open>The budget of the epoch the turn is at: valid, and counting the epochs the graph counts.\<close>

definition epoch_consistent ::
  "((string \<times> pyval) list \<Rightarrow> budget_state option) \<Rightarrow> turn_state \<Rightarrow> bool" where
  "epoch_consistent read st \<longleftrightarrow>
     0 \<le> gs_execution_epoch st \<and>
     (\<forall>l. budget_valid (acc_state (budget_accountant read l st)) \<and>
          bs_epochs_used (acc_state (budget_accountant read l st)) = gs_execution_epoch st + 1)"

lemma epoch_budget_effect:
  assumes "budget_valid (acc_state a)"
  shows "budget_valid (epoch_budget hard ops a)"
    and "bs_epochs_used (epoch_budget hard ops a) = bs_epochs_used (acc_state a)"
proof -
  obtain ds a' where run: "note_ops ops a = (ds, a')" by (cases "note_ops ops a")
  from note_ops_valid [OF assms run] show "budget_valid (epoch_budget hard ops a)"
    by (simp add: epoch_budget_def run note_hard_limit_def budget_valid_def)
  from note_ops_totals [OF run] show "bs_epochs_used (epoch_budget hard ops a) = bs_epochs_used (acc_state a)"
    by (simp add: epoch_budget_def run note_hard_limit_def)
qed

lemma apply_node_simps [simp]:
  "gs_execution_budget (apply_node c st) = gs_execution_budget st"
  "gs_execution_epoch (apply_node c st) = gs_execution_epoch st"
  "gs_active_agent_id (apply_node c st) = gs_active_agent_id st"
  by (simp_all add: apply_node_def)

lemma apply_epoch_simps [simp]:
  "gs_execution_budget (apply_epoch u st) = Some (eu_execution_budget u)"
  "gs_execution_epoch (apply_epoch u st) = eu_execution_epoch u"
  by (simp_all add: apply_epoch_def)

lemma budget_accountant_read:
  assumes "gs_execution_budget st = Some b" and "read b = Some s"
  shows "acc_state (budget_accountant read l st) = s"
  using assms by (simp add: budget_accountant_def)

lemma epoch_step_advances:
  assumes "epoch_step read settings auto_continue st st'"
    and read: "\<And>s. budget_valid s \<Longrightarrow> read (dump_budget s) = Some s"
    and limits: "limits_from_settings settings = Some l"
    and "epoch_consistent read st"
  shows "gs_execution_epoch st' = gs_execution_epoch st + 1 \<and> epoch_consistent read st' \<and>
    gs_execution_epoch st' < bl_total_epochs_per_turn l"
  using assms(1)
proof (cases rule: epoch_step.cases)
  case (rollover l' work hard ops paused answer node u)
  let ?s = "epoch_budget hard ops (budget_accountant read l' st)"
  have valid: "budget_valid ?s" and used: "bs_epochs_used ?s = gs_execution_epoch st + 1"
    using epoch_budget_effect assms(4) by (auto simp: epoch_consistent_def)
  from pause_offered_iff [where read = read, OF rollover(3) read [OF valid] limits] rollover(5) used
  have room: "gs_execution_epoch st + 1 < bl_total_epochs_per_turn l" by simp
  have budget: "gs_execution_budget paused = Some (dump_budget ?s)" using rollover(3,6) by simp
  have epoch: "gs_execution_epoch paused = gs_execution_epoch st" using rollover(4,6) by simp
  from continuation_pause_cases(1) [OF rollover(7)] obtain l2 where
    u: "eu_execution_epoch u = gs_execution_epoch st + 1"
    "eu_execution_budget u = dump_budget (acc_state (begin_epoch (gs_execution_epoch st + 1) (new_accountant l2 (Some ?s))))"
    by (rule start_next_epoch_cases) (simp add: epoch state_budget_def budget read [OF valid])
  have "0 \<le> gs_execution_epoch st" using assms(4) by (simp add: epoch_consistent_def)
  then have valid': "budget_valid (acc_state (begin_epoch (gs_execution_epoch st + 1) (new_accountant l2 (Some ?s))))"
    using begin_epoch_valid valid by simp
  have "acc_state (budget_accountant read l3 st') =
      acc_state (begin_epoch (gs_execution_epoch st + 1) (new_accountant l2 (Some ?s)))" for l3
  proof (rule budget_accountant_read)
    show "gs_execution_budget st' = Some (eu_execution_budget u)" by (simp add: rollover(1))
    show "read (eu_execution_budget u) =
        Some (acc_state (begin_epoch (gs_execution_epoch st + 1) (new_accountant l2 (Some ?s))))"
      unfolding u(2) by (rule read [OF valid'])
  qed
  then have "epoch_consistent read st'"
    unfolding epoch_consistent_def using valid' \<open>0 \<le> _\<close> by (simp add: rollover(1) u(1))
  with room show ?thesis by (simp add: rollover(1) u(1))
qed

text \<open>
  C5: a turn has a bounded number of epochs, whoever continues it. From a turn at its first epoch, each
  rollover counts one epoch up, and no run of rollovers, automatic or asked for, is longer than the
  epochs configured for a turn allow.
\<close>

theorem turn_epochs_bounded:
  assumes "\<And>s. budget_valid s \<Longrightarrow> read (dump_budget s) = Some s"
    and "limits_from_settings settings = Some l"
    and "gs_execution_epoch st = 0" and "gs_execution_budget st = None"
    and "(epoch_step read settings auto_continue ^^ n) st st'"
  shows "gs_execution_epoch st' = int n \<and> int n < bl_total_epochs_per_turn l"
proof -
  have start: "epoch_consistent read st"
    using assms(3,4) fresh_budget_valid
    by (simp add: epoch_consistent_def budget_accountant_def) (simp add: fresh_budget_def)
  have "(epoch_step read settings auto_continue ^^ n) st st' \<Longrightarrow>
      gs_execution_epoch st' = int n \<and> epoch_consistent read st' \<and> (n = 0 \<or> int n < bl_total_epochs_per_turn l)"
  proof (induction n arbitrary: st')
    case 0
    with start assms(3) show ?case by simp
  next
    case (Suc n)
    then obtain mid where mid: "(epoch_step read settings auto_continue ^^ n) st mid"
      "epoch_step read settings auto_continue mid st'" by auto
    with Suc.IH [OF mid(1)] epoch_step_advances [OF mid(2) assms(1,2)] show ?case by auto
  qed
  moreover have "1 \<le> bl_total_epochs_per_turn l"
    using assms(2) by (auto simp: limits_from_settings_def limits_valid_def Let_def split: if_splits)
  ultimately show ?thesis using assms(5) by auto
qed

definition first_turn :: turn_state where
  "first_turn = (demo_turn fresh_budget)\<lparr>gs_execution_budget := None\<rparr>"

text \<open>With a soft limit of one call the first model call already answers, and its epoch is exhausted.\<close>

definition small_settings :: "string \<Rightarrow> int option" where
  "small_settings name = (if name = ''generation_soft_model_calls_per_epoch'' then Some 1 else None)"

lemma small_limits: "limits_from_settings small_settings = Some (default_limits\<lparr>bl_soft_model_calls := 1\<rparr>)"
  by (simp add: small_settings_def limits_from_settings_def setting_def DEFAULT_LIMITS_def
      limits_valid_def default_limits_def)

lemma demo_epoch_step:
  "\<exists>st'. epoch_step read_budget small_settings True first_turn st'"
proof -
  let ?l = "default_limits\<lparr>bl_soft_model_calls := 1\<rparr>"
  let ?s = "epoch_budget False [ModelOp False] (budget_accountant read_budget ?l first_turn)"
  let ?work = "first_turn\<lparr>gs_execution_budget := Some (dump_budget ?s)\<rparr>"
  let ?paused = "apply_node (validate_output_node read_budget small_settings ?work) ?work"
  have s: "bs_exhausted_by ?s = Some ModelCalls" "bs_epochs_used ?s = 1"
    by (simp_all add: epoch_budget_def budget_accountant_def first_turn_def Let_def note_model_call_def
        fresh_budget_def default_limits_def force_def)
  have outcome: "gs_agent_outcome ?work = Some demo_outcome" by (simp add: first_turn_def demo_turn_def)
  have "nc_goto (validate_output_node read_budget small_settings ?work) = ''continuation_pause''"
    using pause_offered_iff [where read = read_budget, OF _ read_budget_dump small_limits, of ?work ?s]
      demo_validated outcome s by (simp add: default_limits_def)
  moreover have "\<exists>node u. continuation_pause read_budget small_settings True None ?paused = NextEpoch node u"
  proof -
    have "resolve_node_for_agent_id (Some ''rag_agent'') = Some ''rag_agent''"
      by (simp add: resolve_node_for_agent_id_def CUSTOM_AGENT_PREFIX_def override_node_def
          BASE_AGENT_NODE_OVERRIDES_def)
    moreover have "gs_active_agent_id ?paused = Some ''rag_agent''" "gs_execution_epoch ?paused = 0"
      by (simp_all add: first_turn_def demo_turn_def)
    moreover have "\<not> mutation_outcome_unknown (gs_agent_outcome ?paused)"
      using outcome demo_validated
      by (simp add: validate_output_node_def apply_node_def mutation_outcome_unknown_def)
        (simp add: demo_outcome_def demo_metadata_def)
    moreover have "pget (state_budget ?paused) ''exhausted_by'' = PStr ''model_calls''"
      using s(1) by (simp add: state_budget_def pget_def dump_budget_def)
    ultimately show ?thesis
      by (simp add: continuation_pause_def rolls_over_def start_next_epoch_def next_epoch_budget_def small_limits)
  qed
  ultimately show ?thesis
    using epoch_step.rollover [where read = read_budget, OF small_limits, of ?work False "[ModelOp False]" first_turn]
    by fastforce
qed

theorem turn_epochs_bounded_witness:
  "\<exists>st'. (epoch_step read_budget small_settings True ^^ 1) first_turn st' \<and> gs_execution_epoch st' = 1"
proof -
  obtain st' where step: "(epoch_step read_budget small_settings True ^^ 1) first_turn st'"
    using demo_epoch_step by auto
  have "gs_execution_epoch first_turn = 0" "gs_execution_budget first_turn = None"
    by (simp_all add: first_turn_def demo_turn_def)
  from turn_epochs_bounded [where read = read_budget, OF read_budget_dump small_limits this step] step
  show ?thesis by auto
qed

end
