(* ===== verification/PlanningTurn.thy ===== *)
theory PlanningTurn
  imports Planning Continuation "HOL-Library.Multiset"
begin

text \<open>
  A turn of Planning as the outer graph runs its nodes: the model node with any answer of the model,
  the fan-out of a dispatch to its workers, who end in any order, the collection of their results, the
  todo node and the packaging. A paused worker takes no step. \<open>good\<close> says which calls the
  model may make; it is trivial where nothing about them is assumed.
\<close>

section \<open>The machine\<close>

datatype planning_pos =
    At planning_node
  | Working "worker_task list"
  | Raised
  | Clashed

inductive planning_step ::
  "planning_env \<Rightarrow> (planning_state \<Rightarrow> call_request list \<Rightarrow> bool)
     \<Rightarrow> planning_pos \<times> planning_state \<Rightarrow> planning_pos \<times> planning_state \<Rightarrow> bool"
  for env good where
  model: "good st calls \<Longrightarrow> planning_model env remaining content calls st = Some (st', goto) \<Longrightarrow>
    planning_step env good (At PlanningModel, st) (At goto, st')"
| model_raises: "good st calls \<Longrightarrow> planning_model env remaining content calls st = None \<Longrightarrow>
    planning_step env good (At PlanningModel, st) (Raised, st)"
| dispatch: "planning_dispatch_sends st \<noteq> [] \<Longrightarrow>
    planning_step env good (At PlanningDispatch, st) (Working (map fst (planning_dispatch_sends st)), st)"
| no_dispatch: "planning_dispatch_sends st = [] \<Longrightarrow>
    planning_step env good (At PlanningDispatch, st) (At PlanningModel, st)"
| worker: "run_worker task exit = Some r \<Longrightarrow>
    append_worker_results (Many (ps_worker_results st)) (One r) = Inr results \<Longrightarrow>
    planning_step env good (Working (before @ task # after), st)
      (Working (before @ after), st\<lparr>ps_worker_results := results\<rparr>)"
| worker_clash: "run_worker task exit = Some r \<Longrightarrow>
    append_worker_results (Many (ps_worker_results st)) (One r) = Inl e \<Longrightarrow>
    planning_step env good (Working (before @ task # after), st) (Clashed, st)"
| gathered: "planning_step env good (Working [], st) (At PlanningCollect, st)"
| collect: "planning_collect env st = (st', goto) \<Longrightarrow> planning_step env good (At PlanningCollect, st) (At goto, st')"
| actions: "planning_actions env st = (st', goto) \<Longrightarrow> planning_step env good (At PlanningActions, st) (At goto, st')"
| package: "planning_package st = (st', goto) \<Longrightarrow> planning_step env good (At PlanningPackage, st) (At goto, st')"

inductive_cases planning_stepE: "planning_step env good (pos, st) c"

definition any_calls :: "planning_state \<Rightarrow> call_request list \<Rightarrow> bool" where
  "any_calls st calls = True"

text \<open>A turn begins with nothing dispatched.\<close>

definition turn_start :: "planning_state \<Rightarrow> bool" where
  "turn_start st \<longleftrightarrow>
     ps_dispatch st = None \<and> ps_dispatch_waves st = 0 \<and> ps_dispatched_task_count st = 0 \<and> ps_worker_results st = []"

definition planning_reaches ::
  "planning_env \<Rightarrow> (planning_state \<Rightarrow> call_request list \<Rightarrow> bool) \<Rightarrow> planning_state
     \<Rightarrow> planning_pos \<times> planning_state \<Rightarrow> bool" where
  "planning_reaches env good st c \<longleftrightarrow> turn_start st \<and> (planning_step env good)\<^sup>*\<^sup>* (At PlanningModel, st) c"

lemma planning_reaches_induct [consumes 1, case_names start step]:
  assumes "planning_reaches env good st0 c"
    and "turn_start st0 \<Longrightarrow> P (At PlanningModel, st0)"
    and "\<And>c c'. planning_reaches env good st0 c \<Longrightarrow> P c \<Longrightarrow> planning_step env good c c' \<Longrightarrow> P c'"
  shows "P c"
proof -
  from assms(1) have start: "turn_start st0" and run: "(planning_step env good)\<^sup>*\<^sup>* (At PlanningModel, st0) c"
    by (simp_all add: planning_reaches_def)
  from run show ?thesis
  proof (induction rule: rtranclp_induct)
    case base
    from assms(2) [OF start] show ?case .
  next
    case (step c c')
    with start show ?case by (intro assms(3) [of c c']) (auto simp: planning_reaches_def)
  qed
qed

section \<open>What the nodes keep\<close>

lemma add_messages_simps [simp]:
  "ps_messages (add_messages ms st) = ps_messages st @ ms"
  "ps_dispatch (add_messages ms st) = ps_dispatch st"
  "ps_dispatch_waves (add_messages ms st) = ps_dispatch_waves st"
  "ps_dispatched_task_count (add_messages ms st) = ps_dispatched_task_count st"
  "ps_worker_results (add_messages ms st) = ps_worker_results st"
  "ps_execution_budget (add_messages ms st) = ps_execution_budget st"
  "ps_call_count (add_messages ms st) = ps_call_count st"
  by (simp_all add: add_messages_def)

lemma run_turn_todos_keeps:
  assumes "run_turn_todos env st calls = (ms, st')"
  shows "ps_messages st' = ps_messages st" and "ps_dispatch st' = ps_dispatch st"
    and "ps_dispatch_waves st' = ps_dispatch_waves st"
    and "ps_dispatched_task_count st' = ps_dispatched_task_count st"
    and "ps_worker_results st' = ps_worker_results st"
    and "ps_execution_budget st' = ps_execution_budget st" and "ps_call_count st' = ps_call_count st"
  using assms by (auto simp: run_turn_todos_def Let_def split: if_splits)

lemma with_callers_todos_simps [simp]:
  "ps_messages (with_callers_todos env calls st) = ps_messages st"
  "ps_dispatch_waves (with_callers_todos env calls st) = ps_dispatch_waves st"
  "ps_dispatched_task_count (with_callers_todos env calls st) = ps_dispatched_task_count st"
  "ps_model_request (with_callers_todos env calls st) = ps_model_request st"
  by (simp_all add: with_callers_todos_def)

text \<open>A task the server may run: one of its own tools, for a routable agent, never Planning itself.\<close>

definition task_ok :: "planning_env \<Rightarrow> worker_task \<Rightarrow> bool" where
  "task_ok env t \<longleftrightarrow>
     wt_agent_id t \<noteq> PLANNING_AGENT_ID \<and> is_routable (pe_inventory env) (Some (wt_agent_id t)) \<and>
     length (wt_objective t) \<le> pl_objective_max_chars (pe_limits env) \<and>
     wt_allowed_tool_ids t = pe_allowed_tools env (wt_agent_id t) \<and>
     length (encode_parent_context (wt_parent_context t)) \<le> pl_parent_context_max_chars (pe_limits env)"

text \<open>A dispatch that may be pending in a state.\<close>

definition dispatch_ok :: "planning_env \<Rightarrow> planning_state \<Rightarrow> planning_dispatch \<Rightarrow> bool" where
  "dispatch_ok env st d \<longleftrightarrow>
     pd_wave d = ps_dispatch_waves st + 1 \<and> pd_wave d \<le> pl_max_dispatch_waves (pe_limits env) \<and>
     ps_dispatched_task_count st + length (pd_tasks d) \<le> pl_max_tasks (pe_limits env) \<and>
     pd_tool_call_id d \<noteq> [] \<and>
     pd_dispatch_id d = dispatch_identity (pe_sha256 env) (pd_tool_call_id d) (pd_wave d) \<and>
     distinct (map wt_task_id (pd_tasks d)) \<and> pd_tasks d \<noteq> [] \<and>
     map wt_position (pd_tasks d) = map int [0..<length (pd_tasks d)] \<and>
     (\<forall>t \<in> set (pd_tasks d). wt_dispatch_id t = pd_dispatch_id d \<and> task_ok env t)"

lemma check_tasks_None:
  "check_tasks limits ri ts = None \<Longrightarrow> p \<in> set ts \<Longrightarrow>
   tp_agent_id p \<noteq> PLANNING_AGENT_ID \<and> is_routable ri (Some (tp_agent_id p)) \<and>
   length (tp_objective p) \<le> pl_objective_max_chars limits"
  by (induction ts) (auto split: if_splits)

lemma make_task_simps [simp]:
  "wt_task_id (make_task env st c d ip) = tp_task_id (snd ip)"
  "wt_dispatch_id (make_task env st c d ip) = d"
  "wt_position (make_task env st c d ip) = int (fst ip)"
  "wt_agent_id (make_task env st c d ip) = tp_agent_id (snd ip)"
  "wt_objective (make_task env st c d ip) = tp_objective (snd ip)"
  "wt_allowed_tool_ids (make_task env st c d ip) = pe_allowed_tools env (tp_agent_id (snd ip))"
  "wt_parent_context (make_task env st c d ip) = c"
  by (simp_all add: make_task_def case_prod_unfold)

lemma read_dispatch_input_nonempty: "read_dispatch_input args = Some ts \<Longrightarrow> ts \<noteq> []"
proof -
  have "sequence_opt xs = Some ys \<Longrightarrow> length ys = length xs" for xs :: "task_proposal option list" and ys
    by (induction xs arbitrary: ys rule: sequence_opt.induct) auto
  then show "read_dispatch_input args = Some ts \<Longrightarrow> ts \<noteq> []"
    by (fastforce simp: read_dispatch_input_def split: if_splits option.splits)
qed

lemma build_parent_context_bounded:
  "build_parent_context limits st = Some c \<Longrightarrow>
   length (encode_parent_context c) \<le> pl_parent_context_max_chars limits"
  by (auto simp: build_parent_context_def Let_def split: if_splits)

lemma accepted_dispatch:
  assumes "validate_dispatch_call env call st = Accepted d"
  shows "dispatch_ok env st d" and "pd_tool_call_id d = call_id call"
    and "HAND_OFF_TOOL_NAME \<notin> set (sibling_tool_call_names (ps_messages st))"
proof -
  from assms obtain tasks ctx where
      v: "call_id call \<noteq> []" "ps_dispatch_waves st + 1 \<le> pl_max_dispatch_waves (pe_limits env)"
        "read_dispatch_input (cr_args call) = Some tasks" "distinct (map tp_task_id tasks)"
        "ps_dispatched_task_count st + length tasks \<le> pl_max_tasks (pe_limits env)"
        "check_tasks (pe_limits env) (pe_inventory env) tasks = None"
        "build_parent_context (pe_limits env) st = Some ctx"
      and d: "d = \<lparr>pd_dispatch_id = dispatch_identity (pe_sha256 env) (call_id call) (ps_dispatch_waves st + 1),
        pd_tool_call_id = call_id call, pd_wave = ps_dispatch_waves st + 1,
        pd_tasks = map (make_task env st ctx
          (dispatch_identity (pe_sha256 env) (call_id call) (ps_dispatch_waves st + 1))) (enumerate 0 tasks)\<rparr>"
      and h: "HAND_OFF_TOOL_NAME \<notin> set (sibling_tool_call_names (ps_messages st))"
    unfolding validate_dispatch_call_def Let_def by (auto split: if_splits option.splits)
  show "pd_tool_call_id d = call_id call" by (simp add: d)
  show "HAND_OFF_TOOL_NAME \<notin> set (sibling_tool_call_names (ps_messages st))" by (rule h)
  have snd_in: "snd ip \<in> set tasks" if "ip \<in> set (enumerate 0 tasks)" for ip
    using that by (metis list.set_map imageI map_snd_enumerate)
  have ids: "map (tp_task_id \<circ> snd) (enumerate 0 tasks) = map tp_task_id tasks"
    by (metis list.map_comp map_snd_enumerate)
  have pos: "map (int \<circ> fst) (enumerate 0 tasks) = map int [0..<length tasks]"
    by (metis list.map_comp map_fst_enumerate add_0)
  have ne: "tasks \<noteq> []" by (rule read_dispatch_input_nonempty [OF v(3)])
  show "dispatch_ok env st d"
    using v ne check_tasks_None [OF v(6) snd_in] build_parent_context_bounded [OF v(7)] ids pos
    by (auto simp: dispatch_ok_def d task_ok_def comp_def enumerate_eq_zip)
qed

text \<open>What the model node may do to the dispatch.\<close>

lemma route_dispatch_effect:
  assumes "route_dispatch env st (AgentTurn content calls) calls = Some (st', goto)"
  shows "ps_dispatch_waves st' = ps_dispatch_waves st \<and>
    ps_dispatched_task_count st' = ps_dispatched_task_count st \<and> ps_worker_results st' = ps_worker_results st \<and>
    (goto = PlanningModel \<and> ps_dispatch st' = ps_dispatch st \<or>
     goto = PlanningDispatch \<and> (\<exists>d. ps_dispatch st' = Some d \<and> dispatch_ok env st d \<and>
       pd_tool_call_id d = call_id (hd (filter (\<lambda>c. cr_name c = Some DISPATCH_CONTROL_TOOL_NAME) calls))))"
proof -
  obtain ms st1 where t: "run_turn_todos env st calls = (ms, st1)" by fastforce
  note keeps = run_turn_todos_keeps [OF t]
  have acc: "dispatch_ok env st d \<and> pd_tool_call_id d = call_id c"
    if "validate_dispatch_call env c (add_messages [AgentTurn content calls] (with_callers_todos env calls st)) = Accepted d"
    for c d
    using accepted_dispatch(1,2) [OF that] by (simp add: dispatch_ok_def)
  show ?thesis
    using assms keeps acc
    by (auto simp: route_dispatch_def t Let_def split: dispatch_verdict.splits)
qed

lemma planning_model_effect:
  assumes "planning_model env remaining content calls st = Some (st', goto)"
  shows "ps_dispatch_waves st' = ps_dispatch_waves st \<and>
    ps_dispatched_task_count st' = ps_dispatched_task_count st \<and> ps_worker_results st' = ps_worker_results st \<and>
    (goto \<in> {PlanningModel, PlanningActions, PlanningPackage, ResolveTransition} \<and> ps_dispatch st' = ps_dispatch st \<or>
     goto = PlanningDispatch \<and> (\<exists>d. ps_dispatch st' = Some d \<and> dispatch_ok env st d \<and>
       (\<exists>c \<in> set calls. pd_tool_call_id d = call_id c)))"
proof (cases "bs_forced_synthesis (acc_state (note_planning_turn env remaining st))")
  case True
  with assms show ?thesis by (auto simp: planning_model_def reserved_answer_def Let_def)
next
  case False
  with assms obtain st1 where d: "decide env st content calls = Some (st1, goto)"
    and st': "st' = st1\<lparr>ps_execution_budget := Some (dump_budget (acc_state (note_planning_turn env remaining st))),
      ps_call_count := Some (bs_turn_planning_model_calls (acc_state (note_planning_turn env remaining st)))\<rparr>"
    by (auto simp: planning_model_def Let_def)
  show ?thesis
  proof (cases "calls \<noteq> [] \<and> DISPATCH_CONTROL_TOOL_NAME \<in> set (map (call_name []) calls)")
    case True
    then obtain c where "c \<in> set calls" "call_name [] c = DISPATCH_CONTROL_TOOL_NAME" by auto
    then have "cr_name c = Some DISPATCH_CONTROL_TOOL_NAME"
      by (cases "cr_name c") (auto simp: call_name_def DISPATCH_CONTROL_TOOL_NAME_def split: if_splits)
    with \<open>c \<in> set calls\<close> have "filter (\<lambda>c. cr_name c = Some DISPATCH_CONTROL_TOOL_NAME) calls \<noteq> []"
      by (auto simp: filter_empty_conv)
    then have "hd (filter (\<lambda>c. cr_name c = Some DISPATCH_CONTROL_TOOL_NAME) calls) \<in> set calls"
      using hd_in_set by (metis filter_is_subset subsetD)
    moreover have "route_dispatch env st (AgentTurn content calls) calls = Some (st1, goto)"
      using d True by (auto simp: decide_def Let_def split: if_splits)
    note route_dispatch_effect [OF this]
    ultimately show ?thesis by (auto simp: st')
  next
    case False
    with d show ?thesis
      by (auto simp: st' decide_def route_handoff_def Let_def split: if_splits)
  qed
qed

section \<open>Dispatches stay within their bounds\<close>

definition results_within :: "planning_state \<Rightarrow> nat \<Rightarrow> bool" where
  "results_within st n \<longleftrightarrow> length (ps_worker_results st) \<le> n"

fun planning_inv :: "planning_env \<Rightarrow> planning_pos \<times> planning_state \<Rightarrow> bool" where
  "planning_inv env (pos, st) \<longleftrightarrow>
     ps_dispatch_waves st \<le> pl_max_dispatch_waves (pe_limits env) \<and>
     ps_dispatched_task_count st \<le> pl_max_tasks (pe_limits env) \<and>
     (case pos of
        At PlanningDispatch \<Rightarrow> (\<exists>d. ps_dispatch st = Some d \<and> dispatch_ok env st d) \<and>
          results_within st (ps_dispatched_task_count st)
      | At PlanningCollect \<Rightarrow> (\<exists>d. ps_dispatch st = Some d \<and> dispatch_ok env st d \<and>
          results_within st (ps_dispatched_task_count st + length (pd_tasks d)))
      | At _ \<Rightarrow> ps_dispatch st = None \<and> results_within st (ps_dispatched_task_count st)
      | Working ts \<Rightarrow> (\<exists>d. ps_dispatch st = Some d \<and> dispatch_ok env st d \<and> set ts \<subseteq> set (pd_tasks d) \<and>
          length (ps_worker_results st) + length ts \<le> ps_dispatched_task_count st + length (pd_tasks d))
      | Raised \<Rightarrow> results_within st (pl_max_tasks (pe_limits env))
      | Clashed \<Rightarrow> results_within st (pl_max_tasks (pe_limits env)))"

lemma sends_tasks: "ps_dispatch st = Some d \<Longrightarrow> map fst (planning_dispatch_sends st) = pd_tasks d"
  by (simp add: planning_dispatch_sends_def comp_def)

lemma append_one_result:
  "append_worker_results (Many rs) (One r) =
     (if worker_identity r \<notin> set (map worker_identity rs) then Inr (rs @ [r])
      else Inl (InvalidWorkflowStateUpdate ''duplicate worker result''))"
  by (simp add: append_worker_results_def)

lemma planning_inv_step:
  assumes "planning_inv env c" and "planning_step env good c c'"
  shows "planning_inv env c'"
  using assms(2,1)
proof (cases rule: planning_step.cases)
  case (model st calls remaining content st' goto)
  with planning_model_effect [OF model(4)] assms(1) show ?thesis
    by (auto simp: results_within_def dispatch_ok_def)
next
  case (dispatch st)
  with assms(1) obtain d where d: "ps_dispatch st = Some d" "dispatch_ok env st d" by auto
  with dispatch assms(1) sends_tasks [OF d(1)] show ?thesis by (auto simp: results_within_def)
next
  case (no_dispatch st)
  with assms(1) show ?thesis by (auto simp: planning_dispatch_sends_def dispatch_ok_def)
next
  case (worker task exit r st results before after)
  with assms(1) show ?thesis by (auto simp: append_one_result dispatch_ok_def split: if_splits)
next
  case (collect st st' goto)
  with assms(1) show ?thesis by (auto simp: planning_collect_def dispatch_ok_def results_within_def)
next
  case (actions st st' goto)
  obtain ms st1 where t: "run_turn_todos env st (last_tool_calls (ps_messages st)) = (ms, st1)" by fastforce
  from run_turn_todos_keeps [OF t] actions assms(1) show ?thesis
    by (auto simp: planning_actions_def t Let_def results_within_def)
next
  case (package st st' goto)
  with assms(1) show ?thesis by (auto simp: planning_package_def results_within_def)
qed (auto simp: results_within_def dispatch_ok_def)

lemma planning_reaches_inv: "planning_reaches env good st0 c \<Longrightarrow> planning_inv env c"
proof (induction rule: planning_reaches_induct)
  case start
  then show ?case by (simp add: turn_start_def results_within_def)
next
  case (step c c')
  then show ?case using planning_inv_step by blast
qed

fun working_tasks :: "planning_pos \<Rightarrow> worker_task list" where
  "working_tasks (Working ts) = ts"
| "working_tasks pos = []"

text \<open>
  C17: whatever the model proposes over a turn of Planning, at most the configured number of waves is
  dispatched and of tasks run, and every worker is an agent the inventory routes to, never Planning
  itself, with exactly the tools the server allows it, an objective and a parent context within their
  bounds.
\<close>

theorem planning_dispatch_bounded:
  assumes "planning_reaches env any_calls st0 (pos, st)"
  shows "ps_dispatch_waves st \<le> pl_max_dispatch_waves (pe_limits env) \<and>
    length (ps_worker_results st) + length (working_tasks pos) \<le> pl_max_tasks (pe_limits env) \<and>
    (\<forall>t \<in> set (working_tasks pos). task_ok env t)"
  using planning_reaches_inv [OF assms]
  by (auto simp: results_within_def dispatch_ok_def split: planning_pos.splits planning_node.splits)

section \<open>Every task has its one result\<close>

text \<open>The calls of the turn use ids of \<open>C\<close>, whose dispatch identities do not collide.\<close>

definition ids_within :: "string set \<Rightarrow> planning_state \<Rightarrow> call_request list \<Rightarrow> bool" where
  "ids_within C st calls \<longleftrightarrow> call_id ` set calls \<subseteq> C"

definition identities_differ :: "planning_env \<Rightarrow> string set \<Rightarrow> bool" where
  "identities_differ env C \<longleftrightarrow>
     inj_on (\<lambda>(c, w). dispatch_identity (pe_sha256 env) c w) (C \<times> {1..pl_max_dispatch_waves (pe_limits env)})"

definition identities :: "worker_output list \<Rightarrow> (string \<times> string) list" where
  "identities rs = map worker_identity rs"

definition results_from :: "planning_env \<Rightarrow> string set \<Rightarrow> nat \<Rightarrow> worker_output list \<Rightarrow> bool" where
  "results_from env C n rs \<longleftrightarrow>
     (\<forall>r \<in> set rs. \<exists>c \<in> C. \<exists>w \<in> {1..n}. wr_dispatch_id r = dispatch_identity (pe_sha256 env) c w)"

definition result_slots :: "planning_dispatch \<Rightarrow> worker_output list \<Rightarrow> (string \<times> int) list" where
  "result_slots d rs = map (\<lambda>r. (wr_task_id r, wr_position r)) (filter (\<lambda>r. wr_dispatch_id r = pd_dispatch_id d) rs)"

definition task_slots :: "worker_task list \<Rightarrow> (string \<times> int) list" where
  "task_slots ts = map (\<lambda>t. (wt_task_id t, wt_position t)) ts"

text \<open>A wave at work: what is done and what is left make up the dispatch.\<close>

definition wave_inv :: "planning_env \<Rightarrow> string set \<Rightarrow> planning_state \<Rightarrow> worker_task list \<Rightarrow> bool" where
  "wave_inv env C st ts \<longleftrightarrow>
     (\<exists>d. ps_dispatch st = Some d \<and> dispatch_ok env st d \<and> pd_tool_call_id d \<in> C \<and>
        set ts \<subseteq> set (pd_tasks d) \<and>
        results_from env C (pd_wave d) (ps_worker_results st) \<and>
        mset (result_slots d (ps_worker_results st)) + mset (task_slots ts) = mset (task_slots (pd_tasks d)))"

fun results_inv :: "planning_env \<Rightarrow> string set \<Rightarrow> planning_pos \<times> planning_state \<Rightarrow> bool" where
  "results_inv env C (pos, st) \<longleftrightarrow>
     pos \<noteq> Clashed \<and> distinct (identities (ps_worker_results st)) \<and>
     (case pos of
        At PlanningDispatch \<Rightarrow> (\<exists>d. ps_dispatch st = Some d \<and> dispatch_ok env st d \<and> pd_tool_call_id d \<in> C) \<and>
          results_from env C (ps_dispatch_waves st) (ps_worker_results st)
      | At PlanningCollect \<Rightarrow> wave_inv env C st []
      | At _ \<Rightarrow> ps_dispatch st = None \<and> results_from env C (ps_dispatch_waves st) (ps_worker_results st)
      | Working ts \<Rightarrow> wave_inv env C st ts
      | _ \<Rightarrow> True)"

lemma run_worker_identity:
  assumes "run_worker task exit = Some r"
  shows "wr_dispatch_id r = wt_dispatch_id task" and "wr_task_id r = wt_task_id task"
    and "wr_position r = wt_position task" and "wr_agent_id r = wt_agent_id task"
  using assms by (cases exit; auto simp: run_worker_def failed_worker_def split: if_splits)+

lemma wave_new:
  assumes "identities_differ env C" and "ps_dispatch st = Some d" and "dispatch_ok env st d"
    and "pd_tool_call_id d \<in> C" and "results_from env C (ps_dispatch_waves st) (ps_worker_results st)"
  shows "wave_inv env C st (pd_tasks d)"
proof -
  let ?f = "\<lambda>(c, w). dispatch_identity (pe_sha256 env) c w"
  have w: "pd_wave d = ps_dispatch_waves st + 1" "pd_wave d \<le> pl_max_dispatch_waves (pe_limits env)"
    and i: "pd_dispatch_id d = dispatch_identity (pe_sha256 env) (pd_tool_call_id d) (pd_wave d)"
    using assms(3) by (simp_all add: dispatch_ok_def)
  have "wr_dispatch_id r \<noteq> pd_dispatch_id d" if "r \<in> set (ps_worker_results st)" for r
  proof
    assume eq: "wr_dispatch_id r = pd_dispatch_id d"
    from assms(5) that obtain c v where c: "c \<in> C" "v \<in> {1..ps_dispatch_waves st}"
      "wr_dispatch_id r = dispatch_identity (pe_sha256 env) c v" by (auto simp: results_from_def)
    with eq i have "?f (c, v) = ?f (pd_tool_call_id d, pd_wave d)" by simp
    moreover have "(c, v) \<in> C \<times> {1..pl_max_dispatch_waves (pe_limits env)}"
      "(pd_tool_call_id d, pd_wave d) \<in> C \<times> {1..pl_max_dispatch_waves (pe_limits env)}"
      using c w assms(4) by auto
    ultimately have "(c, v) = (pd_tool_call_id d, pd_wave d)"
      using assms(1) unfolding identities_differ_def by (rule inj_onD [rotated])
    with c(2) w(1) show False by simp
  qed
  then have "result_slots d (ps_worker_results st) = []" by (auto simp: result_slots_def filter_empty_conv)
  moreover have "results_from env C (pd_wave d) (ps_worker_results st)"
    using assms(5) w(1) by (fastforce simp: results_from_def)
  ultimately show ?thesis using assms(2-4) by (auto simp: wave_inv_def)
qed

text \<open>A worker's result is new: the dispatch has no result of its task yet.\<close>

lemma wave_result_new:
  assumes "wave_inv env C st (before @ task # after)" and "run_worker task exit = Some r"
  shows "worker_identity r \<notin> set (identities (ps_worker_results st))"
proof
  from assms(1) obtain d where d: "dispatch_ok env st d" "set (before @ task # after) \<subseteq> set (pd_tasks d)"
      and m: "mset (result_slots d (ps_worker_results st)) + mset (task_slots (before @ task # after)) =
        mset (task_slots (pd_tasks d))" by (auto simp: wave_inv_def)
  note r = run_worker_identity [OF assms(2)]
  assume "worker_identity r \<in> set (identities (ps_worker_results st))"
  then obtain r' where r': "r' \<in> set (ps_worker_results st)" "worker_identity r' = worker_identity r"
    by (auto simp: identities_def)
  have "wt_dispatch_id task = pd_dispatch_id d" using d by (auto simp: dispatch_ok_def)
  with r r' have "wr_task_id r' = wt_task_id task" "wr_dispatch_id r' = pd_dispatch_id d"
    by (simp_all add: worker_identity_def)
  with r'(1) have "wt_task_id task \<in> set (map fst (result_slots d (ps_worker_results st)))"
    by (force simp: result_slots_def)
  moreover have "distinct (map fst (result_slots d (ps_worker_results st) @ task_slots (before @ task # after)))"
  proof -
    have "mset (map fst (result_slots d (ps_worker_results st) @ task_slots (before @ task # after))) =
        mset (map fst (task_slots (pd_tasks d)))"
      using m by (metis mset_append mset_map)
    moreover have "distinct (map fst (task_slots (pd_tasks d)))"
      using d(1) by (simp add: dispatch_ok_def task_slots_def comp_def)
    ultimately show ?thesis using mset_eq_imp_distinct_iff by blast
  qed
  ultimately show False by (auto simp: task_slots_def)
qed

lemma wave_result:
  assumes "wave_inv env C st (before @ task # after)" and "run_worker task exit = Some r"
  shows "wave_inv env C (st\<lparr>ps_worker_results := ps_worker_results st @ [r]\<rparr>) (before @ after)"
proof -
  from assms(1) obtain d where d: "ps_dispatch st = Some d" "dispatch_ok env st d" "pd_tool_call_id d \<in> C"
      "set (before @ task # after) \<subseteq> set (pd_tasks d)" "results_from env C (pd_wave d) (ps_worker_results st)"
      and m: "mset (result_slots d (ps_worker_results st)) + mset (task_slots (before @ task # after)) =
        mset (task_slots (pd_tasks d))" by (auto simp: wave_inv_def)
  note r = run_worker_identity [OF assms(2)]
  have i: "wt_dispatch_id task = pd_dispatch_id d" using d by (auto simp: dispatch_ok_def)
  have "pd_wave d \<in> {1..pd_wave d}" using d(2) by (simp add: dispatch_ok_def)
  moreover have "wr_dispatch_id r = dispatch_identity (pe_sha256 env) (pd_tool_call_id d) (pd_wave d)"
    using r(1) i d(2) by (simp add: dispatch_ok_def)
  ultimately have "\<exists>c \<in> C. \<exists>w \<in> {1..pd_wave d}. wr_dispatch_id r = dispatch_identity (pe_sha256 env) c w"
    using d(3) by blast
  with d(5) have "results_from env C (pd_wave d) (ps_worker_results st @ [r])"
    by (simp add: results_from_def)
  moreover have "mset (result_slots d (ps_worker_results st @ [r])) + mset (task_slots (before @ after)) =
      mset (task_slots (pd_tasks d))"
    using m r i by (simp add: result_slots_def task_slots_def)
  ultimately show ?thesis using d by (auto simp: wave_inv_def dispatch_ok_def)
qed

lemma results_inv_step:
  assumes "identities_differ env C" and "results_inv env C c" and "planning_step env (ids_within C) c c'"
  shows "results_inv env C c'"
  using assms(3,2)
proof (cases rule: planning_step.cases)
  case (model st calls remaining content st' goto)
  with planning_model_effect [OF model(4)] assms(2) show ?thesis
    by (auto simp: ids_within_def dispatch_ok_def)
next
  case (dispatch st)
  with assms(2) obtain d where d: "ps_dispatch st = Some d" "dispatch_ok env st d" "pd_tool_call_id d \<in> C"
    "results_from env C (ps_dispatch_waves st) (ps_worker_results st)" by auto
  with wave_new [OF assms(1) this] dispatch assms(2) sends_tasks [OF d(1)] show ?thesis by simp
next
  case (no_dispatch st)
  with assms(2) show ?thesis by (auto simp: planning_dispatch_sends_def dispatch_ok_def)
next
  case (worker task exit r st results before after)
  with assms(2) wave_result [OF _ worker(3)] show ?thesis
    by (auto simp: append_one_result identities_def split: if_splits)
next
  case (worker_clash task exit r st e before after)
  with assms(2) wave_result_new [OF _ worker_clash(3)] show ?thesis
    by (auto simp: append_one_result identities_def split: if_splits)
next
  case (collect st st' goto)
  with assms(2) show ?thesis by (auto simp: planning_collect_def wave_inv_def dispatch_ok_def)
next
  case (actions st st' goto)
  obtain ms st1 where t: "run_turn_todos env st (last_tool_calls (ps_messages st)) = (ms, st1)" by fastforce
  from run_turn_todos_keeps [OF t] actions assms(2) show ?thesis
    by (auto simp: planning_actions_def t Let_def)
next
  case (package st st' goto)
  with assms(2) show ?thesis by (auto simp: planning_package_def)
qed auto

lemma planning_reaches_results:
  "planning_reaches env (ids_within C) st0 c \<Longrightarrow> identities_differ env C \<Longrightarrow> results_inv env C c"
proof (induction rule: planning_reaches_induct)
  case start
  then show ?case by (simp add: turn_start_def results_from_def identities_def)
next
  case (step c c')
  then show ?case using results_inv_step by blast
qed

text \<open>In the order of the plan, whatever order the workers ended in.\<close>

lemma collected_slots:
  assumes "dispatch_ok env st d" and "mset (result_slots d rs) = mset (task_slots (pd_tasks d))"
  shows "map (\<lambda>r. (wr_task_id r, wr_position r)) (collect_worker_results d rs) = task_slots (pd_tasks d)"
proof -
  let ?g = "\<lambda>r. (wr_task_id r, wr_position r)" and ?xs = "collect_worker_results d rs"
  have pos: "map snd (task_slots (pd_tasks d)) = map int [0..<length (pd_tasks d)]"
    using assms(1) by (simp add: dispatch_ok_def task_slots_def comp_def)
  have "mset (map ?g ?xs) = mset (task_slots (pd_tasks d))"
    using assms(2) by (simp add: collect_worker_results_def result_slots_def)
  moreover have "inj_on snd (set (map ?g ?xs))"
  proof -
    have "distinct (map snd (task_slots (pd_tasks d)))" unfolding pos by (simp add: distinct_map)
    then have "inj_on snd (set (task_slots (pd_tasks d)))" by (simp add: distinct_map)
    moreover have "set (map ?g ?xs) = set (task_slots (pd_tasks d))"
      using \<open>mset (map ?g ?xs) = _\<close> by (rule mset_eq_setD)
    ultimately show ?thesis by simp
  qed
  moreover have "sorted (map snd (task_slots (pd_tasks d)))"
    unfolding pos by (simp add: sorted_map sorted_wrt_upt)
  ultimately have "sort_key snd (map ?g ?xs) = task_slots (pd_tasks d)" by (rule sort_key_inj_key_eq)
  moreover have "sorted (map snd (map ?g ?xs))" by (simp add: collect_worker_results_def comp_def)
  then have "sort_key snd (map ?g ?xs) = map ?g ?xs" by (rule sort_key_id_if_sorted)
  ultimately show ?thesis by simp
qed

text \<open>
  Over a turn whose dispatch identities do not collide the results channel never refuses a
  worker's result, no two results have the same identity, and when a wave is collected every task of
  the plan has exactly one result, in the order of the plan, in whatever order the workers ended.
\<close>

theorem planning_results_complete:
  assumes "identities_differ env C" and "planning_reaches env (ids_within C) st0 (pos, st)"
  shows "pos \<noteq> Clashed \<and> distinct (map worker_identity (ps_worker_results st)) \<and>
    (pos = At PlanningCollect \<longrightarrow> (\<exists>d. ps_dispatch st = Some d \<and>
       map (\<lambda>r. (wr_task_id r, wr_position r)) (collect_worker_results d (ps_worker_results st)) =
         map (\<lambda>t. (wt_task_id t, wt_position t)) (pd_tasks d) \<and>
       map wr_position (collect_worker_results d (ps_worker_results st)) = map int [0..<length (pd_tasks d)]))"
proof -
  from planning_reaches_results [OF assms(2,1)] have inv: "results_inv env C (pos, st)" .
  show ?thesis
  proof (intro conjI impI)
    show "pos \<noteq> Clashed" "distinct (map worker_identity (ps_worker_results st))"
      using inv by (simp_all add: identities_def)
    assume "pos = At PlanningCollect"
    with inv obtain d where d: "ps_dispatch st = Some d" "dispatch_ok env st d"
      "mset (result_slots d (ps_worker_results st)) = mset (task_slots (pd_tasks d))"
      by (auto simp: wave_inv_def task_slots_def)
    note slots = collected_slots [OF d(2,3)]
    have "map wr_position (collect_worker_results d (ps_worker_results st)) = map snd (task_slots (pd_tasks d))"
      unfolding slots [symmetric] by simp
    also have "\<dots> = map int [0..<length (pd_tasks d)]"
      using d(2) by (simp add: dispatch_ok_def task_slots_def comp_def)
    finally show "\<exists>d. ps_dispatch st = Some d \<and>
       map (\<lambda>r. (wr_task_id r, wr_position r)) (collect_worker_results d (ps_worker_results st)) =
         map (\<lambda>t. (wt_task_id t, wt_position t)) (pd_tasks d) \<and>
       map wr_position (collect_worker_results d (ps_worker_results st)) = map int [0..<length (pd_tasks d)]"
      using d(1) slots unfolding task_slots_def by blast
  qed
qed

section \<open>A turn ends\<close>

definition turn_budget :: "planning_env \<Rightarrow> planning_state \<Rightarrow> budget_state" where
  "turn_budget env st = acc_state (planning_accountant env st)"

definition calls_left :: "planning_env \<Rightarrow> planning_state \<Rightarrow> nat" where
  "calls_left env st = nat (bl_soft_model_calls (pe_budget_limits env) - 1 - bs_model_calls (turn_budget env st))"

fun planning_measure :: "planning_env \<Rightarrow> planning_pos \<times> planning_state \<Rightarrow> nat" where
  "planning_measure env (pos, st) =
     (let tasks = pl_max_tasks (pe_limits env); q = calls_left env st * (tasks + 5)
      in case pos of
           At PlanningModel \<Rightarrow> q + 2
         | At PlanningDispatch \<Rightarrow> q + tasks + 6
         | Working ts \<Rightarrow> q + length ts + 4
         | At PlanningCollect \<Rightarrow> q + 3
         | At PlanningActions \<Rightarrow> q + 3
         | At PlanningPackage \<Rightarrow> 1
         | _ \<Rightarrow> 0)"

text \<open>What is written as a budget is read back.\<close>

definition budgets_read :: "planning_env \<Rightarrow> bool" where
  "budgets_read env \<longleftrightarrow> (\<forall>s. \<not> budget_valid s \<or> pe_read_budget env (dump_budget s) = Some s)"

lemma turn_budget_cong:
  "ps_execution_budget st' = ps_execution_budget st \<Longrightarrow> ps_call_count st' = ps_call_count st \<Longrightarrow>
   turn_budget env st' = turn_budget env st"
  by (simp add: turn_budget_def planning_accountant_def planning_call_count_def Let_def cong: pyval.case_cong)

lemma turn_budget_written:
  assumes "budgets_read env" and "budget_valid s" and "ps_execution_budget st = Some (dump_budget s)"
  shows "turn_budget env st = s"
proof -
  obtain v where "map_of (dump_budget s) ''turn_planning_model_calls'' = Some v" by (simp add: dump_budget_def)
  with assms show ?thesis by (simp add: turn_budget_def planning_accountant_def budgets_read_def Let_def)
qed

lemma planning_accountant_limits [simp]: "acc_limits (planning_accountant env st) = pe_budget_limits env"
  by (simp add: planning_accountant_def Let_def)

lemma note_planning_turn_effect:
  "bs_model_calls (acc_state (note_planning_turn env remaining st)) = bs_model_calls (turn_budget env st) + 1"
  "budget_valid (turn_budget env st) \<Longrightarrow> budget_valid (acc_state (note_planning_turn env remaining st))"
  "\<not> bs_forced_synthesis (acc_state (note_planning_turn env remaining st)) \<Longrightarrow>
     bs_model_calls (turn_budget env st) < bl_soft_model_calls (pe_budget_limits env) - 1"
  by (auto simp: note_planning_turn_def note_model_call_def note_hard_limit_def turn_budget_def Let_def
      budget_valid_def split: if_splits)

text \<open>A model turn that is not the reserved answer uses up one of the calls that are left.\<close>

lemma planning_model_budget:
  assumes "budgets_read env" and "budget_valid (turn_budget env st)"
    and "planning_model env remaining content calls st = Some (st', goto)"
  shows "budget_valid (turn_budget env st') \<and>
    (goto = PlanningPackage \<or> calls_left env st = calls_left env st' + 1)"
proof -
  let ?a = "note_planning_turn env remaining st"
  note e = note_planning_turn_effect [where env = env and remaining = remaining and st = st]
  have "ps_execution_budget st' = Some (dump_budget (acc_state ?a))"
    using assms(3) by (auto simp: planning_model_def Let_def)
  with assms(1) e(2) [OF assms(2)] have b: "turn_budget env st' = acc_state ?a" by (simp add: turn_budget_written)
  have "goto = PlanningPackage" if "bs_forced_synthesis (acc_state ?a)"
    using that assms(3) by (auto simp: planning_model_def Let_def reserved_answer_def)
  moreover have "calls_left env st = calls_left env st' + 1" if "\<not> bs_forced_synthesis (acc_state ?a)"
    using e(1) e(3) [OF that] unfolding calls_left_def b by arith
  ultimately show ?thesis using e(2) [OF assms(2)] b by auto
qed

lemma planning_step_measure:
  assumes "budgets_read env" and "planning_inv env c" and "budget_valid (turn_budget env (snd c))"
    and "planning_step env good c c'"
  shows "planning_measure env c' < planning_measure env c \<and> budget_valid (turn_budget env (snd c'))"
  using assms(4,2,3)
proof (cases rule: planning_step.cases)
  case (model st calls remaining content st' goto)
  with assms(3) planning_model_budget [OF assms(1) _ model(4)] planning_model_effect [OF model(4)]
  have b: "budget_valid (turn_budget env st')" and left: "goto = PlanningPackage \<or> calls_left env st = calls_left env st' + 1"
    and goto: "goto \<in> {PlanningModel, PlanningActions, PlanningPackage, ResolveTransition, PlanningDispatch}"
    by auto
  from left goto have "planning_measure env (At goto, st') < planning_measure env (At PlanningModel, st)"
    by (auto simp: Let_def algebra_simps)
  with b model show ?thesis by simp
next
  case (model_raises st calls remaining content)
  with assms(3) show ?thesis by simp
next
  case (dispatch st)
  with assms(2) obtain d where d: "ps_dispatch st = Some d" "dispatch_ok env st d" by auto
  then have "length (pd_tasks d) \<le> pl_max_tasks (pe_limits env)" by (simp add: dispatch_ok_def)
  with dispatch assms(3) sends_tasks [OF d(1)] show ?thesis by (simp add: Let_def)
next
  case (worker task exit r st results before after)
  with assms(3) turn_budget_cong [of "st\<lparr>ps_worker_results := results\<rparr>" st env] show ?thesis
    by (simp add: calls_left_def Let_def)
next
  case (collect st st' goto)
  have "turn_budget env st' = turn_budget env st" "goto = PlanningModel"
    using collect by (auto simp: planning_collect_def intro!: turn_budget_cong split: option.splits)
  with collect assms(3) show ?thesis by (simp add: calls_left_def)
next
  case (actions st st' goto)
  obtain ms st1 where t: "run_turn_todos env st (last_tool_calls (ps_messages st)) = (ms, st1)" by fastforce
  have "turn_budget env st' = turn_budget env st" "goto = PlanningModel"
    using run_turn_todos_keeps [OF t] actions by (auto simp: planning_actions_def t Let_def intro!: turn_budget_cong)
  with actions assms(3) show ?thesis by (simp add: calls_left_def)
next
  case (package st st' goto)
  have "turn_budget env st' = turn_budget env st" "goto = ValidateOutput"
    using package by (auto simp: planning_package_def intro!: turn_budget_cong)
  with package assms(3) show ?thesis by simp
qed (auto simp: Let_def)

text \<open>Where the turn has left Planning.\<close>

definition planning_over :: "planning_pos \<Rightarrow> bool" where
  "planning_over pos \<longleftrightarrow> pos \<in> {At ResolveTransition, At ValidateOutput, Raised, Clashed}"

lemma planning_not_stuck: "planning_over pos \<or> (\<exists>c'. planning_step env any_calls (pos, st) c')"
proof (cases pos)
  case (At node)
  show ?thesis
  proof (cases node)
    case PlanningModel
    show ?thesis
    proof (cases "planning_model env None [] [] st")
      case None
      with planning_step.model_raises [of any_calls st "[]" env] At PlanningModel show ?thesis
        by (auto simp: any_calls_def)
    next
      case (Some r)
      with planning_step.model [of any_calls st "[]" env None "[]" "fst r" "snd r"] At PlanningModel show ?thesis
        by (auto simp: any_calls_def)
    qed
  next
    case PlanningDispatch
    with At planning_step.dispatch [of st env any_calls] planning_step.no_dispatch [of st env any_calls] show ?thesis by blast
  next
    case PlanningCollect
    with At planning_step.collect [of env st "fst (planning_collect env st)" "snd (planning_collect env st)" any_calls]
    show ?thesis by auto
  next
    case PlanningActions
    with At planning_step.actions [of env st "fst (planning_actions env st)" "snd (planning_actions env st)" any_calls]
    show ?thesis by auto
  next
    case PlanningPackage
    with At planning_step.package [of st "fst (planning_package st)" "snd (planning_package st)" env any_calls]
    show ?thesis by auto
  qed (simp_all add: At planning_over_def)
next
  case (Working ts)
  show ?thesis
  proof (cases ts)
    case Nil
    with Working planning_step.gathered [of env any_calls st] show ?thesis by blast
  next
    case (Cons task rest)
    obtain r where r: "run_worker task LimitExceeded = Some r"
      by (cases "wt_agent_id task = PLANNING_AGENT_ID") (auto simp: run_worker_def)
    show ?thesis
    proof (cases "append_worker_results (Many (ps_worker_results st)) (One r)")
      case (Inl e)
      from planning_step.worker_clash [OF r Inl, of env any_calls "[]" rest] Working Cons show ?thesis by auto
    next
      case (Inr results)
      from planning_step.worker [OF r Inr, of env any_calls "[]" rest] Working Cons show ?thesis by auto
    qed
  qed
qed (simp_all add: planning_over_def)

text \<open>
  C16: a turn of Planning ends. Whatever the model proposes and however the workers end, the soft limit
  of model calls and the bound on tasks bound the number of its steps, and until it has left Planning
  it has a step to take.
\<close>

theorem planning_turn_ends:
  assumes "budgets_read env" and "turn_start st0" and "budget_valid (turn_budget env st0)"
    and "(planning_step env any_calls ^^ n) (At PlanningModel, st0) (pos, st)"
  shows "n \<le> nat (bl_soft_model_calls (pe_budget_limits env) - 1) * (pl_max_tasks (pe_limits env) + 5) + 2 \<and>
    (planning_over pos \<or> (\<exists>c'. planning_step env any_calls (pos, st) c'))"
proof -
  let ?c0 = "(At PlanningModel, st0)"
  have "(planning_step env any_calls ^^ n) ?c0 c \<Longrightarrow>
      planning_measure env c + n \<le> planning_measure env ?c0 \<and> planning_inv env c \<and> budget_valid (turn_budget env (snd c))" for c
  proof (induction n arbitrary: c)
    case 0
    have "planning_reaches env any_calls st0 ?c0" using assms(2) by (simp add: planning_reaches_def)
    from planning_reaches_inv [OF this] 0 assms(3) show ?case by auto
  next
    case (Suc n)
    then obtain b where b: "(planning_step env any_calls ^^ n) ?c0 b" "planning_step env any_calls b c" by auto
    from Suc.IH [OF b(1)] planning_step_measure [OF assms(1) _ _ b(2)] planning_inv_step [OF _ b(2)] show ?case by force
  qed
  from this [OF assms(4)] have "n \<le> planning_measure env ?c0" by simp
  also have "\<dots> \<le> nat (bl_soft_model_calls (pe_budget_limits env) - 1) * (pl_max_tasks (pe_limits env) + 5) + 2"
    using assms(3) by (auto simp: Let_def calls_left_def budget_valid_def intro!: mult_le_mono1 nat_mono)
  finally show ?thesis using planning_not_stuck by blast
qed

section \<open>A run\<close>

definition demo_planning :: planning_env where
  "demo_planning =
     \<lparr>pe_limits = \<lparr>pl_max_tasks = 2, pl_max_concurrency = 1, pl_max_dispatch_waves = 1,
        pl_objective_max_chars = 9, pl_parent_context_max_chars = 60\<rparr>,
      pe_budget_limits = default_limits, pe_read_budget = read_budget, pe_inventory = demo_ri,
      pe_allowed_tools = (\<lambda>i. [''search'']), pe_sha256 = id, pe_max_todos = 3, pe_json_loads = (\<lambda>s. None),
      pe_fresh_ids = (\<lambda>c n. c), pe_review = (\<lambda>ts. None), pe_strip_rich_markers = id\<rparr>"

definition demo_call :: call_request where
  "demo_call =
     \<lparr>cr_id = Some ''c'', cr_name = Some ''dispatch_subagents'',
      cr_args = [(''tasks'', PList
        [PDict [(''task_id'', PStr ''t1''), (''objective'', PStr ''look''), (''agent_id'', PStr ''chat_agent'')],
         PDict [(''task_id'', PStr ''t2''), (''objective'', PStr ''see''), (''agent_id'', PStr ''chat_agent'')]])]\<rparr>"

definition demo_planning_start :: planning_state where
  "demo_planning_start =
     \<lparr>ps_messages = [UserText ''plan''], ps_todos = [], ps_current_task_index = None, ps_planning_phase = None,
      ps_context = [], ps_dispatch = None, ps_control_call_id = None, ps_dispatch_waves = 0,
      ps_dispatched_task_count = 0, ps_worker_results = [], ps_execution_budget = None, ps_call_count = None,
      ps_pending_transition = None, ps_execution_phase = ''executing'', ps_agent_outcome = None,
      ps_final_agent_id = None, ps_task_plan_id = None, ps_model_request = None, ps_attachments = [],
      ps_custom_agents = [], ps_request = []\<rparr>"

lemma demo_turn_start: "turn_start demo_planning_start"
  by (simp add: turn_start_def demo_planning_start_def)

lemma demo_dispatches:
  "map_option snd (planning_model demo_planning None [] [demo_call] demo_planning_start) = Some PlanningDispatch"
  by code_simp

text \<open>Workers that all end let the wave be collected.\<close>

lemma wave_collected:
  assumes "results_inv env C (Working ts, st)"
  shows "\<exists>st'. (planning_step env good)\<^sup>*\<^sup>* (Working ts, st) (At PlanningCollect, st')"
  using assms
proof (induction ts arbitrary: st)
  case Nil
  have "planning_step env good (Working [], st) (At PlanningCollect, st)" by (rule planning_step.gathered)
  then show ?case by blast
next
  case (Cons task ts)
  obtain r where r: "run_worker task LimitExceeded = Some r" by (cases "wt_agent_id task = PLANNING_AGENT_ID") (auto simp: run_worker_def)
  from Cons.prems have w: "wave_inv env C st ([] @ task # ts)" and di: "distinct (identities (ps_worker_results st))" by auto
  let ?st = "st\<lparr>ps_worker_results := ps_worker_results st @ [r]\<rparr>"
  have new: "worker_identity r \<notin> set (identities (ps_worker_results st))" by (rule wave_result_new [OF w r])
  then have app: "append_worker_results (Many (ps_worker_results st)) (One r) = Inr (ps_worker_results st @ [r])"
    by (simp add: append_one_result identities_def)
  have "planning_step env good (Working ([] @ task # ts), st) (Working ([] @ ts), ?st)"
    by (rule planning_step.worker [OF r app])
  moreover have "results_inv env C (Working ts, ?st)"
    using wave_result [OF w r] di new by (simp add: identities_def)
  from Cons.IH [OF this] obtain st' where "(planning_step env good)\<^sup>*\<^sup>* (Working ts, ?st) (At PlanningCollect, st')" ..
  ultimately show ?case by (metis append_Nil converse_rtranclp_into_rtranclp)
qed

lemma demo_identities: "identities_differ demo_planning {''c''}"
  by (auto simp: identities_differ_def inj_on_def demo_planning_def)

lemma demo_working:
  assumes "good demo_planning_start [demo_call]"
  obtains ts st where "planning_reaches demo_planning good demo_planning_start (Working ts, st)" and "ts \<noteq> []"
proof -
  from demo_dispatches obtain st' where
    m: "planning_model demo_planning None [] [demo_call] demo_planning_start = Some (st', PlanningDispatch)" by auto
  from planning_model_effect [OF this] obtain d where d: "ps_dispatch st' = Some d" "dispatch_ok demo_planning demo_planning_start d"
    by auto
  then have ts: "map fst (planning_dispatch_sends st') = pd_tasks d" "pd_tasks d \<noteq> []"
    by (simp_all add: sends_tasks dispatch_ok_def)
  then have "planning_dispatch_sends st' \<noteq> []" by auto
  from planning_step.dispatch [OF this, of demo_planning good] ts planning_step.model [where env = demo_planning, of good, OF assms m]
  have "(planning_step demo_planning good)\<^sup>*\<^sup>* (At PlanningModel, demo_planning_start) (Working (pd_tasks d), st')"
    by simp
  with that [of "pd_tasks d" st'] ts show ?thesis by (simp add: planning_reaches_def demo_turn_start)
qed

theorem planning_dispatch_bounded_witness:
  "\<exists>ts st. planning_reaches demo_planning any_calls demo_planning_start (Working ts, st) \<and> ts \<noteq> [] \<and>
     length ts \<le> 2 \<and> (\<forall>t \<in> set ts. task_ok demo_planning t)"
proof -
  obtain ts st where r: "planning_reaches demo_planning any_calls demo_planning_start (Working ts, st)" "ts \<noteq> []"
    by (rule demo_working [of any_calls]) (simp add: any_calls_def)
  from planning_dispatch_bounded [OF r(1)] r show ?thesis by (force simp: demo_planning_def)
qed

theorem planning_results_complete_witness:
  "\<exists>st. planning_reaches demo_planning (ids_within {''c''}) demo_planning_start (At PlanningCollect, st) \<and>
     distinct (map worker_identity (ps_worker_results st)) \<and>
     (\<exists>d. ps_dispatch st = Some d \<and>
        map wr_position (collect_worker_results d (ps_worker_results st)) = map int [0..<length (pd_tasks d)])"
proof -
  obtain ts st where r: "planning_reaches demo_planning (ids_within {''c''}) demo_planning_start (Working ts, st)"
    by (rule demo_working [of "ids_within {''c''}"])
      (simp add: ids_within_def demo_call_def call_id_def truthy_str_def)
  from wave_collected [OF planning_reaches_results [OF r demo_identities]] obtain st' where
    "(planning_step demo_planning (ids_within {''c''}))\<^sup>*\<^sup>* (Working ts, st) (At PlanningCollect, st')" by blast
  with r have c: "planning_reaches demo_planning (ids_within {''c''}) demo_planning_start (At PlanningCollect, st')"
    by (auto simp: planning_reaches_def)
  from planning_results_complete [OF demo_identities c] c show ?thesis by blast
qed

theorem planning_turn_ends_witness:
  "\<exists>st. (planning_step demo_planning any_calls ^^ 1) (At PlanningModel, demo_planning_start) (At PlanningDispatch, st) \<and>
     (\<exists>c'. planning_step demo_planning any_calls (At PlanningDispatch, st) c')"
proof -
  obtain st where m: "planning_model demo_planning None [] [demo_call] demo_planning_start = Some (st, PlanningDispatch)"
    using demo_dispatches by auto
  have s: "(planning_step demo_planning any_calls ^^ 1) (At PlanningModel, demo_planning_start) (At PlanningDispatch, st)"
    unfolding relpowp_1 by (rule planning_step.model [OF _ m]) (simp add: any_calls_def)
  have "budgets_read demo_planning" by (simp add: budgets_read_def demo_planning_def read_budget_dump)
  moreover have "budget_valid (turn_budget demo_planning demo_planning_start)"
    by (simp add: turn_budget_def planning_accountant_def demo_planning_start_def Let_def budget_valid_def fresh_budget_def)
  ultimately show ?thesis
    using planning_turn_ends [OF _ demo_turn_start _ s] s by (auto simp: planning_over_def)
qed

end
