(* ===== verification/PlanningCalls.thy ===== *)
theory PlanningCalls
  imports PlanningTurn
begin

text \<open>
  The tool calls of a turn of Planning and their answers: providers refuse a conversation with a call
  that is not answered, or answered twice. \<open>open_calls\<close> are the calls that wait for a node of the turn.
\<close>

section \<open>Calls and answers\<close>

definition asked :: "planning_message list \<Rightarrow> string list" where
  "asked ms = concat (map (\<lambda>m. map call_id (calls_of m)) ms)"

fun answer_id :: "planning_message \<Rightarrow> string list" where
  "answer_id (ToolResult i m) = [tm_tool_call_id m]"
| "answer_id m = []"

definition answered :: "planning_message list \<Rightarrow> string list" where
  "answered ms = concat (map answer_id ms)"

text \<open>The calls that still wait for their answer.\<close>

fun open_calls :: "planning_pos \<Rightarrow> planning_state \<Rightarrow> string list" where
  "open_calls (At PlanningActions) st = map call_id (last_tool_calls (ps_messages st))"
| "open_calls pos st =
     (if pos \<in> {At PlanningDispatch, At PlanningCollect, Clashed} \<or> (\<exists>ts. pos = Working ts)
      then (case ps_dispatch st of None \<Rightarrow> [] | Some d \<Rightarrow> [pd_tool_call_id d]) else [])"

text \<open>A provider gives every call an id of its own.\<close>

definition fresh_calls :: "planning_state \<Rightarrow> call_request list \<Rightarrow> bool" where
  "fresh_calls st calls \<longleftrightarrow>
     distinct (map call_id calls) \<and> set (map call_id calls) \<inter> set (asked (ps_messages st)) = {}"

definition pairs_inv :: "planning_pos \<times> planning_state \<Rightarrow> bool" where
  "pairs_inv = (\<lambda>(pos, st). distinct (asked (ps_messages st)) \<and>
     mset (answered (ps_messages st)) + mset (open_calls pos st) = mset (asked (ps_messages st)))"

lemma asked_simps [simp]:
  "asked [] = []" "asked (m # ms) = map call_id (calls_of m) @ asked ms" "asked (ms @ ms') = asked ms @ asked ms'"
  "answered [] = []" "answered (m # ms) = answer_id m @ answered ms" "answered (ms @ ms') = answered ms @ answered ms'"
  by (simp_all add: asked_def answered_def)

lemma results_ask_nothing [simp]:
  "asked (map (ToolResult i) xs) = []" "asked (map (\<lambda>c. control_message c (f c)) cs) = []"
  by (simp_all add: asked_def control_message_def comp_def)

lemma results_answer [simp]:
  "answered (map (ToolResult i) xs) = map tm_tool_call_id xs"
  "answered (map (\<lambda>c. control_message c (f c)) cs) = map call_id cs"
  by (induction xs) (simp_all, induction cs, simp_all add: control_message_def)

lemma last_calls_snoc [simp]: "calls \<noteq> [] \<Longrightarrow> last_tool_calls (ms @ [AgentTurn content calls]) = calls"
  by (simp add: last_tool_calls_def)

lemma apply_todo_calls_answers:
  "apply_todo_calls env calls todos current = (todos', current', messages, actions) \<Longrightarrow>
   map tm_tool_call_id messages = map call_id calls"
proof (induction calls arbitrary: todos current todos' current' messages actions)
  case (Cons c cs)
  then show ?case by (fastforce simp: Let_def split: prod.splits)
qed simp

definition todo_calls :: "call_request list \<Rightarrow> call_request list" where
  "todo_calls calls = filter (\<lambda>c. cr_name c = Some WRITE_TODOS_TOOL_NAME) calls"

lemma run_turn_todos_answers:
  "run_turn_todos env st calls = (ms, st') \<Longrightarrow> map tm_tool_call_id ms = map call_id (todo_calls calls)"
  using apply_todo_calls_answers
  by (fastforce simp: run_turn_todos_def planning_apply_todo_actions_def todo_calls_def Let_def split: if_splits prod.splits)

text \<open>The todo calls and the calls without a todo answer make up the turn's calls.\<close>

lemma split_calls:
  assumes "distinct (map call_id calls)" and "map tm_tool_call_id ms = map call_id (todo_calls calls)"
  shows "filter (\<lambda>c. call_id c \<notin> applied_ids ms) calls = filter (\<lambda>c. cr_name c \<noteq> Some WRITE_TODOS_TOOL_NAME) calls"
proof (rule filter_cong [OF refl])
  fix c assume c: "c \<in> set calls"
  have "applied_ids ms = call_id ` set (todo_calls calls)"
    using assms(2) by (metis applied_ids_def list.set_map)
  moreover have "inj_on call_id (set calls)" using assms(1) by (simp add: distinct_map)
  ultimately show "(call_id c \<notin> applied_ids ms) = (cr_name c \<noteq> Some WRITE_TODOS_TOOL_NAME)"
    using c by (auto simp: todo_calls_def dest: inj_onD)
qed

lemma mset_split_calls:
  assumes "distinct (map call_id calls)" and "map tm_tool_call_id ms = map call_id (todo_calls calls)"
  shows "mset (map tm_tool_call_id ms) + mset (map call_id (filter (\<lambda>c. call_id c \<notin> applied_ids ms) calls)) =
    mset (map call_id calls)"
  unfolding split_calls [OF assms] assms(2) todo_calls_def
  by (simp add: image_mset_union [symmetric] multiset_partition [symmetric])

text \<open>What a model turn appends: the turn, and answers to all its calls but the open ones.\<close>

definition answered_turn :: "planning_state \<Rightarrow> string list \<Rightarrow> planning_state \<Rightarrow> call_request list \<Rightarrow> bool" where
  "answered_turn st still_open st' calls \<longleftrightarrow>
     (\<exists>content ms. ps_messages st' = ps_messages st @ AgentTurn content calls # ms \<and> asked ms = [] \<and>
        mset (answered ms) + mset still_open = mset (map call_id calls))"

lemma handoff_turn_answered:
  assumes "route_handoff st (AgentTurn content [c]) c = Some (st', goto)"
  shows "answered_turn st (open_calls (At goto) st') st' [c]"
  using assms
  by (auto simp: route_handoff_def answered_turn_def Let_def control_message_def split: if_splits)

lemma mset_without_one:
  "distinct (map f xs) \<Longrightarrow> c \<in> set xs \<Longrightarrow> mset (map f (filter (\<lambda>x. f x \<noteq> f c) xs)) + {#f c#} = mset (map f xs)"
proof (induction xs)
  case (Cons x xs)
  have "filter (\<lambda>x. f x \<noteq> f c) xs = xs" if "f x = f c"
    unfolding that [symmetric] using Cons.prems(1) by (auto simp: filter_id_conv image_iff)
  with Cons show ?case by (auto simp: image_iff)
qed simp

lemma dispatch_turn_answered:
  assumes "route_dispatch env st (AgentTurn content calls) calls = Some (st', goto)"
    and "distinct (map call_id calls)" and "c \<in> set calls" and "cr_name c = Some DISPATCH_CONTROL_TOOL_NAME"
  shows "answered_turn st (open_calls (At goto) st') st' calls"
proof -
  obtain ms st1 where t: "run_turn_todos env st calls = (ms, st1)" by fastforce
  note todo = run_turn_todos_answers [OF t] and kept = run_turn_todos_keeps [OF t]
  note split = mset_split_calls [OF assms(2) todo]
  let ?c = "hd (filter (\<lambda>c. cr_name c = Some DISPATCH_CONTROL_TOOL_NAME) calls)"
  let ?st = "add_messages [AgentTurn content calls] (with_callers_todos env calls st)"
  have first: "?c \<in> set calls" "cr_name ?c = Some DISPATCH_CONTROL_TOOL_NAME"
  proof -
    have "filter (\<lambda>c. cr_name c = Some DISPATCH_CONTROL_TOOL_NAME) calls \<noteq> []"
      using assms(3,4) by (auto simp: filter_empty_conv)
    then have "?c \<in> set (filter (\<lambda>c. cr_name c = Some DISPATCH_CONTROL_TOOL_NAME) calls)" by (rule hd_in_set)
    then show "?c \<in> set calls" "cr_name ?c = Some DISPATCH_CONTROL_TOOL_NAME" by auto
  qed
  show ?thesis
  proof (cases "validate_dispatch_call env ?c ?st")
    case InvalidModel
    with assms(1) show ?thesis by (simp add: route_dispatch_def t)
  next
    case (Rejected code i)
    with assms(1) t kept split show ?thesis
      by (auto simp: route_dispatch_def answered_turn_def)
  next
    case (Accepted d)
    let ?rest = "filter (\<lambda>c. call_id c \<notin> applied_ids ms) calls"
    note id = accepted_dispatch(2) [OF Accepted]
    have "?c \<in> set ?rest"
      using first unfolding split_calls [OF assms(2) todo]
      by (simp add: DISPATCH_CONTROL_TOOL_NAME_def WRITE_TODOS_TOOL_NAME_def)
    moreover have "distinct (map call_id ?rest)" using assms(2) by (simp add: distinct_map_filter)
    ultimately have one: "mset (map call_id (filter (\<lambda>c. call_id c \<noteq> call_id ?c) ?rest)) + {#call_id ?c#} =
        mset (map call_id ?rest)"
      by (rule mset_without_one [rotated])
    let ?left = "filter (\<lambda>c. call_id c \<noteq> pd_tool_call_id d \<and> call_id c \<notin> applied_ids ms) calls"
    have left: "?left = filter (\<lambda>c. call_id c \<noteq> call_id ?c) ?rest" by (simp add: id conj_commute)
    have "mset (map tm_tool_call_id ms @ map call_id ?left) + {#pd_tool_call_id d#} = mset (map call_id calls)"
      unfolding left unfolding id mset_append add.assoc one by (rule split)
    moreover have "ps_messages st' = ps_messages st @ AgentTurn content calls # map (ToolResult None) ms @
        map (\<lambda>c. control_message c NOT_RUN_THIS_TURN) ?left"
      and "open_calls (At goto) st' = [pd_tool_call_id d]"
      using assms(1) t kept Accepted by (auto simp: route_dispatch_def)
    ultimately show ?thesis
      unfolding answered_turn_def
      by (intro exI [where x = content] exI [where x = "map (ToolResult None) ms @
        map (\<lambda>c. control_message c NOT_RUN_THIS_TURN) ?left"]) simp
  qed
qed

lemma other_turn_answered:
  "answered_turn st (open_calls (At PlanningActions) (f (add_messages [AgentTurn content calls] st)))
     (f (add_messages [AgentTurn content calls] st)) calls"
  if "\<And>st. ps_messages (f st) = ps_messages st" and "calls \<noteq> []"
  using that by (auto simp: answered_turn_def)

lemma decided_turn_answered:
  assumes "decide env st content calls = Some (st', goto)" and "distinct (map call_id calls)" and "ps_dispatch st = None"
  shows "answered_turn st (open_calls (At goto) st') st' calls"
proof -
  have plain: "\<exists>c \<in> set calls. cr_name c = Some DISPATCH_CONTROL_TOOL_NAME"
    if "DISPATCH_CONTROL_TOOL_NAME \<in> set (map (call_name []) calls)"
  proof -
    from that obtain c where "c \<in> set calls" "call_name [] c = DISPATCH_CONTROL_TOOL_NAME" by auto
    then show ?thesis
      by (cases "cr_name c") (auto simp: call_name_def DISPATCH_CONTROL_TOOL_NAME_def truthy_str_def split: if_splits)
  qed
  consider "calls = []" | "calls \<noteq> []" "DISPATCH_CONTROL_TOOL_NAME \<in> set (map (call_name []) calls)"
    | "calls \<noteq> []" "DISPATCH_CONTROL_TOOL_NAME \<notin> set (map (call_name []) calls)" by blast
  then show ?thesis
  proof cases
    case 1
    with assms(1) show ?thesis by (auto simp: decide_def answered_turn_def)
  next
    case 2
    with plain assms(1) dispatch_turn_answered [OF _ assms(2)] show ?thesis
      by (auto simp: decide_def Let_def)
  next
    case 3
    show ?thesis
    proof (cases "HAND_OFF_TOOL_NAME \<in> set (map (call_name []) calls) \<and> length calls = 1")
      case True
      then obtain c where c: "calls = [c]" by (cases calls) auto
      with 3 True assms(1) have "route_handoff st (AgentTurn content [c]) c = Some (st', goto)"
        by (simp add: decide_def Let_def)
      from handoff_turn_answered [OF this] show ?thesis by (simp add: c)
    next
      case False
      with 3 assms(1) show ?thesis
        by (auto simp: decide_def Let_def answered_turn_def split: if_splits)
    qed
  qed
qed

lemma model_turn_answered:
  assumes "planning_model env remaining content calls st = Some (st', goto)"
    and "distinct (map call_id calls)" and "ps_dispatch st = None"
  shows "\<exists>calls'. (calls' = calls \<or> calls' = []) \<and> answered_turn st (open_calls (At goto) st') st' calls'"
proof (cases "bs_forced_synthesis (acc_state (note_planning_turn env remaining st))")
  case True
  with assms(1) have "answered_turn st (open_calls (At goto) st') st' []"
    by (auto simp: planning_model_def reserved_answer_def Let_def answered_turn_def)
  then show ?thesis by blast
next
  case False
  with assms(1) obtain st1 where d: "decide env st content calls = Some (st1, goto)"
    and "st' = st1\<lparr>ps_execution_budget := Some (dump_budget (acc_state (note_planning_turn env remaining st))),
      ps_call_count := Some (bs_turn_planning_model_calls (acc_state (note_planning_turn env remaining st)))\<rparr>"
    by (auto simp: planning_model_def Let_def)
  then have "ps_messages st' = ps_messages st1" "open_calls (At goto) st' = open_calls (At goto) st1"
    by (cases goto; simp)+
  with decided_turn_answered [OF d assms(2,3)] have "answered_turn st (open_calls (At goto) st') st' calls"
    by (simp add: answered_turn_def)
  then show ?thesis by blast
qed

lemma distinct_last_calls: "distinct (asked ms) \<Longrightarrow> distinct (map call_id (last_tool_calls ms))"
proof -
  assume d: "distinct (asked ms)"
  show ?thesis
  proof (cases "find (\<lambda>m. calls_of m \<noteq> []) (rev ms)")
    case (Some m)
    then have "m \<in> set ms" by (metis find_Some_iff nth_mem set_rev)
    with d Some show ?thesis by (auto simp: last_tool_calls_def asked_def distinct_concat_iff)
  qed (simp add: last_tool_calls_def)
qed

lemma pairs_inv_step:
  assumes "planning_inv env c" and "pairs_inv c" and "planning_step env fresh_calls c c'"
  shows "pairs_inv c'"
  using assms(3,1,2)
proof (cases rule: planning_step.cases)
  case (model st calls remaining content st' goto)
  from model(3) have fresh: "distinct (map call_id calls)" "set (map call_id calls) \<inter> set (asked (ps_messages st)) = {}"
    by (simp_all add: fresh_calls_def)
  from model assms(1) have "ps_dispatch st = None" by simp
  with model_turn_answered [OF model(4) fresh(1)] obtain calls' where
    calls': "calls' = calls \<or> calls' = []" and a: "answered_turn st (open_calls (At goto) st') st' calls'" by blast
  have disjoint: "i \<notin> set (asked (ps_messages st))" if "c \<in> set calls" "i = call_id c" for c i
    using fresh(2) that by auto
  from calls' a model assms(2) fresh(1) show ?thesis
    by (auto simp: pairs_inv_def answered_turn_def dest: disjoint [OF _ refl])
next
  case (dispatch st)
  with assms(1,2) show ?thesis by (auto simp: pairs_inv_def)
next
  case (no_dispatch st)
  with assms(1,2) show ?thesis by (auto simp: pairs_inv_def planning_dispatch_sends_def dispatch_ok_def split: option.splits)
next
  case (collect st st' goto)
  with assms(1,2) show ?thesis by (auto simp: pairs_inv_def planning_collect_def)
next
  case (actions st st' goto)
  let ?calls = "last_tool_calls (ps_messages st)"
  obtain ms st1 where t: "run_turn_todos env st ?calls = (ms, st1)" by fastforce
  have "distinct (map call_id ?calls)" using actions assms(2) by (simp add: pairs_inv_def distinct_last_calls)
  note mset_split_calls [OF this run_turn_todos_answers [OF t]]
  with run_turn_todos_keeps [OF t] actions assms(1,2) show ?thesis
    by (auto simp: planning_actions_def t pairs_inv_def ac_simps)
next
  case (package st st' goto)
  with assms(1,2) show ?thesis by (auto simp: planning_package_def pairs_inv_def)
qed (auto simp: pairs_inv_def)

text \<open>
  C18: as long as the model's calls carry ids of their own, every tool call of a turn is answered exactly
  once. While the todo node is due the calls of the last turn are open, while a wave is dispatched the
  dispatch call alone is, and whenever the model is asked again or the turn is left none is.
\<close>

theorem planning_calls_paired:
  assumes "planning_reaches env fresh_calls st0 (pos, st)"
    and "distinct (asked (ps_messages st0))" and "mset (answered (ps_messages st0)) = mset (asked (ps_messages st0))"
  shows "distinct (asked (ps_messages st)) \<and>
    mset (answered (ps_messages st)) + mset (open_calls pos st) = mset (asked (ps_messages st))"
proof -
  have "pairs_inv c" if "planning_reaches env fresh_calls st0 c" for c
    using that
  proof (induction rule: planning_reaches_induct)
    case start
    with assms(2,3) show ?case by (simp add: pairs_inv_def)
  next
    case (step c c')
    with pairs_inv_step [OF planning_reaches_inv [OF step(1)]] show ?case by blast
  qed
  from this [OF assms(1)] show ?thesis by (simp add: pairs_inv_def)
qed

theorem planning_calls_paired_witness:
  "\<exists>ts st. planning_reaches demo_planning fresh_calls demo_planning_start (Working ts, st) \<and>
     mset (answered (ps_messages st)) + mset (open_calls (Working ts) st) = mset (asked (ps_messages st))"
proof -
  obtain ts st where r: "planning_reaches demo_planning fresh_calls demo_planning_start (Working ts, st)"
    by (rule demo_working [of fresh_calls]) (simp add: fresh_calls_def demo_planning_start_def)
  have "distinct (asked (ps_messages demo_planning_start))"
    "mset (answered (ps_messages demo_planning_start)) = mset (asked (ps_messages demo_planning_start))"
    by (simp_all add: demo_planning_start_def)
  from planning_calls_paired [OF r this] r show ?thesis by blast
qed

end
