(* ===== verification/PlanningAnswer.thy ===== *)
theory PlanningAnswer
  imports Planning
begin

text \<open>
  The packaged answer of Planning: the sources of the workers under new numbers, and what the
  validation of \<^verbatim>\<open>app/ai/workflow/finalization.py\<close> then guarantees of an answer that merges them.
\<close>

section \<open>Sources\<close>

text \<open>The address of an evidence record that is a source.\<close>

definition source_urls :: "(string, pyval) dict list \<Rightarrow> string list" where
  "source_urls rs =
     filter (\<lambda>u. u \<noteq> []) (map (\<lambda>r. text_or (pget r ''url'')) (filter (\<lambda>r. truthy (pget r ''source_id'')) rs))"

lemma pget_update [simp]:
  "pget (AList.update k v d) k = v" "k' \<noteq> k \<Longrightarrow> pget (AList.update k v d) k' = pget d k'"
  by (simp_all add: pget_def update_conv')

lemma remapped_ids:
  "map (\<lambda>r. pget r ''source_id'') (remap_sources urls rs) =
     map (\<lambda>i. PStr (''S'' @ nat_text i)) [length urls + 1 ..< length urls + 1 + length (remap_sources urls rs)]"
proof (induction rs arbitrary: urls)
  case (Cons r rs)
  let ?u = "text_or (pget r ''url'')"
  show ?case
  proof (cases "\<not> truthy (pget r ''source_id'') \<or> ?u = [] \<or> ?u \<in> set urls")
    case True
    with Cons.IH [of urls] show ?thesis by (simp add: Let_def del: upt_Suc)
  next
    case False
    have "[length urls + 1 ..< length urls + 1 + Suc n] = (length urls + 1) # [length (urls @ [?u]) + 1 ..< length (urls @ [?u]) + 1 + n]" for n
      by (simp add: upt_conv_Cons del: upt_Suc)
    with Cons.IH [of "urls @ [?u]"] False show ?thesis by (simp add: Let_def del: upt_Suc)
  qed
qed simp

lemma remapped_urls:
  assumes "distinct urls"
  shows "distinct (urls @ map (\<lambda>r. text_or (pget r ''url'')) (remap_sources urls rs)) \<and>
    set urls \<union> set (map (\<lambda>r. text_or (pget r ''url'')) (remap_sources urls rs)) = set urls \<union> set (source_urls rs)"
  using assms
proof (induction rs arbitrary: urls)
  case (Cons r rs)
  let ?u = "text_or (pget r ''url'')"
  show ?case
  proof (cases "\<not> truthy (pget r ''source_id'') \<or> ?u = [] \<or> ?u \<in> set urls")
    case True
    with Cons.IH [OF Cons.prems] show ?thesis by (auto simp: source_urls_def Let_def)
  next
    case False
    with Cons.prems have "distinct (urls @ [?u])" by simp
    from Cons.IH [OF this] False show ?thesis by (auto simp: source_urls_def Let_def)
  qed
qed (simp add: source_urls_def)

lemma remapped_url_nonempty: "r \<in> set (remap_sources urls rs) \<Longrightarrow> text_or (pget r ''url'') \<noteq> []"
  by (induction rs arbitrary: urls) (auto simp: Let_def split: if_splits)

lemma remapped_url:
  "r \<in> set (remap_sources urls rs) \<Longrightarrow> record_id ''url'' r = Some (text_or (pget r ''url''))"
  using remapped_url_nonempty [of r urls rs] by (auto simp: record_id_def text_or_def split: if_splits)

definition worker_evidence :: "worker_output list \<Rightarrow> (string, pyval) dict list" where
  "worker_evidence results = concat (map wr_evidence results)"

lemma outcome_sources:
  "op_web_sources (ro_provenance (build_planning_outcome content results)) =
     map (\<lambda>r. \<lparr>ws_url = record_id ''url'' r, ws_source_id = record_id ''source_id'' r\<rparr>)
       (remap_sources [] (worker_evidence results))"
  by (simp add: build_planning_outcome_def Let_def worker_evidence_def)

text \<open>
  The sources of the answer are the pages the workers read, each address once, numbered S1, S2, ...
  in the order of the workers: numbers of different workers no longer clash and no page is lost.
\<close>

theorem planning_sources_renumbered:
  "map ws_source_id (op_web_sources (ro_provenance (build_planning_outcome content results))) =
     map (\<lambda>i. Some (''S'' @ nat_text i))
       [1 ..< 1 + length (op_web_sources (ro_provenance (build_planning_outcome content results)))] \<and>
   distinct (map ws_url (op_web_sources (ro_provenance (build_planning_outcome content results)))) \<and>
   set (map ws_url (op_web_sources (ro_provenance (build_planning_outcome content results)))) =
     Some ` set (source_urls (worker_evidence results))"
proof -
  let ?rs = "remap_sources [] (worker_evidence results)"
  have ids: "map (record_id ''source_id'') ?rs = map (\<lambda>i. Some (''S'' @ nat_text i)) [1 ..< 1 + length ?rs]"
  proof -
    have "map (record_id ''source_id'') ?rs =
        map (\<lambda>v. if truthy v then Some (py_text v) else None) (map (\<lambda>r. pget r ''source_id'') ?rs)"
      by (simp add: record_id_def comp_def)
    then show ?thesis unfolding remapped_ids by (simp add: comp_def)
  qed
  have urls: "map (record_id ''url'') ?rs = map Some (map (\<lambda>r. text_or (pget r ''url'')) ?rs)"
    by (simp add: remapped_url)
  have "distinct (map (\<lambda>r. text_or (pget r ''url'')) ?rs)"
    "set (map (\<lambda>r. text_or (pget r ''url'')) ?rs) = set (source_urls (worker_evidence results))"
    using remapped_urls [of "[]" "worker_evidence results"] by simp_all
  then have "distinct (map (record_id ''url'') ?rs)"
    "set (map (record_id ''url'') ?rs) = Some ` set (source_urls (worker_evidence results))"
    unfolding urls by (simp_all only: set_map distinct_map inj_Some inj_on_subset [OF inj_Some subset_UNIV])
  with ids show ?thesis unfolding outcome_sources by (simp only: map_map comp_def length_map web_source.select_convs)
qed

section \<open>Validation\<close>

lemma present_ids: "set (present (map (record_id k) ds)) \<subseteq> {py_text (pget d k) |d. d \<in> set ds \<and> truthy (pget d k)}"
  by (auto simp: present_def record_id_def truthy_str_def split: if_splits)

text \<open>
  C19: an answer of Planning that passes validation cites only evidence some worker gathered, publishes
  only artifacts and images some worker made, and, when a worker read a page, links to one of them.
\<close>

theorem planning_answer_grounded:
  assumes "validate_output (Some (build_planning_outcome content results)) = Inr v"
  shows "ar_content (ro_response v) = content \<and>
    (\<forall>c \<in> set (citations content). \<exists>r \<in> set results. \<exists>e \<in> set (wr_evidence r).
       truthy (pget e ''evidence_id'') \<and> py_text (pget e ''evidence_id'') = c) \<and>
    (\<forall>a \<in> set (present (ar_tool_artifacts (ro_response v))). \<exists>r \<in> set results. \<exists>d \<in> set (wr_artifacts r).
       truthy (pget d ''artifact_id'') \<and> py_text (pget d ''artifact_id'') = a) \<and>
    (\<forall>i \<in> set (present (rm_images (ar_metadata (ro_response v)))). \<exists>r \<in> set results. \<exists>d \<in> set (wr_images r).
       truthy (pget d ''image_id'') \<and> py_text (pget d ''image_id'') = i) \<and>
    (source_urls (worker_evidence results) \<noteq> [] \<longrightarrow>
       set (source_urls (worker_evidence results)) \<inter> set (markdown_links content) \<noteq> {})"
proof -
  let ?o = "build_planning_outcome content results"
  from assms obtain ps where ps: "select_policies ?o = Inr ps" "run_policies ps ?o = None" "v = with_policy_ids ps ?o"
    by (rule validate_output_cases) auto
  have fields: "ar_content (ro_response ?o) = content"
    "op_evidence (ro_provenance ?o) = map (record_id ''evidence_id'')
       (filter (\<lambda>r. truthy (pget r ''evidence_id'')) (worker_evidence results))"
    "ar_tool_artifacts (ro_response ?o) = map (record_id ''artifact_id'') (concat (map wr_artifacts results))"
    "rm_images (ar_metadata (ro_response ?o)) =
       map (record_id ''image_id'') (filter is_delivered_image (concat (map wr_images results)))"
    by (simp_all add: build_planning_outcome_def Let_def worker_evidence_def)
  have "set (citations content) \<subseteq> set (present (op_evidence (ro_provenance ?o)))"
    using policies_ground [OF ps(1,2)] by (simp add: grounded_def fields)
  then have "\<forall>c \<in> set (citations content). \<exists>r \<in> set results. \<exists>e \<in> set (wr_evidence r).
      truthy (pget e ''evidence_id'') \<and> py_text (pget e ''evidence_id'') = c"
    unfolding fields using present_ids by (fastforce simp: worker_evidence_def)
  moreover have "\<forall>a \<in> set (present (ar_tool_artifacts (ro_response ?o))). \<exists>r \<in> set results. \<exists>d \<in> set (wr_artifacts r).
      truthy (pget d ''artifact_id'') \<and> py_text (pget d ''artifact_id'') = a"
    unfolding fields using present_ids by fastforce
  moreover have "\<forall>i \<in> set (present (rm_images (ar_metadata (ro_response ?o)))). \<exists>r \<in> set results. \<exists>d \<in> set (wr_images r).
      truthy (pget d ''image_id'') \<and> py_text (pget d ''image_id'') = i"
    unfolding fields using present_ids by fastforce
  moreover have "set (source_urls (worker_evidence results)) \<inter> set (markdown_links content) \<noteq> {}"
    if "source_urls (worker_evidence results) \<noteq> []"
  proof -
    let ?rs = "remap_sources [] (worker_evidence results)"
    have urls: "set (map (\<lambda>r. text_or (pget r ''url'')) ?rs) = set (source_urls (worker_evidence results))"
      using remapped_urls [of "[]" "worker_evidence results"] by simp
    with that have "op_web_sources (ro_provenance ?o) \<noteq> []" unfolding outcome_sources by auto
    from web_sources_cited [OF ps(1,2) this]
    have "set (present (map (record_id ''url'') ?rs)) \<inter> set (markdown_links content) \<noteq> {}"
      by (simp add: outcome_sources fields comp_def)
    moreover have "set (present (map (record_id ''url'') ?rs)) \<subseteq> set (source_urls (worker_evidence results))"
      unfolding urls [symmetric] by (auto simp: present_def remapped_url)
    ultimately show ?thesis by blast
  qed
  ultimately show ?thesis by (simp add: ps(3) fields(1))
qed

definition demo_worker :: worker_output where
  "demo_worker =
     \<lparr>wr_dispatch_id = ''d'', wr_task_id = ''t'', wr_position = 0, wr_agent_id = ''rag_agent'',
      wr_status = WorkerCompleted, wr_content = ''ok'', wr_artifacts = [[(''artifact_id'', PStr ''a'')]],
      wr_evidence = [[(''evidence_id'', PStr ''E1'')]], wr_images = [], wr_error_code = None\<rparr>"

lemma demo_planning_validated:
  "(case validate_output (Some (build_planning_outcome ''See [E1].'' [demo_worker])) of Inl e \<Rightarrow> False | Inr v \<Rightarrow> True)"
  by code_simp

theorem planning_answer_grounded_witness:
  "\<exists>v. validate_output (Some (build_planning_outcome ''See [E1].'' [demo_worker])) = Inr v \<and>
     (\<forall>a \<in> set (present (ar_tool_artifacts (ro_response v))). a = ''a'')"
proof -
  obtain v where v: "validate_output (Some (build_planning_outcome ''See [E1].'' [demo_worker])) = Inr v"
    using demo_planning_validated by (auto split: sum.splits)
  from planning_answer_grounded [OF v] v show ?thesis by (auto simp: demo_worker_def pget_def)
qed

end
