(* ===== verification/CompactionStore.thy ===== *)
theory CompactionStore
  imports PyText "HOL-Library.Product_Lexorder"
begin

text \<open>
  \<^verbatim>\<open>app/repositories/conversation_compaction.py\<close>: the durable state of conversation compaction. A table
  is the list of its rows in the order the database returns them. Every method is one transaction of
  the database; what it reads the clock for and the token it draws are arguments, times are in
  microseconds. \<open>'p\<close> is the type of a memory payload, \<open>None\<close> the empty dictionary. Sessions of the
  application do not flush before a query (\<^verbatim>\<open>autoflush=False\<close>), so a query after a change that was not
  flushed still sees the rows as they were.
\<close>

section \<open>Tables\<close>

datatype job_status = JobIdle | JobPending | JobProcessing | JobRetry | JobDead

fun job_status_value :: "job_status \<Rightarrow> string" where
  "job_status_value JobIdle = ''idle''"
| "job_status_value JobPending = ''pending''"
| "job_status_value JobProcessing = ''processing''"
| "job_status_value JobRetry = ''retry''"
| "job_status_value JobDead = ''dead''"

datatype sender = User | Assistant

record message_row =
  ms_id :: string
  ms_conversation_id :: string
  ms_sender :: sender
  ms_content :: string
  ms_metadata :: "(string, pyval) dict option"
  ms_sequence :: int
  ms_deleted_at :: "int option"
  ms_updated_at :: int

record conversation_row =
  cn_id :: string
  cn_owner_id :: string
  cn_deleted_at :: "int option"
  cn_next_message_sequence :: int
  cn_created_at :: int

record summary_job =
  sj_conversation_id :: string
  sj_requested_through :: int
  sj_status :: job_status
  sj_attempt_count :: int
  sj_available_at :: int
  sj_lease_token :: "string option"
  sj_lease_expires_at :: "int option"
  sj_last_error_code :: "string option"
  sj_created_at :: int
  sj_updated_at :: int

text \<open>The columns a first insert and an update of a memory both write.\<close>

record 'p memory_columns =
  mc_payload :: "'p option"
  mc_schema_version :: int
  mc_last_sequence :: "int option"
  mc_source_message_count :: int
  mc_source_token_count :: int
  mc_summary_token_count :: int
  mc_provider :: string
  mc_model :: string
  mc_tokenizer :: string
  mc_prompt_version :: string

record 'p memory_row =
  my_conversation_id :: string
  my_columns :: "'p memory_columns"
  my_version :: int
  my_is_valid :: bool
  my_updated_at :: int

record 'p compaction_db =
  cd_conversations :: "conversation_row list"
  cd_messages :: "message_row list"
  cd_memories :: "'p memory_row list"
  cd_jobs :: "summary_job list"

definition conversation_of :: "string \<Rightarrow> 'p compaction_db \<Rightarrow> conversation_row option" where
  "conversation_of c db = find (\<lambda>r. cn_id r = c) (cd_conversations db)"

definition job_of :: "string \<Rightarrow> 'p compaction_db \<Rightarrow> summary_job option" where
  "job_of c db = find (\<lambda>r. sj_conversation_id r = c) (cd_jobs db)"

definition memory_of :: "string \<Rightarrow> 'p compaction_db \<Rightarrow> 'p memory_row option" where
  "memory_of c db = find (\<lambda>r. my_conversation_id r = c) (cd_memories db)"

definition set_job :: "string \<Rightarrow> (summary_job \<Rightarrow> summary_job) \<Rightarrow> 'p compaction_db \<Rightarrow> 'p compaction_db" where
  "set_job c f db = db\<lparr>cd_jobs := map (\<lambda>r. if sj_conversation_id r = c then f r else r) (cd_jobs db)\<rparr>"

definition set_memory :: "string \<Rightarrow> ('p memory_row \<Rightarrow> 'p memory_row) \<Rightarrow> 'p compaction_db \<Rightarrow> 'p compaction_db" where
  "set_memory c f db = db\<lparr>cd_memories := map (\<lambda>r. if my_conversation_id r = c then f r else r) (cd_memories db)\<rparr>"

datatype compaction_error = ConversationNotFound | ConstraintViolated | ExactlyOneMutationRequired

section \<open>Values\<close>

definition is_hidden_transcript_artifact :: "message_row \<Rightarrow> bool" where
  "is_hidden_transcript_artifact m \<longleftrightarrow>
     ms_sender m = Assistant \<and> py_strip (ms_content m) = [] \<and>
     (let metadata = (case ms_metadata m of None \<Rightarrow> [] | Some d \<Rightarrow> d)
      in pget metadata ''paused'' = PBool True \<or> truthy (pget metadata ''interrupt''))"

record summary_job_claim =
  cl_conversation_id :: string
  cl_requested_through :: int
  cl_lease_token :: string
  cl_attempt_count :: int

record 'p compaction_input =
  ci_claim :: summary_job_claim
  ci_owner_id :: string
  ci_payload :: "'p option"
  ci_version :: int
  ci_cursor :: "int option"
  ci_messages :: "message_row list"

record 'p memory_write =
  mw_base_version :: int
  mw_base_cursor :: "int option"
  mw_columns :: "'p memory_columns"

definition second :: int where
  "second = 1000000"

section \<open>Requesting work\<close>

definition fresh_job :: "string \<Rightarrow> int \<Rightarrow> int \<Rightarrow> summary_job" where
  "fresh_job c target now =
     \<lparr>sj_conversation_id = c, sj_requested_through = target, sj_status = JobPending, sj_attempt_count = 0,
      sj_available_at = now, sj_lease_token = None, sj_lease_expires_at = None, sj_last_error_code = None,
      sj_created_at = now, sj_updated_at = now\<rparr>"

definition later_than :: "int option \<Rightarrow> int \<Rightarrow> bool" where
  "later_than t now = (case t of None \<Rightarrow> False | Some t \<Rightarrow> now < t)"

definition live_lease :: "int \<Rightarrow> summary_job \<Rightarrow> bool" where
  "live_lease now j \<longleftrightarrow>
     sj_status j = JobProcessing \<and> sj_lease_token j \<noteq> None \<and> later_than (sj_lease_expires_at j) now"

text \<open>An explicit rebuild: every job without a live lease starts again.\<close>

definition reopened_job :: "int \<Rightarrow> int \<Rightarrow> summary_job \<Rightarrow> summary_job" where
  "reopened_job target now j =
     (if live_lease now j
      then j\<lparr>sj_requested_through := max (sj_requested_through j) target, sj_updated_at := now\<rparr>
      else j\<lparr>sj_requested_through := max (sj_requested_through j) target, sj_status := JobPending,
             sj_attempt_count := 0, sj_available_at := now, sj_lease_token := None,
             sj_lease_expires_at := None, sj_last_error_code := None, sj_updated_at := now\<rparr>)"

text \<open>New work: only an idle job starts again, and a dead one keeps its target.\<close>

definition new_work_job :: "int \<Rightarrow> int \<Rightarrow> summary_job \<Rightarrow> summary_job" where
  "new_work_job target now j =
     (let j1 = (if sj_status j = JobDead then j
                else j\<lparr>sj_requested_through := max (sj_requested_through j) target\<rparr>)
      in if sj_status j = JobIdle
         then j1\<lparr>sj_status := JobPending, sj_attempt_count := 0, sj_available_at := now,
                 sj_last_error_code := None, sj_updated_at := now\<rparr>
         else j1\<lparr>sj_updated_at := now\<rparr>)"

definition message_exists :: "string \<Rightarrow> int \<Rightarrow> 'p compaction_db \<Rightarrow> bool" where
  "message_exists c s db \<longleftrightarrow> list_ex (\<lambda>m. ms_conversation_id m = c \<and> ms_sequence m = s) (cd_messages db)"

text \<open>A target is a foreign key to a message.\<close>

definition job_upsert ::
  "string \<Rightarrow> int \<Rightarrow> int \<Rightarrow> bool \<Rightarrow> 'p compaction_db \<Rightarrow> compaction_error + 'p compaction_db" where
  "job_upsert c target now reopen db =
     (case job_of c db of
        None \<Rightarrow>
          if message_exists c target db then Inr (db\<lparr>cd_jobs := cd_jobs db @ [fresh_job c target now]\<rparr>)
          else Inl ConstraintViolated
      | Some j \<Rightarrow>
          (let f = (if reopen then reopened_job target now else new_work_job target now)
           in if message_exists c (sj_requested_through (f j)) db then Inr (set_job c f db)
              else Inl ConstraintViolated))"

definition enqueue_job_in_session ::
  "string \<Rightarrow> int \<Rightarrow> int \<Rightarrow> 'p compaction_db \<Rightarrow> compaction_error + 'p compaction_db" where
  "enqueue_job_in_session c target now db = job_upsert c target now False db"

definition persist_message ::
  "string \<Rightarrow> string \<Rightarrow> sender \<Rightarrow> string \<Rightarrow> (string, pyval) dict option \<Rightarrow> int \<Rightarrow> 'p compaction_db
     \<Rightarrow> (compaction_error + message_row) \<times> 'p compaction_db" where
  "persist_message i c sender content metadata now db =
     (case conversation_of c db of
        None \<Rightarrow> (Inl ConversationNotFound, db)
      | Some cv \<Rightarrow>
          (let m = \<lparr>ms_id = i, ms_conversation_id = c, ms_sender = sender, ms_content = content,
                    ms_metadata = metadata, ms_sequence = cn_next_message_sequence cv, ms_deleted_at = None,
                    ms_updated_at = now\<rparr>;
               db1 = db\<lparr>cd_conversations := map (\<lambda>r. if cn_id r = c
                          then r\<lparr>cn_next_message_sequence := cn_next_message_sequence r + 1\<rparr> else r) (cd_conversations db),
                        cd_messages := cd_messages db @ [m]\<rparr>
           in if i \<in> set (map ms_id (cd_messages db)) \<or> message_exists c (ms_sequence m) db \<or> ms_sequence m \<le> 0
              then (Inl ConstraintViolated, db)
              else if sender = Assistant
              then (case job_upsert c (ms_sequence m) now False db1 of
                      Inl e \<Rightarrow> (Inl e, db)
                    | Inr db2 \<Rightarrow> (Inr m, db2))
              else (Inr m, db1)))"

definition assistant_sequences :: "string \<Rightarrow> 'p compaction_db \<Rightarrow> int list" where
  "assistant_sequences c db =
     map ms_sequence (filter (\<lambda>m. ms_conversation_id m = c \<and> ms_sender m = Assistant \<and> ms_deleted_at m = None)
       (cd_messages db))"

definition last_assistant_sequence :: "string \<Rightarrow> 'p compaction_db \<Rightarrow> int option" where
  "last_assistant_sequence c db =
     (if assistant_sequences c db = [] then None else Some (Max (set (assistant_sequences c db))))"

definition request_backfill ::
  "string \<Rightarrow> int option \<Rightarrow> int \<Rightarrow> 'p compaction_db \<Rightarrow> (compaction_error + bool) \<times> 'p compaction_db" where
  "request_backfill c requested now db =
     (case (case requested of None \<Rightarrow> last_assistant_sequence c db | Some t \<Rightarrow> Some t) of
        None \<Rightarrow> (Inr False, db)
      | Some target \<Rightarrow>
          if (case job_of c db of
                None \<Rightarrow> False
              | Some j \<Rightarrow> sj_requested_through j \<ge> target \<and> sj_status j \<in> {JobPending, JobProcessing, JobRetry})
          then (Inr False, db)
          else (case job_upsert c target now True db of
                  Inl e \<Rightarrow> (Inl e, db)
                | Inr db' \<Rightarrow> (Inr True, db')))"

text \<open>Conversations whose target is absent or stale, the oldest first.\<close>

definition is_backfill_candidate :: "'p compaction_db \<Rightarrow> conversation_row \<Rightarrow> bool" where
  "is_backfill_candidate db cv \<longleftrightarrow>
     cn_deleted_at cv = None \<and>
     (case last_assistant_sequence (cn_id cv) db of
        None \<Rightarrow> False
      | Some target \<Rightarrow>
          (case job_of (cn_id cv) db of
             None \<Rightarrow> True
           | Some j \<Rightarrow>
               sj_requested_through j < target \<or>
               (case memory_of (cn_id cv) db of
                  None \<Rightarrow> False
                | Some my \<Rightarrow> \<not> my_is_valid my \<and> sj_status j \<in> {JobIdle, JobDead})))"

definition list_backfill_candidates :: "nat \<Rightarrow> 'p compaction_db \<Rightarrow> (string \<times> int) list" where
  "list_backfill_candidates limit db =
     take limit (map (\<lambda>cv. (cn_id cv, the (last_assistant_sequence (cn_id cv) db)))
       (sort_key (\<lambda>cv. (cn_created_at cv, map (of_char :: char \<Rightarrow> nat) (cn_id cv)))
         (filter (is_backfill_candidate db) (cd_conversations db))))"

section \<open>Leases\<close>

definition claimable :: "string option \<Rightarrow> int \<Rightarrow> summary_job \<Rightarrow> bool" where
  "claimable c now j \<longleftrightarrow>
     sj_status j \<in> {JobPending, JobRetry} \<and>
     (case c of None \<Rightarrow> sj_available_at j \<le> now | Some i \<Rightarrow> sj_conversation_id j = i)"

definition claim_job ::
  "string option \<Rightarrow> int \<Rightarrow> int \<Rightarrow> string \<Rightarrow> 'p compaction_db \<Rightarrow> summary_job_claim option \<times> 'p compaction_db" where
  "claim_job c lease_seconds now token db =
     (case sort_key (\<lambda>j. (sj_available_at j, sj_created_at j)) (filter (claimable c now) (cd_jobs db)) of
        [] \<Rightarrow> (None, db)
      | j # _ \<Rightarrow>
          (Some \<lparr>cl_conversation_id = sj_conversation_id j, cl_requested_through = sj_requested_through j,
                 cl_lease_token = token, cl_attempt_count = sj_attempt_count j\<rparr>,
           set_job (sj_conversation_id j) (\<lambda>j. j\<lparr>sj_status := JobProcessing, sj_lease_token := Some token,
             sj_lease_expires_at := Some (now + lease_seconds * second), sj_updated_at := now\<rparr>) db))"

definition holds_lease :: "summary_job_claim \<Rightarrow> int \<Rightarrow> summary_job \<Rightarrow> bool" where
  "holds_lease claim now j \<longleftrightarrow>
     sj_status j = JobProcessing \<and> sj_lease_token j = Some (cl_lease_token claim) \<and>
     later_than (sj_lease_expires_at j) now"

definition leased_job :: "summary_job_claim \<Rightarrow> int \<Rightarrow> 'p compaction_db \<Rightarrow> summary_job option" where
  "leased_job claim now db =
     (case job_of (cl_conversation_id claim) db of
        None \<Rightarrow> None
      | Some j \<Rightarrow> if holds_lease claim now j then Some j else None)"

definition prompt_visible :: "string \<Rightarrow> message_row \<Rightarrow> bool" where
  "prompt_visible c m \<longleftrightarrow>
     ms_conversation_id m = c \<and> ms_deleted_at m = None \<and> \<not> is_hidden_transcript_artifact m"

definition load_compaction_input ::
  "summary_job_claim \<Rightarrow> string option \<Rightarrow> int \<Rightarrow> 'p compaction_db \<Rightarrow> 'p compaction_input option" where
  "load_compaction_input claim owner now db =
     (let c = cl_conversation_id claim in
      case conversation_of c db of
        None \<Rightarrow> None
      | Some cv \<Rightarrow>
          if (case owner of None \<Rightarrow> False | Some u \<Rightarrow> cn_owner_id cv \<noteq> u) \<or> leased_job claim now db = None then None
          else (let memory = memory_of c db;
                    valid = (case memory of None \<Rightarrow> False | Some my \<Rightarrow> my_is_valid my);
                    cursor = (if valid then mc_last_sequence (my_columns (the memory)) else None)
                in Some
                  \<lparr>ci_claim = claim, ci_owner_id = cn_owner_id cv,
                   ci_payload = (if valid then mc_payload (my_columns (the memory)) else None),
                   ci_version = (case memory of None \<Rightarrow> 0 | Some my \<Rightarrow> my_version my), ci_cursor = cursor,
                   ci_messages = sort_key ms_sequence
                     (filter (\<lambda>m. prompt_visible c m \<and> ms_sequence m \<le> cl_requested_through claim \<and>
                                (case cursor of None \<Rightarrow> True | Some k \<Rightarrow> k < ms_sequence m)) (cd_messages db))\<rparr>))"

definition persist_memory_cas ::
  "summary_job_claim \<Rightarrow> 'p memory_write \<Rightarrow> int \<Rightarrow> 'p compaction_db \<Rightarrow> bool \<times> 'p compaction_db" where
  "persist_memory_cas claim write now db =
     (let c = cl_conversation_id claim in
      if the (mc_last_sequence (mw_columns write)) > cl_requested_through claim then (False, db)
      else case memory_of c db of
        None \<Rightarrow>
          if leased_job claim now db = None \<or> mw_base_version write \<noteq> 0 \<or> mw_base_cursor write \<noteq> None then (False, db)
          else (True, db\<lparr>cd_memories := cd_memories db @
            [\<lparr>my_conversation_id = c, my_columns = mw_columns write, my_version = 1, my_is_valid = True,
              my_updated_at = now\<rparr>]\<rparr>)
      | Some my \<Rightarrow>
          if my_version my = mw_base_version write \<and> mc_last_sequence (my_columns my) = mw_base_cursor write \<and>
             leased_job claim now db \<noteq> None
          then (True, set_memory c (\<lambda>my. my\<lparr>my_columns := mw_columns write, my_version := my_version my + 1,
                 my_is_valid := True, my_updated_at := now\<rparr>) db)
          else (False, db))"

definition complete_claim :: "summary_job_claim \<Rightarrow> int \<Rightarrow> 'p compaction_db \<Rightarrow> job_status option \<times> 'p compaction_db" where
  "complete_claim claim now db =
     (case leased_job claim now db of
        None \<Rightarrow> (None, db)
      | Some j \<Rightarrow>
          (let status = (if sj_requested_through j \<le> cl_requested_through claim then JobIdle else JobPending)
           in (Some status, set_job (cl_conversation_id claim) (\<lambda>j. j\<lparr>sj_status := status, sj_available_at := now,
                 sj_attempt_count := 0, sj_lease_token := None, sj_lease_expires_at := None,
                 sj_last_error_code := None, sj_updated_at := now\<rparr>) db)))"

text \<open>\<^verbatim>\<open>re.sub(r"[^a-z0-9_.-]+", "_", s)\<close>: a run of other characters becomes one underscore.\<close>

definition code_char :: "char \<Rightarrow> bool" where
  "code_char ch = (let n = (of_char ch :: nat) in (97 \<le> n \<and> n \<le> 122) \<or> (48 \<le> n \<and> n \<le> 57) \<or> ch \<in> {CHR ''_'', CHR ''.'', CHR ''-''})"

fun collapse_other :: "bool \<Rightarrow> string \<Rightarrow> string" where
  "collapse_other in_run [] = []"
| "collapse_other in_run (ch # s) =
     (if code_char ch then ch # collapse_other False s
      else if in_run then collapse_other True s else CHR ''_'' # collapse_other True s)"

definition strip_underscores :: "string \<Rightarrow> string" where
  "strip_underscores s = rev (dropWhile (\<lambda>ch. ch = CHR ''_'') (rev (dropWhile (\<lambda>ch. ch = CHR ''_'') s)))"

definition sanitize_error_code :: "string \<Rightarrow> string" where
  "sanitize_error_code code =
     (let sanitized = strip_underscores (collapse_other False (lower code))
      in take 64 (if sanitized = [] then ''unknown_error'' else sanitized))"

definition fail_claim ::
  "summary_job_claim \<Rightarrow> string \<Rightarrow> bool \<Rightarrow> int option \<Rightarrow> int \<Rightarrow> int \<Rightarrow> 'p compaction_db \<Rightarrow> bool \<times> 'p compaction_db" where
  "fail_claim claim error_code permanent retry_at max_attempts now db =
     (case leased_job claim now db of
        None \<Rightarrow> (False, db)
      | Some j \<Rightarrow>
          (True, set_job (cl_conversation_id claim) (\<lambda>j. j\<lparr>
             sj_attempt_count := sj_attempt_count j + 1,
             sj_status := (if permanent \<or> sj_attempt_count j + 1 \<ge> max_attempts then JobDead else JobRetry),
             sj_available_at := (case retry_at of None \<Rightarrow> now | Some t \<Rightarrow> t), sj_lease_token := None,
             sj_lease_expires_at := None, sj_last_error_code := Some (sanitize_error_code error_code),
             sj_updated_at := now\<rparr>) db))"

definition lease_expired :: "int \<Rightarrow> summary_job \<Rightarrow> bool" where
  "lease_expired now j \<longleftrightarrow>
     sj_status j = JobProcessing \<and> (case sj_lease_expires_at j of None \<Rightarrow> False | Some t \<Rightarrow> t \<le> now)"

definition recovered_job :: "int \<Rightarrow> int \<Rightarrow> summary_job \<Rightarrow> summary_job" where
  "recovered_job max_attempts now j =
     j\<lparr>sj_attempt_count := sj_attempt_count j + 1,
       sj_status := (if sj_attempt_count j + 1 \<ge> max_attempts then JobDead else JobRetry),
       sj_available_at := now, sj_lease_token := None, sj_lease_expires_at := None,
       sj_last_error_code := Some ''lease_expired'', sj_updated_at := now\<rparr>"

text \<open>The due jobs are read before the recovered ones are written.\<close>

definition due_jobs :: "int \<Rightarrow> nat \<Rightarrow> 'p compaction_db \<Rightarrow> summary_job list" where
  "due_jobs now limit db =
     take limit (sort_key sj_available_at (filter (claimable None now) (cd_jobs db)))"

definition reconcile_due_jobs ::
  "int \<Rightarrow> nat \<Rightarrow> int \<Rightarrow> int \<Rightarrow> 'p compaction_db \<Rightarrow> string list \<times> 'p compaction_db" where
  "reconcile_due_jobs now limit debounce_seconds max_attempts db =
     (let ids = map sj_conversation_id (due_jobs now limit db)
      in (ids, db\<lparr>cd_jobs := map (\<lambda>j.
            if lease_expired now j then recovered_job max_attempts now j
            else if sj_conversation_id j \<in> set ids
            then j\<lparr>sj_available_at := now + debounce_seconds * second, sj_updated_at := now\<rparr> else j) (cd_jobs db)\<rparr>))"

section \<open>Reading\<close>

definition get_owned_valid_memory :: "string \<Rightarrow> string \<Rightarrow> 'p compaction_db \<Rightarrow> 'p memory_row option" where
  "get_owned_valid_memory c owner db =
     (case (memory_of c db, conversation_of c db) of
        (Some my, Some cv) \<Rightarrow>
          if my_is_valid my \<and> cn_owner_id cv = owner \<and> cn_deleted_at cv = None then Some my else None
      | _ \<Rightarrow> None)"

definition get_job_state :: "string \<Rightarrow> 'p compaction_db \<Rightarrow> (string \<times> int) option" where
  "get_job_state c db = map_option (\<lambda>j. (job_status_value (sj_status j), sj_available_at j)) (job_of c db)"

definition has_messages_after :: "string \<Rightarrow> int \<Rightarrow> string option \<Rightarrow> 'p compaction_db \<Rightarrow> bool" where
  "has_messages_after c after_sequence excluding db =
     list_ex (\<lambda>m. ms_conversation_id m = c \<and> after_sequence < ms_sequence m \<and> ms_deleted_at m = None \<and>
       (case excluding of None \<Rightarrow> True | Some i \<Rightarrow> ms_id m \<noteq> i)) (cd_messages db)"

definition load_fork_prefix_tail :: "string \<Rightarrow> int \<Rightarrow> nat option \<Rightarrow> 'p compaction_db \<Rightarrow> message_row list" where
  "load_fork_prefix_tail c through limit db =
     (let rows = sort_key (\<lambda>m. - ms_sequence m)
            (filter (\<lambda>m. ms_conversation_id m = c \<and> ms_sequence m \<le> through \<and> ms_deleted_at m = None) (cd_messages db))
      in filter (\<lambda>m. \<not> is_hidden_transcript_artifact m)
           (rev (case limit of None \<Rightarrow> rows | Some n \<Rightarrow> take n rows)))"

record compaction_health =
  ch_job_counts :: "(string \<times> nat) list"
  ch_oldest_actionable_age :: int
  ch_expired_lease_count :: nat
  ch_max_sequence_lag :: int
  ch_total_sequence_lag :: int

definition sequence_lag :: "'p compaction_db \<Rightarrow> summary_job \<Rightarrow> int" where
  "sequence_lag db j =
     max 0 (sj_requested_through j -
       (case memory_of (sj_conversation_id j) db of
          None \<Rightarrow> 0
        | Some my \<Rightarrow> (case mc_last_sequence (my_columns my) of None \<Rightarrow> 0 | Some k \<Rightarrow> k)))"

definition get_compaction_health_snapshot :: "int \<Rightarrow> 'p compaction_db \<Rightarrow> compaction_health" where
  "get_compaction_health_snapshot now db =
     (let waiting = filter (\<lambda>j. sj_status j \<in> {JobPending, JobRetry}) (cd_jobs db);
          lags = map (sequence_lag db) (cd_jobs db)
      in \<lparr>ch_job_counts = map (\<lambda>s. (job_status_value s, length (filter (\<lambda>j. sj_status j = s) (cd_jobs db))))
            (remdups (map sj_status (cd_jobs db))),
          ch_oldest_actionable_age =
            (if waiting = [] then 0 else max 0 (now - Min (set (map sj_updated_at waiting)))),
          ch_expired_lease_count = length (filter (lease_expired now) (cd_jobs db)),
          ch_max_sequence_lag = (if lags = [] then 0 else Max (set lags)),
          ch_total_sequence_lag = sum_list lags\<rparr>)"

section \<open>Changing a message\<close>

text \<open>What is left of a memory that covered the changed message.\<close>

definition invalidated_memory :: "int \<Rightarrow> 'p memory_row \<Rightarrow> 'p memory_row" where
  "invalidated_memory now my =
     my\<lparr>my_columns := (my_columns my)\<lparr>mc_payload := None, mc_last_sequence := None\<rparr>, my_is_valid := False,
        my_version := my_version my + 1, my_updated_at := now\<rparr>"

definition memory_covers :: "int \<Rightarrow> 'p memory_row \<Rightarrow> bool" where
  "memory_covers s my \<longleftrightarrow>
     my_is_valid my \<and> (case mc_last_sequence (my_columns my) of None \<Rightarrow> False | Some k \<Rightarrow> s \<le> k)"

definition changed_message :: "string option \<Rightarrow> int \<Rightarrow> message_row \<Rightarrow> message_row" where
  "changed_message new_content now m =
     (case new_content of
        None \<Rightarrow> m\<lparr>ms_deleted_at := Some now, ms_updated_at := now\<rparr>
      | Some content \<Rightarrow> m\<lparr>ms_content := content, ms_updated_at := now\<rparr>)"

definition restart_job :: "int \<Rightarrow> summary_job \<Rightarrow> summary_job" where
  "restart_job now j =
     j\<lparr>sj_status := JobPending, sj_attempt_count := 0, sj_available_at := now, sj_lease_token := None,
       sj_lease_expires_at := None, sj_last_error_code := None, sj_updated_at := now\<rparr>"

text \<open>The target is read while a deletion is not flushed: it may be the message being deleted.\<close>

definition invalidate_for_mutation ::
  "string \<Rightarrow> string option \<Rightarrow> bool \<Rightarrow> int \<Rightarrow> 'p compaction_db \<Rightarrow> (compaction_error + bool) \<times> 'p compaction_db" where
  "invalidate_for_mutation i new_content delete now db =
     (if delete = (new_content \<noteq> None) then (Inl ExactlyOneMutationRequired, db)
      else case find (\<lambda>m. ms_id m = i) (cd_messages db) of
        None \<Rightarrow> (Inr False, db)
      | Some m \<Rightarrow>
          if ms_deleted_at m \<noteq> None then (Inr False, db)
          else (let c = ms_conversation_id m;
                    db1 = db\<lparr>cd_messages := map (\<lambda>r. if ms_id r = i then changed_message new_content now r else r) (cd_messages db)\<rparr>
                in case memory_of c db of
                     None \<Rightarrow> (Inr True, db1)
                   | Some my \<Rightarrow>
                       if \<not> memory_covers (ms_sequence m) my then (Inr True, db1)
                       else (let db2 = set_memory c (invalidated_memory now) db1
                             in case last_assistant_sequence c db of
                                  None \<Rightarrow> (Inr True, db2)
                                | Some target \<Rightarrow>
                                    (case job_upsert c target now True db2 of
                                       Inl e \<Rightarrow> (Inl e, db)
                                     | Inr db3 \<Rightarrow> (Inr True, set_job c (restart_job now) db3)))))"

end
