(* ===== verification/RequestBudget.thy ===== *)
theory RequestBudget
  imports Prelude
begin

text \<open>
  \<^verbatim>\<open>app/ai/request_budget.py\<close>: the turns of a history and the reduction of a request that does not
  fit. Messages are any type with a role and tool calls. The tokens of a request, counted here or by the
  provider, are functions of its history; the ratio of tokens to available tokens is a value of any
  ordered type, since the code computes it in floating point.
\<close>

section \<open>Turns\<close>

record 'm history_group =
  hg_messages :: "'m list"
  hg_complete :: bool

definition group_is_complete :: "('m \<Rightarrow> string) \<Rightarrow> ('m \<Rightarrow> bool) \<Rightarrow> 'm list \<Rightarrow> bool" where
  "group_is_complete role calls ms \<longleftrightarrow>
     ms \<noteq> [] \<and> role (hd ms) = ''user'' \<and> role (last ms) = ''assistant'' \<and> \<not> calls (last ms)"

text \<open>\<open>current\<close> is the open group and \<open>waiting\<close> whether it waits for the end of a tool round.\<close>

fun group_from ::
  "('m \<Rightarrow> string) \<Rightarrow> ('m \<Rightarrow> bool) \<Rightarrow> 'm list \<Rightarrow> bool \<Rightarrow> 'm list \<Rightarrow> 'm history_group list" where
  "group_from role calls current waiting [] =
     (if current = [] then []
      else [\<lparr>hg_messages = current, hg_complete = group_is_complete role calls current \<and> \<not> waiting\<rparr>])"
| "group_from role calls current waiting (m # ms) =
     (if role m = ''memory'' \<and> current = []
      then \<lparr>hg_messages = [m], hg_complete = True\<rparr> # group_from role calls [] waiting ms
      else if role m = ''user'' \<and> current \<noteq> []
      then \<lparr>hg_messages = current, hg_complete = group_is_complete role calls current\<rparr> #
             group_from role calls [m] False ms
      else if role m = ''assistant'' \<and> \<not> calls m
      then \<lparr>hg_messages = current @ [m], hg_complete = group_is_complete role calls (current @ [m])\<rparr> #
             group_from role calls [] False ms
      else group_from role calls (current @ [m]) (role m \<in> {''assistant'', ''tool''} \<or> waiting) ms)"

definition atomic_history_groups :: "('m \<Rightarrow> string) \<Rightarrow> ('m \<Rightarrow> bool) \<Rightarrow> 'm list \<Rightarrow> 'm history_group list" where
  "atomic_history_groups role calls ms = group_from role calls [] False ms"

definition group_messages :: "'m history_group list \<Rightarrow> 'm list" where
  "group_messages gs = concat (map hg_messages gs)"

text \<open>The groups are the history, cut where turns end.\<close>

lemma group_from_partition: "group_messages (group_from role calls current waiting ms) = current @ ms"
  by (induction role calls current waiting ms rule: group_from.induct) (auto simp: group_messages_def)

lemma groups_partition [simp]: "group_messages (atomic_history_groups role calls ms) = ms"
  by (simp add: atomic_history_groups_def group_from_partition)

lemma group_from_nonempty: "g \<in> set (group_from role calls current waiting ms) \<Longrightarrow> hg_messages g \<noteq> []"
  by (induction role calls current waiting ms rule: group_from.induct) (auto split: if_splits)

text \<open>A complete group is a memory note or a whole turn, from its question to its final answer.\<close>

definition whole_turn :: "('m \<Rightarrow> string) \<Rightarrow> ('m \<Rightarrow> bool) \<Rightarrow> 'm list \<Rightarrow> bool" where
  "whole_turn role calls ms \<longleftrightarrow>
     (\<exists>m. ms = [m] \<and> role m = ''memory'') \<or> group_is_complete role calls ms"

lemma group_from_complete:
  "g \<in> set (group_from role calls current waiting ms) \<Longrightarrow> hg_complete g \<Longrightarrow> whole_turn role calls (hg_messages g)"
  by (induction role calls current waiting ms rule: group_from.induct)
    (auto simp: whole_turn_def split: if_splits)

section \<open>Reduction\<close>

text \<open>Whole turns are dropped, the oldest first, until what is left fits.\<close>

fun reduce_groups ::
  "('m list \<Rightarrow> int) \<Rightarrow> int \<Rightarrow> 'm history_group list \<Rightarrow> 'm history_group list \<Rightarrow> 'm history_group list \<times> nat" where
  "reduce_groups count hard_limit kept [] = (kept, 0)"
| "reduce_groups count hard_limit kept (g # gs) =
     (if count (group_messages (kept @ g # gs)) \<le> hard_limit then (kept @ g # gs, 0)
      else if \<not> hg_complete g then reduce_groups count hard_limit (kept @ [g]) gs
      else (let (groups, removed) = reduce_groups count hard_limit kept gs in (groups, removed + 1)))"

definition reduce_to_limit ::
  "('m \<Rightarrow> string) \<Rightarrow> ('m \<Rightarrow> bool) \<Rightarrow> ('m list \<Rightarrow> int) \<Rightarrow> int \<Rightarrow> 'm list \<Rightarrow> 'm list \<times> nat" where
  "reduce_to_limit role calls count hard_limit history =
     (let (groups, removed) = reduce_groups count hard_limit [] (atomic_history_groups role calls history)
      in (group_messages groups, removed))"

section \<open>The check before a request\<close>

datatype budget_action = Proceed | DurableRequested | EmergencyCompacted | Reduced | BudgetError

record 'm budget_result =
  br_action :: budget_action
  br_history :: "'m list"
  br_input_tokens :: int
  br_evidence_allowance :: int
  br_durable_requested :: bool
  br_emergency_compacted :: bool
  br_removed_groups :: nat
  br_error_code :: "string option"

record ('m, 'f) budget_setup =
  bu_role :: "'m \<Rightarrow> string"
  bu_calls :: "'m \<Rightarrow> bool"
  bu_estimate :: "'m list \<Rightarrow> int"
  bu_authoritative :: "'m list \<Rightarrow> int"
  bu_ratio :: "int \<Rightarrow> 'f"
  bu_near_soft :: 'f
  bu_soft :: 'f
  bu_hard :: 'f
  bu_hard_limit :: int
  bu_authoritative_allowance :: bool

definition budget_result ::
  "('m, 'f) budget_setup \<Rightarrow> budget_action \<Rightarrow> 'm list \<Rightarrow> int \<Rightarrow> bool \<Rightarrow> 'm budget_result" where
  "budget_result b action history tokens durable =
     \<lparr>br_action = action, br_history = history, br_input_tokens = tokens,
      br_evidence_allowance = max 0 (bu_hard_limit b - tokens), br_durable_requested = durable,
      br_emergency_compacted = False, br_removed_groups = 0, br_error_code = None\<rparr>"

text \<open>
  \<open>durable\<close> is how the request for a durable compaction went, \<open>None\<close> without one; \<open>emergency\<close> is the
  emergency compaction, \<open>None\<close> without one and a result of \<open>None\<close> its failure or timeout.
\<close>

definition preflight ::
  "('m, 'f::linorder) budget_setup \<Rightarrow> bool option \<Rightarrow> ('m list \<Rightarrow> 'm list option) option \<Rightarrow> 'm list \<Rightarrow> 'm budget_result" where
  "preflight b durable emergency history =
     (let count =
            (if bu_authoritative_allowance b then bu_authoritative b history
             else if bu_near_soft b \<le> bu_ratio b (bu_estimate b history) then bu_authoritative b history
             else bu_estimate b history);
          ratio = bu_ratio b count;
          requested = (durable = Some True)
      in if ratio < bu_soft b then budget_result b Proceed history count False
         else if ratio < bu_hard b then budget_result b DurableRequested history count requested
         else if bu_estimate b [] > bu_hard_limit b
         then (budget_result b BudgetError history count requested)
                \<lparr>br_error_code := Some ''context_budget_fixed_input_exceeded''\<rparr>
         else
           (let compacted = (case emergency of
                  None \<Rightarrow> None
                | Some f \<Rightarrow> if history = [] then None else f history);
                candidate = (case compacted of None \<Rightarrow> history | Some h \<Rightarrow> h);
                accepted = (compacted \<noteq> None \<and> bu_estimate b candidate \<le> bu_hard_limit b);
                (reduced, removed) =
                  (if accepted then (candidate, 0)
                   else reduce_to_limit (bu_role b) (bu_calls b) (bu_estimate b) (bu_hard_limit b) candidate);
                tokens = bu_authoritative b reduced
            in if tokens \<le> bu_hard_limit b
               then (budget_result b (if accepted then EmergencyCompacted else Reduced) reduced tokens requested)
                      \<lparr>br_emergency_compacted := accepted, br_removed_groups := removed\<rparr>
               else (budget_result b BudgetError reduced tokens requested)
                      \<lparr>br_removed_groups := removed, br_error_code := Some ''context_budget_unreducible''\<rparr>))"

definition reserve_tool_result_envelopes ::
  "('m list \<Rightarrow> int) \<Rightarrow> int \<Rightarrow> 'm list \<Rightarrow> 'm list \<Rightarrow> 'm budget_result \<Rightarrow> 'm list \<times> 'm budget_result" where
  "reserve_tool_result_envelopes authoritative hard_limit current wrapper r =
     (let tokens = authoritative (current @ wrapper)
      in (current @ wrapper, r\<lparr>br_input_tokens := tokens, br_evidence_allowance := max 0 (hard_limit - tokens)\<rparr>))"

section \<open>What reduction keeps\<close>

text \<open>\<open>kept\<close> is what is left of \<open>gs\<close> when some complete groups are dropped.\<close>

inductive dropped_turns :: "'m history_group list \<Rightarrow> 'm history_group list \<Rightarrow> nat \<Rightarrow> bool" where
  none: "dropped_turns gs gs 0"
| keep: "dropped_turns gs kept n \<Longrightarrow> dropped_turns (g # gs) (g # kept) n"
| drop: "hg_complete g \<Longrightarrow> dropped_turns gs kept n \<Longrightarrow> dropped_turns (g # gs) kept (Suc n)"

lemma reduce_groups_prefix:
  "reduce_groups count limit kept gs = (groups, removed) \<Longrightarrow> \<exists>rest. groups = kept @ rest \<and> dropped_turns gs rest removed"
proof (induction count limit kept gs arbitrary: groups removed rule: reduce_groups.induct)
  case (1 count limit kept)
  then show ?case by (auto intro: dropped_turns.none)
next
  case (2 count limit kept g gs)
  show ?case
  proof (cases "count (group_messages (kept @ g # gs)) \<le> limit")
    case True
    with 2 show ?thesis by (auto intro: dropped_turns.none)
  next
    case False
    note fits = False
    show ?thesis
    proof (cases "hg_complete g")
      case True
      obtain groups' removed' where r: "reduce_groups count limit kept gs = (groups', removed')" by fastforce
      from "2.IH"(2) [OF fits _ r] True 2(3) fits r show ?thesis by (auto intro: dropped_turns.drop)
    next
      case False
      with "2.IH"(1) [OF fits False, of groups removed] 2(3) fits show ?thesis by (auto intro: dropped_turns.keep)
    qed
  qed
qed

text \<open>Nothing is dropped from what fits.\<close>

lemma reduce_groups_none: "count (group_messages gs) \<le> limit \<Longrightarrow> reduce_groups count limit [] gs = (gs, 0)"
  by (cases gs) auto

text \<open>
  A request that reduction or emergency compaction lets through fits the hard limit by the
  provider's own count; and a reduced history keeps whole turns only. It is the history with some
  complete turns left out, no tool call is separated from its results, and nothing is left out of a
  history that already fits.
\<close>

theorem reduction_keeps_turns:
  fixes b :: "('m, 'f::linorder) budget_setup"
  defines "groups \<equiv> atomic_history_groups (bu_role b) (bu_calls b)"
  shows "(br_action (preflight b durable emergency history) \<in> {EmergencyCompacted, Reduced} \<longrightarrow>
      bu_authoritative b (br_history (preflight b durable emergency history)) \<le> bu_hard_limit b) \<and>
    (br_action (preflight b durable None history) = Reduced \<longrightarrow>
      (\<exists>kept. dropped_turns (groups history) kept (br_removed_groups (preflight b durable None history)) \<and>
        br_history (preflight b durable None history) = group_messages kept) \<and>
      (\<forall>g \<in> set (groups history). hg_complete g \<longrightarrow> whole_turn (bu_role b) (bu_calls b) (hg_messages g)) \<and>
      (bu_estimate b history \<le> bu_hard_limit b \<longrightarrow> br_history (preflight b durable None history) = history))"
proof -
  obtain kept removed where r: "reduce_groups (bu_estimate b) (bu_hard_limit b) [] (groups history) = (kept, removed)"
    by fastforce
  have reduced: "reduce_to_limit (bu_role b) (bu_calls b) (bu_estimate b) (bu_hard_limit b) history = (group_messages kept, removed)"
    using r by (simp add: reduce_to_limit_def groups_def)
  from reduce_groups_prefix [OF r] have kept: "dropped_turns (groups history) kept removed" by simp
  have fits: "group_messages kept = history" if "bu_estimate b history \<le> bu_hard_limit b"
  proof -
    from that have "bu_estimate b (group_messages (groups history)) \<le> bu_hard_limit b" by (simp add: groups_def)
    from reduce_groups_none [of "bu_estimate b", OF this] r have "kept = groups history" by simp
    then show ?thesis by (simp add: groups_def)
  qed
  have whole: "\<forall>g \<in> set (groups history). hg_complete g \<longrightarrow> whole_turn (bu_role b) (bu_calls b) (hg_messages g)"
    using group_from_complete by (auto simp: groups_def atomic_history_groups_def)
  have "br_action (preflight b durable emergency history) \<in> {EmergencyCompacted, Reduced} \<longrightarrow>
      bu_authoritative b (br_history (preflight b durable emergency history)) \<le> bu_hard_limit b"
    by (auto simp: preflight_def budget_result_def Let_def split: prod.splits if_splits)
  moreover have "br_history (preflight b durable None history) = group_messages kept \<and>
      br_removed_groups (preflight b durable None history) = removed"
    if "br_action (preflight b durable None history) = Reduced"
    using that by (auto simp: preflight_def budget_result_def Let_def reduced split: if_splits)
  ultimately show ?thesis using kept fits whole by auto
qed

text \<open>A history of two turns, messages counted by number, of which the first is dropped.\<close>

definition demo_budget_setup :: "(nat, int) budget_setup" where
  "demo_budget_setup =
     \<lparr>bu_role = (\<lambda>m. if even m then ''user'' else ''assistant''), bu_calls = (\<lambda>m. False),
      bu_estimate = (\<lambda>ms. int (length ms)), bu_authoritative = (\<lambda>ms. int (length ms)), bu_ratio = (\<lambda>n. n),
      bu_near_soft = 1, bu_soft = 2, bu_hard = 3, bu_hard_limit = 3, bu_authoritative_allowance = False\<rparr>"

theorem reduction_keeps_turns_witness:
  "br_history (preflight demo_budget_setup None None [0, 1, 2, 3]) = [2, 3] \<and>
   (\<exists>kept. dropped_turns (atomic_history_groups (bu_role demo_budget_setup) (bu_calls demo_budget_setup) [0, 1, 2, 3]) kept 1 \<and>
     group_messages kept = [2, 3])"
proof -
  have r: "br_action (preflight demo_budget_setup None None [0, 1, 2, 3]) = Reduced"
    "br_history (preflight demo_budget_setup None None [0, 1, 2, 3]) = [2, 3]"
    "br_removed_groups (preflight demo_budget_setup None None [0, 1, 2, 3]) = 1"
    by code_simp+
  from reduction_keeps_turns [of demo_budget_setup None None "[0, 1, 2, 3]"] show ?thesis
    unfolding r by (metis r(2))
qed

end
