(* ===== verification/Compactor.thy ===== *)
theory Compactor
  imports CompactionStore RequestBudget
begin

text \<open>
  \<^verbatim>\<open>app/ai/conversation_compactor.py\<close> and \<^verbatim>\<open>app/ai/conversation_memory.py\<close>: which prefix of a transcript is
  compacted, and what is accepted as its memory; and \<^verbatim>\<open>app/workers/conversation_compaction.py\<close>: the
  worker around one leased job. Token counts, the model's answer, \<^verbatim>\<open>json.loads\<close> and the regular
  expressions for unsafe items are arguments; metrics, usage accounting and provider metadata are left out.
\<close>

section \<open>Memories\<close>

definition MEMORY_KEYS :: "string list" where
  "MEMORY_KEYS = [''facts'', ''decisions'', ''constraints'', ''preferences'', ''open_questions'', ''tool_outcomes'']"

definition MAX_ITEMS_PER_SECTION :: nat where
  "MAX_ITEMS_PER_SECTION = 50"

definition MAX_ITEM_CHARACTERS :: nat where
  "MAX_ITEM_CHARACTERS = 500"

text \<open>The six sections in the order of the keys.\<close>

type_synonym conversation_memory = "(string, string list) dict"

definition validate_item :: "(string \<Rightarrow> bool) \<Rightarrow> pyval \<Rightarrow> string option" where
  "validate_item unsafe v =
     (case v of
        PStr raw \<Rightarrow>
          (let item = py_strip raw
           in if item = [] \<or> length item > MAX_ITEM_CHARACTERS \<or> unsafe item then None else Some item)
      | _ \<Rightarrow> None)"

definition validate_items :: "(string \<Rightarrow> bool) \<Rightarrow> pyval \<Rightarrow> string list option" where
  "validate_items unsafe v =
     (case v of
        PList xs \<Rightarrow>
          if length xs > MAX_ITEMS_PER_SECTION then None else sequence_opt (map (validate_item unsafe) xs)
      | _ \<Rightarrow> None)"

text \<open>\<^verbatim>\<open>ConversationMemory.model_validate\<close>: a missing section is empty, another key is refused.\<close>

definition validate_memory :: "(string \<Rightarrow> bool) \<Rightarrow> (string, pyval) dict \<Rightarrow> conversation_memory option" where
  "validate_memory unsafe payload =
     (if \<not> set (map fst payload) \<subseteq> set MEMORY_KEYS then None
      else sequence_opt (map (\<lambda>k. map_option (Pair k)
             (case map_of payload k of None \<Rightarrow> Some [] | Some v \<Rightarrow> validate_items unsafe v)) MEMORY_KEYS))"

definition memory_is_empty :: "conversation_memory \<Rightarrow> bool" where
  "memory_is_empty m \<longleftrightarrow> list_all (\<lambda>(k, items). items = []) m"

section \<open>Selection\<close>

record compactor =
  cp_trigger_messages :: nat
  cp_trigger_tokens :: int
  cp_keep_recent_turns :: nat
  cp_max_summary_tokens :: int
  cp_max_input_tokens :: "int option"
  cp_estimate :: "message_row list \<Rightarrow> int"
  cp_prompt_tokens :: "conversation_memory option \<Rightarrow> message_row list \<Rightarrow> int"
  cp_memory_tokens :: "conversation_memory \<Rightarrow> int"
  cp_json_loads :: "string \<Rightarrow> pyval option"
  cp_unsafe :: "string \<Rightarrow> bool"
  cp_provider :: string
  cp_model :: string
  cp_prompt_version :: string
  cp_token_strategy :: string

definition role_of :: "message_row \<Rightarrow> string" where
  "role_of m = (case ms_sender m of User \<Rightarrow> ''user'' | Assistant \<Rightarrow> ''assistant'')"

definition should_compact :: "compactor \<Rightarrow> bool \<Rightarrow> message_row list \<Rightarrow> bool" where
  "should_compact cp forced ms \<longleftrightarrow>
     forced \<or>
     (cp_trigger_messages cp > 0 \<and> length ms \<ge> cp_trigger_messages cp) \<or>
     (cp_trigger_tokens cp > 0 \<and> cp_estimate cp ms \<ge> cp_trigger_tokens cp)"

text \<open>Where the complete turns of the window end: the number of messages up to each.\<close>

fun complete_ends :: "nat \<Rightarrow> 'm history_group list \<Rightarrow> nat list" where
  "complete_ends offset [] = []"
| "complete_ends offset (g # gs) =
     (let offset' = offset + length (hg_messages g)
      in (if hg_complete g then [offset'] else []) @ complete_ends offset' gs)"

definition turn_ends :: "message_row list \<Rightarrow> nat list" where
  "turn_ends ms = complete_ends 0 (atomic_history_groups role_of (\<lambda>_. False) ms)"

definition select_compactable_prefix :: "compactor \<Rightarrow> message_row list \<Rightarrow> message_row list \<times> message_row list" where
  "select_compactable_prefix cp ms =
     (let ends = turn_ends ms; keep = cp_keep_recent_turns cp;
          cut = (if length ends \<le> keep then 0 else ends ! (length ends - keep - 1))
      in (take cut ms, drop cut ms))"

text \<open>The longest prefix up to an answer whose prompt fits; the first that does not ends the search.\<close>

fun bounded_length ::
  "(message_row list \<Rightarrow> int) \<Rightarrow> int \<Rightarrow> message_row list \<Rightarrow> nat \<Rightarrow> nat \<Rightarrow> message_row list \<Rightarrow> nat" where
  "bounded_length tokens limit prefix_all best index [] = best"
| "bounded_length tokens limit prefix_all best index (m # ms) =
     (if ms_sender m \<noteq> Assistant then bounded_length tokens limit prefix_all best (index + 1) ms
      else if tokens (take (index + 1) prefix_all) > limit then best
      else bounded_length tokens limit prefix_all (index + 1) (index + 1) ms)"

definition bound_selection ::
  "compactor \<Rightarrow> conversation_memory option \<Rightarrow> message_row list \<Rightarrow> message_row list \<Rightarrow> message_row list" where
  "bound_selection cp previous window chosen =
     (case cp_max_input_tokens cp of
        None \<Rightarrow> chosen
      | Some limit \<Rightarrow>
          if chosen = [] then chosen
          else take (bounded_length (cp_prompt_tokens cp previous) limit chosen 0 0 chosen) chosen)"

section \<open>Compaction\<close>

text \<open>How the call of the model ended.\<close>

datatype generation_result = Generated string | GenerationFailed | GenerationTimedOut

record compaction_result =
  cr_memory :: "conversation_memory option"
  cr_error :: "string option"
  cr_summary_tokens :: int
  cr_last_sequence :: "int option"
  cr_window_tokens :: int
  cr_prefix :: "message_row list"

definition compaction_failure :: "compactor \<Rightarrow> message_row list \<Rightarrow> message_row list \<Rightarrow> string \<Rightarrow> int \<Rightarrow> compaction_result" where
  "compaction_failure cp window chosen code summary_tokens =
     \<lparr>cr_memory = None, cr_error = Some code, cr_summary_tokens = summary_tokens, cr_last_sequence = None,
      cr_window_tokens = cp_estimate cp window, cr_prefix = chosen\<rparr>"

text \<open>What is accepted of the text the model returned.\<close>

definition read_generated :: "compactor \<Rightarrow> string \<Rightarrow> string + conversation_memory" where
  "read_generated cp text =
     (case cp_json_loads cp text of
        None \<Rightarrow> Inl ''invalid_json''
      | Some PNone \<Rightarrow> Inl ''invalid_json''
      | Some (PDict payload) \<Rightarrow>
          if set (map fst payload) \<noteq> set MEMORY_KEYS then Inl ''invalid_memory''
          else (case validate_memory (cp_unsafe cp) payload of
                  None \<Rightarrow> Inl ''invalid_memory''
                | Some m \<Rightarrow> if memory_is_empty m then Inl ''empty_memory'' else Inr m)
      | Some v \<Rightarrow> Inl ''invalid_memory'')"

text \<open>\<open>None\<close> is the timeout, which goes through to the worker.\<close>

definition compact ::
  "compactor \<Rightarrow> bool \<Rightarrow> bool \<Rightarrow> (message_row list \<Rightarrow> generation_result) \<Rightarrow> conversation_memory option
     \<Rightarrow> message_row list \<Rightarrow> compaction_result option" where
  "compact cp forced credential generate previous window =
     (let selected = fst (select_compactable_prefix cp window);
          chosen = bound_selection cp previous window selected;
          failure = (\<lambda>code. Some (compaction_failure cp window chosen code 0))
      in if \<not> should_compact cp forced window then failure ''not_triggered''
         else if chosen = []
         then failure (if cp_max_input_tokens cp \<noteq> None \<and> selected \<noteq> [] then ''compaction_input_over_budget''
                       else ''no_complete_turn'')
         else if \<not> credential then failure ''credential_unavailable''
         else case generate chosen of
           GenerationTimedOut \<Rightarrow> None
         | GenerationFailed \<Rightarrow> failure ''generation_failed''
         | Generated text \<Rightarrow>
             (case read_generated cp text of
                Inl code \<Rightarrow> failure code
              | Inr memory \<Rightarrow>
                  (let tokens = cp_memory_tokens cp memory
                   in if tokens > cp_max_summary_tokens cp
                      then Some (compaction_failure cp window chosen ''memory_over_budget'' tokens)
                      else Some \<lparr>cr_memory = Some memory, cr_error = None, cr_summary_tokens = tokens,
                             cr_last_sequence = Some (ms_sequence (last chosen)),
                             cr_window_tokens = cp_estimate cp window, cr_prefix = chosen\<rparr>)))"

section \<open>The worker\<close>

definition PERMANENT_ERRORS :: "string set" where
  "PERMANENT_ERRORS =
     {''credential_unavailable'', ''invalid_json'', ''invalid_memory'', ''empty_memory'', ''memory_over_budget'',
      ''ownership_invalid'', ''invariant_invalid'', ''compaction_input_over_budget''}"

definition SKIPPED_ERRORS :: "string set" where
  "SKIPPED_ERRORS = {''not_triggered'', ''no_complete_turn''}"

definition compute_retry_delay :: "int \<Rightarrow> int \<Rightarrow> int \<Rightarrow> (rat \<Rightarrow> rat \<Rightarrow> rat) \<Rightarrow> rat" where
  "compute_retry_delay attempt_count base_seconds max_seconds jitter =
     (let raw = min (of_int max_seconds) (of_int base_seconds * 2 ^ nat (max 0 attempt_count))
      in min (of_int max_seconds) (raw + jitter 0 (raw / 4)))"

record worker_settings =
  wk_lease_seconds :: int
  wk_max_attempts :: int
  wk_retry_base_seconds :: int
  wk_retry_max_seconds :: int
  wk_jitter :: "rat \<Rightarrow> rat \<Rightarrow> rat"
  wk_microseconds :: "rat \<Rightarrow> int"

text \<open>What the worker does with a leased job once the compaction ended.\<close>

datatype worker_action =
    CompleteJob string
  | FailJob string bool
  | WriteMemory "conversation_memory memory_write"

definition previous_memory :: "(string \<Rightarrow> bool) \<Rightarrow> conversation_memory option \<Rightarrow> conversation_memory option" where
  "previous_memory unsafe payload =
     (case payload of
        None \<Rightarrow> None
      | Some p \<Rightarrow> if p = [] then None else validate_memory unsafe (map (\<lambda>(k, items). (k, PList (map PStr items))) p))"

definition write_of ::
  "compactor \<Rightarrow> conversation_memory compaction_input \<Rightarrow> compaction_result \<Rightarrow> conversation_memory memory_write" where
  "write_of cp input r =
     \<lparr>mw_base_version = ci_version input, mw_base_cursor = ci_cursor input,
      mw_columns = \<lparr>mc_payload = cr_memory r, mc_schema_version = 1, mc_last_sequence = cr_last_sequence r,
        mc_source_message_count = int (length (cr_prefix r)), mc_source_token_count = cr_window_tokens r,
        mc_summary_token_count = cr_summary_tokens r, mc_provider = cp_provider cp, mc_model = cp_model cp,
        mc_tokenizer = cp_token_strategy cp, mc_prompt_version = cp_prompt_version cp\<rparr>\<rparr>"

definition worker_decides ::
  "compactor \<Rightarrow> conversation_memory compaction_input \<Rightarrow> compaction_result option \<Rightarrow> worker_action" where
  "worker_decides cp input result =
     (case result of
        None \<Rightarrow> FailJob ''provider_timeout'' False
      | Some r \<Rightarrow>
          (case cr_error r of
             None \<Rightarrow> WriteMemory (write_of cp input r)
           | Some code \<Rightarrow>
               if code \<in> SKIPPED_ERRORS then CompleteJob code
               else FailJob code (code \<in> PERMANENT_ERRORS)))"

text \<open>A failure of the worker: a permanent one has no time to retry at.\<close>

definition worker_fail ::
  "worker_settings \<Rightarrow> summary_job_claim \<Rightarrow> string \<Rightarrow> bool \<Rightarrow> int \<Rightarrow> 'p compaction_db \<Rightarrow> 'p compaction_db" where
  "worker_fail w claim code permanent now db =
     snd (fail_claim claim code permanent
       (if permanent then None
        else Some (now + wk_microseconds w (compute_retry_delay (cl_attempt_count claim)
               (wk_retry_base_seconds w) (wk_retry_max_seconds w) (wk_jitter w))))
       (wk_max_attempts w) now db)"

definition retry_outcome :: "worker_settings \<Rightarrow> summary_job_claim \<Rightarrow> string" where
  "retry_outcome w claim = (if cl_attempt_count claim + 1 \<ge> wk_max_attempts w then ''dead'' else ''retry'')"

text \<open>
  One run of the worker with nothing in between; \<open>clock\<close> gives the times of its transactions. The
  outcome is the status and code it reports.
\<close>

definition execute_worker ::
  "worker_settings \<Rightarrow> compactor \<Rightarrow> bool \<Rightarrow> bool \<Rightarrow> (message_row list \<Rightarrow> generation_result) \<Rightarrow> string \<Rightarrow> string
     \<Rightarrow> (nat \<Rightarrow> int) \<Rightarrow> conversation_memory compaction_db
     \<Rightarrow> (string \<times> string) \<times> conversation_memory compaction_db" where
  "execute_worker w cp forced credential generate conversation token clock db =
     (case claim_job (Some conversation) (wk_lease_seconds w) (clock 0) token db of
        (None, db1) \<Rightarrow> ((''noop'', ''not_claimed''), db1)
      | (Some claim, db1) \<Rightarrow>
          (case load_compaction_input claim None (clock 1) db1 of
             None \<Rightarrow> ((''dead'', ''ownership_invalid''), worker_fail w claim ''ownership_invalid'' True (clock 2) db1)
           | Some input \<Rightarrow>
               (case worker_decides cp input
                       (compact cp forced credential generate (previous_memory (cp_unsafe cp) (ci_payload input)) (ci_messages input)) of
                  CompleteJob code \<Rightarrow>
                    (let (status, db2) = complete_claim claim (clock 2) db1
                     in ((''skipped'', case status of None \<Rightarrow> code | Some s \<Rightarrow> job_status_value s), db2))
                | FailJob code permanent \<Rightarrow>
                    ((if permanent then ''dead'' else retry_outcome w claim, code),
                     worker_fail w claim code permanent (clock 2) db1)
                | WriteMemory write \<Rightarrow>
                    (let (persisted, db2) = persist_memory_cas claim write (clock 2) db1
                     in if \<not> persisted
                        then ((''conflict'', ''cas_conflict''), worker_fail w claim ''cas_conflict'' False (clock 3) db2)
                        else (let (status, db3) = complete_claim claim (clock 3) db2
                              in ((''completed'', case status of None \<Rightarrow> ''lease_lost'' | Some s \<Rightarrow> job_status_value s), db3))))))"

text \<open>
  The periodic tasks; \<open>publisher\<close> says whether the notification of a conversation went out. The recovery of
  leases is called without a maximum of attempts, so it takes its default.
\<close>

definition RECONCILE_MAX_ATTEMPTS :: int where
  "RECONCILE_MAX_ATTEMPTS = 5"

definition dispatch_due_jobs ::
  "(string \<Rightarrow> bool) \<Rightarrow> int \<Rightarrow> nat \<Rightarrow> int \<Rightarrow> 'p compaction_db \<Rightarrow> nat \<times> 'p compaction_db" where
  "dispatch_due_jobs publisher debounce_seconds limit now db =
     (let (ids, db') = reconcile_due_jobs now limit debounce_seconds RECONCILE_MAX_ATTEMPTS db
      in (length (filter publisher ids), db'))"

fun backfill_batch ::
  "(string \<Rightarrow> bool) \<Rightarrow> int \<Rightarrow> nat \<Rightarrow> (string \<times> int) list \<Rightarrow> 'p compaction_db
     \<Rightarrow> (compaction_error + nat) \<times> 'p compaction_db" where
  "backfill_batch publisher now published [] db = (Inr published, db)"
| "backfill_batch publisher now published ((c, target) # cs) db =
     (case request_backfill c (Some target) now db of
        (Inl e, db') \<Rightarrow> (Inl e, db')
      | (Inr requested, db') \<Rightarrow>
          backfill_batch publisher now (if requested \<and> publisher c then published + 1 else published) cs db')"

definition request_historical_backfill ::
  "(string \<Rightarrow> bool) \<Rightarrow> nat \<Rightarrow> int \<Rightarrow> 'p compaction_db \<Rightarrow> (compaction_error + nat) \<times> 'p compaction_db" where
  "request_historical_backfill publisher batch_size now db =
     backfill_batch publisher now 0 (list_backfill_candidates batch_size db) db"

section \<open>What is compacted\<close>

lemma complete_ends_nth:
  "n < length (complete_ends offset gs) \<Longrightarrow>
   \<exists>gs1 g gs2. gs = gs1 @ g # gs2 \<and> hg_complete g \<and> length (filter hg_complete gs1) = n \<and>
     complete_ends offset gs ! n = offset + length (group_messages (gs1 @ [g]))"
proof (induction offset gs arbitrary: n rule: complete_ends.induct)
  case (2 offset g gs)
  show ?case
  proof (cases "hg_complete g \<and> n = 0")
    case True
    then show ?thesis by (intro exI [of _ "[]"] exI [of _ g] exI [of _ gs]) (simp add: group_messages_def Let_def)
  next
    case False
    define k where "k = (if hg_complete g then n - 1 else n)"
    have nth: "complete_ends offset (g # gs) ! n = complete_ends (offset + length (hg_messages g)) gs ! k"
      and k: "k < length (complete_ends (offset + length (hg_messages g)) gs)"
      using False "2.prems" by (auto simp: k_def Let_def nth_append nth_Cons split: nat.splits)
    from "2.IH" [OF refl k] obtain gs1 g' gs2 where
      "gs = gs1 @ g' # gs2" "hg_complete g'" "length (filter hg_complete gs1) = k"
      "complete_ends (offset + length (hg_messages g)) gs ! k = offset + length (hg_messages g) + length (group_messages (gs1 @ [g']))"
      by blast
    then show ?thesis unfolding nth using False
      by (intro exI [of _ "g # gs1"] exI [of _ g'] exI [of _ gs2]) (auto simp: k_def group_messages_def)
  qed
qed simp

lemma complete_ends_length: "length (complete_ends offset gs) = length (filter hg_complete gs)"
  by (induction offset gs rule: complete_ends.induct) (simp_all add: Let_def)

text \<open>A selection ends with a complete turn, and leaves the recent ones.\<close>

lemma selection_ends_turn:
  assumes "fst (select_compactable_prefix cp ms) \<noteq> []"
  shows "\<exists>gs1 g gs2. atomic_history_groups role_of (\<lambda>_. False) ms = gs1 @ g # gs2 \<and> hg_complete g \<and>
    fst (select_compactable_prefix cp ms) = group_messages (gs1 @ [g]) \<and>
    snd (select_compactable_prefix cp ms) = group_messages gs2 \<and>
    length (filter hg_complete gs2) = cp_keep_recent_turns cp"
proof -
  let ?gs = "atomic_history_groups role_of (\<lambda>_. False) ms" and ?keep = "cp_keep_recent_turns cp"
  let ?n = "length (turn_ends ms) - ?keep - 1"
  have many: "?keep < length (turn_ends ms)"
    using assms by (auto simp: select_compactable_prefix_def Let_def split: if_splits)
  then have "?n < length (complete_ends 0 ?gs)" by (simp add: turn_ends_def)
  from complete_ends_nth [OF this] obtain gs1 g gs2 where g: "?gs = gs1 @ g # gs2" "hg_complete g"
    "length (filter hg_complete gs1) = ?n" "turn_ends ms ! ?n = length (group_messages (gs1 @ [g]))"
    by (auto simp: turn_ends_def)
  have "length (turn_ends ms) = length (filter hg_complete ?gs)" by (simp add: turn_ends_def complete_ends_length)
  with g(1-3) many have "length (filter hg_complete gs2) = ?keep" by simp
  moreover have "ms = group_messages (gs1 @ [g]) @ group_messages gs2"
    using groups_partition [of role_of "\<lambda>_. False" ms] unfolding g(1) by (simp add: group_messages_def)
  then have "select_compactable_prefix cp ms = (group_messages (gs1 @ [g]), group_messages gs2)"
    using many g(4) by (auto simp: select_compactable_prefix_def Let_def)
  ultimately show ?thesis using g(1,2) by auto
qed

lemma bounded_length_fits:
  "ms = drop index prefix_all \<Longrightarrow> n = bounded_length tokens limit prefix_all best index ms \<Longrightarrow>
   n = best \<or> (index < n \<and> n \<le> length prefix_all \<and> ms_sender (prefix_all ! (n - 1)) = Assistant \<and>
    tokens (take n prefix_all) \<le> limit)"
proof (induction tokens limit prefix_all best index ms rule: bounded_length.induct)
  case (2 tokens limit prefix_all best index m ms)
  have m: "index < length prefix_all" using "2.prems"(1) by (metis drop_eq_Nil leI list.distinct(1))
  with "2.prems"(1) have ms: "ms = drop (index + 1) prefix_all" "m = prefix_all ! index"
    by (simp_all add: Cons_nth_drop_Suc [symmetric])
  show ?case using "2.IH" "2.prems"(2) ms m by (auto simp: not_less)
qed simp

lemma whole_turn_answered:
  assumes "hg_complete g" "g \<in> set (atomic_history_groups role_of (\<lambda>_. False) ms)"
  shows "hg_messages g \<noteq> []" "ms_sender (last (hg_messages g)) = Assistant" "ms_sender (hd (hg_messages g)) = User"
proof -
  have "whole_turn role_of (\<lambda>_. False) (hg_messages g)"
    using group_from_complete assms by (auto simp: atomic_history_groups_def)
  moreover have "role_of m \<noteq> ''memory''" for m by (simp add: role_of_def split: sender.splits)
  ultimately show "hg_messages g \<noteq> []" "ms_sender (last (hg_messages g)) = Assistant" "ms_sender (hd (hg_messages g)) = User"
    by (auto simp: whole_turn_def group_is_complete_def role_of_def split: sender.splits)
qed

lemma bound_selection_prefix: "\<exists>rest. chosen = bound_selection cp previous window chosen @ rest"
  unfolding bound_selection_def by (cases "cp_max_input_tokens cp") (auto intro: append_take_drop_id [symmetric])

text \<open>What is left of a selection still ends with an answer, and its prompt fits.\<close>

lemma bound_selection_fits:
  assumes "bound_selection cp previous window chosen \<noteq> []" "chosen \<noteq> []" "ms_sender (last chosen) = Assistant"
  defines "kept \<equiv> bound_selection cp previous window chosen"
  shows "ms_sender (last kept) = Assistant" "cp_max_input_tokens cp = Some limit \<Longrightarrow> cp_prompt_tokens cp previous kept \<le> limit"
proof (atomize(full), cases "cp_max_input_tokens cp")
  case (Some l)
  let ?n = "bounded_length (cp_prompt_tokens cp previous) l chosen 0 0 chosen"
  have kept: "kept = take ?n chosen" using assms(2) by (simp add: kept_def bound_selection_def Some)
  with assms(1) have "?n \<noteq> 0" by (auto simp: kept_def)
  with bounded_length_fits [of chosen 0 chosen ?n "cp_prompt_tokens cp previous" l 0]
  have "?n \<le> length chosen" "ms_sender (chosen ! (?n - 1)) = Assistant" "cp_prompt_tokens cp previous (take ?n chosen) \<le> l"
    by auto
  moreover from this have "last (take ?n chosen) = chosen ! (?n - 1)"
    using \<open>?n \<noteq> 0\<close> by (subst last_conv_nth) (auto simp: min_def)
  ultimately show "ms_sender (last kept) = Assistant \<and> (cp_max_input_tokens cp = Some limit \<longrightarrow> cp_prompt_tokens cp previous kept \<le> limit)"
    using Some by (auto simp: kept)
qed (use assms in \<open>simp add: bound_selection_def\<close>)

lemma compact_success:
  assumes "compact cp forced credential generate previous window = Some r" "cr_error r = None"
  defines "selected \<equiv> fst (select_compactable_prefix cp window)"
  shows "cr_prefix r = bound_selection cp previous window selected" "cr_prefix r \<noteq> []" "selected \<noteq> []"
    "cr_last_sequence r = Some (ms_sequence (last (cr_prefix r)))"
    "\<exists>text memory. cr_memory r = Some memory \<and> generate (cr_prefix r) = Generated text \<and> read_generated cp text = Inr memory \<and>
       cp_memory_tokens cp memory \<le> cp_max_summary_tokens cp"
proof -
  have "bound_selection cp previous window [] = []" by (simp add: bound_selection_def split: option.splits)
  with assms show "cr_prefix r = bound_selection cp previous window selected" "cr_prefix r \<noteq> []" "selected \<noteq> []"
    "cr_last_sequence r = Some (ms_sequence (last (cr_prefix r)))"
    "\<exists>text memory. cr_memory r = Some memory \<and> generate (cr_prefix r) = Generated text \<and> read_generated cp text = Inr memory \<and>
       cp_memory_tokens cp memory \<le> cp_max_summary_tokens cp"
    by (auto simp: compact_def Let_def compaction_failure_def not_less split: if_splits generation_result.splits sum.splits)
qed

lemma compact_prefix: 
  assumes "compact cp forced credential generate previous window = Some r" "cr_error r = None"
  shows "\<exists>rest. fst (select_compactable_prefix cp window) = cr_prefix r @ rest"
  unfolding compact_success(1) [OF assms] by (rule bound_selection_prefix)

text \<open>
  A successful compaction takes a prefix of its window. The prefix ends with an answer, its prompt fits
  the input budget, its cursor is its last message; and whatever it leaves behind contains, whole and
  unsplit, the configured number of recent complete turns.
\<close>

theorem compaction_keeps_recent_turns:
  assumes "compact cp forced credential generate previous window = Some r" "cr_error r = None"
  shows "\<exists>mid gs1 gs2. atomic_history_groups role_of (\<lambda>_. False) window = gs1 @ gs2 \<and>
      group_messages gs1 = cr_prefix r @ mid \<and> window = cr_prefix r @ mid @ group_messages gs2 \<and>
      length (filter hg_complete gs2) = cp_keep_recent_turns cp \<and>
      cr_prefix r \<noteq> [] \<and> ms_sender (last (cr_prefix r)) = Assistant \<and>
      cr_last_sequence r = Some (ms_sequence (last (cr_prefix r))) \<and>
      (case cp_max_input_tokens cp of None \<Rightarrow> mid = [] | Some limit \<Rightarrow> cp_prompt_tokens cp previous (cr_prefix r) \<le> limit)"
proof -
  note c = compact_success [OF assms]
  let ?selected = "fst (select_compactable_prefix cp window)"
  from selection_ends_turn [OF c(3)] obtain gs1 g gs2 where
    gs: "atomic_history_groups role_of (\<lambda>_. False) window = gs1 @ g # gs2" "hg_complete g"
      "?selected = group_messages (gs1 @ [g])" "snd (select_compactable_prefix cp window) = group_messages gs2"
      "length (filter hg_complete gs2) = cp_keep_recent_turns cp" by blast
  from compact_prefix [OF assms] obtain mid where mid: "?selected = cr_prefix r @ mid" by blast
  have "g \<in> set (atomic_history_groups role_of (\<lambda>_. False) window)" by (simp add: gs(1))
  from whole_turn_answered [OF gs(2) this] have "ms_sender (last ?selected) = Assistant"
    by (simp add: gs(3) group_messages_def)
  note fits = bound_selection_fits [of cp previous window ?selected, folded c(1), OF c(2,3) this]
  have "window = ?selected @ snd (select_compactable_prefix cp window)"
    by (simp add: select_compactable_prefix_def Let_def)
  then have "window = cr_prefix r @ mid @ group_messages gs2" by (simp add: mid gs(4))
  moreover have "mid = []" if "cp_max_input_tokens cp = None"
    using c(1) mid that by (simp add: bound_selection_def)
  moreover have "group_messages (gs1 @ [g]) = cr_prefix r @ mid" using gs(3) mid by simp
  ultimately show ?thesis using gs(1,5) c(2,4) fits
    by (intro exI [of _ mid] exI [of _ "gs1 @ [g]"] exI [of _ gs2]) (auto split: option.splits)
qed

section \<open>What is accepted\<close>

lemma sequence_opt_iff: "sequence_opt xs = Some ys \<longleftrightarrow> xs = map Some ys"
proof (induction xs arbitrary: ys)
  case (Cons x xs)
  then show ?case by (cases x; cases ys) auto
qed auto

lemma pair_sequence:
  assumes "map (\<lambda>k. map_option (Pair k) (g k)) ks = map Some m"
  shows "map fst m = ks" "(k, v) \<in> set m \<Longrightarrow> g k = Some v"
  using assms by (induction ks arbitrary: m) (auto simp: Cons_eq_map_conv)

definition safe_item :: "(string \<Rightarrow> bool) \<Rightarrow> string \<Rightarrow> bool" where
  "safe_item unsafe item \<longleftrightarrow>
     item \<noteq> [] \<and> py_strip item = item \<and> length item \<le> MAX_ITEM_CHARACTERS \<and> \<not> unsafe item"

lemma validate_items_ok:
  assumes "validate_items unsafe v = Some items"
  shows "length items \<le> MAX_ITEMS_PER_SECTION" "\<forall>item \<in> set items. safe_item unsafe item"
proof -
  obtain xs where xs: "v = PList xs" "length xs \<le> MAX_ITEMS_PER_SECTION" "map (validate_item unsafe) xs = map Some items"
    using assms by (auto simp: validate_items_def sequence_opt_iff split: pyval.splits if_splits)
  then show "length items \<le> MAX_ITEMS_PER_SECTION" by (metis length_map)
  have "safe_item unsafe item" if "item \<in> set items" for item
  proof -
    from that have "Some item \<in> set (map (validate_item unsafe) xs)" using xs(3) by simp
    then show ?thesis
      by (auto simp: validate_item_def safe_item_def Let_def split: pyval.splits if_splits)
  qed
  then show "\<forall>item \<in> set items. safe_item unsafe item" by blast
qed

text \<open>A safe memory is read back as it is.\<close>

lemma validate_items_of:
  assumes "length items \<le> MAX_ITEMS_PER_SECTION" "\<forall>item \<in> set items. safe_item unsafe item"
  shows "validate_items unsafe (PList (map PStr items)) = Some items"
  using assms by (auto simp: validate_items_def sequence_opt_iff validate_item_def safe_item_def)

lemma validate_memory_of:
  assumes keys: "map fst m = MEMORY_KEYS"
    and items: "\<And>k items. (k, items) \<in> set m \<Longrightarrow> length items \<le> MAX_ITEMS_PER_SECTION \<and> (\<forall>item \<in> set items. safe_item unsafe item)"
  shows "validate_memory unsafe (map (\<lambda>(k, items). (k, PList (map PStr items))) m) = Some m"
proof -
  let ?p = "map (\<lambda>(k, items). (k, PList (map PStr items))) m"
  have fst: "map fst ?p = MEMORY_KEYS" unfolding keys [symmetric] by (simp add: o_def case_prod_beta)
  have dist: "distinct (map fst m)" unfolding keys by (simp add: MEMORY_KEYS_def)
  have "map_option (Pair k) (case map_of ?p k of None \<Rightarrow> Some [] | Some v \<Rightarrow> validate_items unsafe v) = Some (k, items)"
    if "(k, items) \<in> set m" for k items
  proof -
    have "map_of ?p k = Some (PList (map PStr items))"
      by (rule map_of_is_SomeI) (use fst keys dist that in force)+
    with items [OF that] show ?thesis by (simp add: validate_items_of)
  qed
  then have "map (\<lambda>x. map_option (Pair (fst x)) (case map_of ?p (fst x) of None \<Rightarrow> Some [] | Some v \<Rightarrow> validate_items unsafe v)) m = map Some m"
    by (intro map_cong) auto
  then have "map (\<lambda>k. map_option (Pair k) (case map_of ?p k of None \<Rightarrow> Some [] | Some v \<Rightarrow> validate_items unsafe v)) MEMORY_KEYS = map Some m"
    unfolding keys [symmetric] by (simp add: o_def)
  moreover have "set (map fst ?p) \<subseteq> set MEMORY_KEYS" using fst by simp
  ultimately show ?thesis using sequence_opt_iff [of "map Some m" m] by (simp add: validate_memory_def)
qed

text \<open>
  C22: a memory the compactor accepts has exactly the six sections in their order, at least one item, at most
  fifty items a section, each stripped, not empty, at most 500 characters and not matching a pattern of
  unsafe content, and fits its token budget; whatever text the model returned. Reading it back as the
  previous memory of the next compaction gives the same memory.
\<close>

theorem accepted_memory_is_safe:
  assumes "compact cp forced credential generate previous window = Some r" "cr_error r = None"
  shows "\<exists>m. cr_memory r = Some m \<and> map fst m = MEMORY_KEYS \<and> \<not> memory_is_empty m \<and>
    cp_memory_tokens cp m \<le> cp_max_summary_tokens cp \<and>
    (\<forall>(k, items) \<in> set m. length items \<le> MAX_ITEMS_PER_SECTION \<and>
       (\<forall>item \<in> set items. item \<noteq> [] \<and> py_strip item = item \<and> length item \<le> MAX_ITEM_CHARACTERS \<and> \<not> cp_unsafe cp item)) \<and>
    previous_memory (cp_unsafe cp) (cr_memory r) = Some m"
proof -
  from compact_success(5) [OF assms] obtain answer m where m: "cr_memory r = Some m" "read_generated cp answer = Inr m"
    "cp_memory_tokens cp m \<le> cp_max_summary_tokens cp" by blast
  then obtain payload where p: "validate_memory (cp_unsafe cp) payload = Some m" "\<not> memory_is_empty m"
    by (auto simp: read_generated_def split: option.splits pyval.splits if_splits)
  then have "map (\<lambda>k. map_option (Pair k)
      (case map_of payload k of None \<Rightarrow> Some [] | Some v \<Rightarrow> validate_items (cp_unsafe cp) v)) MEMORY_KEYS = map Some m"
    by (simp add: validate_memory_def sequence_opt_iff split: if_splits)
  note keys = pair_sequence [OF this]
  have items: "length items \<le> MAX_ITEMS_PER_SECTION \<and> (\<forall>item \<in> set items. safe_item (cp_unsafe cp) item)" if "(k, items) \<in> set m" for k items
    using keys(2) [OF that] validate_items_ok by (fastforce simp: safe_item_def split: option.splits)
  have "validate_memory (cp_unsafe cp) (map (\<lambda>(k, items). (k, PList (map PStr items))) m) = Some m"
    by (rule validate_memory_of [OF keys(1)]) (rule items)
  moreover have "m \<noteq> []" using keys(1) by (auto simp: MEMORY_KEYS_def)
  ultimately show ?thesis using m(1,3) p(2) keys(1) items
    by (auto simp: previous_memory_def safe_item_def)
qed

text \<open>Two turns of which the last is kept; with room for three messages in the prompt.\<close>

definition demo_selector :: compactor where
  "demo_selector =
     \<lparr>cp_trigger_messages = 2, cp_trigger_tokens = 0, cp_keep_recent_turns = 1, cp_max_summary_tokens = 10,
      cp_max_input_tokens = Some 3, cp_estimate = (\<lambda>ms. int (length ms)), cp_prompt_tokens = (\<lambda>p ms. int (length ms)),
      cp_memory_tokens = (\<lambda>m. 1),
      cp_json_loads = (\<lambda>t. Some (PDict [(''facts'', PList [PStr '' sky is blue'']), (''decisions'', PList []),
        (''constraints'', PList []), (''preferences'', PList []), (''open_questions'', PList []), (''tool_outcomes'', PList [])])),
      cp_unsafe = (\<lambda>t. False), cp_provider = ''p'', cp_model = ''m'', cp_prompt_version = ''v1'', cp_token_strategy = ''t''\<rparr>"

definition demo_window :: "message_row list" where
  "demo_window = map (\<lambda>(n, who). \<lparr>ms_id = [], ms_conversation_id = ''c'', ms_sender = who, ms_content = ''x'', ms_metadata = None,
      ms_sequence = n, ms_deleted_at = None, ms_updated_at = 0\<rparr>) [(1, User), (2, Assistant), (3, User), (4, Assistant), (5, User)]"

definition demo_compaction :: "compaction_result option" where
  "demo_compaction = compact demo_selector False True (\<lambda>ms. Generated ''{}'') None demo_window"

lemma demo_compaction_runs:
  "\<exists>r. compact demo_selector False True (\<lambda>ms. Generated ''{}'') None demo_window = Some r \<and> cr_error r = None \<and>
     cr_prefix r = take 2 demo_window"
proof -
  have "(case demo_compaction of None \<Rightarrow> False | Some r \<Rightarrow> cr_error r = None \<and> cr_prefix r = take 2 demo_window)"
    by code_simp
  then show ?thesis by (auto simp: demo_compaction_def split: option.splits)
qed

theorem compaction_keeps_recent_turns_witness:
  "\<exists>mid gs2. demo_window = take 2 demo_window @ mid @ group_messages gs2 \<and> length (filter hg_complete gs2) = 1"
proof -
  from demo_compaction_runs obtain r where
    r: "compact demo_selector False True (\<lambda>ms. Generated ''{}'') None demo_window = Some r" "cr_error r = None"
      "cr_prefix r = take 2 demo_window" by blast
  have "cp_keep_recent_turns demo_selector = 1" by (simp add: demo_selector_def)
  with compaction_keeps_recent_turns [OF r(1,2)] show ?thesis unfolding r(3) by metis
qed

theorem accepted_memory_is_safe_witness:
  "\<exists>r m. demo_compaction = Some r \<and> cr_memory r = Some m \<and> map fst m = MEMORY_KEYS \<and> \<not> memory_is_empty m"
proof -
  from demo_compaction_runs obtain r where
    r: "compact demo_selector False True (\<lambda>ms. Generated ''{}'') None demo_window = Some r" "cr_error r = None" by blast
  from accepted_memory_is_safe [OF r] r(1) show ?thesis unfolding demo_compaction_def by blast
qed

end
