(* ===== verification/CompactionRun.thy ===== *)
theory CompactionRun
  imports Compactor
begin

text \<open>
  Compaction as the processes around it run: messages are posted, changed and deleted, workers claim a
  job, load its input, compact without a transaction open, write and complete, leases expire and are
  recovered, workers die. A step is one transaction, at any time on its own clock. Two ghosts are kept:
  the tokens drawn so far, and for each conversation the messages its memory was made from. \<open>calm\<close> says
  which changes of messages may happen.
\<close>

section \<open>The machine\<close>

datatype worker_phase =
    Claimed
  | Loaded "conversation_memory compaction_input"
  | Written

record run_state =
  rn_db :: "conversation_memory compaction_db"
  rn_workers :: "(summary_job_claim \<times> worker_phase) list"
  rn_tokens :: "string set"
  rn_basis :: "string \<Rightarrow> message_row list"

definition worker_compacts ::
  "compactor \<Rightarrow> bool \<Rightarrow> bool \<Rightarrow> (message_row list \<Rightarrow> generation_result) \<Rightarrow> conversation_memory compaction_input
     \<Rightarrow> compaction_result option" where
  "worker_compacts cp forced credential generate input =
     compact cp forced credential generate (previous_memory (cp_unsafe cp) (ci_payload input)) (ci_messages input)"

definition valid_memory :: "string \<Rightarrow> 'p compaction_db \<Rightarrow> bool" where
  "valid_memory c db = (case memory_of c db of None \<Rightarrow> False | Some my \<Rightarrow> my_is_valid my)"

definition new_basis :: "summary_job_claim \<Rightarrow> compaction_result \<Rightarrow> run_state \<Rightarrow> string \<Rightarrow> message_row list" where
  "new_basis claim r s =
     (let c = cl_conversation_id claim
      in (rn_basis s)(c := (if valid_memory c (rn_db s) then rn_basis s c else []) @ cr_prefix r))"

inductive compaction_step ::
  "worker_settings \<Rightarrow> compactor \<Rightarrow> (run_state \<Rightarrow> message_row \<Rightarrow> bool) \<Rightarrow> run_state \<Rightarrow> run_state \<Rightarrow> bool"
  for w cp calm where
  opens: "conversation_of c (rn_db s) = None \<Longrightarrow>
    compaction_step w cp calm s (s\<lparr>rn_db := (rn_db s)\<lparr>cd_conversations := cd_conversations (rn_db s) @
      [\<lparr>cn_id = c, cn_owner_id = u, cn_deleted_at = None, cn_next_message_sequence = 1, cn_created_at = now\<rparr>]\<rparr>\<rparr>)"
| posts: "persist_message i c sender content metadata now (rn_db s) = (Inr m, db) \<Longrightarrow>
    compaction_step w cp calm s (s\<lparr>rn_db := db\<rparr>)"
| enqueues: "enqueue_job_in_session c target now (rn_db s) = Inr db \<Longrightarrow> compaction_step w cp calm s (s\<lparr>rn_db := db\<rparr>)"
| backfills: "request_backfill c target now (rn_db s) = (Inr b, db) \<Longrightarrow> compaction_step w cp calm s (s\<lparr>rn_db := db\<rparr>)"
| claims: "claim_job c (wk_lease_seconds w) now token (rn_db s) = (Some claim, db) \<Longrightarrow> token \<notin> rn_tokens s \<Longrightarrow>
    compaction_step w cp calm s
      (s\<lparr>rn_db := db, rn_workers := (claim, Claimed) # rn_workers s, rn_tokens := insert token (rn_tokens s)\<rparr>)"
| loads: "rn_workers s = before @ (claim, Claimed) # after \<Longrightarrow>
    load_compaction_input claim None now (rn_db s) = Some input \<Longrightarrow>
    compaction_step w cp calm s (s\<lparr>rn_workers := before @ (claim, Loaded input) # after\<rparr>)"
| load_fails: "rn_workers s = before @ (claim, Claimed) # after \<Longrightarrow>
    load_compaction_input claim None now (rn_db s) = None \<Longrightarrow>
    compaction_step w cp calm s (s\<lparr>rn_db := worker_fail w claim ''ownership_invalid'' True now' (rn_db s),
      rn_workers := before @ after\<rparr>)"
| skips: "rn_workers s = before @ (claim, Loaded input) # after \<Longrightarrow>
    worker_decides cp input (worker_compacts cp forced credential generate input) = CompleteJob code \<Longrightarrow>
    compaction_step w cp calm s (s\<lparr>rn_db := snd (complete_claim claim now (rn_db s)), rn_workers := before @ after\<rparr>)"
| fails: "rn_workers s = before @ (claim, Loaded input) # after \<Longrightarrow>
    worker_decides cp input (worker_compacts cp forced credential generate input) = FailJob code permanent \<Longrightarrow>
    compaction_step w cp calm s (s\<lparr>rn_db := worker_fail w claim code permanent now (rn_db s), rn_workers := before @ after\<rparr>)"
| writes: "rn_workers s = before @ (claim, Loaded input) # after \<Longrightarrow>
    worker_compacts cp forced credential generate input = Some r \<Longrightarrow> cr_error r = None \<Longrightarrow>
    persist_memory_cas claim (write_of cp input r) now (rn_db s) = (True, db) \<Longrightarrow>
    compaction_step w cp calm s (s\<lparr>rn_db := db, rn_workers := before @ (claim, Written) # after,
      rn_basis := new_basis claim r s\<rparr>)"
| conflicts: "rn_workers s = before @ (claim, Loaded input) # after \<Longrightarrow>
    worker_compacts cp forced credential generate input = Some r \<Longrightarrow> cr_error r = None \<Longrightarrow>
    persist_memory_cas claim (write_of cp input r) now (rn_db s) = (False, db) \<Longrightarrow>
    compaction_step w cp calm s (s\<lparr>rn_db := worker_fail w claim ''cas_conflict'' False now' db, rn_workers := before @ after\<rparr>)"
| completes: "rn_workers s = before @ (claim, Written) # after \<Longrightarrow>
    compaction_step w cp calm s (s\<lparr>rn_db := snd (complete_claim claim now (rn_db s)), rn_workers := before @ after\<rparr>)"
| dies: "rn_workers s = before @ x # after \<Longrightarrow> compaction_step w cp calm s (s\<lparr>rn_workers := before @ after\<rparr>)"
| reconciles: "compaction_step w cp calm s
    (s\<lparr>rn_db := snd (dispatch_due_jobs publisher debounce limit now (rn_db s))\<rparr>)"
| changes: "find (\<lambda>m. ms_id m = i) (cd_messages (rn_db s)) = Some m \<Longrightarrow> calm s m \<Longrightarrow>
    invalidate_for_mutation i content delete now (rn_db s) = (Inr b, db) \<Longrightarrow>
    compaction_step w cp calm s (s\<lparr>rn_db := db\<rparr>)"

definition run_start :: run_state where
  "run_start =
     \<lparr>rn_db = \<lparr>cd_conversations = [], cd_messages = [], cd_memories = [], cd_jobs = []\<rparr>, rn_workers = [],
      rn_tokens = {}, rn_basis = (\<lambda>c. [])\<rparr>"

definition compaction_reaches ::
  "worker_settings \<Rightarrow> compactor \<Rightarrow> (run_state \<Rightarrow> message_row \<Rightarrow> bool) \<Rightarrow> run_state \<Rightarrow> bool" where
  "compaction_reaches w cp calm s \<longleftrightarrow> (compaction_step w cp calm)\<^sup>*\<^sup>* run_start s"

lemma compaction_reaches_induct [consumes 1, case_names start step]:
  assumes "compaction_reaches w cp calm s" and "P run_start"
    and "\<And>s s'. compaction_reaches w cp calm s \<Longrightarrow> P s \<Longrightarrow> compaction_step w cp calm s s' \<Longrightarrow> P s'"
  shows "P s"
  using assms(1) unfolding compaction_reaches_def
proof (induction rule: rtranclp_induct)
  case base
  from assms(2) show ?case .
next
  case (step s s')
  with assms(3) show ?case by (simp add: compaction_reaches_def)
qed

section \<open>Jobs through every operation\<close>

lemma job_of_set_job:
  assumes "\<And>j. sj_conversation_id (f j) = sj_conversation_id j"
  shows "job_of c' (set_job c f db) = (if c' = c then map_option f (job_of c db) else job_of c' db)"
proof -
  have "find (\<lambda>j. sj_conversation_id j = c') (map (\<lambda>j. if sj_conversation_id j = c then f j else j) js) =
      (if c' = c then map_option f (find (\<lambda>j. sj_conversation_id j = c) js)
       else find (\<lambda>j. sj_conversation_id j = c') js)" for js
    by (induction js) (auto simp: assms)
  then show ?thesis by (simp add: job_of_def set_job_def)
qed

lemma memory_of_set_memory:
  assumes "\<And>my. my_conversation_id (f my) = my_conversation_id my"
  shows "memory_of c' (set_memory c f db) = (if c' = c then map_option f (memory_of c db) else memory_of c' db)"
proof -
  have "find (\<lambda>j. my_conversation_id j = c') (map (\<lambda>j. if my_conversation_id j = c then f j else j) js) =
      (if c' = c then map_option f (find (\<lambda>j. my_conversation_id j = c) js)
       else find (\<lambda>j. my_conversation_id j = c') js)" for js
    by (induction js) (auto simp: assms)
  then show ?thesis by (simp add: memory_of_def set_memory_def)
qed

lemma set_job_simps [simp]:
  "cd_conversations (set_job c f db) = cd_conversations db" "cd_messages (set_job c f db) = cd_messages db"
  "cd_memories (set_job c f db) = cd_memories db"
  by (simp_all add: set_job_def)

lemma set_memory_simps [simp]:
  "cd_conversations (set_memory c f db) = cd_conversations db" "cd_messages (set_memory c f db) = cd_messages db"
  "cd_jobs (set_memory c f db) = cd_jobs db"
  by (simp_all add: set_memory_def)

lemma of_cong [simp]:
  "job_of c (db\<lparr>cd_messages := ms\<rparr>) = job_of c db" "job_of c (db\<lparr>cd_conversations := cs\<rparr>) = job_of c db"
  "job_of c (db\<lparr>cd_memories := mys\<rparr>) = job_of c db"
  "memory_of c (db\<lparr>cd_messages := ms\<rparr>) = memory_of c db" "memory_of c (db\<lparr>cd_conversations := cs\<rparr>) = memory_of c db"
  "memory_of c (db\<lparr>cd_jobs := js\<rparr>) = memory_of c db" "memory_of c (set_job c' f db) = memory_of c db"
  "job_of c (set_memory c' g db) = job_of c db" "conversation_of c (set_job c' f db) = conversation_of c db"
  "conversation_of c (set_memory c' g db) = conversation_of c db"
  "conversation_of c (db\<lparr>cd_jobs := js\<rparr>) = conversation_of c db"
  "conversation_of c (db\<lparr>cd_messages := ms\<rparr>) = conversation_of c db"
  "conversation_of c (db\<lparr>cd_memories := mys\<rparr>) = conversation_of c db"
  by (simp_all add: job_of_def memory_of_def conversation_of_def set_job_def set_memory_def)

section \<open>What stays the same\<close>

definition version_of :: "string \<Rightarrow> 'p compaction_db \<Rightarrow> int" where
  "version_of c db = (case memory_of c db of None \<Rightarrow> 0 | Some my \<Rightarrow> my_version my)"

definition cursor_of :: "string \<Rightarrow> 'p compaction_db \<Rightarrow> int option" where
  "cursor_of c db =
     (case memory_of c db of
        None \<Rightarrow> None
      | Some my \<Rightarrow> if my_is_valid my then mc_last_sequence (my_columns my) else None)"

text \<open>What the transcript shows of a conversation between two sequences.\<close>

definition visible_between :: "string \<Rightarrow> int option \<Rightarrow> int \<Rightarrow> 'p compaction_db \<Rightarrow> message_row list" where
  "visible_between c lo hi db =
     filter (\<lambda>m. prompt_visible c m \<and> ms_sequence m \<le> hi \<and> (case lo of None \<Rightarrow> True | Some k \<Rightarrow> k < ms_sequence m))
       (cd_messages db)"

definition same_rows :: "'p compaction_db \<Rightarrow> 'p compaction_db \<Rightarrow> bool" where
  "same_rows db db' \<longleftrightarrow>
     cd_conversations db' = cd_conversations db \<and> cd_messages db' = cd_messages db \<and> cd_memories db' = cd_memories db"

lemma same_rows_of:
  assumes "same_rows db db'"
  shows "cd_conversations db' = cd_conversations db" "cd_messages db' = cd_messages db"
    "memory_of c db' = memory_of c db" "conversation_of c db' = conversation_of c db"
    "message_exists c n db' = message_exists c n db" "version_of c db' = version_of c db"
    "cursor_of c db' = cursor_of c db" "visible_between c lo hi db' = visible_between c lo hi db"
  using assms
  by (simp_all add: same_rows_def memory_of_def conversation_of_def message_exists_def version_of_def cursor_of_def
      visible_between_def)

lemma same_rows_refl [simp]: "same_rows db db"
  by (simp add: same_rows_def)

lemma same_rows_trans: "same_rows db db1 \<Longrightarrow> same_rows db1 db2 \<Longrightarrow> same_rows db db2"
  by (simp add: same_rows_def)

lemma same_rows_set_job [simp]: "same_rows db (set_job c f db)"
  by (simp add: same_rows_def)

lemma same_rows_upsert: "job_upsert c target now reopen db = Inr db' \<Longrightarrow> same_rows db db'"
  by (auto simp: job_upsert_def Let_def same_rows_def split: option.splits if_splits)

lemma same_rows_backfill: "request_backfill c target now db = (r, db') \<Longrightarrow> same_rows db db'"
  by (auto simp: request_backfill_def dest: same_rows_upsert split: option.splits if_splits sum.splits)

lemma same_rows_claim: "claim_job c lease now token db = (r, db') \<Longrightarrow> same_rows db db'"
  by (auto simp: claim_job_def split: list.splits)

lemma same_rows_complete: "same_rows db (snd (complete_claim claim now db))"
  by (simp add: complete_claim_def Let_def split: option.splits)

lemma same_rows_fail: "same_rows db (worker_fail w claim code permanent now db)"
  by (simp add: worker_fail_def fail_claim_def split: option.splits)

lemma dispatch_reconciles:
  "snd (dispatch_due_jobs publisher debounce limit now db) =
     snd (reconcile_due_jobs now limit debounce RECONCILE_MAX_ATTEMPTS db)"
  by (simp add: dispatch_due_jobs_def case_prod_beta)

lemma same_rows_reconcile: "same_rows db (snd (reconcile_due_jobs now limit debounce attempts db))"
  by (simp add: reconcile_due_jobs_def same_rows_def Let_def)

section \<open>Jobs\<close>

definition jobs_ok :: "'p compaction_db \<Rightarrow> bool" where
  "jobs_ok db \<longleftrightarrow>
     distinct (map sj_conversation_id (cd_jobs db)) \<and>
     (\<forall>j \<in> set (cd_jobs db). message_exists (sj_conversation_id j) (sj_requested_through j) db)"

lemma jobs_ok_of: "jobs_ok db \<Longrightarrow> job_of c db = Some j \<Longrightarrow> message_exists c (sj_requested_through j) db"
  unfolding jobs_ok_def job_of_def find_Some_iff by (metis nth_mem)

lemma jobs_ok_map:
  assumes "jobs_ok db" "cd_jobs db' = map f (cd_jobs db)"
    "\<And>j. j \<in> set (cd_jobs db) \<Longrightarrow> sj_conversation_id (f j) = sj_conversation_id j"
    "\<And>j. j \<in> set (cd_jobs db) \<Longrightarrow> message_exists (sj_conversation_id j) (sj_requested_through j) db \<Longrightarrow>
       message_exists (sj_conversation_id j) (sj_requested_through (f j)) db'"
  shows "jobs_ok db'"
proof -
  have "map sj_conversation_id (cd_jobs db') = map sj_conversation_id (cd_jobs db)"
    unfolding assms(2) map_map by (rule map_cong) (simp_all add: assms(3))
  with assms(1) have "distinct (map sj_conversation_id (cd_jobs db'))" by (simp add: jobs_ok_def)
  moreover have "message_exists (sj_conversation_id j) (sj_requested_through j) db'" if "j \<in> set (cd_jobs db')" for j
    using that assms by (auto simp: jobs_ok_def)
  ultimately show ?thesis by (simp add: jobs_ok_def)
qed

lemma jobs_ok_set_job:
  assumes "jobs_ok db" "\<And>j. sj_conversation_id (f j) = sj_conversation_id j"
    "\<And>j. sj_conversation_id j = c \<Longrightarrow> message_exists c (sj_requested_through j) db \<Longrightarrow>
       message_exists c (sj_requested_through (f j)) db"
  shows "jobs_ok (set_job c f db)"
  by (rule jobs_ok_map [OF assms(1), where f = "\<lambda>r. if sj_conversation_id r = c then f r else r"])
    (use assms in \<open>auto simp: set_job_def message_exists_def\<close>)

lemma jobs_ok_frame:
  assumes "jobs_ok db" "cd_jobs db' = cd_jobs db"
    "\<And>c n. message_exists c n db \<Longrightarrow> message_exists c n db'"
  shows "jobs_ok db'"
  using assms by (simp add: jobs_ok_def)

lemma job_of_none: "job_of c db = None \<longleftrightarrow> c \<notin> sj_conversation_id ` set (cd_jobs db)"
  by (auto simp: job_of_def find_None_iff)

lemma requested_targets [simp]:
  "sj_conversation_id (reopened_job target now j) = sj_conversation_id j"
  "sj_conversation_id (new_work_job target now j) = sj_conversation_id j"
  "sj_conversation_id (restart_job now j) = sj_conversation_id j"
  "sj_requested_through (restart_job now j) = sj_requested_through j"
  "sj_conversation_id (recovered_job attempts now j) = sj_conversation_id j"
  "sj_requested_through (recovered_job attempts now j) = sj_requested_through j"
  "sj_conversation_id (fresh_job c target now) = c"
  "sj_requested_through (fresh_job c target now) = target"
  by (simp_all add: reopened_job_def new_work_job_def restart_job_def recovered_job_def fresh_job_def Let_def)

text \<open>With one row per conversation, a change of the jobs of \<open>c\<close> is a change of that row.\<close>

lemma unique_job: "jobs_ok db \<Longrightarrow> j \<in> set (cd_jobs db) \<Longrightarrow> job_of (sj_conversation_id j) db = Some j"
  by (simp add: jobs_ok_def job_of_def find_key_iff)

lemma jobs_ok_upsert:
  assumes "jobs_ok db" "job_upsert c target now reopen db = Inr db'"
  shows "jobs_ok db'"
proof (cases "job_of c db")
  case None
  with assms show ?thesis
    by (auto simp: job_upsert_def jobs_ok_def message_exists_def job_of_none split: if_splits)
next
  case (Some j)
  define f where "f = (if reopen then reopened_job target now else new_work_job target now)"
  from Some assms(2) have db': "db' = set_job c f db" and e: "message_exists c (sj_requested_through (f j)) db"
    by (auto simp: job_upsert_def f_def Let_def split: if_splits)
  have f: "sj_conversation_id (f k) = sj_conversation_id k" for k by (simp add: f_def)
  show ?thesis unfolding db'
  proof (rule jobs_ok_map [OF assms(1), where f = "\<lambda>r. if sj_conversation_id r = c then f r else r"])
    fix k assume k: "k \<in> set (cd_jobs db)" "message_exists (sj_conversation_id k) (sj_requested_through k) db"
    show "message_exists (sj_conversation_id k)
        (sj_requested_through (if sj_conversation_id k = c then f k else k)) (set_job c f db)"
      using unique_job [OF assms(1) k(1)] Some k(2) e by (auto simp: message_exists_def)
  qed (auto simp: set_job_def f)
qed

lemma jobs_ok_backfill: "jobs_ok db \<Longrightarrow> request_backfill c target now db = (r, db') \<Longrightarrow> jobs_ok db'"
  by (auto simp: request_backfill_def dest: jobs_ok_upsert split: option.splits if_splits sum.splits)

lemma jobs_ok_claim: "jobs_ok db \<Longrightarrow> claim_job c lease now token db = (r, db') \<Longrightarrow> jobs_ok db'"
  by (auto simp: claim_job_def intro!: jobs_ok_set_job split: list.splits)

lemma jobs_ok_complete: "jobs_ok db \<Longrightarrow> jobs_ok (snd (complete_claim claim now db))"
  by (auto simp: complete_claim_def Let_def intro!: jobs_ok_set_job split: option.splits)

lemma jobs_ok_fail: "jobs_ok db \<Longrightarrow> jobs_ok (worker_fail w claim code permanent now db)"
  by (auto simp: worker_fail_def fail_claim_def intro!: jobs_ok_set_job split: option.splits)

definition reconciled :: "int \<Rightarrow> string list \<Rightarrow> int \<Rightarrow> int \<Rightarrow> summary_job \<Rightarrow> summary_job" where
  "reconciled now ids debounce attempts j =
     (if lease_expired now j then recovered_job attempts now j
      else if sj_conversation_id j \<in> set ids
      then j\<lparr>sj_available_at := now + debounce * second, sj_updated_at := now\<rparr> else j)"

lemma reconcile_jobs:
  "cd_jobs (snd (reconcile_due_jobs now limit debounce attempts db)) =
     map (reconciled now (map sj_conversation_id (due_jobs now limit db)) debounce attempts) (cd_jobs db)"
  by (simp add: reconcile_due_jobs_def Let_def reconciled_def)

lemma reconciled_target [simp]:
  "sj_conversation_id (reconciled now ids debounce attempts j) = sj_conversation_id j"
  "sj_requested_through (reconciled now ids debounce attempts j) = sj_requested_through j"
  by (simp_all add: reconciled_def)

lemma jobs_ok_reconcile:
  assumes "jobs_ok db"
  shows "jobs_ok (snd (reconcile_due_jobs now limit debounce attempts db))"
  by (rule jobs_ok_map [OF assms reconcile_jobs]) (simp_all add: same_rows_of(5) [OF same_rows_reconcile])

lemma claim_is_job:
  assumes "claim_job c lease now token db = (Some claim, db')"
  shows "\<exists>j \<in> set (cd_jobs db). cl_conversation_id claim = sj_conversation_id j \<and>
    cl_requested_through claim = sj_requested_through j \<and> cl_lease_token claim = token"
proof -
  obtain j js where s: "sort_key (\<lambda>j. (sj_available_at j, sj_created_at j)) (filter (claimable c now) (cd_jobs db)) = j # js"
    using assms by (auto simp: claim_job_def split: list.splits)
  then have "j \<in> set (cd_jobs db)" by (metis filter_is_subset list.set_intros(1) set_sort subsetD)
  with assms s show ?thesis by (auto simp: claim_job_def)
qed

section \<open>The invariant\<close>

definition rows_ok :: "'p compaction_db \<Rightarrow> bool" where
  "rows_ok db \<longleftrightarrow>
     distinct (map ms_id (cd_messages db)) \<and>
     (\<forall>m \<in> set (cd_messages db). \<exists>cv. conversation_of (ms_conversation_id m) db = Some cv \<and>
        ms_sequence m < cn_next_message_sequence cv) \<and>
     (\<forall>c. sorted_wrt (<) (map ms_sequence (filter (\<lambda>m. ms_conversation_id m = c) (cd_messages db))))"

text \<open>A valid memory has a cursor, the sequence of a message; an invalid one has none.\<close>

definition memories_ok :: "'p compaction_db \<Rightarrow> bool" where
  "memories_ok db \<longleftrightarrow>
     (\<forall>c my. memory_of c db = Some my \<longrightarrow> my_version my \<ge> 1 \<and>
        (if my_is_valid my then \<exists>k. mc_last_sequence (my_columns my) = Some k \<and> message_exists c k db
         else mc_last_sequence (my_columns my) = None))"

text \<open>The ghost is the transcript up to the cursor.\<close>

definition basis_ok :: "run_state \<Rightarrow> bool" where
  "basis_ok s \<longleftrightarrow>
     (\<forall>c k. cursor_of c (rn_db s) = Some k \<longrightarrow> rn_basis s c = visible_between c None k (rn_db s))"

text \<open>What a worker loaded is what the transcript shows, as long as the version is the one it saw.\<close>

definition input_ok :: "'p compaction_db \<Rightarrow> summary_job_claim \<Rightarrow> 'p compaction_input \<Rightarrow> bool" where
  "input_ok db claim input \<longleftrightarrow>
     (let c = cl_conversation_id claim
      in ci_version input \<le> version_of c db \<and>
         (ci_version input = version_of c db \<longrightarrow> ci_cursor input = cursor_of c db \<and>
            ci_messages input = visible_between c (ci_cursor input) (cl_requested_through claim) db))"

definition worker_ok :: "conversation_memory compaction_db \<Rightarrow> summary_job_claim \<times> worker_phase \<Rightarrow> bool" where
  "worker_ok db x \<longleftrightarrow>
     message_exists (cl_conversation_id (fst x)) (cl_requested_through (fst x)) db \<and>
     (case snd x of Loaded input \<Rightarrow> input_ok db (fst x) input | _ \<Rightarrow> True)"

definition run_ok :: "run_state \<Rightarrow> bool" where
  "run_ok s \<longleftrightarrow>
     rows_ok (rn_db s) \<and> jobs_ok (rn_db s) \<and> memories_ok (rn_db s) \<and> basis_ok s \<and>
     (\<forall>x \<in> set (rn_workers s). worker_ok (rn_db s) x)"

lemma same_rows_ok:
  assumes "same_rows db db'"
  shows "rows_ok db' = rows_ok db" "memories_ok db' = memories_ok db" "worker_ok db' x = worker_ok db x"
  using same_rows_of [OF assms]
  by (simp_all add: rows_ok_def memories_ok_def worker_ok_def input_ok_def Let_def split: worker_phase.splits)

lemma run_ok_quiet:
  assumes "run_ok s" "same_rows (rn_db s) (rn_db s')" "jobs_ok (rn_db s')" "rn_basis s' = rn_basis s"
    "\<And>x. x \<in> set (rn_workers s') \<Longrightarrow> x \<in> set (rn_workers s) \<or> worker_ok (rn_db s) x"
  shows "run_ok s'"
proof -
  have "worker_ok (rn_db s) x" if "x \<in> set (rn_workers s')" for x
    using assms(1) assms(5) [OF that] by (auto simp: run_ok_def)
  with assms(1,3,4) same_rows_ok [OF assms(2)] same_rows_of [OF assms(2)] show ?thesis
    by (simp add: run_ok_def basis_ok_def)
qed

lemma visible_sorted:
  assumes "rows_ok db"
  shows "sorted_wrt (<) (map ms_sequence (visible_between c lo hi db))"
proof -
  let ?P = "\<lambda>m. ms_conversation_id m = c"
  let ?Q = "\<lambda>m. prompt_visible c m \<and> ms_sequence m \<le> hi \<and> (case lo of None \<Rightarrow> True | Some k \<Rightarrow> k < ms_sequence m)"
  have "filter ?Q (cd_messages db) = filter ?Q (filter ?P (cd_messages db))"
    by (auto simp: prompt_visible_def intro: filter_cong)
  moreover have "sorted_wrt (<) (map ms_sequence (filter ?P (cd_messages db)))"
    using assms by (simp add: rows_ok_def)
  ultimately show ?thesis by (simp add: visible_between_def sorted_wrt_map sorted_wrt_filter del: filter_filter)
qed

text \<open>What is loaded is what the transcript shows between the cursor and the target.\<close>

lemma load_is_visible:
  assumes "rows_ok db" "load_compaction_input claim owner now db = Some input"
  shows "input_ok db claim input" "ci_version input = version_of (cl_conversation_id claim) db"
    "ci_messages input = visible_between (cl_conversation_id claim) (ci_cursor input) (cl_requested_through claim) db"
proof -
  let ?c = "cl_conversation_id claim"
  have sorted: "sorted (map ms_sequence (visible_between ?c lo hi db))" for lo hi
    using visible_sorted [OF assms(1)] by (rule strict_sorted_imp_sorted)
  have cursor: "(if (case memory_of ?c db of None \<Rightarrow> False | Some my \<Rightarrow> my_is_valid my)
      then mc_last_sequence (my_columns (the (memory_of ?c db))) else None) = cursor_of ?c db"
    by (simp add: cursor_of_def split: option.splits)
  obtain cv where cv: "conversation_of ?c db = Some cv"
    using assms(2) by (auto simp: load_compaction_input_def Let_def split: option.splits)
  moreover have "\<not> ((case owner of None \<Rightarrow> False | Some u \<Rightarrow> cn_owner_id cv \<noteq> u) \<or> leased_job claim now db = None)"
    using assms(2) by (rule contrapos_pn) (simp add: load_compaction_input_def Let_def cv)
  ultimately have "ci_cursor input = cursor_of ?c db" "ci_version input = version_of ?c db"
    "ci_messages input = sort_key ms_sequence (visible_between ?c (cursor_of ?c db) (cl_requested_through claim) db)"
    using assms(2) unfolding load_compaction_input_def Let_def cursor
    by (auto simp: version_of_def visible_between_def)
  then show "ci_version input = version_of ?c db"
    "ci_messages input = visible_between ?c (ci_cursor input) (cl_requested_through claim) db"
    "input_ok db claim input"
    using sort_key_id_if_sorted [OF sorted] by (simp_all add: input_ok_def Let_def)
qed

section \<open>Every step keeps it\<close>

lemma message_exists_iff:
  "message_exists c n db \<longleftrightarrow> (\<exists>m \<in> set (cd_messages db). ms_conversation_id m = c \<and> ms_sequence m = n)"
  by (auto simp: message_exists_def list_ex_iff)

lemma message_exists_next:
  "rows_ok db \<Longrightarrow> message_exists c n db \<Longrightarrow> \<exists>cv. conversation_of c db = Some cv \<and> n < cn_next_message_sequence cv"
  by (auto simp: rows_ok_def message_exists_iff)

text \<open>A change of the messages nobody has read yet is not seen by memories and workers.\<close>

lemma run_ok_messages:
  assumes ok: "run_ok s" and rows: "rows_ok (rn_db s')"
    and same: "cd_memories (rn_db s') = cd_memories (rn_db s)" "cd_jobs (rn_db s') = cd_jobs (rn_db s)"
      "rn_basis s' = rn_basis s" "rn_workers s' = rn_workers s"
    and exists: "\<And>c n. message_exists c n (rn_db s) \<Longrightarrow> message_exists c n (rn_db s')"
    and seen: "\<And>c k. cursor_of c (rn_db s) = Some k \<Longrightarrow> message_exists c k (rn_db s) \<Longrightarrow>
        visible_between c None k (rn_db s') = visible_between c None k (rn_db s)"
      "\<And>claim input. (claim, Loaded input) \<in> set (rn_workers s) \<Longrightarrow>
        message_exists (cl_conversation_id claim) (cl_requested_through claim) (rn_db s) \<Longrightarrow>
        ci_version input = version_of (cl_conversation_id claim) (rn_db s) \<Longrightarrow>
        ci_cursor input = cursor_of (cl_conversation_id claim) (rn_db s) \<Longrightarrow>
        visible_between (cl_conversation_id claim) (ci_cursor input) (cl_requested_through claim) (rn_db s') =
        visible_between (cl_conversation_id claim) (ci_cursor input) (cl_requested_through claim) (rn_db s)"
  shows "run_ok s'"
proof -
  have mem: "memory_of c (rn_db s') = memory_of c (rn_db s)" "version_of c (rn_db s') = version_of c (rn_db s)"
    "cursor_of c (rn_db s') = cursor_of c (rn_db s)" for c
    using same(1) by (simp_all add: memory_of_def version_of_def cursor_of_def)
  have "memories_ok (rn_db s')"
    using ok exists by (force simp: run_ok_def memories_ok_def mem)
  moreover have "jobs_ok (rn_db s')"
    using ok exists same(2) by (auto simp: run_ok_def intro: jobs_ok_frame)
  moreover have "basis_ok s'"
    unfolding basis_ok_def same mem
  proof (intro allI impI)
    fix c k assume k: "cursor_of c (rn_db s) = Some k"
    then have "message_exists c k (rn_db s)"
      using ok by (force simp: run_ok_def memories_ok_def cursor_of_def split: option.splits if_splits)
    with k ok seen(1) show "rn_basis s c = visible_between c None k (rn_db s')"
      by (simp add: run_ok_def basis_ok_def)
  qed
  moreover have "worker_ok (rn_db s') x" if "x \<in> set (rn_workers s')" for x
  proof -
    obtain claim ph where x: "x = (claim, ph)" by fastforce
    have w: "worker_ok (rn_db s) (claim, ph)" using that ok by (simp add: run_ok_def same x)
    show ?thesis
    proof (cases ph)
      case (Loaded input)
      with w that seen(2) [of claim input] exists show ?thesis
        by (auto simp: worker_ok_def input_ok_def Let_def mem x same)
    qed (use w exists in \<open>auto simp: worker_ok_def x\<close>)
  qed
  ultimately show ?thesis using rows by (simp add: run_ok_def)
qed

lemma run_ok_opens:
  assumes "run_ok s" "conversation_of c (rn_db s) = None"
  shows "run_ok (s\<lparr>rn_db := (rn_db s)\<lparr>cd_conversations := cd_conversations (rn_db s) @ [cv]\<rparr>\<rparr>)"
proof (rule run_ok_messages [OF assms(1)], goal_cases)
  case 1
  with assms show ?case by (auto simp: run_ok_def rows_ok_def conversation_of_def find_append_single split: option.splits)
qed (auto simp: message_exists_def visible_between_def)

text \<open>The database of a post before its job is requested.\<close>

definition posted :: "message_row \<Rightarrow> 'p compaction_db \<Rightarrow> 'p compaction_db" where
  "posted m db =
     db\<lparr>cd_conversations := map (\<lambda>r. if cn_id r = ms_conversation_id m
          then r\<lparr>cn_next_message_sequence := cn_next_message_sequence r + 1\<rparr> else r) (cd_conversations db),
        cd_messages := cd_messages db @ [m]\<rparr>"

lemma persist_message_cases:
  assumes "persist_message i c sender content metadata now db = (Inr m, db')"
  obtains cv where "conversation_of c db = Some cv" "ms_conversation_id m = c" "ms_id m \<notin> set (map ms_id (cd_messages db))"
    "ms_sequence m = cn_next_message_sequence cv" "ms_id m = i"
    "db' = posted m db \<or> job_upsert c (ms_sequence m) now False (posted m db) = Inr db'"
proof -
  obtain cv where cv: "conversation_of c db = Some cv"
    using assms by (auto simp: persist_message_def split: option.splits)
  show thesis
    by (rule that [OF cv])
      (use assms in \<open>auto simp: persist_message_def cv Let_def posted_def split: if_splits sum.splits\<close>)
qed

lemma conversation_of_posted:
  "conversation_of c (posted m db) =
     map_option (\<lambda>r. if c = ms_conversation_id m then r\<lparr>cn_next_message_sequence := cn_next_message_sequence r + 1\<rparr> else r)
       (conversation_of c db)"
proof -
  have "find (\<lambda>r. cn_id r = c) (map (\<lambda>r. if cn_id r = d then r\<lparr>cn_next_message_sequence := cn_next_message_sequence r + 1\<rparr> else r) rs) =
      map_option (\<lambda>r. if c = d then r\<lparr>cn_next_message_sequence := cn_next_message_sequence r + 1\<rparr> else r)
       (find (\<lambda>r. cn_id r = c) rs)" for rs d
    by (induction rs) auto
  then show ?thesis by (simp add: conversation_of_def posted_def)
qed

lemma rows_ok_posted:
  assumes "rows_ok db" "conversation_of (ms_conversation_id m) db = Some cv"
    "ms_id m \<notin> set (map ms_id (cd_messages db))" "ms_sequence m = cn_next_message_sequence cv"
  shows "rows_ok (posted m db)"
proof -
  have below: "\<exists>cv. conversation_of (ms_conversation_id n) (posted m db) = Some cv \<and> ms_sequence n < cn_next_message_sequence cv"
    if "n \<in> set (cd_messages (posted m db))" for n
  proof (cases "n = m")
    case True
    then show ?thesis using assms(2,4) by (simp add: conversation_of_posted)
  next
    case False
    with that have "n \<in> set (cd_messages db)" by (simp add: posted_def)
    with assms(1) obtain cv' where "conversation_of (ms_conversation_id n) db = Some cv'"
      "ms_sequence n < cn_next_message_sequence cv'" by (auto simp: rows_ok_def)
    then show ?thesis by (simp add: conversation_of_posted)
  qed
  have "\<forall>n \<in> set (cd_messages db). ms_conversation_id n = ms_conversation_id m \<longrightarrow> ms_sequence n < ms_sequence m"
    using assms by (force simp: rows_ok_def)
  then have "sorted_wrt (<) (map ms_sequence (filter (\<lambda>m. ms_conversation_id m = c) (cd_messages (posted m db))))" for c
    using assms(1) by (auto simp: rows_ok_def posted_def sorted_wrt_append)
  with below assms(1,3) show ?thesis by (auto simp: rows_ok_def posted_def)
qed

lemma run_ok_posts:
  assumes "run_ok s" "persist_message i c sender content metadata now (rn_db s) = (Inr m, db)"
  shows "run_ok (s\<lparr>rn_db := db\<rparr>)"
proof -
  let ?db = "rn_db s"
  from assms(2) obtain cv where cv: "conversation_of c ?db = Some cv" "ms_conversation_id m = c"
    "ms_id m \<notin> set (map ms_id (cd_messages ?db))" "ms_sequence m = cn_next_message_sequence cv"
    and db: "db = posted m ?db \<or> job_upsert c (ms_sequence m) now False (posted m ?db) = Inr db"
    by (rule persist_message_cases)
  have ok: "rows_ok ?db" using assms(1) by (simp add: run_ok_def)
  have new: "hi < ms_sequence m" if "message_exists c hi ?db" for hi
    using message_exists_next [OF ok that] cv by simp
  have unseen: "visible_between d lo hi (posted m ?db) = visible_between d lo hi ?db" if "message_exists d hi ?db" for d lo hi
    using new [of hi] that cv(2) by (cases "d = c") (auto simp: visible_between_def posted_def prompt_visible_def)
  have "run_ok (s\<lparr>rn_db := posted m ?db\<rparr>)"
    by (rule run_ok_messages [OF assms(1)])
      (use rows_ok_posted [OF ok] cv unseen in \<open>auto simp: posted_def message_exists_def\<close>)
  moreover from this have "jobs_ok db"
    using db jobs_ok_upsert by (auto simp: run_ok_def)
  moreover have "same_rows (posted m ?db) db" using db by (auto intro: same_rows_upsert)
  ultimately show ?thesis
    using run_ok_quiet [of "s\<lparr>rn_db := posted m ?db\<rparr>" "s\<lparr>rn_db := db\<rparr>"] by simp
qed

text \<open>A memory is written from what was loaded.\<close>

lemma split_sorted:
  fixes f :: "'a \<Rightarrow> int"
  shows "sorted_wrt (<) (map f xs) \<Longrightarrow> filter (\<lambda>x. f x \<le> k) xs @ filter (\<lambda>x. k < f x) xs = xs"
proof (induction xs)
  case (Cons x xs)
  show ?case
  proof (cases "k < f x")
    case True
    then have "\<forall>y \<in> set (x # xs). k < f y" using Cons.prems by auto
    then show ?thesis by (simp add: filter_id_conv filter_empty_conv not_le)
  qed (use Cons in simp)
qed simp

lemma filter_to_last:
  fixes f :: "'a \<Rightarrow> int"
  assumes "sorted_wrt (<) (map f (ys @ zs))" "ys \<noteq> []"
  shows "filter (\<lambda>x. f x \<le> f (last ys)) (ys @ zs) = ys"
proof -
  obtain us u where ys: "ys = us @ [u]" using assms(2) by (cases ys rule: rev_cases) auto
  from assms(1) have "\<forall>x \<in> set us. f x \<le> f u" "\<forall>x \<in> set zs. \<not> f x \<le> f u"
    by (force simp: ys sorted_wrt_append)+
  then show ?thesis by (simp add: ys filter_empty_conv filter_id_conv)
qed

lemma take_between:
  assumes ok: "rows_ok db" and loaded: "visible_between c lo hi db = chosen @ rest" and some: "chosen \<noteq> []"
  shows "(case lo of None \<Rightarrow> [] | Some k \<Rightarrow> visible_between c None k db) @ chosen =
    visible_between c None (ms_sequence (last chosen)) db"
proof -
  let ?k = "ms_sequence (last chosen)"
  define xs where "xs = visible_between c None hi db"
  have sorted: "sorted_wrt (<) (map ms_sequence xs)" using visible_sorted [OF ok] by (simp add: xs_def)
  have "last chosen \<in> set (visible_between c lo hi db)" using some unfolding loaded by simp
  then have k: "?k \<le> hi" "case lo of None \<Rightarrow> True | Some l \<Rightarrow> l < ?k" by (auto simp: visible_between_def)
  have below: "visible_between c None l db = filter (\<lambda>m. ms_sequence m \<le> l) xs" if "l \<le> hi" for l
    using that by (auto simp: xs_def visible_between_def intro: filter_cong)
  show ?thesis
  proof (cases lo)
    case None
    with loaded have "xs = chosen @ rest" by (simp add: xs_def)
    with filter_to_last [of ms_sequence chosen rest] sorted some show ?thesis
      by (simp add: below [OF k(1)] None)
  next
    case (Some l)
    have "filter (\<lambda>m. l < ms_sequence m) xs = chosen @ rest"
      unfolding loaded [symmetric] Some by (auto simp: xs_def visible_between_def intro: filter_cong)
    with split_sorted [OF sorted, of l] have xs: "xs = (visible_between c None l db @ chosen) @ rest"
      using below [of l] k Some by simp
    with filter_to_last [of ms_sequence "visible_between c None l db @ chosen" rest] sorted some show ?thesis
      by (simp add: below [OF k(1)] Some)
  qed
qed

text \<open>What a successful write does.\<close>

lemma persist_true:
  assumes "persist_memory_cas claim write now db = (True, db')"
  defines "c \<equiv> cl_conversation_id claim"
  shows "leased_job claim now db \<noteq> None" "mw_base_version write = version_of c db"
    "memories_ok db \<Longrightarrow> mw_base_cursor write = cursor_of c db"
    "the (mc_last_sequence (mw_columns write)) \<le> cl_requested_through claim"
    "cd_messages db' = cd_messages db" "cd_conversations db' = cd_conversations db" "cd_jobs db' = cd_jobs db"
    "memory_of d db' = (if d = c then Some \<lparr>my_conversation_id = c, my_columns = mw_columns write,
       my_version = version_of c db + 1, my_is_valid = True, my_updated_at = now\<rparr> else memory_of d db)"
proof (atomize(full), goal_cases)
  case 1
  show ?case
  proof (cases "memory_of c db")
    case None
    with assms have "db' = db\<lparr>cd_memories := cd_memories db @
        [\<lparr>my_conversation_id = c, my_columns = mw_columns write, my_version = 1, my_is_valid = True, my_updated_at = now\<rparr>]\<rparr>"
      "leased_job claim now db \<noteq> None" "mw_base_version write = 0" "mw_base_cursor write = None"
      "the (mc_last_sequence (mw_columns write)) \<le> cl_requested_through claim"
      by (simp_all add: persist_memory_cas_def Let_def not_less split: if_splits)
    with None show ?thesis
      by (cases "d = c") (auto simp: version_of_def cursor_of_def memory_of_def find_append_single split: option.splits)
  next
    case (Some my)
    then have id: "my_conversation_id my = c" by (auto simp: memory_of_def dest: find_SomeD)
    from Some assms have f: "db' = set_memory c (\<lambda>my. my\<lparr>my_columns := mw_columns write, my_version := my_version my + 1,
                 my_is_valid := True, my_updated_at := now\<rparr>) db"
      "my_version my = mw_base_version write" "mc_last_sequence (my_columns my) = mw_base_cursor write"
      "leased_job claim now db \<noteq> None" "the (mc_last_sequence (mw_columns write)) \<le> cl_requested_through claim"
      by (simp_all add: persist_memory_cas_def Let_def not_less split: if_splits)
    have "mw_base_cursor write = cursor_of c db" if "memories_ok db"
      using that Some f(3) by (cases "my_is_valid my") (simp_all add: cursor_of_def memories_ok_def)
    with Some id f(4,5) f(2) [symmetric] show ?thesis
      unfolding f(1) by (simp add: memory_of_set_memory version_of_def)
  qed
qed

lemma run_ok_writes:
  assumes ok: "run_ok s" and w: "rn_workers s = before @ (claim, Loaded input) # after"
    and r: "worker_compacts cp forced credential generate input = Some r" "cr_error r = None"
    and p: "persist_memory_cas claim (write_of cp input r) now (rn_db s) = (True, db)"
  shows "run_ok (s\<lparr>rn_db := db, rn_workers := before @ (claim, Written) # after, rn_basis := new_basis claim r s\<rparr>)"
    (is "run_ok ?s'")
proof -
  let ?c = "cl_conversation_id claim" and ?db = "rn_db s"
  from ok have oks: "rows_ok ?db" "memories_ok ?db" "jobs_ok ?db" "basis_ok s" by (simp_all add: run_ok_def)
  note p1 = persist_true [OF p]
  from ok w have wk: "worker_ok ?db (claim, Loaded input)" by (simp add: run_ok_def)
  have version: "ci_version input = version_of ?c ?db" using p1(2) by (simp add: write_of_def)
  with wk have input: "ci_cursor input = cursor_of ?c ?db"
    "ci_messages input = visible_between ?c (cursor_of ?c ?db) (cl_requested_through claim) ?db"
    by (auto simp: worker_ok_def input_ok_def Let_def)
  note r' = r(1) [unfolded worker_compacts_def]
  note c = compact_success(2,4) [OF r' r(2)]
  define k where "k = ms_sequence (last (cr_prefix r))"
  have k: "cr_last_sequence r = Some k" using c(2) by (simp add: k_def)
  obtain rest where rest: "visible_between ?c (cursor_of ?c ?db) (cl_requested_through claim) ?db = cr_prefix r @ rest"
    using compact_prefix [OF r' r(2)] append_take_drop_id input(2)
    by (metis append.assoc fst_conv select_compactable_prefix_def)
  have same: "visible_between d lo hi db = visible_between d lo hi ?db" "message_exists d n db = message_exists d n ?db"
    "conversation_of d db = conversation_of d ?db" for d lo hi n
    using p1(5,6) by (simp_all add: visible_between_def message_exists_def conversation_of_def)
  have "last (cr_prefix r) \<in> set (visible_between ?c (cursor_of ?c ?db) (cl_requested_through claim) ?db)"
    using c(1) by (simp add: rest)
  then have exists: "message_exists ?c k ?db"
    by (auto simp: k_def message_exists_iff visible_between_def prompt_visible_def)
  have mem: "memory_of d db = (if d = ?c then Some \<lparr>my_conversation_id = ?c, my_columns = mw_columns (write_of cp input r),
       my_version = version_of ?c ?db + 1, my_is_valid = True, my_updated_at = now\<rparr> else memory_of d ?db)" for d
    by (rule p1(8))
  have vc: "version_of d db = (if d = ?c then version_of ?c ?db + 1 else version_of d ?db)"
    "cursor_of d db = (if d = ?c then Some k else cursor_of d ?db)" for d
    by (simp_all add: version_of_def cursor_of_def mem write_of_def k)
  have "rows_ok db" using oks(1) p1(5) same(3) by (simp add: rows_ok_def)
  moreover have "jobs_ok db" using jobs_ok_frame [OF oks(3) p1(7)] same(2) by simp
  moreover have "memories_ok db"
  proof -
    have "0 \<le> version_of ?c ?db" using oks(2) by (force simp: version_of_def memories_ok_def split: option.splits)
    then show ?thesis using oks(2) exists by (auto simp: memories_ok_def mem same write_of_def k)
  qed
  moreover have "basis_ok ?s'"
  proof -
    have "valid_memory ?c ?db \<longleftrightarrow> cursor_of ?c ?db \<noteq> None"
      using oks(2) by (force simp: valid_memory_def cursor_of_def memories_ok_def split: option.splits)
    then have "(if valid_memory ?c ?db then rn_basis s ?c else []) =
        (case cursor_of ?c ?db of None \<Rightarrow> [] | Some l \<Rightarrow> visible_between ?c None l ?db)"
      using oks(4) by (auto simp: basis_ok_def)
    then show ?thesis using oks(4) take_between [OF oks(1) rest c(1)]
      by (auto simp: basis_ok_def vc same new_basis_def Let_def k_def)
  qed
  moreover have "worker_ok db x" if "x \<in> set (rn_workers ?s')" for x
  proof (cases "x = (claim, Written)")
    case True
    with wk same(2) show ?thesis by (simp add: worker_ok_def)
  next
    case False
    with that w have "x \<in> set (rn_workers s)" by auto
    with ok have "worker_ok ?db x" by (simp add: run_ok_def)
    then show ?thesis by (auto simp: worker_ok_def input_ok_def Let_def vc same split: worker_phase.splits)
  qed
  ultimately show ?thesis by (simp add: run_ok_def)
qed

text \<open>
  A change of a message is settled when the message is covered by the valid memory, or no worker has
  loaded the part of the transcript it is in.
\<close>

definition covered :: "'p compaction_db \<Rightarrow> message_row \<Rightarrow> bool" where
  "covered db m \<longleftrightarrow>
     (case memory_of (ms_conversation_id m) db of None \<Rightarrow> False | Some my \<Rightarrow> memory_covers (ms_sequence m) my)"

definition loaded_by :: "summary_job_claim \<times> worker_phase \<Rightarrow> message_row \<Rightarrow> bool" where
  "loaded_by x m \<longleftrightarrow>
     (case snd x of
        Loaded input \<Rightarrow>
          cl_conversation_id (fst x) = ms_conversation_id m \<and> ms_sequence m \<le> cl_requested_through (fst x) \<and>
          (case ci_cursor input of None \<Rightarrow> True | Some k \<Rightarrow> k < ms_sequence m)
      | _ \<Rightarrow> False)"

definition settled :: "run_state \<Rightarrow> message_row \<Rightarrow> bool" where
  "settled s m \<longleftrightarrow> covered (rn_db s) m \<or> \<not> list_ex (\<lambda>x. loaded_by x m) (rn_workers s)"

definition changed_db :: "string \<Rightarrow> string option \<Rightarrow> int \<Rightarrow> 'p compaction_db \<Rightarrow> 'p compaction_db" where
  "changed_db i new_content now db =
     db\<lparr>cd_messages := map (\<lambda>r. if ms_id r = i then changed_message new_content now r else r) (cd_messages db)\<rparr>"

lemma changed_message_keeps [simp]:
  "ms_id (changed_message new now m) = ms_id m" "ms_conversation_id (changed_message new now m) = ms_conversation_id m"
  "ms_sequence (changed_message new now m) = ms_sequence m"
  by (simp_all add: changed_message_def split: option.splits)

text \<open>A mutation changes the message, and when a memory covered it, the memory and the job.\<close>

lemma mutation_forms:
  assumes "find (\<lambda>m. ms_id m = i) (cd_messages db) = Some m"
    "invalidate_for_mutation i content delete now db = (Inr b, db')"
  defines "db2 \<equiv> set_memory (ms_conversation_id m) (invalidated_memory now) (changed_db i content now db)"
  obtains
    "db' = db"
  | "\<not> covered db m" "db' = changed_db i content now db"
  | "covered db m" "db' = db2"
  | db3 target where "covered db m" "job_upsert (ms_conversation_id m) target now True db2 = Inr db3"
      "db' = set_job (ms_conversation_id m) (restart_job now) db3"
proof (cases "memory_of (ms_conversation_id m) db")
  case None
  with assms that show thesis
    by (auto simp: invalidate_for_mutation_def Let_def covered_def changed_db_def split: if_splits)
next
  case (Some my)
  show thesis
  proof (cases "memory_covers (ms_sequence m) my")
    case False
    with assms that Some show thesis
      by (auto simp: invalidate_for_mutation_def Let_def covered_def changed_db_def split: if_splits)
  next
    case True
    with assms that Some show thesis
      by (auto simp: invalidate_for_mutation_def Let_def covered_def changed_db_def split: if_splits option.splits sum.splits)
  qed
qed

lemma mutation_cases:
  assumes "find (\<lambda>m. ms_id m = i) (cd_messages db) = Some m"
    "invalidate_for_mutation i content delete now db = (Inr b, db')"
  defines "db2 \<equiv> set_memory (ms_conversation_id m) (invalidated_memory now) (changed_db i content now db)"
  obtains
    "db' = db"
  | "\<not> covered db m" "db' = changed_db i content now db"
  | "covered db m" "same_rows db2 db'" "jobs_ok db2 \<Longrightarrow> jobs_ok db'"
  using mutation_forms [OF assms(1,2)]
proof cases
  case (4 db3 target)
  then have "same_rows db2 db'" unfolding db2_def by (meson same_rows_set_job same_rows_trans same_rows_upsert)
  moreover have "jobs_ok db'" if "jobs_ok db2"
    unfolding 4(3) by (rule jobs_ok_set_job [OF jobs_ok_upsert [OF that [unfolded db2_def] 4(2)]]) simp_all
  ultimately show thesis by (rule that(3) [OF 4(1)])
qed (use that in \<open>auto simp: db2_def\<close>)

lemma map_changed:
  "map ms_id (map (\<lambda>r. if ms_id r = i then changed_message new now r else r) ms) = map ms_id ms"
  "map ms_sequence (filter (\<lambda>m. ms_conversation_id m = c)
     (map (\<lambda>r. if ms_id r = i then changed_message new now r else r) ms)) =
   map ms_sequence (filter (\<lambda>m. ms_conversation_id m = c) ms)"
  "list_ex (\<lambda>m. ms_conversation_id m = c \<and> ms_sequence m = n)
     (map (\<lambda>r. if ms_id r = i then changed_message new now r else r) ms) =
   list_ex (\<lambda>m. ms_conversation_id m = c \<and> ms_sequence m = n) ms"
  "(\<forall>m \<in> set (map (\<lambda>r. if ms_id r = i then changed_message new now r else r) ms). Q (ms_conversation_id m) (ms_sequence m)) =
   (\<forall>m \<in> set ms. Q (ms_conversation_id m) (ms_sequence m))"
  by (induction ms) auto

lemma changed_db_same [simp]:
  "cd_memories (changed_db i new now db) = cd_memories db" "cd_jobs (changed_db i new now db) = cd_jobs db"
  "conversation_of c (changed_db i new now db) = conversation_of c db"
  "memory_of c (changed_db i new now db) = memory_of c db" "job_of c (changed_db i new now db) = job_of c db"
  "message_exists c n (changed_db i new now db) = message_exists c n db"
  using map_changed(3) [of c n]
  by (simp_all add: changed_db_def conversation_of_def memory_of_def job_of_def message_exists_def)

lemma rows_ok_changed: "rows_ok (changed_db i new now db) = rows_ok db"
proof -
  have "cd_messages (changed_db i new now db) =
      map (\<lambda>r. if ms_id r = i then changed_message new now r else r) (cd_messages db)"
    by (simp add: changed_db_def)
  then show ?thesis
    unfolding rows_ok_def changed_db_same
    by (simp only: map_changed(1,2)
        map_changed(4) [where Q = "\<lambda>c n. \<exists>cv. conversation_of c db = Some cv \<and> n < cn_next_message_sequence cv"])
qed

text \<open>Only the part of the transcript the message is in changes.\<close>

lemma visible_changed:
  assumes "find (\<lambda>m. ms_id m = i) (cd_messages db) = Some m" "rows_ok db"
    "\<not> (c = ms_conversation_id m \<and> ms_sequence m \<le> hi \<and> (case lo of None \<Rightarrow> True | Some k \<Rightarrow> k < ms_sequence m))"
  shows "visible_between c lo hi (changed_db i new now db) = visible_between c lo hi db"
proof -
  let ?f = "\<lambda>r. if ms_id r = i then changed_message new now r else r"
  let ?P = "\<lambda>m. prompt_visible c m \<and> ms_sequence m \<le> hi \<and> (case lo of None \<Rightarrow> True | Some k \<Rightarrow> k < ms_sequence m)"
  have "?f r = r \<or> (\<not> ?P r \<and> \<not> ?P (?f r))" if "r \<in> set (cd_messages db)" for r
  proof (cases "ms_id r = i")
    case True
    with that assms(2) have "find (\<lambda>m. ms_id m = i) (cd_messages db) = Some r"
      by (simp add: rows_ok_def find_key_iff)
    with assms(1) have "r = m" by simp
    with assms(3) True show ?thesis by (auto simp: prompt_visible_def split: option.splits)
  qed simp
  moreover have "filter P (map ?f xs) = filter P xs" if "\<forall>r \<in> set xs. ?f r = r \<or> (\<not> P r \<and> \<not> P (?f r))" for P xs
    using that by (induction xs) auto
  ultimately show ?thesis unfolding visible_between_def changed_db_def by simp
qed

lemma run_ok_changes:
  assumes ok: "run_ok s" and m: "find (\<lambda>m. ms_id m = i) (cd_messages (rn_db s)) = Some m" and calm: "settled s m"
    and inval: "invalidate_for_mutation i content delete now (rn_db s) = (Inr b, db)"
  shows "run_ok (s\<lparr>rn_db := db\<rparr>)"
proof -
  let ?db = "rn_db s" and ?c = "ms_conversation_id m"
  let ?db1 = "changed_db i content now ?db"
  let ?db2 = "set_memory ?c (invalidated_memory now) ?db1"
  from ok have oks: "rows_ok ?db" "memories_ok ?db" "jobs_ok ?db" "basis_ok s" by (simp_all add: run_ok_def)
  show ?thesis using mutation_cases [OF m inval]
  proof cases
    case 1
    with ok show ?thesis by simp
  next
    case 2
    show ?thesis unfolding 2(2)
    proof (rule run_ok_messages [OF ok], goal_cases)
      case 1
      with oks(1) show ?case by (simp add: rows_ok_changed)
    next
      case (7 c k)
      with 2(1) show ?case
        by (auto simp: covered_def cursor_of_def memory_covers_def intro!: visible_changed [OF m oks(1)] split: option.splits if_splits)
    next
      case (8 claim input)
      with calm 2(1) have "\<not> loaded_by (claim, Loaded input) m" by (auto simp: settled_def list_ex_iff)
      then show ?case by (auto simp: loaded_by_def intro!: visible_changed [OF m oks(1)])
    qed simp_all
  next
    case 3
    obtain my where my: "memory_of ?c ?db = Some my" "memory_covers (ms_sequence m) my"
      using 3(1) by (auto simp: covered_def split: option.splits)
    have mem: "memory_of d ?db2 = (if d = ?c then Some (invalidated_memory now my) else memory_of d ?db)" for d
      using my(1) by (simp add: memory_of_set_memory invalidated_memory_def)
    have vc: "version_of d ?db2 = (if d = ?c then version_of ?c ?db + 1 else version_of d ?db)"
      "cursor_of d ?db2 = (if d = ?c then None else cursor_of d ?db)" for d
      using my(1) by (simp_all add: version_of_def cursor_of_def mem invalidated_memory_def)
    have ex: "message_exists d n ?db2 = message_exists d n ?db" for d n
      using changed_db_same(6) [of d n i content now ?db] by (simp add: message_exists_def)
    have vis: "visible_between d lo hi ?db2 = visible_between d lo hi ?db" if "d \<noteq> ?c" for d lo hi
      using visible_changed [OF m oks(1), of d] that by (simp add: visible_between_def)
    have "rows_ok ?db2" using oks(1) rows_ok_changed [of i content now ?db] by (simp add: rows_ok_def)
    moreover have "jobs_ok ?db2" by (rule jobs_ok_frame [OF oks(3)]) (simp_all add: ex)
    moreover have "memories_ok ?db2"
      using oks(2) my(1) by (auto simp: memories_ok_def mem ex) (force simp: invalidated_memory_def)+
    moreover have "basis_ok (s\<lparr>rn_db := ?db2\<rparr>)"
      using oks(4) by (auto simp: basis_ok_def vc vis split: if_splits)
    moreover have "worker_ok ?db2 x" if "x \<in> set (rn_workers s)" for x
    proof -
      have "worker_ok ?db x" using ok that by (simp add: run_ok_def)
      then show ?thesis
        by (cases "cl_conversation_id (fst x) = ?c")
          (auto simp: worker_ok_def input_ok_def Let_def ex vc vis split: worker_phase.splits)
    qed
    ultimately have "run_ok (s\<lparr>rn_db := ?db2\<rparr>)" "jobs_ok db" using 3(3) by (simp_all add: run_ok_def)
    then show ?thesis using run_ok_quiet [of "s\<lparr>rn_db := ?db2\<rparr>" "s\<lparr>rn_db := db\<rparr>"] 3(2) by simp
  qed
qed

lemma run_ok_step:
  assumes "compaction_step w cp settled s s'" and ok: "run_ok s"
  shows "run_ok s'"
  using assms(1)
proof cases
  case (opens c u now)
  with ok run_ok_opens show ?thesis by simp
next
  case (posts i c sender content metadata now m db)
  with ok run_ok_posts show ?thesis by simp
next
  case (enqueues c target now db)
  with ok show ?thesis
    by (intro run_ok_quiet [OF ok])
      (auto simp: run_ok_def enqueue_job_in_session_def dest: jobs_ok_upsert same_rows_upsert)
next
  case (backfills c target now b db)
  with ok show ?thesis
    by (intro run_ok_quiet [OF ok]) (auto simp: run_ok_def dest: jobs_ok_backfill same_rows_backfill)
next
  case (claims c now token claim db)
  from ok claim_is_job [OF claims(2)] have "worker_ok (rn_db s) (claim, Claimed)"
    by (auto simp: worker_ok_def run_ok_def jobs_ok_def)
  with claims ok show ?thesis
    by (intro run_ok_quiet [OF ok]) (auto simp: run_ok_def dest: jobs_ok_claim same_rows_claim)
next
  case (loads before claim after now input)
  from ok loads(2) have "worker_ok (rn_db s) (claim, Claimed)" by (simp add: run_ok_def)
  with load_is_visible(1) [OF _ loads(3)] ok have "worker_ok (rn_db s) (claim, Loaded input)"
    by (simp add: worker_ok_def run_ok_def)
  with loads ok show ?thesis by (intro run_ok_quiet [OF ok]) (auto simp: run_ok_def)
next
  case (load_fails before claim after now now')
  with ok show ?thesis by (intro run_ok_quiet [OF ok]) (auto simp: run_ok_def same_rows_fail jobs_ok_fail)
next
  case (skips before claim input after forced credential generate code now)
  with ok show ?thesis by (intro run_ok_quiet [OF ok]) (auto simp: run_ok_def same_rows_complete jobs_ok_complete)
next
  case (fails before claim input after forced credential generate code permanent now)
  with ok show ?thesis by (intro run_ok_quiet [OF ok]) (auto simp: run_ok_def same_rows_fail jobs_ok_fail)
next
  case (writes before claim input after forced credential generate r now db)
  with run_ok_writes [OF ok writes(2-5)] show ?thesis by simp
next
  case (conflicts before claim input after forced credential generate r now db now')
  then have "db = rn_db s"
    by (auto simp: persist_memory_cas_def Let_def split: if_splits option.splits)
  with conflicts ok show ?thesis by (intro run_ok_quiet [OF ok]) (auto simp: run_ok_def same_rows_fail jobs_ok_fail)
next
  case (completes before claim after now)
  with ok show ?thesis by (intro run_ok_quiet [OF ok]) (auto simp: run_ok_def same_rows_complete jobs_ok_complete)
next
  case (dies before x after)
  with ok show ?thesis by (intro run_ok_quiet [OF ok]) (auto simp: run_ok_def)
next
  case (reconciles publisher debounce limit now)
  with ok show ?thesis by (intro run_ok_quiet [OF ok]) (auto simp: run_ok_def dispatch_reconciles same_rows_reconcile jobs_ok_reconcile)
next
  case (changes i m content delete now b db)
  with run_ok_changes [OF ok] show ?thesis by simp
qed

lemma run_ok_reaches: "compaction_reaches w cp settled s \<Longrightarrow> run_ok s"
proof (induction rule: compaction_reaches_induct)
  case start
  show ?case
    by (simp add: run_ok_def run_start_def rows_ok_def jobs_ok_def memories_ok_def basis_ok_def memory_of_def cursor_of_def)
qed (rule run_ok_step)

section \<open>The memory is the transcript\<close>

text \<open>
  C20: however the workers of compaction interleave with posts, edits and deletions that are settled, with
  expiring leases and dying workers, the messages a valid memory was made from are exactly the ones the
  transcript shows up to its cursor, in order: none is missing, none appears twice, and none has been
  edited or deleted since. What a prompt shows, the memory and the visible messages after the cursor,
  is the whole transcript.
\<close>

theorem memory_reflects_transcript:
  assumes "compaction_reaches w cp settled s" "memory_of c (rn_db s) = Some my" "my_is_valid my"
  shows "\<exists>k. mc_last_sequence (my_columns my) = Some k \<and> message_exists c k (rn_db s) \<and>
    rn_basis s c = filter (\<lambda>m. prompt_visible c m \<and> ms_sequence m \<le> k) (cd_messages (rn_db s)) \<and>
    filter (prompt_visible c) (cd_messages (rn_db s)) =
      rn_basis s c @ filter (\<lambda>m. prompt_visible c m \<and> k < ms_sequence m) (cd_messages (rn_db s))"
proof -
  from run_ok_reaches [OF assms(1)] have ok: "rows_ok (rn_db s)" "memories_ok (rn_db s)" "basis_ok s"
    by (simp_all add: run_ok_def)
  from ok(2) assms(2,3) have "\<exists>k. mc_last_sequence (my_columns my) = Some k \<and> message_exists c k (rn_db s)"
    unfolding memories_ok_def by metis
  then obtain k where k: "mc_last_sequence (my_columns my) = Some k" "message_exists c k (rn_db s)" by blast
  with assms(2,3) ok(3) have basis: "rn_basis s c = filter (\<lambda>m. prompt_visible c m \<and> ms_sequence m \<le> k) (cd_messages (rn_db s))"
    by (auto simp: basis_ok_def cursor_of_def visible_between_def)
  let ?xs = "filter (prompt_visible c) (cd_messages (rn_db s))"
  have "?xs = filter (prompt_visible c) (filter (\<lambda>m. ms_conversation_id m = c) (cd_messages (rn_db s)))"
    by (auto simp: prompt_visible_def intro: filter_cong)
  with ok(1) have "sorted_wrt (<) (map ms_sequence ?xs)"
    by (simp add: rows_ok_def sorted_wrt_map sorted_wrt_filter del: filter_filter)
  from split_sorted [OF this, of k] basis k show ?thesis by (auto simp: conj_commute)
qed

section \<open>Leases\<close>

definition leases_ok :: "run_state \<Rightarrow> bool" where
  "leases_ok s \<longleftrightarrow>
     distinct (map (cl_lease_token \<circ> fst) (rn_workers s)) \<and>
     set (map (cl_lease_token \<circ> fst) (rn_workers s)) \<subseteq> rn_tokens s"

lemma leases_ok_step:
  "compaction_step w cp calm s s' \<Longrightarrow> leases_ok s \<Longrightarrow> leases_ok s'"
  by (induction rule: compaction_step.cases) (auto simp: leases_ok_def dest!: claim_is_job)

lemma leases_ok_reaches: "compaction_reaches w cp calm s \<Longrightarrow> leases_ok s"
proof (induction rule: compaction_reaches_induct)
  case start
  show ?case by (simp add: leases_ok_def run_start_def)
qed (rule leases_ok_step)

text \<open>
  C21: the lease fences workers off. Of the workers in flight at most one may act on a conversation at any
  times, even when leases expired and were taken over. Without the lease a worker loads nothing, and
  writing, completing and failing leave the database as it is.
\<close>

theorem lease_fences_workers:
  assumes "compaction_reaches w cp calm s" "rn_workers s = xs @ (claim, ph) # ys @ (claim', ph') # zs"
  shows "\<not> (leased_job claim now (rn_db s) \<noteq> None \<and> leased_job claim' now' (rn_db s) \<noteq> None \<and>
        cl_conversation_id claim = cl_conversation_id claim') \<and>
    (leased_job claim now (rn_db s) = None \<longrightarrow>
       load_compaction_input claim owner now (rn_db s) = None \<and>
       persist_memory_cas claim write now (rn_db s) = (False, rn_db s) \<and>
       complete_claim claim now (rn_db s) = (None, rn_db s) \<and>
       fail_claim claim code permanent retry_at attempts now (rn_db s) = (False, rn_db s))"
proof -
  from leases_ok_reaches [OF assms(1)] assms(2) have "cl_lease_token claim \<noteq> cl_lease_token claim'"
    by (simp add: leases_ok_def)
  then show ?thesis
    by (auto simp: leased_job_def holds_lease_def load_compaction_input_def persist_memory_cas_def complete_claim_def
        fail_claim_def Let_def split: option.splits if_splits)
qed

section \<open>Changes that are not settled\<close>

text \<open>
  Deleting a message a worker has loaded, and no memory covers yet, goes unnoticed: the version, the
  cursor and the lease stay, so the write of that worker still succeeds, and the valid memory then covers
  a deleted message whose text went into its payload.
\<close>

theorem racing_delete_unnoticed:
  assumes "find (\<lambda>m. ms_id m = i) (cd_messages db) = Some m"
    "load_compaction_input claim None t0 db = Some input" "m \<in> set (ci_messages input)"
    "persist_memory_cas claim write now db = (True, db1)"
  shows "\<exists>db' db2 my m'. invalidate_for_mutation i None True t1 db = (Inr True, db') \<and>
    persist_memory_cas claim write now db' = (True, db2) \<and>
    memory_of (cl_conversation_id claim) db2 = Some my \<and> my_is_valid my \<and> my_columns my = mw_columns write \<and>
    find (\<lambda>m. ms_id m = i) (cd_messages db2) = Some m' \<and> ms_deleted_at m' = Some t1"
proof -
  let ?c = "cl_conversation_id claim"
  let ?cursor = "cursor_of ?c db"
  have "prompt_visible ?c m \<and> (case ?cursor of None \<Rightarrow> True | Some k \<Rightarrow> k < ms_sequence m)"
    using assms(2,3)
    by (auto simp: load_compaction_input_def Let_def cursor_of_def split: option.splits if_splits)
  then have m: "ms_conversation_id m = ?c" "ms_deleted_at m = None" "case ?cursor of None \<Rightarrow> True | Some k \<Rightarrow> k < ms_sequence m"
    by (auto simp: prompt_visible_def)
  then have "\<not> covered db m"
    by (auto simp: covered_def memory_covers_def cursor_of_def split: option.splits)
  then have inv: "invalidate_for_mutation i None True t1 db = (Inr True, changed_db i None t1 db)"
    using assms(1) m(2)
    by (auto simp: invalidate_for_mutation_def covered_def changed_db_def Let_def split: option.splits)
  have leased: "leased_job claim now (changed_db i None t1 db) = leased_job claim now db"
    by (simp add: leased_job_def)
  obtain db2 where db2: "persist_memory_cas claim write now (changed_db i None t1 db) = (True, db2)"
    using assms(4) by (auto simp: persist_memory_cas_def Let_def leased split: option.splits if_splits)
  have "find (\<lambda>m. ms_id m = i) (map (\<lambda>r. if ms_id r = i then changed_message None t1 r else r) ms) =
      map_option (changed_message None t1) (find (\<lambda>m. ms_id m = i) ms)" for ms
    by (induction ms) auto
  then have "find (\<lambda>m. ms_id m = i) (cd_messages db2) = Some (changed_message None t1 m)"
    using assms(1) unfolding persist_true(5) [OF db2] by (simp add: changed_db_def)
  moreover have "ms_deleted_at (changed_message None t1 m) = Some t1" by (simp add: changed_message_def)
  ultimately show ?thesis using inv db2 persist_true(8) [OF db2, of ?c] by force
qed

section \<open>A run\<close>

text \<open>Two messages of a conversation are compacted once, with every call of the model answered alike.\<close>

definition demo_compactor :: compactor where
  "demo_compactor =
     \<lparr>cp_trigger_messages = 2, cp_trigger_tokens = 0, cp_keep_recent_turns = 0, cp_max_summary_tokens = 10,
      cp_max_input_tokens = None, cp_estimate = (\<lambda>ms. int (length ms)), cp_prompt_tokens = (\<lambda>p ms. int (length ms)),
      cp_memory_tokens = (\<lambda>m. 1),
      cp_json_loads = (\<lambda>t. Some (PDict [(''facts'', PList [PStr ''sky is blue'']), (''decisions'', PList []),
        (''constraints'', PList []), (''preferences'', PList []), (''open_questions'', PList []), (''tool_outcomes'', PList [])])),
      cp_unsafe = (\<lambda>t. False), cp_provider = ''p'', cp_model = ''m'', cp_prompt_version = ''v1'', cp_token_strategy = ''t''\<rparr>"

definition demo_worker :: worker_settings where
  "demo_worker =
     \<lparr>wk_lease_seconds = 60, wk_max_attempts = 3, wk_retry_base_seconds = 1, wk_retry_max_seconds = 9,
      wk_jitter = (\<lambda>a b. 0), wk_microseconds = (\<lambda>d. 1000000)\<rparr>"

definition demo_message :: "string \<Rightarrow> sender \<Rightarrow> int \<Rightarrow> message_row" where
  "demo_message i who n =
     \<lparr>ms_id = i, ms_conversation_id = ''c'', ms_sender = who, ms_content = ''hello'', ms_metadata = None,
      ms_sequence = n, ms_deleted_at = None, ms_updated_at = 0\<rparr>"

definition demo_db :: "job_status \<Rightarrow> string option \<Rightarrow> conversation_memory memory_row list \<Rightarrow> conversation_memory compaction_db" where
  "demo_db status token memories =
     \<lparr>cd_conversations = [\<lparr>cn_id = ''c'', cn_owner_id = ''u'', cn_deleted_at = None, cn_next_message_sequence = 3, cn_created_at = 0\<rparr>],
      cd_messages = [demo_message ''q'' User 1, demo_message ''a'' Assistant 2], cd_memories = memories,
      cd_jobs = [\<lparr>sj_conversation_id = ''c'', sj_requested_through = 2, sj_status = status, sj_attempt_count = 0,
        sj_available_at = 0, sj_lease_token = token, sj_lease_expires_at = map_option (\<lambda>_. 60000000) token, sj_last_error_code = None,
        sj_created_at = 0, sj_updated_at = 0\<rparr>]\<rparr>"

definition demo_claim :: summary_job_claim where
  "demo_claim = \<lparr>cl_conversation_id = ''c'', cl_requested_through = 2, cl_lease_token = ''T'', cl_attempt_count = 0\<rparr>"

definition demo_input :: "conversation_memory compaction_input" where
  "demo_input =
     \<lparr>ci_claim = demo_claim, ci_owner_id = ''u'', ci_payload = None, ci_version = 0, ci_cursor = None,
      ci_messages = [demo_message ''q'' User 1, demo_message ''a'' Assistant 2]\<rparr>"

definition demo_result :: compaction_result where
  "demo_result =
     \<lparr>cr_memory = Some [(''facts'', [''sky is blue'']), (''decisions'', []), (''constraints'', []), (''preferences'', []),
        (''open_questions'', []), (''tool_outcomes'', [])], cr_error = None, cr_summary_tokens = 1,
      cr_last_sequence = Some 2, cr_window_tokens = 2, cr_prefix = [demo_message ''q'' User 1, demo_message ''a'' Assistant 2]\<rparr>"

definition demo_memory :: "conversation_memory memory_row" where
  "demo_memory =
     \<lparr>my_conversation_id = ''c'', my_columns = mw_columns (write_of demo_compactor demo_input demo_result), my_version = 1,
      my_is_valid = True, my_updated_at = 0\<rparr>"

lemma demo_compacts:
  "worker_compacts demo_compactor False True (\<lambda>ms. Generated ''{}'') demo_input = Some demo_result"
  by code_simp

definition demo_opened :: "int \<Rightarrow> message_row list \<Rightarrow> conversation_memory compaction_db" where
  "demo_opened n ms =
     \<lparr>cd_conversations = [\<lparr>cn_id = ''c'', cn_owner_id = ''u'', cn_deleted_at = None, cn_next_message_sequence = n, cn_created_at = 0\<rparr>],
      cd_messages = ms, cd_memories = [], cd_jobs = []\<rparr>"

lemma demo_posts:
  "persist_message ''q'' ''c'' User ''hello'' None 0 (demo_opened 1 []) =
     (Inr (demo_message ''q'' User 1), demo_opened 2 [demo_message ''q'' User 1])"
  "persist_message ''a'' ''c'' Assistant ''hello'' None 0 (demo_opened 2 [demo_message ''q'' User 1]) =
     (Inr (demo_message ''a'' Assistant 2), demo_db JobPending None [])"
  by code_simp+

lemma demo_transactions:
  "claim_job (Some ''c'') 60 0 ''T'' (demo_db JobPending None []) = (Some demo_claim, demo_db JobProcessing (Some ''T'') [])"
  "load_compaction_input demo_claim None 1 (demo_db JobProcessing (Some ''T'') []) = Some demo_input"
  "persist_memory_cas demo_claim (write_of demo_compactor demo_input demo_result) 0 (demo_db JobProcessing (Some ''T'') []) =
     (True, demo_db JobProcessing (Some ''T'') [demo_memory])"
  by code_simp+

definition demo_state ::
  "conversation_memory compaction_db \<Rightarrow> (summary_job_claim \<times> worker_phase) list \<Rightarrow> string set \<Rightarrow> message_row list \<Rightarrow> run_state" where
  "demo_state db workers tokens basis =
     \<lparr>rn_db = db, rn_workers = workers, rn_tokens = tokens, rn_basis = (\<lambda>c. [])(''c'' := basis)\<rparr>"

lemma reaches_step:
  "compaction_reaches w cp calm s \<Longrightarrow> compaction_step w cp calm s s' \<Longrightarrow> compaction_reaches w cp calm s'"
  unfolding compaction_reaches_def by (rule rtranclp.rtrancl_into_rtrancl)

lemma demo_reaches:
  "compaction_reaches demo_worker demo_compactor calm (demo_state (demo_db JobPending None []) [] {} [])"
  "compaction_reaches demo_worker demo_compactor calm
     (demo_state (demo_db JobProcessing (Some ''T'') []) [(demo_claim, Claimed)] {''T''} [])"
  "compaction_reaches demo_worker demo_compactor calm
     (demo_state (demo_db JobProcessing (Some ''T'') [demo_memory]) [(demo_claim, Written)] {''T''} (ci_messages demo_input))"
proof -
  let ?reaches = "compaction_reaches demo_worker demo_compactor calm"
  have start: "?reaches run_start" by (simp add: compaction_reaches_def)
  have "?reaches (demo_state (demo_opened 1 []) [] {} [])"
    using reaches_step [OF start compaction_step.opens [of "''c''" run_start demo_worker demo_compactor calm "''u''" 0]]
    by (simp add: demo_state_def demo_opened_def run_start_def conversation_of_def fun_upd_idem)
  from reaches_step [OF this compaction_step.posts] demo_posts(1)
  have "?reaches (demo_state (demo_opened 2 [demo_message ''q'' User 1]) [] {} [])"
    by (simp add: demo_state_def)
  from reaches_step [OF this compaction_step.posts] demo_posts(2)
  show ready: "?reaches (demo_state (demo_db JobPending None []) [] {} [])"
    by (simp add: demo_state_def)
  from reaches_step [OF this compaction_step.claims, of "Some ''c''" 0 "''T''"] demo_transactions(1)
  show claimed: "?reaches (demo_state (demo_db JobProcessing (Some ''T'') []) [(demo_claim, Claimed)] {''T''} [])"
    by (simp add: demo_state_def demo_worker_def)
  from reaches_step [OF this compaction_step.loads [of _ "[]" demo_claim "[]" 1 demo_input]] demo_transactions(2)
  have "?reaches (demo_state (demo_db JobProcessing (Some ''T'') []) [(demo_claim, Loaded demo_input)] {''T''} [])"
    by (simp add: demo_state_def)
  from reaches_step [OF this compaction_step.writes [of _ "[]" demo_claim demo_input "[]" demo_compactor False True
      "\<lambda>ms. Generated ''{}''" demo_result 0]] demo_compacts demo_transactions(3)
  moreover have "new_basis demo_claim demo_result (demo_state (demo_db JobProcessing (Some ''T'') []) ws ts []) =
      (\<lambda>c. [])(''c'' := ci_messages demo_input)" for ws ts
    by (simp add: new_basis_def Let_def demo_state_def demo_claim_def demo_result_def demo_input_def)
  ultimately show "?reaches (demo_state (demo_db JobProcessing (Some ''T'') [demo_memory]) [(demo_claim, Written)] {''T''} (ci_messages demo_input))"
    by (simp add: demo_state_def demo_result_def)
qed

theorem memory_reflects_transcript_witness:
  "\<exists>k. mc_last_sequence (my_columns demo_memory) = Some k \<and>
    filter (\<lambda>m. prompt_visible ''c'' m \<and> ms_sequence m \<le> k) (cd_messages (demo_db JobProcessing (Some ''T'') [demo_memory])) =
      ci_messages demo_input"
proof -
  let ?s = "demo_state (demo_db JobProcessing (Some ''T'') [demo_memory]) [(demo_claim, Written)] {''T''} (ci_messages demo_input)"
  have db: "rn_db ?s = demo_db JobProcessing (Some ''T'') [demo_memory]" "rn_basis ?s ''c'' = ci_messages demo_input"
    by (simp_all add: demo_state_def)
  have m: "memory_of ''c'' (rn_db ?s) = Some demo_memory" "my_is_valid demo_memory"
    unfolding db by (simp_all add: memory_of_def demo_db_def demo_memory_def)
  from memory_reflects_transcript [OF demo_reaches(3) m]
  obtain k where "mc_last_sequence (my_columns demo_memory) = Some k"
    "rn_basis ?s ''c'' = filter (\<lambda>m. prompt_visible ''c'' m \<and> ms_sequence m \<le> k) (cd_messages (rn_db ?s))" by blast
  then show ?thesis unfolding db by (intro exI [of _ k] conjI) (assumption, rule sym)
qed

theorem racing_delete_unnoticed_witness:
  "\<exists>db' db2 my m'. invalidate_for_mutation ''q'' None True 5 (demo_db JobProcessing (Some ''T'') []) = (Inr True, db') \<and>
    persist_memory_cas demo_claim (write_of demo_compactor demo_input demo_result) 0 db' = (True, db2) \<and>
    memory_of ''c'' db2 = Some my \<and> my_is_valid my \<and>
    find (\<lambda>m. ms_id m = ''q'') (cd_messages db2) = Some m' \<and> ms_deleted_at m' = Some 5"
proof -
  have "find (\<lambda>m. ms_id m = ''q'') (cd_messages (demo_db JobProcessing (Some ''T'') [])) = Some (demo_message ''q'' User 1)"
    "demo_message ''q'' User 1 \<in> set (ci_messages demo_input)"
    by (simp_all add: demo_db_def demo_message_def demo_input_def)
  from racing_delete_unnoticed [OF this(1) demo_transactions(2) this(2) demo_transactions(3), of 5] show ?thesis
    by (force simp: demo_claim_def)
qed

text \<open>The lease of the first worker expired, was recovered, and a second worker claimed the job.\<close>

definition demo_taken_over :: run_state where
  "demo_taken_over =
     (let db = snd (reconcile_due_jobs 60000000 0 0 5 (demo_db JobProcessing (Some ''T'') []));
          (claim, db') = claim_job (Some ''c'') 60 60000000 ''U'' db
      in demo_state db' [(the claim, Claimed), (demo_claim, Claimed)] {''U'', ''T''} [])"

theorem lease_fences_workers_witness:
  "\<exists>claim. rn_workers demo_taken_over = [(claim, Claimed), (demo_claim, Claimed)] \<and>
     leased_job claim 60000001 (rn_db demo_taken_over) \<noteq> None \<and>
     cl_conversation_id claim = cl_conversation_id demo_claim \<and>
     leased_job demo_claim 1 (rn_db demo_taken_over) = None"
proof -
  let ?db = "snd (reconcile_due_jobs 60000000 0 0 5 (demo_db JobProcessing (Some ''T'') []))"
  obtain claim db' where c: "claim_job (Some ''c'') 60 60000000 ''U'' ?db = (Some claim, db')"
    and l: "leased_job claim 60000001 db' \<noteq> None" "cl_conversation_id claim = ''c''"
  proof -
    have "case claim_job (Some ''c'') 60 60000000 ''U'' ?db of (Some claim, db') \<Rightarrow>
        leased_job claim 60000001 db' \<noteq> None \<and> cl_conversation_id claim = ''c'' | _ \<Rightarrow> False"
      by code_simp
    then show thesis using that by (auto split: prod.splits option.splits)
  qed
  have t: "demo_taken_over = demo_state db' [(claim, Claimed), (demo_claim, Claimed)] {''U'', ''T''} []"
    by (simp add: demo_taken_over_def c)
  have "compaction_reaches demo_worker demo_compactor (\<lambda>s m. True) (demo_state ?db [(demo_claim, Claimed)] {''T''} [])"
    using reaches_step [OF demo_reaches(2) compaction_step.reconciles [of _ _ _ _ "\<lambda>c. True" 0 0 60000000]]
    by (simp add: demo_state_def dispatch_reconciles RECONCILE_MAX_ATTEMPTS_def)
  from reaches_step [OF this compaction_step.claims, of "Some ''c''" 60000000 "''U''" claim db'] c
  have "compaction_reaches demo_worker demo_compactor (\<lambda>s m. True) demo_taken_over"
    by (simp add: t demo_state_def demo_worker_def)
  from lease_fences_workers [OF this, of "[]" claim Claimed "[]" demo_claim Claimed "[]" 60000001 1] l show ?thesis
    by (simp add: t demo_state_def demo_claim_def)
qed

end
