(* ===== verification/CompactionJobs.thy ===== *)
theory CompactionJobs
  imports CompactionRun
begin

text \<open>
  What becomes of the jobs of compaction in any run of the machine of \<^verbatim>\<open>CompactionRun\<close>: their diagram,
  their leases and their attempts, whatever changes of messages happen.
\<close>

section \<open>The life of a job\<close>

definition job_edge :: "job_status \<Rightarrow> job_status \<Rightarrow> bool" where
  "job_edge a b \<longleftrightarrow>
     a = b \<or> b = JobPending \<or> (a \<in> {JobPending, JobRetry} \<and> b = JobProcessing) \<or>
     (a = JobProcessing \<and> b \<in> {JobIdle, JobRetry, JobDead})"

text \<open>Leases and attempts of a job; \<open>n\<close> bounds the attempts.\<close>

definition job_ok :: "int \<Rightarrow> summary_job \<Rightarrow> bool" where
  "job_ok n j \<longleftrightarrow>
     (sj_status j = JobProcessing \<longleftrightarrow> sj_lease_token j \<noteq> None) \<and>
     (sj_status j = JobProcessing \<longleftrightarrow> sj_lease_expires_at j \<noteq> None) \<and>
     0 \<le> sj_attempt_count j \<and> sj_attempt_count j \<le> n \<and> (sj_status j \<noteq> JobDead \<longrightarrow> sj_attempt_count j < n)"

definition job_next :: "int \<Rightarrow> summary_job \<Rightarrow> summary_job \<Rightarrow> bool" where
  "job_next n j j' \<longleftrightarrow>
     job_edge (sj_status j) (sj_status j') \<and> sj_requested_through j \<le> sj_requested_through j' \<and>
     (job_ok n j \<longrightarrow> job_ok n j')"

definition jobs_next :: "int \<Rightarrow> 'p compaction_db \<Rightarrow> 'p compaction_db \<Rightarrow> bool" where
  "jobs_next n db db' \<longleftrightarrow>
     (\<forall>c. (case job_of c db of
             None \<Rightarrow> (\<forall>j'. job_of c db' = Some j' \<longrightarrow> job_ok n j')
           | Some j \<Rightarrow> (\<exists>j'. job_of c db' = Some j' \<and> job_next n j j')))"

lemma jobs_nextD:
  "jobs_next n db db' \<Longrightarrow> job_of c db = None \<Longrightarrow> job_of c db' = Some j' \<Longrightarrow> job_ok n j'"
  "jobs_next n db db' \<Longrightarrow> job_of c db = Some j \<Longrightarrow> \<exists>j'. job_of c db' = Some j' \<and> job_next n j j'"
  unfolding jobs_next_def by (drule spec [of _ c], simp)+

lemma job_next_refl [simp]: "job_next n j j"
  by (simp add: job_next_def job_edge_def)

lemma job_next_trans_pending:
  "job_next n j k \<Longrightarrow> job_next n k l \<Longrightarrow> sj_status l = JobPending \<Longrightarrow> job_next n j l"
  by (simp add: job_next_def job_edge_def)

lemma jobs_next_refl: "cd_jobs db' = cd_jobs db \<Longrightarrow> jobs_next n db db' \<longleftrightarrow> (\<forall>c j. job_of c db = Some j \<longrightarrow> job_next n j j)"
  by (auto simp: jobs_next_def job_of_def split: option.splits)

lemma jobs_next_same: "cd_jobs db' = cd_jobs db \<Longrightarrow> jobs_next n db db'"
  by (simp add: jobs_next_refl)

lemma jobs_next_set_job:
  assumes "\<And>j. sj_conversation_id (f j) = sj_conversation_id j" "\<And>j. job_of c db = Some j \<Longrightarrow> job_next n j (f j)"
  shows "jobs_next n db (set_job c f db)"
  using assms by (auto simp: jobs_next_def job_of_set_job split: option.splits)

lemma job_next_requests:
  assumes "0 < n"
  shows "job_next n j (reopened_job target now j)" "job_next n j (new_work_job target now j)"
    "job_next n j (restart_job now j)" "job_ok n (fresh_job c target now)"
  using assms
  by (auto simp: job_next_def job_edge_def job_ok_def reopened_job_def new_work_job_def restart_job_def fresh_job_def Let_def)

lemma jobs_next_upsert:
  assumes "0 < n" "job_upsert c target now reopen db = Inr db'"
  shows "jobs_next n db db'"
proof (cases "job_of c db")
  case None
  with assms(2) have "db' = db\<lparr>cd_jobs := cd_jobs db @ [fresh_job c target now]\<rparr>"
    by (auto simp: job_upsert_def split: if_splits)
  then show ?thesis
    using job_next_requests(4) [OF assms(1)] by (auto simp: jobs_next_def job_of_def find_append_single split: option.splits if_splits)
next
  case (Some j)
  with assms(2) have "db' = set_job c (if reopen then reopened_job target now else new_work_job target now) db"
    by (auto simp: job_upsert_def Let_def split: if_splits)
  then show ?thesis
    using job_next_requests [OF assms(1)] by (auto intro!: jobs_next_set_job)
qed

lemma jobs_next_backfill: "0 < n \<Longrightarrow> request_backfill c target now db = (r, db') \<Longrightarrow> jobs_next n db db'"
  by (auto simp: request_backfill_def jobs_next_same dest: jobs_next_upsert split: option.splits if_splits sum.splits)

lemma jobs_next_claim:
  assumes "jobs_ok db" "claim_job c lease now token db = (Some claim, db')"
  shows "jobs_next n db db'"
proof -
  obtain j js where s: "sort_key (\<lambda>j. (sj_available_at j, sj_created_at j)) (filter (claimable c now) (cd_jobs db)) = j # js"
    using assms(2) by (auto simp: claim_job_def split: list.splits)
  then have "j \<in> set (filter (claimable c now) (cd_jobs db))" by (metis list.set_intros(1) set_sort)
  then have "claimable c now j" "job_of (sj_conversation_id j) db = Some j" by (simp_all add: unique_job [OF assms(1)])
  with assms(2) s show ?thesis
    by (auto simp: claim_job_def claimable_def job_next_def job_edge_def job_ok_def intro!: jobs_next_set_job)
qed

lemma jobs_next_complete: "0 < n \<Longrightarrow> jobs_next n db (snd (complete_claim claim now db))"
  by (auto simp: complete_claim_def leased_job_def holds_lease_def Let_def jobs_next_same job_next_def job_edge_def job_ok_def
      intro!: jobs_next_set_job split: option.splits if_splits)

lemma jobs_next_fail:
  assumes "wk_max_attempts w \<le> n"
  shows "jobs_next n db (worker_fail w claim code permanent now db)"
  using assms
  by (auto simp: worker_fail_def fail_claim_def leased_job_def holds_lease_def Let_def jobs_next_same job_next_def
      job_edge_def job_ok_def intro!: jobs_next_set_job split: option.splits if_splits)

lemma jobs_next_reconcile:
  assumes "attempts \<le> n"
  shows "jobs_next n db (snd (reconcile_due_jobs now limit debounce attempts db))"
proof -
  have "job_next n j (reconciled now ids debounce attempts j)" for j ids
    using assms by (auto simp: reconciled_def recovered_job_def lease_expired_def job_next_def job_edge_def job_ok_def)
  then show ?thesis
    by (auto simp: jobs_next_def job_of_def reconcile_jobs find_map_key split: option.splits)
qed

lemma jobs_next_mutation:
  assumes "0 < n" "find (\<lambda>m. ms_id m = i) (cd_messages db) = Some m"
    "invalidate_for_mutation i content delete now db = (Inr b, db')"
  shows "jobs_next n db db'"
  using mutation_forms [OF assms(2,3)]
proof cases
  case (4 db3 target)
  have "jobs_next n db db3" using jobs_next_upsert [OF assms(1) 4(2)] by (simp add: jobs_next_def)
  moreover have "job_next n j (restart_job now k)" if "job_next n j k" for j k
    by (rule job_next_trans_pending [OF that job_next_requests(3) [OF assms(1)]]) (simp add: restart_job_def)
  moreover have "job_ok n (restart_job now k)" if "job_ok n k" for k
    using that job_next_requests(3) [OF assms(1)] by (simp add: job_next_def)
  ultimately show ?thesis unfolding 4(3)
    by (auto simp: jobs_next_def job_of_set_job split: option.splits) (metis option.inject option.distinct(1))+
qed (simp_all add: jobs_next_same)

lemma jobs_ok_mutation:
  assumes "jobs_ok db" "find (\<lambda>m. ms_id m = i) (cd_messages db) = Some m"
    "invalidate_for_mutation i content delete now db = (Inr b, db')"
  shows "jobs_ok db'"
  using mutation_cases [OF assms(2,3)]
proof cases
  case 3
  have "message_exists c k (set_memory d f (changed_db i content now db)) = message_exists c k db" for c k d f
    using changed_db_same(6) [of c k i content now db] by (simp add: message_exists_def)
  then show ?thesis by (intro 3(3) jobs_ok_frame [OF assms(1)]) simp_all
qed (use assms(1) in \<open>simp_all add: jobs_ok_frame\<close>)

lemma jobs_ok_posts:
  assumes "jobs_ok db" "persist_message i c sender content metadata now db = (Inr m, db')"
  shows "jobs_ok db'"
proof -
  have "jobs_ok (posted m db)"
    by (rule jobs_ok_frame [OF assms(1)]) (auto simp: posted_def message_exists_def)
  with assms(2) show ?thesis by (auto elim!: persist_message_cases intro: jobs_ok_upsert)
qed

lemma jobs_next_posts:
  assumes "0 < n" "persist_message i c sender content metadata now db = (Inr m, db')"
  shows "jobs_next n db db'"
proof -
  have same: "job_of d (posted m db) = job_of d db" for d by (simp add: job_of_def posted_def)
  from assms(2) have "db' = posted m db \<or> job_upsert c (ms_sequence m) now False (posted m db) = Inr db'"
    by (auto elim!: persist_message_cases)
  then show ?thesis
  proof
    assume "job_upsert c (ms_sequence m) now False (posted m db) = Inr db'"
    from jobs_next_upsert [OF assms(1) this] show ?thesis by (simp add: jobs_next_def same)
  qed (simp add: jobs_next_same posted_def)
qed

lemma persist_memory_jobs: "cd_jobs (snd (persist_memory_cas claim write now db)) = cd_jobs db"
  by (simp add: persist_memory_cas_def Let_def split: option.splits)

lemma persist_memory_exists:
  "message_exists c n (snd (persist_memory_cas claim write now db)) = message_exists c n db"
  by (simp add: persist_memory_cas_def Let_def message_exists_def split: option.splits)

text \<open>Every step moves the jobs along their diagram.\<close>

lemma jobs_step:
  assumes "compaction_step w cp calm s s'" "jobs_ok (rn_db s)" "0 < n" "RECONCILE_MAX_ATTEMPTS \<le> n" "wk_max_attempts w \<le> n"
  shows "jobs_ok (rn_db s') \<and> jobs_next n (rn_db s) (rn_db s')"
  using assms(1)
proof cases
  case (opens c u now)
  with assms(2) show ?thesis by (auto intro: jobs_ok_frame simp: jobs_next_same message_exists_def)
next
  case (posts i c sender content metadata now m db)
  with jobs_ok_posts [OF assms(2)] jobs_next_posts [OF assms(3)] show ?thesis by simp
next
  case (enqueues c target now db)
  with jobs_ok_upsert [OF assms(2)] jobs_next_upsert [OF assms(3)] show ?thesis by (simp add: enqueue_job_in_session_def)
next
  case (backfills c target now b db)
  with jobs_ok_backfill [OF assms(2)] jobs_next_backfill [OF assms(3)] show ?thesis by simp
next
  case (claims c now token claim db)
  with jobs_ok_claim [OF assms(2)] jobs_next_claim [OF assms(2)] show ?thesis by simp
next
  case (writes before claim input after forced credential generate r now db)
  have db: "db = snd (persist_memory_cas claim (write_of cp input r) now (rn_db s))" using writes(5) by simp
  have "jobs_ok db" unfolding db by (rule jobs_ok_frame [OF assms(2)]) (simp_all add: persist_memory_jobs persist_memory_exists)
  moreover have "jobs_next n (rn_db s) db" unfolding db by (rule jobs_next_same) (rule persist_memory_jobs)
  ultimately show ?thesis using writes(1) by simp
next
  case (conflicts before claim input after forced credential generate r now db now')
  then have "db = rn_db s"
    by (auto simp: persist_memory_cas_def Let_def split: if_splits option.splits)
  with conflicts assms(2,5) show ?thesis by (simp add: jobs_ok_fail jobs_next_fail)
next
  case (changes i m content delete now b db)
  with jobs_ok_mutation [OF assms(2)] jobs_next_mutation [OF assms(3)] show ?thesis by simp
qed (use assms in \<open>simp_all add: jobs_next_same jobs_ok_fail jobs_next_fail jobs_ok_complete jobs_next_complete
   dispatch_reconciles jobs_ok_reconcile jobs_next_reconcile jobs_ok_frame message_exists_def\<close>)

lemma jobs_reach_step:
  assumes "compaction_step w cp calm s s'" "0 < n" "RECONCILE_MAX_ATTEMPTS \<le> n" "wk_max_attempts w \<le> n"
    "jobs_ok (rn_db s)" and ok: "\<And>c j. job_of c (rn_db s) = Some j \<Longrightarrow> job_ok n j"
    and j': "job_of c (rn_db s') = Some j'"
  shows "job_ok n j'"
proof -
  note nx = jobs_step [OF assms(1,5,2-4), THEN conjunct2]
  show ?thesis
  proof (cases "job_of c (rn_db s)")
    case None
    from jobs_nextD(1) [OF nx None j'] show ?thesis .
  next
    case (Some j)
    from jobs_nextD(2) [OF nx Some] obtain k where "job_of c (rn_db s') = Some k" "job_next n j k" by blast
    with j' ok [OF Some] show ?thesis by (simp add: job_next_def)
  qed
qed

lemma jobs_reach:
  assumes "compaction_reaches w cp calm s" and n: "0 < n" "RECONCILE_MAX_ATTEMPTS \<le> n" "wk_max_attempts w \<le> n"
  shows "jobs_ok (rn_db s) \<and> (\<forall>c j. job_of c (rn_db s) = Some j \<longrightarrow> job_ok n j)"
  using assms(1)
proof (rule compaction_reaches_induct)
  show "jobs_ok (rn_db run_start) \<and> (\<forall>c j. job_of c (rn_db run_start) = Some j \<longrightarrow> job_ok n j)"
    by (simp add: run_start_def jobs_ok_def job_of_def)
next
  fix s s'
  assume ih: "jobs_ok (rn_db s) \<and> (\<forall>c j. job_of c (rn_db s) = Some j \<longrightarrow> job_ok n j)"
    and st: "compaction_step w cp calm s s'"
  from jobs_step [OF st conjunct1 [OF ih] n] jobs_reach_step [OF st n conjunct1 [OF ih]] ih
  show "jobs_ok (rn_db s') \<and> (\<forall>c j. job_of c (rn_db s') = Some j \<longrightarrow> job_ok n j)" by blast
qed

lemma filter_distinct: "distinct (map k xs) \<Longrightarrow> x \<in> set xs \<Longrightarrow> filter (\<lambda>y. k y = k x) xs = [x]"
proof (induction xs)
  case (Cons a xs)
  show ?case
  proof (cases "x = a")
    case True
    with Cons.prems(1) have "\<forall>y \<in> set xs. k y \<noteq> k x" by simp (metis imageI)
    with True show ?thesis by (simp add: filter_empty_conv)
  next
    case False
    with Cons.prems have "x \<in> set xs" "k a \<noteq> k x" by force+
    with Cons show ?thesis by simp
  qed
qed simp

text \<open>
  Whatever happens around it, a job moves along its diagram. A conversation keeps its one job; a
  leased job, and only that, carries a token and an expiry; only a waiting job is claimed, and only a
  leased one ends; its target never moves back; and the attempts of a job that may still run stay below
  the configured maximum, or the five of the reconciler, so a job that keeps failing dies.
\<close>

theorem compaction_attempts_bounded:
  assumes "compaction_reaches w cp calm s" "compaction_step w cp calm s s'" "job_of c (rn_db s) = Some j"
  defines "n \<equiv> max 5 (wk_max_attempts w)"
  shows "\<exists>j'. job_of c (rn_db s') = Some j' \<and> job_edge (sj_status j) (sj_status j') \<and>
    sj_requested_through j \<le> sj_requested_through j' \<and> job_ok n j' \<and>
    length (filter (\<lambda>k. sj_conversation_id k = c) (cd_jobs (rn_db s'))) = 1"
proof -
  have n: "0 < n" "RECONCILE_MAX_ATTEMPTS \<le> n" "wk_max_attempts w \<le> n" by (simp_all add: n_def RECONCILE_MAX_ATTEMPTS_def)
  from jobs_reach [OF assms(1) n] assms(3) have ok: "jobs_ok (rn_db s)" "job_ok n j" by auto
  from jobs_step [OF assms(2) ok(1) n] have ok': "jobs_ok (rn_db s')" and step: "jobs_next n (rn_db s) (rn_db s')" by auto
  have nx: "\<exists>j'. job_of c (rn_db s') = Some j' \<and> job_next n j j'"
    by (rule jobs_nextD(2) [OF step assms(3)])
  then obtain j' where j': "job_of c (rn_db s') = Some j'" "job_next n j j'" by blast
  then have "j' \<in> set (cd_jobs (rn_db s'))" "sj_conversation_id j' = c" by (auto simp: job_of_def dest: find_SomeD)
  then have "filter (\<lambda>k. sj_conversation_id k = c) (cd_jobs (rn_db s')) = [j']"
    using ok' filter_distinct [of sj_conversation_id] by (auto simp: jobs_ok_def)
  with j' ok(2) show ?thesis by (auto simp: job_next_def)
qed

theorem compaction_attempts_bounded_witness:
  "\<exists>j. job_of ''c'' (demo_db JobProcessing (Some ''T'') []) = Some j \<and> job_edge JobPending (sj_status j) \<and> job_ok 5 j"
proof -
  have step: "compaction_step demo_worker demo_compactor settled (demo_state (demo_db JobPending None []) [] {} [])
      (demo_state (demo_db JobProcessing (Some ''T'') []) [(demo_claim, Claimed)] {''T''} [])"
    using compaction_step.claims [of "Some ''c''" demo_worker 0 "''T''" "demo_state (demo_db JobPending None []) [] {} []"]
      demo_transactions(1) by (simp add: demo_state_def demo_worker_def)
  have "job_of ''c'' (demo_db JobPending None []) \<noteq> None" "\<And>j. job_of ''c'' (demo_db JobPending None []) = Some j \<Longrightarrow> sj_status j = JobPending"
    by (auto simp: job_of_def demo_db_def)
  with compaction_attempts_bounded [OF demo_reaches(1) step, of "''c''"] show ?thesis
    by (force simp: demo_state_def demo_worker_def)
qed

end
