(* ===== verification/ToolPolicy.thy ===== *)
theory ToolPolicy
  imports PyText "HOL-Library.Multiset"
begin

text \<open>
  The execution policy of a tool call, \<^verbatim>\<open>ai/tool_execution_policy.py\<close> with the deployment rules of
  \<^verbatim>\<open>core/config.py\<close>: the identity of a tool, the rules that match it, the layers that set the fields of
  its policy and the checks that bound them. Python's floats are rationals here: nothing is rounded, and there
  is no infinity and no NaN. \<^verbatim>\<open>str\<close> of a value that is no text, the reader of an internal tool's
  policy and the dump of a selector are arguments.
\<close>

section \<open>Deployment rules\<close>

datatype tool_origin = Internal | ServerMcp | ClientMcp | ClientSkill

definition origin_value :: "tool_origin \<Rightarrow> string" where
  "origin_value r = (case r of
     Internal \<Rightarrow> ''internal'' | ServerMcp \<Rightarrow> ''server_mcp'' | ClientMcp \<Rightarrow> ''client_mcp''
   | ClientSkill \<Rightarrow> ''client_skill'')"

definition KNOWN_TOOL_ORIGINS :: "tool_origin list" where
  "KNOWN_TOOL_ORIGINS = [Internal, ServerMcp, ClientMcp, ClientSkill]"

record policy_match =
  pm_tool_origin :: tool_origin
  pm_qualified_tool_id :: "string option"
  pm_server_name :: "string option"
  pm_source_tool_name :: "string option"
  pm_exposed_tool_name :: "string option"

definition valid_match :: "policy_match \<Rightarrow> bool" where
  "valid_match m =
     (let has_server = pm_server_name m \<noteq> None; has_source = pm_source_tool_name m \<noteq> None
      in if has_server \<noteq> has_source then False
         else length (filter id [pm_qualified_tool_id m \<noteq> None, pm_exposed_tool_name m \<noteq> None,
                                 has_server \<and> has_source]) \<le> 1)"

record policy_override =
  po_match :: policy_match
  po_timeout :: "rat option"
  po_hard_timeout :: "rat option"
  po_total_timeout :: "rat option"
  po_max_timeout :: "rat option"
  po_max_attempts :: "int option"
  po_retry_safe :: "bool option"
  po_idempotent :: "bool option"
  po_trust_mcp_metadata :: bool
  po_disable_outer_timeout :: bool
  po_timeout_hint :: "string option"

definition positive :: "rat option \<Rightarrow> bool" where
  "positive x = (case x of None \<Rightarrow> True | Some r \<Rightarrow> 0 < r)"

definition attempts_allowed :: "int option \<Rightarrow> bool" where
  "attempts_allowed x = (case x of None \<Rightarrow> True | Some n \<Rightarrow> 1 \<le> n \<and> n \<le> 5)"

definition hint_fits :: "string option \<Rightarrow> bool" where
  "hint_fits x = (case x of None \<Rightarrow> True | Some s \<Rightarrow> length s \<le> 240)"

definition valid_override :: "policy_override \<Rightarrow> bool" where
  "valid_override r \<longleftrightarrow>
     valid_match (po_match r) \<and> positive (po_timeout r) \<and> positive (po_hard_timeout r) \<and>
     positive (po_total_timeout r) \<and> positive (po_max_timeout r) \<and> attempts_allowed (po_max_attempts r) \<and>
     hint_fits (po_timeout_hint r) \<and> \<not> (po_trust_mcp_metadata r \<and> pm_qualified_tool_id (po_match r) = None)"

record internal_policy =
  ip_timeout :: "rat option"
  ip_hard_timeout :: "rat option"
  ip_total_timeout :: "rat option"
  ip_max_timeout :: "rat option"
  ip_max_attempts :: "int option"
  ip_retry_safe :: "bool option"
  ip_idempotent :: "bool option"
  ip_disable_outer_timeout :: "bool option"
  ip_timeout_hint :: "string option"

definition valid_internal :: "internal_policy \<Rightarrow> bool" where
  "valid_internal p \<longleftrightarrow>
     positive (ip_timeout p) \<and> positive (ip_hard_timeout p) \<and> positive (ip_total_timeout p) \<and>
     positive (ip_max_timeout p) \<and> attempts_allowed (ip_max_attempts p) \<and> hint_fits (ip_timeout_hint p)"

type_synonym policy_rules = "(string, policy_override) dict"

record policy_settings =
  se_timeout :: int
  se_policies :: policy_rules
  se_max_interactive :: rat
  se_grace :: rat
  se_client_execution_grace :: rat
  se_client_response_grace :: rat

text \<open>The checks of the settings on loading: fields first, then the limits; \<open>dump\<close> is the JSON of a selector.\<close>

definition valid_fields :: "policy_settings \<Rightarrow> bool" where
  "valid_fields s \<longleftrightarrow>
     0 < se_max_interactive s \<and> 0 \<le> se_grace s \<and> 0 < se_client_execution_grace s \<and>
     0 < se_client_response_grace s \<and> (\<forall>(k, r) \<in> set (se_policies s). valid_override r)"

fun check_selectors :: "(policy_match \<Rightarrow> 'j) \<Rightarrow> 'j list \<Rightarrow> policy_rules \<Rightarrow> string option" where
  "check_selectors dump seen [] = None"
| "check_selectors dump seen ((k, r) # rules) =
     (if dump (po_match r) \<in> set seen then Some ''duplicate tool execution policy selectors''
      else if po_disable_outer_timeout r then Some ''deployment policy cannot disable the outer timeout''
      else check_selectors dump (dump (po_match r) # seen) rules)"

definition check_tool_execution_limits :: "(policy_match \<Rightarrow> 'j) \<Rightarrow> policy_settings \<Rightarrow> string option" where
  "check_tool_execution_limits dump s =
     (if se_max_interactive s \<le> se_grace s then Some ''tool execution maximum must exceed cancellation grace''
      else if se_client_execution_grace s \<le> se_client_response_grace s
      then Some ''client execution grace must exceed client response grace''
      else check_selectors dump [] (se_policies s))"

definition valid_settings :: "(policy_match \<Rightarrow> 'j) \<Rightarrow> policy_settings \<Rightarrow> bool" where
  "valid_settings dump s \<longleftrightarrow> valid_fields s \<and> check_tool_execution_limits dump s = None"

section \<open>The identity of a tool\<close>

datatype policy_error =
    UnknownOrigin string
  | InvalidInternalPolicy
  | AmbiguousRules nat "string list"
  | DisableNeedsTrust
  | DisableNotPermitted
  | UnsafeRetryBudget
  | CapBelowGrace
  | HardBelowGrace
  | ClientDeadlinesTooShort
  | UnknownInvocationKind string

text \<open>The values of a tool's metadata.\<close>

datatype meta_value =
    MNull
  | MBool bool
  | MInt int
  | MFloat rat
  | MStr string
  | MList "meta_value list"
  | MDict "(string \<times> meta_value) list"

type_synonym metadata = "(string \<times> meta_value) list"

fun meta_truthy :: "meta_value \<Rightarrow> bool" where
  "meta_truthy MNull = False"
| "meta_truthy (MBool b) = b"
| "meta_truthy (MInt i) = (i \<noteq> 0)"
| "meta_truthy (MFloat r) = (r \<noteq> 0)"
| "meta_truthy (MStr s) = (s \<noteq> [])"
| "meta_truthy (MList xs) = (xs \<noteq> [])"
| "meta_truthy (MDict d) = (d \<noteq> [])"

definition meta_get :: "metadata \<Rightarrow> string \<Rightarrow> meta_value" where
  "meta_get d k = (case map_of d k of None \<Rightarrow> MNull | Some v \<Rightarrow> v)"

text \<open>\<^verbatim>\<open>str(v)\<close>, and \<^verbatim>\<open>str(v or otherwise)\<close>.\<close>

definition meta_text :: "(meta_value \<Rightarrow> string) \<Rightarrow> meta_value \<Rightarrow> string" where
  "meta_text show v = (case v of MStr s \<Rightarrow> s | _ \<Rightarrow> show v)"

definition meta_text_or :: "(meta_value \<Rightarrow> string) \<Rightarrow> meta_value \<Rightarrow> string \<Rightarrow> string" where
  "meta_text_or show v otherwise = (if meta_truthy v then meta_text show v else otherwise)"

record bound_tool =
  bt_metadata :: "metadata option"
  bt_name :: string

definition tool_metadata :: "bound_tool \<Rightarrow> metadata" where
  "tool_metadata t = (case bt_metadata t of None \<Rightarrow> [] | Some d \<Rightarrow> d)"

record tool_identity =
  ti_tool_origin :: tool_origin
  ti_qualified_tool_id :: string
  ti_exposed_tool_name :: string
  ti_source_tool_name :: string
  ti_server_name :: "string option"

definition resolve_tool_identity ::
  "(meta_value \<Rightarrow> string) \<Rightarrow> bound_tool \<Rightarrow> string \<Rightarrow> policy_error + tool_identity" where
  "resolve_tool_identity show tool exposed_tool_name =
     (let md = tool_metadata tool;
          stated = py_strip (meta_text_or show (meta_get md ''tool_origin'') []);
          origin_text = (if stated = [] then ''internal'' else stated)
      in case find (\<lambda>r. origin_value r = origin_text) KNOWN_TOOL_ORIGINS of
           None \<Rightarrow> Inl (UnknownOrigin origin_text)
         | Some origin \<Rightarrow>
             (let exposed = py_strip exposed_tool_name;
                  fallback = py_strip (if bt_name tool = [] then exposed else bt_name tool);
                  source = py_strip (meta_text_or show (meta_get md ''source_tool_name'') fallback);
                  stated_id = py_strip (meta_text_or show (meta_get md ''qualified_tool_id'') []);
                  qualified = (if stated_id = [] then ''internal::'' @ source else stated_id);
                  server = (let s = py_strip (meta_text_or show (meta_get md ''server_name'') [])
                            in if s = [] then None else Some s)
              in Inr \<lparr>ti_tool_origin = origin, ti_qualified_tool_id = qualified, ti_exposed_tool_name = exposed,
                      ti_source_tool_name = source, ti_server_name = server\<rparr>))"

section \<open>The rules that match\<close>

definition SPECIFICITY_ORIGIN_DEFAULT :: nat where "SPECIFICITY_ORIGIN_DEFAULT = 1"
definition SPECIFICITY_EXPOSED_NAME :: nat where "SPECIFICITY_EXPOSED_NAME = 2"
definition SPECIFICITY_SERVER_SOURCE :: nat where "SPECIFICITY_SERVER_SOURCE = 3"
definition SPECIFICITY_QUALIFIED_ID :: nat where "SPECIFICITY_QUALIFIED_ID = 4"

lemmas specificity_defs = SPECIFICITY_ORIGIN_DEFAULT_def SPECIFICITY_EXPOSED_NAME_def
  SPECIFICITY_SERVER_SOURCE_def SPECIFICITY_QUALIFIED_ID_def

definition policy_match_specificity :: "policy_match \<Rightarrow> nat" where
  "policy_match_specificity m =
     (if pm_qualified_tool_id m \<noteq> None then SPECIFICITY_QUALIFIED_ID
      else if pm_server_name m \<noteq> None \<and> pm_source_tool_name m \<noteq> None then SPECIFICITY_SERVER_SOURCE
      else if pm_exposed_tool_name m \<noteq> None then SPECIFICITY_EXPOSED_NAME
      else SPECIFICITY_ORIGIN_DEFAULT)"

definition rule_matches_identity :: "policy_match \<Rightarrow> tool_identity \<Rightarrow> nat \<Rightarrow> bool" where
  "rule_matches_identity m i specificity =
     (if pm_tool_origin m \<noteq> ti_tool_origin i then False
      else if specificity = SPECIFICITY_EXPOSED_NAME then pm_exposed_tool_name m = Some (ti_exposed_tool_name i)
      else if specificity = SPECIFICITY_SERVER_SOURCE
      then pm_server_name m = ti_server_name i \<and> pm_source_tool_name m = Some (ti_source_tool_name i)
      else if specificity = SPECIFICITY_QUALIFIED_ID then pm_qualified_tool_id m = Some (ti_qualified_tool_id i)
      else True)"

definition rule_applies :: "tool_identity \<Rightarrow> policy_override \<Rightarrow> bool" where
  "rule_applies i r = rule_matches_identity (po_match r) i (policy_match_specificity (po_match r))"

text \<open>The buckets are a dictionary in the order in which a specificity is first met.\<close>

fun add_to_bucket :: "nat \<Rightarrow> 'a \<Rightarrow> (nat \<times> 'a list) list \<Rightarrow> (nat \<times> 'a list) list" where
  "add_to_bucket n x [] = [(n, [x])]"
| "add_to_bucket n x ((m, xs) # bs) = (if m = n then (m, xs @ [x]) # bs else (m, xs) # add_to_bucket n x bs)"

fun fill_buckets :: "tool_identity \<Rightarrow> policy_rules \<Rightarrow> (nat \<times> policy_rules) list \<Rightarrow> (nat \<times> policy_rules) list" where
  "fill_buckets i [] bs = bs"
| "fill_buckets i ((k, r) # rules) bs =
     fill_buckets i rules
       (if rule_applies i r then add_to_bucket (policy_match_specificity (po_match r)) (k, r) bs else bs)"

definition matching_policy_rules :: "tool_identity \<Rightarrow> policy_rules \<Rightarrow> policy_error + policy_rules" where
  "matching_policy_rules i rules =
     (let buckets = fill_buckets i rules []
      in case find (\<lambda>(n, ms). 1 < length ms) buckets of
           Some (n, ms) \<Rightarrow> Inl (AmbiguousRules n (sort (map fst ms)))
         | None \<Rightarrow> Inr (concat (map snd (sort_key fst buckets))))"

section \<open>The layers\<close>

record effective =
  ef_timeout :: "rat option"
  ef_hard_timeout :: "rat option"
  ef_total_timeout :: "rat option"
  ef_max_timeout :: "rat option"
  ef_max_attempts :: int
  ef_retry_safe :: bool
  ef_idempotent :: bool
  ef_disable_outer_timeout :: bool
  ef_timeout_hint :: string

definition default_fields :: effective where
  "default_fields =
     \<lparr>ef_timeout = None, ef_hard_timeout = None, ef_total_timeout = None, ef_max_timeout = None,
      ef_max_attempts = 1, ef_retry_safe = False, ef_idempotent = False, ef_disable_outer_timeout = False,
      ef_timeout_hint = []\<rparr>"

text \<open>A layer sets the fields it has a value for.\<close>

definition overlay :: "'a option \<Rightarrow> 'a option \<Rightarrow> 'a option" where
  "overlay new old = (case new of None \<Rightarrow> old | Some v \<Rightarrow> Some v)"

definition overlay_value :: "'a option \<Rightarrow> 'a \<Rightarrow> 'a" where
  "overlay_value new old = (case new of None \<Rightarrow> old | Some v \<Rightarrow> v)"

lemma overlay_simps [simp]:
  "overlay None x = x" "overlay (Some v) x = Some v" "overlay_value None y = y" "overlay_value (Some w) y = w"
  by (simp_all add: overlay_def overlay_value_def)

definition no_internal_fields :: internal_policy where
  "no_internal_fields =
     \<lparr>ip_timeout = None, ip_hard_timeout = None, ip_total_timeout = None, ip_max_timeout = None,
      ip_max_attempts = None, ip_retry_safe = None, ip_idempotent = None, ip_disable_outer_timeout = None,
      ip_timeout_hint = None\<rparr>"

text \<open>\<open>read\<close> types the fields of the policy a tool carries; \<open>None\<close> is a field of a wrong type or name.\<close>

definition trusted_internal_policy_fields ::
  "(metadata \<Rightarrow> internal_policy option) \<Rightarrow> metadata \<Rightarrow> policy_error + internal_policy" where
  "trusted_internal_policy_fields read md =
     (case meta_get md ''application_execution_policy'' of
        MDict d \<Rightarrow>
          (case read d of
             None \<Rightarrow> Inl InvalidInternalPolicy
           | Some p \<Rightarrow> if valid_internal p then Inr p else Inl InvalidInternalPolicy)
      | _ \<Rightarrow> Inr no_internal_fields)"

definition trusted_metadata_layer ::
  "(metadata \<Rightarrow> internal_policy option) \<Rightarrow> tool_identity \<Rightarrow> metadata \<Rightarrow> policy_error + effective \<times> bool" where
  "trusted_metadata_layer read i md =
     (if ti_tool_origin i = Internal
      then (case trusted_internal_policy_fields read md of
              Inl e \<Rightarrow> Inl e
            | Inr p \<Rightarrow>
                Inr (\<lparr>ef_timeout = ip_timeout p, ef_hard_timeout = ip_hard_timeout p,
                      ef_total_timeout = ip_total_timeout p, ef_max_timeout = ip_max_timeout p,
                      ef_max_attempts = overlay_value (ip_max_attempts p) 1,
                      ef_retry_safe = overlay_value (ip_retry_safe p) False,
                      ef_idempotent = overlay_value (ip_idempotent p) False,
                      ef_disable_outer_timeout = overlay_value (ip_disable_outer_timeout p) False,
                      ef_timeout_hint = overlay_value (ip_timeout_hint p) []\<rparr>, p \<noteq> no_internal_fields))
      else Inr (default_fields, False))"

definition apply_deployment_rule :: "policy_override \<Rightarrow> effective \<Rightarrow> effective" where
  "apply_deployment_rule r e =
     e\<lparr>ef_timeout := overlay (po_timeout r) (ef_timeout e),
       ef_hard_timeout := overlay (po_hard_timeout r) (ef_hard_timeout e),
       ef_total_timeout := overlay (po_total_timeout r) (ef_total_timeout e),
       ef_max_attempts := overlay_value (po_max_attempts r) (ef_max_attempts e),
       ef_retry_safe := overlay_value (po_retry_safe r) (ef_retry_safe e),
       ef_idempotent := overlay_value (po_idempotent r) (ef_idempotent e),
       ef_timeout_hint := overlay_value (po_timeout_hint r) (ef_timeout_hint e),
       ef_max_timeout := (case po_max_timeout r of
          None \<Rightarrow> ef_max_timeout e
        | Some cap \<Rightarrow> Some (case ef_max_timeout e of None \<Rightarrow> cap | Some c \<Rightarrow> min c cap)),
       ef_disable_outer_timeout := (po_disable_outer_timeout r \<or> ef_disable_outer_timeout e)\<rparr>"

fun apply_deployment_rules ::
  "policy_rules \<Rightarrow> effective \<Rightarrow> policy_override option \<Rightarrow> effective \<times> policy_override option" where
  "apply_deployment_rules [] e exact = (e, exact)"
| "apply_deployment_rules ((k, r) # rules) e exact =
     apply_deployment_rules rules (apply_deployment_rule r e)
       (if policy_match_specificity (po_match r) = SPECIFICITY_QUALIFIED_ID then Some r else exact)"

definition REMOTE_TIMEOUT_HINT_MAX_LENGTH :: nat where
  "REMOTE_TIMEOUT_HINT_MAX_LENGTH = 240"

record remote_fields =
  rf_timeout :: "rat option"
  rf_retry_safe :: "bool option"
  rf_idempotent :: "bool option"
  rf_timeout_hint :: "string option"

definition remote_mcp_trusted_fields :: "metadata \<Rightarrow> remote_fields" where
  "remote_mcp_trusted_fields md =
     (let meta = (case meta_get md ''_meta'' of MDict d \<Rightarrow> d | _ \<Rightarrow> [])
      in \<lparr>rf_timeout = (case meta_get meta ''execution_timeout_seconds'' of
            MInt n \<Rightarrow> if 0 < n then Some (of_int n) else None
          | MFloat r \<Rightarrow> if 0 < r then Some r else None
          | _ \<Rightarrow> None),
          rf_retry_safe = (case meta_get meta ''retry_safe'' of MBool b \<Rightarrow> Some b | _ \<Rightarrow> None),
          rf_idempotent = (case meta_get md ''idempotentHint'' of MBool b \<Rightarrow> Some b | _ \<Rightarrow> None),
          rf_timeout_hint = (case meta_get meta ''timeout_hint'' of
            MStr s \<Rightarrow> if s = [] then None else Some (take REMOTE_TIMEOUT_HINT_MAX_LENGTH s)
          | _ \<Rightarrow> None)\<rparr>)"

definition no_remote_fields :: remote_fields where
  "no_remote_fields = \<lparr>rf_timeout = None, rf_retry_safe = None, rf_idempotent = None, rf_timeout_hint = None\<rparr>"

definition unless_set :: "'b option \<Rightarrow> 'a option \<Rightarrow> 'a option" where
  "unless_set configured remote = (if configured = None then remote else None)"

definition apply_trusted_remote_fields ::
  "effective \<Rightarrow> policy_override option \<Rightarrow> metadata \<Rightarrow> effective \<times> bool" where
  "apply_trusted_remote_fields e exact md =
     (case exact of
        None \<Rightarrow> (e, False)
      | Some r \<Rightarrow>
          (let f = remote_mcp_trusted_fields md
           in if \<not> po_trust_mcp_metadata r \<or> f = no_remote_fields then (e, False)
              else (e\<lparr>ef_timeout := overlay (unless_set (po_timeout r) (rf_timeout f)) (ef_timeout e),
                      ef_retry_safe := overlay_value (unless_set (po_retry_safe r) (rf_retry_safe f)) (ef_retry_safe e),
                      ef_idempotent := overlay_value (unless_set (po_idempotent r) (rf_idempotent f)) (ef_idempotent e),
                      ef_timeout_hint :=
                        overlay_value (unless_set (po_timeout_hint r) (rf_timeout_hint f)) (ef_timeout_hint e)\<rparr>,
                    True)))"

section \<open>The checks\<close>

definition DISABLE_OUTER_TIMEOUT_ALLOWLIST :: "(tool_origin \<times> string) list" where
  "DISABLE_OUTER_TIMEOUT_ALLOWLIST = []"

definition check_safety_caps :: "effective \<Rightarrow> tool_identity \<Rightarrow> bool \<Rightarrow> policy_error option" where
  "check_safety_caps e i internal_trusted =
     (if ef_disable_outer_timeout e \<and> \<not> internal_trusted then Some DisableNeedsTrust
      else if ef_disable_outer_timeout e \<and>
        (ti_tool_origin i, ti_qualified_tool_id i) \<notin> set DISABLE_OUTER_TIMEOUT_ALLOWLIST
      then Some DisableNotPermitted
      else if 1 < ef_max_attempts e \<and> \<not> (ef_retry_safe e \<or> ef_idempotent e) then Some UnsafeRetryBudget
      else None)"

text \<open>A configured timeout of 0 stands for the default of 30 seconds.\<close>

definition default_timeout :: "policy_settings \<Rightarrow> rat" where
  "default_timeout s = of_int (if se_timeout s = 0 then 30 else se_timeout s)"

definition resolve_timeouts :: "policy_settings \<Rightarrow> effective \<Rightarrow> policy_error + rat \<times> rat \<times> rat" where
  "resolve_timeouts s e =
     (let grace = se_grace s;
          soft = overlay_value (ef_timeout e) (default_timeout s);
          hard = overlay_value (ef_hard_timeout e) (soft + grace);
          whole = overlay_value (ef_total_timeout e) hard;
          cap = (case ef_max_timeout e of None \<Rightarrow> se_max_interactive s | Some c \<Rightarrow> min (se_max_interactive s) c)
      in if cap \<le> grace then Inl CapBelowGrace
         else (let whole = min whole cap; hard = min hard whole
               in if hard \<le> grace then Inl HardBelowGrace
                  else Inr (if hard \<le> soft \<or> hard - soft < grace then hard - grace else soft, hard, whole)))"

definition client_origin :: "tool_origin \<Rightarrow> bool" where
  "client_origin r \<longleftrightarrow> r \<in> {ClientMcp, ClientSkill}"

definition client_deadlines ::
  "policy_settings \<Rightarrow> tool_identity \<Rightarrow> rat \<Rightarrow> policy_error + (rat \<times> rat) option" where
  "client_deadlines s i soft =
     (if \<not> client_origin (ti_tool_origin i) then Inr None
      else (let execution = soft - se_client_execution_grace s; response = soft - se_client_response_grace s
            in if 0 < execution \<and> execution < response \<and> response < soft then Inr (Some (execution, response))
               else Inl ClientDeadlinesTooShort))"

section \<open>The policy\<close>

datatype policy_source = SourceDefault | SourceConfig | SourceMetadata | SourceBoth

datatype cancellation = Cooperative | AbandonOnly

record execution_policy =
  ep_identity :: tool_identity
  ep_timeout :: rat
  ep_hard_timeout :: rat
  ep_total_timeout :: rat
  ep_max_attempts :: int
  ep_retry_safe :: bool
  ep_idempotent :: bool
  ep_metadata_trusted :: bool
  ep_outer_timeout_disabled :: bool
  ep_cancellation :: cancellation
  ep_client_deadlines :: "(rat \<times> rat) option"
  ep_policy_source :: policy_source
  ep_config_keys :: "string list"
  ep_timeout_hint :: string

definition policy_source_of :: "string list \<Rightarrow> bool \<Rightarrow> policy_source" where
  "policy_source_of keys trusted =
     (if keys \<noteq> [] \<and> trusted then SourceBoth else if keys \<noteq> [] then SourceConfig
      else if trusted then SourceMetadata else SourceDefault)"

definition cancellation_for :: "string \<Rightarrow> cancellation" where
  "cancellation_for kind = (if kind = ''native_async'' then Cooperative else AbandonOnly)"

definition VALID_INVOCATION_KINDS :: "string list" where
  "VALID_INVOCATION_KINDS = [''native_async'', ''sync_thread'', ''client_runtime'']"

text \<open>\<open>effective_fields\<close> is the first half of the resolver, the layers in their order.\<close>

definition effective_fields ::
  "(metadata \<Rightarrow> internal_policy option) \<Rightarrow> policy_settings \<Rightarrow> tool_identity \<Rightarrow> metadata
     \<Rightarrow> policy_error + effective \<times> policy_rules \<times> bool \<times> bool" where
  "effective_fields read s i md =
     (case trusted_metadata_layer read i md of
        Inl err \<Rightarrow> Inl err
      | Inr (e0, internal_trusted) \<Rightarrow>
          (case matching_policy_rules i (se_policies s) of
             Inl err \<Rightarrow> Inl err
           | Inr rules \<Rightarrow>
               (let (e1, exact) = apply_deployment_rules rules e0 None;
                    (e2, remote_trusted) = apply_trusted_remote_fields e1 exact md
                in Inr (e2, rules, internal_trusted, remote_trusted))))"

definition resolve_tool_execution_policy ::
  "(meta_value \<Rightarrow> string) \<Rightarrow> (metadata \<Rightarrow> internal_policy option) \<Rightarrow> policy_settings \<Rightarrow> bound_tool \<Rightarrow> string \<Rightarrow> string
     \<Rightarrow> policy_error + execution_policy" where
  "resolve_tool_execution_policy show read s tool exposed_tool_name kind =
     (if kind \<notin> set VALID_INVOCATION_KINDS then Inl (UnknownInvocationKind kind)
      else case resolve_tool_identity show tool exposed_tool_name of
        Inl err \<Rightarrow> Inl err
      | Inr i \<Rightarrow>
        (case effective_fields read s i (tool_metadata tool) of
           Inl err \<Rightarrow> Inl err
         | Inr (e, rules, internal_trusted, remote_trusted) \<Rightarrow>
           (case check_safety_caps e i internal_trusted of
              Some err \<Rightarrow> Inl err
            | None \<Rightarrow>
              (case resolve_timeouts s e of
                 Inl err \<Rightarrow> Inl err
               | Inr (soft, hard, whole) \<Rightarrow>
                 (case client_deadlines s i soft of
                    Inl err \<Rightarrow> Inl err
                  | Inr deadlines \<Rightarrow>
                    Inr \<lparr>ep_identity = i, ep_timeout = soft, ep_hard_timeout = hard, ep_total_timeout = whole,
                         ep_max_attempts = ef_max_attempts e, ep_retry_safe = ef_retry_safe e,
                         ep_idempotent = ef_idempotent e,
                         ep_metadata_trusted = (internal_trusted \<or> remote_trusted),
                         ep_outer_timeout_disabled = ef_disable_outer_timeout e,
                         ep_cancellation = cancellation_for kind, ep_client_deadlines = deadlines,
                         ep_policy_source = policy_source_of (map fst rules) (internal_trusted \<or> remote_trusted),
                         ep_config_keys = map fst rules, ep_timeout_hint = ef_timeout_hint e\<rparr>)))))"

section \<open>What the matching returns\<close>

definition applying :: "tool_identity \<Rightarrow> nat \<Rightarrow> policy_rules \<Rightarrow> policy_rules" where
  "applying i n rules = filter (\<lambda>(k, r). rule_applies i r \<and> policy_match_specificity (po_match r) = n) rules"

definition bucket_of :: "(nat \<times> 'a list) list \<Rightarrow> nat \<Rightarrow> 'a list" where
  "bucket_of bs n = (case map_of bs n of None \<Rightarrow> [] | Some xs \<Rightarrow> xs)"

lemma bucket_of_simps [simp]:
  "bucket_of [] n = []" "bucket_of ((m, xs) # bs) n = (if n = m then xs else bucket_of bs n)"
  by (simp_all add: bucket_of_def)

lemma bucket_of_add: "bucket_of (add_to_bucket n x bs) m = bucket_of bs m @ (if m = n then [x] else [])"
  by (induction n x bs rule: add_to_bucket.induct) auto

lemma keys_add: "fst ` set (add_to_bucket n x bs) = insert n (fst ` set bs)"
  by (induction n x bs rule: add_to_bucket.induct) auto

lemma distinct_add: "distinct (map fst bs) \<Longrightarrow> distinct (map fst (add_to_bucket n x bs))"
  by (induction n x bs rule: add_to_bucket.induct) (auto simp: keys_add)

lemma bucket_of_fill: "bucket_of (fill_buckets i rules bs) n = bucket_of bs n @ applying i n rules"
  by (induction i rules bs rule: fill_buckets.induct) (auto simp: applying_def bucket_of_add)

lemma distinct_fill: "distinct (map fst bs) \<Longrightarrow> distinct (map fst (fill_buckets i rules bs))"
  by (induction i rules bs rule: fill_buckets.induct) (auto simp: distinct_add)

lemma specificity_range: "policy_match_specificity m \<in> {1, 2, 3, 4}"
  by (simp add: policy_match_specificity_def specificity_defs)

lemma keys_fill: "fst ` set (fill_buckets i rules bs) \<subseteq> fst ` set bs \<union> {1, 2, 3, 4}"
proof (induction i rules bs rule: fill_buckets.induct)
  case (2 i k r rules bs)
  then show ?case using specificity_range [of "po_match r"] keys_add [of "policy_match_specificity (po_match r)" "(k, r)" bs]
    by (auto split: if_splits)
qed auto

lemma bucket_of_in: "distinct (map fst bs) \<Longrightarrow> b \<in> set bs \<Longrightarrow> bucket_of bs (fst b) = snd b"
  by (cases b) (simp add: bucket_of_def)

lemma bucket_of_notin: "n \<notin> fst ` set bs \<Longrightarrow> bucket_of bs n = []"
  by (simp add: bucket_of_def map_of_eq_None_iff [THEN iffD2])

lemma concat_map_filter: "(\<And>x. \<not> P x \<Longrightarrow> f x = []) \<Longrightarrow> concat (map f (filter P xs)) = concat (map f xs)"
  by (induction xs) auto

lemma concat_buckets:
  assumes "distinct (map fst bs)" "fst ` set bs \<subseteq> {1, 2, 3, 4}"
  shows "concat (map snd (sort_key fst bs)) = concat (map (bucket_of bs) [1, 2, 3, 4])"
proof -
  let ?ks = "map fst (sort_key fst bs)"
  have "sorted ?ks \<and> distinct ?ks \<and> set ?ks = fst ` set bs"
    using assms(1) by (simp add: distinct_map)
  then have "?ks = filter (\<lambda>n. n \<in> fst ` set bs) [1, 2, 3, 4]"
  proof (elim conjE, intro sorted_distinct_set_unique)
    show "sorted (filter (\<lambda>n. n \<in> fst ` set bs) [1, 2, 3, 4])" "distinct (filter (\<lambda>n. n \<in> fst ` set bs) [1, 2, 3, 4])"
      by (rule sorted_wrt_filter, simp) (rule distinct_filter, simp)
    assume "set ?ks = fst ` set bs"
    with assms(2) show "set ?ks = set (filter (\<lambda>n. n \<in> fst ` set bs) [1, 2, 3, 4])"
      by (simp only: set_filter) auto
  qed
  moreover have "map snd (sort_key fst bs) = map (bucket_of bs) ?ks"
    unfolding map_map by (rule map_cong) (simp_all add: bucket_of_in [OF assms(1)])
  moreover have "concat (map (bucket_of bs) (filter (\<lambda>n. n \<in> fst ` set bs) [1, 2, 3, 4])) =
      concat (map (bucket_of bs) [1, 2, 3, 4])"
    by (rule concat_map_filter) (rule bucket_of_notin)
  ultimately show ?thesis by (simp only:)
qed

text \<open>The matching, without its buckets.\<close>

lemma matching_cases:
  "matching_policy_rules i rules = Inr ms \<longleftrightarrow>
     (\<forall>n. length (applying i n rules) \<le> 1) \<and> ms = concat (map (\<lambda>n. applying i n rules) [1, 2, 3, 4])"
proof -
  let ?bs = "fill_buckets i rules []"
  have d: "distinct (map fst ?bs)" "fst ` set ?bs \<subseteq> {1, 2, 3, 4}"
    using distinct_fill [of "[]"] keys_fill [of i rules "[]"] by auto
  have "snd b = applying i (fst b) rules" if "b \<in> set ?bs" for b
    using bucket_of_fill [of i rules "[]" "fst b"] bucket_of_in [OF d(1) that] by simp
  moreover have "applying i n rules = []" if "n \<notin> fst ` set ?bs" for n
    using bucket_of_fill [of i rules "[]" n] bucket_of_notin [OF that] by simp
  ultimately have "find (\<lambda>(n, ms). 1 < length ms) ?bs = None \<longleftrightarrow> (\<forall>n. length (applying i n rules) \<le> 1)"
    by (fastforce simp: find_None_iff not_less image_iff)
  moreover have "concat (map snd (sort_key fst ?bs)) = concat (map (\<lambda>n. applying i n rules) [1, 2, 3, 4])"
    using concat_buckets [OF d] bucket_of_fill [of i rules "[]"] by simp
  ultimately show ?thesis
    by (auto simp: matching_policy_rules_def Let_def split: option.splits)
qed

lemma matching_error: "matching_policy_rules i rules = Inl err \<Longrightarrow> \<exists>n keys. err = AmbiguousRules n keys"
  by (auto simp: matching_policy_rules_def Let_def split: option.splits)

lemma matching_set: "matching_policy_rules i rules = Inr ms \<Longrightarrow> set ms = {x \<in> set rules. rule_applies i (snd x)}"
  using specificity_range by (fastforce simp: matching_cases applying_def)

lemma short_same_mset: "length xs \<le> 1 \<Longrightarrow> mset xs = mset ys \<Longrightarrow> xs = ys"
  by (cases xs; cases ys) (auto simp: add_mset_eq_single dest: arg_cong [where f = size])

text \<open>
  The deployment rules are a set. The rules returned for a tool are exactly those that apply to it, in
  strictly rising specificity, and a permutation of the configuration returns the same list, or is refused as
  ambiguous too; it is refused only when two entries of one specificity apply.
\<close>

theorem matching_ignores_order:
  assumes "mset rules = mset rules'"
  shows "(case matching_policy_rules i rules of
      Inr ms \<Rightarrow> matching_policy_rules i rules' = Inr ms \<and> set ms = {x \<in> set rules. rule_applies i (snd x)} \<and>
        sorted_wrt (<) (map (\<lambda>x. policy_match_specificity (po_match (snd x))) ms)
    | Inl err \<Rightarrow> (\<exists>n keys. matching_policy_rules i rules' = Inl (AmbiguousRules n keys)) \<and>
        (\<exists>n. 1 < length (applying i n rules)))"
proof (cases "matching_policy_rules i rules")
  case (Inr ms)
  then have short: "length (applying i n rules) \<le> 1" for n by (simp add: matching_cases)
  have same: "applying i n rules' = applying i n rules" for n
    by (rule short_same_mset [OF short, symmetric]) (simp add: applying_def assms)
  have "sorted_wrt (<) (map (\<lambda>x. policy_match_specificity (po_match (snd x))) (applying i n rules))"
    and "x \<in> set (applying i n rules) \<Longrightarrow> policy_match_specificity (po_match (snd x)) = n" for n x
    using short [of n] by (cases "applying i n rules"; auto simp: applying_def)+
  with Inr have "sorted_wrt (<) (map (\<lambda>x. policy_match_specificity (po_match (snd x))) ms)"
    by (auto simp: matching_cases sorted_wrt_append)
  moreover have "matching_policy_rules i rules' = Inr ms"
    using Inr same by (simp add: matching_cases)
  ultimately show ?thesis using Inr matching_set [OF Inr] by simp
next
  case (Inl err)
  have "\<exists>n. 1 < length (applying i n rules)"
    using Inl matching_cases [of i rules] by (metis Inl_Inr_False linorder_not_less)
  moreover have "length (applying i n rules') = length (applying i n rules)" for n
    using assms by (metis applying_def mset_filter size_mset)
  ultimately have "matching_policy_rules i rules' \<noteq> Inr ms" for ms
    by (metis linorder_not_less matching_cases)
  then obtain err' where "matching_policy_rules i rules' = Inl err'" by (cases "matching_policy_rules i rules'") auto
  with Inl \<open>\<exists>n. 1 < _\<close> matching_error show ?thesis by fastforce
qed

section \<open>Checked settings\<close>

lemma check_selectors_iff:
  "check_selectors dump seen rules = None \<longleftrightarrow>
     distinct (map (\<lambda>(k, r). dump (po_match r)) rules) \<and>
     set (map (\<lambda>(k, r). dump (po_match r)) rules) \<inter> set seen = {} \<and>
     (\<forall>(k, r) \<in> set rules. \<not> po_disable_outer_timeout r)"
  by (induction dump seen rules rule: check_selectors.induct) (auto simp: image_iff)

lemma valid_settingsD:
  assumes "valid_settings dump s"
  shows "se_grace s < se_max_interactive s" "0 \<le> se_grace s" "0 < se_client_response_grace s"
    "se_client_response_grace s < se_client_execution_grace s"
    "distinct (map (\<lambda>(k, r). dump (po_match r)) (se_policies s))"
    "(k, r) \<in> set (se_policies s) \<Longrightarrow> valid_override r" "(k, r) \<in> set (se_policies s) \<Longrightarrow> \<not> po_disable_outer_timeout r"
  using assms by (auto simp: valid_settings_def valid_fields_def check_tool_execution_limits_def check_selectors_iff
    split: if_splits)

text \<open>Two valid selectors that match one tool at one specificity are the same selector.\<close>

lemma same_selector:
  assumes "valid_match m" "valid_match m'" "rule_matches_identity m i (policy_match_specificity m)"
    "rule_matches_identity m' i (policy_match_specificity m')" "policy_match_specificity m = policy_match_specificity m'"
  shows "m = m'"
  using assms
  by (cases m; cases m')
    (auto simp: valid_match_def Let_def rule_matches_identity_def policy_match_specificity_def specificity_defs
      split: if_splits)

lemma at_most_one: "distinct (map f xs) \<Longrightarrow> (\<And>x. x \<in> set xs \<Longrightarrow> f x = c) \<Longrightarrow> length xs \<le> 1"
  by (cases xs; cases "tl xs") auto

text \<open>
  Settings that were accepted are never ambiguous. Whatever the tool, the matching of its rules succeeds:
  two selectors that match it at one specificity would have the same dump, which the loading of the settings
  refuses.
\<close>

theorem checked_settings_unambiguous:
  assumes "valid_settings dump s" "\<And>m m'. dump m = dump m' \<Longrightarrow> m = m'"
  shows "\<exists>ms. matching_policy_rules i (se_policies s) = Inr ms"
proof -
  have "length (applying i n (se_policies s)) \<le> 1" for n
  proof (cases "applying i n (se_policies s)")
    case (Cons x xs)
    let ?f = "\<lambda>(k, r). dump (po_match r)"
    show ?thesis
    proof (rule at_most_one)
      show "distinct (map ?f (applying i n (se_policies s)))"
        using valid_settingsD(5) [OF assms(1)] by (simp add: applying_def distinct_map_filter)
      fix y
      assume "y \<in> set (applying i n (se_policies s))"
      moreover have "x \<in> set (applying i n (se_policies s))" using Cons by simp
      ultimately show "?f y = ?f x"
        using valid_settingsD(6) [OF assms(1)] same_selector
        by (auto simp: applying_def rule_applies_def valid_override_def intro!: arg_cong [where f = dump])
    qed
  qed simp
  then show ?thesis by (auto simp: matching_cases)
qed

section \<open>Bounds of the layers\<close>

definition effective_ok :: "effective \<Rightarrow> bool" where
  "effective_ok e \<longleftrightarrow> positive (ef_timeout e) \<and> positive (ef_hard_timeout e) \<and> positive (ef_total_timeout e) \<and>
     positive (ef_max_timeout e) \<and> 1 \<le> ef_max_attempts e \<and> ef_max_attempts e \<le> 5"

lemma internal_fields_valid: "trusted_internal_policy_fields read md = Inr p \<Longrightarrow> valid_internal p"
proof (cases "meta_get md ''application_execution_policy''")
  case (MDict d)
  assume "trusted_internal_policy_fields read md = Inr p"
  with MDict show "valid_internal p" by (simp add: trusted_internal_policy_fields_def split: option.splits if_splits)
qed (auto simp: trusted_internal_policy_fields_def valid_internal_def no_internal_fields_def positive_def
    attempts_allowed_def hint_fits_def)

lemma layer_ok:
  assumes "trusted_metadata_layer read i md = Inr (e, b)"
  shows "effective_ok e"
proof (cases "ti_tool_origin i = Internal")
  case True
  with assms obtain p where "trusted_internal_policy_fields read md = Inr p" and
    "ef_timeout e = ip_timeout p" "ef_hard_timeout e = ip_hard_timeout p" "ef_total_timeout e = ip_total_timeout p"
    "ef_max_timeout e = ip_max_timeout p" "ef_max_attempts e = overlay_value (ip_max_attempts p) 1"
    by (auto simp: trusted_metadata_layer_def split: sum.splits)
  with internal_fields_valid [OF this(1)] show ?thesis
    by (auto simp: effective_ok_def valid_internal_def attempts_allowed_def overlay_value_def split: option.splits)
next
  case False
  with assms show ?thesis by (auto simp: trusted_metadata_layer_def effective_ok_def default_fields_def positive_def)
qed

lemma rule_ok: "effective_ok e \<Longrightarrow> valid_override r \<Longrightarrow> effective_ok (apply_deployment_rule r e)"
  by (auto simp: effective_ok_def valid_override_def apply_deployment_rule_def positive_def attempts_allowed_def
    overlay_def overlay_value_def split: option.splits)

lemma rules_ok:
  "effective_ok e \<Longrightarrow> \<forall>(k, r) \<in> set rules. valid_override r \<Longrightarrow>
   effective_ok (fst (apply_deployment_rules rules e exact))"
  by (induction rules e exact rule: apply_deployment_rules.induct) (auto simp: rule_ok)

lemma remote_timeout_positive: "positive (rf_timeout (remote_mcp_trusted_fields md))"
  by (simp add: remote_mcp_trusted_fields_def Let_def positive_def split: meta_value.split)

lemma positive_overlay: "positive x \<Longrightarrow> positive y \<Longrightarrow> positive (overlay (unless_set c x) y)"
  by (auto simp: overlay_def unless_set_def split: option.splits)

lemma remote_ok: "effective_ok e \<Longrightarrow> effective_ok (fst (apply_trusted_remote_fields e exact md))"
  by (simp add: effective_ok_def apply_trusted_remote_fields_def Let_def positive_overlay remote_timeout_positive
    split: option.split)

text \<open>The cap only falls, and the exemption from the outer timeout never comes from a deployment rule.\<close>

definition capped :: "rat \<Rightarrow> effective \<Rightarrow> bool" where
  "capped c e \<longleftrightarrow> (\<exists>c'. ef_max_timeout e = Some c' \<and> c' \<le> c)"

lemma capped_rule: "capped c e \<Longrightarrow> capped c (apply_deployment_rule r e)"
  by (auto simp: capped_def apply_deployment_rule_def split: option.splits)

lemma capped_own: "po_max_timeout r = Some c \<Longrightarrow> capped c (apply_deployment_rule r e)"
  by (auto simp: capped_def apply_deployment_rule_def split: option.splits)

lemma capped_stays: "capped c e \<Longrightarrow> capped c (fst (apply_deployment_rules rules e exact))"
  by (induction rules e exact rule: apply_deployment_rules.induct) (auto simp: capped_rule)

lemma capped_rules:
  "(k, r) \<in> set rules \<Longrightarrow> po_max_timeout r = Some c \<Longrightarrow> capped c (fst (apply_deployment_rules rules e exact))"
  by (induction rules e exact rule: apply_deployment_rules.induct) (auto intro: capped_stays capped_own)

lemma capped_remote: "capped c (fst (apply_trusted_remote_fields e exact md)) = capped c e"
  by (auto simp: capped_def apply_trusted_remote_fields_def Let_def split: option.splits)

lemma effective_fields_ok:
  assumes "valid_settings dump s" "effective_fields read s i md = Inr (e, rules, it, rt)"
  shows "effective_ok e" "matching_policy_rules i (se_policies s) = Inr rules"
    "\<And>k r c. (k, r) \<in> set (se_policies s) \<Longrightarrow> rule_applies i r \<Longrightarrow> po_max_timeout r = Some c \<Longrightarrow> capped c e"
proof -
  from assms(2) obtain e0 where e0: "trusted_metadata_layer read i md = Inr (e0, it)"
    and m: "matching_policy_rules i (se_policies s) = Inr rules"
    and e: "e = fst (apply_trusted_remote_fields (fst (apply_deployment_rules rules e0 None))
      (snd (apply_deployment_rules rules e0 None)) md)"
    by (auto simp: effective_fields_def split: sum.splits prod.splits)
  note set = matching_set [OF m]
  show "matching_policy_rules i (se_policies s) = Inr rules" by (fact m)
  have "\<forall>(k, r) \<in> set rules. valid_override r" using set valid_settingsD(6) [OF assms(1)] by auto
  then show "effective_ok e" unfolding e by (intro remote_ok rules_ok layer_ok [OF e0])
  fix k r c
  assume "(k, r) \<in> set (se_policies s)" "rule_applies i r" "po_max_timeout r = Some c"
  with set show "capped c e" unfolding e capped_remote by (intro capped_rules) auto
qed

lemma timeouts_ordered:
  assumes "resolve_timeouts s e = Inr (soft, hard, whole)" "effective_ok e" "0 \<le> se_timeout s" "0 \<le> se_grace s"
  shows "0 < soft" "se_grace s \<le> hard - soft" "hard \<le> whole" "whole \<le> se_max_interactive s"
    "capped c e \<Longrightarrow> whole \<le> c"
proof -
  define soft0 where "soft0 = overlay_value (ef_timeout e) (default_timeout s)"
  define hard0 where "hard0 = overlay_value (ef_hard_timeout e) (soft0 + se_grace s)"
  define whole0 where "whole0 = overlay_value (ef_total_timeout e) hard0"
  define cap where "cap = (case ef_max_timeout e of None \<Rightarrow> se_max_interactive s | Some c \<Rightarrow> min (se_max_interactive s) c)"
  have 0: "0 < soft0"
    using assms(2,3) by (auto simp: soft0_def effective_ok_def positive_def default_timeout_def overlay_value_def split: option.splits)
  have cap: "cap \<le> se_max_interactive s" "capped c e \<Longrightarrow> cap \<le> c"
    by (auto simp: cap_def capped_def split: option.splits)
  have "resolve_timeouts s e =
    (if cap \<le> se_grace s then Inl CapBelowGrace
     else if min hard0 (min whole0 cap) \<le> se_grace s then Inl HardBelowGrace
     else Inr (if min hard0 (min whole0 cap) \<le> soft0 \<or> min hard0 (min whole0 cap) - soft0 < se_grace s
        then min hard0 (min whole0 cap) - se_grace s else soft0, min hard0 (min whole0 cap), min whole0 cap))"
    unfolding resolve_timeouts_def Let_def soft0_def hard0_def whole0_def cap_def ..
  then have r: "se_grace s < hard" "hard = min hard0 (min whole0 cap)" "whole = min whole0 cap"
    "soft = (if hard \<le> soft0 \<or> hard - soft0 < se_grace s then hard - se_grace s else soft0)"
    using assms(1) by (simp_all add: min_le_iff_disj split: if_splits)
  from r(1,4) 0 show "0 < soft" by simp
  from r(4) show "se_grace s \<le> hard - soft" by simp
  from r(2,3) show "hard \<le> whole" by (simp add: min.coboundedI2)
  from r(3) have "whole \<le> cap" by simp
  with cap(1) show "whole \<le> se_max_interactive s" by linarith
  assume "capped c e"
  with cap(2) \<open>whole \<le> cap\<close> show "whole \<le> c" by fastforce
qed

section \<open>What a policy guarantees\<close>

lemma safety_caps_ok:
  "check_safety_caps e i trusted = None \<Longrightarrow>
   \<not> ef_disable_outer_timeout e \<and> (1 < ef_max_attempts e \<longrightarrow> ef_retry_safe e \<or> ef_idempotent e)"
  by (auto simp: check_safety_caps_def DISABLE_OUTER_TIMEOUT_ALLOWLIST_def split: if_splits)

lemma resolvedE:
  assumes "resolve_tool_execution_policy show read s tool name kind = Inr p"
  obtains i e rules it rt deadlines where "resolve_tool_identity show tool name = Inr i"
    "effective_fields read s i (tool_metadata tool) = Inr (e, rules, it, rt)"
    "check_safety_caps e i it = None"
    "resolve_timeouts s e = Inr (ep_timeout p, ep_hard_timeout p, ep_total_timeout p)"
    "client_deadlines s i (ep_timeout p) = Inr (ep_client_deadlines p)"
    "ep_identity p = i" "ep_max_attempts p = ef_max_attempts e" "ep_retry_safe p = ef_retry_safe e"
    "ep_idempotent p = ef_idempotent e" "ep_outer_timeout_disabled p = ef_disable_outer_timeout e"
    "ep_cancellation p = cancellation_for kind" "ep_config_keys p = map fst rules"
  using assms
  by (auto simp: resolve_tool_execution_policy_def split: if_splits sum.splits option.splits prod.splits)

lemma resolved_bounds:
  assumes "valid_settings dump s" "resolve_tool_execution_policy show read s tool name kind = Inr p"
  shows "0 \<le> se_timeout s \<Longrightarrow> 0 < ep_timeout p \<and> ep_timeout p + se_grace s \<le> ep_hard_timeout p \<and>
      ep_hard_timeout p \<le> ep_total_timeout p \<and> ep_total_timeout p \<le> se_max_interactive s"
    "\<not> ep_outer_timeout_disabled p" "1 \<le> ep_max_attempts p" "ep_max_attempts p \<le> 5"
    "1 < ep_max_attempts p \<Longrightarrow> ep_retry_safe p \<or> ep_idempotent p"
proof -
  from assms(2) obtain i e rules it rt where p: "effective_fields read s i (tool_metadata tool) = Inr (e, rules, it, rt)"
    "check_safety_caps e i it = None" "resolve_timeouts s e = Inr (ep_timeout p, ep_hard_timeout p, ep_total_timeout p)"
    "ep_max_attempts p = ef_max_attempts e" "ep_retry_safe p = ef_retry_safe e" "ep_idempotent p = ef_idempotent e"
    "ep_outer_timeout_disabled p = ef_disable_outer_timeout e" by (rule resolvedE)
  note ok = effective_fields_ok(1) [OF assms(1) p(1)]
  show "0 < ep_timeout p \<and> ep_timeout p + se_grace s \<le> ep_hard_timeout p \<and>
      ep_hard_timeout p \<le> ep_total_timeout p \<and> ep_total_timeout p \<le> se_max_interactive s" if "0 \<le> se_timeout s"
    using timeouts_ordered(1-4) [OF p(3) ok that valid_settingsD(2) [OF assms(1)]] by (simp add: le_diff_eq algebra_simps)
  show "\<not> ep_outer_timeout_disabled p" "1 \<le> ep_max_attempts p" "ep_max_attempts p \<le> 5"
    "1 < ep_max_attempts p \<Longrightarrow> ep_retry_safe p \<or> ep_idempotent p"
    using ok safety_caps_ok [OF p(2)] p(4-7) by (simp_all add: effective_ok_def)
qed

text \<open>
  C26: every deadline of a resolved policy is inside the next: a positive soft one, the grace, the hard one, the
  total, and that under the global cap and under the cap of every deployment rule that applies, however broad
  the rule; for a tool of a client, execution before response before the soft deadline. The outer timeout is
  never switched off, and more than one attempt, at most five, needs a tool marked safe to repeat or idempotent.
\<close>

theorem policy_deadlines_ordered:
  assumes "valid_settings dump s" "0 \<le> se_timeout s"
    "resolve_tool_execution_policy show read s tool name kind = Inr p"
  shows "0 < ep_timeout p \<and> ep_timeout p + se_grace s \<le> ep_hard_timeout p \<and>
    ep_hard_timeout p \<le> ep_total_timeout p \<and> ep_total_timeout p \<le> se_max_interactive s \<and>
    (\<forall>(k, r) \<in> set (se_policies s). rule_applies (ep_identity p) r \<longrightarrow>
      (case po_max_timeout r of None \<Rightarrow> True | Some c \<Rightarrow> ep_total_timeout p \<le> c)) \<and>
    (case ep_client_deadlines p of
       None \<Rightarrow> \<not> client_origin (ti_tool_origin (ep_identity p))
     | Some (execution, response) \<Rightarrow> 0 < execution \<and> execution < response \<and> response < ep_timeout p) \<and>
    \<not> ep_outer_timeout_disabled p \<and> 1 \<le> ep_max_attempts p \<and> ep_max_attempts p \<le> 5 \<and>
    (1 < ep_max_attempts p \<longrightarrow> ep_retry_safe p \<or> ep_idempotent p)"
proof -
  from assms(3) obtain i e rules it rt where p: "effective_fields read s i (tool_metadata tool) = Inr (e, rules, it, rt)"
    "resolve_timeouts s e = Inr (ep_timeout p, ep_hard_timeout p, ep_total_timeout p)"
    "client_deadlines s i (ep_timeout p) = Inr (ep_client_deadlines p)" "ep_identity p = i" by (rule resolvedE)
  note ok = effective_fields_ok [OF assms(1) p(1)]
  have "case po_max_timeout r of None \<Rightarrow> True | Some c \<Rightarrow> ep_total_timeout p \<le> c"
    if "(k, r) \<in> set (se_policies s)" "rule_applies (ep_identity p) r" for k r
    using ok(3) [OF that(1)] that(2) timeouts_ordered(5) [OF p(2) ok(1) assms(2) valid_settingsD(2) [OF assms(1)]] p(4)
    by (simp split: option.split)
  moreover have "case ep_client_deadlines p of
       None \<Rightarrow> \<not> client_origin (ti_tool_origin (ep_identity p))
     | Some (execution, response) \<Rightarrow> 0 < execution \<and> execution < response \<and> response < ep_timeout p"
    using p(3,4) by (cases "ep_client_deadlines p") (auto simp: client_deadlines_def Let_def split: if_splits)
  ultimately show ?thesis using resolved_bounds [OF assms(1,3)] assms(2) by auto
qed

text \<open>What remote metadata can reach.\<close>

lemma resolved_remoteE:
  assumes "resolve_tool_execution_policy show read s tool name kind = Inr p" "resolve_tool_identity show tool name = Inr i"
  obtains e rules it rt where "effective_fields read s i (tool_metadata tool) = Inr (e, rules, it, rt)"
    "ep_max_attempts p = ef_max_attempts e" "ep_outer_timeout_disabled p = ef_disable_outer_timeout e"
    "ep_cancellation p = cancellation_for kind" "ep_identity p = i" "ep_config_keys p = map fst rules"
proof -
  from assms(1) obtain j e rules it rt where p: "resolve_tool_identity show tool name = Inr j"
    "effective_fields read s j (tool_metadata tool) = Inr (e, rules, it, rt)"
    "ep_max_attempts p = ef_max_attempts e" "ep_outer_timeout_disabled p = ef_disable_outer_timeout e"
    "ep_cancellation p = cancellation_for kind" "ep_identity p = j" "ep_config_keys p = map fst rules" by (rule resolvedE)
  from p(1) assms(2) have "j = i" by simp
  from that [OF p(2-7) [unfolded this]] show thesis .
qed

definition hard_fields :: "effective \<Rightarrow> rat option \<times> rat option \<times> rat option \<times> int \<times> bool" where
  "hard_fields e =
     (ef_hard_timeout e, ef_total_timeout e, ef_max_timeout e, ef_max_attempts e, ef_disable_outer_timeout e)"

lemma hard_fields_remote: "hard_fields (fst (apply_trusted_remote_fields e exact md)) = hard_fields e"
  by (auto simp: hard_fields_def apply_trusted_remote_fields_def Let_def split: option.splits)

lemma untrusted_exact:
  "(\<forall>(k, r) \<in> set rules. \<not> po_trust_mcp_metadata r) \<Longrightarrow> (case exact of None \<Rightarrow> True | Some r \<Rightarrow> \<not> po_trust_mcp_metadata r) \<Longrightarrow>
   apply_trusted_remote_fields (fst (apply_deployment_rules rules e exact)) (snd (apply_deployment_rules rules e exact)) md =
     (fst (apply_deployment_rules rules e exact), False)"
  by (induction rules e exact rule: apply_deployment_rules.induct)
    (auto simp: apply_trusted_remote_fields_def Let_def split: option.splits)

lemma remote_effective_fields:
  assumes "ti_tool_origin i \<noteq> Internal"
  shows "case effective_fields read s i md of
      Inl err \<Rightarrow> effective_fields read s i md' = Inl err
    | Inr (e, rules, it, rt) \<Rightarrow> \<exists>e' rt'. effective_fields read s i md' = Inr (e', rules, it, rt') \<and> hard_fields e' = hard_fields e"
proof (cases "matching_policy_rules i (se_policies s)")
  case (Inr rules)
  let ?d = "apply_deployment_rules rules default_fields None"
  have "effective_fields read s i m = Inr (fst (apply_trusted_remote_fields (fst ?d) (snd ?d) m), rules, False,
      snd (apply_trusted_remote_fields (fst ?d) (snd ?d) m))" for m
    using assms Inr by (simp add: effective_fields_def trusted_metadata_layer_def case_prod_beta Let_def)
  then show ?thesis by (simp add: hard_fields_remote)
qed (use assms in \<open>simp add: effective_fields_def trusted_metadata_layer_def\<close>)

text \<open>
  C27: the metadata of a remote tool is not believed. For a tool that is not internal, two tools of the same
  identity get the same policy or the same refusal whatever else their metadata says, unless an exact rule of the
  deployment trusts it; and even then it changes neither the number of attempts, nor the outer timeout, nor
  how a call is cancelled.
\<close>

theorem remote_metadata_untrusted:
  assumes "resolve_tool_identity show tool name = Inr i" "resolve_tool_identity show tool' name = Inr i"
    "ti_tool_origin i \<noteq> Internal"
  shows "((\<forall>(k, r) \<in> set (se_policies s). rule_applies i r \<longrightarrow> \<not> po_trust_mcp_metadata r) \<longrightarrow>
      resolve_tool_execution_policy show read s tool name kind = resolve_tool_execution_policy show read s tool' name kind) \<and>
    (case (resolve_tool_execution_policy show read s tool name kind, resolve_tool_execution_policy show read s tool' name kind) of
      (Inr p, Inr p') \<Rightarrow> ep_max_attempts p = ep_max_attempts p' \<and>
        ep_outer_timeout_disabled p = ep_outer_timeout_disabled p' \<and> ep_cancellation p = ep_cancellation p' \<and>
        ep_identity p = ep_identity p' \<and> ep_config_keys p = ep_config_keys p'
    | _ \<Rightarrow> True)"
proof -
  have same: "effective_fields read s i m = effective_fields read s i m'"
    if untrusted: "\<forall>(k, r) \<in> set (se_policies s). rule_applies i r \<longrightarrow> \<not> po_trust_mcp_metadata r" for m m'
  proof (cases "matching_policy_rules i (se_policies s)")
    case (Inr rules)
    then have "\<forall>(k, r) \<in> set rules. \<not> po_trust_mcp_metadata r"
      using untrusted matching_set [OF Inr] by auto
    note untrusted_exact [OF this, where e = default_fields and exact = None]
    then show ?thesis using assms(3) Inr
      by (simp add: effective_fields_def trusted_metadata_layer_def case_prod_beta Let_def)
  qed (use assms(3) in \<open>simp add: effective_fields_def trusted_metadata_layer_def\<close>)
  have plain: "resolve_tool_execution_policy show read s tool name kind = resolve_tool_execution_policy show read s tool' name kind"
    if "\<forall>(k, r) \<in> set (se_policies s). rule_applies i r \<longrightarrow> \<not> po_trust_mcp_metadata r"
    using same [OF that, of "tool_metadata tool" "tool_metadata tool'"] assms(1,2)
    by (simp add: resolve_tool_execution_policy_def)
  have agree: "ep_max_attempts p = ep_max_attempts p' \<and> ep_outer_timeout_disabled p = ep_outer_timeout_disabled p' \<and>
      ep_cancellation p = ep_cancellation p' \<and> ep_identity p = ep_identity p' \<and> ep_config_keys p = ep_config_keys p'"
    if p: "resolve_tool_execution_policy show read s tool name kind = Inr p"
      and p': "resolve_tool_execution_policy show read s tool' name kind = Inr p'" for p p'
  proof -
    obtain e rules it rt where 1: "effective_fields read s i (tool_metadata tool) = Inr (e, rules, it, rt)"
      "ep_max_attempts p = ef_max_attempts e" "ep_outer_timeout_disabled p = ef_disable_outer_timeout e"
      "ep_cancellation p = cancellation_for kind" "ep_identity p = i" "ep_config_keys p = map fst rules"
      by (rule resolved_remoteE [OF p assms(1)])
    obtain e' rules' it' rt' where 2: "effective_fields read s i (tool_metadata tool') = Inr (e', rules', it', rt')"
      "ep_max_attempts p' = ef_max_attempts e'" "ep_outer_timeout_disabled p' = ef_disable_outer_timeout e'"
      "ep_cancellation p' = cancellation_for kind" "ep_identity p' = i" "ep_config_keys p' = map fst rules'"
      by (rule resolved_remoteE [OF p' assms(2)])
    have "hard_fields e' = hard_fields e \<and> rules' = rules"
      using remote_effective_fields [OF assms(3), of read s "tool_metadata tool" "tool_metadata tool'"] 1(1) 2(1) by simp
    with 1 2 show ?thesis by (simp add: hard_fields_def)
  qed
  show ?thesis
  proof (intro conjI impI)
    show "case (resolve_tool_execution_policy show read s tool name kind, resolve_tool_execution_policy show read s tool' name kind) of
      (Inr p, Inr p') \<Rightarrow> ep_max_attempts p = ep_max_attempts p' \<and>
        ep_outer_timeout_disabled p = ep_outer_timeout_disabled p' \<and> ep_cancellation p = ep_cancellation p' \<and>
        ep_identity p = ep_identity p' \<and> ep_config_keys p = ep_config_keys p'
      | _ \<Rightarrow> True"
    proof (cases "resolve_tool_execution_policy show read s tool name kind")
      case (Inr p)
      note p = this
      show ?thesis
      proof (cases "resolve_tool_execution_policy show read s tool' name kind")
        case (Inr p')
        show ?thesis unfolding p Inr prod.case sum.case by (rule agree [OF p Inr])
      qed (simp add: p)
    qed simp
  qed (rule plain)
qed

section \<open>Examples\<close>

definition demo_match :: policy_match where
  "demo_match = \<lparr>pm_tool_origin = ClientMcp, pm_qualified_tool_id = None, pm_server_name = None,
     pm_source_tool_name = None, pm_exposed_tool_name = None\<rparr>"

definition demo_rule :: "policy_match \<Rightarrow> policy_override" where
  "demo_rule m = \<lparr>po_match = m, po_timeout = None, po_hard_timeout = None, po_total_timeout = None,
     po_max_timeout = None, po_max_attempts = None, po_retry_safe = None, po_idempotent = None,
     po_trust_mcp_metadata = False, po_disable_outer_timeout = False, po_timeout_hint = None\<rparr>"

text \<open>A broad cap of a minute, and a rule for one tool that asks for three minutes and three attempts.\<close>

definition demo_rules :: policy_rules where
  "demo_rules =
     [(''device tools'', (demo_rule demo_match)\<lparr>po_max_timeout := Some 60\<rparr>),
      (''notes'', (demo_rule (demo_match\<lparr>pm_qualified_tool_id := Some ''dev::notes''\<rparr>))
         \<lparr>po_timeout := Some 180, po_max_attempts := Some 3, po_idempotent := Some True\<rparr>)]"

definition demo_execution_settings :: policy_settings where
  "demo_execution_settings = \<lparr>se_timeout = 30, se_policies = demo_rules, se_max_interactive = 120, se_grace = 2,
     se_client_execution_grace = 2, se_client_response_grace = 1\<rparr>"

definition demo_tool :: "metadata \<Rightarrow> bound_tool" where
  "demo_tool md =
     \<lparr>bt_metadata = Some ([(''tool_origin'', MStr ''client_mcp''), (''qualified_tool_id'', MStr ''dev::notes'')] @ md),
      bt_name = ''client__notes''\<rparr>"

definition demo_identity :: tool_identity where
  "demo_identity = \<lparr>ti_tool_origin = ClientMcp, ti_qualified_tool_id = ''dev::notes'',
     ti_exposed_tool_name = ''client__notes'', ti_source_tool_name = ''client__notes'', ti_server_name = None\<rparr>"

definition demo_policy :: execution_policy where
  "demo_policy = \<lparr>ep_identity = demo_identity, ep_timeout = 58, ep_hard_timeout = 60, ep_total_timeout = 60,
     ep_max_attempts = 3, ep_retry_safe = False, ep_idempotent = True, ep_metadata_trusted = False,
     ep_outer_timeout_disabled = False, ep_cancellation = AbandonOnly, ep_client_deadlines = Some (56, 57),
     ep_policy_source = SourceConfig, ep_config_keys = [''device tools'', ''notes''], ep_timeout_hint = []\<rparr>"

abbreviation no_show :: "meta_value \<Rightarrow> string" where "no_show \<equiv> \<lambda>v. []"

abbreviation no_reader :: "metadata \<Rightarrow> internal_policy option" where "no_reader \<equiv> \<lambda>d. None"

lemma demo_execution_settings_valid: "valid_settings id demo_execution_settings"
  by code_simp

lemma demo_resolves:
  "resolve_tool_execution_policy no_show no_reader demo_execution_settings (demo_tool []) ''client__notes'' ''client_runtime'' = Inr demo_policy"
  by code_simp

theorem matching_ignores_order_witness:
  "matching_policy_rules demo_identity (rev demo_rules) = Inr demo_rules"
proof -
  have 1: "matching_policy_rules demo_identity demo_rules = Inr demo_rules" by code_simp
  show ?thesis using matching_ignores_order [of demo_rules "rev demo_rules" demo_identity] unfolding 1 by simp
qed

theorem checked_settings_unambiguous_witness:
  "\<exists>ms. matching_policy_rules demo_identity (se_policies demo_execution_settings) = Inr ms"
  by (rule checked_settings_unambiguous [OF demo_execution_settings_valid]) simp

theorem policy_deadlines_ordered_witness:
  "0 < ep_timeout demo_policy \<and> ep_timeout demo_policy + 2 \<le> ep_hard_timeout demo_policy \<and> ep_total_timeout demo_policy \<le> 120"
  using policy_deadlines_ordered [OF demo_execution_settings_valid _ demo_resolves] by (simp add: demo_execution_settings_def)

text \<open>A tool that declares itself quick, safe and exempt gets the same policy.\<close>

theorem remote_metadata_untrusted_witness:
  "resolve_tool_execution_policy no_show no_reader demo_execution_settings
     (demo_tool [(''idempotentHint'', MBool True), (''_meta'', MDict [(''retry_safe'', MBool True), (''disable_outer_timeout'', MBool True)])])
     ''client__notes'' ''client_runtime'' = Inr demo_policy"
proof -
  let ?tool = "demo_tool [(''idempotentHint'', MBool True), (''_meta'', MDict [(''retry_safe'', MBool True), (''disable_outer_timeout'', MBool True)])]"
  have 1: "resolve_tool_identity no_show (demo_tool []) ''client__notes'' = Inr demo_identity" by code_simp
  have 2: "resolve_tool_identity no_show ?tool ''client__notes'' = Inr demo_identity" by code_simp
  have 3: "ti_tool_origin demo_identity \<noteq> Internal" by (simp add: demo_identity_def)
  have "\<forall>(k, r) \<in> set (se_policies demo_execution_settings). rule_applies demo_identity r \<longrightarrow> \<not> po_trust_mcp_metadata r"
    by (simp add: demo_execution_settings_def demo_rules_def demo_rule_def)
  with remote_metadata_untrusted [OF 1 2 3, of demo_execution_settings no_reader "''client_runtime''"] demo_resolves
  show ?thesis by simp
qed

end
