(* ===== verification/ToolApproval.thy ===== *)
theory ToolApproval
  imports ToolPolicy
begin

text \<open>
  Which tool calls a human decides on, \<^verbatim>\<open>ai/hitl_config.py\<close>, \<^verbatim>\<open>apply_hitl_decisions\<close> and
  \<^verbatim>\<open>address_decisions_to_interrupts\<close> of \<^verbatim>\<open>ai/utils.py\<close>, and the two hooks of
  \<^verbatim>\<open>ai/workflow/middleware.py\<close> that run between the model and its tools: the scope of a worker and the approval.
  A field of a tool's metadata that is no text reads as missing. The lookup of a server and the text of a
  rejection are arguments; the tool node runs the calls of the last message that have no result yet.
\<close>

section \<open>The policy\<close>

record origin_rules =
  or_servers :: "(string, bool) dict"
  or_tools :: "(string, bool) dict"

record approval_policy =
  ap_master_enabled :: bool
  ap_client_rules :: "(string, origin_rules) dict"
  ap_global_tools :: "string list"

definition CLIENT_POLICY_ORIGINS :: "string list" where
  "CLIENT_POLICY_ORIGINS = [''client_mcp'', ''client_skill'']"

definition CLIENT_TOOL_PREFIX :: string where
  "CLIENT_TOOL_PREFIX = ''client__''"

record call_identity =
  ci_name :: string
  ci_server_name :: "string option"
  ci_qualified_tool_id :: "string option"
  ci_origin :: string
  ci_mutation :: bool

type_synonym tool_map = "(string, bound_tool) dict"

definition meta_str :: "metadata \<Rightarrow> string \<Rightarrow> string option" where
  "meta_str md k = (case meta_get md k of MStr s \<Rightarrow> Some s | _ \<Rightarrow> None)"

text \<open>\<^verbatim>\<open>a or b\<close> of optional texts, and \<^verbatim>\<open>s.partition("__")\<close>.\<close>

definition or_str :: "string option \<Rightarrow> string option \<Rightarrow> string option" where
  "or_str a b = (if truthy_str a then a else b)"

definition nonempty_str :: "string \<Rightarrow> string option" where
  "nonempty_str s = (if s = [] then None else Some s)"

fun partition_dunder :: "string \<Rightarrow> string \<times> string" where
  "partition_dunder (a # b # s) =
     (if a = CHR ''_'' \<and> b = CHR ''_'' then ([], s)
      else case partition_dunder (b # s) of (h, t) \<Rightarrow> (a # h, t))"
| "partition_dunder s = (s, [])"

definition qualify :: "string option \<Rightarrow> string \<Rightarrow> string option" where
  "qualify server base =
     (case server of Some v \<Rightarrow> if v \<noteq> [] \<and> base \<noteq> [] then Some (v @ ''::'' @ base) else None | None \<Rightarrow> None)"

definition resolve_call_identity :: "(bound_tool \<Rightarrow> string option) option \<Rightarrow> tool_map \<Rightarrow> string \<Rightarrow> call_identity" where
  "resolve_call_identity manager tools name =
     (let tool = (if name = [] then None else map_of tools name);
          md = (case tool of None \<Rightarrow> [] | Some t \<Rightarrow> tool_metadata t);
          server0 = meta_str md ''server_name''; qualified0 = meta_str md ''qualified_tool_id'';
          origin0 = meta_str md ''tool_origin''; mutation = meta_truthy (meta_get md ''mutation'')
      in if prefix CLIENT_TOOL_PREFIX name then
           (let (parsed, base) = partition_dunder (drop (length CLIENT_TOOL_PREFIX) name);
                server = or_str server0 (nonempty_str parsed)
            in \<lparr>ci_name = name, ci_server_name = server,
                ci_qualified_tool_id = (if truthy_str qualified0 then qualified0
                  else or_str (qualify server base) qualified0),
                ci_origin = (case or_str origin0 (Some ''client_mcp'') of Some v \<Rightarrow> v | None \<Rightarrow> []), ci_mutation = mutation\<rparr>)
         else
           (let aliased = meta_str md ''aliased_from_tool_name'';
                server1 = (if server0 = None \<and> truthy_str aliased \<and> occurs_in ''__'' name
                  then nonempty_str (fst (partition_dunder name)) else server0);
                server = (if server1 = None then
                    (case (tool, manager) of (Some t, Some m) \<Rightarrow> m t | _ \<Rightarrow> None) else server1);
                base = (case aliased of Some a \<Rightarrow> if a = [] then name else a | None \<Rightarrow> name)
            in \<lparr>ci_name = name, ci_server_name = server,
                ci_qualified_tool_id = (if truthy_str qualified0 then qualified0 else or_str (qualify server base) qualified0),
                ci_origin = (if truthy_str origin0 then (case origin0 of Some v \<Rightarrow> v | None \<Rightarrow> [])
                  else if truthy_str server then ''server_mcp'' else ''internal''),
                ci_mutation = mutation\<rparr>))"

text \<open>The rule of the origin that decides, if one does: the qualified tool, the name, the server.\<close>

definition no_rules :: origin_rules where
  "no_rules = \<lparr>or_servers = [], or_tools = []\<rparr>"

definition lookup_rule :: "string option \<Rightarrow> (string, bool) dict \<Rightarrow> bool option" where
  "lookup_rule key rules = (if truthy_str key then (case key of Some k \<Rightarrow> map_of rules k | None \<Rightarrow> None) else None)"

definition client_rule :: "call_identity \<Rightarrow> approval_policy \<Rightarrow> bool option" where
  "client_rule i p =
     (if ci_origin i \<notin> set CLIENT_POLICY_ORIGINS then None
      else (let rules = (case map_of (ap_client_rules p) (ci_origin i) of Some r \<Rightarrow> r | None \<Rightarrow> no_rules)
            in case lookup_rule (ci_qualified_tool_id i) (or_tools rules) of
                 Some b \<Rightarrow> Some b
               | None \<Rightarrow>
                   (case map_of (or_tools rules) (ci_name i) of
                      Some b \<Rightarrow> Some b
                    | None \<Rightarrow> lookup_rule (ci_server_name i) (or_servers rules))))"

definition identity_requires_approval :: "call_identity \<Rightarrow> approval_policy \<Rightarrow> bool" where
  "identity_requires_approval i p =
     (if \<not> ap_master_enabled p then False
      else case client_rule i p of
        Some b \<Rightarrow> b
      | None \<Rightarrow> if ci_name i \<noteq> [] \<and> ci_name i \<in> set (ap_global_tools p) then True else ci_mutation i)"

record model_call =
  mc_id :: string
  mc_name :: string
  mc_args :: meta_value

definition call_requires_approval ::
  "approval_policy \<Rightarrow> (bound_tool \<Rightarrow> string option) option \<Rightarrow> tool_map \<Rightarrow> model_call \<Rightarrow> bool" where
  "call_requires_approval p manager tools c =
     identity_requires_approval (resolve_call_identity manager tools (mc_name c)) p"

definition calls_requiring_approval ::
  "approval_policy \<Rightarrow> (bound_tool \<Rightarrow> string option) option \<Rightarrow> tool_map \<Rightarrow> model_call list \<Rightarrow> string list" where
  "calls_requiring_approval p manager tools calls =
     (if \<not> ap_master_enabled p then []
      else map mc_id (filter (\<lambda>c. call_requires_approval p manager tools c \<and> mc_id c \<noteq> []) calls))"

section \<open>What a human is shown\<close>

definition SENSITIVE_ARG_KEY_MARKERS :: "string list" where
  "SENSITIVE_ARG_KEY_MARKERS =
     [''secret'', ''token'', ''password'', ''passwd'', ''api_key'', ''apikey'', ''credential'', ''authorization'', ''access_key'']"

definition sensitive_key :: "string \<Rightarrow> bool" where
  "sensitive_key k = list_ex (\<lambda>m. occurs_in m (lower k)) SENSITIVE_ARG_KEY_MARKERS"

definition REDACTED_ARG_PLACEHOLDER :: string where
  "REDACTED_ARG_PLACEHOLDER = ''<redacted>''"

fun redact :: "meta_value \<Rightarrow> meta_value" where
  "redact (MDict d) = MDict (map (\<lambda>(k, v). (k, if sensitive_key k then MStr REDACTED_ARG_PLACEHOLDER else redact v)) d)"
| "redact (MList xs) = MList (map redact xs)"
| "redact v = v"

definition redact_sensitive_args :: "meta_value \<Rightarrow> meta_value" where
  "redact_sensitive_args v = (case v of MDict d \<Rightarrow> redact v | _ \<Rightarrow> MDict [])"

definition PROVENANCE_FIELDS :: "string list" where
  "PROVENANCE_FIELDS =
     [''tool_origin'', ''server_name'', ''qualified_tool_id'', ''tool_instance_id'', ''session_id'', ''catalog_version'']"

definition shown_request :: "model_call \<Rightarrow> model_call" where
  "shown_request c = (case mc_args c of MDict d \<Rightarrow> c\<lparr>mc_args := redact_sensitive_args (mc_args c)\<rparr> | _ \<Rightarrow> c)"

definition provenance_entry :: "tool_map \<Rightarrow> string option \<Rightarrow> model_call \<Rightarrow> metadata" where
  "provenance_entry tools device c =
     (let base = (case device of Some v \<Rightarrow> if v = [] then [] else [(''device_id'', MStr v)] | None \<Rightarrow> []);
          md = (case (if mc_name c = [] then None else map_of tools (mc_name c)) of None \<Rightarrow> [] | Some t \<Rightarrow> tool_metadata t)
      in base @ map (\<lambda>f. (f, meta_get md f)) (filter (\<lambda>f. meta_get md f \<notin> {MNull, MStr []}) PROVENANCE_FIELDS))"

record interrupt_payload =
  pl_action_requests :: "model_call list"
  pl_device_id :: "string option"
  pl_tool_provenance :: "(string, metadata) dict"

fun add_provenance :: "tool_map \<Rightarrow> string option \<Rightarrow> model_call list \<Rightarrow> (string, metadata) dict \<Rightarrow> (string, metadata) dict" where
  "add_provenance tools device [] acc = acc"
| "add_provenance tools device (c # cs) acc =
     (let entry = provenance_entry tools device c;
          key = (if mc_id c \<noteq> [] then mc_id c else if mc_name c \<noteq> [] then mc_name c else nat_text (length acc))
      in add_provenance tools device cs (if entry = [] then acc else AList.update key entry acc))"

definition build_tool_interrupt_payload :: "tool_map \<Rightarrow> string option \<Rightarrow> model_call list \<Rightarrow> interrupt_payload" where
  "build_tool_interrupt_payload tools device calls =
     \<lparr>pl_action_requests = map shown_request calls,
      pl_device_id = (if truthy_str device then device else None),
      pl_tool_provenance = add_provenance tools device calls []\<rparr>"

section \<open>Decisions\<close>

text \<open>A decision is a JSON value; \<open>show\<close> is \<^verbatim>\<open>str\<close> of a value that is no text.\<close>

definition resolve_interrupt_decision_id :: "(meta_value \<Rightarrow> string) \<Rightarrow> meta_value \<Rightarrow> string option" where
  "resolve_interrupt_decision_id show d =
     (case d of
        MDict f \<Rightarrow>
          map_option (\<lambda>k. meta_text show (meta_get f k))
            (find (\<lambda>k. meta_get f k \<notin> {MNull, MStr []}) [''tool_call_id'', ''toolCallId'', ''task_id'', ''taskId''])
      | _ \<Rightarrow> None)"

definition decision_of :: "(meta_value \<Rightarrow> string) \<Rightarrow> meta_value list \<Rightarrow> string \<Rightarrow> meta_value option" where
  "decision_of show decisions call_id =
     find (\<lambda>d. truthy_str (resolve_interrupt_decision_id show d) \<and> resolve_interrupt_decision_id show d = Some call_id)
       (rev decisions)"

datatype decision_kind = Approve | Edit | Respond | Reject

definition decision_kind_of :: "meta_value option \<Rightarrow> decision_kind" where
  "decision_kind_of d =
     (case d of
        Some (MDict f) \<Rightarrow>
          (case map_of f ''type'' of
             Some (MStr s) \<Rightarrow>
               if s = ''approve'' then Approve else if s = ''edit'' then Edit else if s = ''respond'' then Respond else Reject
           | _ \<Rightarrow> Reject)
      | _ \<Rightarrow> Reject)"

definition fields_of :: "meta_value option \<Rightarrow> metadata" where
  "fields_of d = (case d of Some (MDict f) \<Rightarrow> f | _ \<Rightarrow> [])"

definition response_text :: "(meta_value \<Rightarrow> string) \<Rightarrow> meta_value option \<Rightarrow> string" where
  "response_text show d =
     (let f = fields_of d; args = (case meta_get f ''args'' of MDict a \<Rightarrow> a | _ \<Rightarrow> []);
          texts = filter meta_truthy [meta_get args ''response'', meta_get args ''message'', meta_get f ''response'', meta_get f ''message''];
          text = py_strip (case texts of [] \<Rightarrow> [] | v # _ \<Rightarrow> meta_text show v)
      in if text = [] then ''The human responded without additional text.'' else text)"

text \<open>
  The approved calls and the feedback of the others; \<open>None\<close> is the \<^verbatim>\<open>ValueError\<close> for a call without a
  decision when there are decisions.
\<close>

fun apply_hitl_decisions ::
  "(meta_value \<Rightarrow> string) \<Rightarrow> (model_call \<Rightarrow> meta_value option \<Rightarrow> string) \<Rightarrow> meta_value list \<Rightarrow> model_call list
     \<Rightarrow> (model_call list \<times> (string, string) dict) option" where
  "apply_hitl_decisions show feedback decisions [] = Some ([], [])"
| "apply_hitl_decisions show feedback decisions (c # cs) =
     (let d = decision_of show decisions (mc_id c)
      in if d = None \<and> list_ex meta_truthy decisions then None
         else case apply_hitl_decisions show feedback decisions cs of
           None \<Rightarrow> None
         | Some (approved, rejected) \<Rightarrow>
            (case decision_kind_of d of
               Approve \<Rightarrow> Some (c # approved, rejected)
             | Edit \<Rightarrow>
                 Some (c\<lparr>mc_args := (case map_of (fields_of d) ''args'' of Some v \<Rightarrow> v | None \<Rightarrow> mc_args c)\<rparr> # approved, rejected)
             | Respond \<Rightarrow> Some (approved, if mc_id c = [] then rejected else (mc_id c, response_text show d) # rejected)
             | Reject \<Rightarrow> Some (approved, if mc_id c = [] then rejected else (mc_id c, feedback c d) # rejected)))"

section \<open>Between the model and its tools\<close>

record call_answer =
  an_id :: string
  an_name :: string
  an_content :: string

text \<open>The calls of the last message of the model and the answers after it.\<close>

record loop_state =
  ls_calls :: "model_call list"
  ls_answers :: "call_answer list"

definition pending_calls :: "loop_state \<Rightarrow> model_call list" where
  "pending_calls st = filter (\<lambda>c. mc_id c \<notin> set (map an_id (ls_answers st))) (ls_calls st)"

definition worker_permits :: "string list \<Rightarrow> model_call \<Rightarrow> bool" where
  "worker_permits allowed c \<longleftrightarrow> mc_name c \<in> set allowed"

definition worker_scope_after_model :: "string list \<Rightarrow> loop_state \<Rightarrow> loop_state" where
  "worker_scope_after_model allowed st =
     st\<lparr>ls_answers := ls_answers st @
        map (\<lambda>c. \<lparr>an_id = mc_id c, an_name = mc_name c, an_content = ''tool_not_authorized_for_this_worker''\<rparr>)
          (filter (\<lambda>c. \<not> worker_permits allowed c \<and> mc_id c \<noteq> []) (ls_calls st))\<rparr>"

text \<open>The names a tool goes by, where its attribute \<^verbatim>\<open>tool_id\<close> is an argument, and the tools a worker is offered.\<close>

definition tool_identities :: "(bound_tool \<Rightarrow> string) \<Rightarrow> bound_tool \<Rightarrow> string list" where
  "tool_identities tool_id t =
     filter (\<lambda>s. s \<noteq> [])
       [bt_name t, tool_id t, case meta_str (tool_metadata t) ''qualified_name'' of Some s \<Rightarrow> s | None \<Rightarrow> []]"

definition worker_offered :: "(bound_tool \<Rightarrow> string) \<Rightarrow> string list \<Rightarrow> bound_tool list \<Rightarrow> bound_tool list" where
  "worker_offered tool_id allowed tools =
     filter (\<lambda>t. list_ex (\<lambda>s. s \<in> set allowed) (tool_identities tool_id t)) tools"

definition gated_calls ::
  "approval_policy \<Rightarrow> (bound_tool \<Rightarrow> string option) option \<Rightarrow> tool_map \<Rightarrow> loop_state \<Rightarrow> model_call list" where
  "gated_calls p manager tools st =
     filter (\<lambda>c. mc_id c \<in> set (calls_requiring_approval p manager tools (ls_calls st))) (ls_calls st)"

definition revised_call :: "model_call list \<Rightarrow> model_call \<Rightarrow> model_call" where
  "revised_call approved c =
     (case find (\<lambda>a. mc_id a = mc_id c) (rev approved) of
        None \<Rightarrow> c
      | Some a \<Rightarrow> c\<lparr>mc_name := mc_name a, mc_args := (if meta_truthy (mc_args a) then mc_args a else MDict [])\<rparr>)"

text \<open>
  The approval hook: nothing gated, nothing asked; otherwise it pauses with the payload and goes on with the
  decisions. \<open>None\<close> is the error for a missing decision.
\<close>

definition approval_after_model ::
  "(meta_value \<Rightarrow> string) \<Rightarrow> (model_call \<Rightarrow> meta_value option \<Rightarrow> string) \<Rightarrow> approval_policy
     \<Rightarrow> (bound_tool \<Rightarrow> string option) option \<Rightarrow> tool_map \<Rightarrow> meta_value list \<Rightarrow> loop_state \<Rightarrow> loop_state option" where
  "approval_after_model show feedback p manager tools decisions st =
     (let gated = gated_calls p manager tools st
      in if gated = [] then Some st
         else case apply_hitl_decisions show feedback decisions gated of
           None \<Rightarrow> None
         | Some (approved, rejected) \<Rightarrow>
             Some \<lparr>ls_calls = map (revised_call approved) (ls_calls st),
                   ls_answers = ls_answers st @
                     map (\<lambda>c. \<lparr>an_id = mc_id c,
                         an_name = (if mc_name c = [] then ''tool'' else mc_name c),
                         an_content = (case map_of (rev rejected) (mc_id c) of Some t \<Rightarrow> t | None \<Rightarrow> [])\<rparr>)
                       (filter (\<lambda>c. mc_id c \<in> set (map fst rejected)) (ls_calls st))\<rparr>)"

text \<open>The stack runs the scope of the worker first, and the approval only where the policy is active.\<close>

definition after_model ::
  "(meta_value \<Rightarrow> string) \<Rightarrow> (model_call \<Rightarrow> meta_value option \<Rightarrow> string) \<Rightarrow> approval_policy
     \<Rightarrow> (bound_tool \<Rightarrow> string option) option \<Rightarrow> tool_map \<Rightarrow> string list option \<Rightarrow> meta_value list \<Rightarrow> loop_state
     \<Rightarrow> loop_state option" where
  "after_model show feedback p manager tools worker decisions st =
     (let st1 = (case worker of None \<Rightarrow> st | Some allowed \<Rightarrow> worker_scope_after_model allowed st)
      in if ap_master_enabled p then approval_after_model show feedback p manager tools decisions st1 else Some st1)"

section \<open>Decisions for several interrupts\<close>

text \<open>A paused task of the snapshot: whether it has a result, and its interrupts with the calls they ask about.\<close>

record pending_interrupt =
  pi_id :: string
  pi_metadata :: metadata
  pi_requests :: "(string \<times> meta_value) list list"

record paused_task =
  pt_has_result :: bool
  pt_interrupts :: "pending_interrupt list"

definition live_task_interrupts :: "paused_task list \<Rightarrow> pending_interrupt list \<Rightarrow> pending_interrupt list" where
  "live_task_interrupts tasks interrupts =
     (if tasks \<noteq> [] then concat (map pt_interrupts (filter (\<lambda>t. \<not> pt_has_result t) tasks)) else interrupts)"

definition request_call_id :: "(meta_value \<Rightarrow> string) \<Rightarrow> (string \<times> meta_value) list \<Rightarrow> string" where
  "request_call_id show r =
     (let v = meta_get r ''tool_call_id'' in meta_text_or show (if meta_truthy v then v else meta_get r ''id'') [])"

definition interrupt_address :: "(meta_value \<Rightarrow> string) \<Rightarrow> pending_interrupt \<Rightarrow> string" where
  "interrupt_address show i =
     (case map_of (pi_metadata i) ''interrupt_id'' of Some v \<Rightarrow> meta_text_or show v [] | None \<Rightarrow> pi_id i)"

text \<open>The call of each request and the interrupt that asks about it, in the order of the snapshot.\<close>

definition asked_calls :: "(meta_value \<Rightarrow> string) \<Rightarrow> pending_interrupt list \<Rightarrow> (string \<times> string) list" where
  "asked_calls show interrupts =
     filter (\<lambda>x. fst x \<noteq> [])
       (concat (map (\<lambda>i. map (\<lambda>r. (request_call_id show r, interrupt_address show i)) (pi_requests i)) interrupts))"

text \<open>The interrupt that asks about each call; a later one takes the entry over.\<close>

definition interrupt_owner_by_tool_call ::
  "(meta_value \<Rightarrow> string) \<Rightarrow> pending_interrupt list \<Rightarrow> (string, string) dict" where
  "interrupt_owner_by_tool_call show interrupts =
     fold (\<lambda>(call_id, owner) owners. AList.update call_id owner owners) (asked_calls show interrupts) []"

datatype address_error = NothingToResume | NoSuchCall string | DecidedTwice string

definition decided_call :: "(meta_value \<Rightarrow> string) \<Rightarrow> metadata \<Rightarrow> string" where
  "decided_call show d =
     (let v = meta_get d ''tool_call_id''
      in meta_text_or show (if meta_truthy v then v else meta_get d ''task_id'') [])"

definition addressed :: "(string, metadata list) dict \<Rightarrow> string \<Rightarrow> metadata list" where
  "addressed acc owner = (case map_of acc owner of Some l \<Rightarrow> l | None \<Rightarrow> [])"

fun address_loop ::
  "(meta_value \<Rightarrow> string) \<Rightarrow> (string, string) dict \<Rightarrow> string list \<Rightarrow> (string, metadata list) dict \<Rightarrow> metadata list
     \<Rightarrow> address_error + (string, metadata list) dict" where
  "address_loop show owners seen acc [] = Inr acc"
| "address_loop show owners seen acc (d # ds) =
     (let call_id = decided_call show d
      in case map_of owners call_id of
           None \<Rightarrow> Inl (NoSuchCall call_id)
         | Some owner \<Rightarrow>
             if call_id \<in> set seen then Inl (DecidedTwice call_id)
             else address_loop show owners (call_id # seen)
               (AList.update owner (addressed acc owner @ [d]) acc) ds)"

definition address_decisions_to_interrupts ::
  "(meta_value \<Rightarrow> string) \<Rightarrow> pending_interrupt list \<Rightarrow> metadata list \<Rightarrow> address_error + (string, metadata list) dict" where
  "address_decisions_to_interrupts show interrupts decisions =
     (if decisions = [] then Inl NothingToResume
      else address_loop show (interrupt_owner_by_tool_call show interrupts) [] [] decisions)"

section \<open>Lemmas\<close>

text \<open>A value that shows no sensitive argument: under a sensitive key there is only the placeholder.\<close>

fun clean :: "meta_value \<Rightarrow> bool" where
  "clean (MDict d) = list_all (\<lambda>(k, v). if sensitive_key k then v = MStr REDACTED_ARG_PLACEHOLDER else clean v) d"
| "clean (MList xs) = list_all clean xs"
| "clean v = True"

lemma redact_clean [simp]: "clean (redact v)"
  by (induction v rule: redact.induct) (auto simp: list_all_iff)

lemma redact_fixed: "clean v \<Longrightarrow> redact v = v"
  by (induction v rule: clean.induct)
    (auto simp: list_all_iff intro!: map_idI split: if_splits)

lemma redact_fixed_iff: "redact v = v \<longleftrightarrow> clean v"
  using redact_fixed redact_clean by metis

lemma redact_keys: "map fst (case redact (MDict d) of MDict e \<Rightarrow> e | _ \<Rightarrow> []) = map fst d"
  by (simp add: comp_def case_prod_beta)

text \<open>What the decisions leave of the calls they were asked about.\<close>

definition let_through :: "(meta_value \<Rightarrow> string) \<Rightarrow> meta_value list \<Rightarrow> string \<Rightarrow> bool" where
  "let_through show decisions call_id \<longleftrightarrow>
     decision_kind_of (decision_of show decisions call_id) \<in> {Approve, Edit}"

definition decided_args :: "(meta_value \<Rightarrow> string) \<Rightarrow> meta_value list \<Rightarrow> model_call \<Rightarrow> meta_value" where
  "decided_args show decisions c =
     (let d = decision_of show decisions (mc_id c)
      in if decision_kind_of d = Edit
         then (case map_of (fields_of d) ''args'' of Some v \<Rightarrow> v | None \<Rightarrow> mc_args c) else mc_args c)"

lemma apply_decided:
  assumes "apply_hitl_decisions sh fb ds cs = Some (approved, rejected)"
  shows "approved = map (\<lambda>c. c\<lparr>mc_args := decided_args sh ds c\<rparr>) (filter (\<lambda>c. let_through sh ds (mc_id c)) cs)"
    and "map fst rejected = filter (\<lambda>i. i \<noteq> [] \<and> \<not> let_through sh ds i) (map mc_id cs)"
  using assms
  by (induction cs arbitrary: approved rejected)
    (auto simp: Let_def let_through_def decided_args_def split: if_splits option.splits prod.splits decision_kind.splits)

lemma revised_call_id [simp]: "mc_id (revised_call approved c) = mc_id c"
  by (simp add: revised_call_def split: option.split)

lemma revised_unasked: "mc_id c \<notin> mc_id ` set approved \<Longrightarrow> revised_call approved c = c"
proof -
  assume "mc_id c \<notin> mc_id ` set approved"
  then have "find (\<lambda>a. mc_id a = mc_id c) (rev approved) = None"
    by (fastforce simp: find_None_iff image_iff)
  then show ?thesis by (simp add: revised_call_def)
qed

lemma revised_asked:
  assumes "mc_id c \<in> mc_id ` set approved"
  obtains a where "a \<in> set approved" and "mc_id a = mc_id c"
    and "mc_name (revised_call approved c) = mc_name a"
    and "mc_args (revised_call approved c) = (if meta_truthy (mc_args a) then mc_args a else MDict [])"
proof -
  from assms have "find (\<lambda>a. mc_id a = mc_id c) (rev approved) \<noteq> None"
    by (auto simp: find_None_iff)
  then obtain a where a: "find (\<lambda>a. mc_id a = mc_id c) (rev approved) = Some a" by blast
  from find_SomeD [OF a] have "a \<in> set approved" "mc_id a = mc_id c" by auto
  with a show ?thesis by (intro that [of a]) (auto simp: revised_call_def)
qed

lemma gated_ids:
  "mc_id ` set (gated_calls p mgr tools st) =
     (if ap_master_enabled p
      then {mc_id c | c. c \<in> set (ls_calls st) \<and> call_requires_approval p mgr tools c \<and> mc_id c \<noteq> []} else {})"
  by (auto simp: gated_calls_def calls_requiring_approval_def)

lemma gated_calls_subset: "set (gated_calls p mgr tools st) \<subseteq> set (ls_calls st)"
  by (auto simp: gated_calls_def)

lemma approval_shape:
  assumes "approval_after_model sh fb p mgr tools ds st = Some st'" and "gated_calls p mgr tools st \<noteq> []"
  obtains approved rejected where
    "apply_hitl_decisions sh fb ds (gated_calls p mgr tools st) = Some (approved, rejected)"
    and "ls_calls st' = map (revised_call approved) (ls_calls st)"
    and "map an_id (ls_answers st') =
       map an_id (ls_answers st) @ filter (\<lambda>i. i \<in> set (map fst rejected)) (map mc_id (ls_calls st))"
  using assms
  by (auto simp: approval_after_model_def Let_def comp_def filter_map split: option.splits prod.splits)

lemma pending_after_approval:
  assumes "approval_after_model sh fb p mgr tools ds st = Some st'"
    and pending: "r \<in> set (pending_calls st')" and id: "mc_id r \<noteq> []"
    and gated: "mc_id r \<in> mc_id ` set (gated_calls p mgr tools st)"
  shows "let_through sh ds (mc_id r) \<and> (\<exists>g \<in> set (gated_calls p mgr tools st). mc_id g = mc_id r \<and>
     mc_name r = mc_name g \<and>
     mc_args r = (let v = decided_args sh ds g in if meta_truthy v then v else MDict []))"
proof -
  let ?g = "gated_calls p mgr tools st"
  from gated have "?g \<noteq> []" by auto
  then obtain approved rejected where
    d: "apply_hitl_decisions sh fb ds ?g = Some (approved, rejected)"
    and calls: "ls_calls st' = map (revised_call approved) (ls_calls st)"
    and answers: "map an_id (ls_answers st') =
       map an_id (ls_answers st) @ filter (\<lambda>i. i \<in> set (map fst rejected)) (map mc_id (ls_calls st))"
    using approval_shape [OF assms(1)] by blast
  note decided = apply_decided [OF d]
  from pending calls obtain c where c: "c \<in> set (ls_calls st)" "r = revised_call approved c"
    by (auto simp: pending_calls_def)
  have "mc_id r \<notin> set (map an_id (ls_answers st'))"
    using pending unfolding pending_calls_def by simp
  then have "mc_id r \<notin> set (map fst rejected)" using c unfolding answers by auto
  with gated id have l: "let_through sh ds (mc_id r)" unfolding decided(2) by auto
  obtain g0 where g0: "g0 \<in> set ?g" "mc_id g0 = mc_id r" using gated by (metis imageE)
  with l have "g0\<lparr>mc_args := decided_args sh ds g0\<rparr> \<in> set approved" unfolding decided(1) by simp
  then have "mc_id (g0\<lparr>mc_args := decided_args sh ds g0\<rparr>) \<in> mc_id ` set approved" by (rule imageI)
  with g0 c(2) have "mc_id c \<in> mc_id ` set approved" by simp
  then obtain a where a: "a \<in> set approved" "mc_id a = mc_id c" "mc_name r = mc_name a"
      "mc_args r = (if meta_truthy (mc_args a) then mc_args a else MDict [])"
    unfolding c(2) by (rule revised_asked)
  then obtain g where "g \<in> set ?g" "a = g\<lparr>mc_args := decided_args sh ds g\<rparr>"
    unfolding decided(1) by auto
  with a l c(2) show ?thesis by (auto simp: Let_def intro!: bexI [of _ g])
qed

lemma pending_ungated:
  assumes "approval_after_model sh fb p mgr tools ds st = Some st'"
    and pending: "r \<in> set (pending_calls st')"
    and ungated: "mc_id r \<notin> mc_id ` set (gated_calls p mgr tools st)"
  shows "r \<in> set (ls_calls st)"
proof (cases "gated_calls p mgr tools st = []")
  case True
  with assms(1) pending show ?thesis by (simp add: approval_after_model_def pending_calls_def)
next
  case False
  with assms(1) obtain approved rejected where
    d: "apply_hitl_decisions sh fb ds (gated_calls p mgr tools st) = Some (approved, rejected)"
    and calls: "ls_calls st' = map (revised_call approved) (ls_calls st)" by (rule approval_shape)
  from pending calls obtain c where c: "c \<in> set (ls_calls st)" "r = revised_call approved c"
    by (auto simp: pending_calls_def)
  with ungated have "mc_id c \<notin> mc_id ` set approved" unfolding apply_decided(1) [OF d] by (auto simp: image_iff)
  from revised_unasked [OF this] c show ?thesis by simp
qed

section \<open>Addressed decisions\<close>

lemma addressed_update [simp]:
  "addressed (AList.update o1 l acc) o2 = (if o2 = o1 then l else addressed acc o2)"
  by (simp add: addressed_def update_conv')

lemma address_loop_ok:
  "address_loop sh owners seen acc ds = Inr out \<Longrightarrow>
     distinct (map (decided_call sh) ds) \<and> set (map (decided_call sh) ds) \<inter> set seen = {} \<and>
     (\<forall>d \<in> set ds. map_of owners (decided_call sh d) \<noteq> None) \<and>
     (\<forall>owner. addressed out owner =
        addressed acc owner @ filter (\<lambda>d. map_of owners (decided_call sh d) = Some owner) ds)"
proof (induction ds arbitrary: seen acc)
  case (Cons d ds)
  from Cons.prems obtain owner where o1: "map_of owners (decided_call sh d) = Some owner"
      "decided_call sh d \<notin> set seen"
    and rest: "address_loop sh owners (decided_call sh d # seen)
      (AList.update owner (addressed acc owner @ [d]) acc) ds = Inr out"
    by (auto simp: Let_def split: option.splits if_splits)
  from Cons.IH [OF rest] o1 show ?case by auto
qed simp

lemma address_loop_total:
  "distinct (map (decided_call sh) ds) \<Longrightarrow> set (map (decided_call sh) ds) \<inter> set seen = {} \<Longrightarrow>
     (\<forall>d \<in> set ds. map_of owners (decided_call sh d) \<noteq> None) \<Longrightarrow>
     \<exists>out. address_loop sh owners seen acc ds = Inr out"
proof (induction ds arbitrary: seen acc)
  case (Cons d ds)
  from Cons.prems(3) obtain owner where o1: "map_of owners (decided_call sh d) = Some owner" by auto
  have "\<exists>out. address_loop sh owners (decided_call sh d # seen) (AList.update owner (addressed acc owner @ [d]) acc) ds
      = Inr out"
    using Cons.prems by (intro Cons.IH) auto
  with Cons.prems o1 show ?case by (auto simp: Let_def)
qed simp

lemma fold_update_last:
  "map_of (fold (\<lambda>(k, v) m. AList.update k v m) kvs m) k =
     (case map_of (rev kvs) k of None \<Rightarrow> map_of m k | Some v \<Rightarrow> Some v)"
  by (induction kvs arbitrary: m) (auto simp: update_conv' map_add_def split: option.splits)

lemma owner_lookup:
  "map_of (interrupt_owner_by_tool_call sh interrupts) k = map_of (rev (asked_calls sh interrupts)) k"
  by (simp add: interrupt_owner_by_tool_call_def fold_update_last split: option.split)

lemma worker_scope_same [simp]:
  "ls_calls (worker_scope_after_model allowed st) = ls_calls st"
  "gated_calls p mgr tools (worker_scope_after_model allowed st) = gated_calls p mgr tools st"
  by (simp_all add: worker_scope_after_model_def gated_calls_def)

lemma approval_keeps_answers:
  assumes "approval_after_model sh fb p mgr tools ds st = Some st'"
  obtains more_ids where "map an_id (ls_answers st') = map an_id (ls_answers st) @ more_ids"
  using assms that
  by (auto simp: approval_after_model_def Let_def split: if_splits option.splits prod.splits)

lemma worker_refusal_stays:
  assumes "approval_after_model sh fb p mgr tools ds (worker_scope_after_model allowed st) = Some st'"
    and "c \<in> set (ls_calls st)" and "mc_name c \<notin> set allowed" and "mc_id c \<noteq> []"
  shows "mc_id c \<in> set (map an_id (ls_answers st'))"
proof -
  obtain more_ids where
    "map an_id (ls_answers st') = map an_id (ls_answers (worker_scope_after_model allowed st)) @ more_ids"
    using assms(1) by (rule approval_keeps_answers)
  with assms(2-) show ?thesis by (auto simp: worker_scope_after_model_def worker_permits_def)
qed

lemma gate_of_pending:
  assumes "approval_after_model sh fb p mgr tools ds st = Some st'" and "ap_master_enabled p"
    and "r \<in> set (pending_calls st')" and "mc_id r \<noteq> []"
  shows "(call_requires_approval p mgr tools r \<longrightarrow> let_through sh ds (mc_id r)) \<and>
     (\<exists>c \<in> set (ls_calls st). mc_id c = mc_id r \<and> mc_name c = mc_name r \<and>
       (r = c \<or> let_through sh ds (mc_id r) \<and>
          mc_args r = (let v = decided_args sh ds c in if meta_truthy v then v else MDict [])))"
proof (cases "mc_id r \<in> mc_id ` set (gated_calls p mgr tools st)")
  case True
  then obtain g where l: "let_through sh ds (mc_id r)" and g: "g \<in> set (gated_calls p mgr tools st)"
      "mc_id g = mc_id r" "mc_name r = mc_name g"
      "mc_args r = (let v = decided_args sh ds g in if meta_truthy v then v else MDict [])"
    using pending_after_approval [OF assms(1,3,4)] by blast
  from g(1) gated_calls_subset have "g \<in> set (ls_calls st)" by (rule subsetD [rotated])
  with l g(2-4) show ?thesis by (intro conjI impI bexI [of _ g] disjI2) simp_all
next
  case False
  from pending_ungated [OF assms(1,3) this] False assms(2,4) show ?thesis
    unfolding gated_ids by auto
qed

lemma refused_answered_again:
  assumes "approval_after_model sh fb p mgr tools ds st = Some st'" and "ap_master_enabled p"
    and "c \<in> set (ls_calls st)" and "mc_id c \<noteq> []" and "call_requires_approval p mgr tools c"
    and "\<not> let_through sh ds (mc_id c)"
  obtains more_ids where "map an_id (ls_answers st') = map an_id (ls_answers st) @ more_ids" and "mc_id c \<in> set more_ids"
proof -
  have gated: "mc_id c \<in> mc_id ` set (gated_calls p mgr tools st)"
    using assms(2-5) unfolding gated_ids by auto
  then have "gated_calls p mgr tools st \<noteq> []" by auto
  with assms(1) obtain approved rejected where
    d: "apply_hitl_decisions sh fb ds (gated_calls p mgr tools st) = Some (approved, rejected)"
    and answers: "map an_id (ls_answers st') =
       map an_id (ls_answers st) @ filter (\<lambda>i. i \<in> set (map fst rejected)) (map mc_id (ls_calls st))"
    by (rule approval_shape)
  have "mc_id c \<in> set (map fst rejected)"
    using gated assms(4,6) unfolding apply_decided(2) [OF d] by auto
  with assms(3) show ?thesis by (intro that [OF answers]) auto
qed

section \<open>Properties\<close>

text \<open>
  C8: Whatever the model asked for, a call that carries an id and still runs after the two hooks is a call of the
  model under its own name; a worker runs it only inside its scope; where the policy asks for a human it was
  approved or edited; and its arguments are the model's unless a decision gave others.
\<close>

theorem nothing_runs_unapproved:
  assumes "after_model sh fb p mgr tools worker ds st = Some st'"
    and "r \<in> set (pending_calls st')" and "mc_id r \<noteq> []"
  shows "(\<forall>allowed. worker = Some allowed \<longrightarrow> mc_name r \<in> set allowed) \<and>
     (ap_master_enabled p \<and> call_requires_approval p mgr tools r \<longrightarrow>
        decision_kind_of (decision_of sh ds (mc_id r)) \<in> {Approve, Edit}) \<and>
     (\<exists>c \<in> set (ls_calls st). mc_id c = mc_id r \<and> mc_name c = mc_name r \<and>
        (r = c \<or> decision_kind_of (decision_of sh ds (mc_id r)) \<in> {Approve, Edit} \<and>
           mc_args r = (let v = decided_args sh ds c in if meta_truthy v then v else MDict [])))"
proof (cases "ap_master_enabled p")
  case True
  define st1 where "st1 = (case worker of None \<Rightarrow> st | Some allowed \<Rightarrow> worker_scope_after_model allowed st)"
  have same: "ls_calls st1 = ls_calls st" by (simp add: st1_def split: option.split)
  from assms(1) True have a: "approval_after_model sh fb p mgr tools ds st1 = Some st'"
    by (simp add: after_model_def st1_def)
  note g = gate_of_pending [OF this True assms(2,3), unfolded same let_through_def]
  have "mc_name r \<in> set allowed" if w: "worker = Some allowed" for allowed
  proof (rule ccontr)
    assume out: "mc_name r \<notin> set allowed"
    from g obtain c where "c \<in> set (ls_calls st)" "mc_id c = mc_id r" "mc_name c = mc_name r" by auto
    with worker_refusal_stays [of sh fb p mgr tools ds allowed st st' c] a out w assms(3)
    have "mc_id r \<in> set (map an_id (ls_answers st'))" by (simp add: st1_def)
    with assms(2) show False unfolding pending_calls_def by simp
  qed
  with g True show ?thesis by blast
next
  case False
  with assms show ?thesis
    by (auto simp: after_model_def pending_calls_def worker_scope_after_model_def worker_permits_def
        image_Un image_image split: option.splits)
qed

text \<open>A worker that may delete and read asks to delete, to read and to send: the deletion is approved.\<close>

definition worker_sample_tool :: "string \<Rightarrow> metadata \<Rightarrow> bound_tool" where
  "worker_sample_tool name md = \<lparr>bt_metadata = Some md, bt_name = name\<rparr>"

definition worker_sample_tools :: tool_map where
  "worker_sample_tools =
     [(''delete'', worker_sample_tool ''delete'' [(''mutation'', MBool True)]),
      (''read'', worker_sample_tool ''read'' []),
      (''send'', worker_sample_tool ''send'' [(''mutation'', MBool True)])]"

definition worker_sample_policy :: approval_policy where
  "worker_sample_policy = \<lparr>ap_master_enabled = True, ap_client_rules = [], ap_global_tools = []\<rparr>"

definition worker_sample_calls :: loop_state where
  "worker_sample_calls =
     \<lparr>ls_calls =
        [\<lparr>mc_id = ''a'', mc_name = ''delete'', mc_args = MDict [(''path'', MStr ''x''), (''api_key'', MStr ''k'')]\<rparr>,
         \<lparr>mc_id = ''b'', mc_name = ''read'', mc_args = MDict []\<rparr>,
         \<lparr>mc_id = ''c'', mc_name = ''send'', mc_args = MDict []\<rparr>],
      ls_answers = []\<rparr>"

definition worker_sample_decisions :: "meta_value list" where
  "worker_sample_decisions =
     [MDict [(''task_id'', MStr ''a''), (''type'', MStr ''approve'')],
      MDict [(''task_id'', MStr ''c''), (''type'', MStr ''reject'')]]"

lemmas worker_sample_defs = worker_sample_tool_def worker_sample_tools_def worker_sample_policy_def worker_sample_calls_def worker_sample_decisions_def

definition worker_sample_outcome :: "loop_state option" where
  "worker_sample_outcome =
     after_model (\<lambda>v. []) (\<lambda>c d. ''no'') worker_sample_policy None worker_sample_tools (Some [''delete'', ''read'']) worker_sample_decisions
       worker_sample_calls"

lemma worker_sample_outcome_value:
  "worker_sample_outcome = Some \<lparr>ls_calls = ls_calls worker_sample_calls,
     ls_answers = [\<lparr>an_id = ''c'', an_name = ''send'', an_content = ''tool_not_authorized_for_this_worker''\<rparr>,
       \<lparr>an_id = ''c'', an_name = ''send'', an_content = ''no''\<rparr>]\<rparr>"
  by code_simp

theorem nothing_runs_unapproved_witness:
  "decision_kind_of (decision_of (\<lambda>v. []) worker_sample_decisions ''a'') \<in> {Approve, Edit}"
proof -
  let ?r = "\<lparr>mc_id = ''a'', mc_name = ''delete'', mc_args = MDict [(''path'', MStr ''x''), (''api_key'', MStr ''k'')]\<rparr>"
  have "?r \<in> set (pending_calls (the worker_sample_outcome))"
    unfolding worker_sample_outcome_value by (simp add: pending_calls_def worker_sample_calls_def)
  moreover have "ap_master_enabled worker_sample_policy \<and> call_requires_approval worker_sample_policy None worker_sample_tools ?r"
    by code_simp
  ultimately show ?thesis
    using nothing_runs_unapproved [of "\<lambda>v. []" "\<lambda>c d. ''no''" worker_sample_policy None worker_sample_tools
      "Some [''delete'', ''read'']" worker_sample_decisions worker_sample_calls "the worker_sample_outcome" ?r]
    unfolding worker_sample_outcome_def [symmetric] by (simp add: worker_sample_outcome_value)
qed

text \<open>
  What the human is shown: every pending call under its id and name, in order, and no value under a
  sensitive key at any depth of its arguments; arguments without such a key are shown as they are.
\<close>

theorem approval_prompt_redacted:
  "map (\<lambda>c. (mc_id c, mc_name c)) (pl_action_requests (build_tool_interrupt_payload tools device calls)) =
      map (\<lambda>c. (mc_id c, mc_name c)) calls \<and>
   list_all (\<lambda>c. case mc_args c of MDict d \<Rightarrow> clean (MDict d) | _ \<Rightarrow> True)
      (pl_action_requests (build_tool_interrupt_payload tools device calls)) \<and>
   (redact v = v \<longleftrightarrow> clean v) \<and> redact (redact v) = redact v"
proof -
  have "case mc_args (shown_request c) of MDict d \<Rightarrow> clean (MDict d) | _ \<Rightarrow> True" for c
    using redact_clean [of "mc_args c"]
    by (cases "mc_args c") (simp_all add: shown_request_def redact_sensitive_args_def)
  moreover have "mc_id (shown_request c) = mc_id c \<and> mc_name (shown_request c) = mc_name c" for c
    by (cases "mc_args c") (simp_all add: shown_request_def)
  ultimately show ?thesis
    by (simp add: build_tool_interrupt_payload_def list_all_iff comp_def redact_fixed_iff redact_clean)
qed

text \<open>
  A call that the scope of a worker has refused already is still put to the human when the policy asks for
  one, and unless it is approved the decision answers it a second time.
\<close>

theorem refused_call_reaches_human:
  assumes "ap_master_enabled p" and "c \<in> set (ls_calls st)" and "mc_id c \<noteq> []" and "mc_name c \<notin> set allowed"
    and "call_requires_approval p mgr tools c" and "\<not> let_through sh ds (mc_id c)"
    and "after_model sh fb p mgr tools (Some allowed) ds st = Some st'"
  shows "c \<in> set (gated_calls p mgr tools (worker_scope_after_model allowed st)) \<and>
     2 \<le> length (filter (\<lambda>i. i = mc_id c) (map an_id (ls_answers st')))"
proof -
  let ?st = "worker_scope_after_model allowed st"
  from assms(1,7) have a: "approval_after_model sh fb p mgr tools ds ?st = Some st'" by (simp add: after_model_def)
  obtain ids where ids: "map an_id (ls_answers st') = map an_id (ls_answers ?st) @ ids" "mc_id c \<in> set ids"
    using refused_answered_again [OF a assms(1) _ assms(3,5,6)] assms(2) by auto
  have "mc_id c \<in> set (map an_id (ls_answers ?st))"
    using assms(2-4) by (auto simp: worker_scope_after_model_def worker_permits_def)
  then have "1 \<le> length (filter (\<lambda>i. i = mc_id c) (map an_id (ls_answers ?st)))"
    by (auto simp: Suc_le_eq filter_empty_conv)
  moreover from ids(2) have "1 \<le> length (filter (\<lambda>i. i = mc_id c) ids)"
    by (auto simp: Suc_le_eq filter_empty_conv)
  moreover have "c \<in> set (gated_calls p mgr tools st)"
    using assms(1-3,5) by (auto simp: gated_calls_def calls_requiring_approval_def)
  ultimately show ?thesis unfolding ids(1) by simp
qed

theorem refused_call_reaches_human_witness:
  "2 \<le> length (filter (\<lambda>i. i = ''c'') (map an_id (ls_answers (the worker_sample_outcome))))"
proof -
  let ?c = "\<lparr>mc_id = ''c'', mc_name = ''send'', mc_args = MDict []\<rparr>"
  have "call_requires_approval worker_sample_policy None worker_sample_tools ?c" and "\<not> let_through (\<lambda>v. []) worker_sample_decisions (mc_id ?c)"
    by code_simp+
  moreover have "after_model (\<lambda>v. []) (\<lambda>c d. ''no'') worker_sample_policy None worker_sample_tools (Some [''delete'', ''read''])
      worker_sample_decisions worker_sample_calls = Some (the worker_sample_outcome)"
    unfolding worker_sample_outcome_def [symmetric] by (simp add: worker_sample_outcome_value)
  ultimately show ?thesis
    using refused_call_reaches_human [of worker_sample_policy ?c worker_sample_calls "[''delete'', ''read'']" None worker_sample_tools
      "\<lambda>v. []" worker_sample_decisions "\<lambda>c d. ''no''" "the worker_sample_outcome"]
    by (simp add: worker_sample_policy_def worker_sample_calls_def)
qed

text \<open>
  Decisions are addressed exactly when there is one at least, none names a call no interrupt asks about, and
  no call is decided twice; then every interrupt gets the decisions of its own calls, all of them and in order.
\<close>

theorem decisions_reach_their_interrupt:
  "((\<exists>out. address_decisions_to_interrupts sh interrupts ds = Inr out) \<longleftrightarrow>
     ds \<noteq> [] \<and> distinct (map (decided_call sh) ds) \<and>
     set (map (decided_call sh) ds) \<subseteq> set (map fst (asked_calls sh interrupts))) \<and>
   (\<forall>out owner. address_decisions_to_interrupts sh interrupts ds = Inr out \<longrightarrow>
     addressed out owner =
       filter (\<lambda>d. map_of (rev (asked_calls sh interrupts)) (decided_call sh d) = Some owner) ds)"
proof -
  let ?owners = "interrupt_owner_by_tool_call sh interrupts"
  have known: "map_of ?owners k \<noteq> None \<longleftrightarrow> k \<in> set (map fst (asked_calls sh interrupts))" for k
    by (simp add: owner_lookup map_of_eq_None_iff)
  note ok = address_loop_ok [of sh ?owners "[]" "[]" ds]
  have "(\<exists>out. address_loop sh ?owners [] [] ds = Inr out) \<longleftrightarrow>
      distinct (map (decided_call sh) ds) \<and> (\<forall>d \<in> set ds. map_of ?owners (decided_call sh d) \<noteq> None)"
    using ok address_loop_total [of sh ds "[]" ?owners "[]"] by fastforce
  then have "(\<exists>out. address_decisions_to_interrupts sh interrupts ds = Inr out) \<longleftrightarrow>
     ds \<noteq> [] \<and> distinct (map (decided_call sh) ds) \<and>
     set (map (decided_call sh) ds) \<subseteq> set (map fst (asked_calls sh interrupts))"
    unfolding known by (auto simp: address_decisions_to_interrupts_def)
  moreover have "addressed out owner =
       filter (\<lambda>d. map_of (rev (asked_calls sh interrupts)) (decided_call sh d) = Some owner) ds"
    if "address_decisions_to_interrupts sh interrupts ds = Inr out" for out owner
    using ok [of out] that
    by (simp add: address_decisions_to_interrupts_def owner_lookup addressed_def split: if_splits)
  ultimately show ?thesis by blast
qed

text \<open>Two workers wait, and the second one's call is approved.\<close>

definition worker_sample_interrupts :: "pending_interrupt list" where
  "worker_sample_interrupts =
     [\<lparr>pi_id = ''i1'', pi_metadata = [], pi_requests = [[(''id'', MStr ''a'')]]\<rparr>,
      \<lparr>pi_id = ''i2'', pi_metadata = [], pi_requests = [[(''id'', MStr ''b'')]]\<rparr>]"

theorem decisions_reach_their_interrupt_witness:
  "\<exists>out. addressed out ''i2'' = [[(''task_id'', MStr ''b'')]] \<and> addressed out ''i1'' = []"
proof -
  let ?ds = "[[(''task_id'', MStr ''b'')]]"
  note t = decisions_reach_their_interrupt [of "\<lambda>v. []" worker_sample_interrupts ?ds]
  have "set (map (decided_call (\<lambda>v. [])) ?ds) \<subseteq> set (map fst (asked_calls (\<lambda>v. []) worker_sample_interrupts))" by code_simp
  with t obtain out where "address_decisions_to_interrupts (\<lambda>v. []) worker_sample_interrupts ?ds = Inr out" by auto
  with t have "addressed out owner =
       filter (\<lambda>d. map_of (rev (asked_calls (\<lambda>v. []) worker_sample_interrupts)) (decided_call (\<lambda>v. []) d) = Some owner) ?ds" for owner
    by blast
  then have "addressed out ''i2'' = [[(''task_id'', MStr ''b'')]] \<and> addressed out ''i1'' = []"
    by (simp add: worker_sample_interrupts_def asked_calls_def request_call_id_def meta_get_def decided_call_def meta_text_or_def
        meta_text_def interrupt_address_def Let_def)
  then show ?thesis by blast
qed

end
