(* ===== verification/DeviceDispatch.thy ===== *)
theory DeviceDispatch
  imports Prelude
begin

text \<open>
  How a request reaches a device and its result the caller, \<^verbatim>\<open>RedisClientRuntimeStore\<close> of
  \<^verbatim>\<open>services/client_runtime_store.py\<close> and the gateway loop of \<^verbatim>\<open>api/device_runtime.py\<close>. A step is one command
  or one pipeline on the server, which Redis runs as one transaction, or the send of a gateway to its device, so
  a run of steps is any interleaving of the callers that dispatch, the gateways that hold the sockets and the
  handlers of what comes back. Keys that expire are steps of the environment. Request ids
  are fresh, as \<^verbatim>\<open>uuid4\<close> makes them. A lost connection may raise in any call, which \<open>Break\<close> stands for.
\<close>

section \<open>Messages and the server\<close>

record tool_request =
  tr_request_id :: string
  tr_tool_name :: string
  tr_qualified_tool_id :: string
  tr_tool_instance_id :: "string option"
  tr_expected_session_id :: "string option"
  tr_expected_catalog_version :: "int option"
  tr_mutation_approved :: bool

datatype queue_msg = Request tool_request | Cancel string

record device_result =
  rs_request_id :: string
  rs_success :: bool
  rs_error :: "string option"
  rs_error_code :: "string option"

text \<open>The results keep beside each one the device that sent it, \<open>None\<close> for the server; no code reads that.\<close>

record runtime_db =
  db_queue :: "string \<Rightarrow> queue_msg list"
  db_results :: "string \<Rightarrow> (string option \<times> device_result) list"
  db_pending :: "string \<Rightarrow> string list"
  db_request_device :: "string \<Rightarrow> string option"
  db_withdrawn :: "string \<Rightarrow> bool"

definition empty_runtime_db :: runtime_db where
  "empty_runtime_db =
     \<lparr>db_queue = (\<lambda>d. []), db_results = (\<lambda>q. []), db_pending = (\<lambda>d. []), db_request_device = (\<lambda>q. None),
      db_withdrawn = (\<lambda>q. False)\<rparr>"

section \<open>The commands\<close>

definition push_queue :: "string \<Rightarrow> queue_msg \<Rightarrow> runtime_db \<Rightarrow> runtime_db" where
  "push_queue d m db = db\<lparr>db_queue := (db_queue db)(d := db_queue db d @ [m])\<rparr>"

text \<open>The pipeline of \<^verbatim>\<open>dispatch_request\<close>.\<close>

definition dispatch_pipeline :: "string \<Rightarrow> tool_request \<Rightarrow> runtime_db \<Rightarrow> runtime_db" where
  "dispatch_pipeline d r db =
     push_queue d (Request r)
       (db\<lparr>db_pending := (db_pending db)(d := List.insert (tr_request_id r) (db_pending db d)),
           db_request_device := (db_request_device db)(tr_request_id r := Some d)\<rparr>)"

text \<open>The transaction of \<^verbatim>\<open>_withdraw\<close>: the marker, and whether the request was still queued.\<close>

definition withdraw_pipeline :: "string \<Rightarrow> tool_request \<Rightarrow> runtime_db \<Rightarrow> bool \<times> runtime_db" where
  "withdraw_pipeline d r db =
     (Request r \<in> set (db_queue db d),
      db\<lparr>db_withdrawn := (db_withdrawn db)(tr_request_id r := True),
         db_queue := (db_queue db)(d := remove1 (Request r) (db_queue db d))\<rparr>)"

definition drop_pending :: "string option \<Rightarrow> string \<Rightarrow> runtime_db \<Rightarrow> runtime_db" where
  "drop_pending device q db =
     (case device of
        Some d \<Rightarrow> if d = [] then db else db\<lparr>db_pending := (db_pending db)(d := removeAll q (db_pending db d))\<rparr>
      | None \<Rightarrow> db)"

text \<open>The pipeline of \<^verbatim>\<open>publish_result\<close>, after the read of the device of the request.\<close>

definition publish_pipeline :: "string option \<Rightarrow> string option \<Rightarrow> device_result \<Rightarrow> runtime_db \<Rightarrow> runtime_db" where
  "publish_pipeline sender device res db =
     (let q = rs_request_id res;
          db1 = drop_pending device q
            (db\<lparr>db_results := (db_results db)(q := db_results db q @ [(sender, res)])\<rparr>)
      in db1\<lparr>db_request_device := (db_request_device db1)(q := None)\<rparr>)"

definition publish_refused :: "string option \<Rightarrow> string option \<Rightarrow> bool" where
  "publish_refused sender device \<longleftrightarrow> (case sender of Some d \<Rightarrow> device \<noteq> Some d | None \<Rightarrow> False)"

text \<open>The pipeline of \<^verbatim>\<open>_clear_pending_request\<close>.\<close>

definition clear_pipeline :: "string option \<Rightarrow> string \<Rightarrow> runtime_db \<Rightarrow> runtime_db" where
  "clear_pipeline device q db =
     (let db1 = drop_pending device q db
      in db1\<lparr>db_request_device := (db_request_device db1)(q := None), db_results := (db_results db1)(q := [])\<rparr>)"

definition disconnect_result :: "string \<Rightarrow> string \<Rightarrow> device_result" where
  "disconnect_result q reason =
     \<lparr>rs_request_id = q, rs_success = False, rs_error = Some reason, rs_error_code = Some ''DEVICE_DISCONNECTED''\<rparr>"

text \<open>The pipeline of \<^verbatim>\<open>_sync_fail_pending_requests\<close> for the ids it read, and the keys a session takes with it.\<close>

definition sync_fail_pipeline :: "string \<Rightarrow> string list \<Rightarrow> string \<Rightarrow> runtime_db \<Rightarrow> runtime_db" where
  "sync_fail_pipeline d ids reason db =
     (if ids = [] then db
      else (let db1 = fold (\<lambda>q db. publish_pipeline None None (disconnect_result q reason) db) ids db
            in db1\<lparr>db_pending := (db_pending db1)(d := [])\<rparr>))"

definition delete_keys :: "string \<Rightarrow> string list \<Rightarrow> runtime_db \<Rightarrow> runtime_db" where
  "delete_keys d ids db =
     db\<lparr>db_queue := (db_queue db)(d := []), db_pending := (db_pending db)(d := []),
        db_request_device := (\<lambda>q. if q \<in> set ids then None else db_request_device db q)\<rparr>"

section \<open>Dispatching\<close>

text \<open>
  A dispatch sends its pipeline, which may reach the server after the caller was stopped (\<open>on_wire\<close>), waits,
  withdraws when it is stopped or times out, and clears up. Withdrawing is shielded: a second stop lets it go on
  while the caller clears up.
\<close>

datatype dispatch_outcome = Answered "string option" device_result | TimedOut | Stopped | Broken

datatype dispatch_phase =
    Sending
  | Waiting
  | Withdrawing dispatch_outcome
  | Clearing dispatch_outcome
  | Cleared "string option" dispatch_outcome
  | Ended dispatch_outcome

datatype withdrawal = NotWithdrawn | ToMark | ToCancel | Withdrawn

record dispatch =
  dp_request :: tool_request
  dp_device :: string
  dp_phase :: dispatch_phase
  dp_on_wire :: bool
  dp_withdrawal :: withdrawal

text \<open>
  \<open>held\<close> are messages a gateway took and has not looked at, \<open>checked\<close> those it looked at and has not sent;
  \<open>read\<close> results whose device was read and that are not written yet; \<open>queued\<close> and \<open>sent\<close> record what was put in a
  queue and what a gateway sent down the socket of its device.
\<close>

record runtime_state =
  st_db :: runtime_db
  st_dispatches :: "string \<Rightarrow> dispatch option"
  st_held :: "(string \<times> queue_msg) list"
  st_checked :: "(string \<times> queue_msg) list"
  st_read :: "(string option \<times> string option \<times> device_result) list"
  st_queued :: "(string \<times> queue_msg) list"
  st_sent :: "(string \<times> queue_msg) list"

definition initial_runtime :: runtime_state where
  "initial_runtime =
     \<lparr>st_db = empty_runtime_db, st_dispatches = (\<lambda>q. None), st_held = [], st_checked = [], st_read = [],
      st_queued = [], st_sent = []\<rparr>"

datatype runtime_op =
    Dispatch string tool_request
  | PushApplied string
  | TakeResult string
  | Abandon string dispatch_outcome
  | Break string
  | Mark string
  | PushCancel string
  | SecondStop string
  | ClearRead string
  | ClearWrite string
  | Take string
  | Check nat
  | Lose nat
  | Send nat
  | SendFails nat
  | PublishRead "string option" device_result
  | PublishWrite nat
  | SyncFail string "string list" string
  | DropPending string
  | DeleteSession string "string list"
  | ExpireRequest string
  | ExpirePending string
  | ExpireMarker string

definition set_dispatch :: "string \<Rightarrow> (dispatch \<Rightarrow> dispatch) \<Rightarrow> runtime_state \<Rightarrow> runtime_state" where
  "set_dispatch q f st = st\<lparr>st_dispatches := (\<lambda>q'. if q' = q then map_option f (st_dispatches st q) else st_dispatches st q')\<rparr>"

text \<open>Withdrawing is done: the caller that waited for it clears up.\<close>

definition withdrawal_done :: "dispatch \<Rightarrow> dispatch" where
  "withdrawal_done x =
     x\<lparr>dp_withdrawal := Withdrawn,
       dp_phase := (case dp_phase x of Withdrawing why \<Rightarrow> Clearing why | p \<Rightarrow> p)\<rparr>"

fun dispatcher_step :: "dispatch \<Rightarrow> runtime_op \<Rightarrow> runtime_state \<Rightarrow> runtime_state" where
  "dispatcher_step x (PushApplied q) st =
     (if \<not> dp_on_wire x then st
      else set_dispatch q (\<lambda>x. x\<lparr>dp_on_wire := False, dp_phase := (if dp_phase x = Sending then Waiting else dp_phase x)\<rparr>)
        (st\<lparr>st_db := dispatch_pipeline (dp_device x) (dp_request x) (st_db st),
            st_queued := st_queued st @ [(dp_device x, Request (dp_request x))]\<rparr>))"
| "dispatcher_step x (TakeResult q) st =
     (case (dp_phase x, db_results (st_db st) q) of
        (Waiting, (sender, res) # rest) \<Rightarrow>
          set_dispatch q (\<lambda>x. x\<lparr>dp_phase := Clearing (Answered sender res)\<rparr>)
            (st\<lparr>st_db := (st_db st)\<lparr>db_results := (db_results (st_db st))(q := rest)\<rparr>\<rparr>)
      | _ \<Rightarrow> st)"
| "dispatcher_step x (Abandon q why) st =
     (if dp_phase x = Waiting \<and> why \<in> {TimedOut, Stopped} \<or> dp_phase x = Sending \<and> why = Stopped
      then set_dispatch q (\<lambda>x. x\<lparr>dp_phase := Withdrawing why, dp_withdrawal := ToMark\<rparr>) st else st)"
| "dispatcher_step x (Break q) st =
     (case dp_phase x of
        Sending \<Rightarrow> set_dispatch q (\<lambda>x. x\<lparr>dp_phase := Clearing Broken\<rparr>) st
      | Waiting \<Rightarrow> set_dispatch q (\<lambda>x. x\<lparr>dp_phase := Clearing Broken\<rparr>) st
      | Withdrawing why \<Rightarrow> set_dispatch q (\<lambda>x. x\<lparr>dp_phase := Clearing Broken, dp_withdrawal := NotWithdrawn\<rparr>) st
      | Clearing why \<Rightarrow> set_dispatch q (\<lambda>x. x\<lparr>dp_phase := Ended Broken\<rparr>) st
      | Cleared v why \<Rightarrow> set_dispatch q (\<lambda>x. x\<lparr>dp_phase := Ended Broken\<rparr>) st
      | Ended why \<Rightarrow> st)"
| "dispatcher_step x (Mark q) st =
     (if dp_withdrawal x \<noteq> ToMark then st
      else (let (removed, db) = withdraw_pipeline (dp_device x) (dp_request x) (st_db st)
            in set_dispatch q (if removed then withdrawal_done else (\<lambda>x. x\<lparr>dp_withdrawal := ToCancel\<rparr>)) (st\<lparr>st_db := db\<rparr>)))"
| "dispatcher_step x (PushCancel q) st =
     (if dp_withdrawal x \<noteq> ToCancel then st
      else set_dispatch q withdrawal_done
        (st\<lparr>st_db := push_queue (dp_device x) (Cancel q) (st_db st), st_queued := st_queued st @ [(dp_device x, Cancel q)]\<rparr>))"
| "dispatcher_step x (SecondStop q) st =
     (case dp_phase x of Withdrawing why \<Rightarrow> set_dispatch q (\<lambda>x. x\<lparr>dp_phase := Clearing Stopped\<rparr>) st | _ \<Rightarrow> st)"
| "dispatcher_step x (ClearRead q) st =
     (case dp_phase x of
        Clearing why \<Rightarrow> set_dispatch q (\<lambda>x. x\<lparr>dp_phase := Cleared (db_request_device (st_db st) q) why\<rparr>) st
      | _ \<Rightarrow> st)"
| "dispatcher_step x (ClearWrite q) st =
     (case dp_phase x of
        Cleared v why \<Rightarrow>
          set_dispatch q (\<lambda>x. x\<lparr>dp_phase := Ended why\<rparr>) (st\<lparr>st_db := clear_pipeline v q (st_db st)\<rparr>)
      | _ \<Rightarrow> st)"
| "dispatcher_step x operation st = st"

fun op_request :: "runtime_op \<Rightarrow> string option" where
  "op_request (PushApplied q) = Some q"
| "op_request (TakeResult q) = Some q"
| "op_request (Abandon q why) = Some q"
| "op_request (Break q) = Some q"
| "op_request (Mark q) = Some q"
| "op_request (PushCancel q) = Some q"
| "op_request (SecondStop q) = Some q"
| "op_request (ClearRead q) = Some q"
| "op_request (ClearWrite q) = Some q"
| "op_request operation = None"

section \<open>The others\<close>

definition without_nth :: "nat \<Rightarrow> 'a list \<Rightarrow> 'a list" where
  "without_nth i xs = take i xs @ drop (Suc i) xs"

text \<open>A gateway passes a cancel on, and a request unless its marker is set; the send is a step of its own.\<close>

definition check_message :: "string \<times> queue_msg \<Rightarrow> runtime_state \<Rightarrow> runtime_state" where
  "check_message dm st =
     (case snd dm of
        Request r \<Rightarrow> if db_withdrawn (st_db st) (tr_request_id r) then st else st\<lparr>st_checked := st_checked st @ [dm]\<rparr>
      | Cancel q \<Rightarrow> st\<lparr>st_checked := st_checked st @ [dm]\<rparr>)"

text \<open>The send to the websocket; when it fails the gateway publishes a result of its own, a step of the server.\<close>

definition forward_message :: "nat \<Rightarrow> runtime_state \<Rightarrow> runtime_state" where
  "forward_message i st =
     (if i < length (st_checked st)
      then st\<lparr>st_checked := without_nth i (st_checked st), st_sent := st_sent st @ [st_checked st ! i]\<rparr> else st)"

declare forward_message_def [simp]

definition on_db :: "(runtime_db \<Rightarrow> runtime_db) \<Rightarrow> runtime_state \<Rightarrow> runtime_state" where
  "on_db f st = st\<lparr>st_db := f (st_db st)\<rparr>"

fun server_step :: "runtime_op \<Rightarrow> runtime_state \<Rightarrow> runtime_state" where
  "server_step (Dispatch d r) st =
     (if st_dispatches st (tr_request_id r) \<noteq> None then st
      else st\<lparr>st_dispatches := (st_dispatches st)(tr_request_id r \<mapsto>
        \<lparr>dp_request = r, dp_device = d, dp_phase = Sending, dp_on_wire = True, dp_withdrawal = NotWithdrawn\<rparr>)\<rparr>)"
| "server_step (Take d) st =
     (case db_queue (st_db st) d of
        [] \<Rightarrow> st
      | m # ms \<Rightarrow> on_db (\<lambda>db. db\<lparr>db_queue := (db_queue db)(d := ms)\<rparr>) (st\<lparr>st_held := st_held st @ [(d, m)]\<rparr>))"
| "server_step (Check i) st =
     (if i < length (st_held st)
      then check_message (st_held st ! i) (st\<lparr>st_held := without_nth i (st_held st)\<rparr>) else st)"
| "server_step (Lose i) st = st\<lparr>st_held := without_nth i (st_held st)\<rparr>"
| "server_step (Send i) st = forward_message i st"
| "server_step (SendFails i) st = st\<lparr>st_checked := without_nth i (st_checked st)\<rparr>"
| "server_step (PublishRead sender res) st =
     (let device = db_request_device (st_db st) (rs_request_id res)
      in if publish_refused sender device then st else st\<lparr>st_read := st_read st @ [(sender, device, res)]\<rparr>)"
| "server_step (PublishWrite i) st =
     (if i < length (st_read st)
      then (case st_read st ! i of (sender, device, res) \<Rightarrow>
        on_db (publish_pipeline sender device res) (st\<lparr>st_read := without_nth i (st_read st)\<rparr>)) else st)"
| "server_step (SyncFail d ids reason) st = on_db (sync_fail_pipeline d ids reason) st"
| "server_step (DropPending d) st = on_db (\<lambda>db. db\<lparr>db_pending := (db_pending db)(d := [])\<rparr>) st"
| "server_step (DeleteSession d ids) st = on_db (delete_keys d ids) st"
| "server_step (ExpireRequest q) st =
     on_db (\<lambda>db. db\<lparr>db_request_device := (db_request_device db)(q := None), db_results := (db_results db)(q := [])\<rparr>) st"
| "server_step (ExpirePending d) st = on_db (\<lambda>db. db\<lparr>db_pending := (db_pending db)(d := [])\<rparr>) st"
| "server_step (ExpireMarker q) st = on_db (\<lambda>db. db\<lparr>db_withdrawn := (db_withdrawn db)(q := False)\<rparr>) st"
| "server_step operation st = st"

definition runtime_step :: "runtime_op \<Rightarrow> runtime_state \<Rightarrow> runtime_state" where
  "runtime_step operation st =
     (case op_request operation of
        None \<Rightarrow> server_step operation st
      | Some q \<Rightarrow> (case st_dispatches st q of None \<Rightarrow> st | Some x \<Rightarrow> dispatcher_step x operation st))"

definition runtime_run :: "runtime_op list \<Rightarrow> runtime_state \<Rightarrow> runtime_state" where
  "runtime_run ops st = fold runtime_step ops st"

text \<open>
  What the methods of the store run: the pending requests of a device are failed one by one, a session goes with
  the keys of the device, and a session found dead takes both.
\<close>

definition fail_pending_requests :: "string \<Rightarrow> string list \<Rightarrow> string \<Rightarrow> runtime_state \<Rightarrow> runtime_state" where
  "fail_pending_requests d ids reason st =
     server_step (DropPending d)
       (fold (\<lambda>q st. let st1 = server_step (PublishRead None (disconnect_result q reason)) st
                     in server_step (PublishWrite (length (st_read st1) - 1)) st1) ids st)"

section \<open>Where a request is\<close>

lemma runtime_run_simps [simp]:
  "runtime_run [] st = st"
  "runtime_run (operation # ops) st = runtime_run ops (runtime_step operation st)"
  "runtime_run (ops @ ops') st = runtime_run ops' (runtime_run ops st)"
  by (simp_all add: runtime_run_def)

definition is_request :: "string \<Rightarrow> queue_msg \<Rightarrow> bool" where
  "is_request q m = (case m of Request r \<Rightarrow> tr_request_id r = q | Cancel _ \<Rightarrow> False)"

lemma is_request_simps [simp]:
  "is_request q (Request r) \<longleftrightarrow> tr_request_id r = q" "\<not> is_request q (Cancel c)"
  by (simp_all add: is_request_def)

definition requests :: "string \<Rightarrow> queue_msg list \<Rightarrow> nat" where
  "requests q ms = length (filter (is_request q) ms)"

lemma requests_simps [simp]:
  "requests q [] = 0"
  "requests q (m # ms) = (if is_request q m then 1 else 0) + requests q ms"
  "requests q (ms @ ns) = requests q ms + requests q ns"
  by (simp_all add: requests_def)

lemma requests_without: "requests q (map snd (without_nth i xs)) +
    (if i < length xs \<and> is_request q (snd (xs ! i)) then 1 else 0) = requests q (map snd xs)"
proof (cases "i < length xs")
  case True
  then have "xs = take i xs @ (xs ! i) # drop (Suc i) xs" by (rule id_take_nth_drop)
  then have "requests q (map snd xs) = requests q (map snd (take i xs @ (xs ! i) # drop (Suc i) xs))" by simp
  with True show ?thesis by (simp add: without_nth_def)
qed (simp add: without_nth_def)

lemma set_without_nth: "set (without_nth i xs) \<subseteq> set xs"
  using set_take_subset [of i xs] set_drop_subset [of "Suc i" xs] by (auto simp: without_nth_def)

lemma requests_remove1:
  "requests q (remove1 m ms) + (if m \<in> set ms \<and> is_request q m then 1 else 0) = requests q ms"
  by (induction ms) auto

lemma requests_pos: "0 < requests q ms \<longleftrightarrow> (\<exists>r. Request r \<in> set ms \<and> tr_request_id r = q)"
  by (induction ms) (auto simp: is_request_def split: queue_msg.splits)

text \<open>
  A request is in one place at most: on the wire, in the queue of its device, with a gateway before or after the
  check, or sent.
\<close>

definition copies :: "string \<Rightarrow> dispatch \<Rightarrow> runtime_state \<Rightarrow> nat" where
  "copies q x st =
     (if dp_on_wire x then 1 else 0) + requests q (db_queue (st_db st) (dp_device x)) +
     requests q (map snd (st_held st)) + requests q (map snd (st_checked st)) + requests q (map snd (st_sent st))"

definition found :: "string \<Rightarrow> tool_request \<Rightarrow> runtime_state \<Rightarrow> bool" where
  "found d r st \<longleftrightarrow>
     Request r \<in> set (db_queue (st_db st) d) \<or> (d, Request r) \<in> set (st_held st) \<or>
     (d, Request r) \<in> set (st_checked st) \<or> (d, Request r) \<in> set (st_sent st)"

definition placed :: "runtime_state \<Rightarrow> bool" where
  "placed st \<longleftrightarrow>
     (\<forall>d r. found d r st \<longrightarrow>
        (\<exists>x. st_dispatches st (tr_request_id r) = Some x \<and> dp_device x = d \<and> dp_request x = r)) \<and>
     (\<forall>q x. st_dispatches st q = Some x \<longrightarrow> tr_request_id (dp_request x) = q \<and> copies q x st \<le> 1)"

lemma placedI:
  assumes "\<And>d r. found d r st \<Longrightarrow>
      \<exists>x. st_dispatches st (tr_request_id r) = Some x \<and> dp_device x = d \<and> dp_request x = r"
    and "\<And>q x. st_dispatches st q = Some x \<Longrightarrow> tr_request_id (dp_request x) = q"
    and "\<And>q x. st_dispatches st q = Some x \<Longrightarrow> copies q x st \<le> 1"
  shows "placed st"
  using assms by (auto simp: placed_def)

lemma placedD:
  assumes "placed st"
  shows "found d r st \<Longrightarrow>
      \<exists>x. st_dispatches st (tr_request_id r) = Some x \<and> dp_device x = d \<and> dp_request x = r"
    and "st_dispatches st q = Some x \<Longrightarrow> tr_request_id (dp_request x) = q"
    and "st_dispatches st q = Some x \<Longrightarrow> copies q x st \<le> 1"
  using assms by (auto simp: placed_def)

lemma set_dispatch_simps [simp]:
  "st_db (set_dispatch q f st) = st_db st" "st_held (set_dispatch q f st) = st_held st"
  "st_read (set_dispatch q f st) = st_read st" "st_sent (set_dispatch q f st) = st_sent st"
  "st_checked (set_dispatch q f st) = st_checked st"
  "st_queued (set_dispatch q f st) = st_queued st"
  "st_dispatches (set_dispatch q f st) q' =
     (if q' = q then map_option f (st_dispatches st q) else st_dispatches st q')"
  by (simp_all add: set_dispatch_def)

lemma found_set_dispatch [simp]: "found d r (set_dispatch q f st) = found d r st"
  by (simp add: found_def)

lemma copies_set_dispatch [simp]: "copies q' x (set_dispatch q f st) = copies q' x st"
  by (simp add: copies_def)

text \<open>What a step may do to the places of requests: take some away.\<close>

lemma placed_mono:
  assumes "placed st"
    and "\<And>d r. found d r st' \<Longrightarrow> found d r st"
    and "\<And>q x. st_dispatches st q = Some x \<Longrightarrow>
      \<exists>x'. st_dispatches st' q = Some x' \<and> dp_request x' = dp_request x \<and> dp_device x' = dp_device x \<and>
        copies q x' st' \<le> copies q x st"
    and "\<And>q. st_dispatches st q = None \<Longrightarrow> st_dispatches st' q = None"
  shows "placed st'"
proof (rule placedI)
  fix d r assume "found d r st'"
  then have "found d r st" by (rule assms(2))
  with placedD(1) [OF assms(1)] assms(3) show
    "\<exists>x. st_dispatches st' (tr_request_id r) = Some x \<and> dp_device x = d \<and> dp_request x = r" by metis
next
  fix q x assume x: "st_dispatches st' q = Some x"
  with assms(4) obtain x0 where x0: "st_dispatches st q = Some x0" by (cases "st_dispatches st q") auto
  from assms(3) [OF this] x have "dp_request x = dp_request x0" and c: "copies q x st' \<le> copies q x0 st" by auto
  with placedD(2) [OF assms(1) x0] show "tr_request_id (dp_request x) = q" by simp
  from c placedD(3) [OF assms(1) x0] show "copies q x st' \<le> 1" by simp
qed

lemma placed_set_dispatch:
  assumes "placed st" and "st_dispatches st q = Some x"
    and "dp_request (f x) = dp_request x" "dp_device (f x) = dp_device x" "dp_on_wire (f x) \<longrightarrow> dp_on_wire x"
  shows "placed (set_dispatch q f st)"
  by (rule placed_mono [OF assms(1)]) (use assms(2-) in \<open>auto simp: copies_def\<close>)

lemma placed_db:
  assumes "placed st" and "\<And>d. db_queue db d = db_queue (st_db st) d"
  shows "placed (st\<lparr>st_db := db\<rparr>)"
  by (rule placed_mono [OF assms(1)]) (use assms(2) in \<open>auto simp: copies_def found_def\<close>)

lemma placed_queued [simp]: "placed (st\<lparr>st_queued := xs\<rparr>) = placed st"
  by (simp add: placed_def found_def copies_def)

lemma queue_simps [simp]:
  "db_queue (push_queue d m db) = (db_queue db)(d := db_queue db d @ [m])"
  "db_queue (dispatch_pipeline d r db) = (db_queue db)(d := db_queue db d @ [Request r])"
  "db_queue (drop_pending v q db) = db_queue db"
  "db_queue (publish_pipeline sender v res db) = db_queue db"
  "db_queue (clear_pipeline v q db) = db_queue db"
  "db_queue (delete_keys d ids db) = (db_queue db)(d := [])"
  by (simp_all add: push_queue_def dispatch_pipeline_def drop_pending_def publish_pipeline_def clear_pipeline_def
      delete_keys_def Let_def split: option.split)

lemma queue_fold [simp]:
  "db_queue (fold (\<lambda>q db. publish_pipeline None None (disconnect_result q reason) db) ids db) = db_queue db"
  by (induction ids arbitrary: db) auto

lemma queue_sync_fail [simp]: "db_queue (sync_fail_pipeline d ids reason db) = db_queue db"
  by (simp add: sync_fail_pipeline_def Let_def)

lemma placed_push:
  assumes "placed st" and "st_dispatches st q = Some x" and "dp_on_wire x"
    and "dp_request (f x) = dp_request x" "dp_device (f x) = dp_device x" "\<not> dp_on_wire (f x)"
    and "db_queue db = (db_queue (st_db st))(dp_device x := db_queue (st_db st) (dp_device x) @ [Request (dp_request x)])"
  shows "placed (set_dispatch q f (st\<lparr>st_db := db\<rparr>))"
proof (rule placedI)
  note id = placedD(2) [OF assms(1)]
  fix d r assume "found d r (set_dispatch q f (st\<lparr>st_db := db\<rparr>))"
  then have "found d r st \<or> d = dp_device x \<and> r = dp_request x"
    using assms(7) by (auto simp: found_def split: if_splits)
  then show "\<exists>x. st_dispatches (set_dispatch q f (st\<lparr>st_db := db\<rparr>)) (tr_request_id r) = Some x \<and>
      dp_device x = d \<and> dp_request x = r"
    using placedD(1) [OF assms(1)] id [OF assms(2)] assms(2,4,5) by (auto; metis option.inject)
next
  fix q' x' assume x': "st_dispatches (set_dispatch q f (st\<lparr>st_db := db\<rparr>)) q' = Some x'"
  then show "tr_request_id (dp_request x') = q'"
    using placedD(2) [OF assms(1)] assms(2,4) by (auto split: if_splits)
  show "copies q' x' (set_dispatch q f (st\<lparr>st_db := db\<rparr>)) \<le> 1"
  proof (cases "q' = q")
    case True
    with x' assms(2) have "x' = f x" by simp
    with True placedD(3) [OF assms(1,2)] placedD(2) [OF assms(1,2)] assms(3-7) show ?thesis
      by (simp add: copies_def)
  next
    case False
    with x' have "st_dispatches st q' = Some x'" by simp
    have "copies q' x' (set_dispatch q f (st\<lparr>st_db := db\<rparr>)) = copies q' x' st"
      using False placedD(2) [OF assms(1,2)] assms(7) by (simp add: copies_def)
    with placedD(3) [OF assms(1) \<open>st_dispatches st q' = Some x'\<close>] show ?thesis by simp
  qed
qed

lemma placed_cancel:
  assumes "placed st" and "db_queue db = (db_queue (st_db st))(d := db_queue (st_db st) d @ [Cancel q])"
  shows "placed (st\<lparr>st_db := db\<rparr>)"
  by (rule placed_mono [OF assms(1)]) (use assms(2) in \<open>auto simp: copies_def found_def split: if_splits\<close>)

lemma placed_remove:
  assumes "placed st" and "db_queue db = (db_queue (st_db st))(d := remove1 m (db_queue (st_db st) d))"
  shows "placed (st\<lparr>st_db := db\<rparr>)"
proof (rule placed_mono [OF assms(1)])
  fix d' r assume "found d' r (st\<lparr>st_db := db\<rparr>)"
  with assms(2) show "found d' r st" using set_remove1_subset [of m] by (auto simp: found_def split: if_splits)
next
  have "requests q (remove1 m ms) \<le> requests q ms" for q ms
    using requests_remove1 [of q m ms] by simp
  then show "\<exists>x'. st_dispatches (st\<lparr>st_db := db\<rparr>) q = Some x' \<and> dp_request x' = dp_request x \<and>
      dp_device x' = dp_device x \<and> copies q x' (st\<lparr>st_db := db\<rparr>) \<le> copies q x st"
    if "st_dispatches st q = Some x" for q x
    using that assms(2) by (simp add: copies_def)
qed simp

lemma withdraw_queue [simp]:
  "db_queue (snd (withdraw_pipeline d r db)) = (db_queue db)(d := remove1 (Request r) (db_queue db d))"
  by (simp add: withdraw_pipeline_def)

lemma placed_dispatcher:
  assumes "placed st" and "st_dispatches st q = Some x" and "op_request operation = Some q"
  shows "placed (dispatcher_step x operation st)"
proof (cases operation)
  case (PushApplied q')
  have "placed (set_dispatch q f
      (st\<lparr>st_queued := xs, st_db := dispatch_pipeline (dp_device x) (dp_request x) (st_db st)\<rparr>))"
    if "dp_on_wire x" "dp_request (f x) = dp_request x" "dp_device (f x) = dp_device x" "\<not> dp_on_wire (f x)" for f xs
    using assms(1,2) that by (intro placed_push) auto
  moreover have eq: "st\<lparr>st_db := db, st_queued := xs\<rparr> = st\<lparr>st_queued := xs, st_db := db\<rparr>" for db xs by simp
  ultimately show ?thesis using assms unfolding PushApplied dispatcher_step.simps eq by simp
next
  case (Mark q')
  have p: "placed (set_dispatch q f (st\<lparr>st_db := snd (withdraw_pipeline (dp_device x) (dp_request x) (st_db st))\<rparr>))"
    if "dp_request (f x) = dp_request x" "dp_device (f x) = dp_device x" "dp_on_wire (f x) \<longrightarrow> dp_on_wire x" for f
    by (rule placed_set_dispatch [OF placed_remove [OF assms(1)]]) (use assms(2) that in auto)
  from Mark assms(3) p [of withdrawal_done] p [of "\<lambda>x. x\<lparr>dp_withdrawal := ToCancel\<rparr>"] assms(1) show ?thesis
    by (auto simp: withdrawal_done_def case_prod_beta)
next
  case (PushCancel q')
  with assms show ?thesis
    by (auto simp: withdrawal_done_def intro!: placed_set_dispatch placed_cancel)
next
  case (TakeResult q')
  with assms show ?thesis
    by (auto intro!: placed_set_dispatch placed_db split: dispatch_phase.split list.split)
next
  case (ClearWrite q')
  with assms show ?thesis
    by (auto intro!: placed_set_dispatch placed_db split: dispatch_phase.split)
qed (use assms in \<open>auto intro!: placed_set_dispatch split: dispatch_phase.split\<close>)

text \<open>A gateway moves what it has on, or loses it.\<close>

lemma placed_gateway:
  assumes "placed st" and "st_dispatches st' = st_dispatches st" and "st_db st' = st_db st"
    and "set (st_held st') \<union> set (st_checked st') \<union> set (st_sent st') \<subseteq> set (st_held st) \<union> set (st_checked st) \<union> set (st_sent st)"
    and "\<And>q. requests q (map snd (st_held st')) + requests q (map snd (st_checked st')) + requests q (map snd (st_sent st')) \<le>
      requests q (map snd (st_held st)) + requests q (map snd (st_checked st)) + requests q (map snd (st_sent st))"
  shows "placed st'"
proof (rule placed_mono [OF assms(1)])
  show "found d r st" if "found d r st'" for d r
    using that assms(3,4) by (auto simp: found_def)
next
  have "copies q x st' \<le> copies q x st" for q x
    using assms(3) assms(5) [of q] by (simp add: copies_def)
  then show "\<exists>x'. st_dispatches st' q = Some x' \<and> dp_request x' = dp_request x \<and> dp_device x' = dp_device x \<and>
      copies q x' st' \<le> copies q x st" if "st_dispatches st q = Some x" for q x
    using that assms(2) by simp
qed (use assms(2) in simp)

lemma placed_check:
  assumes "placed st" and "i < length (st_held st)"
  shows "placed (check_message (st_held st ! i) (st\<lparr>st_held := without_nth i (st_held st)\<rparr>))"
proof (rule placed_gateway [OF assms(1)])
  let ?st = "check_message (st_held st ! i) (st\<lparr>st_held := without_nth i (st_held st)\<rparr>)"
  show "set (st_held ?st) \<union> set (st_checked ?st) \<union> set (st_sent ?st) \<subseteq> set (st_held st) \<union> set (st_checked st) \<union> set (st_sent st)"
    using set_without_nth [of i "st_held st"] nth_mem [OF assms(2)] by (auto simp: check_message_def split: queue_msg.split)
  show "requests q (map snd (st_held ?st)) + requests q (map snd (st_checked ?st)) + requests q (map snd (st_sent ?st)) \<le>
      requests q (map snd (st_held st)) + requests q (map snd (st_checked st)) + requests q (map snd (st_sent st))" for q
    using requests_without [of q i "st_held st"] assms(2) by (auto simp: check_message_def split: queue_msg.split if_splits)
qed (simp_all add: check_message_def split: queue_msg.split)

lemma placed_send:
  assumes "placed st" and "i < length (st_checked st)"
  shows "placed (st\<lparr>st_checked := without_nth i (st_checked st), st_sent := st_sent st @ [st_checked st ! i]\<rparr>)"
proof (rule placed_gateway [OF assms(1)])
  let ?st = "st\<lparr>st_checked := without_nth i (st_checked st), st_sent := st_sent st @ [st_checked st ! i]\<rparr>"
  show "set (st_held ?st) \<union> set (st_checked ?st) \<union> set (st_sent ?st) \<subseteq> set (st_held st) \<union> set (st_checked st) \<union> set (st_sent st)"
    using set_without_nth [of i "st_checked st"] nth_mem [OF assms(2)] by auto
  show "requests q (map snd (st_held ?st)) + requests q (map snd (st_checked ?st)) + requests q (map snd (st_sent ?st)) \<le>
      requests q (map snd (st_held st)) + requests q (map snd (st_checked st)) + requests q (map snd (st_sent st))" for q
    using requests_without [of q i "st_checked st"] assms(2) by simp
qed simp_all

lemma placed_lost:
  assumes "placed st"
  shows "placed (st\<lparr>st_held := without_nth i (st_held st)\<rparr>)" "placed (st\<lparr>st_checked := without_nth i (st_checked st)\<rparr>)"
proof -
  have le: "requests q (map snd (without_nth i xs)) \<le> requests q (map snd xs)" for q xs
    using requests_without [of q i xs] by simp
  show "placed (st\<lparr>st_held := without_nth i (st_held st)\<rparr>)"
    by (rule placed_gateway [OF assms]) (use set_without_nth [of i "st_held st"] le in auto)
  show "placed (st\<lparr>st_checked := without_nth i (st_checked st)\<rparr>)"
    by (rule placed_gateway [OF assms]) (use set_without_nth [of i "st_checked st"] le in auto)
qed

lemma placed_take:
  assumes "placed st" and "db_queue (st_db st) d = m # ms"
    and "st_held st' = st_held st @ [(d, m)]" and "st_dispatches st' = st_dispatches st"
    and "st_sent st' = st_sent st" and "st_checked st' = st_checked st"
    and "db_queue (st_db st') = (db_queue (st_db st))(d := ms)"
  shows "placed st'"
proof (rule placedI)
  have f: "found d' r st" if "found d' r st'" for d' r
    using that assms(2-) by (auto simp: found_def split: if_splits)
  show "\<exists>x. st_dispatches st' (tr_request_id r) = Some x \<and> dp_device x = d' \<and> dp_request x = r"
    if "found d' r st'" for d' r
    using placedD(1) [OF assms(1) f [OF that]] assms(4) by simp
  fix q x assume x: "st_dispatches st' q = Some x"
  then have x0: "st_dispatches st q = Some x" using assms(4) by simp
  show "tr_request_id (dp_request x) = q" by (rule placedD(2) [OF assms(1) x0])
  have "copies q x st' = copies q x st"
  proof (cases "dp_device x = d")
    case True
    with assms(2-) show ?thesis by (simp add: copies_def)
  next
    case False
    have "\<not> is_request q m"
    proof
      assume "is_request q m"
      then obtain r where r: "m = Request r" "tr_request_id r = q" by (auto simp: is_request_def split: queue_msg.splits)
      with assms(2) have "found d r st" by (simp add: found_def)
      from placedD(1) [OF assms(1) this] r x0 False show False by auto
    qed
    with False assms(2-) show ?thesis by (simp add: copies_def)
  qed
  with placedD(3) [OF assms(1) x0] show "copies q x st' \<le> 1" by simp
qed

lemma placed_dispatch:
  assumes "placed st" and "st_dispatches st (tr_request_id r) = None"
  shows "placed (server_step (Dispatch d r) st)"
proof -
  let ?st = "server_step (Dispatch d r) st" and ?q = "tr_request_id r"
  have none: "\<not> found d' r' st" if "tr_request_id r' = ?q" for d' r'
    using placedD(1) [OF assms(1), of d' r'] assms(2) that by auto
  have f: "found d' r' (st\<lparr>st_dispatches := m\<rparr>) = found d' r' st" for d' r' m by (simp add: found_def)
  have "requests ?q (db_queue (st_db st) d') = 0" for d'
    using none requests_pos [of ?q "db_queue (st_db st) d'"] by (auto simp: found_def)
  moreover have "\<not> 0 < requests ?q (map snd (st_held st))"
    unfolding requests_pos using none by (auto simp: found_def)
  moreover have "\<not> 0 < requests ?q (map snd (st_checked st))"
    unfolding requests_pos using none by (auto simp: found_def)
  moreover have "\<not> 0 < requests ?q (map snd (st_sent st))"
    unfolding requests_pos using none by (auto simp: found_def)
  ultimately have "copies ?q (the (st_dispatches ?st ?q)) ?st = 1"
    using assms(2) by (simp add: copies_def)
  moreover have "copies q' x' (st\<lparr>st_dispatches := m\<rparr>) = copies q' x' st" for q' x' m by (simp add: copies_def)
  ultimately show ?thesis
    using placedD [OF assms(1)] assms(2) none
    by (intro placedI) (auto simp: f split: if_splits)
qed

lemma placed_server:
  assumes "placed st"
  shows "placed (server_step operation st)"
proof (cases operation)
  case (Dispatch d r)
  with assms placed_dispatch [of st r d] show ?thesis by (cases "st_dispatches st (tr_request_id r) = None") auto
next
  case (Take d)
  show ?thesis
  proof (cases "db_queue (st_db st) d")
    case (Cons m ms)
    show ?thesis by (rule placed_take [OF assms Cons]) (simp_all add: Take Cons on_db_def)
  qed (use Take assms in simp)
next
  case (Check i)
  with assms placed_check [OF assms, of i] show ?thesis by simp
next
  case (Lose i)
  then show ?thesis using placed_lost [OF assms] by simp
next
  case (Send i)
  then show ?thesis using assms placed_send [OF assms, of i] by simp
next
  case (SendFails i)
  then show ?thesis using placed_lost [OF assms] by simp
next
  case (DeleteSession d ids)
  have "placed (on_db (delete_keys d ids) st)"
    by (rule placed_mono [OF assms]) (auto simp: on_db_def found_def copies_def split: if_splits)
  with DeleteSession show ?thesis by simp
next
  case (PublishWrite i)
  have "placed (on_db (publish_pipeline s v r) (st\<lparr>st_read := xs\<rparr>))" for s v r xs
    by (rule placed_mono [OF assms]) (auto simp: on_db_def found_def copies_def)
  with PublishWrite assms show ?thesis by (simp split: prod.split)
next
  case (PublishRead sender res)
  have "placed (st\<lparr>st_read := xs\<rparr>)" for xs
    by (rule placed_mono [OF assms]) (auto simp: found_def copies_def)
  with PublishRead assms show ?thesis by (simp add: Let_def)
qed (simp_all add: assms on_db_def placed_db)

lemma placed_step: "placed st \<Longrightarrow> placed (runtime_step operation st)"
  by (auto simp: runtime_step_def placed_server placed_dispatcher split: option.split)

lemma placed_run: "placed st \<Longrightarrow> placed (runtime_run ops st)"
  by (induction ops arbitrary: st) (auto simp: placed_step)

lemma placed_initial: "placed initial_runtime"
  by (simp add: placed_def initial_runtime_def found_def empty_runtime_db_def)

section \<open>What was dispatched\<close>

lemma dispatcher_dispatches:
  assumes "st_dispatches st q = Some x" and "op_request operation = Some q"
  shows "\<exists>x'. st_dispatches (dispatcher_step x operation st) = (st_dispatches st)(q \<mapsto> x') \<and>
    dp_request x' = dp_request x \<and> dp_device x' = dp_device x"
proof -
  have s: "st_dispatches (set_dispatch q f st1) = (st_dispatches st)(q \<mapsto> f x)"
    if "st_dispatches st1 = st_dispatches st" for f st1 using assms(1) that by (auto simp: set_dispatch_def)
  have same: "st_dispatches st = (st_dispatches st)(q \<mapsto> x)" using assms(1) by auto
  show ?thesis
    using assms(2) same
    by (cases operation)
      (auto simp: s withdrawal_done_def case_prod_beta split: dispatch_phase.split list.split)
qed

lemma server_dispatches:
  "st_dispatches (server_step operation st) = st_dispatches st \<or>
   (\<exists>d r. operation = Dispatch d r \<and> st_dispatches st (tr_request_id r) = None \<and>
      st_dispatches (server_step operation st) = (st_dispatches st)(tr_request_id r \<mapsto>
        \<lparr>dp_request = r, dp_device = d, dp_phase = Sending, dp_on_wire = True, dp_withdrawal = NotWithdrawn\<rparr>))"
  by (cases operation) (auto simp: on_db_def check_message_def Let_def split: list.split queue_msg.split prod.split)

lemma dispatches_step:
  assumes "st_dispatches (runtime_step operation st) q = Some x"
  obtains (old) x0 where "st_dispatches st q = Some x0" "dp_request x = dp_request x0" "dp_device x = dp_device x0"
  | (new) "operation = Dispatch (dp_device x) (dp_request x)" "tr_request_id (dp_request x) = q"
      "st_dispatches st q = None"
proof (cases "op_request operation")
  case None
  then have "runtime_step operation st = server_step operation st" by (simp add: runtime_step_def)
  with assms server_dispatches [of operation st] have "st_dispatches st q = Some x \<or>
      operation = Dispatch (dp_device x) (dp_request x) \<and> tr_request_id (dp_request x) = q \<and> st_dispatches st q = None"
    by (auto split: if_splits)
  then show ?thesis
  proof
    assume "st_dispatches st q = Some x"
    then show ?thesis by (rule old) simp_all
  next
    assume "operation = Dispatch (dp_device x) (dp_request x) \<and> tr_request_id (dp_request x) = q \<and> st_dispatches st q = None"
    then show ?thesis by (intro new) simp_all
  qed
next
  case (Some p)
  show ?thesis
  proof (cases "st_dispatches st p")
    case None
    with Some assms have "st_dispatches st q = Some x" by (simp add: runtime_step_def)
    then show ?thesis by (rule old) simp_all
  next
    case (Some y)
    with \<open>op_request operation = Some p\<close> have "runtime_step operation st = dispatcher_step y operation st"
      by (simp add: runtime_step_def)
    with dispatcher_dispatches [OF Some \<open>op_request operation = Some p\<close>] assms Some show ?thesis
      by (auto split: if_splits intro: old)
  qed
qed

lemma dispatches_kept:
  assumes "st_dispatches st q = Some x"
  obtains x' where "st_dispatches (runtime_step operation st) q = Some x'" "dp_request x' = dp_request x"
    "dp_device x' = dp_device x"
proof (cases "op_request operation")
  case None
  with assms server_dispatches [of operation st] have "st_dispatches (runtime_step operation st) q = Some x"
    by (auto simp: runtime_step_def)
  then show ?thesis by (rule that) simp_all
next
  case (Some p)
  with assms dispatcher_dispatches [of st p _ operation] show ?thesis
    by (cases "st_dispatches st p"; cases "p = q") (fastforce simp: runtime_step_def intro: that)+
qed

lemma dispatched:
  assumes "st_dispatches (runtime_run ops initial_runtime) q = Some x"
  shows "Dispatch (dp_device x) (dp_request x) \<in> set ops \<and> tr_request_id (dp_request x) = q"
  using assms
proof (induction ops arbitrary: x rule: rev_induct)
  case Nil
  then show ?case by (simp add: initial_runtime_def)
next
  case (snoc operation ops)
  from snoc.prems have "st_dispatches (runtime_step operation (runtime_run ops initial_runtime)) q = Some x" by simp
  then show ?case
  proof (cases rule: dispatches_step)
    case (old x0)
    with snoc.IH [OF old(1)] show ?thesis by simp
  qed simp
qed

section \<open>Withdrawn requests\<close>

lemma withdrawn_simps [simp]:
  "db_withdrawn (push_queue d m db) = db_withdrawn db"
  "db_withdrawn (dispatch_pipeline d r db) = db_withdrawn db"
  "db_withdrawn (drop_pending v q db) = db_withdrawn db"
  "db_withdrawn (publish_pipeline sender v res db) = db_withdrawn db"
  "db_withdrawn (clear_pipeline v q db) = db_withdrawn db"
  "db_withdrawn (delete_keys d ids db) = db_withdrawn db"
  "db_withdrawn (snd (withdraw_pipeline d r db)) = (db_withdrawn db)(tr_request_id r := True)"
  by (simp_all add: push_queue_def dispatch_pipeline_def drop_pending_def publish_pipeline_def clear_pipeline_def
      delete_keys_def withdraw_pipeline_def Let_def split: option.split)

lemma withdrawn_fold [simp]:
  "db_withdrawn (fold (\<lambda>q db. publish_pipeline None None (disconnect_result q reason) db) ids db) = db_withdrawn db"
  by (induction ids arbitrary: db) auto

lemma withdrawn_sync_fail [simp]: "db_withdrawn (sync_fail_pipeline d ids reason db) = db_withdrawn db"
  by (simp add: sync_fail_pipeline_def Let_def)

text \<open>A step of a dispatch sends nothing, and leaves every marker or sets one.\<close>

lemma dispatcher_frame:
  "st_sent (dispatcher_step x operation st) = st_sent st" "st_checked (dispatcher_step x operation st) = st_checked st"
  "db_withdrawn (st_db st) q \<Longrightarrow> db_withdrawn (st_db (dispatcher_step x operation st)) q"
  "set (st_queued st) \<subseteq> set (st_queued (dispatcher_step x operation st))"
  by (cases operation; force simp: case_prod_beta split: dispatch_phase.split list.split)+

lemma server_markers:
  "operation \<noteq> ExpireMarker q \<Longrightarrow> db_withdrawn (st_db (server_step operation st)) q = db_withdrawn (st_db st) q"
  by (cases operation)
    (auto simp: on_db_def check_message_def Let_def split: list.split queue_msg.split prod.split)

lemma server_queued: "st_queued (server_step operation st) = st_queued st"
  by (cases operation)
    (auto simp: on_db_def check_message_def Let_def split: list.split queue_msg.split prod.split)

text \<open>How many copies of a request are past the check; a marked one gets no new ones.\<close>

definition passed :: "string \<Rightarrow> runtime_state \<Rightarrow> nat" where
  "passed q st = requests q (map snd (st_checked st)) + requests q (map snd (st_sent st))"

lemma server_passed:
  assumes "db_withdrawn (st_db st) q"
  shows "passed q (server_step operation st) \<le> passed q st"
proof (cases operation)
  case (Check i)
  with assms show ?thesis by (auto simp: passed_def check_message_def split: queue_msg.split)
next
  case (Send i)
  with requests_without [of q i "st_checked st"] show ?thesis by (auto simp: passed_def)
next
  case (SendFails i)
  with requests_without [of q i "st_checked st"] show ?thesis by (simp add: passed_def)
qed (auto simp: passed_def on_db_def Let_def split: list.split prod.split)

lemma marker_step:
  assumes "db_withdrawn (st_db st) q" and "operation \<noteq> ExpireMarker q"
  shows "db_withdrawn (st_db (runtime_step operation st)) q \<and> passed q (runtime_step operation st) \<le> passed q st"
proof -
  have "passed q (dispatcher_step x operation st) = passed q st" for x by (simp add: passed_def dispatcher_frame)
  with assms server_passed [OF assms(1)] show ?thesis
    by (auto simp: runtime_step_def server_markers dispatcher_frame split: option.split)
qed

lemma marker_run:
  assumes "db_withdrawn (st_db st) q" and "ExpireMarker q \<notin> set ops"
  shows "passed q (runtime_run ops st) \<le> passed q st"
  using assms
proof (induction ops arbitrary: st)
  case (Cons operation ops)
  from Cons.prems marker_step [of st q operation] have "db_withdrawn (st_db (runtime_step operation st)) q"
    and le: "passed q (runtime_step operation st) \<le> passed q st" by auto
  with Cons.IH Cons.prems(2) have "passed q (runtime_run ops (runtime_step operation st)) \<le> passed q (runtime_step operation st)"
    by simp
  with le show ?case by simp
qed simp

text \<open>A withdrawal that got past its marker, and what a caller that gave up knows.\<close>

definition marked :: "string \<Rightarrow> dispatch \<Rightarrow> runtime_state \<Rightarrow> bool" where
  "marked q x st \<longleftrightarrow>
     (dp_withdrawal x \<in> {ToCancel, Withdrawn} \<longrightarrow> db_withdrawn (st_db st) q) \<and>
     (dp_withdrawal x = Withdrawn \<and> 0 < passed q st \<longrightarrow>
        (dp_device x, Cancel q) \<in> set (st_queued st))"

definition gave_up :: "dispatch_outcome \<Rightarrow> bool" where
  "gave_up why \<longleftrightarrow> why = TimedOut \<or> why = Stopped"

definition told :: "dispatch \<Rightarrow> bool" where
  "told x \<longleftrightarrow>
     (case dp_phase x of Clearing why \<Rightarrow> gave_up why | Cleared v why \<Rightarrow> gave_up why | Ended why \<Rightarrow> gave_up why | _ \<Rightarrow> False) \<longrightarrow>
     dp_withdrawal x = Withdrawn"

lemma marked_dispatcher:
  assumes "placed st" and "st_dispatches st q = Some x" and "op_request operation = Some q" and "marked q x st"
    and "st_dispatches (dispatcher_step x operation st) q = Some x'"
  shows "marked q x' (dispatcher_step x operation st)"
proof (cases operation)
  case (Mark q')
  note id = placedD(2) [OF assms(1,2)]
  have c: "passed q st = 0"
    if "Request (dp_request x) \<in> set (db_queue (st_db st) (dp_device x))"
  proof -
    from that id have "0 < requests q (db_queue (st_db st) (dp_device x))" by (auto simp: requests_pos)
    with placedD(3) [OF assms(1,2)] show ?thesis by (simp add: copies_def passed_def)
  qed
  from Mark assms id c show ?thesis
    by (cases "Request (dp_request x) \<in> set (db_queue (st_db st) (dp_device x))")
      (auto simp: marked_def passed_def withdrawal_done_def withdraw_pipeline_def split: if_splits)
next
  case (PushCancel q')
  with assms show ?thesis by (auto simp: marked_def passed_def withdrawal_done_def split: if_splits)
next
  case (TakeResult q')
  with assms show ?thesis by (auto simp: marked_def passed_def split: dispatch_phase.splits list.splits)
next
  case (Break q')
  with assms show ?thesis by (auto simp: marked_def passed_def split: dispatch_phase.splits)
qed (use assms in \<open>auto simp: marked_def passed_def split: dispatch_phase.splits if_splits\<close>)

lemma told_dispatcher:
  assumes "st_dispatches st q = Some x" and "op_request operation = Some q" and "told x"
    and "operation \<noteq> SecondStop q" and "st_dispatches (dispatcher_step x operation st) q = Some x'"
  shows "told x'"
proof (cases operation)
  case (Mark q')
  with assms show ?thesis
    by (auto simp: told_def withdrawal_done_def case_prod_beta split: if_splits dispatch_phase.splits)
next
  case (PushCancel q')
  with assms show ?thesis
    by (auto simp: told_def withdrawal_done_def split: if_splits dispatch_phase.splits)
next
  case (TakeResult q')
  with assms show ?thesis
    by (auto simp: told_def gave_up_def split: dispatch_phase.splits list.splits)
qed (use assms in \<open>auto simp: told_def gave_up_def split: dispatch_phase.splits if_splits\<close>)

lemma marked_frame:
  assumes "marked q x st" and "db_withdrawn (st_db st) q \<Longrightarrow> db_withdrawn (st_db st') q"
    and "set (st_queued st) \<subseteq> set (st_queued st')"
    and "db_withdrawn (st_db st) q \<Longrightarrow> passed q st' \<le> passed q st"
  shows "marked q x st'"
  using assms by (auto simp: marked_def)

lemma withdrawal_step:
  assumes "placed st" and "operation \<noteq> ExpireMarker q" and "waits \<longrightarrow> operation \<noteq> SecondStop q"
    and "\<And>x. st_dispatches st q = Some x \<Longrightarrow> marked q x st \<and> (waits \<longrightarrow> told x)"
    and "st_dispatches (runtime_step operation st) q = Some x'"
  shows "marked q x' (runtime_step operation st) \<and> (waits \<longrightarrow> told x')"
proof (cases "op_request operation")
  case None
  then have s: "runtime_step operation st = server_step operation st" by (simp add: runtime_step_def)
  have frame: "marked q x (server_step operation st)" if "marked q x st" for x
    using that by (rule marked_frame) (simp_all add: server_markers [OF assms(2)] server_queued server_passed)
  from server_dispatches [of operation st] assms(5) s
  have "st_dispatches st q = Some x' \<or> dp_withdrawal x' = NotWithdrawn \<and> dp_phase x' = Sending"
    by (auto split: if_splits)
  with assms(4) frame s show ?thesis by (auto simp: marked_def told_def)
next
  case (Some p)
  show ?thesis
  proof (cases "st_dispatches st p")
    case None
    with Some assms(4,5) show ?thesis by (simp add: runtime_step_def)
  next
    case (Some y)
    with \<open>op_request operation = Some p\<close> have s: "runtime_step operation st = dispatcher_step y operation st"
      by (simp add: runtime_step_def)
    show ?thesis
    proof (cases "p = q")
      case True
      with Some s assms(3-5) \<open>op_request operation = Some p\<close> marked_dispatcher [OF assms(1), of q y operation x']
        told_dispatcher [of st q y operation x'] show ?thesis by simp
    next
      case False
      with dispatcher_dispatches [OF Some \<open>op_request operation = Some p\<close>] assms(5) s
      have "st_dispatches st q = Some x'" by auto
      with assms(4) have "marked q x' st" "waits \<longrightarrow> told x'" by auto
      moreover from this(1) have "marked q x' (dispatcher_step y operation st)"
        by (rule marked_frame) (simp_all add: dispatcher_frame passed_def)
      ultimately show ?thesis by (simp add: s)
    qed
  qed
qed

lemma withdrawal_run:
  assumes "ExpireMarker q \<notin> set ops" and "st_dispatches (runtime_run ops initial_runtime) q = Some x"
  shows "marked q x (runtime_run ops initial_runtime) \<and> (SecondStop q \<notin> set ops \<longrightarrow> told x)"
  using assms
proof (induction ops arbitrary: x rule: rev_induct)
  case Nil
  then show ?case by (simp add: initial_runtime_def)
next
  case (snoc operation ops)
  let ?st = "runtime_run ops initial_runtime" and ?waits = "SecondStop q \<notin> set (ops @ [operation])"
  from snoc.prems have "operation \<noteq> ExpireMarker q" by auto
  moreover have "?waits \<longrightarrow> operation \<noteq> SecondStop q" by auto
  moreover have "marked q y ?st \<and> (?waits \<longrightarrow> told y)" if "st_dispatches ?st q = Some y" for y
    using snoc.IH [OF _ that] snoc.prems(1) by auto
  ultimately have "marked q x (runtime_step operation ?st) \<and> (?waits \<longrightarrow> told x)"
    using snoc.prems(2) by (intro withdrawal_step [OF placed_run [OF placed_initial]]) auto
  then show ?case by simp
qed

section \<open>Whose results they are\<close>

definition sent_by :: "runtime_state \<Rightarrow> string option \<Rightarrow> device_result \<Rightarrow> bool" where
  "sent_by st sender res \<longleftrightarrow>
     (\<forall>d. sender = Some d \<longrightarrow> (\<exists>x. st_dispatches st (rs_request_id res) = Some x \<and> dp_device x = d))"

definition outcome_of :: "dispatch \<Rightarrow> dispatch_outcome option" where
  "outcome_of x =
     (case dp_phase x of Withdrawing why \<Rightarrow> Some why | Clearing why \<Rightarrow> Some why | Cleared v why \<Rightarrow> Some why
      | Ended why \<Rightarrow> Some why | _ \<Rightarrow> None)"

definition attributed :: "runtime_state \<Rightarrow> bool" where
  "attributed st \<longleftrightarrow>
     (\<forall>q d. db_request_device (st_db st) q = Some d \<longrightarrow> (\<exists>x. st_dispatches st q = Some x \<and> dp_device x = d)) \<and>
     (\<forall>sender v res. (sender, v, res) \<in> set (st_read st) \<longrightarrow> sent_by st sender res) \<and>
     (\<forall>q sender res. (sender, res) \<in> set (db_results (st_db st) q) \<longrightarrow> rs_request_id res = q \<and> sent_by st sender res) \<and>
     (\<forall>q x sender res. st_dispatches st q = Some x \<and> outcome_of x = Some (Answered sender res) \<longrightarrow>
        rs_request_id res = q \<and> sent_by st sender res)"

lemma sent_by_step: "sent_by st sender res \<Longrightarrow> sent_by (runtime_step operation st) sender res"
  unfolding sent_by_def by (metis dispatches_kept)

lemma publish_fields [simp]:
  "db_results (push_queue d m db) = db_results db"
  "db_request_device (push_queue d m db) = db_request_device db"
  "db_results (drop_pending v q db) = db_results db"
  "db_request_device (drop_pending v q db) = db_request_device db"
  "db_results (dispatch_pipeline d r db) = db_results db"
  "db_request_device (dispatch_pipeline d r db) = (db_request_device db)(tr_request_id r := Some d)"
  "db_results (snd (withdraw_pipeline d r db)) = db_results db"
  "db_request_device (snd (withdraw_pipeline d r db)) = db_request_device db"
  "db_results (publish_pipeline sender v res db) =
     (db_results db)(rs_request_id res := db_results db (rs_request_id res) @ [(sender, res)])"
  "db_request_device (publish_pipeline sender v res db) = (db_request_device db)(rs_request_id res := None)"
  "db_results (clear_pipeline v q db) = (db_results db)(q := [])"
  "db_request_device (clear_pipeline v q db) = (db_request_device db)(q := None)"
  "db_results (delete_keys d ids db) = db_results db"
  by (simp_all add: push_queue_def dispatch_pipeline_def drop_pending_def publish_pipeline_def clear_pipeline_def
      delete_keys_def withdraw_pipeline_def Let_def split: option.split)

lemma fold_disconnect_results:
  "(s, res) \<in> set (db_results (fold (\<lambda>q db. publish_pipeline None None (disconnect_result q reason) db) ids db) q) \<Longrightarrow>
     (s, res) \<in> set (db_results db q) \<or> s = None \<and> rs_request_id res = q"
proof (induction ids arbitrary: db)
  case (Cons a ids)
  from Cons.IH [of "publish_pipeline None None (disconnect_result a reason) db"] Cons.prems
  have "(s, res) \<in> set (db_results (publish_pipeline None None (disconnect_result a reason) db) q) \<or>
      s = None \<and> rs_request_id res = q" by simp
  then show ?case by (auto simp: disconnect_result_def split: if_splits)
qed simp

lemma fold_disconnect_devices:
  "db_request_device (fold (\<lambda>q db. publish_pipeline None None (disconnect_result q reason) db) ids db) q = Some d \<Longrightarrow>
     db_request_device db q = Some d"
proof (induction ids arbitrary: db)
  case (Cons a ids)
  from Cons.IH [of "publish_pipeline None None (disconnect_result a reason) db"] Cons.prems
  have "db_request_device (publish_pipeline None None (disconnect_result a reason) db) q = Some d" by simp
  then show ?case by (auto split: if_splits)
qed simp

lemma sync_fail_fields:
  "(s, res) \<in> set (db_results (sync_fail_pipeline d ids reason db) q) \<Longrightarrow>
     (s, res) \<in> set (db_results db q) \<or> s = None \<and> rs_request_id res = q"
  "db_request_device (sync_fail_pipeline d ids reason db) q = Some d' \<Longrightarrow> db_request_device db q = Some d'"
  using fold_disconnect_results [of s res reason ids db q] fold_disconnect_devices [of reason ids db q d']
  by (auto simp: sync_fail_pipeline_def Let_def split: if_splits)

text \<open>The records of a state whose senders matter, and what a step may add to them.\<close>

lemma attributedI:
  assumes "attributed st"
    and "\<And>q d. db_request_device (st_db (runtime_step operation st)) q = Some d \<Longrightarrow>
      db_request_device (st_db st) q = Some d \<or>
      (\<exists>x. st_dispatches st q = Some x \<and> dp_device x = d)"
    and "\<And>s v res. (s, v, res) \<in> set (st_read (runtime_step operation st)) \<Longrightarrow>
      (s, v, res) \<in> set (st_read st) \<or> sent_by st s res"
    and "\<And>q s res. (s, res) \<in> set (db_results (st_db (runtime_step operation st)) q) \<Longrightarrow>
      (s, res) \<in> set (db_results (st_db st) q) \<or> rs_request_id res = q \<and> sent_by st s res"
    and "\<And>q x s res. st_dispatches (runtime_step operation st) q = Some x \<Longrightarrow>
      outcome_of x = Some (Answered s res) \<Longrightarrow>
      (\<exists>x0. st_dispatches st q = Some x0 \<and> outcome_of x0 = Some (Answered s res)) \<or>
      rs_request_id res = q \<and> sent_by st s res"
  shows "attributed (runtime_step operation st)"
  unfolding attributed_def
proof (intro conjI allI impI)
  fix q d assume "db_request_device (st_db (runtime_step operation st)) q = Some d"
  with assms(1,2) obtain x where "st_dispatches st q = Some x" "dp_device x = d"
    unfolding attributed_def by metis
  then show "\<exists>x. st_dispatches (runtime_step operation st) q = Some x \<and> dp_device x = d"
    by (metis dispatches_kept)
next
  fix s v res assume "(s, v, res) \<in> set (st_read (runtime_step operation st))"
  with assms(1,3) show "sent_by (runtime_step operation st) s res"
    unfolding attributed_def by (metis sent_by_step)
next
  fix q s res assume "(s, res) \<in> set (db_results (st_db (runtime_step operation st)) q)"
  with assms(1,4) have "rs_request_id res = q \<and> sent_by st s res" unfolding attributed_def by metis
  then show "rs_request_id res = q" "sent_by (runtime_step operation st) s res" by (auto simp: sent_by_step)
next
  fix q x s res
  assume "st_dispatches (runtime_step operation st) q = Some x \<and> outcome_of x = Some (Answered s res)"
  with assms(1,5) have "rs_request_id res = q \<and> sent_by st s res" unfolding attributed_def by metis
  then show "rs_request_id res = q" "sent_by (runtime_step operation st) s res" by (auto simp: sent_by_step)
qed

lemma server_read:
  "(s, v, res) \<in> set (st_read (server_step operation st)) \<Longrightarrow>
     (s, v, res) \<in> set (st_read st) \<or> (\<forall>d. s = Some d \<longrightarrow> db_request_device (st_db st) (rs_request_id res) = Some d)"
proof (cases operation)
  case (PublishWrite i)
  assume "(s, v, res) \<in> set (st_read (server_step operation st))"
  with PublishWrite set_without_nth [of i "st_read st"] show ?thesis
    by (auto simp: on_db_def split: if_splits prod.splits)
next
  case (PublishRead sender r)
  assume "(s, v, res) \<in> set (st_read (server_step operation st))"
  with PublishRead show ?thesis
    by (auto simp: Let_def publish_refused_def split: if_splits option.splits)
qed (auto simp: on_db_def check_message_def split: list.splits queue_msg.splits prod.splits if_splits)

lemma server_request_device:
  "db_request_device (st_db (server_step operation st)) q = Some d \<Longrightarrow> db_request_device (st_db st) q = Some d"
proof (cases operation)
  case (SyncFail d' ids reason)
  assume "db_request_device (st_db (server_step operation st)) q = Some d"
  with SyncFail show ?thesis by (auto simp: on_db_def dest: sync_fail_fields(2))
next
  case (DeleteSession d' ids)
  assume "db_request_device (st_db (server_step operation st)) q = Some d"
  with DeleteSession show ?thesis by (simp add: on_db_def delete_keys_def split: if_splits)
qed (auto simp: on_db_def check_message_def Let_def split: list.splits queue_msg.splits prod.splits if_splits)

lemma attributed_server:
  assumes "attributed st" and "op_request operation = None"
  shows "attributed (runtime_step operation st)"
proof (rule attributedI [OF assms(1)])
  have step: "runtime_step operation st = server_step operation st" using assms(2) by (simp add: runtime_step_def)
  show "db_request_device (st_db st) q = Some d \<or> (\<exists>x. st_dispatches st q = Some x \<and> dp_device x = d)"
    if "db_request_device (st_db (runtime_step operation st)) q = Some d" for q d
    using that server_request_device [of operation st q d] unfolding step by blast
  show "(s, v, res) \<in> set (st_read st) \<or> sent_by st s res"
    if "(s, v, res) \<in> set (st_read (runtime_step operation st))" for s v res
    using that server_read [of s v res operation st] assms(1) unfolding step attributed_def sent_by_def by blast
  show "(s, res) \<in> set (db_results (st_db st) q) \<or> rs_request_id res = q \<and> sent_by st s res"
    if "(s, res) \<in> set (db_results (st_db (runtime_step operation st)) q)" for q s res
  proof (cases operation)
    case (PublishWrite i)
    show ?thesis
    proof (cases "i < length (st_read st)")
      case True
      obtain s0 v0 r0 where r: "st_read st ! i = (s0, v0, r0)" by (cases "st_read st ! i")
      with True have "(s0, v0, r0) \<in> set (st_read st)" by (metis nth_mem)
      with assms(1) have "sent_by st s0 r0" unfolding attributed_def by blast
      with that [unfolded step] True r PublishWrite show ?thesis by (auto simp: on_db_def split: if_splits)
    qed (use that [unfolded step] PublishWrite in simp)
  next
    case (SyncFail d ids reason)
    with that [unfolded step] sync_fail_fields(1) [of s res d ids reason "st_db st" q] show ?thesis
      by (auto simp: on_db_def sent_by_def)
  qed (use that [unfolded step] in \<open>auto simp: on_db_def check_message_def Let_def
      split: list.splits queue_msg.splits prod.splits if_splits\<close>)
  show "(\<exists>x0. st_dispatches st q = Some x0 \<and> outcome_of x0 = Some (Answered s res)) \<or>
      rs_request_id res = q \<and> sent_by st s res"
    if "st_dispatches (runtime_step operation st) q = Some x" "outcome_of x = Some (Answered s res)" for q x s res
    using that server_dispatches [of operation st] unfolding step by (auto simp: outcome_of_def split: if_splits)
qed

lemma outcome_dispatcher:
  assumes "st_dispatches st q = Some x" and "op_request operation = Some q"
    and "st_dispatches (dispatcher_step x operation st) q = Some x'" and "outcome_of x' = Some (Answered s res)"
  shows "outcome_of x = Some (Answered s res) \<or> (s, res) \<in> set (db_results (st_db st) q)"
proof (cases operation)
  case (Mark q')
  with assms show ?thesis
    by (auto simp: outcome_of_def withdrawal_done_def case_prod_beta split: if_splits dispatch_phase.splits)
next
  case (PushCancel q')
  with assms show ?thesis
    by (auto simp: outcome_of_def withdrawal_done_def split: if_splits dispatch_phase.splits)
next
  case (TakeResult q')
  with assms show ?thesis
    by (auto simp: outcome_of_def split: dispatch_phase.splits list.splits)
qed (use assms in \<open>auto simp: outcome_of_def split: dispatch_phase.splits if_splits\<close>)

lemma dispatcher_records:
  assumes "op_request operation = Some q"
  shows "st_read (dispatcher_step x operation st) = st_read st"
    and "set (db_results (st_db (dispatcher_step x operation st)) q') \<subseteq> set (db_results (st_db st) q')"
    and "db_request_device (st_db (dispatcher_step x operation st)) q' = Some d \<Longrightarrow>
      db_request_device (st_db st) q' = Some d \<or> q' = tr_request_id (dp_request x) \<and> d = dp_device x"
proof -
  show "st_read (dispatcher_step x operation st) = st_read st"
    using assms by (cases operation) (auto simp: case_prod_beta split: dispatch_phase.split list.split)
  show "set (db_results (st_db (dispatcher_step x operation st)) q') \<subseteq> set (db_results (st_db st) q')"
    using assms by (cases operation) (auto simp: case_prod_beta split: dispatch_phase.splits list.splits if_splits)
  show "db_request_device (st_db st) q' = Some d \<or> q' = tr_request_id (dp_request x) \<and> d = dp_device x"
    if "db_request_device (st_db (dispatcher_step x operation st)) q' = Some d"
    using assms that by (cases operation) (auto simp: case_prod_beta split: dispatch_phase.splits list.splits if_splits)
qed

lemma attributed_dispatcher:
  assumes "attributed st" and "placed st" and "op_request operation = Some p" and "st_dispatches st p = Some y"
  shows "attributed (runtime_step operation st)"
proof (rule attributedI [OF assms(1)])
  have step: "runtime_step operation st = dispatcher_step y operation st"
    using assms(3,4) by (simp add: runtime_step_def)
  show "db_request_device (st_db st) q = Some d \<or> (\<exists>x. st_dispatches st q = Some x \<and> dp_device x = d)"
    if "db_request_device (st_db (runtime_step operation st)) q = Some d" for q d
    using dispatcher_records(3) [OF assms(3) that [unfolded step]] placedD(2) [OF assms(2,4)] assms(4) by auto
  show "(s, v, res) \<in> set (st_read st) \<or> sent_by st s res"
    if "(s, v, res) \<in> set (st_read (runtime_step operation st))" for s v res
    using that [unfolded step] dispatcher_records(1) [OF assms(3)] by simp
  show "(s, res) \<in> set (db_results (st_db st) q) \<or> rs_request_id res = q \<and> sent_by st s res"
    if "(s, res) \<in> set (db_results (st_db (runtime_step operation st)) q)" for q s res
    using that [unfolded step] dispatcher_records(2) [OF assms(3)] by blast
  show "(\<exists>x0. st_dispatches st q = Some x0 \<and> outcome_of x0 = Some (Answered s res)) \<or>
      rs_request_id res = q \<and> sent_by st s res"
    if x: "st_dispatches (runtime_step operation st) q = Some x" "outcome_of x = Some (Answered s res)" for q x s res
  proof (cases "q = p")
    case True
    with x step assms(3,4) outcome_dispatcher [of st p y operation x s res]
    have "outcome_of y = Some (Answered s res) \<or> (s, res) \<in> set (db_results (st_db st) q)" by simp
    with assms(1,4) True show ?thesis unfolding attributed_def by blast
  next
    case False
    with dispatcher_dispatches [OF assms(4,3)] x step have "st_dispatches st q = Some x" by auto
    with x(2) show ?thesis by blast
  qed
qed

lemma attributed_step: "attributed st \<Longrightarrow> placed st \<Longrightarrow> attributed (runtime_step operation st)"
proof (cases "op_request operation")
  case None
  assume "attributed st"
  then show ?thesis using None by (rule attributed_server)
next
  case (Some p)
  assume "attributed st" "placed st"
  with Some attributed_dispatcher [of st operation p] show ?thesis
    by (cases "st_dispatches st p") (auto simp: runtime_step_def)
qed

lemma attributed_run: "attributed st \<Longrightarrow> placed st \<Longrightarrow> attributed (runtime_run ops st)"
  by (induction ops arbitrary: st) (auto simp: attributed_step placed_step)

lemma attributed_initial: "attributed initial_runtime"
  by (simp add: attributed_def initial_runtime_def empty_runtime_db_def)

section \<open>Properties\<close>

text \<open>
  C30: However callers, gateways, results and dying sessions interleave, what a device is given was dispatched to
  that device, and it is given every request once at most.
\<close>

theorem device_receives_once:
  assumes "(d, Request r) \<in> set (st_sent (runtime_run ops initial_runtime))"
  shows "Dispatch d r \<in> set ops \<and>
    requests (tr_request_id r) (map snd (st_sent (runtime_run ops initial_runtime))) = 1"
proof -
  let ?st = "runtime_run ops initial_runtime"
  note placed = placed_run [OF placed_initial, of ops]
  have "found d r ?st" using assms by (simp add: found_def)
  from placedD(1) [OF placed this] obtain x where
    x: "st_dispatches ?st (tr_request_id r) = Some x" "dp_device x = d" "dp_request x = r" by blast
  have "0 < requests (tr_request_id r) (map snd (st_sent ?st))" using assms by (force simp: requests_pos)
  with placedD(3) [OF placed x(1)] have "requests (tr_request_id r) (map snd (st_sent ?st)) = 1"
    by (simp add: copies_def)
  with dispatched [OF x(1)] x(2,3) show ?thesis by simp
qed

definition sample_request :: tool_request where
  "sample_request =
     \<lparr>tr_request_id = ''q'', tr_tool_name = ''t'', tr_qualified_tool_id = ''s::t'', tr_tool_instance_id = None,
      tr_expected_session_id = None, tr_expected_catalog_version = None, tr_mutation_approved = False\<rparr>"

lemma sample_delivered:
  "st_sent (runtime_run [Dispatch ''d'' sample_request, PushApplied ''q'', Take ''d'', Check 0, Send 0] initial_runtime) =
     [(''d'', Request sample_request)]"
  by code_simp

theorem device_receives_once_witness:
  "requests ''q'' (map snd (st_sent (runtime_run
     [Dispatch ''d'' sample_request, PushApplied ''q'', Take ''d'', Check 0, Send 0] initial_runtime))) = 1"
  using device_receives_once [of "''d''" sample_request
    "[Dispatch ''d'' sample_request, PushApplied ''q'', Take ''d'', Check 0, Send 0]"]
  unfolding sample_delivered by (simp add: sample_request_def)


text \<open>The device has the request when its caller stops; a request stopped in the queue is just taken out.\<close>

definition sample_stop :: "runtime_op list" where
  "sample_stop =
     [Dispatch ''d'' sample_request, PushApplied ''q'', Take ''d'', Check 0, Send 0, Abandon ''q'' Stopped, Mark ''q'',
      PushCancel ''q'', ClearRead ''q'', ClearWrite ''q'']"


text \<open>
  C32: A caller gets the result of its own request, and if a device sent it, it is the device the request was
  dispatched to.
\<close>

theorem results_from_addressed_device:
  assumes "st_dispatches (runtime_run ops initial_runtime) q = Some x" and "dp_phase x = Ended (Answered sender res)"
  shows "rs_request_id res = q \<and> (sender = None \<or> sender = Some (dp_device x)) \<and>
    Dispatch (dp_device x) (dp_request x) \<in> set ops \<and> tr_request_id (dp_request x) = q"
proof -
  have "outcome_of x = Some (Answered sender res)" using assms(2) by (simp add: outcome_of_def)
  with assms(1) attributed_run [OF attributed_initial placed_initial, of ops]
  have "rs_request_id res = q \<and> sent_by (runtime_run ops initial_runtime) sender res" unfolding attributed_def by blast
  with assms(1) dispatched [OF assms(1)] show ?thesis by (cases sender) (auto simp: sent_by_def)
qed

definition sample_result :: device_result where
  "sample_result = \<lparr>rs_request_id = ''q'', rs_success = True, rs_error = None, rs_error_code = None\<rparr>"

definition sample_answer :: "runtime_op list" where
  "sample_answer =
     [Dispatch ''d'' sample_request, PushApplied ''q'', Take ''d'', Check 0, Send 0, PublishRead (Some ''e'') sample_result,
      PublishRead (Some ''d'') sample_result, PublishWrite 0, TakeResult ''q'', ClearRead ''q'', ClearWrite ''q'']"

theorem results_from_addressed_device_witness:
  "\<exists>x. st_dispatches (runtime_run sample_answer initial_runtime) ''q'' = Some x \<and>
     dp_phase x = Ended (Answered (Some (dp_device x)) sample_result)"
proof -
  have "map_option dp_phase (st_dispatches (runtime_run sample_answer initial_runtime) ''q'') =
      Some (Ended (Answered (Some ''d'') sample_result))" by code_simp
  then obtain x where x: "st_dispatches (runtime_run sample_answer initial_runtime) ''q'' = Some x"
      "dp_phase x = Ended (Answered (Some ''d'') sample_result)" by (auto simp: map_option_case split: option.splits)
  with results_from_addressed_device [OF x] show ?thesis by auto
qed

text \<open>
  A caller whose connection to the server breaks while it waits ends with an error and withdraws nothing: the
  request stays queued and the device is given it afterwards.
\<close>

theorem broken_connection_leaves_request:
  "let broken = [Dispatch d r, PushApplied (tr_request_id r), Break (tr_request_id r),
        ClearRead (tr_request_id r), ClearWrite (tr_request_id r)];
       st = runtime_run broken initial_runtime
   in map_option dp_phase (st_dispatches st (tr_request_id r)) = Some (Ended Broken) \<and> st_sent st = [] \<and>
     st_sent (runtime_run (broken @ [Take d, Check 0, Send 0]) initial_runtime) = [(d, Request r)]"
  by (simp add: runtime_step_def initial_runtime_def empty_runtime_db_def on_db_def check_message_def Let_def
      dispatch_pipeline_def push_queue_def clear_pipeline_def drop_pending_def set_dispatch_def without_nth_def)

text \<open>Failing the requests of a device one by one is a run of steps.\<close>

lemma fail_pending_run: "\<exists>ops. fail_pending_requests d ids reason st = runtime_run ops st"
proof -
  have "\<exists>ops. fold (\<lambda>q st. let st1 = server_step (PublishRead None (disconnect_result q reason)) st
      in server_step (PublishWrite (length (st_read st1) - 1)) st1) ids st = runtime_run ops st"
  proof (induction ids arbitrary: st)
    case Nil
    show ?case by (intro exI [of _ "[]"]) simp
  next
    case (Cons q ids)
    let ?st1 = "server_step (PublishRead None (disconnect_result q reason)) st"
    obtain ops where "fold (\<lambda>q st. let st1 = server_step (PublishRead None (disconnect_result q reason)) st
        in server_step (PublishWrite (length (st_read st1) - 1)) st1) ids
          (server_step (PublishWrite (length (st_read ?st1) - 1)) ?st1) =
        runtime_run ops (server_step (PublishWrite (length (st_read ?st1) - 1)) ?st1)"
      using Cons by blast
    then show ?case
      by (intro exI [of _ "PublishRead None (disconnect_result q reason) # PublishWrite (length (st_read ?st1) - 1) # ops"])
        (simp add: Let_def runtime_step_def)
  qed
  then obtain ops where "fold (\<lambda>q st. let st1 = server_step (PublishRead None (disconnect_result q reason)) st
      in server_step (PublishWrite (length (st_read st1) - 1)) st1) ids st = runtime_run ops st" ..
  then show ?thesis
    by (intro exI [of _ "ops @ [DropPending d]"]) (simp add: fail_pending_requests_def runtime_step_def)
qed

end
