(* ===== verification/DeviceSessions.thy ===== *)
theory DeviceSessions
  imports DeviceDispatch
begin

text \<open>
  The sessions of devices, \<^verbatim>\<open>services/client_runtime_store.py\<close> and \<^verbatim>\<open>services/client_device_service.py\<close>: the
  token that opens one, its record in Redis, the heartbeat and the catalogs, its end, and what a tool call must
  find before it is sent. Times are seconds; a catalog is the list of its tools, \<open>None\<close> the empty dictionary. The
  record is read and written whole, so a method that changes it is a read and a write with others between.
\<close>

section \<open>The record of a session\<close>

record catalog_entry =
  ce_qualified_id :: string
  ce_tool_instance_id :: string

record session_record =
  sr_device_id :: string
  sr_session_id :: string
  sr_user_id :: string
  sr_connected_at :: rat
  sr_last_heartbeat :: rat
  sr_tool_catalog :: "catalog_entry list option"
  sr_skill_catalog :: "string option"
  sr_tool_catalog_version :: int
  sr_skill_catalog_version :: int
  sr_tool_catalog_updated_at :: "rat option"
  sr_skill_catalog_updated_at :: "rat option"

record runtime_settings =
  rt_heartbeat_interval :: int
  rt_ws_timeout :: rat

definition is_alive :: "runtime_settings \<Rightarrow> rat \<Rightarrow> session_record \<Rightarrow> bool" where
  "is_alive cfg now s \<longleftrightarrow> now - sr_last_heartbeat s < rat_of_int (rt_heartbeat_interval cfg * 2)"

definition update_record_heartbeat :: "rat \<Rightarrow> session_record \<Rightarrow> session_record" where
  "update_record_heartbeat now s = s\<lparr>sr_last_heartbeat := now\<rparr>"

definition update_record_tools :: "catalog_entry list option \<Rightarrow> rat \<Rightarrow> session_record \<Rightarrow> session_record" where
  "update_record_tools catalog now s =
     s\<lparr>sr_tool_catalog := catalog, sr_tool_catalog_version := sr_tool_catalog_version s + 1,
       sr_tool_catalog_updated_at := Some now\<rparr>"

definition update_record_skills :: "string option \<Rightarrow> rat \<Rightarrow> session_record \<Rightarrow> session_record" where
  "update_record_skills catalog now s =
     s\<lparr>sr_skill_catalog := catalog, sr_skill_catalog_version := sr_skill_catalog_version s + 1,
       sr_skill_catalog_updated_at := Some now\<rparr>"

definition new_session :: "rat \<Rightarrow> string \<Rightarrow> string \<Rightarrow> string \<Rightarrow> session_record" where
  "new_session now d sid user =
     \<lparr>sr_device_id = d, sr_session_id = sid, sr_user_id = user, sr_connected_at = now, sr_last_heartbeat = now,
      sr_tool_catalog = None, sr_skill_catalog = None, sr_tool_catalog_version = 0, sr_skill_catalog_version = 0,
      sr_tool_catalog_updated_at = None, sr_skill_catalog_updated_at = None\<rparr>"

definition get_tool_cache_key :: "session_record \<Rightarrow> string \<times> string \<times> string \<times> int" where
  "get_tool_cache_key s = (sr_user_id s, sr_device_id s, sr_session_id s, sr_tool_catalog_version s)"

text \<open>How long the keys live.\<close>

definition RESULT_TTL_SECONDS :: int where
  "RESULT_TTL_SECONDS = 300"

definition session_ttl_seconds :: "runtime_settings \<Rightarrow> int" where
  "session_ttl_seconds cfg = max 90 (rt_heartbeat_interval cfg * 3)"

definition issued_session_ttl_seconds :: "runtime_settings \<Rightarrow> rat" where
  "issued_session_ttl_seconds cfg = max 120 (rt_ws_timeout cfg * 2)"

definition request_tracking_ttl_seconds :: "runtime_settings \<Rightarrow> rat option \<Rightarrow> int" where
  "request_tracking_ttl_seconds cfg timeout =
     (let t = (case timeout of Some v \<Rightarrow> if v \<noteq> 0 then v else rt_ws_timeout cfg | None \<Rightarrow> rt_ws_timeout cfg)
      in max (session_ttl_seconds cfg) (\<lceil>t\<rceil> + RESULT_TTL_SECONDS))"

section \<open>The store\<close>

record session_store =
  ss_sessions :: "string \<Rightarrow> session_record option"
  ss_user_devices :: "string \<Rightarrow> string list"
  ss_issued :: "string \<Rightarrow> string option"
  ss_traffic :: runtime_db

definition empty_session_store :: session_store where
  "empty_session_store =
     \<lparr>ss_sessions = (\<lambda>d. None), ss_user_devices = (\<lambda>u. []), ss_issued = (\<lambda>d. None), ss_traffic = empty_runtime_db\<rparr>"

definition issue_runtime_session_id :: "string \<Rightarrow> string \<Rightarrow> session_store \<Rightarrow> session_store" where
  "issue_runtime_session_id d sid st = st\<lparr>ss_issued := (ss_issued st)(d \<mapsto> sid)\<rparr>"

text \<open>\<^verbatim>\<open>GETDEL\<close> and \<^verbatim>\<open>str(stored or "") == session_id\<close>.\<close>

definition consume_runtime_session_id :: "string \<Rightarrow> string \<Rightarrow> session_store \<Rightarrow> bool \<times> session_store" where
  "consume_runtime_session_id d sid st =
     ((case ss_issued st d of Some v \<Rightarrow> v | None \<Rightarrow> []) = sid, st\<lparr>ss_issued := (ss_issued st)(d := None)\<rparr>)"

definition put_session :: "session_record \<Rightarrow> session_store \<Rightarrow> session_store" where
  "put_session s st =
     st\<lparr>ss_sessions := (ss_sessions st)(sr_device_id s \<mapsto> s),
        ss_user_devices := (ss_user_devices st)(sr_user_id s := List.insert (sr_device_id s) (ss_user_devices st (sr_user_id s)))\<rparr>"

definition remove_user_device :: "string \<Rightarrow> string \<Rightarrow> session_store \<Rightarrow> session_store" where
  "remove_user_device user d st =
     st\<lparr>ss_user_devices := (ss_user_devices st)(user := removeAll d (ss_user_devices st user))\<rparr>"

text \<open>The keys of a device; \<open>ids\<close> are the requests whose device is forgotten with them.\<close>

definition delete_session_keys :: "string \<Rightarrow> string list \<Rightarrow> session_store \<Rightarrow> session_store" where
  "delete_session_keys d ids st =
     st\<lparr>ss_sessions := (ss_sessions st)(d := None), ss_issued := (ss_issued st)(d := None),
        ss_traffic := delete_keys d ids (ss_traffic st)\<rparr>"

definition delete_session :: "string \<Rightarrow> session_store \<Rightarrow> session_record option \<times> session_store" where
  "delete_session d st =
     (let session = ss_sessions st d;
          st1 = delete_session_keys d (db_pending (ss_traffic st) d) st
      in (session, case session of Some s \<Rightarrow> remove_user_device (sr_user_id s) d st1 | None \<Rightarrow> st1))"

text \<open>A dead session goes with its requests, which fail.\<close>

definition expire_stale_session :: "session_record \<Rightarrow> session_store \<Rightarrow> session_store" where
  "expire_stale_session s st =
     (let d = sr_device_id s; ids = db_pending (ss_traffic st) d
      in remove_user_device (sr_user_id s) d
           (delete_session_keys d []
             (st\<lparr>ss_traffic := sync_fail_pipeline d ids ''Client runtime heartbeat expired.'' (ss_traffic st)\<rparr>)))"

definition get_session :: "runtime_settings \<Rightarrow> rat \<Rightarrow> string \<Rightarrow> session_store \<Rightarrow> session_record option \<times> session_store" where
  "get_session cfg now d st =
     (case ss_sessions st d of
        None \<Rightarrow> (None, st)
      | Some s \<Rightarrow> if is_alive cfg now s then (Some s, st) else (None, expire_stale_session s st))"

fun list_sessions :: "runtime_settings \<Rightarrow> rat \<Rightarrow> string \<Rightarrow> string list \<Rightarrow> session_store \<Rightarrow> session_record list \<times> session_store" where
  "list_sessions cfg now user [] st = ([], st)"
| "list_sessions cfg now user (d # ds) st =
     (case get_session cfg now d st of
        (None, st1) \<Rightarrow> list_sessions cfg now user ds (remove_user_device user d st1)
      | (Some s, st1) \<Rightarrow> (let (ss, st2) = list_sessions cfg now user ds st1 in (s # ss, st2)))"

definition list_sessions_for_user :: "runtime_settings \<Rightarrow> rat \<Rightarrow> string \<Rightarrow> session_store \<Rightarrow> session_record list \<times> session_store" where
  "list_sessions_for_user cfg now user st = list_sessions cfg now user (ss_user_devices st user) st"

text \<open>The methods that change a record read it themselves, and end a dead session the long way.\<close>

definition fail_pending :: "string \<Rightarrow> string \<Rightarrow> session_store \<Rightarrow> session_store" where
  "fail_pending d reason st =
     st\<lparr>ss_traffic := (let db = fold (\<lambda>q db. publish_pipeline None (db_request_device db q) (disconnect_result q reason) db)
          (db_pending (ss_traffic st) d) (ss_traffic st)
        in db\<lparr>db_pending := (db_pending db)(d := [])\<rparr>)\<rparr>"

definition get_session_async ::
  "runtime_settings \<Rightarrow> rat \<Rightarrow> string \<Rightarrow> session_store \<Rightarrow> session_record option \<times> session_store" where
  "get_session_async cfg now d st =
     (case ss_sessions st d of
        None \<Rightarrow> (None, st)
      | Some s \<Rightarrow>
          if is_alive cfg now s then (Some s, st)
          else (None, snd (delete_session d (fail_pending d ''Client runtime heartbeat expired.'' st))))"

definition update_session ::
  "runtime_settings \<Rightarrow> rat \<Rightarrow> (session_record \<Rightarrow> session_record) \<Rightarrow> string \<Rightarrow> session_store \<Rightarrow> bool \<times> session_store" where
  "update_session cfg now f d st =
     (case get_session_async cfg now d st of
        (None, st1) \<Rightarrow> (False, st1)
      | (Some s, st1) \<Rightarrow> (True, put_session (f s) st1))"

text \<open>The sweep over the sessions it scanned.\<close>

fun cleanup_stale_sessions :: "runtime_settings \<Rightarrow> rat \<Rightarrow> string list \<Rightarrow> session_store \<Rightarrow> nat \<times> session_store" where
  "cleanup_stale_sessions cfg now [] st = (0, st)"
| "cleanup_stale_sessions cfg now (d # ds) st =
     (case ss_sessions st d of
        None \<Rightarrow> cleanup_stale_sessions cfg now ds st
      | Some s \<Rightarrow>
          if is_alive cfg now s then cleanup_stale_sessions cfg now ds st
          else (let (n, st1) = cleanup_stale_sessions cfg now ds
                  (snd (delete_session d (fail_pending d ''Client runtime heartbeat expired.'' st)))
                in (n + 1, st1)))"

section \<open>The service\<close>

definition start_session ::
  "rat \<Rightarrow> (string \<Rightarrow> string option) \<Rightarrow> string \<Rightarrow> string \<Rightarrow> session_store \<Rightarrow> (string + session_record) \<times> session_store" where
  "start_session now owner d sid st =
     (let (valid, st1) = consume_runtime_session_id d sid st
      in if \<not> valid then (Inl ''Invalid or expired runtime session ID'', st1)
         else case owner d of
           None \<Rightarrow> (Inl ''Device not found'', st1)
         | Some user \<Rightarrow> (let s = new_session now d sid user in (Inr s, put_session s st1)))"

definition end_session :: "runtime_settings \<Rightarrow> rat \<Rightarrow> string \<Rightarrow> string \<Rightarrow> session_store \<Rightarrow> bool \<times> session_store" where
  "end_session cfg now d reason st =
     (case get_session cfg now d st of
        (None, st1) \<Rightarrow> (False, st1)
      | (Some s, st1) \<Rightarrow> (True, snd (delete_session d (fail_pending d reason st1))))"

text \<open>What a tool call finds before its request is sent.\<close>

record bound_call =
  bc_user_id :: string
  bc_device_id :: string
  bc_tool_name :: string
  bc_qualified_tool_id :: string
  bc_bound_session_id :: "string option"
  bc_bound_catalog_version :: "int option"
  bc_tool_instance_id :: "string option"
  bc_mutation_approved :: bool

datatype dispatch_refusal =
    NotConnected
  | SessionChanged
  | CatalogChanged
  | NotInCatalog
  | CapabilityChanged
  | TooLarge

definition CLIENT_SKILL_ACTIVATE_QID :: string where
  "CLIENT_SKILL_ACTIVATE_QID = ''client_skill::activate''"

definition RUNTIME_MAX_MESSAGE_BYTES :: int where
  "RUNTIME_MAX_MESSAGE_BYTES = 16 * 1024 * 1024"

definition catalog_lookup :: "catalog_entry list \<Rightarrow> string \<Rightarrow> catalog_entry option" where
  "catalog_lookup tools qid = find (\<lambda>e. ce_qualified_id e = qid) (rev (filter (\<lambda>e. ce_qualified_id e \<noteq> []) tools))"

definition catalog_refusal :: "session_record \<Rightarrow> bound_call \<Rightarrow> dispatch_refusal option" where
  "catalog_refusal s c =
     (case sr_tool_catalog s of
        None \<Rightarrow> None
      | Some tools \<Rightarrow>
          if bc_qualified_tool_id c = CLIENT_SKILL_ACTIVATE_QID then None
          else case catalog_lookup tools (bc_qualified_tool_id c) of
            None \<Rightarrow> Some NotInCatalog
          | Some e \<Rightarrow>
              if truthy_str (bc_tool_instance_id c) \<and> ce_tool_instance_id e \<noteq> [] \<and>
                bc_tool_instance_id c \<noteq> Some (ce_tool_instance_id e)
              then Some CapabilityChanged else None)"

definition dispatched_request :: "string \<Rightarrow> session_record \<Rightarrow> bound_call \<Rightarrow> tool_request" where
  "dispatched_request request_id s c =
     \<lparr>tr_request_id = request_id, tr_tool_name = bc_tool_name c, tr_qualified_tool_id = bc_qualified_tool_id c,
      tr_tool_instance_id = bc_tool_instance_id c, tr_expected_session_id = Some (sr_session_id s),
      tr_expected_catalog_version = (case bc_bound_catalog_version c of Some v \<Rightarrow> Some v | None \<Rightarrow> Some (sr_tool_catalog_version s)),
      tr_mutation_approved = bc_mutation_approved c\<rparr>"

definition dispatch_tool_call ::
  "runtime_settings \<Rightarrow> (tool_request \<Rightarrow> int) \<Rightarrow> string \<Rightarrow> rat \<Rightarrow> bound_call \<Rightarrow> session_store
     \<Rightarrow> (dispatch_refusal + string \<times> tool_request) \<times> session_store" where
  "dispatch_tool_call cfg size_of request_id now c st =
     (let (session, st1) = get_session cfg now (bc_device_id c) st
      in (case session of
            None \<Rightarrow> Inl NotConnected
          | Some s \<Rightarrow>
              if sr_user_id s \<noteq> bc_user_id c then Inl NotConnected
              else if truthy_str (bc_bound_session_id c) \<and> bc_bound_session_id c \<noteq> Some (sr_session_id s)
              then Inl SessionChanged
              else if bc_bound_catalog_version c \<noteq> None \<and> bc_bound_catalog_version c \<noteq> Some (sr_tool_catalog_version s)
              then Inl CatalogChanged
              else case catalog_refusal s c of
                Some e \<Rightarrow> Inl e
              | None \<Rightarrow>
                  let r = dispatched_request request_id s c
                  in if size_of r > RUNTIME_MAX_MESSAGE_BYTES then Inl TooLarge else Inr (sr_device_id s, r),
          st1))"

section \<open>Sessions over time\<close>

text \<open>What happens to sessions, in any order; a key may expire at any moment.\<close>

datatype session_op =
    Issue string string
  | Connect rat string string
  | Heartbeat rat string
  | UpdateTools rat string "catalog_entry list option"
  | UpdateSkills rat string "string option"
  | EndSession rat string
  | ListSessions rat string
  | CallTool rat bound_call
  | Cleanup rat "string list"
  | ExpireToken string
  | ExpireSession string

fun session_step ::
  "runtime_settings \<Rightarrow> (string \<Rightarrow> string option) \<Rightarrow> session_op \<Rightarrow> session_store \<Rightarrow> session_store" where
  "session_step cfg owner (Issue d sid) st = issue_runtime_session_id d sid st"
| "session_step cfg owner (Connect now d sid) st = snd (start_session now owner d sid st)"
| "session_step cfg owner (Heartbeat now d) st = snd (update_session cfg now (update_record_heartbeat now) d st)"
| "session_step cfg owner (UpdateTools now d catalog) st = snd (update_session cfg now (update_record_tools catalog now) d st)"
| "session_step cfg owner (UpdateSkills now d catalog) st = snd (update_session cfg now (update_record_skills catalog now) d st)"
| "session_step cfg owner (EndSession now d) st = snd (end_session cfg now d ''Client runtime disconnected before completing the request.'' st)"
| "session_step cfg owner (ListSessions now user) st = snd (list_sessions_for_user cfg now user st)"
| "session_step cfg owner (CallTool now c) st = snd (get_session cfg now (bc_device_id c) st)"
| "session_step cfg owner (Cleanup now ds) st = snd (cleanup_stale_sessions cfg now ds st)"
| "session_step cfg owner (ExpireToken d) st = st\<lparr>ss_issued := (ss_issued st)(d := None)\<rparr>"
| "session_step cfg owner (ExpireSession d) st = st\<lparr>ss_sessions := (ss_sessions st)(d := None)\<rparr>"

definition connects :: "rat \<Rightarrow> (string \<Rightarrow> string option) \<Rightarrow> string \<Rightarrow> string \<Rightarrow> session_store \<Rightarrow> bool" where
  "connects now owner d sid st \<longleftrightarrow> (case fst (start_session now owner d sid st) of Inr s \<Rightarrow> True | Inl e \<Rightarrow> False)"

text \<open>The connections that were accepted, and the state they leave.\<close>

fun accepted_connections ::
  "runtime_settings \<Rightarrow> (string \<Rightarrow> string option) \<Rightarrow> session_op list \<Rightarrow> session_store \<Rightarrow> (string \<times> string) list" where
  "accepted_connections cfg owner [] st = []"
| "accepted_connections cfg owner (operation # ops) st =
     (case operation of Connect now d sid \<Rightarrow> if connects now owner d sid st then [(d, sid)] else [] | _ \<Rightarrow> []) @
     accepted_connections cfg owner ops (session_step cfg owner operation st)"

section \<open>Lemmas\<close>

lemma issued_simps [simp]:
  "ss_issued (put_session s st) = ss_issued st"
  "ss_issued (remove_user_device u d st) = ss_issued st"
  "ss_issued (delete_session_keys d ids st) = (ss_issued st)(d := None)"
  "ss_issued (fail_pending d reason st) = ss_issued st"
  "ss_issued (snd (delete_session d st)) = (ss_issued st)(d := None)"
  "ss_issued (expire_stale_session s st) = (ss_issued st)(sr_device_id s := None)"
  by (simp_all add: put_session_def remove_user_device_def delete_session_keys_def fail_pending_def delete_session_def
      expire_stale_session_def Let_def split: option.split)

definition tokens_kept :: "session_store \<Rightarrow> session_store \<Rightarrow> bool" where
  "tokens_kept st st' \<longleftrightarrow> (\<forall>d. ss_issued st' d \<noteq> None \<longrightarrow> ss_issued st' d = ss_issued st d)"

lemma tokens_kept_refl [simp]: "tokens_kept st st"
  by (simp add: tokens_kept_def)

lemma tokens_kept_trans: "tokens_kept st st1 \<Longrightarrow> tokens_kept st1 st2 \<Longrightarrow> tokens_kept st st2"
  by (auto simp: tokens_kept_def)

lemma get_session_tokens: "tokens_kept st (snd (get_session cfg now d st))"
  by (auto simp: get_session_def tokens_kept_def split: option.split)

lemma get_session_async_tokens: "tokens_kept st (snd (get_session_async cfg now d st))"
  by (auto simp: get_session_async_def tokens_kept_def split: option.split)

lemma update_session_tokens: "tokens_kept st (snd (update_session cfg now f d st))"
  using get_session_async_tokens [of st cfg now d]
  by (auto simp: update_session_def tokens_kept_def split: prod.split option.split)

lemma end_session_tokens: "tokens_kept st (snd (end_session cfg now d reason st))"
  using get_session_tokens [of st cfg now d]
  by (auto simp: end_session_def tokens_kept_def split: prod.split option.split)

lemma list_sessions_tokens: "tokens_kept st (snd (list_sessions cfg now user ds st))"
proof (induction ds arbitrary: st)
  case (Cons d ds)
  obtain s st1 where g: "get_session cfg now d st = (s, st1)" by fastforce
  with get_session_tokens [of st cfg now d] have k: "tokens_kept st st1" by simp
  then have r: "tokens_kept st (remove_user_device user d st1)" by (simp add: tokens_kept_def)
  show ?case
    using tokens_kept_trans [OF r Cons.IH] tokens_kept_trans [OF k Cons.IH] g
    by (cases s) (auto simp: case_prod_beta Let_def)
qed simp

lemma cleanup_tokens: "tokens_kept st (snd (cleanup_stale_sessions cfg now ds st))"
proof (induction ds arbitrary: st)
  case (Cons d ds)
  let ?st = "snd (delete_session d (fail_pending d ''Client runtime heartbeat expired.'' st))"
  have "tokens_kept st ?st" by (simp add: tokens_kept_def)
  with Cons.IH [of st] tokens_kept_trans [OF this Cons.IH] show ?case
    by (simp add: case_prod_beta Let_def split: option.split)
qed simp

lemma session_step_tokens:
  assumes "\<And>d sid. operation \<noteq> Issue d sid"
  shows "tokens_kept st (session_step cfg owner operation st)"
proof (cases operation)
  case (Connect now d sid)
  then show ?thesis
    by (auto simp: start_session_def consume_runtime_session_id_def tokens_kept_def Let_def split: option.split)
next
  case (ListSessions now user)
  then show ?thesis by (simp add: list_sessions_for_user_def list_sessions_tokens)
qed (use assms in \<open>simp_all add: cleanup_tokens update_session_tokens end_session_tokens get_session_tokens\<close>,
  simp_all add: tokens_kept_def)

lemma connects_needs_token:
  "connects now owner d sid st \<Longrightarrow> sid \<noteq> [] \<Longrightarrow> ss_issued st d = Some sid"
  by (auto simp: connects_def start_session_def consume_runtime_session_id_def Let_def split: option.splits if_splits)

lemma connect_takes_token: "ss_issued (snd (start_session now owner d sid st)) = (ss_issued st)(d := None)"
  by (simp add: start_session_def consume_runtime_session_id_def Let_def split: option.split)

definition issues :: "string \<Rightarrow> string \<Rightarrow> session_op list \<Rightarrow> nat" where
  "issues d sid ops = length (filter (\<lambda>operation. operation = Issue d sid) ops)"

lemma connections_bounded:
  assumes "sid \<noteq> []"
  shows "length (filter (\<lambda>c. c = (d, sid)) (accepted_connections cfg owner ops st)) \<le>
    issues d sid ops + (if ss_issued st d = Some sid then 1 else 0)"
proof (induction ops arbitrary: st)
  case (Cons operation ops)
  let ?st = "session_step cfg owner operation st"
  show ?case
  proof (cases "\<exists>d' sid'. operation = Issue d' sid'")
    case True
    then obtain d' sid' where i: "operation = Issue d' sid'" by blast
    with Cons.IH [of ?st] show ?thesis
      by (auto simp: issues_def issue_runtime_session_id_def split: if_splits)
  next
    case False
    then have k: "tokens_kept st ?st" by (intro session_step_tokens) blast
    have le: "(if ss_issued ?st d = Some sid then 1 else 0) \<le> (if ss_issued st d = Some sid then 1 else (0 :: nat))"
      using k by (auto simp: tokens_kept_def split: if_splits; metis option.distinct(1))
    show ?thesis
    proof (cases "\<exists>now. operation = Connect now d sid \<and> connects now owner d sid st")
      case True
      then obtain now where c: "operation = Connect now d sid" "connects now owner d sid st" by blast
      with connects_needs_token [OF c(2) assms] Cons.IH [of ?st] connect_takes_token [of now owner d sid st]
      show ?thesis by (simp add: issues_def)
    next
      case no: False
      have "filter (\<lambda>c. c = (d, sid)) (accepted_connections cfg owner (operation # ops) st) =
          filter (\<lambda>c. c = (d, sid)) (accepted_connections cfg owner ops ?st)"
        using no by (cases operation) auto
      with Cons.IH [of ?st] le False show ?thesis by (auto simp: issues_def)
    qed
  qed
qed (simp add: issues_def)

lemma put_session_lookup [simp]:
  "ss_sessions (put_session s st) = (ss_sessions st)(sr_device_id s \<mapsto> s)"
  by (simp add: put_session_def)

lemma get_session_SomeD:
  "get_session cfg now d st = (Some s, st') \<Longrightarrow> ss_sessions st d = Some s \<and> is_alive cfg now s \<and> st' = st"
  by (auto simp: get_session_def split: option.splits if_splits)

section \<open>Properties\<close>

text \<open>
  C33: A token opens one connection per time it was issued, in whatever order tokens are issued, expire and are
  tried, for every token but the empty one.
\<close>

theorem session_token_single_use:
  assumes "sid \<noteq> []"
  shows "length (filter (\<lambda>c. c = (d, sid)) (accepted_connections cfg owner ops empty_session_store)) \<le> issues d sid ops"
  using connections_bounded [OF assms, of d cfg owner ops empty_session_store]
  by (simp add: empty_session_store_def)

theorem session_token_single_use_witness:
  "length (filter (\<lambda>c. c = (''d'', ''t'')) (accepted_connections \<lparr>rt_heartbeat_interval = 30, rt_ws_timeout = 90\<rparr> (\<lambda>d. Some ''u'')
     [Issue ''d'' ''t'', Connect 0 ''d'' ''t'', Connect 1 ''d'' ''t''] empty_session_store)) \<le> 1"
  using session_token_single_use [of "''t''" "''d''" "\<lparr>rt_heartbeat_interval = 30, rt_ws_timeout = 90\<rparr>" "\<lambda>d. Some ''u''"
    "[Issue ''d'' ''t'', Connect 0 ''d'' ''t'', Connect 1 ''d'' ''t'']"]
  by (simp add: issues_def)

text \<open>
  C34: The empty token opens a connection to any registered device although none was issued: the missing value is
  compared as an empty text. A try with any other token leaves the same state behind.
\<close>

theorem empty_token_accepted:
  "fst (start_session now (\<lambda>d. Some user) d []
      (snd (consume_runtime_session_id d sid st))) = Inr (new_session now d [] user) \<and>
   fst (get_session \<lparr>rt_heartbeat_interval = 30, rt_ws_timeout = t\<rparr> now d
      (snd (start_session now (\<lambda>d. Some user) d [] (snd (consume_runtime_session_id d sid st))))) =
     Some (new_session now d [] user)"
  by (simp add: start_session_def consume_runtime_session_id_def Let_def get_session_def new_session_def is_alive_def)

lemma catalog_accepts:
  assumes "catalog_refusal s c = None" and "sr_tool_catalog s = Some tools"
    and "bc_qualified_tool_id c \<noteq> CLIENT_SKILL_ACTIVATE_QID"
  shows "\<exists>e \<in> set tools. ce_qualified_id e = bc_qualified_tool_id c \<and>
    (truthy_str (bc_tool_instance_id c) \<and> ce_tool_instance_id e \<noteq> [] \<longrightarrow>
      bc_tool_instance_id c = Some (ce_tool_instance_id e))"
proof -
  obtain e where e: "catalog_lookup tools (bc_qualified_tool_id c) = Some e"
      "truthy_str (bc_tool_instance_id c) \<and> ce_tool_instance_id e \<noteq> [] \<longrightarrow>
        bc_tool_instance_id c = Some (ce_tool_instance_id e)"
    using assms by (auto simp: catalog_refusal_def split: option.splits if_splits)
  from e(1) have "e \<in> set tools" "ce_qualified_id e = bc_qualified_tool_id c"
    by (auto simp: catalog_lookup_def dest!: find_SomeD)
  with e(2) show ?thesis by auto
qed

lemma dispatch_passed:
  assumes "dispatch_tool_call cfg size_of request_id now c st = (Inr (d, r), st')"
  obtains s where "ss_sessions st (bc_device_id c) = Some s" "is_alive cfg now s" "d = sr_device_id s"
    "sr_user_id s = bc_user_id c" "r = dispatched_request request_id s c" "catalog_refusal s c = None"
    "truthy_str (bc_bound_session_id c) \<longrightarrow> bc_bound_session_id c = Some (sr_session_id s)"
    "bc_bound_catalog_version c \<noteq> None \<longrightarrow> bc_bound_catalog_version c = Some (sr_tool_catalog_version s)"
    "size_of r \<le> RUNTIME_MAX_MESSAGE_BYTES"
proof -
  obtain o1 st1 where g: "get_session cfg now (bc_device_id c) st = (o1, st1)" by fastforce
  with assms obtain s where "o1 = Some s"
    by (cases o1) (auto simp: dispatch_tool_call_def)
  with g have "ss_sessions st (bc_device_id c) = Some s" "is_alive cfg now s" by (auto dest: get_session_SomeD)
  with that [of s] assms g \<open>o1 = Some s\<close> show ?thesis
    by (auto simp: dispatch_tool_call_def Let_def not_less split: if_splits option.splits)
qed


definition sample_session_store :: session_store where
  "sample_session_store =
     put_session (update_record_tools (Some [\<lparr>ce_qualified_id = ''s::t'', ce_tool_instance_id = ''i''\<rparr>]) 1
       (new_session 0 ''d'' ''t'' ''u'')) empty_session_store"

definition sample_bound_call :: bound_call where
  "sample_bound_call =
     \<lparr>bc_user_id = ''u'', bc_device_id = ''d'', bc_tool_name = ''t'', bc_qualified_tool_id = ''s::t'',
      bc_bound_session_id = Some ''t'', bc_bound_catalog_version = Some 1, bc_tool_instance_id = Some ''i'',
      bc_mutation_approved = False\<rparr>"

definition sample_dispatch :: "(dispatch_refusal + string \<times> tool_request) \<times> session_store" where
  "sample_dispatch =
     dispatch_tool_call \<lparr>rt_heartbeat_interval = 30, rt_ws_timeout = 60\<rparr> (\<lambda>r. 100) ''q'' 5 sample_bound_call
       sample_session_store"

lemma sample_dispatch_sent:
  obtains r st' where "sample_dispatch = (Inr (''d'', r), st')"
proof -
  have "(case fst sample_dispatch of Inr (d, r) \<Rightarrow> d | Inl e \<Rightarrow> []) = ''d''" by code_simp
  then obtain r where "fst sample_dispatch = Inr (''d'', r)" by (auto split: sum.splits prod.splits)
  then have "sample_dispatch = (Inr (''d'', r), snd sample_dispatch)" by (simp add: prod_eq_iff)
  then show ?thesis by (rule that)
qed

lemma sample_dispatch_fst: "sample_dispatch = (Inr (''d'', r), st') \<Longrightarrow> fst sample_dispatch = Inr (''d'', r)"
  by (metis fst_conv)

lemma sample_device: "bc_device_id sample_bound_call = ''d''"
  by (simp add: sample_bound_call_def)

lemma sample_session:
  "ss_sessions sample_session_store ''d'' = Some s \<Longrightarrow> sr_tool_catalog_version s = 1"
  by (auto simp: sample_session_store_def update_record_tools_def new_session_def)


text \<open>
  A connection that is cleaned up ends whatever session its device has then: after a reconnect, the one that was
  just opened.
\<close>

lemma cleanup_ends_new_session:
  "ss_sessions (snd (end_session \<lparr>rt_heartbeat_interval = 30, rt_ws_timeout = t\<rparr> now d reason
     (put_session (new_session now d sid2 user) (put_session (new_session now d sid1 user) st)))) d = None"
  by (simp add: end_session_def get_session_def is_alive_def new_session_def delete_session_def delete_session_keys_def
      fail_pending_def remove_user_device_def Let_def split: option.split)

text \<open>
  Two updates of one session whose reads both come first: each reports success, and the record of the one written
  last is the record it read, so the catalog of the other is lost with its version.
\<close>

definition interleaved_updates ::
  "runtime_settings \<Rightarrow> rat \<Rightarrow> (session_record \<Rightarrow> session_record) \<Rightarrow> (session_record \<Rightarrow> session_record) \<Rightarrow> string
     \<Rightarrow> session_store \<Rightarrow> (bool \<times> bool) \<times> session_store" where
  "interleaved_updates cfg now f g d st =
     (case get_session_async cfg now d st of
        (None, st1) \<Rightarrow> ((False, False), st1)
      | (Some s, st1) \<Rightarrow>
          (case get_session_async cfg now d st1 of
             (None, st2) \<Rightarrow> ((True, False), put_session (f s) st2)
           | (Some s', st2) \<Rightarrow> ((True, True), put_session (g s') (put_session (f s) st2))))"

lemma heartbeat_drops_catalog:
  assumes "ss_sessions st d = Some s" and "is_alive cfg now s" and "sr_device_id s = d"
  shows "interleaved_updates cfg now (update_record_tools catalog now) (update_record_heartbeat now) d st =
      ((True, True), put_session (update_record_heartbeat now s) (put_session (update_record_tools catalog now s) st)) \<and>
    ss_sessions (snd (interleaved_updates cfg now (update_record_tools catalog now) (update_record_heartbeat now) d st)) d =
      Some (s\<lparr>sr_last_heartbeat := now\<rparr>)"
  using assms
  by (simp add: interleaved_updates_def get_session_async_def update_record_heartbeat_def update_record_tools_def)

end
