(* ===== verification/InterruptStore.thy ===== *)
theory InterruptStore
  imports ToolApproval DeviceSessions
begin

text \<open>
  The durable record of an approval and its resume: \<^verbatim>\<open>repositories/hitl_interrupt.py\<close> and, of
  \<^verbatim>\<open>services/message_service.py\<close>, the checks before an approval is consumed: the record, the decisions, the device
  session and catalog the approval was given for, and the claim. Every method of the repository is one
  transaction, and an update names in its condition the status it starts from. Times are seconds. The reads, checks
  and claim of one resume are one step with one clock reading; the claim asks for status and deadline again, so
  what it says of the row holds when it is taken. Not modelled are \<^verbatim>\<open>updated_at\<close>, which nothing here reads, and
  the deletion of a user, which clears who resolved a record.
\<close>

section \<open>The rows\<close>

datatype interrupt_status = IsPending | IsResolving | IsFailed | IsResolved | IsExpired

record interrupt_row =
  ir_id :: string
  ir_conversation_id :: string
  ir_user_id :: string
  ir_thread_id :: string
  ir_status :: interrupt_status
  ir_expires_at :: rat
  ir_resolved_at :: "rat option"
  ir_resolved_by :: "string option"
  ir_resolution_source :: "string option"
  ir_action_requests :: "meta_value list"
  ir_device_id :: "string option"
  ir_metadata :: metadata
  ir_session_id :: "string option"
  ir_catalog_version :: "int option"
  ir_tool_instance_id :: "string option"

definition update_where :: "('r \<Rightarrow> bool) \<Rightarrow> ('r \<Rightarrow> 'r) \<Rightarrow> 'r list \<Rightarrow> nat \<times> 'r list" where
  "update_where P f rows = (length (filter P rows), map (\<lambda>r. if P r then f r else r) rows)"

definition create_interrupt :: "interrupt_row \<Rightarrow> interrupt_row list \<Rightarrow> bool \<times> interrupt_row list" where
  "create_interrupt r rows =
     (if ir_id r \<in> set (map ir_id rows) then (False, rows)
      else (True, rows @ [r\<lparr>ir_status := IsPending, ir_resolved_at := None, ir_resolved_by := None, ir_resolution_source := None\<rparr>]))"

definition try_transition_to_resolving ::
  "rat \<Rightarrow> string \<Rightarrow> string \<Rightarrow> string \<Rightarrow> interrupt_row list \<Rightarrow> bool \<times> interrupt_row list" where
  "try_transition_to_resolving now iid conversation user rows =
     (let (n, rows') = update_where
        (\<lambda>r. ir_id r = iid \<and> ir_conversation_id r = conversation \<and> ir_status r = IsPending \<and> ir_expires_at r > now)
        (\<lambda>r. r\<lparr>ir_status := IsResolving, ir_resolved_by := Some user\<rparr>) rows
      in (n = 1, rows'))"

definition mark_resolved :: "rat \<Rightarrow> string \<Rightarrow> string \<Rightarrow> interrupt_row list \<Rightarrow> interrupt_row list" where
  "mark_resolved now iid source rows =
     snd (update_where (\<lambda>r. ir_id r = iid \<and> ir_status r \<in> {IsPending, IsResolving})
       (\<lambda>r. r\<lparr>ir_status := IsResolved, ir_resolved_at := Some now, ir_resolution_source := Some source\<rparr>) rows)"

definition mark_interrupt_failed :: "rat \<Rightarrow> string \<Rightarrow> string \<Rightarrow> interrupt_row list \<Rightarrow> bool \<times> interrupt_row list" where
  "mark_interrupt_failed now iid source rows =
     (let (n, rows') = update_where (\<lambda>r. ir_id r = iid \<and> ir_status r = IsResolving)
        (\<lambda>r. r\<lparr>ir_status := IsFailed, ir_resolution_source := Some source, ir_resolved_at := Some now\<rparr>) rows
      in (n = 1, rows'))"

definition mark_expired :: "string \<Rightarrow> string \<Rightarrow> interrupt_row list \<Rightarrow> interrupt_row list" where
  "mark_expired iid source rows =
     snd (update_where (\<lambda>r. ir_id r = iid \<and> ir_status r = IsPending)
       (\<lambda>r. r\<lparr>ir_status := IsExpired, ir_resolution_source := Some source\<rparr>) rows)"

definition expire_pending_for_thread ::
  "rat \<Rightarrow> string \<Rightarrow> string \<Rightarrow> string \<Rightarrow> string \<Rightarrow> interrupt_row list \<Rightarrow> nat \<times> interrupt_row list" where
  "expire_pending_for_thread now user conversation thread source rows =
     update_where
       (\<lambda>r. ir_user_id r = user \<and> ir_conversation_id r = conversation \<and> ir_thread_id r = thread \<and> ir_status r = IsPending)
       (\<lambda>r. r\<lparr>ir_status := IsExpired, ir_resolution_source := Some source, ir_resolved_at := Some now\<rparr>) rows"

definition expire_pending_if_due_for_user :: "rat \<Rightarrow> string \<Rightarrow> string \<Rightarrow> interrupt_row list \<Rightarrow> bool \<times> interrupt_row list" where
  "expire_pending_if_due_for_user now iid user rows =
     (let (n, rows') = update_where
        (\<lambda>r. ir_id r = iid \<and> ir_user_id r = user \<and> ir_status r = IsPending \<and> ir_expires_at r \<le> now)
        (\<lambda>r. r\<lparr>ir_status := IsExpired, ir_resolution_source := Some ''timeout''\<rparr>) rows
      in (n = 1, rows'))"

text \<open>A column that is null is different from no value.\<close>

definition expire_stale_client_tool_interrupts ::
  "string \<Rightarrow> string \<Rightarrow> interrupt_row list \<Rightarrow> nat \<times> interrupt_row list" where
  "expire_stale_client_tool_interrupts device current rows =
     update_where
       (\<lambda>r. ir_device_id r = Some device \<and> ir_status r = IsPending \<and> ir_session_id r \<noteq> None \<and> ir_session_id r \<noteq> Some current)
       (\<lambda>r. r\<lparr>ir_status := IsExpired, ir_resolution_source := Some ''session_changed''\<rparr>) rows"

definition get_by_id :: "string \<Rightarrow> interrupt_row list \<Rightarrow> interrupt_row option" where
  "get_by_id iid rows = find (\<lambda>r. ir_id r = iid) rows"

definition get_expired_pending :: "rat \<Rightarrow> interrupt_row list \<Rightarrow> interrupt_row list" where
  "get_expired_pending now rows = filter (\<lambda>r. ir_status r = IsPending \<and> ir_expires_at r \<le> now) rows"

section \<open>The decisions\<close>

text \<open>A decision as the API parsed it; the ids are compared as texts, \<open>show\<close> being \<^verbatim>\<open>str\<close> of other values.\<close>

record interrupt_decision =
  de_type :: decision_kind
  de_task_id :: "string option"
  de_tool_call_id :: "string option"
  de_action :: "string option"

definition is_blank :: "meta_value \<Rightarrow> bool" where
  "is_blank v \<longleftrightarrow> v = MNull \<or> v = MStr []"

definition decision_id :: "interrupt_decision \<Rightarrow> string option" where
  "decision_id d =
     (if truthy_str (de_tool_call_id d) then de_tool_call_id d
      else if truthy_str (de_task_id d) then de_task_id d else None)"

definition decision_keys :: "interrupt_decision \<Rightarrow> string list" where
  "decision_keys d =
     (case decision_id d of Some k \<Rightarrow> [k] | None \<Rightarrow> []) @
     (case de_action d of Some a \<Rightarrow> if a = [] then [] else [a] | None \<Rightarrow> [])"

definition request_field :: "meta_value \<Rightarrow> string \<Rightarrow> meta_value" where
  "request_field request k = (case request of MDict f \<Rightarrow> meta_get f k | _ \<Rightarrow> MNull)"

definition pending_action_counts :: "(meta_value \<Rightarrow> string) \<Rightarrow> meta_value list \<Rightarrow> string \<Rightarrow> nat" where
  "pending_action_counts show reqs a =
     length (filter (\<lambda>r. \<not> is_blank (request_field r ''action'') \<and> meta_text show (request_field r ''action'') = a) reqs)"

text \<open>The keys that stand for a request, in the order they are entered.\<close>

definition request_keys :: "(meta_value \<Rightarrow> string) \<Rightarrow> (string \<Rightarrow> nat) \<Rightarrow> meta_value \<Rightarrow> string list" where
  "request_keys show counts r =
     map (\<lambda>k. meta_text show (request_field r k))
       (filter (\<lambda>k. \<not> is_blank (request_field r k)) [''tool_call_id'', ''task_id'']) @
     (let a = request_field r ''action''
      in if \<not> is_blank a \<and> counts (meta_text show a) = 1 then [meta_text show a] else [])"

definition pending_request_indexes :: "(meta_value \<Rightarrow> string) \<Rightarrow> meta_value list \<Rightarrow> (string, nat) dict" where
  "pending_request_indexes show reqs =
     fold (\<lambda>(i, r) d. fold (\<lambda>k d. AList.update k i d) (request_keys show (pending_action_counts show reqs) r) d)
       (enumerate 0 reqs) []"

definition pending_request_key :: "(meta_value \<Rightarrow> string) \<Rightarrow> (string \<Rightarrow> nat) \<Rightarrow> meta_value \<Rightarrow> string option" where
  "pending_request_key show counts r = (case request_keys show counts r of [] \<Rightarrow> None | k # _ \<Rightarrow> Some k)"

definition kind_text :: "decision_kind \<Rightarrow> string" where
  "kind_text t = (case t of Approve \<Rightarrow> ''approve'' | Edit \<Rightarrow> ''edit'' | Respond \<Rightarrow> ''respond'' | Reject \<Rightarrow> ''reject'')"

definition allowed_decisions :: "meta_value \<Rightarrow> string list" where
  "allowed_decisions request =
     (let snake = request_field request ''allowed_decisions'';
          raw = (if meta_truthy snake then snake else request_field request ''allowedDecisions'')
      in case raw of
           MStr s \<Rightarrow> [lower (py_strip s)]
         | MList vs \<Rightarrow> concat (map (\<lambda>v. case v of MStr s \<Rightarrow> if py_strip s = [] then [] else [lower (py_strip s)] | _ \<Rightarrow> []) vs)
         | _ \<Rightarrow> [''approve'', ''edit'', ''reject''])"

datatype resume_refusal =
    IdRequired
  | NotFound
  | ThreadMismatch
  | DeviceMismatch
  | GoneExpired
  | ContinuationFailed
  | AlreadyResolved
  | UnknownDecision
  | DuplicateDecision
  | DecisionNotAllowed
  | IncompleteDecisions
  | RuntimeUnavailable
  | SessionMismatch
  | CatalogMismatch
  | ToolUnavailable
  | ToolInstanceMismatch
  | ResumeConflict

definition matched_index :: "(string, nat) dict \<Rightarrow> interrupt_decision \<Rightarrow> nat option" where
  "matched_index indexes d =
     (case filter (\<lambda>k. map_of indexes k \<noteq> None) (decision_keys d) of [] \<Rightarrow> None | k # _ \<Rightarrow> map_of indexes k)"

fun check_decisions ::
  "meta_value list \<Rightarrow> (string, nat) dict \<Rightarrow> nat list \<Rightarrow> interrupt_decision list \<Rightarrow> resume_refusal option" where
  "check_decisions reqs indexes seen [] = None"
| "check_decisions reqs indexes seen (d # ds) =
     (case matched_index indexes d of
        None \<Rightarrow> Some UnknownDecision
      | Some i \<Rightarrow>
          if i \<in> set seen then Some DuplicateDecision
          else if kind_text (de_type d) \<notin> set (allowed_decisions (reqs ! i)) then Some DecisionNotAllowed
          else check_decisions reqs indexes (i # seen) ds)"

definition validate_complete_decisions ::
  "(meta_value \<Rightarrow> string) \<Rightarrow> meta_value list \<Rightarrow> interrupt_decision list \<Rightarrow> resume_refusal option" where
  "validate_complete_decisions show reqs ds =
     (if reqs = [] then None
      else (let counts = pending_action_counts show reqs
            in case check_decisions reqs (pending_request_indexes show reqs) [] ds of
                 Some e \<Rightarrow> Some e
               | None \<Rightarrow>
                   if list_ex (\<lambda>r. case pending_request_key show counts r of
                        Some k \<Rightarrow> k \<notin> set (concat (map decision_keys ds)) | None \<Rightarrow> False) reqs
                   then Some IncompleteDecisions else None))"

section \<open>The device an approval was given for\<close>

definition provenance_map :: "metadata \<Rightarrow> (string, metadata) dict" where
  "provenance_map md =
     (case meta_get md ''tool_provenance'' of
        MDict entries \<Rightarrow> concat (map (\<lambda>(k, v). case v of MDict p \<Rightarrow> [(k, p)] | _ \<Rightarrow> []) entries)
      | _ \<Rightarrow> [])"

definition is_client_runtime_entry :: "(meta_value \<Rightarrow> string) \<Rightarrow> metadata \<Rightarrow> bool" where
  "is_client_runtime_entry show p =
     (let origin = lower (py_strip (meta_text_or show (meta_get p ''tool_origin'') []))
      in if origin \<noteq> [] then prefix ''client_'' origin
         else \<not> is_blank (meta_get p ''session_id'') \<or> meta_get p ''catalog_version'' \<noteq> MNull \<or>
           \<not> is_blank (meta_get p ''tool_instance_id''))"

text \<open>The scope a new record keeps: a value all client entries agree on.\<close>

definition only_value :: "'a list \<Rightarrow> 'a option" where
  "only_value xs = (case remdups xs of [x] \<Rightarrow> Some x | _ \<Rightarrow> None)"

definition execution_scope ::
  "(meta_value \<Rightarrow> string) \<Rightarrow> (meta_value \<Rightarrow> int) \<Rightarrow> metadata \<Rightarrow> string option \<times> int option \<times> string option" where
  "execution_scope show to_int md =
     (let entries = filter (is_client_runtime_entry show) (map snd (provenance_map md));
          stated = (\<lambda>k. map (\<lambda>p. meta_text show (meta_get p k)) (filter (\<lambda>p. \<not> is_blank (meta_get p k)) entries))
      in (only_value (stated ''session_id''),
          only_value (map (\<lambda>p. to_int (meta_get p ''catalog_version''))
            (filter (\<lambda>p. meta_get p ''catalog_version'' \<noteq> MNull) entries)),
          only_value (stated ''tool_instance_id'')))"

definition record_scope_provenance :: "interrupt_row \<Rightarrow> metadata" where
  "record_scope_provenance r =
     (case ir_device_id r of Some d \<Rightarrow> [(''device_id'', MStr d)] | None \<Rightarrow> []) @
     (if truthy_str (ir_session_id r) then [(''session_id'', MStr (the (ir_session_id r)))] else []) @
     (case ir_catalog_version r of Some v \<Rightarrow> [(''catalog_version'', MInt v)] | None \<Rightarrow> []) @
     (if truthy_str (ir_tool_instance_id r) then [(''tool_instance_id'', MStr (the (ir_tool_instance_id r)))] else [])"

definition record_runtime_provenance :: "(meta_value \<Rightarrow> string) \<Rightarrow> interrupt_row \<Rightarrow> metadata list" where
  "record_runtime_provenance show r =
     (if is_client_runtime_entry show (record_scope_provenance r) then [record_scope_provenance r] else [])"

definition decision_entry :: "(meta_value \<Rightarrow> string) \<Rightarrow> (string, metadata) dict \<Rightarrow> interrupt_decision \<Rightarrow> metadata option" where
  "decision_entry show provenances d =
     (case filter (\<lambda>k. is_client_runtime_entry show (case map_of provenances k of Some p \<Rightarrow> p | None \<Rightarrow> [])) (decision_keys d) of
        [] \<Rightarrow> None
      | k # _ \<Rightarrow> map_of provenances k)"

definition actionable :: "interrupt_decision \<Rightarrow> bool" where
  "actionable d \<longleftrightarrow> de_type d = Approve \<or> de_type d = Edit"

definition runtime_validation_provenance ::
  "(meta_value \<Rightarrow> string) \<Rightarrow> interrupt_row \<Rightarrow> interrupt_decision list option \<Rightarrow> metadata list" where
  "runtime_validation_provenance show r decisions =
     (let provenances = provenance_map (ir_metadata r)
      in case decisions of
           None \<Rightarrow>
             (let entries = filter (is_client_runtime_entry show) (map snd provenances)
              in if entries \<noteq> [] then entries else record_runtime_provenance show r)
         | Some ds \<Rightarrow>
             (let acting = filter actionable ds; matched = List.map_filter (decision_entry show provenances) acting
              in if acting = [] then []
                 else if matched \<noteq> [] then matched
                 else if provenances = [] then record_runtime_provenance show r else []))"

definition validate_provenance_session ::
  "(meta_value \<Rightarrow> string) \<Rightarrow> (meta_value \<Rightarrow> int) \<Rightarrow> session_record \<Rightarrow> metadata \<Rightarrow> (string \<times> resume_refusal) option" where
  "validate_provenance_session show to_int s p =
     (if \<not> is_blank (meta_get p ''session_id'') \<and> sr_session_id s \<noteq> meta_text show (meta_get p ''session_id'')
      then Some (''session_changed'', SessionMismatch)
      else if meta_get p ''catalog_version'' \<noteq> MNull \<and> sr_tool_catalog_version s \<noteq> to_int (meta_get p ''catalog_version'')
      then Some (''catalog_changed'', CatalogMismatch) else None)"

definition provenance_text :: "(meta_value \<Rightarrow> string) \<Rightarrow> metadata \<Rightarrow> string \<Rightarrow> string" where
  "provenance_text show p k = py_strip (meta_text_or show (meta_get p k) [])"

definition validate_provenance_tool ::
  "(meta_value \<Rightarrow> string) \<Rightarrow> catalog_entry list \<Rightarrow> metadata \<Rightarrow> (string \<times> resume_refusal) option" where
  "validate_provenance_tool show tools p =
     (let qid = provenance_text show p ''qualified_tool_id''; instance_id = provenance_text show p ''tool_instance_id''
      in if qid = [] then
           (if instance_id \<noteq> [] \<and> instance_id \<notin> set (filter (\<lambda>i. i \<noteq> []) (map ce_tool_instance_id tools))
            then Some (''tool_instance_changed'', ToolInstanceMismatch) else None)
         else case catalog_lookup tools qid of
           None \<Rightarrow> Some (''tool_unavailable'', ToolUnavailable)
         | Some e \<Rightarrow>
             if instance_id \<noteq> [] \<and> py_strip (ce_tool_instance_id e) \<noteq> [] \<and> instance_id \<noteq> py_strip (ce_tool_instance_id e)
             then Some (''tool_instance_changed'', ToolInstanceMismatch) else None)"

fun validate_provenances ::
  "(meta_value \<Rightarrow> string) \<Rightarrow> (meta_value \<Rightarrow> int) \<Rightarrow> session_record \<Rightarrow> metadata list \<Rightarrow> (string \<times> resume_refusal) option" where
  "validate_provenances show to_int s [] = None"
| "validate_provenances show to_int s (p # ps) =
     (case validate_provenance_session show to_int s p of
        Some e \<Rightarrow> Some e
      | None \<Rightarrow>
          (case validate_provenance_tool show (case sr_tool_catalog s of Some tools \<Rightarrow> tools | None \<Rightarrow> []) p of
             Some e \<Rightarrow> Some e
           | None \<Rightarrow> validate_provenances show to_int s ps))"

text \<open>\<open>Some (source, refusal)\<close> expires the approval with that source; the lookup may end a dead session.\<close>

definition validate_runtime_scope ::
  "(meta_value \<Rightarrow> string) \<Rightarrow> (meta_value \<Rightarrow> int) \<Rightarrow> runtime_settings \<Rightarrow> rat \<Rightarrow> interrupt_row \<Rightarrow> interrupt_decision list option
     \<Rightarrow> session_store \<Rightarrow> (string \<times> resume_refusal) option \<times> session_store" where
  "validate_runtime_scope show to_int cfg now r decisions sessions =
     (let ps = runtime_validation_provenance show r decisions
      in if ps = [] then (None, sessions)
         else (let (active, sessions') = (case ir_device_id r of
                 None \<Rightarrow> (None, sessions)
               | Some d \<Rightarrow> get_session cfg now d sessions)
               in (case active of
                     None \<Rightarrow> Some (''runtime_unavailable'', RuntimeUnavailable)
                   | Some s \<Rightarrow>
                       if sr_user_id s \<noteq> ir_user_id r then Some (''runtime_unavailable'', RuntimeUnavailable)
                       else validate_provenances show to_int s ps,
                   sessions')))"

section \<open>Resuming\<close>

definition require_status_resumable :: "rat \<Rightarrow> interrupt_row \<Rightarrow> interrupt_row list \<Rightarrow> resume_refusal option \<times> interrupt_row list" where
  "require_status_resumable now r rows =
     (if ir_status r = IsExpired then (Some GoneExpired, rows)
      else if ir_status r = IsPending \<and> ir_expires_at r \<le> now
      then (Some GoneExpired, mark_expired (ir_id r) ''timeout'' rows)
      else if ir_status r = IsFailed then (Some ContinuationFailed, rows)
      else if ir_status r = IsResolved \<or> ir_status r = IsResolving then (Some AlreadyResolved, rows)
      else (None, rows))"

definition require_resumable ::
  "rat \<Rightarrow> string \<Rightarrow> string \<Rightarrow> string \<Rightarrow> string option \<Rightarrow> interrupt_row list
     \<Rightarrow> (resume_refusal + interrupt_row) \<times> interrupt_row list" where
  "require_resumable now iid conversation thread device rows =
     (case get_by_id iid rows of
        None \<Rightarrow> (Inl NotFound, rows)
      | Some r \<Rightarrow>
          if ir_conversation_id r \<noteq> conversation then (Inl NotFound, rows)
          else if ir_thread_id r \<noteq> thread then (Inl ThreadMismatch, rows)
          else if device \<noteq> None \<and> ir_device_id r \<noteq> None \<and> ir_device_id r \<noteq> device then (Inl DeviceMismatch, rows)
          else (case require_status_resumable now r rows of
            (Some e, rows') \<Rightarrow> (Inl e, rows')
          | (None, rows') \<Rightarrow> (Inr r, rows')))"

record resume_request =
  rr_thread_id :: string
  rr_conversation_id :: string
  rr_user_id :: string
  rr_interrupt_id :: string
  rr_device_id :: "string option"
  rr_decisions :: "interrupt_decision list option"

record resume_world =
  rw_rows :: "interrupt_row list"
  rw_sessions :: session_store

text \<open>
  The checks of a resume; the access to the conversation is checked before. With \<open>claim\<close> it takes the approval.
\<close>

definition validate_and_claim ::
  "(meta_value \<Rightarrow> string) \<Rightarrow> (meta_value \<Rightarrow> int) \<Rightarrow> runtime_settings \<Rightarrow> rat \<Rightarrow> resume_request \<Rightarrow> bool \<Rightarrow> resume_world
     \<Rightarrow> (resume_refusal + interrupt_row) \<times> resume_world" where
  "validate_and_claim show to_int cfg now q claim w =
     (if rr_interrupt_id q = [] then (Inl IdRequired, w)
      else case require_resumable now (rr_interrupt_id q) (rr_conversation_id q) (rr_thread_id q) (rr_device_id q) (rw_rows w) of
        (Inl e, rows) \<Rightarrow> (Inl e, w\<lparr>rw_rows := rows\<rparr>)
      | (Inr r, rows) \<Rightarrow>
          (case validate_complete_decisions show (ir_action_requests r) (case rr_decisions q of Some ds \<Rightarrow> ds | None \<Rightarrow> []) of
             Some e \<Rightarrow> (Inl e, w\<lparr>rw_rows := rows\<rparr>)
           | None \<Rightarrow>
               (case validate_runtime_scope show to_int cfg now r (rr_decisions q) (rw_sessions w) of
                  (Some (source, e), sessions) \<Rightarrow>
                    (Inl e, \<lparr>rw_rows = mark_expired (ir_id r) source rows, rw_sessions = sessions\<rparr>)
                | (None, sessions) \<Rightarrow>
                    if \<not> claim then (Inr r, \<lparr>rw_rows = rows, rw_sessions = sessions\<rparr>)
                    else (case try_transition_to_resolving now (rr_interrupt_id q) (rr_conversation_id q) (rr_user_id q) rows of
                      (won, rows') \<Rightarrow>
                        (if won then Inr r else Inl ResumeConflict, \<lparr>rw_rows = rows', rw_sessions = sessions\<rparr>)))))"

text \<open>A refused resume gives its claim up, whether or not it had one.\<close>

definition release_resume_claim :: "rat \<Rightarrow> resume_request \<Rightarrow> string \<Rightarrow> resume_world \<Rightarrow> resume_world" where
  "release_resume_claim now q source w =
     (if rr_interrupt_id q = [] then w else w\<lparr>rw_rows := snd (mark_interrupt_failed now (rr_interrupt_id q) source (rw_rows w))\<rparr>)"

definition claim_or_release ::
  "(meta_value \<Rightarrow> string) \<Rightarrow> (meta_value \<Rightarrow> int) \<Rightarrow> runtime_settings \<Rightarrow> rat \<Rightarrow> resume_request \<Rightarrow> resume_world
     \<Rightarrow> (resume_refusal + interrupt_row) \<times> resume_world" where
  "claim_or_release show to_int cfg now q w =
     (case validate_and_claim show to_int cfg now q True w of
        (Inl e, w') \<Rightarrow> (Inl e, release_resume_claim now q ''approval_resume_refused'' w')
      | (Inr r, w') \<Rightarrow> (Inr r, w'))"

section \<open>Any order of transactions\<close>

datatype interrupt_op =
    CreateInterrupt interrupt_row
  | Claim rat string string string
  | MarkResolved rat string string
  | MarkFailed rat string string
  | MarkExpired string string
  | ExpireThread rat string string string string
  | ExpireDue rat string string
  | ExpireStale string string

fun interrupt_step :: "interrupt_op \<Rightarrow> interrupt_row list \<Rightarrow> interrupt_row list" where
  "interrupt_step (CreateInterrupt r) rows = snd (create_interrupt r rows)"
| "interrupt_step (Claim now iid conversation user) rows = snd (try_transition_to_resolving now iid conversation user rows)"
| "interrupt_step (MarkResolved now iid source) rows = mark_resolved now iid source rows"
| "interrupt_step (MarkFailed now iid source) rows = snd (mark_interrupt_failed now iid source rows)"
| "interrupt_step (MarkExpired iid source) rows = mark_expired iid source rows"
| "interrupt_step (ExpireThread now user conversation thread source) rows =
     snd (expire_pending_for_thread now user conversation thread source rows)"
| "interrupt_step (ExpireDue now iid user) rows = snd (expire_pending_if_due_for_user now iid user rows)"
| "interrupt_step (ExpireStale device current) rows = snd (expire_stale_client_tool_interrupts device current rows)"

definition interrupt_run :: "interrupt_op list \<Rightarrow> interrupt_row list \<Rightarrow> interrupt_row list" where
  "interrupt_run ops rows = fold interrupt_step ops rows"

definition wins :: "interrupt_op \<Rightarrow> interrupt_row list \<Rightarrow> string option" where
  "wins operation rows =
     (case operation of
        Claim now iid conversation user \<Rightarrow>
          if fst (try_transition_to_resolving now iid conversation user rows) then Some iid else None
      | _ \<Rightarrow> None)"

fun claims_won :: "interrupt_op list \<Rightarrow> interrupt_row list \<Rightarrow> string list" where
  "claims_won [] rows = []"
| "claims_won (operation # ops) rows =
     (case wins operation rows of Some iid \<Rightarrow> [iid] | None \<Rightarrow> []) @ claims_won ops (interrupt_step operation rows)"

section \<open>Lemmas\<close>

lemma interrupt_run_simps [simp]:
  "interrupt_run [] rows = rows"
  "interrupt_run (operation # ops) rows = interrupt_run ops (interrupt_step operation rows)"
  "interrupt_run (ops @ ops') rows = interrupt_run ops' (interrupt_run ops rows)"
  by (simp_all add: interrupt_run_def)

definition terminal :: "interrupt_row \<Rightarrow> bool" where
  "terminal r \<longleftrightarrow> ir_status r \<noteq> IsPending \<and> ir_status r \<noteq> IsResolving"

text \<open>What a transaction may do to a row: nothing to one that is closed, and nothing to what it is about.\<close>

definition evolves :: "interrupt_row \<Rightarrow> interrupt_row \<Rightarrow> bool" where
  "evolves r r' \<longleftrightarrow>
     ir_id r' = ir_id r \<and> ir_conversation_id r' = ir_conversation_id r \<and> ir_user_id r' = ir_user_id r \<and>
     ir_device_id r' = ir_device_id r \<and> ir_session_id r' = ir_session_id r \<and> ir_expires_at r' = ir_expires_at r \<and>
     (terminal r \<longrightarrow> r' = r) \<and> (ir_status r \<noteq> IsPending \<longrightarrow> ir_status r' \<noteq> IsPending)"

lemma update_where_evolves:
  assumes "\<And>r. P r \<Longrightarrow> evolves r (f r)"
  shows "\<exists>g. snd (update_where P f rows) = map g rows \<and> (\<forall>r. evolves r (g r))"
  using assms by (intro exI [of _ "\<lambda>r. if P r then f r else r"]) (auto simp: update_where_def evolves_def)

lemma step_evolves:
  assumes "\<And>r. operation \<noteq> CreateInterrupt r"
  shows "\<exists>g. interrupt_step operation rows = map g rows \<and> (\<forall>r. evolves r (g r))"
proof (cases operation)
  case (Claim now iid conversation user)
  show ?thesis
    unfolding Claim interrupt_step.simps try_transition_to_resolving_def case_prod_beta Let_def snd_conv
    by (rule update_where_evolves) (auto simp: evolves_def terminal_def)
next
  case (MarkResolved now iid source)
  show ?thesis
    unfolding MarkResolved interrupt_step.simps mark_resolved_def
    by (rule update_where_evolves) (auto simp: evolves_def terminal_def)
next
  case (MarkFailed now iid source)
  show ?thesis
    unfolding MarkFailed interrupt_step.simps mark_interrupt_failed_def case_prod_beta Let_def snd_conv
    by (rule update_where_evolves) (auto simp: evolves_def terminal_def)
next
  case (MarkExpired iid source)
  show ?thesis
    unfolding MarkExpired interrupt_step.simps mark_expired_def
    by (rule update_where_evolves) (auto simp: evolves_def terminal_def)
next
  case (ExpireThread now user conversation thread source)
  show ?thesis
    unfolding ExpireThread interrupt_step.simps expire_pending_for_thread_def
    by (rule update_where_evolves) (auto simp: evolves_def terminal_def)
next
  case (ExpireDue now iid user)
  show ?thesis
    unfolding ExpireDue interrupt_step.simps expire_pending_if_due_for_user_def case_prod_beta Let_def snd_conv
    by (rule update_where_evolves) (auto simp: evolves_def terminal_def)
next
  case (ExpireStale device current)
  show ?thesis
    unfolding ExpireStale interrupt_step.simps expire_stale_client_tool_interrupts_def
    by (rule update_where_evolves) (auto simp: evolves_def terminal_def)
qed (use assms in simp)

lemma step_ids:
  "map ir_id (interrupt_step operation rows) = map ir_id rows \<or>
   (\<exists>r. operation = CreateInterrupt r \<and> ir_id r \<notin> ir_id ` set rows \<and>
      interrupt_step operation rows = rows @ [r\<lparr>ir_status := IsPending, ir_resolved_at := None, ir_resolved_by := None, ir_resolution_source := None\<rparr>])"
proof (cases "\<exists>r. operation = CreateInterrupt r")
  case True
  then obtain r where "operation = CreateInterrupt r" by blast
  then show ?thesis by (cases "ir_id r \<in> ir_id ` set rows") (simp_all add: create_interrupt_def)
next
  case False
  with step_evolves [of operation rows] show ?thesis by (auto simp: evolves_def comp_def)
qed

lemma step_distinct: "distinct (map ir_id rows) \<Longrightarrow> distinct (map ir_id (interrupt_step operation rows))"
  using step_ids [of operation rows] by auto

lemma step_row:
  assumes "r \<in> set rows"
  shows "\<exists>r'. r' \<in> set (interrupt_step operation rows) \<and> evolves r r'"
proof (cases "\<exists>r0. operation = CreateInterrupt r0")
  case True
  with assms show ?thesis by (auto simp: create_interrupt_def evolves_def intro!: bexI [of _ r])
next
  case False
  then obtain g where "interrupt_step operation rows = map g rows" "\<forall>r. evolves r (g r)"
    using step_evolves [of operation rows] by blast
  with assms show ?thesis by (intro exI [of _ "g r"]) auto
qed

lemma evolves_trans: "evolves r r1 \<Longrightarrow> evolves r1 r2 \<Longrightarrow> evolves r r2"
  by (auto simp: evolves_def)

lemma run_row: "r \<in> set rows \<Longrightarrow> \<exists>r'. r' \<in> set (interrupt_run ops rows) \<and> evolves r r'"
proof (induction ops arbitrary: r rows)
  case (Cons operation ops)
  obtain r1 where "r1 \<in> set (interrupt_step operation rows)" "evolves r r1" using step_row [OF Cons.prems] by blast
  with Cons.IH [of r1] show ?case by (auto intro: evolves_trans)
qed (auto simp: evolves_def)

text \<open>A claim that wins finds a row that waits and is not due.\<close>

lemma count_one:
  assumes "distinct (map key rows)" and "\<And>r. P r \<Longrightarrow> key r = k"
  shows "length (filter P rows) = 1 \<longleftrightarrow> (\<exists>r \<in> set rows. P r)"
  using assms(1)
proof (induction rows)
  case (Cons r rows)
  show ?case
  proof (cases "P r")
    case True
    with Cons.prems assms(2) have "filter P rows = []" by (fastforce simp: filter_empty_conv image_iff)
    with True show ?thesis by simp
  qed (use Cons in simp)
qed simp

lemma wins_iff:
  assumes "distinct (map ir_id rows)"
  shows "wins operation rows = Some iid \<longleftrightarrow>
    (\<exists>now conversation user. operation = Claim now iid conversation user \<and>
      (\<exists>r \<in> set rows. ir_id r = iid \<and> ir_conversation_id r = conversation \<and> ir_status r = IsPending \<and> ir_expires_at r > now))"
proof (cases operation)
  case (Claim now iid' conversation user)
  let ?P = "\<lambda>r. ir_id r = iid' \<and> ir_conversation_id r = conversation \<and> ir_status r = IsPending \<and> ir_expires_at r > now"
  have "length (filter ?P rows) = 1 \<longleftrightarrow> (\<exists>r \<in> set rows. ?P r)"
    by (rule count_one [OF assms]) simp
  then show ?thesis
    by (auto simp: wins_def Claim try_transition_to_resolving_def update_where_def)
qed (simp_all add: wins_def)

definition waiting :: "string \<Rightarrow> interrupt_row list \<Rightarrow> bool" where
  "waiting iid rows \<longleftrightarrow> (\<forall>r \<in> set rows. ir_id r = iid \<longrightarrow> ir_status r = IsPending)"

lemma not_waiting_step: "\<not> waiting iid rows \<Longrightarrow> \<not> waiting iid (interrupt_step operation rows)"
proof -
  assume "\<not> waiting iid rows"
  then obtain r where "r \<in> set rows" "ir_id r = iid" "ir_status r \<noteq> IsPending" by (auto simp: waiting_def)
  with step_row [of r rows operation] show ?thesis by (auto simp: waiting_def evolves_def)
qed

lemma won_not_waiting:
  assumes "distinct (map ir_id rows)" and "wins operation rows = Some iid"
  shows "waiting iid rows" and "\<not> waiting iid (interrupt_step operation rows)"
proof -
  from assms obtain now conversation user r where o1: "operation = Claim now iid conversation user"
    and r: "r \<in> set rows" "ir_id r = iid" "ir_conversation_id r = conversation" "ir_status r = IsPending" "ir_expires_at r > now"
    by (auto simp: wins_iff)
  from assms(1) r show "waiting iid rows"
    by (auto simp: waiting_def dest: distinct_map_inj_on_set [of ir_id rows _ r])
  have "r\<lparr>ir_status := IsResolving, ir_resolved_by := Some user\<rparr> \<in> set (interrupt_step operation rows)"
    using r by (force simp: o1 try_transition_to_resolving_def update_where_def)
  with r show "\<not> waiting iid (interrupt_step operation rows)" by (fastforce simp: waiting_def)
qed

lemma claims_bounded:
  "distinct (map ir_id rows) \<Longrightarrow>
     length (filter (\<lambda>c. c = iid) (claims_won ops rows)) \<le> (if waiting iid rows then 1 else 0)"
proof (induction ops arbitrary: rows)
  case (Cons operation ops)
  note IH = Cons.IH [OF step_distinct [OF Cons.prems], of operation]
  show ?case
  proof (cases "wins operation rows = Some iid")
    case True
    with won_not_waiting [OF Cons.prems True] IH show ?thesis by simp
  next
    case False
    then have "filter (\<lambda>c. c = iid) (claims_won (operation # ops) rows) =
        filter (\<lambda>c. c = iid) (claims_won ops (interrupt_step operation rows))"
      by (auto split: option.split)
    with IH not_waiting_step [of iid rows operation] show ?thesis by (auto split: if_splits)
  qed
qed simp

lemma run_distinct: "distinct (map ir_id rows) \<Longrightarrow> distinct (map ir_id (interrupt_run ops rows))"
  by (induction ops arbitrary: rows) (auto simp: step_distinct)

lemma check_decisions_ok:
  "check_decisions reqs indexes seen ds = None \<Longrightarrow>
     distinct (map (matched_index indexes) ds) \<and>
     (\<forall>d \<in> set ds. \<exists>i. matched_index indexes d = Some i \<and> i \<notin> set seen \<and>
        kind_text (de_type d) \<in> set (allowed_decisions (reqs ! i)))"
proof (induction ds arbitrary: seen)
  case (Cons d ds)
  then obtain i where i: "matched_index indexes d = Some i" "i \<notin> set seen"
      "kind_text (de_type d) \<in> set (allowed_decisions (reqs ! i))"
      "check_decisions reqs indexes (i # seen) ds = None"
    by (auto split: option.splits if_splits)
  from Cons.IH [OF i(4)] i(1-3) show ?case by auto
qed simp

lemma matched_by_id:
  assumes "de_action d = None" and "k \<in> set (decision_keys d)" and "map_of indexes k = Some i"
  shows "matched_index indexes d = Some i"
  using assms by (cases "decision_id d") (simp_all add: matched_index_def decision_keys_def)

text \<open>An index stands for the request that has the key.\<close>

lemma map_of_enter: "map_of (fold (\<lambda>k d. AList.update k i d) ks d) k = (if k \<in> set ks then Some i else map_of d k)"
  by (induction ks arbitrary: d) (auto simp: update_conv)

lemma entered_index:
  assumes "map_of (fold (\<lambda>(i, r) d. fold (\<lambda>k d. AList.update k i d) (keys r) d) (enumerate n rs) d) k = Some i"
  shows "map_of d k = Some i \<or> n \<le> i \<and> i < n + length rs \<and> k \<in> set (keys (rs ! (i - n)))"
  using assms
proof (induction rs arbitrary: n d)
  case (Cons r rs)
  from Cons.IH [of "Suc n" "fold (\<lambda>k d. AList.update k n d) (keys r) d"] Cons.prems
  show ?case by (auto simp: map_of_enter Suc_diff_le nth_Cons' split: if_splits)
qed simp

lemma request_index:
  assumes "map_of (pending_request_indexes show reqs) k = Some i"
  shows "i < length reqs \<and> k \<in> set (request_keys show (pending_action_counts show reqs) (reqs ! i))"
  using entered_index [OF assms [unfolded pending_request_indexes_def]] by simp

lemma matched_index_SomeD:
  "matched_index indexes d = Some i \<Longrightarrow> \<exists>k \<in> set (decision_keys d). map_of indexes k = Some i"
proof -
  assume m: "matched_index indexes d = Some i"
  then obtain k ks where k: "filter (\<lambda>k. map_of indexes k \<noteq> None) (decision_keys d) = k # ks"
    by (cases "filter (\<lambda>k. map_of indexes k \<noteq> None) (decision_keys d)") (auto simp: matched_index_def)
  then have "k \<in> set (filter (\<lambda>k. map_of indexes k \<noteq> None) (decision_keys d))" by simp
  then have "k \<in> set (decision_keys d)" by simp
  moreover from m k have "map_of indexes k = Some i" by (simp add: matched_index_def)
  ultimately show ?thesis by blast
qed

text \<open>What it means that the decisions of a resume are accepted.\<close>

lemma accepted_checked:
  assumes "validate_complete_decisions show reqs ds = None" and "reqs \<noteq> []"
  shows "check_decisions reqs (pending_request_indexes show reqs) [] ds = None"
    and "r \<in> set reqs \<Longrightarrow> pending_request_key show (pending_action_counts show reqs) r = Some k \<Longrightarrow>
      \<exists>d \<in> set ds. k \<in> set (decision_keys d)"
proof -
  from assms show "check_decisions reqs (pending_request_indexes show reqs) [] ds = None"
    by (auto simp: validate_complete_decisions_def Let_def split: option.splits if_splits)
  from assms have "\<not> list_ex (\<lambda>r. case pending_request_key show (pending_action_counts show reqs) r of
        Some k \<Rightarrow> k \<notin> set (concat (map decision_keys ds)) | None \<Rightarrow> False) reqs"
    by (auto simp: validate_complete_decisions_def Let_def split: option.splits if_splits)
  moreover assume "r \<in> set reqs" "pending_request_key show (pending_action_counts show reqs) r = Some k"
  ultimately have "k \<in> set (concat (map decision_keys ds))" by (force simp: list_ex_iff)
  then show "\<exists>d \<in> set ds. k \<in> set (decision_keys d)" by auto
qed

lemma accepted_decision:
  assumes "validate_complete_decisions show reqs ds = None" and "reqs \<noteq> []" and "d \<in> set ds"
  shows "\<exists>i < length reqs. matched_index (pending_request_indexes show reqs) d = Some i \<and>
    (\<exists>k \<in> set (decision_keys d). k \<in> set (request_keys show (pending_action_counts show reqs) (reqs ! i))) \<and>
    kind_text (de_type d) \<in> set (allowed_decisions (reqs ! i))"
proof -
  from check_decisions_ok [OF accepted_checked(1) [OF assms(1,2)]] assms(3) obtain i where
    i: "matched_index (pending_request_indexes show reqs) d = Some i"
      "kind_text (de_type d) \<in> set (allowed_decisions (reqs ! i))" by blast
  from matched_index_SomeD [OF i(1)] obtain k where
    k: "k \<in> set (decision_keys d)" "map_of (pending_request_indexes show reqs) k = Some i" by blast
  with request_index [OF k(2)] i show ?thesis by blast
qed

lemma answered_by_one:
  assumes "validate_complete_decisions show reqs ds = None" and "\<forall>d \<in> set ds. de_action d = None"
    and "i < length reqs" and "pending_request_key show (pending_action_counts show reqs) (reqs ! i) = Some k"
    and "map_of (pending_request_indexes show reqs) k = Some i"
  shows "\<exists>!d. d \<in> set ds \<and> matched_index (pending_request_indexes show reqs) d = Some i"
proof -
  let ?idx = "pending_request_indexes show reqs"
  from assms(3) have r: "reqs \<noteq> []" "reqs ! i \<in> set reqs" by auto
  from accepted_checked(2) [OF assms(1) r assms(4)] obtain d where d: "d \<in> set ds" "k \<in> set (decision_keys d)" by blast
  with assms(2,5) have m: "matched_index ?idx d = Some i" by (simp add: matched_by_id)
  from check_decisions_ok [OF accepted_checked(1) [OF assms(1) r(1)]] have dist: "distinct (map (matched_index ?idx) ds)"
    by blast
  have "d' = d" if "d' \<in> set ds \<and> matched_index ?idx d' = Some i" for d'
    by (rule distinct_map_inj_on_set [OF dist]) (use that d(1) m in simp_all)
  with d(1) m show ?thesis by blast
qed

lemma accepted_decisions:
  assumes "validate_complete_decisions show reqs ds = None" and "reqs \<noteq> []"
  shows "distinct (map (matched_index (pending_request_indexes show reqs)) ds) \<and>
    (\<forall>d \<in> set ds. \<exists>i < length reqs. matched_index (pending_request_indexes show reqs) d = Some i \<and>
       (\<exists>k \<in> set (decision_keys d). k \<in> set (request_keys show (pending_action_counts show reqs) (reqs ! i))) \<and>
       kind_text (de_type d) \<in> set (allowed_decisions (reqs ! i))) \<and>
    (\<forall>request \<in> set reqs. \<forall>k. pending_request_key show (pending_action_counts show reqs) request = Some k \<longrightarrow>
       (\<exists>d \<in> set ds. k \<in> set (decision_keys d))) \<and>
    ((\<forall>d \<in> set ds. de_action d = None) \<longrightarrow>
       (\<forall>i < length reqs. \<forall>k. pending_request_key show (pending_action_counts show reqs) (reqs ! i) = Some k \<and>
            map_of (pending_request_indexes show reqs) k = Some i \<longrightarrow>
          (\<exists>!d. d \<in> set ds \<and> matched_index (pending_request_indexes show reqs) d = Some i)))"
proof (intro conjI ballI allI impI)
  show "distinct (map (matched_index (pending_request_indexes show reqs)) ds)"
    using check_decisions_ok [OF accepted_checked(1) [OF assms]] by (rule conjunct1)
qed (erule accepted_decision [OF assms], erule (1) accepted_checked(2) [OF assms],
  elim conjE, rule answered_by_one [OF assms(1)])

lemma provenances_ok:
  "validate_provenances show to_int s ps = None \<Longrightarrow> p \<in> set ps \<Longrightarrow>
     validate_provenance_session show to_int s p = None \<and>
     validate_provenance_tool show (case sr_tool_catalog s of Some tools \<Rightarrow> tools | None \<Rightarrow> []) p = None"
  by (induction ps) (auto split: option.splits)

lemma scope_ok:
  assumes "validate_runtime_scope show to_int cfg now r decisions sessions = (None, sessions')"
    and "p \<in> set (runtime_validation_provenance show r decisions)"
  shows "\<exists>d s. ir_device_id r = Some d \<and> ss_sessions sessions d = Some s \<and> is_alive cfg now s \<and>
    sr_user_id s = ir_user_id r \<and> validate_provenance_session show to_int s p = None \<and>
    validate_provenance_tool show (case sr_tool_catalog s of Some tools \<Rightarrow> tools | None \<Rightarrow> []) p = None"
proof -
  from assms(2) have "runtime_validation_provenance show r decisions \<noteq> []" by auto
  with assms(1) obtain d s where d: "ir_device_id r = Some d" and g: "get_session cfg now d sessions = (Some s, sessions')"
    and "sr_user_id s = ir_user_id r" and v: "validate_provenances show to_int s (runtime_validation_provenance show r decisions) = None"
    by (cases "ir_device_id r") (auto simp: validate_runtime_scope_def Let_def split: prod.splits option.splits if_splits)
  with get_session_SomeD [OF g] provenances_ok [OF v assms(2)] show ?thesis by auto
qed

text \<open>The stages of a resume that succeeds.\<close>

lemma status_ok:
  "require_status_resumable now r rows = (None, rows') \<Longrightarrow>
     ir_status r = IsPending \<and> ir_expires_at r > now \<and> rows' = rows"
  by (cases "ir_status r") (auto simp: require_status_resumable_def not_le split: if_splits)

lemma resumable_ok:
  assumes "require_resumable now iid conversation thread device rows = (Inr r, rows')"
  shows "r \<in> set rows \<and> ir_id r = iid \<and> ir_conversation_id r = conversation \<and> ir_thread_id r = thread \<and>
    (device \<noteq> None \<and> ir_device_id r \<noteq> None \<longrightarrow> ir_device_id r = device) \<and>
    ir_status r = IsPending \<and> ir_expires_at r > now \<and> rows' = rows"
proof -
  obtain r0 where f: "get_by_id iid rows = Some r0"
    using assms by (cases "get_by_id iid rows") (auto simp: require_resumable_def)
  obtain e rows1 where e: "require_status_resumable now r0 rows = (e, rows1)" by fastforce
  with assms f have "e = None" "rows1 = rows'" "r0 = r" "ir_conversation_id r0 = conversation" "ir_thread_id r0 = thread"
    "device \<noteq> None \<and> ir_device_id r0 \<noteq> None \<longrightarrow> ir_device_id r0 = device"
    by (cases e; auto simp: require_resumable_def split: if_splits)+
  with status_ok [of now r0 rows rows1] e f show ?thesis by (auto simp: get_by_id_def dest: find_SomeD)
qed

lemma resume_stages:
  assumes "validate_and_claim show to_int cfg now q True w = (Inr r, w')"
  shows "require_resumable now (rr_interrupt_id q) (rr_conversation_id q) (rr_thread_id q) (rr_device_id q) (rw_rows w) =
      (Inr r, rw_rows w)"
    and "validate_complete_decisions show (ir_action_requests r) (case rr_decisions q of Some ds \<Rightarrow> ds | None \<Rightarrow> []) = None"
    and "validate_runtime_scope show to_int cfg now r (rr_decisions q) (rw_sessions w) = (None, rw_sessions w')"
    and "try_transition_to_resolving now (rr_interrupt_id q) (rr_conversation_id q) (rr_user_id q) (rw_rows w) =
      (True, rw_rows w')"
proof -
  obtain x rows where q: "require_resumable now (rr_interrupt_id q) (rr_conversation_id q) (rr_thread_id q)
      (rr_device_id q) (rw_rows w) = (x, rows)" by fastforce
  with assms obtain r0 where x: "x = Inr r0" by (cases x) (auto simp: validate_and_claim_def split: if_splits)
  with q have rows: "rows = rw_rows w" using resumable_ok by blast
  have c: "validate_complete_decisions show (ir_action_requests r0) (case rr_decisions q of Some ds \<Rightarrow> ds | None \<Rightarrow> []) = None"
    using assms q x by (auto simp: validate_and_claim_def split: if_splits option.splits)
  obtain e sessions where v: "validate_runtime_scope show to_int cfg now r0 (rr_decisions q) (rw_sessions w) = (e, sessions)"
    by fastforce
  with assms q x c have e: "e = None"
    by (cases e) (auto simp: validate_and_claim_def split: if_splits)
  obtain won rows' where t: "try_transition_to_resolving now (rr_interrupt_id q) (rr_conversation_id q) (rr_user_id q)
      (rw_rows w) = (won, rows')" by fastforce
  from assms q x c v e t rows have "won" "r0 = r" "w' = \<lparr>rw_rows = rows', rw_sessions = sessions\<rparr>"
    by (auto simp: validate_and_claim_def split: if_splits)
  with q x rows c v e t show
    "require_resumable now (rr_interrupt_id q) (rr_conversation_id q) (rr_thread_id q) (rr_device_id q) (rw_rows w) =
      (Inr r, rw_rows w)"
    "validate_complete_decisions show (ir_action_requests r) (case rr_decisions q of Some ds \<Rightarrow> ds | None \<Rightarrow> []) = None"
    "validate_runtime_scope show to_int cfg now r (rr_decisions q) (rw_sessions w) = (None, rw_sessions w')"
    "try_transition_to_resolving now (rr_interrupt_id q) (rr_conversation_id q) (rr_user_id q) (rw_rows w) =
      (True, rw_rows w')"
    by simp_all
qed

section \<open>Properties\<close>

text \<open>
  C36: Whatever requests, expiries, reconnects and endings interleave, an approval is taken by one resume at most,
  and a record that was resolved, failed or expired never changes again.
\<close>

theorem approval_claimed_once:
  "length (filter (\<lambda>c. c = iid) (claims_won ops [])) \<le> 1 \<and>
   (r \<in> set (interrupt_run ops []) \<and> terminal r \<longrightarrow> r \<in> set (interrupt_run (ops @ later) []))"
  using claims_bounded [of "[]" iid ops] run_row [of r "interrupt_run ops []" later]
  by (auto simp: evolves_def split: if_splits)

definition sample_interrupt :: interrupt_row where
  "sample_interrupt =
     \<lparr>ir_id = ''i'', ir_conversation_id = ''c'', ir_user_id = ''u'', ir_thread_id = ''t'', ir_status = IsPending,
      ir_expires_at = 10, ir_resolved_at = None, ir_resolved_by = None, ir_resolution_source = None,
      ir_action_requests = [MDict [(''tool_call_id'', MStr ''a''), (''action'', MStr ''send'')]],
      ir_device_id = Some ''d'',
      ir_metadata = [(''tool_provenance'', MDict [(''a'', MDict [(''tool_origin'', MStr ''client_mcp''),
        (''session_id'', MStr ''t''), (''catalog_version'', MInt 1), (''qualified_tool_id'', MStr ''s::t''),
        (''tool_instance_id'', MStr ''i'')])])],
      ir_session_id = Some ''t'', ir_catalog_version = Some 1, ir_tool_instance_id = None\<rparr>"

definition sample_interrupt_ops :: "interrupt_op list" where
  "sample_interrupt_ops =
     [CreateInterrupt sample_interrupt, Claim 1 ''i'' ''c'' ''u'', Claim 2 ''i'' ''c'' ''v'', MarkResolved 3 ''i'' ''user'']"

definition sample_resolved :: interrupt_row where
  "sample_resolved = sample_interrupt\<lparr>ir_status := IsResolved, ir_resolved_at := Some 3, ir_resolved_by := Some ''u'',
     ir_resolution_source := Some ''user''\<rparr>"

theorem approval_claimed_once_witness:
  "sample_resolved \<in> set (interrupt_run (sample_interrupt_ops @ [MarkExpired ''i'' ''timeout'']) [])"
proof -
  have "interrupt_run sample_interrupt_ops [] = [sample_resolved]" by code_simp
  moreover have "terminal sample_resolved" by code_simp
  ultimately show ?thesis
    using approval_claimed_once [of "''i''" sample_interrupt_ops sample_resolved "[MarkExpired ''i'' ''timeout'']"] by simp
qed

text \<open>
  Once a device is connected under another session and the stale approvals were expired, no approval given for
  a call of the old session is ever taken.
\<close>

theorem session_change_ends_approvals:
  assumes "r \<in> set (interrupt_run ops [])" and "ir_device_id r = Some d" and "ir_session_id r = Some s" and "s \<noteq> sid"
  shows "ir_id r \<notin> set (claims_won later (interrupt_step (ExpireStale d sid) (interrupt_run ops [])))"
proof -
  let ?rows = "interrupt_run ops []" and ?after = "interrupt_step (ExpireStale d sid) (interrupt_run ops [])"
  have "distinct (map ir_id ?after)" by (rule step_distinct) (rule run_distinct, simp)
  from claims_bounded [OF this, of "ir_id r" later] have "\<not> waiting (ir_id r) ?after \<Longrightarrow>
      filter (\<lambda>c. c = ir_id r) (claims_won later ?after) = []" by simp
  moreover have "\<not> waiting (ir_id r) ?after"
  proof (cases "ir_status r = IsPending")
    case True
    with assms have "r\<lparr>ir_status := IsExpired, ir_resolution_source := Some ''session_changed''\<rparr> \<in> set ?after"
      by (force simp: expire_stale_client_tool_interrupts_def update_where_def)
    then show ?thesis by (fastforce simp: waiting_def)
  next
    case False
    with assms(1) have "\<not> waiting (ir_id r) ?rows" by (auto simp: waiting_def)
    then show ?thesis by (rule not_waiting_step)
  qed
  ultimately show ?thesis by (auto simp: filter_empty_conv)
qed

theorem session_change_ends_approvals_witness:
  "''i'' \<notin> set (claims_won [Claim 1 ''i'' ''c'' ''u'']
     (interrupt_step (ExpireStale ''d'' ''new'') (interrupt_run [CreateInterrupt sample_interrupt] [])))"
proof -
  have "sample_interrupt \<in> set (interrupt_run [CreateInterrupt sample_interrupt] [])" by code_simp
  from session_change_ends_approvals [OF this, of "''d''" "''t''" "''new''" "[Claim 1 ''i'' ''c'' ''u'']"]
  show ?thesis by (simp add: sample_interrupt_def)
qed

text \<open>
  A decision that names one call by its id and another by its action counts for both: two calls, one decision.
\<close>

lemma crossed_keys_accepted:
  "validate_complete_decisions (\<lambda>v. [])
     [MDict [(''tool_call_id'', MStr ''a''), (''action'', MStr ''read'')],
      MDict [(''tool_call_id'', MStr ''b''), (''action'', MStr ''send'')]]
     [\<lparr>de_type = Approve, de_task_id = None, de_tool_call_id = Some ''b'', de_action = Some ''a''\<rparr>] = None"
  by code_simp

lemma claim_takes:
  assumes "try_transition_to_resolving now iid conversation user rows = (True, rows')" and "r \<in> set rows"
    and "ir_id r = iid" "ir_conversation_id r = conversation" "ir_status r = IsPending" "ir_expires_at r > now"
  shows "r\<lparr>ir_status := IsResolving, ir_resolved_by := Some user\<rparr> \<in> set rows'"
  using assms by (force simp: try_transition_to_resolving_def update_where_def)

lemma entry_validated:
  assumes "d \<in> set ds" and "actionable d" and "decision_entry show (provenance_map (ir_metadata r)) d = Some p"
  shows "p \<in> set (runtime_validation_provenance show r (Some ds))"
proof -
  let ?m = "List.map_filter (decision_entry show (provenance_map (ir_metadata r))) (filter actionable ds)"
  from assms have p: "p \<in> set ?m" by (force simp: List.map_filter_def)
  from this assms(1,2) have "?m \<noteq> []" "filter actionable ds \<noteq> []" by (fastforce, auto simp: filter_empty_conv)
  with p show ?thesis by (simp add: runtime_validation_provenance_def Let_def)
qed

text \<open>What the checks of a provenance entry establish of the session.\<close>

lemma provenance_session_ok:
  "validate_provenance_session show to_int s p = None \<Longrightarrow>
     (\<not> is_blank (meta_get p ''session_id'') \<longrightarrow> sr_session_id s = meta_text show (meta_get p ''session_id'')) \<and>
     (meta_get p ''catalog_version'' \<noteq> MNull \<longrightarrow> sr_tool_catalog_version s = to_int (meta_get p ''catalog_version''))"
  by (auto simp: validate_provenance_session_def split: if_splits)

lemma provenance_tool_ok:
  assumes "validate_provenance_tool show (case sr_tool_catalog s of Some tools \<Rightarrow> tools | None \<Rightarrow> []) p = None"
  shows "provenance_text show p ''qualified_tool_id'' \<noteq> [] \<Longrightarrow>
      \<exists>tools e. sr_tool_catalog s = Some tools \<and> catalog_lookup tools (provenance_text show p ''qualified_tool_id'') = Some e \<and>
        (provenance_text show p ''tool_instance_id'' \<noteq> [] \<and> py_strip (ce_tool_instance_id e) \<noteq> [] \<longrightarrow>
          py_strip (ce_tool_instance_id e) = provenance_text show p ''tool_instance_id'')"
    and "provenance_text show p ''qualified_tool_id'' = [] \<Longrightarrow> provenance_text show p ''tool_instance_id'' \<noteq> [] \<Longrightarrow>
      \<exists>tools e. sr_tool_catalog s = Some tools \<and> e \<in> set tools \<and>
        ce_tool_instance_id e = provenance_text show p ''tool_instance_id''"
  using assms
  by (cases "sr_tool_catalog s";
      auto simp: validate_provenance_tool_def Let_def catalog_lookup_def split: option.splits if_splits; fail)+

text \<open>
  What an approval given for a device says of the session the device has now: its owner, the session and catalog
  version it was given under, and the tool and tool instance it was given for.
\<close>

definition still_bound ::
  "(meta_value \<Rightarrow> string) \<Rightarrow> (meta_value \<Rightarrow> int) \<Rightarrow> runtime_settings \<Rightarrow> rat \<Rightarrow> interrupt_row \<Rightarrow> session_store \<Rightarrow> metadata \<Rightarrow> bool" where
  "still_bound show to_int cfg now r sessions p \<longleftrightarrow>
     (\<exists>device s. ir_device_id r = Some device \<and> ss_sessions sessions device = Some s \<and> is_alive cfg now s \<and>
        sr_user_id s = ir_user_id r \<and>
        (\<not> is_blank (meta_get p ''session_id'') \<longrightarrow> sr_session_id s = meta_text show (meta_get p ''session_id'')) \<and>
        (meta_get p ''catalog_version'' \<noteq> MNull \<longrightarrow> sr_tool_catalog_version s = to_int (meta_get p ''catalog_version'')) \<and>
        (provenance_text show p ''qualified_tool_id'' \<noteq> [] \<longrightarrow>
          (\<exists>tools e. sr_tool_catalog s = Some tools \<and> catalog_lookup tools (provenance_text show p ''qualified_tool_id'') = Some e \<and>
            (provenance_text show p ''tool_instance_id'' \<noteq> [] \<and> py_strip (ce_tool_instance_id e) \<noteq> [] \<longrightarrow>
              py_strip (ce_tool_instance_id e) = provenance_text show p ''tool_instance_id''))) \<and>
        (provenance_text show p ''qualified_tool_id'' = [] \<and> provenance_text show p ''tool_instance_id'' \<noteq> [] \<longrightarrow>
          (\<exists>tools e. sr_tool_catalog s = Some tools \<and> e \<in> set tools \<and>
            ce_tool_instance_id e = provenance_text show p ''tool_instance_id'')))"

lemma scope_still_bound:
  assumes "validate_runtime_scope show to_int cfg now r decisions sessions = (None, sessions')"
    and "p \<in> set (runtime_validation_provenance show r decisions)"
  shows "still_bound show to_int cfg now r sessions p"
proof -
  from scope_ok [OF assms] obtain device s where
    s: "ir_device_id r = Some device" "ss_sessions sessions device = Some s" "is_alive cfg now s"
      "sr_user_id s = ir_user_id r" "validate_provenance_session show to_int s p = None"
      "validate_provenance_tool show (case sr_tool_catalog s of Some tools \<Rightarrow> tools | None \<Rightarrow> []) p = None" by blast
  with provenance_session_ok [OF s(5)] provenance_tool_ok [OF s(6)] show ?thesis
    unfolding still_bound_def by (intro exI [of _ device] exI [of _ s]) simp
qed

lemma undecided_validated:
  assumes "p \<in> snd ` set (provenance_map (ir_metadata r))" and "is_client_runtime_entry show p"
  shows "p \<in> set (runtime_validation_provenance show r None)"
  using assms by (force simp: runtime_validation_provenance_def Let_def filter_empty_conv)

text \<open>
  C37: A resume that takes an approval found it pending, not due, and of its own conversation, thread and device,
  and the record is now taken in its name. Its decisions each answer a different pending call, which they name
  and which allows that kind of decision; every pending call that has a key is named by one of them, and when
  they name calls by ids only, a call that its id stands for is answered by exactly one. And for every call of a
  device it approves or edits, or every such call of the record when it carries no decisions, the device is
  connected by the owner of the approval under the session and catalog version it was given for, and its
  catalog has the tool, under the instance it was given for where both state one.
\<close>

theorem approval_resumes_checked:
  assumes "validate_and_claim show to_int cfg now q True w = (Inr r, w')"
  shows "r \<in> set (rw_rows w) \<and> ir_id r = rr_interrupt_id q \<and> ir_conversation_id r = rr_conversation_id q \<and>
    ir_thread_id r = rr_thread_id q \<and> ir_status r = IsPending \<and> ir_expires_at r > now \<and>
    (rr_device_id q \<noteq> None \<and> ir_device_id r \<noteq> None \<longrightarrow> ir_device_id r = rr_device_id q) \<and>
    r\<lparr>ir_status := IsResolving, ir_resolved_by := Some (rr_user_id q)\<rparr> \<in> set (rw_rows w') \<and>
    (let reqs = ir_action_requests r; counts = pending_action_counts show reqs; idx = pending_request_indexes show reqs;
         ds = (case rr_decisions q of Some ds \<Rightarrow> ds | None \<Rightarrow> [])
     in reqs \<noteq> [] \<longrightarrow>
       distinct (map (matched_index idx) ds) \<and>
       (\<forall>d \<in> set ds. \<exists>i < length reqs. matched_index idx d = Some i \<and>
          (\<exists>k \<in> set (decision_keys d). k \<in> set (request_keys show counts (reqs ! i))) \<and>
          kind_text (de_type d) \<in> set (allowed_decisions (reqs ! i))) \<and>
       (\<forall>request \<in> set reqs. \<forall>k. pending_request_key show counts request = Some k \<longrightarrow>
          (\<exists>d \<in> set ds. k \<in> set (decision_keys d))) \<and>
       ((\<forall>d \<in> set ds. de_action d = None) \<longrightarrow>
          (\<forall>i < length reqs. \<forall>k. pending_request_key show counts (reqs ! i) = Some k \<and> map_of idx k = Some i \<longrightarrow>
             (\<exists>!d. d \<in> set ds \<and> matched_index idx d = Some i)))) \<and>
    (\<forall>ds d p. rr_decisions q = Some ds \<and> d \<in> set ds \<and> actionable d \<and>
        decision_entry show (provenance_map (ir_metadata r)) d = Some p \<longrightarrow>
      still_bound show to_int cfg now r (rw_sessions w) p) \<and>
    (\<forall>p. rr_decisions q = None \<and> p \<in> snd ` set (provenance_map (ir_metadata r)) \<and> is_client_runtime_entry show p \<longrightarrow>
      still_bound show to_int cfg now r (rw_sessions w) p)"
proof -
  let ?bound = "still_bound show to_int cfg now r (rw_sessions w)"
  note stages = resume_stages [OF assms]
  note ok = resumable_ok [OF stages(1)]
  from ok have row: "r \<in> set (rw_rows w)" "ir_id r = rr_interrupt_id q" "ir_conversation_id r = rr_conversation_id q"
    "ir_thread_id r = rr_thread_id q" "ir_status r = IsPending" "ir_expires_at r > now"
    "rr_device_id q \<noteq> None \<and> ir_device_id r \<noteq> None \<longrightarrow> ir_device_id r = rr_device_id q" by simp_all
  have taken: "r\<lparr>ir_status := IsResolving, ir_resolved_by := Some (rr_user_id q)\<rparr> \<in> set (rw_rows w')"
    by (rule claim_takes [OF stages(4)]) (rule row)+
  have acted: "\<forall>ds d p. rr_decisions q = Some ds \<and> d \<in> set ds \<and> actionable d \<and>
      decision_entry show (provenance_map (ir_metadata r)) d = Some p \<longrightarrow> ?bound p"
    by (metis scope_still_bound [OF stages(3)] entry_validated)
  have undecided: "\<forall>p. rr_decisions q = None \<and> p \<in> snd ` set (provenance_map (ir_metadata r)) \<and>
      is_client_runtime_entry show p \<longrightarrow> ?bound p"
    by (metis scope_still_bound [OF stages(3)] undecided_validated)
  note accepted = impI [OF accepted_decisions [OF stages(2)]]
  show ?thesis unfolding Let_def
    by (rule conjI [OF row(1) conjI [OF row(2) conjI [OF row(3) conjI [OF row(4) conjI [OF row(5) conjI [OF row(6)
      conjI [OF row(7) conjI [OF taken conjI [OF accepted conjI [OF acted undecided]]]]]]]]]])
qed

definition sample_resume :: resume_request where
  "sample_resume =
     \<lparr>rr_thread_id = ''t'', rr_conversation_id = ''c'', rr_user_id = ''u'', rr_interrupt_id = ''i'', rr_device_id = Some ''d'',
      rr_decisions = Some [\<lparr>de_type = Approve, de_task_id = None, de_tool_call_id = Some ''a'', de_action = None\<rparr>]\<rparr>"

definition sample_world :: resume_world where
  "sample_world = \<lparr>rw_rows = [sample_interrupt], rw_sessions = sample_session_store\<rparr>"

definition sample_resumed :: "(resume_refusal + interrupt_row) \<times> resume_world" where
  "sample_resumed =
     validate_and_claim (\<lambda>v. []) (\<lambda>v. case v of MInt i \<Rightarrow> i | _ \<Rightarrow> 0) \<lparr>rt_heartbeat_interval = 30, rt_ws_timeout = 60\<rparr> 5
       sample_resume True sample_world"

lemma sample_resumed_rows:
  "fst sample_resumed = Inr sample_interrupt \<and>
   rw_rows (snd sample_resumed) = [sample_interrupt\<lparr>ir_status := IsResolving, ir_resolved_by := Some ''u''\<rparr>]"
  by code_simp

definition sample_provenance :: metadata where
  "sample_provenance = [(''tool_origin'', MStr ''client_mcp''), (''session_id'', MStr ''t''), (''catalog_version'', MInt 1),
     (''qualified_tool_id'', MStr ''s::t''), (''tool_instance_id'', MStr ''i'')]"

lemma sample_entry:
  "decision_entry (\<lambda>v. []) (provenance_map (ir_metadata sample_interrupt))
     \<lparr>de_type = Approve, de_task_id = None, de_tool_call_id = Some ''a'', de_action = None\<rparr> =
   Some sample_provenance"
  by code_simp

lemma sample_fields:
  "is_blank (meta_get sample_provenance ''session_id'') = False"
  "meta_text (\<lambda>v. []) (meta_get sample_provenance ''session_id'') = ''t''"
  "provenance_text (\<lambda>v. []) sample_provenance ''qualified_tool_id'' = ''s::t''"
  by code_simp+

theorem approval_resumes_checked_witness:
  "ir_status sample_interrupt = IsPending \<and>
   sample_interrupt\<lparr>ir_status := IsResolving, ir_resolved_by := Some ''u''\<rparr> \<in> set (rw_rows (snd sample_resumed)) \<and>
   (\<exists>s tools e. ss_sessions sample_session_store ''d'' = Some s \<and> sr_session_id s = ''t'' \<and> sr_tool_catalog s = Some tools \<and>
      catalog_lookup tools ''s::t'' = Some e)"
proof -
  have "sample_resumed = (Inr sample_interrupt, snd sample_resumed)"
    using sample_resumed_rows by (simp add: prod_eq_iff)
  note checked = approval_resumes_checked [OF this [unfolded sample_resumed_def], folded sample_resumed_def]
  from checked have "still_bound (\<lambda>v. []) (\<lambda>v. case v of MInt i \<Rightarrow> i | _ \<Rightarrow> 0) \<lparr>rt_heartbeat_interval = 30, rt_ws_timeout = 60\<rparr> 5
      sample_interrupt (rw_sessions sample_world) sample_provenance"
    using sample_entry by (fastforce simp: sample_resume_def actionable_def)
  then obtain device s where s: "ir_device_id sample_interrupt = Some device" "ss_sessions sample_session_store device = Some s"
      "sr_session_id s = ''t''"
      "\<exists>tools e. sr_tool_catalog s = Some tools \<and> catalog_lookup tools ''s::t'' = Some e"
    unfolding still_bound_def sample_world_def
    by (auto simp: sample_fields)
  moreover from s(1) have "device = ''d''" by (simp add: sample_interrupt_def)
  ultimately have "\<exists>s tools e. ss_sessions sample_session_store ''d'' = Some s \<and> sr_session_id s = ''t'' \<and>
      sr_tool_catalog s = Some tools \<and> catalog_lookup tools ''s::t'' = Some e" by blast
  with checked show ?thesis by (simp add: sample_resume_def)
qed

text \<open>
  Two resumes of one approval: the one that loses gives up a claim it does not hold, and so fails the winner's.
\<close>

definition two_resumes :: "interrupt_status option" where
  "two_resumes =
     (let resume = claim_or_release (\<lambda>v. []) (\<lambda>v. case v of MInt i \<Rightarrow> i | _ \<Rightarrow> 0) \<lparr>rt_heartbeat_interval = 30, rt_ws_timeout = 60\<rparr> 5
            sample_resume
      in map_option ir_status (get_by_id ''i'' (rw_rows (snd (resume (snd (resume sample_world)))))))"

lemma loser_fails_winner: "two_resumes = Some IsFailed"
  by code_simp

end
