(* ===== verification/ToolAttempts.thy ===== *)
theory ToolAttempts
  imports ToolPolicy
begin

text \<open>
  Running one tool call under its policy: what an exception means (\<^verbatim>\<open>ai/tool_error_policy.py\<close>,
  \<^verbatim>\<open>ai/client_runtime_errors.py\<close>), one attempt under its two deadlines, and the loop of retries and
  reconnects (\<^verbatim>\<open>invoke_tool_attempt\<close> and \<^verbatim>\<open>invoke_tool_with_policy\<close> of \<^verbatim>\<open>ai/tool_execution.py\<close>). A tool is how
  its task would end, and when, if left alone and after a cancellation; the event loop wakes on time and only
  tasks take time. Left out are the fixed hint texts, the milliseconds' rounding and the fields of an attempt
  record that copy the policy.
\<close>

section \<open>Exceptions\<close>

datatype exception_class =
  IsTimeout | IsClosedResource | IsBrokenResource | IsTypeError | IsValueError | IsKeyError | IsPermission |
  IsFileNotFound | IsBubbleUp | IsCancelled | IsOther

record runtime_context =
  rx_message :: string
  rx_code :: "string option"
  rx_detail :: meta_value

datatype tool_exception = RuntimeFailure runtime_context | Plain exception_class string

definition exception_text :: "tool_exception \<Rightarrow> string" where
  "exception_text exc = (case exc of RuntimeFailure c \<Rightarrow> rx_message c | Plain _ s \<Rightarrow> s)"

definition is_class :: "exception_class \<Rightarrow> tool_exception \<Rightarrow> bool" where
  "is_class c exc = (case exc of RuntimeFailure _ \<Rightarrow> False | Plain d _ \<Rightarrow> d = c)"

datatype tool_error_kind =
  KTimeout | KSession | KArgument | KPermission | KNotFound | KNetwork | KValidation | KUnknown | KConfiguration

record error_summary =
  su_error_type :: tool_error_kind
  su_failure_retryable :: bool
  su_message :: string
  su_attempts :: nat

definition starts_with :: "string list \<Rightarrow> string \<Rightarrow> bool" where
  "starts_with ps s \<longleftrightarrow> list_ex (\<lambda>p. prefix p s) ps"

definition classify_client_runtime_error_code :: "string option \<Rightarrow> tool_error_kind" where
  "classify_client_runtime_error_code code =
     (let n = map upper_char (py_strip (case code of None \<Rightarrow> [] | Some s \<Rightarrow> s))
      in if starts_with [''INVALID_'', ''VALIDATION_''] n then KValidation
         else if starts_with [''PERMISSION_'', ''DENIED_''] n then KPermission
         else if starts_with [''DEVICE_'', ''SESSION_'', ''CATALOG_''] n then KSession
         else if starts_with [''NETWORK_'', ''UNAVAILABLE_''] n then KNetwork
         else if starts_with [''TIMEOUT_''] n then KTimeout
         else KUnknown)"

definition OUTCOME_UNKNOWN_CODES :: "string list" where
  "OUTCOME_UNKNOWN_CODES = [''TIMEOUT_CLIENT_EXECUTION'', ''TOOL_CONNECTION_LOST'', ''DEVICE_DISCONNECTED'']"

definition outcome_may_have_happened :: "tool_exception \<Rightarrow> bool" where
  "outcome_may_have_happened exc =
     (case exc of
        RuntimeFailure c \<Rightarrow> (case rx_code c of None \<Rightarrow> False | Some s \<Rightarrow> s \<in> set OUTCOME_UNKNOWN_CODES)
      | Plain d _ \<Rightarrow> d = IsTimeout)"

text \<open>\<open>_clean_text\<close>: runs of spaces are halved until none is left.\<close>

fun halve_spaces :: "string \<Rightarrow> string" where
  "halve_spaces (a # b # s) =
     (if a = CHR '' '' \<and> b = CHR '' '' then CHR '' '' # halve_spaces s else a # halve_spaces (b # s))"
| "halve_spaces s = s"

lemma length_halve: "length (halve_spaces s) \<le> length s"
  by (induction s rule: halve_spaces.induct) auto

lemma length_halve_less: "occurs_in ''  '' s \<Longrightarrow> length (halve_spaces s) < length s"
proof (induction s rule: halve_spaces.induct)
  case (1 a b s)
  then show ?case using length_halve [of s] by (auto simp: less_Suc_eq_le)
qed auto

function single_spaces :: "string \<Rightarrow> string" where
  "single_spaces s = (if occurs_in ''  '' s then single_spaces (halve_spaces s) else s)"
  by auto
termination by (relation "measure length") (auto intro: length_halve_less)

declare single_spaces.simps [simp del]

definition py_rstrip :: "string \<Rightarrow> string" where
  "py_rstrip s = rev (dropWhile py_space (rev s))"

definition clean_text :: "nat \<Rightarrow> string \<Rightarrow> string" where
  "clean_text max_chars s =
     (let t = single_spaces (map (\<lambda>c. if c = CHR 0x0A then CHR '' '' else c) (py_strip s))
      in if max_chars < length t then py_rstrip (take (max_chars - 3) t) @ ''...'' else t)"

definition nonempty_or :: "string \<Rightarrow> string \<Rightarrow> string" where
  "nonempty_or s otherwise = (if s = [] then otherwise else s)"

definition runtime_message :: "tool_error_kind \<Rightarrow> string" where
  "runtime_message k = (case k of
     KValidation \<Rightarrow> ''Client runtime rejected the provided values.''
   | KPermission \<Rightarrow> ''Client runtime denied the requested operation.''
   | KSession \<Rightarrow> ''Client runtime session was interrupted.''
   | KNetwork \<Rightarrow> ''Client runtime could not reach the requested service.''
   | KTimeout \<Rightarrow> ''Client runtime operation timed out.''
   | _ \<Rightarrow> ''Client runtime tool failed with an unknown error.'')"

definition kind_and_message :: "(rat \<Rightarrow> string) \<Rightarrow> tool_exception \<Rightarrow> rat option \<Rightarrow> tool_error_kind \<times> bool \<times> string" where
  "kind_and_message show_seconds exc timeout_seconds =
     (let raw = lower (exception_text exc); cleaned = clean_text 180 (exception_text exc)
      in case exc of
        RuntimeFailure c \<Rightarrow>
          (let k = classify_client_runtime_error_code (rx_code c)
           in (k, k \<in> {KSession, KNetwork, KTimeout}, runtime_message k))
      | Plain d _ \<Rightarrow>
          (if d = IsTimeout then
             (KTimeout, True, case timeout_seconds of
                None \<Rightarrow> ''Tool timed out in an underlying operation.''
              | Some t \<Rightarrow> ''Tool timed out after '' @ show_seconds t @ ''s.'')
           else if d = IsClosedResource \<or> d = IsBrokenResource then (KSession, True, ''Tool session was interrupted.'')
           else if d = IsTypeError then (KArgument, False, ''Tool arguments did not match the expected schema.'')
           else if d = IsValueError \<or> d = IsKeyError then
             (KValidation, False, nonempty_or cleaned ''Tool rejected the provided values.'')
           else if d = IsPermission then (KPermission, False, ''Tool lacks permission for that operation.'')
           else if d = IsFileNotFound \<or> occurs_in ''not found'' raw then
             (KNotFound, False, nonempty_or cleaned ''Requested resource was not found.'')
           else if list_ex (\<lambda>w. occurs_in w raw)
               [''connection'', ''network'', ''temporarily'', ''reset'', ''unavailable''] then
             (KNetwork, True, ''Tool failed because the connection or service was unavailable.'')
           else (KUnknown, False, nonempty_or cleaned ''Tool failed with an unknown error.'')))"

definition classify_tool_error :: "(rat \<Rightarrow> string) \<Rightarrow> tool_exception \<Rightarrow> rat option \<Rightarrow> nat \<Rightarrow> error_summary" where
  "classify_tool_error show_seconds exc timeout_seconds attempts =
     (case kind_and_message show_seconds exc timeout_seconds of (k, retryable, message) \<Rightarrow>
        \<lparr>su_error_type = k, su_failure_retryable = retryable, su_message = message, su_attempts = attempts\<rparr>)"

text \<open>The terminal output of a skill command, whose id is \<^verbatim>\<open>skill::<name>::run_skill_command\<close>.\<close>

fun split_colons :: "string \<Rightarrow> string list" where
  "split_colons (a # b # s) =
     (if a = CHR '':'' \<and> b = CHR '':'' then [] # split_colons s
      else case split_colons (b # s) of [] \<Rightarrow> [[a]] | w # ws \<Rightarrow> (a # w) # ws)"
| "split_colons s = [s]"

definition skill_terminal_output :: "(meta_value \<Rightarrow> string) \<Rightarrow> tool_exception \<Rightarrow> string option" where
  "skill_terminal_output show exc =
     (case exc of
        Plain _ _ \<Rightarrow> None
      | RuntimeFailure c \<Rightarrow>
          (case rx_detail c of
             MDict d \<Rightarrow>
               (case split_colons (meta_text_or show (meta_get d ''qualified_tool_id'') []) of
                  [a, b, e] \<Rightarrow>
                    (if a \<noteq> ''skill'' \<or> b = [] \<or> e \<noteq> ''run_skill_command'' \<or> py_strip (rx_message c) = [] then None
                     else Some (rx_message c))
                | _ \<Rightarrow> None)
           | _ \<Rightarrow> None))"

record error_content =
  ec_error_type :: tool_error_kind
  ec_retryable :: bool
  ec_message :: string
  ec_terminal_output :: "string option"

record error_artifact =
  ea_tool :: string
  ea_error_type :: tool_error_kind
  ea_retryable :: bool
  ea_failure_retryable :: bool
  ea_policy_retry_allowed :: bool
  ea_attempts :: nat
  ea_diagnostic :: string
  ea_runtime_context :: "runtime_context option"
  ea_skill_terminal_error :: bool
  ea_outcome_unknown :: bool

definition build_tool_error_payloads ::
  "(meta_value \<Rightarrow> string) \<Rightarrow> error_summary \<Rightarrow> string \<Rightarrow> tool_exception \<Rightarrow> bool \<Rightarrow> error_content \<times> error_artifact" where
  "build_tool_error_payloads show su name exc allowed =
     (let retryable = (su_failure_retryable su \<and> allowed); terminal = skill_terminal_output show exc
      in (\<lparr>ec_error_type = su_error_type su, ec_retryable = retryable, ec_message = su_message su,
           ec_terminal_output = terminal\<rparr>,
          \<lparr>ea_tool = name, ea_error_type = su_error_type su, ea_retryable = retryable,
           ea_failure_retryable = su_failure_retryable su, ea_policy_retry_allowed = allowed,
           ea_attempts = su_attempts su, ea_diagnostic = clean_text 1000 (exception_text exc),
           ea_runtime_context = (case exc of RuntimeFailure c \<Rightarrow> Some c | Plain _ _ \<Rightarrow> None),
           ea_skill_terminal_error = (terminal \<noteq> None), ea_outcome_unknown = outcome_may_have_happened exc\<rparr>))"

section \<open>One attempt\<close>

text \<open>
  A task ends with a value or an exception, after so many seconds. \<open>tr_abandoned\<close> is when the caller itself
  is cancelled, seconds after the start of the attempt.
\<close>

datatype 'a task_end = Finished 'a | Raises tool_exception

record 'a task_run =
  tr_end :: "(rat \<times> 'a task_end) option"
  tr_end_cancelled :: "(rat \<times> 'a task_end) option"
  tr_abandoned :: "rat option"

text \<open>\<^verbatim>\<open>asyncio.wait({task}, timeout)\<close>: the seconds it took and how the wait ended.\<close>

datatype 'a waited = Done 'a | StillRunning | CallerCancelled

definition before :: "rat option \<Rightarrow> rat option \<Rightarrow> bool" where
  "before a b = (case a of None \<Rightarrow> False | Some x \<Rightarrow> (case b of None \<Rightarrow> True | Some y \<Rightarrow> x < y))"

definition wait_task :: "rat option \<Rightarrow> (rat \<times> 'b) option \<Rightarrow> rat option \<Rightarrow> (rat \<times> 'b waited) option" where
  "wait_task timeout task abandoned =
     (case task of
        Some (t, r) \<Rightarrow>
          (if \<not> before timeout (Some t) \<and> \<not> before abandoned (Some t) then Some (t, Done r)
           else if before abandoned timeout then map_option (\<lambda>a. (a, CallerCancelled)) abandoned
           else map_option (\<lambda>l. (l, StillRunning)) timeout)
      | None \<Rightarrow>
          (if before abandoned timeout then map_option (\<lambda>a. (a, CallerCancelled)) abandoned
           else map_option (\<lambda>l. (l, StillRunning)) timeout))"

datatype timeout_phase = NoTimeout | SoftTimeout | HardTimeout

text \<open>\<open>ao_started\<close> is a ghost: whether the tool was called.\<close>

record 'a attempt_outcome =
  ao_end :: "'a task_end"
  ao_elapsed :: rat
  ao_cancellation_attempted :: bool
  ao_cancellation_completed :: bool
  ao_timeout_phase :: timeout_phase
  ao_started :: bool

datatype 'a attempt = Ended "'a attempt_outcome" | Abandoned rat | Hangs

definition timeout_error :: "tool_exception" where
  "timeout_error = Plain IsTimeout ''Tool timed out''"

text \<open>
  \<open>Hangs\<close> is a wait without a timeout for a task that never ends. How late a task told to stop is told of is
  \<open>soft\<close>; a value or a \<^verbatim>\<open>CancelledError\<close> after that counts as the timeout.
\<close>

definition invoke_tool_attempt :: "execution_policy \<Rightarrow> rat option \<Rightarrow> 'a task_run \<Rightarrow> 'a attempt" where
  "invoke_tool_attempt p remaining run =
     (let cumulative = map_option (max 0) remaining
      in if cumulative = Some 0 then
           Ended \<lparr>ao_end = Raises timeout_error, ao_elapsed = 0, ao_cancellation_attempted = False,
             ao_cancellation_completed = False, ao_timeout_phase = HardTimeout, ao_started = False\<rparr>
         else
           (let limit = (\<lambda>l. case cumulative of None \<Rightarrow> Some l | Some c \<Rightarrow> Some (min l c));
                soft = (if ep_outer_timeout_disabled p then cumulative else limit (ep_timeout p));
                hard = (if ep_outer_timeout_disabled p then cumulative else limit (ep_hard_timeout p))
            in case wait_task soft (tr_end run) (tr_abandoned run) of
                 None \<Rightarrow> Hangs
               | Some (t, CallerCancelled) \<Rightarrow> Abandoned t
               | Some (t, Done r) \<Rightarrow>
                   Ended \<lparr>ao_end = r, ao_elapsed = t, ao_cancellation_attempted = False,
                     ao_cancellation_completed = False, ao_timeout_phase = NoTimeout, ao_started = True\<rparr>
               | Some (t, StillRunning) \<Rightarrow>
                   (case wait_task (map_option (\<lambda>h. max 0 (h - t)) hard) (tr_end_cancelled run)
                       (map_option (\<lambda>a. a - t) (tr_abandoned run)) of
                      None \<Rightarrow> Hangs
                    | Some (u, CallerCancelled) \<Rightarrow> Abandoned (t + u)
                    | Some (u, Done r) \<Rightarrow>
                        Ended \<lparr>ao_end = (case r of
                             Finished _ \<Rightarrow> Raises timeout_error
                           | Raises exc \<Rightarrow> if is_class IsCancelled exc then Raises timeout_error else r),
                          ao_elapsed = t + u, ao_cancellation_attempted = True,
                          ao_cancellation_completed = (ep_cancellation p \<noteq> AbandonOnly),
                          ao_timeout_phase = SoftTimeout, ao_started = True\<rparr>
                    | Some (u, StillRunning) \<Rightarrow>
                        Ended \<lparr>ao_end = Raises timeout_error, ao_elapsed = t + u, ao_cancellation_attempted = True,
                          ao_cancellation_completed = False, ao_timeout_phase = HardTimeout, ao_started = True\<rparr>)))"

section \<open>Retries and reconnects\<close>

definition RETRY_COMPATIBILITY_ALLOWLIST :: "(tool_origin \<times> string) list" where
  "RETRY_COMPATIBILITY_ALLOWLIST = [(Internal, ''internal::tool_search'')]"

definition policy_retry_allowed :: "execution_policy \<Rightarrow> bool" where
  "policy_retry_allowed p \<longleftrightarrow>
     ep_retry_safe p \<or> ep_idempotent p \<or>
     (ti_tool_origin (ep_identity p), ti_qualified_tool_id (ep_identity p)) \<in> set RETRY_COMPATIBILITY_ALLOWLIST"

record 'a attempt_record =
  ar_attempt :: nat
  ar_outcome :: "'a attempt_outcome"
  ar_summary :: "error_summary option"
  ar_retryable :: bool
  ar_auto_retry_allowed :: bool

definition attempt_record :: "nat \<Rightarrow> 'a attempt_outcome \<Rightarrow> error_summary option \<Rightarrow> bool \<Rightarrow> bool \<Rightarrow> 'a attempt_record" where
  "attempt_record n out su allowed auto =
     \<lparr>ar_attempt = n, ar_outcome = out, ar_summary = su,
      ar_retryable = (case su of None \<Rightarrow> False | Some x \<Rightarrow> su_failure_retryable x \<and> allowed), ar_auto_retry_allowed = auto\<rparr>"

text \<open>The task of a reconnect: the tool, no tool, or an exception, if it ends.\<close>

record reconnect_run =
  rn_end :: "(rat \<times> (tool_exception + bound_tool option)) option"
  rn_abandoned :: "rat option"

datatype reconnected = Reconnected rat bound_tool | NotReconnected rat "tool_exception option" | ReconnectAbandoned rat

definition reconnect_server_tool :: "rat \<Rightarrow> reconnect_run \<Rightarrow> reconnected" where
  "reconnect_server_tool remaining run =
     (if remaining \<le> 0 then NotReconnected 0 (Some (Plain IsTimeout ''Tool cumulative deadline exhausted before reconnect''))
      else case wait_task (Some remaining) (rn_end run) (rn_abandoned run) of
          Some (t, Done (Inr (Some tool))) \<Rightarrow> Reconnected t tool
        | Some (t, Done (Inr None)) \<Rightarrow> NotReconnected t None
        | Some (t, Done (Inl exc)) \<Rightarrow> NotReconnected t (Some exc)
        | Some (t, CallerCancelled) \<Rightarrow> ReconnectAbandoned t
        | _ \<Rightarrow> NotReconnected remaining (Some (Plain IsTimeout ''MCP reconnect exceeded the cumulative tool deadline'')))"

text \<open>How the world answers the n-th attempt on a tool, and the reconnect after it.\<close>

record 'a call_env =
  ce_run :: "nat \<Rightarrow> bound_tool \<Rightarrow> 'a task_run"
  ce_reconnect :: "nat \<Rightarrow> reconnect_run"

text \<open>
  \<open>Propagates\<close> is the control flow of the graph, \<open>Aborted\<close> the cancellation of the caller, \<open>Exhausted\<close> the
  \<^verbatim>\<open>RuntimeError\<close> after the loop.
\<close>

datatype 'a call_end =
    Value 'a
  | Failed error_content error_artifact
  | Propagates tool_exception
  | Aborted
  | NeverEnds
  | Exhausted
  | BadInvocationKind

record 'a call_result =
  cr_end :: "'a call_end"
  cr_attempts :: nat
  cr_history :: "'a attempt_record list"
  cr_tool_map :: "(string, bound_tool) dict"
  cr_elapsed :: rat
  cr_trace :: "'a attempt_record list"

definition last_five :: "'b list \<Rightarrow> 'b list" where
  "last_five xs = drop (length xs - 5) xs"

definition call_result ::
  "'a call_end \<Rightarrow> nat \<Rightarrow> (string, bound_tool) dict \<Rightarrow> rat \<Rightarrow> 'a attempt_record list \<Rightarrow> 'a call_result" where
  "call_result e n tools now trace =
     \<lparr>cr_end = e, cr_attempts = n, cr_history = last_five trace, cr_tool_map = tools, cr_elapsed = now, cr_trace = trace\<rparr>"

definition failed_call ::
  "(meta_value \<Rightarrow> string) \<Rightarrow> execution_policy \<Rightarrow> string \<Rightarrow> error_summary \<Rightarrow> tool_exception \<Rightarrow> 'a call_end" where
  "failed_call show p name su exc =
     (case build_tool_error_payloads show su name exc (policy_retry_allowed p) of (content, artifact) \<Rightarrow> Failed content artifact)"

text \<open>When a failed attempt is followed by another.\<close>

definition ordinary_retry :: "execution_policy \<Rightarrow> error_summary \<Rightarrow> nat \<Rightarrow> rat \<Rightarrow> bool" where
  "ordinary_retry p su n after \<longleftrightarrow>
     su_failure_retryable su \<and> policy_retry_allowed p \<and> int n < ep_max_attempts p \<and> 0 < after"

definition pre_send_retry :: "execution_policy \<Rightarrow> tool_exception \<Rightarrow> nat \<Rightarrow> rat \<Rightarrow> bool" where
  "pre_send_retry p exc n after \<longleftrightarrow>
     is_class IsClosedResource exc \<and> ti_tool_origin (ep_identity p) = ServerMcp \<and> \<not> policy_retry_allowed p \<and>
     n = 1 \<and> int n < ep_max_attempts p + 1 \<and> 0 < after"

definition unstarted :: "tool_exception \<Rightarrow> 'a attempt_outcome" where
  "unstarted exc = \<lparr>ao_end = Raises exc, ao_elapsed = 0, ao_cancellation_attempted = False,
     ao_cancellation_completed = False, ao_timeout_phase = NoTimeout, ao_started = False\<rparr>"

text \<open>The parts of one round of the loop.\<close>

definition next_attempt :: "execution_policy \<Rightarrow> 'a call_env \<Rightarrow> nat \<Rightarrow> rat \<Rightarrow> bound_tool \<Rightarrow> 'a attempt" where
  "next_attempt p env attempts now tool =
     invoke_tool_attempt p (if ep_outer_timeout_disabled p then None else Some (max 0 (ep_total_timeout p - now)))
       (ce_run env (Suc attempts) tool)"

definition failed_summary :: "(rat \<Rightarrow> string) \<Rightarrow> execution_policy \<Rightarrow> tool_exception \<Rightarrow> nat \<Rightarrow> error_summary" where
  "failed_summary secs p exc n = classify_tool_error secs exc (Some (ep_timeout p)) n"

definition retried :: "(rat \<Rightarrow> string) \<Rightarrow> execution_policy \<Rightarrow> tool_exception \<Rightarrow> nat \<Rightarrow> rat \<Rightarrow> bool" where
  "retried secs p exc n now \<longleftrightarrow>
     ordinary_retry p (failed_summary secs p exc n) n (max 0 (ep_total_timeout p - now)) \<or>
     pre_send_retry p exc n (max 0 (ep_total_timeout p - now))"

definition failed_record ::
  "(rat \<Rightarrow> string) \<Rightarrow> execution_policy \<Rightarrow> tool_exception \<Rightarrow> nat \<Rightarrow> 'a attempt_outcome \<Rightarrow> bool \<Rightarrow> 'a attempt_record" where
  "failed_record secs p exc n out auto = attempt_record n out (Some (failed_summary secs p exc n)) (policy_retry_allowed p) auto"

function attempt_loop ::
  "(meta_value \<Rightarrow> string) \<Rightarrow> (rat \<Rightarrow> string) \<Rightarrow> 'a call_env \<Rightarrow> execution_policy \<Rightarrow> string \<Rightarrow> nat \<Rightarrow> rat \<Rightarrow> bound_tool
     \<Rightarrow> (string, bound_tool) dict \<Rightarrow> 'a attempt_record list \<Rightarrow> 'a call_result" where
  "attempt_loop show secs env p name attempts now tool tools trace =
    (if \<not> int attempts < ep_max_attempts p + 1 then call_result Exhausted attempts tools now trace
     else
    (case next_attempt p env attempts now tool of
       Hangs \<Rightarrow> call_result NeverEnds (Suc attempts) tools now trace
     | Abandoned t \<Rightarrow> call_result Aborted (Suc attempts) tools (now + t) trace
     | Ended out \<Rightarrow>
        (case ao_end out of
           Finished v \<Rightarrow> call_result (Value v) (Suc attempts) tools (now + ao_elapsed out)
             (trace @ [attempt_record (Suc attempts) out None (policy_retry_allowed p) False])
         | Raises exc \<Rightarrow>
            (if is_class IsBubbleUp exc then call_result (Propagates exc) (Suc attempts) tools (now + ao_elapsed out) trace
             else if \<not> retried secs p exc (Suc attempts) (now + ao_elapsed out) then
               call_result (failed_call show p name (failed_summary secs p exc (Suc attempts)) exc) (Suc attempts) tools
                 (now + ao_elapsed out) (trace @ [failed_record secs p exc (Suc attempts) out False])
             else if su_error_type (failed_summary secs p exc (Suc attempts)) = KSession \<and>
               ti_tool_origin (ep_identity p) = ServerMcp then
               (case reconnect_server_tool (max 0 (ep_total_timeout p - (now + ao_elapsed out))) (ce_reconnect env (Suc attempts)) of
                  Reconnected t tool' \<Rightarrow>
                    attempt_loop show secs env p name (Suc attempts) (now + ao_elapsed out + t) tool'
                      (AList.update name tool' tools) (trace @ [failed_record secs p exc (Suc attempts) out True])
                | ReconnectAbandoned t \<Rightarrow> call_result Aborted (Suc attempts) tools (now + ao_elapsed out + t)
                      (trace @ [failed_record secs p exc (Suc attempts) out True])
                | NotReconnected t failure \<Rightarrow>
                    (let final = (case failure of Some e \<Rightarrow> e | None \<Rightarrow> Plain IsOther ''MCP reconnect returned no tool'')
                     in call_result (failed_call show p name (failed_summary secs p final (Suc (Suc attempts))) final)
                      (Suc (Suc attempts)) tools (now + ao_elapsed out + t)
                      ((trace @ [failed_record secs p exc (Suc attempts) out True]) @
                        [failed_record secs p final (Suc (Suc attempts)) (unstarted final) False])))
             else attempt_loop show secs env p name (Suc attempts) (now + ao_elapsed out) tool tools
               (trace @ [failed_record secs p exc (Suc attempts) out True])))))"
  by pat_completeness auto
termination
  by (relation "measure (\<lambda>(show, secs, env, p, name, attempts, now, tool, tools, trace).
      nat (ep_max_attempts p + 1 - int attempts))") auto

declare attempt_loop.simps [simp del]


definition tool_invocation_kind :: "(bound_tool \<Rightarrow> bool) \<Rightarrow> bound_tool \<Rightarrow> string" where
  "tool_invocation_kind asynchronous tool =
     (if meta_get (tool_metadata tool) ''tool_origin'' \<in> {MStr ''client_mcp'', MStr ''client_skill''} then ''client_runtime''
      else if asynchronous tool then ''native_async'' else ''sync_thread'')"

text \<open>
  A policy that cannot be resolved runs nothing; its refusal is a failure of the configuration, whose own text
  goes to the diagnostic and is left out.
\<close>

definition configuration_summary :: error_summary where
  "configuration_summary = \<lparr>su_error_type = KConfiguration, su_failure_retryable = False,
     su_message = ''Tool execution is unavailable because its server policy is invalid.'', su_attempts = 0\<rparr>"

definition invoke_tool_with_policy ::
  "(meta_value \<Rightarrow> string) \<Rightarrow> (rat \<Rightarrow> string) \<Rightarrow> (metadata \<Rightarrow> internal_policy option) \<Rightarrow> (bound_tool \<Rightarrow> bool) \<Rightarrow> policy_settings
     \<Rightarrow> 'a call_env \<Rightarrow> bound_tool \<Rightarrow> string \<Rightarrow> (string, bound_tool) dict \<Rightarrow> 'a call_result" where
  "invoke_tool_with_policy show secs read asynchronous s env tool name tools =
     (case resolve_tool_execution_policy show read s tool name (tool_invocation_kind asynchronous tool) of
        Inl (UnknownInvocationKind _) \<Rightarrow> call_result BadInvocationKind 0 tools 0 []
      | Inl err \<Rightarrow>
          (case build_tool_error_payloads show configuration_summary name (Plain IsValueError []) False of
             (content, artifact) \<Rightarrow> call_result (Failed content artifact) 0 tools 0 [])
      | Inr p \<Rightarrow> attempt_loop show secs env p name 0 0 tool tools [])"

section \<open>Deadlines\<close>

lemma wait_task_limited:
  "wait_task (Some l) task abandoned \<noteq> None"
  "wait_task (Some l) task abandoned = Some (t, w) \<Longrightarrow> t \<le> l"
  by (auto simp: wait_task_def before_def split: option.splits if_splits)

definition attempt_ends_by :: "rat \<Rightarrow> 'a attempt \<Rightarrow> bool" where
  "attempt_ends_by l a = (case a of Ended out \<Rightarrow> ao_elapsed out \<le> l | Abandoned t \<Rightarrow> t \<le> l | Hangs \<Rightarrow> False)"

lemma attempt_deadline:
  assumes "\<not> ep_outer_timeout_disabled p" "ep_timeout p \<le> ep_hard_timeout p" "0 \<le> r"
  shows "attempt_ends_by (min r (ep_hard_timeout p)) (invoke_tool_attempt p (Some r) run) \<or> r = 0 \<and>
    attempt_ends_by 0 (invoke_tool_attempt p (Some r) run)"
proof (cases "r = 0")
  case True
  then show ?thesis by (simp add: invoke_tool_attempt_def attempt_ends_by_def)
next
  case False
  let ?soft = "min (ep_timeout p) r" and ?hard = "min (ep_hard_timeout p) r"
  obtain t w where w: "wait_task (Some ?soft) (tr_end run) (tr_abandoned run) = Some (t, w)" and t: "t \<le> ?soft"
    using wait_task_limited by (metis not_None_eq surj_pair)
  obtain u v where v: "wait_task (Some (max 0 (?hard - t))) (tr_end_cancelled run) (map_option (\<lambda>a. a - t) (tr_abandoned run)) =
      Some (u, v)" and u: "u \<le> max 0 (?hard - t)"
    using wait_task_limited by (metis not_None_eq surj_pair)
  have "t \<le> ?hard" "t + u \<le> ?hard" using t u assms(2) by auto
  then have "attempt_ends_by ?hard (invoke_tool_attempt p (Some r) run)"
    using False assms(1,3) w v
    by (cases w; cases v) (simp_all add: invoke_tool_attempt_def attempt_ends_by_def Let_def max_def)
  then show ?thesis by (simp add: min.commute)
qed

lemma attempt_within:
  assumes "\<not> ep_outer_timeout_disabled p" "ep_timeout p \<le> ep_hard_timeout p" "now \<le> ep_total_timeout p"
  shows "attempt_ends_by (ep_total_timeout p - now) (invoke_tool_attempt p (Some (max 0 (ep_total_timeout p - now))) run)"
  using attempt_deadline [OF assms(1,2), of "max 0 (ep_total_timeout p - now)" run] assms(3)
  by (auto simp: attempt_ends_by_def max_def split: attempt.splits if_splits)

lemma reconnect_within:
  "0 < l \<Longrightarrow> (case reconnect_server_tool l run of
     Reconnected t _ \<Rightarrow> t \<le> l | NotReconnected t _ \<Rightarrow> t \<le> l | ReconnectAbandoned t \<Rightarrow> t \<le> l)"
  using wait_task_limited(2) [of l "rn_end run" "rn_abandoned run"]
  by (auto simp: reconnect_server_tool_def split: option.split prod.split waited.split sum.split)

lemma auto_time_left: "ordinary_retry p su n (max 0 r) \<or> pre_send_retry p exc n (max 0 r) \<Longrightarrow> 0 < r"
  by (auto simp: ordinary_retry_def pre_send_retry_def)

lemma auto_attempt_left: "ordinary_retry p su n r \<or> pre_send_retry p exc n r \<Longrightarrow> int n < ep_max_attempts p + 1"
  by (auto simp: ordinary_retry_def pre_send_retry_def)

lemma attempt_loop_cases:
  assumes "int attempts < ep_max_attempts p + 1"
  obtains
    (hangs) "next_attempt p env attempts now tool = Hangs"
      "attempt_loop sh secs env p name attempts now tool tools trace = call_result NeverEnds (Suc attempts) tools now trace"
  | (abandoned) t where "next_attempt p env attempts now tool = Abandoned t"
      "attempt_loop sh secs env p name attempts now tool tools trace = call_result Aborted (Suc attempts) tools (now + t) trace"
  | (finished) out v where "next_attempt p env attempts now tool = Ended out" "ao_end out = Finished v"
      "attempt_loop sh secs env p name attempts now tool tools trace =
        call_result (Value v) (Suc attempts) tools (now + ao_elapsed out)
          (trace @ [attempt_record (Suc attempts) out None (policy_retry_allowed p) False])"
  | (propagates) out exc where "next_attempt p env attempts now tool = Ended out" "ao_end out = Raises exc"
      "is_class IsBubbleUp exc"
      "attempt_loop sh secs env p name attempts now tool tools trace =
        call_result (Propagates exc) (Suc attempts) tools (now + ao_elapsed out) trace"
  | (fails) out exc where "next_attempt p env attempts now tool = Ended out" "ao_end out = Raises exc"
      "\<not> is_class IsBubbleUp exc" "\<not> retried secs p exc (Suc attempts) (now + ao_elapsed out)"
      "attempt_loop sh secs env p name attempts now tool tools trace =
        call_result (failed_call sh p name (failed_summary secs p exc (Suc attempts)) exc) (Suc attempts) tools
          (now + ao_elapsed out) (trace @ [failed_record secs p exc (Suc attempts) out False])"
  | (again) out exc where "next_attempt p env attempts now tool = Ended out" "ao_end out = Raises exc"
      "\<not> is_class IsBubbleUp exc" "retried secs p exc (Suc attempts) (now + ao_elapsed out)"
      "attempt_loop sh secs env p name attempts now tool tools trace =
        attempt_loop sh secs env p name (Suc attempts) (now + ao_elapsed out) tool tools
          (trace @ [failed_record secs p exc (Suc attempts) out True])"
  | (reconnected) out exc t tool' where "next_attempt p env attempts now tool = Ended out" "ao_end out = Raises exc"
      "\<not> is_class IsBubbleUp exc" "retried secs p exc (Suc attempts) (now + ao_elapsed out)"
      "reconnect_server_tool (max 0 (ep_total_timeout p - (now + ao_elapsed out))) (ce_reconnect env (Suc attempts)) =
        Reconnected t tool'"
      "attempt_loop sh secs env p name attempts now tool tools trace =
        attempt_loop sh secs env p name (Suc attempts) (now + ao_elapsed out + t) tool' (AList.update name tool' tools)
          (trace @ [failed_record secs p exc (Suc attempts) out True])"
  | (reconnecting) out exc t where "next_attempt p env attempts now tool = Ended out" "ao_end out = Raises exc"
      "\<not> is_class IsBubbleUp exc" "retried secs p exc (Suc attempts) (now + ao_elapsed out)"
      "reconnect_server_tool (max 0 (ep_total_timeout p - (now + ao_elapsed out))) (ce_reconnect env (Suc attempts)) =
        ReconnectAbandoned t"
      "attempt_loop sh secs env p name attempts now tool tools trace =
        call_result Aborted (Suc attempts) tools (now + ao_elapsed out + t)
          (trace @ [failed_record secs p exc (Suc attempts) out True])"
  | (lost) out exc t failure final where "next_attempt p env attempts now tool = Ended out" "ao_end out = Raises exc"
      "\<not> is_class IsBubbleUp exc" "retried secs p exc (Suc attempts) (now + ao_elapsed out)"
      "reconnect_server_tool (max 0 (ep_total_timeout p - (now + ao_elapsed out))) (ce_reconnect env (Suc attempts)) =
        NotReconnected t failure"
      "attempt_loop sh secs env p name attempts now tool tools trace =
        call_result (failed_call sh p name (failed_summary secs p final (Suc (Suc attempts))) final) (Suc (Suc attempts)) tools
          (now + ao_elapsed out + t)
          (trace @ [failed_record secs p exc (Suc attempts) out True] @
            [failed_record secs p final (Suc (Suc attempts)) (unstarted final) False])"
proof (cases "next_attempt p env attempts now tool")
  case (Ended out)
  note step = attempt_loop.simps [of sh secs env p name attempts now tool tools trace]
  show thesis
  proof (cases "ao_end out")
    case (Finished v)
    show thesis
      by (rule finished [OF Ended Finished]) (use assms in \<open>simp add: step Ended Finished\<close>)
  next
    case (Raises exc)
    show thesis
    proof (cases "is_class IsBubbleUp exc")
      case True
      show thesis
        by (rule propagates [OF Ended Raises True]) (use assms in \<open>simp add: step Ended Raises True\<close>)
    next
      case False
      note raised = Ended Raises False
      show thesis
      proof (cases "retried secs p exc (Suc attempts) (now + ao_elapsed out)")
        case no: False
        show thesis
          by (rule fails [OF raised no]) (use assms in \<open>simp add: step raised no\<close>)
      next
        case yes: True
        show thesis
        proof (cases "su_error_type (failed_summary secs p exc (Suc attempts)) = KSession \<and> ti_tool_origin (ep_identity p) = ServerMcp")
          case no: False
          show thesis
            by (rule again [OF raised yes]) (use assms in \<open>simp add: step Let_def raised yes no\<close>)
        next
          case session: True
          show thesis
          proof (cases "reconnect_server_tool (max 0 (ep_total_timeout p - (now + ao_elapsed out))) (ce_reconnect env (Suc attempts))")
            case (Reconnected t tool')
            show thesis
              by (rule reconnected [OF raised yes Reconnected])
                (use assms in \<open>simp add: step Let_def raised yes session Reconnected\<close>)
          next
            case (NotReconnected t failure)
            show thesis
              by (rule lost [OF raised yes NotReconnected])
                (use assms in \<open>simp add: step Let_def raised yes session NotReconnected\<close>)
          next
            case (ReconnectAbandoned t)
            show thesis
              by (rule reconnecting [OF raised yes ReconnectAbandoned])
                (use assms in \<open>simp add: step Let_def raised yes session ReconnectAbandoned\<close>)
          qed
        qed
      qed
    qed
  qed
qed (use hangs abandoned assms in \<open>simp_all add: attempt_loop.simps [of sh secs env p name attempts now tool tools trace]\<close>)

text \<open>The loop never runs out of attempts or past the total timeout.\<close>

definition in_time :: "execution_policy \<Rightarrow> 'a call_result \<Rightarrow> bool" where
  "in_time p r \<longleftrightarrow> cr_elapsed r \<le> ep_total_timeout p \<and> cr_end r \<notin> {NeverEnds, Exhausted, BadInvocationKind}"

lemma call_result_simps [simp]:
  "cr_end (call_result e n tools now trace) = e" "cr_attempts (call_result e n tools now trace) = n"
  "cr_elapsed (call_result e n tools now trace) = now" "cr_trace (call_result e n tools now trace) = trace"
  "cr_tool_map (call_result e n tools now trace) = tools"
  by (simp_all add: call_result_def)

lemma failed_call_ends [simp]:
  "failed_call sh p name su exc \<noteq> NeverEnds" "failed_call sh p name su exc \<noteq> Exhausted"
  "failed_call sh p name su exc \<noteq> BadInvocationKind"
  by (simp_all add: failed_call_def split: prod.split)

lemma loop_in_time:
  assumes "\<not> ep_outer_timeout_disabled p" "ep_timeout p \<le> ep_hard_timeout p"
  shows "now \<le> ep_total_timeout p \<Longrightarrow> int attempts < ep_max_attempts p + 1 \<Longrightarrow>
    in_time p (attempt_loop sh secs env p name attempts now tool tools trace)"
proof (induction "nat (ep_max_attempts p + 1 - int attempts)" arbitrary: attempts now tool tools trace rule: less_induct)
  case less
  have within: "attempt_ends_by (ep_total_timeout p - now) (next_attempt p env attempts now tool)"
    using attempt_within [OF assms less.prems(1)] assms(1) by (simp add: next_attempt_def)
  have step: "in_time p (attempt_loop sh secs env p name (Suc attempts) now' tool' tools' trace')"
    if "retried secs p exc (Suc attempts) now1" "now' \<le> ep_total_timeout p" for exc now1 now' tool' tools' trace'
  proof (rule less.hyps)
    show "int (Suc attempts) < ep_max_attempts p + 1"
      using that(1) unfolding retried_def by (rule auto_attempt_left)
    then show "nat (ep_max_attempts p + 1 - int (Suc attempts)) < nat (ep_max_attempts p + 1 - int attempts)" by simp
  qed (fact that(2))
  have left: "0 < ep_total_timeout p - now1" if "retried secs p exc n now1" for exc n now1
    using that unfolding retried_def by (rule auto_time_left)
  from less.prems(2) show ?case
  proof (cases rule: attempt_loop_cases [where env = env and now = now and tool = tool and sh = sh and secs = secs and
      name = name and tools = tools and trace = trace])
    case (again out exc)
    with left [OF again(4)] show ?thesis unfolding again(5) by (intro step [OF again(4)]) simp
  next
    case (reconnected out exc t tool')
    have "t \<le> ep_total_timeout p - (now + ao_elapsed out)"
      using reconnect_within [of "ep_total_timeout p - (now + ao_elapsed out)"] left [OF reconnected(4)] reconnected(5)
      by (metis max.absorb4 reconnected.simps(10))
    then show ?thesis unfolding reconnected(6) by (intro step [OF reconnected(4)]) simp
  next
    case (reconnecting out exc t)
    have "t \<le> ep_total_timeout p - (now + ao_elapsed out)"
      using reconnect_within [of "ep_total_timeout p - (now + ao_elapsed out)"] left [OF reconnecting(4)] reconnecting(5)
      by (metis max.absorb4 reconnected.simps(12))
    then show ?thesis unfolding reconnecting(6) by (simp add: in_time_def)
  next
    case (lost out exc t failure final)
    have "t \<le> ep_total_timeout p - (now + ao_elapsed out)"
      using reconnect_within [of "ep_total_timeout p - (now + ao_elapsed out)"] left [OF lost(4)] lost(5)
      by (metis max.absorb4 reconnected.simps(11))
    then show ?thesis unfolding lost(6) by (simp add: in_time_def)
  qed (use within in \<open>auto simp: in_time_def attempt_ends_by_def\<close>)
qed

section \<open>What a repeat needs\<close>

definition licensed :: "execution_policy \<Rightarrow> nat \<Rightarrow> 'a attempt_record \<Rightarrow> bool" where
  "licensed p i r =
     (case (ao_end (ar_outcome r), ar_summary r) of
        (Raises exc, Some su) \<Rightarrow> su_failure_retryable su \<and>
          (policy_retry_allowed p \<or> i = 0 \<and> is_class IsClosedResource exc \<and> ti_tool_origin (ep_identity p) = ServerMcp)
      | _ \<Rightarrow> False)"

definition attempts_licensed :: "execution_policy \<Rightarrow> nat \<Rightarrow> 'a attempt_record list \<Rightarrow> bool" where
  "attempts_licensed p n trace \<longleftrightarrow> (\<forall>i < n. i < length trace \<and> licensed p i (trace ! i))"

definition attempt_limit :: "execution_policy \<Rightarrow> nat" where
  "attempt_limit p = (if policy_retry_allowed p then nat (ep_max_attempts p) else 2)"

lemma closed_is_retryable:
  "is_class IsClosedResource exc \<Longrightarrow> su_failure_retryable (classify_tool_error secs exc t n)"
  by (cases exc) (auto simp: is_class_def classify_tool_error_def kind_and_message_def Let_def)

lemma retried_licensed:
  assumes "retried secs p exc (Suc i) now" "ao_end out = Raises exc"
  shows "licensed p i (failed_record secs p exc (Suc i) out b) \<and> Suc (Suc i) \<le> attempt_limit p"
  using assms closed_is_retryable [of exc secs "Some (ep_timeout p)" "Suc i"]
  by (auto simp: retried_def ordinary_retry_def pre_send_retry_def licensed_def failed_record_def attempt_record_def
      failed_summary_def attempt_limit_def)

lemma attempts_licensed_append:
  "length trace = n \<Longrightarrow> attempts_licensed p n trace \<Longrightarrow> attempts_licensed p n (trace @ rest)"
  "length trace = n \<Longrightarrow> attempts_licensed p n trace \<Longrightarrow> licensed p n r \<Longrightarrow> attempts_licensed p (Suc n) ((trace @ [r]) @ rest)"
  by (auto simp: attempts_licensed_def nth_append less_Suc_eq)

lemma loop_licensed:
  "length trace = attempts \<Longrightarrow> attempts_licensed p attempts trace \<Longrightarrow> Suc attempts \<le> attempt_limit p \<Longrightarrow>
   int attempts < ep_max_attempts p + 1 \<Longrightarrow>
   (let r = attempt_loop sh secs env p name attempts now tool tools trace
    in cr_attempts r \<le> attempt_limit p \<and> attempts_licensed p (cr_attempts r - 1) (cr_trace r))"
proof (induction "nat (ep_max_attempts p + 1 - int attempts)" arbitrary: attempts now tool tools trace rule: less_induct)
  case less
  have step: "let r = attempt_loop sh secs env p name (Suc attempts) now' tool' tools' (trace @ [failed_record secs p exc (Suc attempts) out True])
    in cr_attempts r \<le> attempt_limit p \<and> attempts_licensed p (cr_attempts r - 1) (cr_trace r)"
    if "retried secs p exc (Suc attempts) now1" "ao_end out = Raises exc" for exc out now1 now' tool' tools'
  proof (rule less.hyps)
    show "int (Suc attempts) < ep_max_attempts p + 1"
      using that(1) unfolding retried_def by (rule auto_attempt_left)
    then show "nat (ep_max_attempts p + 1 - int (Suc attempts)) < nat (ep_max_attempts p + 1 - int attempts)" by simp
    note l = retried_licensed [OF that, of True]
    then show "Suc (Suc attempts) \<le> attempt_limit p" by simp
    from l less.prems(1,2) show "attempts_licensed p (Suc attempts) (trace @ [failed_record secs p exc (Suc attempts) out True])"
      using attempts_licensed_append(2) [of trace attempts p _ "[]"] by simp
  qed (use less.prems(1) in simp)
  note keep = attempts_licensed_append(1) [OF less.prems(1,2)]
  from less.prems(4) show ?case
  proof (cases rule: attempt_loop_cases [where env = env and now = now and tool = tool and sh = sh and secs = secs and
      name = name and tools = tools and trace = trace])
    case (again out exc)
    show ?thesis unfolding again(5) by (rule step [OF again(4,2)])
  next
    case (reconnected out exc t tool')
    show ?thesis unfolding reconnected(6) by (rule step [OF reconnected(4,2)])
  next
    case (lost out exc t failure final)
    from retried_licensed [OF lost(4,2), of True] show ?thesis unfolding lost(6)
      using attempts_licensed_append(2) [OF less.prems(1,2)] by simp
  qed (use less.prems keep in simp_all)
qed

lemma resolved_kind: "tool_invocation_kind asynchronous tool \<in> set VALID_INVOCATION_KINDS"
  by (simp add: tool_invocation_kind_def VALID_INVOCATION_KINDS_def)

lemma no_unknown_kind:
  "kind \<in> set VALID_INVOCATION_KINDS \<Longrightarrow> resolve_tool_execution_policy sh read s tool name kind \<noteq> Inl (UnknownInvocationKind k)"
proof
  assume kind: "kind \<in> set VALID_INVOCATION_KINDS"
    and e: "resolve_tool_execution_policy sh read s tool name kind = Inl (UnknownInvocationKind k)"
  have 1: "resolve_tool_identity sh tool name \<noteq> Inl (UnknownInvocationKind k)"
    by (auto simp: resolve_tool_identity_def Let_def split: option.split)
  have 2: "effective_fields read s i md \<noteq> Inl (UnknownInvocationKind k)" for i md
  proof
    assume *: "effective_fields read s i md = Inl (UnknownInvocationKind k)"
    have "trusted_metadata_layer read i md \<noteq> Inl (UnknownInvocationKind k)"
      by (auto simp: trusted_metadata_layer_def trusted_internal_policy_fields_def
        split: sum.split meta_value.split option.split if_splits)
    with * matching_error [of i "se_policies s" "UnknownInvocationKind k"] show False
      by (auto simp: effective_fields_def split: sum.splits prod.splits)
  qed
  have 3: "check_safety_caps f i b \<noteq> Some (UnknownInvocationKind k)" for f i b by (simp add: check_safety_caps_def)
  have 4: "resolve_timeouts s f \<noteq> Inl (UnknownInvocationKind k)" for f by (simp add: resolve_timeouts_def Let_def)
  have 5: "client_deadlines s i t \<noteq> Inl (UnknownInvocationKind k)" for i t by (simp add: client_deadlines_def Let_def)
  from e kind 1 2 3 4 5 show False
    by (auto simp: resolve_tool_execution_policy_def split: sum.splits option.splits prod.splits)
qed

text \<open>
  C28: a tool call always ends. Whatever the tool and the reconnects do, and however many attempts are made, the
  call returns a value, a failure for the model, or hands on the control flow or the cancellation it was given,
  and it does so within the maximum for an interactive call.
\<close>

theorem call_ends_in_time:
  assumes "valid_settings dump s" "0 \<le> se_timeout s"
  shows "cr_elapsed (invoke_tool_with_policy sh secs read asynchronous s env tool name tools) \<le> se_max_interactive s \<and>
    cr_end (invoke_tool_with_policy sh secs read asynchronous s env tool name tools) \<notin> {NeverEnds, Exhausted, BadInvocationKind}"
proof -
  let ?kind = "tool_invocation_kind asynchronous tool"
  have kind: "resolve_tool_execution_policy sh read s tool name ?kind \<noteq> Inl (UnknownInvocationKind k)" for k
    using resolved_kind by (rule no_unknown_kind)
  from valid_settingsD(1,2) [OF assms(1)] have 0: "0 \<le> se_max_interactive s" by simp
  show ?thesis
  proof (cases "resolve_tool_execution_policy sh read s tool name ?kind")
    case (Inl err)
    with kind 0 show ?thesis by (cases err) (auto simp: invoke_tool_with_policy_def split: prod.split)
  next
    case (Inr p)
    note b = resolved_bounds [OF assms(1) Inr]
    from b(1) [OF assms(2)] valid_settingsD(2) [OF assms(1)]
    have t: "ep_timeout p \<le> ep_hard_timeout p" "0 \<le> ep_total_timeout p" "ep_total_timeout p \<le> se_max_interactive s" by auto
    have "in_time p (attempt_loop sh secs env p name 0 0 tool tools [])"
      by (rule loop_in_time [OF b(2) t(1)]) (use t(2) b(3) in auto)
    with t(3) Inr show ?thesis by (auto simp: invoke_tool_with_policy_def in_time_def)
  qed
qed

text \<open>
  C29: no call is repeated without a licence. An attempt follows another only if that one failed in a way
  that may pass, and the tool may be retried by its policy; a tool that may not is attempted at most twice, the
  second time only on a server whose stream was found closed before the first request was sent. A tool that may
  is attempted at most as often as its policy says.
\<close>

theorem repeats_licensed:
  assumes "valid_settings dump s"
    "resolve_tool_execution_policy sh read s tool name (tool_invocation_kind asynchronous tool) = Inr p"
    "r = invoke_tool_with_policy sh secs read asynchronous s env tool name tools"
  shows "cr_attempts r \<le> (if policy_retry_allowed p then nat (ep_max_attempts p) else 2) \<and>
    (\<forall>i. Suc i < cr_attempts r \<longrightarrow> (\<exists>exc su. ao_end (ar_outcome (cr_trace r ! i)) = Raises exc \<and>
      ar_summary (cr_trace r ! i) = Some su \<and> su_failure_retryable su \<and>
      (policy_retry_allowed p \<or> i = 0 \<and> is_class IsClosedResource exc \<and> ti_tool_origin (ep_identity p) = ServerMcp)))"
proof -
  from assms(2,3) have r: "r = attempt_loop sh secs env p name 0 0 tool tools []"
    by (simp add: invoke_tool_with_policy_def)
  have "1 \<le> ep_max_attempts p" by (rule resolved_bounds(3) [OF assms(1,2)])
  then have "Suc 0 \<le> nat (ep_max_attempts p)" by simp
  with \<open>1 \<le> ep_max_attempts p\<close> have "cr_attempts r \<le> attempt_limit p \<and> attempts_licensed p (cr_attempts r - 1) (cr_trace r)"
    unfolding r by (intro loop_licensed [unfolded Let_def]) (simp_all add: attempts_licensed_def attempt_limit_def)
  moreover have "\<exists>exc su. ao_end (ar_outcome (cr_trace r ! i)) = Raises exc \<and> ar_summary (cr_trace r ! i) = Some su \<and> su_failure_retryable su \<and>
      (policy_retry_allowed p \<or> i = 0 \<and> is_class IsClosedResource exc \<and> ti_tool_origin (ep_identity p) = ServerMcp)"
    if "licensed p i (cr_trace r ! i)" for i
    using that by (auto simp: licensed_def split: task_end.splits option.splits)
  ultimately show ?thesis unfolding attempts_licensed_def attempt_limit_def less_diff_conv Suc_eq_plus1 [symmetric]
    by blast
qed

section \<open>Examples\<close>

text \<open>The connection breaks during the first attempt; the second answers.\<close>

definition demo_env :: "string call_env" where
  "demo_env =
     \<lparr>ce_run = (\<lambda>n tool. \<lparr>tr_end = Some (1, if n = 1 then Raises (Plain IsBrokenResource ''lost'') else Finished ''done''),
        tr_end_cancelled = None, tr_abandoned = None\<rparr>),
      ce_reconnect = (\<lambda>n. \<lparr>rn_end = None, rn_abandoned = None\<rparr>)\<rparr>"

definition demo_policy_call :: "string call_result" where
  "demo_policy_call = invoke_tool_with_policy no_show (\<lambda>t. []) no_reader (\<lambda>t. True) demo_execution_settings demo_env (demo_tool [])
     ''client__notes'' []"

lemma demo_policy_call_result: "cr_attempts demo_policy_call = 2 \<and> cr_end demo_policy_call = Value ''done'' \<and> policy_retry_allowed demo_policy"
  by code_simp

theorem call_ends_in_time_witness: "cr_elapsed demo_policy_call \<le> 120"
  using call_ends_in_time [OF demo_execution_settings_valid, of no_show "\<lambda>t. []" no_reader "\<lambda>t. True" demo_env "demo_tool []"
      "''client__notes''" "[]"]
  by (simp add: demo_policy_call_def demo_execution_settings_def)

theorem repeats_licensed_witness:
  "\<exists>exc. ao_end (ar_outcome (cr_trace demo_policy_call ! 0)) = Raises exc"
proof -
  have kind: "tool_invocation_kind (\<lambda>t. True) (demo_tool []) = ''client_runtime''" by code_simp
  show ?thesis
    using repeats_licensed [OF demo_execution_settings_valid, of no_show no_reader "demo_tool []" "''client__notes''" "\<lambda>t. True",
        unfolded kind, OF demo_resolves demo_policy_call_def] demo_policy_call_result by auto
qed

end
