(* ===== verification/MutationReceipts.thy ===== *)
theory MutationReceipts
  imports Prelude
begin

text \<open>
  \<^verbatim>\<open>app/repositories/tool_execution_receipt.py\<close>, \<^verbatim>\<open>app/services/tool_execution_receipt_service.py\<close> and the
  call of \<^verbatim>\<open>app/ai/workflow/middleware.py\<close> around them: receipts that keep a mutating tool call from
  being made twice. SHA-256 is an argument \<open>digest\<close>, a clock reading an argument \<open>now\<close>; owners are the
  rows of the tables of users and conversations, which receipts refer to.
\<close>

section \<open>Receipts\<close>

datatype receipt_status = Reserved | Completed | Failed | OutcomeUnknown

record mutation_scope =
  mu_thread_id :: string
  mu_dispatch_id :: string
  mu_task_id :: string
  mu_tool_call_id :: string
  mu_tool_id :: string
  mu_user_id :: uuid
  mu_conversation_id :: uuid
  mu_turn_id :: string
  mu_provider_idempotency :: bool

text \<open>The validation of the model; \<open>None\<close> is its \<^verbatim>\<open>ValidationError\<close>.\<close>

definition text_within :: "nat \<Rightarrow> string \<Rightarrow> bool" where
  "text_within n s \<longleftrightarrow> 1 \<le> length s \<and> length s \<le> n"

definition valid_scope :: "mutation_scope \<Rightarrow> bool" where
  "valid_scope m \<longleftrightarrow>
     text_within 320 (mu_thread_id m) \<and> text_within 64 (mu_dispatch_id m) \<and> text_within 160 (mu_task_id m) \<and>
     text_within 255 (mu_tool_call_id m) \<and> text_within 512 (mu_tool_id m) \<and> text_within 160 (mu_turn_id m)"

definition KEY_SEPARATOR :: char where
  "KEY_SEPARATOR = CHR 0x1F"

definition execution_key :: "(string \<Rightarrow> string) \<Rightarrow> mutation_scope \<Rightarrow> string" where
  "execution_key digest m =
     digest (join_on KEY_SEPARATOR [mu_thread_id m, mu_dispatch_id m, mu_task_id m, mu_tool_call_id m])"

record tool_result =
  nr_content :: string
  nr_artifact_ref :: "string option"
  nr_provider_receipt_id :: "string option"

definition model_visible_payload :: "tool_result \<Rightarrow> (string, pyval) dict" where
  "model_visible_payload r =
     (''content'', PStr (nr_content r)) #
     (case nr_artifact_ref r of
        None \<Rightarrow> []
      | Some a \<Rightarrow> if a = [] then [] else [(''artifact_ref'', PStr a)])"

definition stored_payload :: "tool_result \<Rightarrow> (string, pyval) dict" where
  "stored_payload r = model_visible_payload r"

record receipt =
  rc_execution_key :: string
  rc_status :: receipt_status
  rc_user_id :: uuid
  rc_conversation_id :: uuid
  rc_turn_id :: string
  rc_thread_id :: string
  rc_dispatch_id :: string
  rc_task_id :: string
  rc_tool_call_id :: string
  rc_tool_id :: string
  rc_provider_idempotency :: bool
  rc_result :: "(string, pyval) dict option"
  rc_artifact_ref :: pyval
  rc_provider_receipt_id :: "string option"
  rc_error_code :: "string option"
  rc_completed_at :: "int option"

record receipt_db =
  rd_users :: "uuid list"
  rd_conversations :: "uuid list"
  rd_receipts :: "receipt list"

text \<open>What a caller is told about its key.\<close>

record receipt_record =
  rr_status :: receipt_status
  rr_fresh :: bool
  rr_result :: "(string, pyval) dict option"
  rr_provider_receipt_id :: "string option"

section \<open>The repository\<close>

definition new_receipt :: "mutation_scope \<Rightarrow> string \<Rightarrow> receipt" where
  "new_receipt m key =
     \<lparr>rc_execution_key = key, rc_status = Reserved, rc_user_id = mu_user_id m,
      rc_conversation_id = mu_conversation_id m, rc_turn_id = mu_turn_id m, rc_thread_id = mu_thread_id m,
      rc_dispatch_id = mu_dispatch_id m, rc_task_id = mu_task_id m, rc_tool_call_id = mu_tool_call_id m,
      rc_tool_id = mu_tool_id m, rc_provider_idempotency = mu_provider_idempotency m, rc_result = None,
      rc_artifact_ref = PNone, rc_provider_receipt_id = None, rc_error_code = None, rc_completed_at = None\<rparr>"

definition owned_receipt :: "string \<Rightarrow> mutation_scope \<Rightarrow> receipt \<Rightarrow> bool" where
  "owned_receipt key m r \<longleftrightarrow>
     rc_execution_key r = key \<and> rc_user_id r = mu_user_id m \<and> rc_conversation_id r = mu_conversation_id m"

definition fresh_record :: receipt_record where
  "fresh_record = \<lparr>rr_status = Reserved, rr_fresh = True, rr_result = None, rr_provider_receipt_id = None\<rparr>"

text \<open>A row of somebody else is reported as a reservation of the caller's own.\<close>

definition existing_record :: "string \<Rightarrow> mutation_scope \<Rightarrow> receipt_db \<Rightarrow> receipt_record" where
  "existing_record key m db =
     (case find (owned_receipt key m) (rd_receipts db) of
        None \<Rightarrow> fresh_record
      | Some row \<Rightarrow>
          \<lparr>rr_status = rc_status row, rr_fresh = False,
           rr_result = (case rc_result row of
              None \<Rightarrow> None
            | Some d \<Rightarrow> Some (if truthy (rc_artifact_ref row) \<and> map_of d ''artifact_ref'' = None
                             then d @ [(''artifact_ref'', rc_artifact_ref row)] else d)),
           rr_provider_receipt_id = rc_provider_receipt_id row\<rparr>)"

text \<open>The insert fails on a key that is there, and on an owner that is not.\<close>

definition insertable :: "string \<Rightarrow> mutation_scope \<Rightarrow> receipt_db \<Rightarrow> bool" where
  "insertable key m db \<longleftrightarrow>
     key \<notin> set (map rc_execution_key (rd_receipts db)) \<and> mu_user_id m \<in> set (rd_users db) \<and>
     mu_conversation_id m \<in> set (rd_conversations db)"

definition areserve :: "mutation_scope \<Rightarrow> string \<Rightarrow> receipt_db \<Rightarrow> receipt_record \<times> receipt_db" where
  "areserve m key db =
     (if insertable key m db then (fresh_record, db\<lparr>rd_receipts := rd_receipts db @ [new_receipt m key]\<rparr>)
      else (existing_record key m db, db))"

definition close_receipt :: "string \<Rightarrow> mutation_scope \<Rightarrow> (receipt \<Rightarrow> receipt) \<Rightarrow> receipt_db \<Rightarrow> receipt_db" where
  "close_receipt key m f db =
     db\<lparr>rd_receipts := map (\<lambda>r. if owned_receipt key m r \<and> rc_status r = Reserved then f r else r) (rd_receipts db)\<rparr>"

definition acomplete ::
  "string \<Rightarrow> mutation_scope \<Rightarrow> (string, pyval) dict option \<Rightarrow> string option \<Rightarrow> int \<Rightarrow> receipt_db \<Rightarrow> receipt_db" where
  "acomplete key m result provider_receipt now db =
     close_receipt key m (\<lambda>r. r\<lparr>rc_status := Completed, rc_result := result,
       rc_artifact_ref := pget (case result of None \<Rightarrow> [] | Some d \<Rightarrow> d) ''artifact_ref'',
       rc_provider_receipt_id := provider_receipt, rc_completed_at := Some now\<rparr>) db"

definition afail :: "string \<Rightarrow> mutation_scope \<Rightarrow> string \<Rightarrow> receipt_db \<Rightarrow> receipt_db" where
  "afail key m code db = close_receipt key m (\<lambda>r. r\<lparr>rc_status := Failed, rc_error_code := Some (take 128 code)\<rparr>) db"

definition amark_outcome_unknown :: "string \<Rightarrow> mutation_scope \<Rightarrow> receipt_db \<Rightarrow> receipt_db" where
  "amark_outcome_unknown key m db = close_receipt key m (\<lambda>r. r\<lparr>rc_status := OutcomeUnknown\<rparr>) db"

section \<open>The service\<close>

text \<open>
  How a call of the provider ends: a value, an exception, the exception that nobody knows, or the control
  flow of the graph. Each exception carries its text.
\<close>

datatype call_outcome = Returned tool_result | Raised string | Unknown | Bubbled

datatype mutation_error = MutationOutcomeUnknown | ToolRaised string | GraphBubbleUp | ResultInvalid

text \<open>What a record decides before the provider is called.\<close>

datatype admission = Answer "mutation_error + tool_result" | MarkUnknown | Invoke

text \<open>\<^verbatim>\<open>str(stored.get("content") or "")\<close> of a stored text, and the artifact the result model accepts.\<close>

definition replayed_result :: "receipt_record \<Rightarrow> mutation_error + tool_result" where
  "replayed_result record =
     (let stored = (case rr_result record of None \<Rightarrow> [] | Some d \<Rightarrow> d);
          content = (case pget stored ''content'' of PStr s \<Rightarrow> Some s | v \<Rightarrow> if truthy v then None else Some []);
          artifact = (case pget stored ''artifact_ref'' of PStr s \<Rightarrow> Some (Some s) | PNone \<Rightarrow> Some None | _ \<Rightarrow> None)
      in case (content, artifact) of
           (Some c, Some a) \<Rightarrow>
             Inr \<lparr>nr_content = c, nr_artifact_ref = a, nr_provider_receipt_id = rr_provider_receipt_id record\<rparr>
         | _ \<Rightarrow> Inl ResultInvalid)"

definition admit :: "receipt_record \<Rightarrow> mutation_scope \<Rightarrow> admission" where
  "admit record m =
     (if rr_fresh record then Invoke
      else case rr_status record of
        Completed \<Rightarrow> Answer (replayed_result record)
      | OutcomeUnknown \<Rightarrow> Answer (Inl MutationOutcomeUnknown)
      | Reserved \<Rightarrow> if mu_provider_idempotency m then Invoke else MarkUnknown
      | Failed \<Rightarrow> Invoke)"

definition record_outcome ::
  "string \<Rightarrow> mutation_scope \<Rightarrow> int \<Rightarrow> call_outcome \<Rightarrow> receipt_db \<Rightarrow> (mutation_error + tool_result) \<times> receipt_db" where
  "record_outcome key m now outcome db =
     (case outcome of
        Returned r \<Rightarrow> (Inr r, acomplete key m (Some (stored_payload r)) (nr_provider_receipt_id r) now db)
      | Raised e \<Rightarrow> (Inl (ToolRaised e), afail key m ''tool_execution_failed'' db)
      | Unknown \<Rightarrow> (Inl MutationOutcomeUnknown, amark_outcome_unknown key m db)
      | Bubbled \<Rightarrow> (Inl GraphBubbleUp, db))"

text \<open>
  \<open>execute_mutation\<close> with nothing in between: the result, whether the provider was called and the tables.
  \<open>call\<close> is the end of the call, given the key where it is offered.
\<close>

definition offered_key :: "mutation_scope \<Rightarrow> bool \<Rightarrow> string \<Rightarrow> string option" where
  "offered_key m accepts key = (if mu_provider_idempotency m \<and> accepts then Some key else None)"

definition execute_mutation ::
  "(string \<Rightarrow> string) \<Rightarrow> mutation_scope \<Rightarrow> bool \<Rightarrow> (string option \<Rightarrow> call_outcome) \<Rightarrow> int \<Rightarrow> receipt_db
     \<Rightarrow> (mutation_error + tool_result) \<times> bool \<times> receipt_db" where
  "execute_mutation digest m accepts call now db =
     (let key = execution_key digest m; (record, db1) = areserve m key db
      in case admit record m of
           Answer r \<Rightarrow> (r, False, db1)
         | MarkUnknown \<Rightarrow> (Inl MutationOutcomeUnknown, False, amark_outcome_unknown key m db1)
         | Invoke \<Rightarrow>
             (let (r, db2) = record_outcome key m now (call (offered_key m accepts key)) db1 in (r, True, db2)))"

section \<open>The tool call around it\<close>

record tool_message =
  tm_content :: string
  tm_tool_call_id :: string
  tm_name :: string
  tm_error :: bool

text \<open>
  How \<^verbatim>\<open>_run\<close> ended: the content and whether the artifacts report an error or an unknown outcome. The call
  takes the offered key and drops it.
\<close>

definition invoke_tool :: "string \<times> bool \<times> bool \<Rightarrow> string option \<Rightarrow> call_outcome" where
  "invoke_tool res key =
     (case res of (content, error, unknown) \<Rightarrow>
        if error then (if unknown then Unknown else Raised content)
        else Returned \<lparr>nr_content = content, nr_artifact_ref = None, nr_provider_receipt_id = None\<rparr>)"

text \<open>The message for the model and the flag of the turn; \<open>None\<close> is an exception that leaves the call.\<close>

definition answer_tool_call ::
  "string \<Rightarrow> string \<Rightarrow> string \<Rightarrow> mutation_error + tool_result \<Rightarrow> bool \<Rightarrow> (tool_message \<times> bool) option" where
  "answer_tool_call unknown_text call_id name result flag =
     (case result of
        Inr r \<Rightarrow>
          Some (\<lparr>tm_content = (case pget (model_visible_payload r) ''content'' of PStr s \<Rightarrow> s | _ \<Rightarrow> []),
                 tm_tool_call_id = call_id, tm_name = name, tm_error = False\<rparr>, flag)
      | Inl MutationOutcomeUnknown \<Rightarrow>
          Some (\<lparr>tm_content = unknown_text, tm_tool_call_id = call_id, tm_name = name, tm_error = True\<rparr>, True)
      | Inl (ToolRaised e) \<Rightarrow>
          Some (\<lparr>tm_content = e, tm_tool_call_id = call_id, tm_name = name, tm_error = True\<rparr>, flag)
      | Inl _ \<Rightarrow> None)"

text \<open>The identity of a call; \<open>None\<close> runs it without a receipt.\<close>

record call_context =
  cx_has_service :: bool
  cx_thread_id :: "string option"
  cx_turn_id :: "string option"
  cx_conversation_id :: "uuid option"
  cx_user_id :: "uuid option"
  cx_dispatch_id :: string
  cx_task_id :: string

definition mutation_scope_of ::
  "call_context \<Rightarrow> bool \<Rightarrow> string \<Rightarrow> string \<Rightarrow> bool \<Rightarrow> mutation_scope option" where
  "mutation_scope_of cx mutation call_id tool_id idempotent =
     (if \<not> cx_has_service cx \<or> \<not> mutation then None
      else case (cx_thread_id cx, cx_turn_id cx, cx_conversation_id cx, cx_user_id cx) of
        (Some thread, Some turn, Some conversation, Some user) \<Rightarrow>
          (let m = \<lparr>mu_thread_id = thread, mu_dispatch_id = cx_dispatch_id cx, mu_task_id = cx_task_id cx,
                    mu_tool_call_id = call_id, mu_tool_id = tool_id, mu_user_id = user,
                    mu_conversation_id = conversation, mu_turn_id = turn, mu_provider_idempotency = idempotent\<rparr>
           in if valid_scope m then Some m else None)
      | _ \<Rightarrow> None)"

definition run_mutating_call ::
  "(string \<Rightarrow> string) \<Rightarrow> string \<Rightarrow> mutation_scope \<Rightarrow> string \<Rightarrow> string \<times> bool \<times> bool \<Rightarrow> int \<Rightarrow> bool \<Rightarrow> receipt_db
     \<Rightarrow> (tool_message \<times> bool) option \<times> receipt_db" where
  "run_mutating_call digest unknown_text m name res now flag db =
     (let (r, called, db') = execute_mutation digest m True (invoke_tool res) now db
      in (answer_tool_call unknown_text (mu_tool_call_id m) name r flag, db'))"

section \<open>Calls that interleave\<close>

text \<open>
  Any number of calls, each a sequence of transactions with the provider in the middle; a call may die at
  any point. \<open>may_enter\<close> says which calls are made, \<open>may_end\<close> how one may end that did or did not reach its
  effect. The logs of calls of the provider and of effects are ghosts.
\<close>

datatype call_phase = Entered | Marking | Calling bool | Ended call_outcome

record receipt_run =
  ru_db :: receipt_db
  ru_calls :: "(mutation_scope \<times> call_phase) list"
  ru_invocations :: "mutation_scope list"
  ru_effects :: "mutation_scope list"

inductive receipt_step ::
  "(string \<Rightarrow> string) \<Rightarrow> (mutation_scope \<Rightarrow> bool) \<Rightarrow> (bool \<Rightarrow> call_outcome \<Rightarrow> bool) \<Rightarrow> receipt_run \<Rightarrow> receipt_run \<Rightarrow> bool"
  for digest may_enter may_end where
  enters: "may_enter m \<Longrightarrow> receipt_step digest may_enter may_end s (s\<lparr>ru_calls := (m, Entered) # ru_calls s\<rparr>)"
| answers: "ru_calls s = xs @ (m, Entered) # ys \<Longrightarrow> areserve m (execution_key digest m) (ru_db s) = (record, db) \<Longrightarrow>
    admit record m = Answer r \<Longrightarrow>
    receipt_step digest may_enter may_end s (s\<lparr>ru_db := db, ru_calls := xs @ ys\<rparr>)"
| doubts: "ru_calls s = xs @ (m, Entered) # ys \<Longrightarrow> areserve m (execution_key digest m) (ru_db s) = (record, db) \<Longrightarrow>
    admit record m = MarkUnknown \<Longrightarrow>
    receipt_step digest may_enter may_end s (s\<lparr>ru_db := db, ru_calls := xs @ (m, Marking) # ys\<rparr>)"
| marks: "ru_calls s = xs @ (m, Marking) # ys \<Longrightarrow>
    receipt_step digest may_enter may_end s
      (s\<lparr>ru_db := amark_outcome_unknown (execution_key digest m) m (ru_db s), ru_calls := xs @ ys\<rparr>)"
| invokes: "ru_calls s = xs @ (m, Entered) # ys \<Longrightarrow> areserve m (execution_key digest m) (ru_db s) = (record, db) \<Longrightarrow>
    admit record m = Invoke \<Longrightarrow>
    receipt_step digest may_enter may_end s
      (s\<lparr>ru_db := db, ru_calls := xs @ (m, Calling False) # ys, ru_invocations := m # ru_invocations s\<rparr>)"
| acts: "ru_calls s = xs @ (m, Calling False) # ys \<Longrightarrow>
    receipt_step digest may_enter may_end s
      (s\<lparr>ru_calls := xs @ (m, Calling True) # ys, ru_effects := m # ru_effects s\<rparr>)"
| ends: "ru_calls s = xs @ (m, Calling b) # ys \<Longrightarrow> may_end b outcome \<Longrightarrow>
    receipt_step digest may_enter may_end s (s\<lparr>ru_calls := xs @ (m, Ended outcome) # ys\<rparr>)"
| records: "ru_calls s = xs @ (m, Ended outcome) # ys \<Longrightarrow>
    receipt_step digest may_enter may_end s
      (s\<lparr>ru_db := snd (record_outcome (execution_key digest m) m now outcome (ru_db s)), ru_calls := xs @ ys\<rparr>)"
| dies: "ru_calls s = xs @ x # ys \<Longrightarrow> receipt_step digest may_enter may_end s (s\<lparr>ru_calls := xs @ ys\<rparr>)"

definition receipts_start :: "uuid list \<Rightarrow> uuid list \<Rightarrow> receipt_run" where
  "receipts_start users conversations =
     \<lparr>ru_db = \<lparr>rd_users = users, rd_conversations = conversations, rd_receipts = []\<rparr>, ru_calls = [],
      ru_invocations = [], ru_effects = []\<rparr>"

definition receipts_reach ::
  "(string \<Rightarrow> string) \<Rightarrow> (mutation_scope \<Rightarrow> bool) \<Rightarrow> (bool \<Rightarrow> call_outcome \<Rightarrow> bool) \<Rightarrow> receipt_run \<Rightarrow> receipt_run \<Rightarrow> bool" where
  "receipts_reach digest may_enter may_end = (receipt_step digest may_enter may_end)\<^sup>*\<^sup>*"

section \<open>Closed receipts stay\<close>

lemma rows_close [simp]:
  "map rc_execution_key (map (\<lambda>r. if owned_receipt key m r \<and> rc_status r = Reserved then f r else r) rs) = map rc_execution_key rs"
  if "\<And>r. rc_execution_key (f r) = rc_execution_key r"
  using that by (induction rs) auto

definition later_rows :: "receipt_db \<Rightarrow> receipt_db \<Rightarrow> bool" where
  "later_rows db db' \<longleftrightarrow>
     rd_users db' = rd_users db \<and> rd_conversations db' = rd_conversations db \<and>
     (distinct (map rc_execution_key (rd_receipts db)) \<longrightarrow> distinct (map rc_execution_key (rd_receipts db'))) \<and>
     (\<forall>r \<in> set (rd_receipts db). rc_status r \<noteq> Reserved \<longrightarrow> r \<in> set (rd_receipts db'))"

lemma later_rows_refl [simp]: "later_rows db db"
  by (simp add: later_rows_def)

lemma later_rows_trans: "later_rows db db1 \<Longrightarrow> later_rows db1 db2 \<Longrightarrow> later_rows db db2"
  by (auto simp: later_rows_def)

lemma later_rows_close:
  "(\<And>r. rc_execution_key (f r) = rc_execution_key r) \<Longrightarrow> later_rows db (close_receipt key m f db)"
  by (auto simp: later_rows_def close_receipt_def image_iff simp del: map_map)

lemma later_rows_reserve: "areserve m key db = (record, db') \<Longrightarrow> later_rows db db'"
  by (auto simp: areserve_def later_rows_def insertable_def new_receipt_def split: if_splits)

lemma later_rows_record: "later_rows db (snd (record_outcome key m now outcome db))"
  by (auto simp: record_outcome_def acomplete_def afail_def amark_outcome_unknown_def intro: later_rows_close split: call_outcome.split)

lemma later_rows_step: "receipt_step digest may_enter may_end s s' \<Longrightarrow> later_rows (ru_db s) (ru_db s')"
  by (induction rule: receipt_step.induct)
    (auto simp: amark_outcome_unknown_def dest: later_rows_reserve intro: later_rows_close later_rows_record)

lemma later_rows_reach: "receipts_reach digest may_enter may_end s s' \<Longrightarrow> later_rows (ru_db s) (ru_db s')"
  unfolding receipts_reach_def
  by (induction rule: rtranclp_induct) (auto dest: later_rows_step intro: later_rows_trans)

lemma owned_unique:
  assumes "distinct (map rc_execution_key rs)" "r \<in> set rs" "owned_receipt key m r"
  shows "find (owned_receipt key m) rs = Some r"
  using assms by (induction rs) (auto simp: owned_receipt_def)

lemma owned_not_insertable: "r \<in> set (rd_receipts db) \<Longrightarrow> owned_receipt key m r \<Longrightarrow> \<not> insertable key m db"
  by (auto simp: insertable_def owned_receipt_def)

text \<open>
  C24: a recorded outcome is final. Once a receipt says completed or unknown, then whatever calls interleave
  after it, with whatever outcomes and deaths, its owner's call is answered from the receipt: the recorded
  result or the same exception, without the provider and without a change.
\<close>

theorem recorded_outcome_replayed:
  assumes "receipts_reach digest may_enter may_end (receipts_start users conversations) s"
    "receipts_reach digest may_enter may_end s s'"
    "r \<in> set (rd_receipts (ru_db s))" "owned_receipt (execution_key digest m) m r"
    "rc_status r \<in> {Completed, OutcomeUnknown}"
  shows "execute_mutation digest m accepts call now (ru_db s') =
    (if rc_status r = Completed
     then replayed_result (existing_record (execution_key digest m) m (ru_db s)) else Inl MutationOutcomeUnknown, False, ru_db s')"
proof -
  let ?key = "execution_key digest m"
  from later_rows_reach [OF assms(1)] have d: "distinct (map rc_execution_key (rd_receipts (ru_db s)))"
    by (simp add: later_rows_def receipts_start_def)
  with later_rows_reach [OF assms(2)] assms(3,5)
  have d': "distinct (map rc_execution_key (rd_receipts (ru_db s')))" "r \<in> set (rd_receipts (ru_db s'))"
    by (auto simp: later_rows_def)
  note find = owned_unique [OF d assms(3,4)] owned_unique [OF d' assms(4)]
  from owned_not_insertable [OF d'(2) assms(4)] find assms(5) show ?thesis
    by (auto simp: execute_mutation_def Let_def areserve_def existing_record_def admit_def)
qed

text \<open>A result that was recorded comes back as the result; an empty artifact reads as none.\<close>

definition without_empty_artifact :: "tool_result \<Rightarrow> tool_result" where
  "without_empty_artifact r = r\<lparr>nr_artifact_ref := (if nr_artifact_ref r = Some [] then None else nr_artifact_ref r)\<rparr>"

text \<open>
  C25: a mutation that returns is recorded with what a replay needs. The first call under a free key calls the
  provider and returns its result; the same call again returns that result from the receipt, content,
  artifact and the receipt of the provider, does not call the provider and changes nothing.
\<close>

theorem mutation_roundtrip:
  assumes "insertable (execution_key digest m) m db" "call (offered_key m accepts (execution_key digest m)) = Returned r"
  shows "execute_mutation digest m accepts call now db =
      (Inr r, True, snd (snd (execute_mutation digest m accepts call now db))) \<and>
    execute_mutation digest m accepts' call' now' (snd (snd (execute_mutation digest m accepts call now db))) =
      (Inr (without_empty_artifact r), False, snd (snd (execute_mutation digest m accepts call now db)))"
proof -
  let ?key = "execution_key digest m"
  let ?row = "(new_receipt m ?key)\<lparr>rc_status := Completed, rc_result := Some (stored_payload r),
       rc_artifact_ref := pget (stored_payload r) ''artifact_ref'',
       rc_provider_receipt_id := nr_provider_receipt_id r, rc_completed_at := Some now\<rparr>"
  let ?db = "db\<lparr>rd_receipts := rd_receipts db @ [?row]\<rparr>"
  have other: "\<not> owned_receipt ?key m q" if "q \<in> set (rd_receipts db)" for q
    using owned_not_insertable [of q db ?key m] assms(1) that by blast
  have own: "owned_receipt ?key m (new_receipt m ?key)" "owned_receipt ?key m ?row" "rc_status (new_receipt m ?key) = Reserved"
    by (simp_all add: owned_receipt_def new_receipt_def)
  have keep: "map (\<lambda>q. if owned_receipt ?key m q \<and> rc_status q = Reserved then f q else q) (rd_receipts db) = rd_receipts db" for f
    using other by (intro map_idI) auto
  have first: "execute_mutation digest m accepts call now db = (Inr r, True, ?db)"
    using assms own keep
    by (simp add: execute_mutation_def Let_def areserve_def admit_def fresh_record_def record_outcome_def acomplete_def
        close_receipt_def)
  have none: "find (owned_receipt ?key m) (rd_receipts db) = None" using other by (auto simp: find_None_iff)
  have "find (owned_receipt ?key m) (rd_receipts ?db) = Some ?row"
    using none own(2) by (simp add: find_append_single)
  then have "existing_record ?key m ?db = \<lparr>rr_status = Completed, rr_fresh = False, rr_result = Some (stored_payload r),
      rr_provider_receipt_id = nr_provider_receipt_id r\<rparr>"
    by (auto simp: existing_record_def stored_payload_def model_visible_payload_def pget_def new_receipt_def split: option.splits)
  moreover have "\<not> insertable ?key m ?db" by (auto simp: insertable_def new_receipt_def)
  moreover have "replayed_result \<lparr>rr_status = Completed, rr_fresh = False, rr_result = Some (stored_payload r),
      rr_provider_receipt_id = nr_provider_receipt_id r\<rparr> = Inr (without_empty_artifact r)"
    by (cases "nr_artifact_ref r")
      (auto simp: replayed_result_def Let_def stored_payload_def model_visible_payload_def pget_def without_empty_artifact_def)
  ultimately show ?thesis unfolding first by (simp add: execute_mutation_def Let_def areserve_def admit_def)
qed

section \<open>One effect\<close>

text \<open>
  What the promise of one effect rests on: the provider does not deduplicate, the owner of a call is in the
  database, and calls under one key have one owner.
\<close>

definition one_owner :: "(string \<Rightarrow> string) \<Rightarrow> uuid list \<Rightarrow> uuid list \<Rightarrow> (mutation_scope \<Rightarrow> bool) \<Rightarrow> bool" where
  "one_owner digest users conversations may_enter \<longleftrightarrow>
     (\<forall>m. may_enter m \<longrightarrow> \<not> mu_provider_idempotency m \<and> mu_user_id m \<in> set users \<and>
        mu_conversation_id m \<in> set conversations \<and>
        (\<forall>n. may_enter n \<and> execution_key digest n = execution_key digest m \<longrightarrow>
           mu_user_id n = mu_user_id m \<and> mu_conversation_id n = mu_conversation_id m))"

definition never_raised :: "bool \<Rightarrow> call_outcome \<Rightarrow> bool" where
  "never_raised b outcome \<longleftrightarrow> (\<forall>e. outcome \<noteq> Raised e)"

definition under_key :: "(string \<Rightarrow> string) \<Rightarrow> string \<Rightarrow> mutation_scope list \<Rightarrow> nat" where
  "under_key digest k ms = length (filter (\<lambda>m. execution_key digest m = k) ms)"

definition open_calls :: "(string \<Rightarrow> string) \<Rightarrow> string \<Rightarrow> (mutation_scope \<times> call_phase) list \<Rightarrow> nat" where
  "open_calls digest k calls = length (filter (\<lambda>(m, ph). execution_key digest m = k \<and> ph = Calling False) calls)"

lemma under_key_simps [simp]:
  "under_key digest k [] = 0"
  "under_key digest k (m # ms) = (if execution_key digest m = k then 1 else 0) + under_key digest k ms"
  by (simp_all add: under_key_def)

lemma open_calls_simps [simp]:
  "open_calls digest k [] = 0"
  "open_calls digest k (x # calls) = (if execution_key digest (fst x) = k \<and> snd x = Calling False then 1 else 0) + open_calls digest k calls"
  "open_calls digest k (xs @ ys) = open_calls digest k xs + open_calls digest k ys"
  by (simp_all add: open_calls_def case_prod_beta)

text \<open>A receipt belongs to a call that may be made, and records no exception.\<close>

definition row_known :: "(string \<Rightarrow> string) \<Rightarrow> (mutation_scope \<Rightarrow> bool) \<Rightarrow> receipt \<Rightarrow> bool" where
  "row_known digest may_enter r \<longleftrightarrow>
     rc_status r \<noteq> Failed \<and> (\<exists>m. may_enter m \<and> owned_receipt (execution_key digest m) m r)"

definition counted :: "(string \<Rightarrow> string) \<Rightarrow> receipt_run \<Rightarrow> string \<Rightarrow> bool" where
  "counted digest s k \<longleftrightarrow>
     under_key digest k (ru_invocations s) \<le> 1 \<and>
     under_key digest k (ru_effects s) + open_calls digest k (ru_calls s) \<le> under_key digest k (ru_invocations s)"

definition receipts_ok ::
  "(string \<Rightarrow> string) \<Rightarrow> (mutation_scope \<Rightarrow> bool) \<Rightarrow> receipt_run \<Rightarrow> bool" where
  "receipts_ok digest may_enter s \<longleftrightarrow>
     distinct (map rc_execution_key (rd_receipts (ru_db s))) \<and>
     (\<forall>x \<in> set (ru_calls s). may_enter (fst x) \<and> (\<forall>e. snd x \<noteq> Ended (Raised e))) \<and>
     (\<forall>m \<in> set (ru_invocations s). execution_key digest m \<in> set (map rc_execution_key (rd_receipts (ru_db s)))) \<and>
     (\<forall>r \<in> set (rd_receipts (ru_db s)). row_known digest may_enter r) \<and>
     (\<forall>k. counted digest s k)"

lemma receipts_okD:
  assumes "receipts_ok digest may_enter s"
  shows "distinct (map rc_execution_key (rd_receipts (ru_db s)))"
    "x \<in> set (ru_calls s) \<Longrightarrow> may_enter (fst x)" "x \<in> set (ru_calls s) \<Longrightarrow> snd x \<noteq> Ended (Raised e)"
    "m \<in> set (ru_invocations s) \<Longrightarrow> execution_key digest m \<in> set (map rc_execution_key (rd_receipts (ru_db s)))"
    "r \<in> set (rd_receipts (ru_db s)) \<Longrightarrow> row_known digest may_enter r" "counted digest s k"
  using assms by (simp_all add: receipts_ok_def)

text \<open>What closing a receipt leaves of the invariant.\<close>

lemma receipts_ok_close:
  assumes ok: "receipts_ok digest may_enter s"
    and s': "ru_invocations s' = ru_invocations s" "ru_effects s' = ru_effects s"
      "ru_db s' = close_receipt key m f (ru_db s)" "ru_calls s = xs @ x # ys" "ru_calls s' = xs @ ys"
    and f: "\<And>r. rc_execution_key (f r) = rc_execution_key r" "\<And>r. rc_user_id (f r) = rc_user_id r"
      "\<And>r. rc_conversation_id (f r) = rc_conversation_id r" "\<And>r. rc_status (f r) \<noteq> Failed"
  shows "receipts_ok digest may_enter s'"
proof -
  note okD = receipts_okD [OF ok]
  have keys: "map rc_execution_key (rd_receipts (ru_db s')) = map rc_execution_key (rd_receipts (ru_db s))"
    using f(1) by (simp add: s'(3) close_receipt_def del: map_map)
  have "row_known digest may_enter (f r)" if "row_known digest may_enter r" for r
    using that f by (simp add: row_known_def owned_receipt_def)
  then have "row_known digest may_enter r" if "r \<in> set (rd_receipts (ru_db s'))" for r
    using that okD(5) by (auto simp: s'(3) close_receipt_def)
  moreover have "counted digest s' k" for k
    using okD(6) [of k] by (simp add: counted_def s')
  moreover have "may_enter (fst y) \<and> (\<forall>e. snd y \<noteq> Ended (Raised e))" if "y \<in> set (ru_calls s')" for y
    using okD(2,3) [of y] that by (auto simp: s')
  ultimately show ?thesis using okD(1,4) by (simp add: receipts_ok_def keys s'(1) del: set_map)
qed

lemma receipts_ok_calls:
  assumes ok: "receipts_ok digest may_enter s"
    and s': "ru_invocations s' = ru_invocations s" "ru_db s' = ru_db s"
      "\<And>x. x \<in> set (ru_calls s') \<Longrightarrow> may_enter (fst x) \<and> (\<forall>e. snd x \<noteq> Ended (Raised e))"
      "\<And>k. under_key digest k (ru_effects s') + open_calls digest k (ru_calls s') \<le>
         under_key digest k (ru_effects s) + open_calls digest k (ru_calls s)"
  shows "receipts_ok digest may_enter s'"
proof -
  have "counted digest s' k" for k
    using receipts_okD(6) [OF ok, of k] s'(4) [of k] by (auto simp: counted_def s'(1))
  with receipts_okD [OF ok] s'(3) show ?thesis by (simp add: receipts_ok_def s'(1,2))
qed

text \<open>An admitted call of the provider is the first under its key.\<close>

lemma admitted_first:
  assumes ok: "receipts_ok digest may_enter s" and own: "one_owner digest (rd_users (ru_db s)) (rd_conversations (ru_db s)) may_enter"
    and m: "may_enter m" and r: "areserve m (execution_key digest m) (ru_db s) = (record, db)" "admit record m = Invoke"
  shows "execution_key digest m \<notin> rc_execution_key ` set (rd_receipts (ru_db s))"
    "db = (ru_db s)\<lparr>rd_receipts := rd_receipts (ru_db s) @ [new_receipt m (execution_key digest m)]\<rparr>"
proof -
  let ?key = "execution_key digest m"
  show "?key \<notin> rc_execution_key ` set (rd_receipts (ru_db s))"
  proof
    assume "?key \<in> rc_execution_key ` set (rd_receipts (ru_db s))"
    then obtain row where row: "row \<in> set (rd_receipts (ru_db s))" "rc_execution_key row = ?key" by auto
    from receipts_okD(5) [OF ok row(1)] obtain n where n: "may_enter n" "owned_receipt (execution_key digest n) n row"
      and status: "rc_status row \<noteq> Failed" by (auto simp: row_known_def)
    from n(2) row(2) have "execution_key digest n = ?key" by (simp add: owned_receipt_def)
    with own m n(1) have "mu_user_id n = mu_user_id m" "mu_conversation_id n = mu_conversation_id m" "\<not> mu_provider_idempotency m"
      unfolding one_owner_def by blast+
    with n(2) row(2) have mine: "owned_receipt ?key m row" by (simp add: owned_receipt_def)
    from owned_unique [OF receipts_okD(1) [OF ok] row(1) mine]
    have "rr_status (existing_record ?key m (ru_db s)) = rc_status row" "\<not> rr_fresh (existing_record ?key m (ru_db s))"
      by (simp_all add: existing_record_def)
    moreover have "record = existing_record ?key m (ru_db s)"
      using r(1) owned_not_insertable [OF row(1) mine] by (auto simp: areserve_def)
    ultimately show False using r(2) status \<open>\<not> mu_provider_idempotency m\<close>
      by (cases "rc_status row") (simp_all add: admit_def)
  qed
  moreover have "mu_user_id m \<in> set (rd_users (ru_db s))" "mu_conversation_id m \<in> set (rd_conversations (ru_db s))"
    using own m unfolding one_owner_def by blast+
  ultimately have "insertable ?key m (ru_db s)" by (simp add: insertable_def)
  with r(1) show "db = (ru_db s)\<lparr>rd_receipts := rd_receipts (ru_db s) @ [new_receipt m ?key]\<rparr>"
    by (simp add: areserve_def)
qed

lemma reserve_same_db:
  assumes "areserve m key db = (record, db')" "admit record m \<noteq> Invoke"
  shows "db' = db"
  using assms by (auto simp: areserve_def fresh_record_def admit_def split: if_splits)

lemma receipts_ok_step:
  assumes "receipt_step digest may_enter never_raised s s'" and ok: "receipts_ok digest may_enter s"
    and own: "one_owner digest (rd_users (ru_db s)) (rd_conversations (ru_db s)) may_enter"
  shows "receipts_ok digest may_enter s'"
  using assms(1)
proof cases
  case (enters m)
  with ok show ?thesis by (intro receipts_ok_calls [OF ok]) (auto simp: receipts_ok_def)
next
  case (answers xs m ys rr db r)
  with ok reserve_same_db [OF answers(3)] show ?thesis by (intro receipts_ok_calls [OF ok]) (auto simp: receipts_ok_def)
next
  case (doubts xs m ys rr db)
  with ok reserve_same_db [OF doubts(3)] show ?thesis by (intro receipts_ok_calls [OF ok]) (auto simp: receipts_ok_def)
next
  case (marks xs m ys)
  then show ?thesis
    by (intro receipts_ok_close [OF ok _ _ _ marks(2), where f = "rc_status_update (\<lambda>_. OutcomeUnknown)"])
      (simp_all add: amark_outcome_unknown_def)
next
  case (invokes xs m ys rr db)
  let ?key = "execution_key digest m"
  have m: "may_enter m" using receipts_okD(2) [OF ok, of "(m, Entered)"] invokes(2) by simp
  note new = admitted_first [OF ok own m invokes(3,4)]
  have "?key \<noteq> execution_key digest n" if "n \<in> set (ru_invocations s)" for n
    using receipts_okD(4) [OF ok that] new(1) by auto
  then have "under_key digest ?key (ru_invocations s) = 0"
    by (simp add: under_key_def filter_empty_conv) metis
  then have "counted digest s' k" for k
    using receipts_okD(6) [OF ok, of k] by (cases "k = ?key") (auto simp: counted_def invokes(1,2))
  moreover have "row_known digest may_enter (new_receipt m ?key)"
    using m by (auto simp: row_known_def owned_receipt_def new_receipt_def)
  ultimately show ?thesis using receipts_okD(1-5) [OF ok] m new invokes(2)
    by (auto simp: receipts_ok_def invokes(1) new_receipt_def)
next
  case (acts xs m ys)
  with ok show ?thesis by (intro receipts_ok_calls [OF ok]) (auto simp: receipts_ok_def)
next
  case (ends xs m b ys outcome)
  with ok show ?thesis by (intro receipts_ok_calls [OF ok]) (auto simp: receipts_ok_def never_raised_def)
next
  case (records xs m outcome ys now)
  have "outcome \<noteq> Raised e" for e using receipts_okD(3) [OF ok, of "(m, Ended outcome)" e] records(2) by simp
  then consider r where "outcome = Returned r" | "outcome = Unknown" | "outcome = Bubbled" by (cases outcome) auto
  then show ?thesis
  proof cases
    case 3
    with records ok show ?thesis by (intro receipts_ok_calls [OF ok]) (auto simp: receipts_ok_def record_outcome_def)
  next
    case (1 r)
    show ?thesis
      by (rule receipts_ok_close [OF ok _ _ _ records(2), where f = "\<lambda>q. q\<lparr>rc_status := Completed,
          rc_result := Some (stored_payload r), rc_artifact_ref := pget (stored_payload r) ''artifact_ref'',
          rc_provider_receipt_id := nr_provider_receipt_id r, rc_completed_at := Some now\<rparr>"])
        (simp_all add: records(1) 1 record_outcome_def acomplete_def)
  next
    case 2
    show ?thesis
      by (rule receipts_ok_close [OF ok _ _ _ records(2), where f = "rc_status_update (\<lambda>_. OutcomeUnknown)"])
        (simp_all add: records(1) 2 record_outcome_def amark_outcome_unknown_def)
  qed
next
  case (dies xs x ys)
  with ok show ?thesis by (intro receipts_ok_calls [OF ok]) (auto simp: receipts_ok_def)
qed


section \<open>A failed receipt\<close>

text \<open>
  A receipt that failed is never closed again. Its owner's next call, and every one after it, calls the
  provider; a result or an unknown outcome of these is not recorded and the table stays as it is, so a
  mutation that was refused once takes effect on every replay after that.
\<close>

theorem failed_receipt_repeats:
  assumes "distinct (map rc_execution_key (rd_receipts db))" "r \<in> set (rd_receipts db)"
    "owned_receipt (execution_key digest m) m r" "rc_status r = Failed"
  shows "execute_mutation digest m accepts call now db =
    (fst (record_outcome (execution_key digest m) m now (call (offered_key m accepts (execution_key digest m))) db), True, db)"
proof -
  let ?key = "execution_key digest m"
  have only: "rc_status q \<noteq> Reserved" if "q \<in> set (rd_receipts db)" "owned_receipt ?key m q" for q
    using owned_unique [OF assms(1) that] owned_unique [OF assms(1-3)] assms(4) by simp
  have same: "close_receipt ?key m f db = db" for f
  proof -
    have "map (\<lambda>q. if owned_receipt ?key m q \<and> rc_status q = Reserved then f q else q) (rd_receipts db) = rd_receipts db"
      using only by (intro map_idI) auto
    then show ?thesis by (simp add: close_receipt_def)
  qed
  have "snd (record_outcome ?key m now outcome db) = db" for outcome
    by (simp add: record_outcome_def acomplete_def afail_def amark_outcome_unknown_def same split: call_outcome.split)
  then show ?thesis
    using owned_not_insertable [OF assms(2,3)] owned_unique [OF assms(1-3)] assms(4)
    by (simp add: execute_mutation_def Let_def areserve_def existing_record_def admit_def case_prod_beta)
qed

section \<open>Owners and keys\<close>

text \<open>
  Receipts are their owner's. A receipt changes only through a call of the same user and conversation
  under its key, and only while it is reserved; and what a call is told of a recorded outcome is the outcome
  of a receipt of its own.
\<close>

theorem receipts_owned:
  assumes "receipt_step digest may_enter may_end s s'"
  shows "(\<forall>r \<in> set (rd_receipts (ru_db s)). r \<notin> set (rd_receipts (ru_db s')) \<longrightarrow> rc_status r = Reserved \<and>
      (\<exists>x \<in> set (ru_calls s). owned_receipt (execution_key digest (fst x)) (fst x) r)) \<and>
    (rr_fresh (existing_record key m (ru_db s)) \<or>
      (\<exists>r \<in> set (rd_receipts (ru_db s)). owned_receipt key m r \<and> rr_status (existing_record key m (ru_db s)) = rc_status r))"
proof -
  have closed: "rc_status r = Reserved \<and> owned_receipt k n r"
    if "r \<in> set (rd_receipts db)" "r \<notin> set (rd_receipts (close_receipt k n f db))" for r k n f db
    using that by (auto simp: close_receipt_def image_iff split: if_splits)
  have kept: "r \<in> set (rd_receipts db')" if "areserve n k db = (q, db')" "r \<in> set (rd_receipts db)" for r n k db q db'
    using that by (auto simp: areserve_def split: if_splits)
  have "\<forall>r \<in> set (rd_receipts (ru_db s)). r \<notin> set (rd_receipts (ru_db s')) \<longrightarrow> rc_status r = Reserved \<and>
      (\<exists>x \<in> set (ru_calls s). owned_receipt (execution_key digest (fst x)) (fst x) r)"
    using assms
  proof cases
    case (marks xs m ys)
    then show ?thesis using closed by (fastforce simp: amark_outcome_unknown_def)
  next
    case (records xs m outcome ys now)
    then show ?thesis using closed
      by (cases outcome) (fastforce simp: record_outcome_def acomplete_def afail_def amark_outcome_unknown_def)+
  qed (auto dest: kept)
  moreover have "rr_fresh (existing_record key m (ru_db s)) \<or>
      (\<exists>r \<in> set (rd_receipts (ru_db s)). owned_receipt key m r \<and> rr_status (existing_record key m (ru_db s)) = rc_status r)"
    by (auto simp: existing_record_def fresh_record_def dest: find_SomeD split: option.splits)
  ultimately show ?thesis by blast
qed

text \<open>
  The key of a call is its identity. With a hash that tells its inputs apart, and no separator in the
  identifiers, two calls have one key only if thread, dispatch, task and tool call agree; whether the
  provider deduplicates, the tool, the user, the conversation and the turn are not part of it.
\<close>

theorem execution_key_identifies:
  assumes "\<And>a b. digest a = digest b \<Longrightarrow> a = b"
    "KEY_SEPARATOR \<notin> set (mu_thread_id m @ mu_dispatch_id m @ mu_task_id m @ mu_tool_call_id m)"
    "KEY_SEPARATOR \<notin> set (mu_thread_id n @ mu_dispatch_id n @ mu_task_id n @ mu_tool_call_id n)"
  shows "execution_key digest m = execution_key digest n \<longleftrightarrow>
    mu_thread_id m = mu_thread_id n \<and> mu_dispatch_id m = mu_dispatch_id n \<and> mu_task_id m = mu_task_id n \<and>
    mu_tool_call_id m = mu_tool_call_id n"
proof
  assume "execution_key digest m = execution_key digest n"
  with assms(1) have "join_on KEY_SEPARATOR [mu_thread_id m, mu_dispatch_id m, mu_task_id m, mu_tool_call_id m] =
      join_on KEY_SEPARATOR [mu_thread_id n, mu_dispatch_id n, mu_task_id n, mu_tool_call_id n]"
    by (auto simp: execution_key_def)
  from arg_cong [OF this, of "split_on KEY_SEPARATOR"] assms(2,3)
  show "mu_thread_id m = mu_thread_id n \<and> mu_dispatch_id m = mu_dispatch_id n \<and> mu_task_id m = mu_task_id n \<and>
    mu_tool_call_id m = mu_tool_call_id n"
    by (simp add: split_on_append split_on_no_sep)
qed (simp add: execution_key_def)

text \<open>The separator is not kept out of the identifiers, so two valid calls can share a key.\<close>

definition demo_scope :: "string \<Rightarrow> string \<Rightarrow> mutation_scope" where
  "demo_scope task call =
     \<lparr>mu_thread_id = ''t'', mu_dispatch_id = ''d'', mu_task_id = task, mu_tool_call_id = call, mu_tool_id = ''send'',
      mu_user_id = 1, mu_conversation_id = 2, mu_turn_id = ''u'', mu_provider_idempotency = False\<rparr>"

lemma separator_shifts_fields:
  "execution_key digest (demo_scope ''a'' (''b'' @ [KEY_SEPARATOR] @ ''c'')) =
     execution_key digest (demo_scope (''a'' @ [KEY_SEPARATOR] @ ''b'') ''c'') \<and>
   valid_scope (demo_scope ''a'' (''b'' @ [KEY_SEPARATOR] @ ''c'')) \<and> valid_scope (demo_scope (''a'' @ [KEY_SEPARATOR] @ ''b'') ''c'')"
  by (simp add: execution_key_def demo_scope_def valid_scope_def text_within_def)

text \<open>A provider that deduplicates is called again over a lost attempt, and its adapter drops the key.\<close>

lemma key_never_offered:
  "execute_mutation digest m True (invoke_tool res) now db = execute_mutation digest m False (invoke_tool res) now db"
proof -
  have drop: "invoke_tool res = (\<lambda>k. invoke_tool res None)" by (rule ext) (simp add: invoke_tool_def)
  show ?thesis by (subst (1 2) drop) (simp add: execute_mutation_def)
qed

section \<open>Examples\<close>

definition demo_receipts :: "receipt list \<Rightarrow> receipt_db" where
  "demo_receipts rs = \<lparr>rd_users = [1], rd_conversations = [2], rd_receipts = rs\<rparr>"

definition demo_mutation :: mutation_scope where
  "demo_mutation = demo_scope ''a'' ''c''"

definition demo_returned :: tool_result where
  "demo_returned = \<lparr>nr_content = ''sent'', nr_artifact_ref = Some [], nr_provider_receipt_id = Some ''p1''\<rparr>"

theorem mutation_roundtrip_witness:
  "execute_mutation id demo_mutation False (\<lambda>k. Unknown) 2
     (snd (snd (execute_mutation id demo_mutation False (\<lambda>k. Returned demo_returned) 1 (demo_receipts [])))) =
   (Inr (demo_returned\<lparr>nr_artifact_ref := None\<rparr>), False,
     snd (snd (execute_mutation id demo_mutation False (\<lambda>k. Returned demo_returned) 1 (demo_receipts []))))"
proof -
  have "insertable (execution_key id demo_mutation) demo_mutation (demo_receipts [])" by code_simp
  from mutation_roundtrip [of id demo_mutation "demo_receipts []" "\<lambda>k. Returned demo_returned", OF this refl] show ?thesis
    by (simp add: without_empty_artifact_def demo_returned_def)
qed

theorem failed_receipt_repeats_witness:
  "execute_mutation id demo_mutation False (\<lambda>k. Returned demo_returned) 1
     (demo_receipts [(new_receipt demo_mutation (execution_key id demo_mutation))\<lparr>rc_status := Failed\<rparr>]) =
   (Inr demo_returned, True,
     demo_receipts [(new_receipt demo_mutation (execution_key id demo_mutation))\<lparr>rc_status := Failed\<rparr>])"
proof -
  let ?r = "(new_receipt demo_mutation (execution_key id demo_mutation))\<lparr>rc_status := Failed\<rparr>"
  have "distinct (map rc_execution_key (rd_receipts (demo_receipts [?r])))" "?r \<in> set (rd_receipts (demo_receipts [?r]))"
    "owned_receipt (execution_key id demo_mutation) demo_mutation ?r" "rc_status ?r = Failed"
    by (simp_all add: demo_receipts_def owned_receipt_def new_receipt_def)
  from failed_receipt_repeats [OF this] show ?thesis by (simp add: record_outcome_def)
qed

theorem execution_key_identifies_witness:
  "execution_key id (demo_scope ''a'' ''c'') \<noteq> execution_key id (demo_scope ''a'' ''d'')"
  using execution_key_identifies [of id "demo_scope ''a'' ''c''" "demo_scope ''a'' ''d''"]
  by (simp add: demo_scope_def KEY_SEPARATOR_def)

text \<open>A call that reserves, calls the provider, takes effect and is recorded; its replay follows.\<close>

definition demo_run :: "receipt_db \<Rightarrow> (mutation_scope \<times> call_phase) list \<Rightarrow> mutation_scope list \<Rightarrow> mutation_scope list \<Rightarrow> receipt_run" where
  "demo_run db calls invocations effects =
     \<lparr>ru_db = db, ru_calls = calls, ru_invocations = invocations, ru_effects = effects\<rparr>"

definition demo_completed :: receipt_db where
  "demo_completed = snd (snd (execute_mutation id demo_mutation False (\<lambda>k. Returned demo_returned) 1 (demo_receipts [])))"

lemma demo_reserved:
  "areserve demo_mutation (execution_key id demo_mutation) (demo_receipts []) =
     (fresh_record, demo_receipts [new_receipt demo_mutation (execution_key id demo_mutation)])"
  "snd (record_outcome (execution_key id demo_mutation) demo_mutation 1 (Returned demo_returned)
     (demo_receipts [new_receipt demo_mutation (execution_key id demo_mutation)])) = demo_completed"
  by code_simp+

lemma reach_step:
  "receipts_reach digest may_enter may_end s t \<Longrightarrow> receipt_step digest may_enter may_end t u \<Longrightarrow>
   receipts_reach digest may_enter may_end s u"
  unfolding receipts_reach_def by (rule rtranclp.rtrancl_into_rtrancl)

lemma demo_reach:
  "receipts_reach id (\<lambda>m. m = demo_mutation) never_raised (receipts_start [1] [2])
     (demo_run demo_completed [] [demo_mutation] [demo_mutation])"
proof -
  let ?reach = "receipts_reach id (\<lambda>m. m = demo_mutation) never_raised (receipts_start [1] [2])"
  let ?row = "new_receipt demo_mutation (execution_key id demo_mutation)"
  have "?reach (demo_run (demo_receipts []) [] [] [])"
    by (simp add: receipts_reach_def receipts_start_def demo_run_def demo_receipts_def)
  from reach_step [OF this receipt_step.enters [of _ demo_mutation]]
  have "?reach (demo_run (demo_receipts []) [(demo_mutation, Entered)] [] [])" by (simp add: demo_run_def)
  from reach_step [OF this receipt_step.invokes [of _ "[]" demo_mutation "[]", OF _ _ _]] demo_reserved(1)
  have "?reach (demo_run (demo_receipts [?row]) [(demo_mutation, Calling False)] [demo_mutation] [])"
    by (simp add: demo_run_def admit_def fresh_record_def)
  from reach_step [OF this receipt_step.acts [of _ "[]" demo_mutation "[]"]]
  have "?reach (demo_run (demo_receipts [?row]) [(demo_mutation, Calling True)] [demo_mutation] [demo_mutation])"
    by (simp add: demo_run_def)
  from reach_step [OF this receipt_step.ends [of _ "[]" demo_mutation True "[]" _ "Returned demo_returned"]]
  have "?reach (demo_run (demo_receipts [?row]) [(demo_mutation, Ended (Returned demo_returned))] [demo_mutation] [demo_mutation])"
    by (simp add: demo_run_def never_raised_def)
  from reach_step [OF this receipt_step.records [of _ "[]" demo_mutation "Returned demo_returned" "[]" _ _ _ 1]] demo_reserved(2)
  show ?thesis by (simp add: demo_run_def)
qed


theorem recorded_outcome_replayed_witness:
  "execute_mutation id demo_mutation True (\<lambda>k. Raised ''down'') 9 demo_completed =
     (Inr (demo_returned\<lparr>nr_artifact_ref := None\<rparr>), False, demo_completed)"
proof -
  have r: "case rd_receipts demo_completed of [r] \<Rightarrow> owned_receipt (execution_key id demo_mutation) demo_mutation r \<and>
      rc_status r = Completed | _ \<Rightarrow> False"
    "replayed_result (existing_record (execution_key id demo_mutation) demo_mutation demo_completed) =
       Inr (demo_returned\<lparr>nr_artifact_ref := None\<rparr>)"
    by code_simp+
  then obtain r where r1: "rd_receipts demo_completed = [r]" "owned_receipt (execution_key id demo_mutation) demo_mutation r"
    "rc_status r = Completed" by (auto split: list.splits)
  have "receipts_reach id (\<lambda>m. m = demo_mutation) never_raised (demo_run demo_completed [] [demo_mutation] [demo_mutation])
      (demo_run demo_completed [] [demo_mutation] [demo_mutation])" by (simp add: receipts_reach_def)
  from recorded_outcome_replayed [OF demo_reach this, of r demo_mutation True "\<lambda>k. Raised ''down''" 9] r1 r(2) show ?thesis
    by (simp add: demo_run_def)
qed

theorem receipts_owned_witness:
  "rc_status (new_receipt demo_mutation (execution_key id demo_mutation)) = Reserved \<and>
   receipt_step id (\<lambda>m. True) never_raised
     (demo_run (demo_receipts [new_receipt demo_mutation (execution_key id demo_mutation)]) [(demo_mutation, Marking)] [] [])
     (demo_run (amark_outcome_unknown (execution_key id demo_mutation) demo_mutation
        (demo_receipts [new_receipt demo_mutation (execution_key id demo_mutation)])) [] [] [])"
proof -
  let ?db = "demo_receipts [new_receipt demo_mutation (execution_key id demo_mutation)]"
  have step: "receipt_step id (\<lambda>m. True) never_raised (demo_run ?db [(demo_mutation, Marking)] [] [])
     (demo_run (amark_outcome_unknown (execution_key id demo_mutation) demo_mutation ?db) [] [] [])"
    using receipt_step.marks [of "demo_run ?db [(demo_mutation, Marking)] [] []" "[]" demo_mutation "[]" id "\<lambda>m. True" never_raised]
    by (simp add: demo_run_def)
  have "new_receipt demo_mutation (execution_key id demo_mutation) \<notin>
      set (rd_receipts (amark_outcome_unknown (execution_key id demo_mutation) demo_mutation ?db))"
    by code_simp
  with receipts_owned [OF step] step show ?thesis by (auto simp: demo_run_def demo_receipts_def)
qed

end
