(* ===== verification/ToolCalls.thy ===== *)
theory ToolCalls
  imports ToolAttempts ToolApproval MutationReceipts
begin

text \<open>
  A batch of tool calls, \<^verbatim>\<open>execute_tool_calls\<close> of \<^verbatim>\<open>ai/tool_execution.py\<close>: the checks before a call, the
  recovery of a tool the map does not have, the refresh after a search and the outputs and artifacts in call
  order; and the single call of \<^verbatim>\<open>ToolExecutionMiddleware\<close> around it. A tool returns a JSON value. What the
  tool manager, the catalogs and the widget store answer is an argument for each call of the batch, and so
  are the JSON writer and reader and the text a result is shown as. Renders, images, the mark of use
  of a deferred tool and the previews of large results are left out.
\<close>

section \<open>Widgets\<close>

definition WIDGET_ARTIFACT_TOOLS :: "string list" where
  "WIDGET_ARTIFACT_TOOLS = [''widget_create'', ''widget_update'', ''widget_get_state'']"

definition WIDGET_SESSION_BOUND_TOOLS :: "string list" where
  "WIDGET_SESSION_BOUND_TOOLS = [''widget_create'', ''session_list_widgets'']"

definition WIDGET_ID_SCOPED_TOOLS :: "string list" where
  "WIDGET_ID_SCOPED_TOOLS = [''widget_get_state'', ''widget_update'', ''widget_close'']"

definition SERVER_ONLY_WEB_TOOL_NAMES :: "string list" where
  "SERVER_ONLY_WEB_TOOL_NAMES = [''web_search'', ''web_open'']"

definition TOOL_LOADING_TOOLS :: "string list" where
  "TOOL_LOADING_TOOLS = [''tool_search'']"

definition bind_widget_session_args :: "string \<Rightarrow> meta_value \<Rightarrow> string option \<Rightarrow> meta_value" where
  "bind_widget_session_args name args conversation =
     (if name \<notin> set WIDGET_SESSION_BOUND_TOOLS then args
      else case (conversation, args) of
        (Some c, MDict d) \<Rightarrow>
          if c = [] \<or> map_of d ''session_id'' = Some (MStr c) then args
          else MDict (AList.update ''session_id'' (MStr c) d)
      | _ \<Rightarrow> args)"

text \<open>What the store says of a widget: it cannot answer, it has none, or the conversation that owns it.\<close>

datatype widget_lookup = StoreFails | NoWidget | WidgetOf string

definition foreign_widget_text :: "string \<Rightarrow> string" where
  "foreign_widget_text wid =
     ''Widget '' @ wid @ '' belongs to a different conversation and is not available here. Live widgets do not carry across conversations; build one in this conversation with widget_create.''"

definition widget_access_denied ::
  "(meta_value \<Rightarrow> string) \<Rightarrow> (string \<Rightarrow> widget_lookup) \<Rightarrow> string \<Rightarrow> meta_value \<Rightarrow> string option \<Rightarrow> string option" where
  "widget_access_denied show store name args conversation =
     (if name \<notin> set WIDGET_ID_SCOPED_TOOLS then None
      else case (conversation, args) of
        (Some c, MDict d) \<Rightarrow>
          (let wid = py_strip (meta_text_or show (meta_get d ''widget_id'') [])
           in if c = [] \<or> wid = [] then None
              else case store wid of
                WidgetOf owner \<Rightarrow> if owner = c then None else Some (foreign_widget_text wid)
              | _ \<Rightarrow> None)
      | _ \<Rightarrow> None)"

section \<open>Binding a tool the map does not have\<close>

text \<open>
  The filters an agent binds its tools through: its own, or the list of its settings, and the specification
  of a custom agent. \<open>ag_binds\<close>: it computes the tools of a turn itself.
\<close>

record tool_agent =
  ag_own_filter :: "(bound_tool \<Rightarrow> bool) option"
  ag_allowlist :: "string list"
  ag_spec :: "(bound_tool \<Rightarrow> bool) option"
  ag_binds :: bool

record batch_context =
  bc_search_enabled :: bool
  bc_policy :: approval_policy
  bc_agent :: "tool_agent option"
  bc_conversation :: "string option"
  bc_device :: "string option"
  bc_tool_scope :: "string option"

text \<open>
  What the rest of the system answers at one moment, with \<open>None\<close> for an exception: the tool manager with its
  tools and their servers, the tools an agent binds, the deferred tools loaded for it, the names of the
  loaded device tools, the catalog of the device, and the raw name and server behind an alias.
\<close>

datatype mcp_manager = ManagerFails | NoManager | Manager "bound_tool list option" "bound_tool \<Rightarrow> string option"

record tool_world =
  tw_manager :: mcp_manager
  tw_bound :: "bound_tool list option"
  tw_deferred :: "bound_tool list option"
  tw_loaded_client :: "string list option"
  tw_client_tools :: "bound_tool list option"
  tw_alias :: "string \<Rightarrow> (string option \<times> string option) option"
  tw_widgets :: "string \<Rightarrow> widget_lookup"

definition is_client_only_scope :: "string option \<Rightarrow> bool" where
  "is_client_only_scope scope = (case scope of None \<Rightarrow> False | Some s \<Rightarrow> lower (py_strip s) = ''client_only'')"

definition custom_agent :: "batch_context \<Rightarrow> bool" where
  "custom_agent cx = (case bc_agent cx of None \<Rightarrow> False | Some a \<Rightarrow> ag_spec a \<noteq> None \<and> ag_binds a)"

definition searching :: "batch_context \<Rightarrow> bool" where
  "searching cx \<longleftrightarrow> bc_search_enabled cx \<and> truthy_str (bc_conversation cx)"

fun add_missing :: "bound_tool list \<Rightarrow> tool_map \<Rightarrow> tool_map" where
  "add_missing [] tools = tools"
| "add_missing (t # ts) tools =
     add_missing ts (if bt_name t = [] \<or> map_of tools (bt_name t) \<noteq> None then tools else tools @ [(bt_name t, t)])"

definition manager_tools :: "mcp_manager \<Rightarrow> bound_tool list option" where
  "manager_tools m = (case m of ManagerFails \<Rightarrow> None | NoManager \<Rightarrow> Some [] | Manager ts f \<Rightarrow> ts)"

definition manager_up :: "mcp_manager \<Rightarrow> bool" where
  "manager_up m = (case m of ManagerFails \<Rightarrow> False | _ \<Rightarrow> True)"

definition refresh_tool_map :: "batch_context \<Rightarrow> tool_world \<Rightarrow> tool_map \<Rightarrow> tool_map" where
  "refresh_tool_map cx w tools =
     (if \<not> searching cx \<or> \<not> manager_up (tw_manager w) then tools
      else if custom_agent cx then (case tw_bound w of None \<Rightarrow> tools | Some ts \<Rightarrow> add_missing ts tools)
      else if manager_tools (tw_manager w) = None then tools
      else case (if is_client_only_scope (bc_tool_scope cx) then Some [] else tw_deferred w) of
        None \<Rightarrow> tools
      | Some ds \<Rightarrow>
          (case tw_loaded_client w of
             None \<Rightarrow> add_missing ds tools
           | Some names \<Rightarrow>
               if names = [] \<or> \<not> truthy_str (bc_device cx) then add_missing ds tools
               else case tw_client_tools w of
                 None \<Rightarrow> add_missing ds tools
               | Some cs \<Rightarrow> add_missing (filter (\<lambda>t. bt_name t \<in> set names) cs) (add_missing ds tools)))"

definition tool_with_call_name :: "bound_tool \<Rightarrow> string \<Rightarrow> bound_tool" where
  "tool_with_call_name t name =
     (if name = [] \<or> bt_name t = name then t
      else \<lparr>bt_metadata = Some (AList.update ''call_name'' (MStr name)
              (AList.update ''aliased_from_tool_name'' (MStr (bt_name t)) (tool_metadata t))),
            bt_name = name\<rparr>)"

definition recover_aliased_tool :: "tool_world \<Rightarrow> string \<Rightarrow> bound_tool option" where
  "recover_aliased_tool w name =
     (case (tw_alias w name, tw_manager w) of
        (Some (Some raw, Some server), Manager (Some ts) server_of) \<Rightarrow>
          if raw = [] \<or> server = [] then None
          else map_option (\<lambda>t. tool_with_call_name t name) (find (\<lambda>t. bt_name t = raw \<and> server_of t = Some server) ts)
      | _ \<Rightarrow> None)"

definition agent_permits_server_tool :: "tool_agent \<Rightarrow> (bound_tool \<Rightarrow> string option) \<Rightarrow> bound_tool \<Rightarrow> bool" where
  "agent_permits_server_tool a server_of t \<longleftrightarrow>
     (case ag_own_filter a of
        Some f \<Rightarrow> f t
      | None \<Rightarrow> ag_allowlist a = [] \<or> bt_name t \<in> set (ag_allowlist a) \<or>
          (case server_of t of None \<Rightarrow> False | Some s \<Rightarrow> s \<in> set (ag_allowlist a))) \<and>
     (case ag_spec a of None \<Rightarrow> True | Some keep \<Rightarrow> keep t)"

definition recover_raw_server_tool :: "batch_context \<Rightarrow> tool_world \<Rightarrow> string \<Rightarrow> bound_tool option" where
  "recover_raw_server_tool cx w name =
     (case (bc_agent cx, tw_manager w) of
        (Some a, Manager (Some ts) server_of) \<Rightarrow>
          find (\<lambda>t. bt_name t = name \<and> agent_permits_server_tool a server_of t) ts
      | _ \<Rightarrow> None)"

definition recover_client_tool :: "batch_context \<Rightarrow> tool_world \<Rightarrow> string \<Rightarrow> bound_tool option" where
  "recover_client_tool cx w name =
     (case (if custom_agent cx then tw_bound w else tw_client_tools w) of
        None \<Rightarrow> None
      | Some ts \<Rightarrow> find (\<lambda>t. bt_name t = name) ts)"

definition rebind_tool :: "batch_context \<Rightarrow> tool_world \<Rightarrow> string \<Rightarrow> bound_tool option" where
  "rebind_tool cx w name =
     (if \<not> prefix CLIENT_TOOL_PREFIX name then
        (if is_client_only_scope (bc_tool_scope cx) then None
         else case recover_aliased_tool w name of
           Some t \<Rightarrow> Some t
         | None \<Rightarrow> if searching cx then None else recover_raw_server_tool cx w name)
      else if \<not> truthy_str (bc_device cx) then None
      else recover_client_tool cx w name)"

definition recover_missing_tool ::
  "batch_context \<Rightarrow> tool_world \<Rightarrow> string \<Rightarrow> tool_map \<Rightarrow> bound_tool option \<times> tool_map" where
  "recover_missing_tool cx w name tools =
     (if name = [] then (None, tools)
      else let tools' = (if searching cx then refresh_tool_map cx w tools else tools)
           in case (if searching cx then map_of tools' name else None) of
                Some t \<Rightarrow> (Some t, tools')
              | None \<Rightarrow>
                  (case rebind_tool cx w name of
                     None \<Rightarrow> (None, tools')
                   | Some t \<Rightarrow> (Some t, AList.update name t tools')))"

definition manager_servers :: "mcp_manager \<Rightarrow> (bound_tool \<Rightarrow> string option) option" where
  "manager_servers m = (case m of Manager ts f \<Rightarrow> Some f | _ \<Rightarrow> None)"

text \<open>The tool, and whether it needs an approval nobody was asked for.\<close>

definition recover_with_approval_check ::
  "batch_context \<Rightarrow> tool_world \<Rightarrow> model_call \<Rightarrow> tool_map \<Rightarrow> (bound_tool option \<times> bool) \<times> tool_map" where
  "recover_with_approval_check cx w c tools =
     (case recover_missing_tool cx w (mc_name c) tools of
        (None, tools') \<Rightarrow> ((None, False), tools')
      | (Some t, tools') \<Rightarrow>
          ((Some t, \<not> call_requires_approval (bc_policy cx) None tools c \<and>
              call_requires_approval (bc_policy cx) (manager_servers (tw_manager w)) tools' c), tools'))"

section \<open>The checks before a call\<close>

record call_refusal =
  rf_summary :: error_summary
  rf_exception :: tool_exception

definition refusal :: "tool_error_kind \<Rightarrow> string \<Rightarrow> tool_exception \<Rightarrow> call_refusal" where
  "refusal k message exc =
     \<lparr>rf_summary = \<lparr>su_error_type = k, su_failure_retryable = False, su_message = message, su_attempts = 1\<rparr>,
      rf_exception = exc\<rparr>"

definition is_client_tool :: "bound_tool \<Rightarrow> bool" where
  "is_client_tool t \<longleftrightarrow>
     meta_truthy (meta_get (tool_metadata t) ''is_client_tool'') \<or>
     meta_truthy (meta_get (tool_metadata t) ''client_runtime'') \<or> prefix CLIENT_TOOL_PREFIX (bt_name t)"

definition client_device_error ::
  "(meta_value \<Rightarrow> string) \<Rightarrow> bound_tool \<Rightarrow> string option \<Rightarrow> string \<Rightarrow> string option" where
  "client_device_error show t device name =
     (if \<not> is_client_tool t \<or> \<not> meta_truthy (meta_get (tool_metadata t) ''device_id'') then None
      else if \<not> truthy_str device then
        Some (''Client tool '' @ [CHR 0x27] @ name @ [CHR 0x27] @ '' requires a device context but none was provided. Ensure the request includes device_id.'')
      else if device \<noteq> Some (meta_text show (meta_get (tool_metadata t) ''device_id'')) then
        Some (''Client tool '' @ [CHR 0x27] @ name @ [CHR 0x27] @ '' is bound to a different device. This tool cannot be executed from the current device session.'')
      else None)"

definition missing_name_refusal :: call_refusal where
  "missing_name_refusal = refusal KArgument ''Tool name is missing.'' (Plain IsValueError ''Tool name is missing.'')"

definition unbound_text :: "string \<Rightarrow> string" where
  "unbound_text name =
     (if prefix CLIENT_TOOL_PREFIX name
      then ''Client tool '' @ name @ '' is not available for the current device session.''
      else ''Tool '' @ name @ '' is not currently bound.'')"

definition unbound_tool_refusal :: "string \<Rightarrow> call_refusal" where
  "unbound_tool_refusal name = refusal KNotFound (unbound_text name) (Plain IsOther (unbound_text name))"

definition recovered_approval_text :: "string \<Rightarrow> string" where
  "recovered_approval_text name =
     ''Tool '' @ name @ '' requires the user'' @ [CHR 0x27] @ ''s approval, and approval was not requested for this call. It was not run.''"

definition resolve_call_tool ::
  "batch_context \<Rightarrow> tool_world \<Rightarrow> model_call \<Rightarrow> tool_map \<Rightarrow> (call_refusal + bound_tool) \<times> tool_map" where
  "resolve_call_tool cx w c tools =
     (case map_of tools (mc_name c) of
        Some t \<Rightarrow> (Inr t, tools)
      | None \<Rightarrow>
          (case recover_with_approval_check cx w c tools of
             ((None, unasked), tools') \<Rightarrow> (Inl (unbound_tool_refusal (mc_name c)), tools')
           | ((Some t, unasked), tools') \<Rightarrow>
               if unasked then
                 (Inl (refusal KPermission (recovered_approval_text (mc_name c))
                    (Plain IsPermission (recovered_approval_text (mc_name c)))), tools')
               else (Inr t, tools')))"

definition client_scope_refusal :: "string \<Rightarrow> batch_context \<Rightarrow> call_refusal option" where
  "client_scope_refusal name cx =
     (let message = ''Server web access is unavailable in client-only tool scope.''
      in if is_client_only_scope (bc_tool_scope cx) \<and> name \<in> set SERVER_ONLY_WEB_TOOL_NAMES
         then Some (refusal KPermission message (Plain IsPermission message)) else None)"

definition device_binding_refusal ::
  "(meta_value \<Rightarrow> string) \<Rightarrow> bound_tool \<Rightarrow> string \<Rightarrow> batch_context \<Rightarrow> call_refusal option" where
  "device_binding_refusal show t name cx =
     map_option (\<lambda>e. refusal KPermission
         (''Client tool '' @ name @ '' cannot execute from the current device session.'') (Plain IsPermission e))
       (client_device_error show t (bc_device cx) name)"

text \<open>The first check that refuses the call, or the tool to run, and the map as recovery left it.\<close>

definition pre_check_tool_call ::
  "(meta_value \<Rightarrow> string) \<Rightarrow> batch_context \<Rightarrow> tool_world \<Rightarrow> model_call \<Rightarrow> meta_value \<Rightarrow> tool_map
     \<Rightarrow> (call_refusal + bound_tool) \<times> tool_map" where
  "pre_check_tool_call show cx w c args tools =
     (case widget_access_denied show (tw_widgets w) (mc_name c) args (bc_conversation cx) of
        Some message \<Rightarrow> (Inl (refusal KPermission message (Plain IsPermission message)), tools)
      | None \<Rightarrow>
          if mc_name c = [] \<or> mc_name c = ''unknown'' then (Inl missing_name_refusal, tools)
          else case resolve_call_tool cx w c tools of
            (Inl e, tools') \<Rightarrow> (Inl e, tools')
          | (Inr t, tools') \<Rightarrow>
              (case client_scope_refusal (mc_name c) cx of
                 Some e \<Rightarrow> (Inl e, tools')
               | None \<Rightarrow>
                   (case device_binding_refusal show t (mc_name c) cx of
                      Some e \<Rightarrow> (Inl e, tools')
                    | None \<Rightarrow> (Inr t, tools'))))"

section \<open>Outputs and artifacts\<close>

text \<open>
  The writers and readers of values: \<^verbatim>\<open>str\<close>, the JSON of an error and of a value, \<^verbatim>\<open>json.loads\<close>, the text
  of \<^verbatim>\<open>int\<close>'s exception, the text of a result for the model, the public fields of an image search, and the
  cap on an artifact's text.
\<close>

record renderer =
  re_show :: "meta_value \<Rightarrow> string"
  re_error :: "error_content \<Rightarrow> string"
  re_dumps :: "meta_value \<Rightarrow> string"
  re_loads :: "string \<Rightarrow> meta_value option"
  re_int_error :: "meta_value \<Rightarrow> string"
  re_shown :: "string \<Rightarrow> meta_value \<Rightarrow> string option \<Rightarrow> string"
  re_public :: "meta_value \<Rightarrow> meta_value"
  re_max_chars :: nat

record call_output =
  co_id :: string
  co_name :: string
  co_content :: string
  co_preserved :: bool

record call_artifact =
  ca_id :: string
  ca_tool :: string
  ca_args :: meta_value
  ca_output :: string
  ca_error :: "string option"
  ca_status :: string
  ca_outcome_unknown :: bool

definition error_kind_value :: "tool_error_kind \<Rightarrow> string" where
  "error_kind_value k = (case k of
     KTimeout \<Rightarrow> ''timeout'' | KSession \<Rightarrow> ''session'' | KArgument \<Rightarrow> ''argument'' | KPermission \<Rightarrow> ''permission''
   | KNotFound \<Rightarrow> ''not_found'' | KNetwork \<Rightarrow> ''network'' | KValidation \<Rightarrow> ''validation'' | KUnknown \<Rightarrow> ''unknown''
   | KConfiguration \<Rightarrow> ''configuration'')"

definition text_part :: "renderer \<Rightarrow> meta_value \<Rightarrow> string option" where
  "text_part r block =
     (case block of
        MDict b \<Rightarrow>
          (let text = py_strip (meta_text_or (re_show r) (meta_get b ''text'') [])
           in if lower (meta_text_or (re_show r) (meta_get b ''type'') []) = ''text'' \<and> text \<noteq> [] then Some text else None)
      | _ \<Rightarrow> None)"

definition structured_tool_error :: "renderer \<Rightarrow> meta_value \<Rightarrow> string option" where
  "structured_tool_error r v =
     (case v of
        MDict d \<Rightarrow>
          (let is_error = (map_of d ''isError'' = Some (MBool True) \<or> map_of d ''is_error'' = Some (MBool True));
               e = meta_get d ''error''; absent = (e \<in> {MNull, MStr [], MBool False, MInt 0, MFloat 0})
           in if absent \<and> \<not> is_error then None
              else if \<not> absent then
                Some (case e of
                    MStr s \<Rightarrow> if py_strip s = [] then ''Tool execution failed'' else py_strip s
                  | _ \<Rightarrow> re_dumps r e)
              else (let content = meta_get d ''content'';
                        blocks = (case content of MList xs \<Rightarrow> xs | _ \<Rightarrow> [content]);
                        text = join_on (CHR 0x0A) (List.map_filter (text_part r) blocks)
                    in Some (if text \<noteq> [] then text
                             else meta_text_or (re_show r) (meta_get d ''message'') ''Tool execution failed'')))
      | _ \<Rightarrow> None)"

definition compact_widget_artifact_output :: "renderer \<Rightarrow> string \<Rightarrow> string" where
  "compact_widget_artifact_output r text =
     (case re_loads r text of
        Some (MDict d) \<Rightarrow>
          if meta_truthy (meta_get d ''widget_id'') then
            re_dumps r (MDict
              [(''widget_id'', meta_get d ''widget_id''),
               (''session_id'', (case map_of d ''session_id'' of None \<Rightarrow> MStr [] | Some v \<Rightarrow> v)),
               (''title'', meta_get d ''title''),
               (''status'', (case map_of d ''status'' of None \<Rightarrow> MStr ''active'' | Some v \<Rightarrow> v)),
               (''version'', (case map_of d ''version'' of None \<Rightarrow> MInt 1 | Some v \<Rightarrow> v))])
          else text
      | _ \<Rightarrow> text)"

definition build_tool_artifact ::
  "renderer \<Rightarrow> string \<Rightarrow> string \<Rightarrow> meta_value \<Rightarrow> string \<Rightarrow> string option \<Rightarrow> call_artifact" where
  "build_tool_artifact r call_id name args text err =
     (let compact = (if name \<in> set WIDGET_ARTIFACT_TOOLS then compact_widget_artifact_output r text else text)
      in \<lparr>ca_id = call_id, ca_tool = name, ca_args = args,
          ca_output = (if 0 < re_max_chars r \<and> re_max_chars r < length compact then take (re_max_chars r) compact
                       else compact),
          ca_error = err, ca_status = (if truthy_str err then ''error'' else ''success''),
          ca_outcome_unknown = False\<rparr>)"

text \<open>
  The mount record of a widget, which fails on a version \<^verbatim>\<open>int\<close> refuses; everything else about it is display.
\<close>

definition int_refuses :: "meta_value \<Rightarrow> bool" where
  "int_refuses v = (case v of MStr s \<Rightarrow> s \<noteq> [] \<and> py_int s = None | MList xs \<Rightarrow> xs \<noteq> [] | MDict d \<Rightarrow> d \<noteq> [] | _ \<Rightarrow> False)"

definition live_widget_failure :: "renderer \<Rightarrow> string \<Rightarrow> string \<Rightarrow> string option" where
  "live_widget_failure r name text =
     (if name \<notin> set WIDGET_ARTIFACT_TOOLS \<or> text = [] then None
      else case re_loads r text of
        Some (MDict d) \<Rightarrow>
          if meta_truthy (meta_get d ''widget_id'') \<and> int_refuses (meta_get d ''version'')
          then Some (re_int_error r (meta_get d ''version'')) else None
      | _ \<Rightarrow> None)"

record ran_call =
  xc_position :: nat
  xc_call :: model_call
  xc_tool :: bound_tool
  xc_before :: tool_map
  xc_after :: tool_map

text \<open>What the batch accumulates; \<open>tb_ran\<close> is a ghost, the tools invoked with the map before and after their check.\<close>

record tool_batch =
  tb_outputs :: "call_output list"
  tb_artifacts :: "call_artifact list"
  tb_map :: tool_map
  tb_ran :: "ran_call list"

definition append_error ::
  "renderer \<Rightarrow> string \<Rightarrow> string \<Rightarrow> meta_value \<Rightarrow> error_content \<Rightarrow> error_artifact \<Rightarrow> tool_batch \<Rightarrow> tool_batch" where
  "append_error r call_id name args content detail b =
     b\<lparr>tb_outputs := tb_outputs b @
         [\<lparr>co_id = call_id, co_name = name, co_content = re_error r content,
           co_preserved = ea_skill_terminal_error detail\<rparr>],
       tb_artifacts := tb_artifacts b @
         [(build_tool_artifact r call_id name args (re_error r content)
             (Some (if ea_diagnostic detail = [] then error_kind_value (ea_error_type detail) else ea_diagnostic detail)))
           \<lparr>ca_tool := ea_tool detail, ca_status := ''error'', ca_outcome_unknown := ea_outcome_unknown detail\<rparr>]\<rparr>"

definition append_refusal ::
  "renderer \<Rightarrow> string \<Rightarrow> string \<Rightarrow> meta_value \<Rightarrow> call_refusal \<Rightarrow> tool_batch \<Rightarrow> tool_batch" where
  "append_refusal r call_id name args e b =
     (case build_tool_error_payloads (re_show r) (rf_summary e) name (rf_exception e) False of
        (content, detail) \<Rightarrow> append_error r call_id name args content detail b)"

definition append_exception :: "renderer \<Rightarrow> string \<Rightarrow> string \<Rightarrow> meta_value \<Rightarrow> string \<Rightarrow> tool_batch \<Rightarrow> tool_batch" where
  "append_exception r call_id name args e b =
     (let text = re_shown r name (MStr (''Error: '' @ e)) (Some e)
      in b\<lparr>tb_outputs := tb_outputs b @ [\<lparr>co_id = call_id, co_name = name, co_content = text, co_preserved = False\<rparr>],
           tb_artifacts := tb_artifacts b @ [build_tool_artifact r call_id name args text (Some e)]\<rparr>)"

text \<open>The result is an output first; when its mount record fails, the exception is left and no artifact.\<close>

definition append_result ::
  "renderer \<Rightarrow> string \<Rightarrow> string \<Rightarrow> string \<Rightarrow> meta_value \<Rightarrow> meta_value \<Rightarrow> tool_batch \<Rightarrow> string option \<times> tool_batch" where
  "append_result r canonical call_id name args v b =
     (let public = (if canonical = ''brave_image_search'' then re_public r v else v);
          err = structured_tool_error r public; text = re_shown r name public err;
          b1 = b\<lparr>tb_outputs := tb_outputs b @
                 [\<lparr>co_id = call_id, co_name = name, co_content = text, co_preserved = False\<rparr>]\<rparr>
      in case live_widget_failure r name text of
           Some e \<Rightarrow> (Some e, b1)
         | None \<Rightarrow> (None, b1\<lparr>tb_artifacts := tb_artifacts b1 @ [build_tool_artifact r call_id name args text err]\<rparr>))"

section \<open>The batch\<close>

text \<open>
  \<open>rt_before\<close> and \<open>rt_after\<close> are the world at the check of the n-th call and after it, \<open>rt_env\<close> how its attempts
  end. A call leaves the batch with the control flow of the graph or a cancellation, or hangs.
\<close>

record batch_runtime =
  rt_renderer :: renderer
  rt_seconds :: "rat \<Rightarrow> string"
  rt_read :: "metadata \<Rightarrow> internal_policy option"
  rt_asynchronous :: "bound_tool \<Rightarrow> bool"
  rt_settings :: policy_settings
  rt_context :: batch_context
  rt_before :: "nat \<Rightarrow> tool_world"
  rt_after :: "nat \<Rightarrow> tool_world"
  rt_env :: "nat \<Rightarrow> meta_value call_env"

datatype departure = LeftBy tool_exception | LeftCancelled | LeftHanging

datatype batch_end = Going tool_batch | Left departure tool_batch

definition canonical_tool_name :: "renderer \<Rightarrow> bound_tool \<Rightarrow> string \<Rightarrow> string" where
  "canonical_tool_name r t name =
     (case resolve_tool_identity (re_show r) t name of Inl e \<Rightarrow> name | Inr i \<Rightarrow> ti_source_tool_name i)"

definition exhausted_text :: string where
  "exhausted_text = ''Tool execution attempt loop ended without an outcome''"

definition invocation_kind_text :: string where
  "invocation_kind_text = ''Unknown tool invocation_kind''"

definition finish_result ::
  "batch_runtime \<Rightarrow> nat \<Rightarrow> model_call \<Rightarrow> meta_value \<Rightarrow> bound_tool \<Rightarrow> meta_value \<Rightarrow> tool_batch \<Rightarrow> tool_batch" where
  "finish_result rt n c args t v b =
     (case append_result (rt_renderer rt) (canonical_tool_name (rt_renderer rt) t (mc_name c)) (mc_id c) (mc_name c) args v b of
        (Some e, b') \<Rightarrow> append_exception (rt_renderer rt) (mc_id c) (mc_name c) args e b'
      | (None, b') \<Rightarrow>
          if mc_name c \<in> set TOOL_LOADING_TOOLS \<and> bc_search_enabled (rt_context rt)
          then b'\<lparr>tb_map := refresh_tool_map (rt_context rt) (rt_after rt n) (tb_map b')\<rparr> else b')"

definition finish_call ::
  "batch_runtime \<Rightarrow> nat \<Rightarrow> model_call \<Rightarrow> meta_value \<Rightarrow> bound_tool \<Rightarrow> meta_value call_end \<Rightarrow> tool_batch \<Rightarrow> batch_end" where
  "finish_call rt n c args t e b =
     (case e of
        Value v \<Rightarrow> Going (finish_result rt n c args t v b)
      | ToolAttempts.Failed content detail \<Rightarrow>
          Going (append_error (rt_renderer rt) (mc_id c) (mc_name c) args content detail b)
      | Propagates exc \<Rightarrow> Left (LeftBy exc) b
      | Aborted \<Rightarrow> Left LeftCancelled b
      | NeverEnds \<Rightarrow> Left LeftHanging b
      | Exhausted \<Rightarrow> Going (append_exception (rt_renderer rt) (mc_id c) (mc_name c) args exhausted_text b)
      | BadInvocationKind \<Rightarrow>
          Going (append_exception (rt_renderer rt) (mc_id c) (mc_name c) args invocation_kind_text b))"

definition invoked ::
  "batch_runtime \<Rightarrow> nat \<Rightarrow> bound_tool \<Rightarrow> string \<Rightarrow> tool_map \<Rightarrow> meta_value call_result" where
  "invoked rt n t name tools =
     invoke_tool_with_policy (re_show (rt_renderer rt)) (rt_seconds rt) (rt_read rt) (rt_asynchronous rt)
       (rt_settings rt) (rt_env rt n) t name tools"

definition bound_args :: "batch_runtime \<Rightarrow> model_call \<Rightarrow> meta_value" where
  "bound_args rt c = bind_widget_session_args (mc_name c) (mc_args c) (bc_conversation (rt_context rt))"

definition run_call :: "batch_runtime \<Rightarrow> nat \<Rightarrow> model_call \<Rightarrow> tool_batch \<Rightarrow> batch_end" where
  "run_call rt n c b =
     (case pre_check_tool_call (re_show (rt_renderer rt)) (rt_context rt) (rt_before rt n) c (bound_args rt c) (tb_map b) of
        (Inl e, tools) \<Rightarrow>
          Going (append_refusal (rt_renderer rt) (mc_id c) (if mc_name c = [] then ''unknown'' else mc_name c)
            (bound_args rt c) e (b\<lparr>tb_map := tools\<rparr>))
      | (Inr t, tools) \<Rightarrow>
          finish_call rt n c (bound_args rt c) t (cr_end (invoked rt n t (mc_name c) tools))
            (b\<lparr>tb_map := cr_tool_map (invoked rt n t (mc_name c) tools),
               tb_ran := tb_ran b @
                 [\<lparr>xc_position = n, xc_call = c, xc_tool = t, xc_before = tb_map b, xc_after = tools\<rparr>]\<rparr>))"

fun run_calls :: "batch_runtime \<Rightarrow> nat \<Rightarrow> model_call list \<Rightarrow> tool_batch \<Rightarrow> batch_end" where
  "run_calls rt n [] b = Going b"
| "run_calls rt n (c # cs) b =
     (case run_call rt n c b of
        Going b' \<Rightarrow> run_calls rt (Suc n) cs b'
      | Left d b' \<Rightarrow> Left d b')"

definition execute_tool_calls :: "batch_runtime \<Rightarrow> model_call list \<Rightarrow> tool_map \<Rightarrow> batch_end" where
  "execute_tool_calls rt calls tools =
     run_calls rt 0 calls \<lparr>tb_outputs = [], tb_artifacts = [], tb_map = tools, tb_ran = []\<rparr>"

section \<open>Around one call\<close>

text \<open>
  \<^verbatim>\<open>execution_awrap_tool_call\<close>: a control tool is left to the framework, a mutation runs under a receipt, and everything else
  as it is. \<open>OutOfLoop\<close> is an exception that leaves the call.
\<close>

datatype wrapped = ByFramework | Answered tool_message bool | OutOfLoop

definition returns_control_command :: "bound_tool option \<Rightarrow> bool" where
  "returns_control_command t =
     (case t of None \<Rightarrow> False | Some t \<Rightarrow> meta_truthy (meta_get (tool_metadata t) ''returns_control_command''))"

definition provider_idempotency :: "tool_map \<Rightarrow> string \<Rightarrow> bool" where
  "provider_idempotency bound name =
     (case map_of bound name of None \<Rightarrow> False | Some t \<Rightarrow> meta_truthy (meta_get (tool_metadata t) ''provider_idempotency''))"

definition run_message :: "model_call \<Rightarrow> tool_batch \<Rightarrow> tool_message" where
  "run_message c b =
     (let nonempty = (\<lambda>s otherwise. if s = [] then otherwise else s);
          error = list_ex (\<lambda>a. ca_status a = ''error'') (tb_artifacts b);
          name = nonempty (mc_name c) ''tool''
      in case tb_outputs b of
           [] \<Rightarrow> \<lparr>tm_content = [], tm_tool_call_id = mc_id c, tm_name = name, tm_error = error\<rparr>
         | x # xs \<Rightarrow>
             \<lparr>tm_content = co_content x, tm_tool_call_id = nonempty (co_id x) (mc_id c),
              tm_name = nonempty (co_name x) name, tm_error = error\<rparr>)"

definition outcome_unknown :: "tool_batch \<Rightarrow> bool" where
  "outcome_unknown b = list_ex ca_outcome_unknown (tb_artifacts b)"

definition run_outcome :: "model_call \<Rightarrow> batch_end \<Rightarrow> string option \<Rightarrow> call_outcome" where
  "run_outcome c e key =
     (case e of
        Going b \<Rightarrow> invoke_tool (tm_content (run_message c b), tm_error (run_message c b), outcome_unknown b) key
      | Left d b \<Rightarrow> Bubbled)"

definition call_scope :: "batch_runtime \<Rightarrow> call_context \<Rightarrow> tool_map \<Rightarrow> model_call \<Rightarrow> tool_map \<Rightarrow> mutation_scope option" where
  "call_scope rt cx bound c tools =
     (let i = resolve_call_identity (manager_servers (tw_manager (rt_before rt 0))) tools (mc_name c)
      in mutation_scope_of cx (ci_mutation i) (mc_id c)
           (case ci_qualified_tool_id i of Some q \<Rightarrow> if q = [] then ci_name i else q | None \<Rightarrow> ci_name i)
           (provider_idempotency bound (mc_name c)))"

definition execution_awrap_tool_call ::
  "batch_runtime \<Rightarrow> (string \<Rightarrow> string) \<Rightarrow> string \<Rightarrow> call_context \<Rightarrow> tool_map \<Rightarrow> int \<Rightarrow> bool \<Rightarrow> model_call \<Rightarrow> tool_map
     \<Rightarrow> receipt_db \<Rightarrow> wrapped \<times> receipt_db" where
  "execution_awrap_tool_call rt digest unknown_text cx bound now flag c tools db =
     (if returns_control_command (map_of tools (mc_name c)) then (ByFramework, db)
      else case call_scope rt cx bound c tools of
        None \<Rightarrow>
          (case execute_tool_calls rt [c] tools of
             Going b \<Rightarrow> (Answered (run_message c b) flag, db)
           | Left d b \<Rightarrow> (OutOfLoop, db))
      | Some m \<Rightarrow>
          (case execute_mutation digest m True (run_outcome c (execute_tool_calls rt [c] tools)) now db of
             (r, called, db') \<Rightarrow>
               (case answer_tool_call unknown_text (mc_id c) (if mc_name c = [] then ''tool'' else mc_name c) r flag of
                  Some (m, flag') \<Rightarrow> (Answered m flag', db')
                | None \<Rightarrow> (OutOfLoop, db'))))"

section \<open>The round of the retrieval agent\<close>

text \<open>The calls the policy gates are refused in band, the others run as one batch under the same policy.\<close>

definition split_gated_calls ::
  "approval_policy \<Rightarrow> (bound_tool \<Rightarrow> string option) option \<Rightarrow> tool_map \<Rightarrow> model_call list \<Rightarrow> model_call list \<times> model_call list" where
  "split_gated_calls p manager tools calls =
     (let gated = calls_requiring_approval p manager tools calls
      in (filter (\<lambda>c. mc_id c \<notin> set gated) calls, filter (\<lambda>c. mc_id c \<in> set gated) calls))"

definition rag_tool_batch :: "batch_runtime \<Rightarrow> model_call list \<Rightarrow> tool_map \<Rightarrow> batch_end" where
  "rag_tool_batch rt calls tools =
     execute_tool_calls rt
       (fst (split_gated_calls (bc_policy (rt_context rt)) (manager_servers (tw_manager (rt_before rt 0))) tools calls)) tools"

section \<open>Answers\<close>

definition batch_of :: "batch_end \<Rightarrow> tool_batch" where
  "batch_of e = (case e of Going b \<Rightarrow> b | Left d b \<Rightarrow> b)"

lemma batch_of_simps [simp]: "batch_of (Going b) = b" "batch_of (Left d b) = b"
  by (simp_all add: batch_of_def)

text \<open>What a step adds: artifacts and outputs of one call, errors unless it ran.\<close>

lemma appended_ids [simp]:
  "ca_id (build_tool_artifact r i name args text err) = i"
  "ca_status (build_tool_artifact r i name args text err) = (if truthy_str err then ''error'' else ''success'')"
  by (simp_all add: build_tool_artifact_def Let_def)

definition answers :: "string \<Rightarrow> bool \<Rightarrow> tool_batch \<Rightarrow> tool_batch \<Rightarrow> bool" where
  "answers i once b b' \<longleftrightarrow>
     map ca_id (tb_artifacts b') = map ca_id (tb_artifacts b) @ [i] \<and>
     (once \<longrightarrow> map co_id (tb_outputs b') = map co_id (tb_outputs b) @ [i])"

lemma answers_error: "answers i once b (append_error r i name args content detail b)"
  by (simp add: answers_def append_error_def)

lemma answers_refusal: "answers i once b (append_refusal r i name args e b)"
  by (simp add: append_refusal_def answers_error split: prod.split)

lemma answers_exception: "answers i once b (append_exception r i name args e b)"
  by (simp add: answers_def append_exception_def Let_def)

lemma live_widget_other: "name \<notin> set WIDGET_ARTIFACT_TOOLS \<Longrightarrow> live_widget_failure r name text = None"
  by (simp add: live_widget_failure_def)

lemma answers_result:
  "answers (mc_id c) (mc_name c \<notin> set WIDGET_ARTIFACT_TOOLS) b (finish_result rt n c args t v b)"
proof (cases "append_result (rt_renderer rt) (canonical_tool_name (rt_renderer rt) t (mc_name c)) (mc_id c) (mc_name c) args v b")
  case (Pair failure b')
  then show ?thesis
    by (auto simp: finish_result_def append_result_def answers_def append_exception_def live_widget_other Let_def
        split: option.splits)
qed

lemma finish_answers:
  assumes "finish_call rt n c args t e b = Going b'"
  shows "answers (mc_id c) (mc_name c \<notin> set WIDGET_ARTIFACT_TOOLS) b b'"
  using assms answers_result
  by (auto simp: finish_call_def answers_error answers_exception split: call_end.splits)

lemma answers_from:
  "answers i once b b' \<Longrightarrow> tb_artifacts b = tb_artifacts b0 \<Longrightarrow> tb_outputs b = tb_outputs b0 \<Longrightarrow> answers i once b0 b'"
  by (simp add: answers_def)

lemma run_call_answers:
  assumes "run_call rt n c b = Going b'"
  shows "answers (mc_id c) (mc_name c \<notin> set WIDGET_ARTIFACT_TOOLS) b b'"
  using assms
  by (auto simp: run_call_def intro!: answers_from [OF answers_refusal] answers_from [OF finish_answers]
      split: prod.splits sum.splits)

lemma run_calls_answers:
  assumes "run_calls rt n calls b = Going b'"
  shows "map ca_id (tb_artifacts b') = map ca_id (tb_artifacts b) @ map mc_id calls \<and>
    ((\<forall>c \<in> set calls. mc_name c \<notin> set WIDGET_ARTIFACT_TOOLS) \<longrightarrow>
       map co_id (tb_outputs b') = map co_id (tb_outputs b) @ map mc_id calls)"
  using assms
proof (induction calls arbitrary: n b)
  case (Cons c cs)
  from Cons.prems obtain b1 where "run_call rt n c b = Going b1" and "run_calls rt (Suc n) cs b1 = Going b'"
    by (auto split: batch_end.splits)
  from run_call_answers [OF this(1)] Cons.IH [OF this(2)] show ?case by (simp add: answers_def)
qed simp

text \<open>
  A batch that returns answers every call in order: one artifact each, and one output each as long as none of
  them opens or changes a widget, whose mount record may fail to read after the output.
\<close>

theorem calls_answered_in_order:
  assumes "execute_tool_calls rt calls tools = Going b"
  shows "map ca_id (tb_artifacts b) = map mc_id calls \<and>
    ((\<forall>c \<in> set calls. mc_name c \<notin> set WIDGET_ARTIFACT_TOOLS) \<longrightarrow> map co_id (tb_outputs b) = map mc_id calls)"
  using run_calls_answers [OF assms [unfolded execute_tool_calls_def]] by simp

section \<open>What runs\<close>

text \<open>The laws of one call that ran.\<close>

definition found_or_asked :: "batch_runtime \<Rightarrow> ran_call \<Rightarrow> bool" where
  "found_or_asked rt x \<longleftrightarrow>
     (let name = mc_name (xc_call x); p = bc_policy (rt_context rt);
          servers = manager_servers (tw_manager (rt_before rt (xc_position x)))
      in if map_of (xc_before x) name \<noteq> None
         then map_of (xc_before x) name = Some (xc_tool x) \<and> xc_after x = xc_before x
         else map_of (xc_after x) name = Some (xc_tool x) \<and>
           (call_requires_approval p None (xc_before x) (xc_call x) \<or>
            \<not> call_requires_approval p servers (xc_after x) (xc_call x)))"

definition checked_call :: "batch_runtime \<Rightarrow> ran_call \<Rightarrow> bool" where
  "checked_call rt x \<longleftrightarrow>
     (let c = xc_call x; cx = rt_context rt; show = re_show (rt_renderer rt)
      in mc_name c \<notin> {[], ''unknown''} \<and>
         widget_access_denied show (tw_widgets (rt_before rt (xc_position x))) (mc_name c) (bound_args rt c)
           (bc_conversation cx) = None \<and>
         client_scope_refusal (mc_name c) cx = None \<and>
         client_device_error show (xc_tool x) (bc_device cx) (mc_name c) = None)"

lemma recovered_on_map:
  "recover_missing_tool cx w name tools = (Some t, tools') \<Longrightarrow> map_of tools' name = Some t"
  by (auto simp: recover_missing_tool_def Let_def update_conv' split: if_splits option.splits)

lemma resolved_tool:
  assumes "resolve_call_tool cx w c tools = (Inr t, tools')"
  shows "if map_of tools (mc_name c) \<noteq> None then map_of tools (mc_name c) = Some t \<and> tools' = tools
     else map_of tools' (mc_name c) = Some t \<and>
       (call_requires_approval (bc_policy cx) None tools c \<or>
        \<not> call_requires_approval (bc_policy cx) (manager_servers (tw_manager w)) tools' c)"
  using assms
  by (auto simp: resolve_call_tool_def recover_with_approval_check_def
      split: option.splits prod.splits if_splits dest: recovered_on_map)

lemma pre_checked:
  assumes "pre_check_tool_call show cx w c args tools = (Inr t, tools')"
  shows "resolve_call_tool cx w c tools = (Inr t, tools') \<and> mc_name c \<notin> {[], ''unknown''} \<and>
    widget_access_denied show (tw_widgets w) (mc_name c) args (bc_conversation cx) = None \<and>
    client_scope_refusal (mc_name c) cx = None \<and> client_device_error show t (bc_device cx) (mc_name c) = None"
  using assms
  by (auto simp: pre_check_tool_call_def device_binding_refusal_def
      split: option.splits prod.splits sum.splits if_splits)

lemma append_ran [simp]:
  "tb_ran (append_error r i name args content detail b) = tb_ran b"
  "tb_ran (append_refusal r i name args e b) = tb_ran b"
  "tb_ran (append_exception r i name args ex b) = tb_ran b"
  "tb_ran (finish_result rt n c args t v b) = tb_ran b"
  by (auto simp: append_error_def append_refusal_def append_exception_def finish_result_def append_result_def Let_def
      split: prod.splits option.splits)

lemma finish_ran [simp]: "tb_ran (batch_of (finish_call rt n c args t e b)) = tb_ran b"
  by (simp add: finish_call_def split: call_end.split)

lemma run_call_ran:
  "tb_ran (batch_of (run_call rt n c b)) = tb_ran b \<or>
   (\<exists>t tools. pre_check_tool_call (re_show (rt_renderer rt)) (rt_context rt) (rt_before rt n) c (bound_args rt c) (tb_map b)
        = (Inr t, tools) \<and>
      tb_ran (batch_of (run_call rt n c b)) = tb_ran b @
        [\<lparr>xc_position = n, xc_call = c, xc_tool = t, xc_before = tb_map b, xc_after = tools\<rparr>])"
  by (simp add: run_call_def split: prod.split sum.split)

lemma run_call_lawful:
  assumes "x \<in> set (tb_ran (batch_of (run_call rt n c b)))" and "x \<notin> set (tb_ran b)"
  shows "found_or_asked rt x \<and> checked_call rt x \<and> xc_call x = c"
proof -
  from run_call_ran [of rt n c b] assms obtain t tools where
    p: "pre_check_tool_call (re_show (rt_renderer rt)) (rt_context rt) (rt_before rt n) c (bound_args rt c) (tb_map b)
        = (Inr t, tools)" and
    x: "x = \<lparr>xc_position = n, xc_call = c, xc_tool = t, xc_before = tb_map b, xc_after = tools\<rparr>"
    by auto
  from pre_checked [OF p] resolved_tool [OF pre_checked [OF p, THEN conjunct1]] show ?thesis by (simp add: found_or_asked_def checked_call_def Let_def x)
qed

lemma run_calls_lawful:
  "x \<in> set (tb_ran (batch_of (run_calls rt n calls b))) \<Longrightarrow> x \<notin> set (tb_ran b) \<Longrightarrow>
   found_or_asked rt x \<and> checked_call rt x \<and> xc_call x \<in> set calls"
proof (induction calls arbitrary: n b)
  case (Cons c cs)
  show ?case
  proof (cases "x \<in> set (tb_ran (batch_of (run_call rt n c b)))")
    case True
    with run_call_lawful Cons.prems(2) show ?thesis by fastforce
  next
    case False
    with Cons.prems obtain b1 where "run_call rt n c b = Going b1" "x \<notin> set (tb_ran b1)"
      "x \<in> set (tb_ran (batch_of (run_calls rt (Suc n) cs b1)))"
      by (auto split: batch_end.splits)
    from Cons.IH [OF this(3) this(2)] show ?thesis by simp
  qed
qed simp

lemma recovered_tool_rechecked:
  assumes "x \<in> set (tb_ran (batch_of (execute_tool_calls rt calls tools)))"
    and "map_of (xc_before x) (mc_name (xc_call x)) = None"
  shows "map_of (xc_after x) (mc_name (xc_call x)) = Some (xc_tool x) \<and>
    (call_requires_approval (bc_policy (rt_context rt)) None (xc_before x) (xc_call x) \<or>
     \<not> call_requires_approval (bc_policy (rt_context rt))
         (manager_servers (tw_manager (rt_before rt (xc_position x)))) (xc_after x) (xc_call x))"
proof -
  from run_calls_lawful [OF assms(1) [unfolded execute_tool_calls_def]] have "found_or_asked rt x" by simp
  then show ?thesis by (simp add: found_or_asked_def Let_def assms(2))
qed

text \<open>
  C38: No call of a batch reaches its tool past a check: a tool bound to a device runs only in a call from that
  device, a client-only scope never reaches the web tools of the server, and a widget that the store gives to
  another conversation is never touched. A tool that recovery had to bind for the call runs only if the policy,
  asked again with the tool's own metadata, wants no approval for it, or wanted one before, so that the call
  came here approved.
\<close>

theorem ran_calls_checked:
  assumes "x \<in> set (tb_ran (batch_of (execute_tool_calls rt calls tools)))"
    and "cx = rt_context rt" and "show = re_show (rt_renderer rt)" and "name = mc_name (xc_call x)"
    and "md = tool_metadata (xc_tool x)"
  shows "xc_call x \<in> set calls \<and>
    (is_client_tool (xc_tool x) \<and> meta_truthy (meta_get md ''device_id'') \<longrightarrow>
       bc_device cx = Some (meta_text show (meta_get md ''device_id''))) \<and>
    (is_client_only_scope (bc_tool_scope cx) \<longrightarrow> name \<notin> {''web_search'', ''web_open''}) \<and>
    (\<forall>d conversation owner. name \<in> {''widget_get_state'', ''widget_update'', ''widget_close''} \<and>
       mc_args (xc_call x) = MDict d \<and> bc_conversation cx = Some conversation \<and> conversation \<noteq> [] \<and>
       py_strip (meta_text_or show (meta_get d ''widget_id'') []) \<noteq> [] \<and>
       tw_widgets (rt_before rt (xc_position x)) (py_strip (meta_text_or show (meta_get d ''widget_id'') [])) = WidgetOf owner \<longrightarrow>
       owner = conversation) \<and>
    (map_of (xc_before x) name = None \<longrightarrow>
       map_of (xc_after x) name = Some (xc_tool x) \<and>
       (call_requires_approval (bc_policy cx) None (xc_before x) (xc_call x) \<or>
        \<not> call_requires_approval (bc_policy cx) (manager_servers (tw_manager (rt_before rt (xc_position x)))) (xc_after x)
            (xc_call x)))"
proof -
  from run_calls_lawful [OF assms(1) [unfolded execute_tool_calls_def]]
  have x: "checked_call rt x" "xc_call x \<in> set calls" by simp_all
  have dev: "bc_device cx = Some (meta_text show (meta_get md ''device_id''))"
    if "is_client_tool (xc_tool x)" "meta_truthy (meta_get md ''device_id'')"
    using x(1) that by (auto simp: assms checked_call_def Let_def client_device_error_def split: if_splits)
  have web: "name \<notin> {''web_search'', ''web_open''}" if "is_client_only_scope (bc_tool_scope cx)"
    using x(1) that by (auto simp: assms checked_call_def Let_def client_scope_refusal_def SERVER_ONLY_WEB_TOOL_NAMES_def
        split: if_splits)
  have wid: "owner = c"
    if w: "name \<in> {''widget_get_state'', ''widget_update'', ''widget_close''}" and d: "mc_args (xc_call x) = MDict d"
      and c: "bc_conversation cx = Some c" "c \<noteq> []" and i: "py_strip (meta_text_or show (meta_get d ''widget_id'') []) \<noteq> []"
      and o': "tw_widgets (rt_before rt (xc_position x)) (py_strip (meta_text_or show (meta_get d ''widget_id'') [])) = WidgetOf owner"
    for d c owner
  proof -
    from w have n: "name \<in> set WIDGET_ID_SCOPED_TOOLS" and "name \<notin> set WIDGET_SESSION_BOUND_TOOLS"
      by (auto simp: WIDGET_ID_SCOPED_TOOLS_def WIDGET_SESSION_BOUND_TOOLS_def)
    then have "bound_args rt (xc_call x) = MDict d" using d by (simp add: bound_args_def bind_widget_session_args_def assms)
    with x(1) have "widget_access_denied show (tw_widgets (rt_before rt (xc_position x))) name (MDict d) (Some c) = None"
      using c(1) by (simp add: checked_call_def Let_def assms)
    with n c(2) i o' show ?thesis by (simp add: widget_access_denied_def Let_def split: if_splits)
  qed
  note found = recovered_tool_rechecked [OF assms(1), folded assms(2,4)]
  show ?thesis
    by (intro conjI allI impI; (elim conjE)?)
      (rule x(2), (rule dev; assumption), (rule web; assumption), (rule wid; assumption), (drule found, blast)+)
qed

lemma plain_call_checked:
  assumes "map_of tools name = Some t" "name = mc_name c" "name \<notin> {[], ''unknown''}" "name \<notin> set WIDGET_ID_SCOPED_TOOLS"
    "name \<notin> set SERVER_ONLY_WEB_TOOL_NAMES" "\<not> is_client_tool t"
  shows "pre_check_tool_call show cx w c args tools = (Inr t, tools)"
  using assms
  by (simp add: pre_check_tool_call_def widget_access_denied_def resolve_call_tool_def client_scope_refusal_def
      device_binding_refusal_def client_device_error_def Let_def)

lemma run_call_plain:
  assumes "pre_check_tool_call (re_show (rt_renderer rt)) (rt_context rt) (rt_before rt n) c (bound_args rt c) (tb_map b)
      = (Inr t, tools)"
  shows "tb_ran (batch_of (run_call rt n c b)) =
    tb_ran b @ [\<lparr>xc_position = n, xc_call = c, xc_tool = t, xc_before = tb_map b, xc_after = tools\<rparr>]"
  using assms by (simp add: run_call_def)

lemma run_calls_keeps_ran: "set (tb_ran b) \<subseteq> set (tb_ran (batch_of (run_calls rt n calls b)))"
proof (induction calls arbitrary: n b)
  case (Cons c cs)
  have "set (tb_ran b) \<subseteq> set (tb_ran (batch_of (run_call rt n c b)))" using run_call_ran [of rt n c b] by auto
  with Cons.IH show ?case by (fastforce split: batch_end.split)
qed simp

text \<open>
  C39: A tool that a call of the same batch put on the map is not asked about again: the next call runs it whatever
  the policy says of it, although the gate judged that call on a map that did not have the tool.
\<close>

theorem loaded_tool_not_rechecked:
  assumes "run_call rt 0 s \<lparr>tb_outputs = [], tb_artifacts = [], tb_map = tools, tb_ran = []\<rparr> = Going b"
    and "map_of (tb_map b) (mc_name c) = Some t" and "mc_name c \<notin> {[], ''unknown''}"
    and "mc_name c \<notin> set WIDGET_ID_SCOPED_TOOLS" and "mc_name c \<notin> set SERVER_ONLY_WEB_TOOL_NAMES" and "\<not> is_client_tool t"
  shows "\<lparr>xc_position = 1, xc_call = c, xc_tool = t, xc_before = tb_map b, xc_after = tb_map b\<rparr> \<in>
    set (tb_ran (batch_of (execute_tool_calls rt (s # c # cs) tools)))"
proof -
  let ?x = "\<lparr>xc_position = 1, xc_call = c, xc_tool = t, xc_before = tb_map b, xc_after = tb_map b\<rparr>"
  note plain_call_checked [OF assms(2) refl assms(3-6)]
  from run_call_plain [where n = 1, OF this] have x: "?x \<in> set (tb_ran (batch_of (run_call rt 1 c b)))" by simp
  show ?thesis
  proof (cases "run_call rt 1 c b")
    case (Going b2)
    with x run_calls_keeps_ran [of b2 rt 2 cs] show ?thesis
      by (auto simp: execute_tool_calls_def assms(1) numeral_2_eq_2)
  next
    case (Left d b2)
    with x show ?thesis by (simp add: execute_tool_calls_def assms(1))
  qed
qed

section \<open>Receipts\<close>

text \<open>
  What a receipt says after the call, by the end of the tool: a value whose mount record fails is an error, with
  the text of that failure.
\<close>

definition receipt_after :: "batch_runtime \<Rightarrow> model_call \<Rightarrow> bound_tool \<Rightarrow> meta_value call_end \<Rightarrow> receipt_status" where
  "receipt_after rt c t e =
     (case e of
        Value v \<Rightarrow>
          (let r = rt_renderer rt;
               public = (if canonical_tool_name r t (mc_name c) = ''brave_image_search'' then re_public r v else v);
               err = structured_tool_error r public
           in case live_widget_failure r (mc_name c) (re_shown r (mc_name c) public err) of
                Some e \<Rightarrow> if e = [] then Completed else MutationReceipts.Failed
              | None \<Rightarrow> if truthy_str err then MutationReceipts.Failed else Completed)
      | ToolAttempts.Failed content detail \<Rightarrow> if ea_outcome_unknown detail then OutcomeUnknown else MutationReceipts.Failed
      | Exhausted \<Rightarrow> MutationReceipts.Failed
      | BadInvocationKind \<Rightarrow> MutationReceipts.Failed
      | _ \<Rightarrow> Reserved)"

definition outcome_status :: "call_outcome \<Rightarrow> receipt_status" where
  "outcome_status oc =
     (case oc of Returned r \<Rightarrow> Completed | Raised e \<Rightarrow> MutationReceipts.Failed | Unknown \<Rightarrow> OutcomeUnknown | Bubbled \<Rightarrow> Reserved)"

lemma fresh_receipt_status:
  assumes "insertable (execution_key digest m) m db"
  shows "\<exists>r \<in> set (rd_receipts (snd (snd (execute_mutation digest m a call now db)))).
    owned_receipt (execution_key digest m) m r \<and> rc_status r = outcome_status (call (offered_key m a (execution_key digest m)))"
  using assms
  by (auto simp: execute_mutation_def Let_def areserve_def admit_def fresh_record_def record_outcome_def outcome_status_def
      acomplete_def afail_def amark_outcome_unknown_def close_receipt_def owned_receipt_def new_receipt_def
      split: call_outcome.split)

text \<open>A value leaves one artifact, an error if the receipt is to fail.\<close>

lemma artifact_known [simp]: "\<not> ca_outcome_unknown (build_tool_artifact r i name args text err)"
  by (simp add: build_tool_artifact_def Let_def)

lemma result_artifact:
  assumes "tb_artifacts b = []"
  obtains a where "tb_artifacts (finish_result rt n c args t v b) = [a]" "\<not> ca_outcome_unknown a"
    "receipt_after rt c t (Value v) = (if ca_status a = ''error'' then MutationReceipts.Failed else Completed)"
proof -
  let ?r = "rt_renderer rt"
  define seen where "seen = (if canonical_tool_name ?r t (mc_name c) = ''brave_image_search'' then re_public ?r v else v)"
  define err where "err = structured_tool_error ?r seen"
  define said where "said = re_shown ?r (mc_name c) seen err"
  note defs = finish_result_def append_result_def receipt_after_def Let_def seen_def [symmetric] err_def [symmetric]
    said_def [symmetric]
  show ?thesis
  proof (cases "live_widget_failure ?r (mc_name c) said")
    case None
    show ?thesis
      by (rule that [of "build_tool_artifact ?r (mc_id c) (mc_name c) args said err"]) (simp_all add: defs None assms)
  next
    case (Some e)
    show ?thesis
      by (rule that [of "build_tool_artifact ?r (mc_id c) (mc_name c) args (re_shown ?r (mc_name c) (MStr (''Error: '' @ e)) (Some e)) (Some e)"])
        (simp_all add: defs Some assms append_exception_def truthy_str_def)
  qed
qed

lemma run_message_error: "tm_error (run_message c b) = list_ex (\<lambda>a. ca_status a = ''error'') (tb_artifacts b)"
  by (simp add: run_message_def Let_def split: list.split)

lemma single_call_outcome:
  assumes "pre_check_tool_call (re_show (rt_renderer rt)) (rt_context rt) (rt_before rt 0) c (bound_args rt c) tools
      = (Inr t, tools')"
  shows "outcome_status (run_outcome c (execute_tool_calls rt [c] tools) key) =
    receipt_after rt c t (cr_end (invoked rt 0 t (mc_name c) tools'))"
proof (cases "cr_end (invoked rt 0 t (mc_name c) tools')")
  case (Value v)
  let ?b = "\<lparr>tb_outputs = [], tb_artifacts = [], tb_map = cr_tool_map (invoked rt 0 t (mc_name c) tools'),
    tb_ran = [\<lparr>xc_position = 0, xc_call = c, xc_tool = t, xc_before = tools, xc_after = tools'\<rparr>]\<rparr>"
  have run: "execute_tool_calls rt [c] tools = Going (finish_result rt 0 c (bound_args rt c) t v ?b)"
    using assms by (simp add: execute_tool_calls_def run_call_def finish_call_def Value)
  obtain a where a: "tb_artifacts (finish_result rt 0 c (bound_args rt c) t v ?b) = [a]" "\<not> ca_outcome_unknown a"
    "receipt_after rt c t (Value v) = (if ca_status a = ''error'' then MutationReceipts.Failed else Completed)"
    by (rule result_artifact [of ?b]) simp_all
  show ?thesis unfolding run Value a(3)
    by (simp add: run_outcome_def run_message_error outcome_unknown_def outcome_status_def invoke_tool_def a(1,2))
next
  case (Failed content detail)
  with assms show ?thesis
    by (simp add: execute_tool_calls_def run_call_def finish_call_def append_error_def
        run_outcome_def invoke_tool_def run_message_def outcome_unknown_def outcome_status_def receipt_after_def Let_def)
qed (use assms in \<open>simp_all add: execute_tool_calls_def run_call_def finish_call_def append_exception_def
        run_outcome_def invoke_tool_def run_message_def outcome_unknown_def outcome_status_def receipt_after_def
        build_tool_artifact_def exhausted_text_def invocation_kind_text_def truthy_str_def Let_def\<close>)

text \<open>
  C40: The receipt of a mutation says what its tool did. A first call that passes the checks leaves the row of its
  key completed after a value, failed after an error, also one the value states or the mount record of a widget
  raises, unknown after a failure whose effect may have happened, and reserved when the call was left.
\<close>

theorem receipt_says_what_happened:
  assumes "call_scope rt cx bound c tools = Some m" and "insertable (execution_key digest m) m db"
    and "\<not> returns_control_command (map_of tools (mc_name c))"
    and "pre_check_tool_call (re_show (rt_renderer rt)) (rt_context rt) (rt_before rt 0) c (bound_args rt c) tools
      = (Inr t, tools')"
  shows "\<exists>r \<in> set (rd_receipts (snd (execution_awrap_tool_call rt digest unknown_text cx bound now flag c tools db))).
    owned_receipt (execution_key digest m) m r \<and>
    rc_status r = receipt_after rt c t (cr_end (invoked rt 0 t (mc_name c) tools'))"
proof -
  have "snd (execution_awrap_tool_call rt digest unknown_text cx bound now flag c tools db) =
      snd (snd (execute_mutation digest m True (run_outcome c (execute_tool_calls rt [c] tools)) now db))"
    by (simp add: execution_awrap_tool_call_def assms(1,3) split: prod.split option.split)
  with fresh_receipt_status [OF assms(2), of True "run_outcome c (execute_tool_calls rt [c] tools)" now]
  show ?thesis by (simp only: single_call_outcome [OF assms(4)])
qed

section \<open>Examples\<close>

definition batch_sample_renderer :: renderer where
  "batch_sample_renderer = \<lparr>re_show = (\<lambda>v. ''v''), re_error = (\<lambda>e. error_kind_value (ec_error_type e)), re_dumps = (\<lambda>v. ''v''),
     re_loads = (\<lambda>s. None), re_int_error = (\<lambda>v. ''int''),
     re_shown = (\<lambda>name v err. case v of MStr s \<Rightarrow> s | _ \<Rightarrow> []), re_public = id, re_max_chars = 0\<rparr>"

definition server_sample_tool :: "string \<Rightarrow> bool \<Rightarrow> bound_tool" where
  "server_sample_tool name mutation =
     \<lparr>bt_metadata = Some [(''tool_origin'', MStr ''server_mcp''), (''server_name'', MStr ''db''),
        (''qualified_tool_id'', MStr (''db::'' @ name)), (''mutation'', MBool mutation)], bt_name = name\<rparr>"

definition search_sample_tool :: bound_tool where
  "search_sample_tool = \<lparr>bt_metadata = None, bt_name = ''tool_search''\<rparr>"

definition batch_sample_context :: batch_context where
  "batch_sample_context = \<lparr>bc_search_enabled = True,
     bc_policy = \<lparr>ap_master_enabled = True, ap_client_rules = [], ap_global_tools = []\<rparr>,
     bc_agent = None, bc_conversation = Some ''c'', bc_device = None, bc_tool_scope = None\<rparr>"

text \<open>The search has loaded the tools \<open>drop\<close>, which changes a table, and \<open>look\<close>, which does not.\<close>

definition batch_sample_world :: tool_world where
  "batch_sample_world = \<lparr>tw_manager = Manager (Some []) (\<lambda>t. Some ''db''), tw_bound = None,
     tw_deferred = Some [server_sample_tool ''drop'' True, server_sample_tool ''look'' False],
     tw_loaded_client = Some [], tw_client_tools = Some [], tw_alias = (\<lambda>s. None), tw_widgets = (\<lambda>s. WidgetOf ''c'')\<rparr>"

definition batch_sample_runtime :: "meta_value task_end \<Rightarrow> batch_runtime" where
  "batch_sample_runtime e = \<lparr>rt_renderer = batch_sample_renderer, rt_seconds = (\<lambda>r. ''s''), rt_read = no_reader,
     rt_asynchronous = (\<lambda>t. True), rt_settings = demo_execution_settings, rt_context = batch_sample_context,
     rt_before = (\<lambda>n. batch_sample_world), rt_after = (\<lambda>n. batch_sample_world),
     rt_env = (\<lambda>n. \<lparr>ce_run = (\<lambda>i t. \<lparr>tr_end = Some (1, e), tr_end_cancelled = None, tr_abandoned = None\<rparr>),
       ce_reconnect = (\<lambda>i. \<lparr>rn_end = None, rn_abandoned = None\<rparr>)\<rparr>)\<rparr>"

definition sample_call :: "string \<Rightarrow> model_call" where
  "sample_call name = \<lparr>mc_id = name, mc_name = name, mc_args = MDict [(''widget_id'', MStr ''w'')]\<rparr>"

definition search_map :: tool_map where
  "search_map = [(''tool_search'', search_sample_tool), (''widget_close'', server_sample_tool ''widget_close'' False)]"

definition found_batch :: tool_batch where
  "found_batch = batch_of (rag_tool_batch (batch_sample_runtime (Finished (MStr ''ok'')))
     [sample_call ''tool_search'', sample_call ''drop''] search_map)"

definition looked_batch :: tool_batch where
  "looked_batch = batch_of (execute_tool_calls (batch_sample_runtime (Finished (MStr ''ok'')))
     [sample_call ''look'', sample_call ''drop'', sample_call ''widget_close'', sample_call ''unknown''] search_map)"

lemma looked_batch_value:
  "map co_id (tb_outputs looked_batch) = [''look'', ''drop'', ''widget_close'', ''unknown''] \<and>
   map (\<lambda>x. mc_name (xc_call x)) (tb_ran looked_batch) = [''look'', ''drop'', ''widget_close'']"
  by code_simp

definition looked_end :: batch_end where
  "looked_end = execute_tool_calls (batch_sample_runtime (Finished (MStr ''ok'')))
     [sample_call ''look'', sample_call ''drop'', sample_call ''widget_close'', sample_call ''unknown''] search_map"

lemma looked_end_going: "looked_end = Going looked_batch"
proof -
  have "case looked_end of Going b \<Rightarrow> True | Left d b \<Rightarrow> False" by code_simp
  then show ?thesis by (auto simp: looked_end_def looked_batch_def split: batch_end.splits)
qed

theorem calls_answered_in_order_witness:
  "map co_id (tb_outputs looked_batch) = [''look'', ''drop'', ''widget_close'', ''unknown'']"
  using calls_answered_in_order [OF looked_end_going [unfolded looked_end_def]]
  by (simp add: sample_call_def WIDGET_ARTIFACT_TOOLS_def)

definition looked_call :: "nat \<Rightarrow> ran_call" where
  "looked_call i = tb_ran looked_batch ! i"

lemma looked_call_ran:
  assumes "i < 3"
  shows "looked_call i \<in> set (tb_ran (batch_of (execute_tool_calls (batch_sample_runtime (Finished (MStr ''ok'')))
     [sample_call ''look'', sample_call ''drop'', sample_call ''widget_close'', sample_call ''unknown''] search_map)))"
proof -
  from looked_batch_value have "length (map (\<lambda>x. mc_name (xc_call x)) (tb_ran looked_batch)) = 3" by simp
  then have "length (tb_ran looked_batch) = 3" by simp
  with assms have "looked_call i \<in> set (tb_ran looked_batch)" unfolding looked_call_def by (intro nth_mem) simp
  then show ?thesis by (simp add: looked_batch_def)
qed

lemma looked_calls:
  "mc_name (xc_call (looked_call 2)) = ''widget_close'' \<and> mc_name (xc_call (looked_call 0)) = ''look'' \<and>
   map_of (xc_before (looked_call 0)) ''look'' = None \<and>
   xc_tool (looked_call 0) = server_sample_tool ''look'' False \<and> xc_tool (looked_call 1) = server_sample_tool ''drop'' True \<and>
   \<not> call_requires_approval (bc_policy batch_sample_context) None (xc_before (looked_call 0)) (xc_call (looked_call 0))"
  by code_simp

theorem ran_calls_checked_witness:
  "\<not> call_requires_approval (bc_policy batch_sample_context) (Some (\<lambda>t. Some ''db'')) (xc_after (looked_call 0)) (xc_call (looked_call 0))"
proof -
  have w: "manager_servers (tw_manager (rt_before (batch_sample_runtime e) n)) = Some (\<lambda>t. Some ''db'')"
    "rt_context (batch_sample_runtime e) = batch_sample_context" for e n
    by (simp_all add: batch_sample_runtime_def batch_sample_world_def manager_servers_def)
  have "0 < (3 :: nat)" by simp
  from ran_calls_checked [OF looked_call_ran [OF this] refl refl refl refl, THEN conjunct2, THEN conjunct2, THEN conjunct2,
      THEN conjunct2] looked_calls
  show ?thesis by (simp add: w)
qed

text \<open>The gate of the retrieval agent asks about neither call; the second one drops the table unasked.\<close>

definition searched_batch :: tool_batch where
  "searched_batch = batch_of (run_call (batch_sample_runtime (Finished (MStr ''ok''))) 0 (sample_call ''tool_search'')
     \<lparr>tb_outputs = [], tb_artifacts = [], tb_map = search_map, tb_ran = []\<rparr>)"

lemma searched:
  "case run_call (batch_sample_runtime (Finished (MStr ''ok''))) 0 (sample_call ''tool_search'')
     \<lparr>tb_outputs = [], tb_artifacts = [], tb_map = search_map, tb_ran = []\<rparr> of Going b \<Rightarrow> True | Left d b \<Rightarrow> False"
  "map_of (tb_map searched_batch) ''drop'' = Some (server_sample_tool ''drop'' True)"
  "\<not> is_client_tool (server_sample_tool ''drop'' True)"
  "split_gated_calls (bc_policy batch_sample_context) (Some (\<lambda>t. Some ''db'')) search_map
     [sample_call ''tool_search'', sample_call ''drop''] = ([sample_call ''tool_search'', sample_call ''drop''], [])"
  "call_requires_approval (bc_policy batch_sample_context) (Some (\<lambda>t. Some ''db'')) (tb_map searched_batch) (sample_call ''drop'')"
  by code_simp+

theorem loaded_tool_not_rechecked_witness:
  "(\<exists>x \<in> set (tb_ran found_batch). xc_call x = sample_call ''drop'' \<and> xc_tool x = server_sample_tool ''drop'' True) \<and>
   split_gated_calls (bc_policy batch_sample_context) (Some (\<lambda>t. Some ''db'')) search_map
     [sample_call ''tool_search'', sample_call ''drop''] = ([sample_call ''tool_search'', sample_call ''drop''], []) \<and>
   call_requires_approval (bc_policy batch_sample_context) (Some (\<lambda>t. Some ''db'')) (tb_map searched_batch) (sample_call ''drop'')"
proof -
  let ?rt = "batch_sample_runtime (Finished (MStr ''ok''))"
  have going: "run_call ?rt 0 (sample_call ''tool_search'')
     \<lparr>tb_outputs = [], tb_artifacts = [], tb_map = search_map, tb_ran = []\<rparr> = Going searched_batch"
    using searched(1) by (auto simp: searched_batch_def split: batch_end.splits)
  have rag: "found_batch = batch_of (execute_tool_calls ?rt [sample_call ''tool_search'', sample_call ''drop''] search_map)"
    using searched(4) by (simp add: found_batch_def rag_tool_batch_def batch_sample_runtime_def batch_sample_world_def manager_servers_def)
  have n: "mc_name (sample_call ''drop'') = ''drop''" by (simp add: sample_call_def)
  from loaded_tool_not_rechecked [OF going, of "sample_call ''drop''" "server_sample_tool ''drop'' True" "[]"]
  have "\<exists>x \<in> set (tb_ran found_batch). xc_call x = sample_call ''drop'' \<and> xc_tool x = server_sample_tool ''drop'' True"
    using searched(2,3) by (force simp: n rag WIDGET_ID_SCOPED_TOOLS_def SERVER_ONLY_WEB_TOOL_NAMES_def)
  with searched(4,5) show ?thesis by simp
qed

text \<open>A connection that broke after the request was sent is recorded as a failure.\<close>

definition broken_map :: tool_map where
  "broken_map = [(''drop'', server_sample_tool ''drop'' True)]"

definition sample_turn :: call_context where
  "sample_turn = \<lparr>cx_has_service = True, cx_thread_id = Some ''t'', cx_turn_id = Some ''u'', cx_conversation_id = Some 2,
     cx_user_id = Some 1, cx_dispatch_id = ''d'', cx_task_id = ''a''\<rparr>"

definition broken_scope :: mutation_scope where
  "broken_scope = (demo_scope ''a'' ''drop'')\<lparr>mu_tool_id := ''db::drop''\<rparr>"

definition broken_end :: "exception_class \<Rightarrow> meta_value task_end" where
  "broken_end k = Raises (Plain k ''lost'')"

lemma broken_values:
  "call_scope (batch_sample_runtime (broken_end k)) sample_turn [] (sample_call ''drop'') broken_map = Some broken_scope"
  "insertable (execution_key id broken_scope) broken_scope (demo_receipts [])"
  "\<not> returns_control_command (map_of broken_map (mc_name (sample_call ''drop'')))"
  by code_simp+

lemma broken_outcomes:
  "receipt_after (batch_sample_runtime (broken_end IsBrokenResource)) (sample_call ''drop'') (server_sample_tool ''drop'' True)
     (cr_end (invoked (batch_sample_runtime (broken_end IsBrokenResource)) 0 (server_sample_tool ''drop'' True) ''drop'' broken_map)) =
   MutationReceipts.Failed"
  "receipt_after (batch_sample_runtime (broken_end IsTimeout)) (sample_call ''drop'') (server_sample_tool ''drop'' True)
     (cr_end (invoked (batch_sample_runtime (broken_end IsTimeout)) 0 (server_sample_tool ''drop'' True) ''drop'' broken_map)) =
   OutcomeUnknown"
  by code_simp+

theorem receipt_says_what_happened_witness:
  "\<exists>r \<in> set (rd_receipts (snd (execution_awrap_tool_call (batch_sample_runtime (broken_end IsBrokenResource)) id ''?'' sample_turn [] 1 False
      (sample_call ''drop'') broken_map (demo_receipts [])))). rc_status r = MutationReceipts.Failed"
proof -
  have p: "pre_check_tool_call (re_show (rt_renderer (batch_sample_runtime e))) (rt_context (batch_sample_runtime e))
     (rt_before (batch_sample_runtime e) 0) (sample_call ''drop'') (bound_args (batch_sample_runtime e) (sample_call ''drop''))
     broken_map = (Inr (server_sample_tool ''drop'' True), broken_map)" for e
    by (rule plain_call_checked [where name = "''drop''"])
      (simp_all add: broken_map_def sample_call_def searched(3) WIDGET_ID_SCOPED_TOOLS_def SERVER_ONLY_WEB_TOOL_NAMES_def)
  have n: "mc_name (sample_call ''drop'') = ''drop''" by (simp add: sample_call_def)
  from receipt_says_what_happened [OF broken_values(1) [of IsBrokenResource] broken_values(2,3) p]
  show ?thesis unfolding n broken_outcomes by blast
qed

end
