(* ===== verification/Spec2Isabelle.thy ===== *)
theory Spec2Isabelle
  imports GenerationReaper TurnCoordinator ResearchBudget DeferredTools PlanningCalls PlanningAnswer CompactionJobs InterruptStore ToolCalls
begin

text \<open>
  A multi-agent chat backend: requests become turns of a conversation, a graph of agents works a turn
  off in epochs, and the services around it keep what is durable. The theories model the parts of
  \<^verbatim>\<open>src/app\<close> that decide what may happen: state machines on database rows, budgets, leases, locks,
  dispatch of work, validation of answers. Every definition is translated from the source it is mapped
  to; models, providers, hashes, clocks, Pydantic readers and JSON parsers are arguments.

  \<^bold>\<open>How the parts interact.\<close> A request takes the lock of its conversation (\<^verbatim>\<open>TurnCoordinator\<close>) and creates a
  generation, one row per turn (\<^verbatim>\<open>GenerationModel\<close>, \<^verbatim>\<open>GenerationRepo\<close>). The router picks an agent of the
  request's inventory and agents hand the turn on (\<^verbatim>\<open>WorkflowRouting\<close>); Planning delegates to workers
  instead (\<^verbatim>\<open>Planning\<close>, with the plan of \<^verbatim>\<open>TodoActions\<close>). All of them spend the budget of the epoch
  (\<^verbatim>\<open>ExecutionBudget\<close>), web searches that of the turn (\<^verbatim>\<open>ResearchBudget\<close>), and use the tools the
  conversation loaded (\<^verbatim>\<open>DeferredTools\<close>). The answer is validated and published, or fails
  (\<^verbatim>\<open>Finalization\<close>); an exhausted epoch pauses and may be continued (\<^verbatim>\<open>Continuation\<close>). Stop and Continue
  of a client, and the reaper of dead workers, act on the generation row from outside
  (\<^verbatim>\<open>GenerationControl\<close>, \<^verbatim>\<open>GenerationReaper\<close>). Beside the turns, workers compact old messages to a memory
  (\<^verbatim>\<open>CompactionStore\<close>, \<^verbatim>\<open>Compactor\<close>), and a request that is too long is reduced (\<^verbatim>\<open>RequestBudget\<close>).

  \<^bold>\<open>Shared theories.\<close> \<^verbatim>\<open>Prelude\<close>: Python values, dictionaries as association lists, stripping and splitting,
  effectful operations with exceptions, finding rows by key. \<^verbatim>\<open>PyText\<close>: numbers, case, \<^verbatim>\<open>repr\<close> and JSON of
  values. \<^verbatim>\<open>LruStore\<close>: a bounded dictionary in order of use. \<^verbatim>\<open>FencedStore\<close>: the contract of a store of
  versioned rows, a locale that \<^verbatim>\<open>GenerationRepo\<close> interprets.

  \<^bold>\<open>Generations.\<close> \<^verbatim>\<open>GenerationModel\<close> (\<^verbatim>\<open>models/generation.py\<close>, \<^verbatim>\<open>schemas/generation.py\<close>),
  \<^verbatim>\<open>GenerationRepo\<close> (\<^verbatim>\<open>repositories/generation.py\<close>), \<^verbatim>\<open>GenerationControl\<close>
  (\<^verbatim>\<open>services/generation_control_service.py\<close>) and \<^verbatim>\<open>GenerationReaper\<close> (\<^verbatim>\<open>services/generation_reaper.py\<close>,
  \<^verbatim>\<open>core/producer_identity.py\<close>). Each repository method is one transaction on two tables. A step of
  \<^verbatim>\<open>GenerationLifecycle\<close> is one transaction of any request, worker or reaper, so a run is any
  interleaving; it is shown to refine the status diagram, and \<^verbatim>\<open>GenerationCommands\<close> derives what clients
  rely on: replays of a key, stale commands, one winner per version, the wait for a stop.

  \<^bold>\<open>A turn.\<close> \<^verbatim>\<open>WorkflowContracts\<close> (\<^verbatim>\<open>ai/workflow/contracts.py\<close>, \<^verbatim>\<open>state.py\<close>, \<^verbatim>\<open>errors.py\<close>) holds what the graph
  passes on and its reducers; \<^verbatim>\<open>WorkflowRouting\<close> \<^verbatim>\<open>inventory.py\<close> and \<^verbatim>\<open>transitions.py\<close>;
  \<^verbatim>\<open>ExecutionBudget\<close> the accountant and its middleware; \<^verbatim>\<open>Finalization\<close> the seven output policies and the
  finalizer; \<^verbatim>\<open>Continuation\<close> the pause, the evidence carried on and the run of epochs. Shown are bounds on
  calls, handoffs and epochs, and that only grounded answers are published. \<^verbatim>\<open>Planning\<close>
  (\<^verbatim>\<open>planning_execution.py\<close>) defines the nodes, \<^verbatim>\<open>PlanningTurn\<close> runs them as a machine whose workers end in
  any order: it ends, dispatches within its limits and collects every task once. \<^verbatim>\<open>PlanningCalls\<close> shows every
  tool call answered once, \<^verbatim>\<open>PlanningAnswer\<close> that a validated synthesis cites only what workers found.

  \<^bold>\<open>Around the turns.\<close> \<^verbatim>\<open>TurnCoordinator\<close> interleaves the requests of all workers over one lock table; two turns
  of a conversation never overlap. \<^verbatim>\<open>ResearchBudget\<close> and \<^verbatim>\<open>DeferredTools\<close> are in-memory registries: what they
  remember is isolated by turn, device and session, stays within its bounds and survives a restore.
  \<^verbatim>\<open>CompactionStore\<close> (\<^verbatim>\<open>repositories/conversation_compaction.py\<close>) holds the tables and transactions of
  compaction, \<^verbatim>\<open>Compactor\<close> (\<^verbatim>\<open>ai/conversation_compactor.py\<close>, \<^verbatim>\<open>ai/conversation_memory.py\<close>,
  \<^verbatim>\<open>workers/conversation_compaction.py\<close>) the choice of what is compacted and the worker.
  \<^verbatim>\<open>CompactionRun\<close> lets them and the writers of messages interleave: the memory always stands for the
  transcript up to its cursor, as long as no message a worker has already loaded is changed; what happens
  then is shown too. \<^verbatim>\<open>CompactionJobs\<close> follows the jobs: their diagram, leases and attempts.
  \<^verbatim>\<open>MutationReceipts\<close> (\<^verbatim>\<open>services/tool_execution_receipt_service.py\<close>, its repository and the tool call of
  \<^verbatim>\<open>ai/workflow/middleware.py\<close>) shows when a mutating tool takes effect once however its replays interleave
  and die, and when it does not.
  \<^verbatim>\<open>ToolPolicy\<close> (\<^verbatim>\<open>ai/tool_execution_policy.py\<close> and its settings) resolves the deadlines and retries of a
  tool, \<^verbatim>\<open>ToolAttempts\<close> (\<^verbatim>\<open>ai/tool_error_policy.py\<close>, the retry loop of \<^verbatim>\<open>ai/tool_execution.py\<close>) runs a call
  under them: it ends in time, and nothing is repeated without a licence.
  \<^verbatim>\<open>ToolApproval\<close> (\<^verbatim>\<open>ai/hitl_config.py\<close>, the hooks of \<^verbatim>\<open>ai/workflow/middleware.py\<close>, \<^verbatim>\<open>ai/utils.py\<close>) holds which
  calls a human decides on before they run, what the human is shown and whom a decision reaches.
  \<^verbatim>\<open>DeviceDispatch\<close> and \<^verbatim>\<open>DeviceSessions\<close> (\<^verbatim>\<open>services/client_runtime_store.py\<close>,
  \<^verbatim>\<open>services/client_device_service.py\<close>) take a call to the device of its user: every command on the server is a
  step, as is the send of a gateway; a request reaches its device once at most, and once it is withdrawn no gateway
  passes it on that has not looked at its marker before; a session is opened by a token.
  \<^verbatim>\<open>InterruptStore\<close> (\<^verbatim>\<open>repositories/hitl_interrupt.py\<close>, the resume of \<^verbatim>\<open>services/message_service.py\<close>) keeps an
  approval until it is taken once, by a resume that finds the device session it was given for.
  \<^verbatim>\<open>ToolCalls\<close> (\<^verbatim>\<open>ai/tool_execution.py\<close>, the tool middleware of \<^verbatim>\<open>ai/workflow/middleware.py\<close> and the tool round
  of \<^verbatim>\<open>ai/workflow/rag_execution.py\<close>) puts these together: a batch of calls, each checked, its missing tool
  recovered, invoked and answered, and a mutation under its receipt. Shown are what reaches a tool and where
  the approval is not asked.

  \<^bold>\<open>Bounds and fuel.\<close> No definition runs on fuel: loops over lists are structural, the wait for a stop is a
  loop over the polls its caller makes, and turns are runs of a step relation with a measure. Integers are
  Python's, times are numbers of the unit the theory names, texts are ASCII.

  \<^bold>\<open>Not modelled.\<close> The HTTP routes and schemas (\<^verbatim>\<open>api\<close>, \<^verbatim>\<open>schemas\<close>) and, but for the checks of a resume, the
  message service only translate and orchestrate calls; the agents, prompts, model factory, MCP and web search
  talk to providers; document processing and retrieval wrap parsers and vector stores; the other services and
  repositories read and write single rows; \<^verbatim>\<open>demo.py\<close> and \<^verbatim>\<open>ui\<close> draw; \<^verbatim>\<open>alembic\<close> migrates; \<^verbatim>\<open>client_backend\<close> is
  the program on the device; metrics, tracing, logging and display texts have no effect on the state.
  Left out of what is modelled are the columns that the deletion of a referenced row sets to null, the widths of
  columns and \<^verbatim>\<open>updated_at\<close>; the loss of the database connection that holds the lock of a turn; the failure of
  the finalizer's normalisation; and stored results of a mutation whose content is not the text that was stored.
\<close>

end
